(* ===== verification/Esync_Prelude.thy ===== *)
theory Esync_Prelude
  imports Main "HOL-Library.Word" "HOL-Library.Sublist" "HOL-Library.Multiset"
begin

text \<open>
  The shared vocabulary of the development: bytes and byte strings, the big-endian integer
  codec of Go's \<^verbatim>\<open>encoding/binary\<close>, two's complement 64-bit arithmetic on \<open>int\<close>, and the
  list, option and map lemmas that several components use.

  Go's \<^verbatim>\<open>[]byte\<close> and \<^verbatim>\<open>string\<close> are both \<open>byte list\<close>; \<open>nil\<close> and the empty subslice are the
  same list, as no component of the program tells them apart. Unsigned integers keep their
  width as words; \<^verbatim>\<open>int64\<close> values are \<open>int\<close> with \<open>wrap64\<close> written where the code can overflow.
\<close>

named_theorems bytes_simps \<open>lengths and shapes of encoded fields\<close>
named_theorems reads_intros \<open>what a reader operation returns on the bytes a writer produced\<close>
named_theorems inv_simps \<open>unfolding of component invariants\<close>

section \<open>Bytes, words, strings\<close>

type_synonym byte = "8 word"
type_synonym bytes = "8 word list"
type_synonym u8 = "8 word"
type_synonym u16 = "16 word"
type_synonym u32 = "32 word"
type_synonym u64 = "64 word"

text \<open>A Go string literal as bytes.\<close>

definition ch :: "char \<Rightarrow> byte" where
  "ch c = word_of_nat (of_char c)"

definition str :: "string \<Rightarrow> bytes" where
  "str s = map ch s"

lemma length_str [simp, bytes_simps]: "length (str s) = length s"
  by (simp add: str_def)

lemma str_Nil [simp]: "str [] = []"
  by (simp add: str_def)

lemma str_append: "str (a @ b) = str a @ str b"
  by (simp add: str_def)

lemma ch_inject [simp]: "ch c = ch d \<longleftrightarrow> c = d"
proof
  assume "ch c = ch d"
  then have "(of_char c :: nat) mod 256 = of_char d mod 256"
    by (simp add: ch_def word_of_nat_eq_iff take_bit_eq_mod)
  then show "c = d" by (simp add: of_char_mod_256)
qed simp

lemma str_inject [simp]: "str a = str b \<longleftrightarrow> a = b"
  by (simp add: str_def inj_map_eq_map inj_def)

lemma str_Cons [simp]: "str (c # s) = ch c # str s"
  by (simp add: str_def)

section \<open>Big-endian integers\<close>

text \<open>
  \<open>be n x\<close> are the \<open>n\<close> low bytes of \<open>x\<close>, most significant first
  (\<^verbatim>\<open>binary.BigEndian.AppendUint16/32/64\<close>), and \<open>unbe\<close> reads them back
  (\<^verbatim>\<open>binary.BigEndian.Uint16/32/64\<close>).
\<close>

fun be :: "nat \<Rightarrow> nat \<Rightarrow> bytes" where
  "be 0 x = []"
| "be (Suc n) x = word_of_nat (x div 256 ^ n) # be n x"

definition unbe :: "bytes \<Rightarrow> nat" where
  "unbe bs = foldl (\<lambda>a b. a * 256 + unat b) 0 bs"

lemma length_be [simp, bytes_simps]: "length (be n x) = n"
  by (induction n) auto

lemma foldl_unbe: "foldl (\<lambda>a (b::byte). a * 256 + unat b) a bs = a * 256 ^ length bs + unbe bs"
proof (induction bs arbitrary: a)
  case Nil
  then show ?case by (simp add: unbe_def)
next
  case (Cons b bs)
  have "unbe (b # bs) = unat b * 256 ^ length bs + unbe bs"
    using Cons.IH [of "unat b"] by (simp add: unbe_def)
  then show ?case
    using Cons.IH [of "a * 256 + unat b"] by (simp add: algebra_simps)
qed

lemma unbe_Nil [simp]: "unbe [] = 0"
  by (simp add: unbe_def)

lemma unbe_Cons: "unbe (b # bs) = unat b * 256 ^ length bs + unbe bs"
  using foldl_unbe [of "unat b" bs] by (simp add: unbe_def)

lemma unat_byte_less [simp]: "unat (b :: byte) < 256"
  using unsigned_less [of b, where ?'a = nat] by simp

lemma unbe_less: "unbe bs < 256 ^ length bs"
proof (induction bs)
  case (Cons b bs)
  have "unat b \<le> 255" using unat_byte_less [of b] by linarith
  then have "unat b * 256 ^ length bs \<le> 255 * 256 ^ length bs" by simp
  with Cons have "unbe (b # bs) < 255 * 256 ^ length bs + 256 ^ length bs"
    unfolding unbe_Cons by (rule add_le_less_mono [rotated]) 
  then show ?case by simp
qed simp

lemma unbe_be: "unbe (be n x) = x mod 256 ^ n"
proof (induction n)
  case (Suc n)
  have "x mod 256 ^ Suc n = (x div 256 ^ n mod 256) * 256 ^ n + x mod 256 ^ n"
    using mod_mult2_eq [of x "256 ^ n" 256] by (simp add: mult.commute)
  then show ?case
    using Suc by (simp add: unbe_Cons unat_of_nat)
qed simp

lemma be_unbe: "length bs = n \<Longrightarrow> be n (unbe bs) = bs"
proof (induction n arbitrary: bs)
  case (Suc n)
  then obtain b bs' where bs: "bs = b # bs'" and len: "length bs' = n"
    by (cases bs) auto
  have shift: "be n (a * 256 ^ n + x) = be n x" if "x < 256 ^ n" for a x
  proof -
    have "m \<le> n \<Longrightarrow> be m (a * 256 ^ n + x) = be m x" for m
    proof (induction m)
      case (Suc m)
      then obtain k where k: "n = Suc m + k" using le_Suc_ex by blast
      have "(a * 256 ^ n + x) div 256 ^ m = a * 256 ^ Suc k + x div 256 ^ m"
      proof -
        have "a * 256 ^ n + x = x + 256 ^ m * (a * 256 ^ Suc k)"
          by (simp add: k power_add algebra_simps)
        then have "(a * 256 ^ n + x) div 256 ^ m = (x + 256 ^ m * (a * 256 ^ Suc k)) div 256 ^ m"
          by (rule arg_cong)
        also have "\<dots> = a * 256 ^ Suc k + x div 256 ^ m"
          by (rule div_mult_self2) simp
        finally show ?thesis .
      qed
      then have "(word_of_nat ((a * 256 ^ n + x) div 256 ^ m) :: byte) = word_of_nat (x div 256 ^ m)"
        by (simp only: word_of_nat_eq_iff take_bit_eq_mod) (simp add: mod_add_left_eq [symmetric])
      with Suc show ?case by simp
    qed simp
    then show ?thesis by simp
  qed
  have less: "unbe bs' < 256 ^ n" using unbe_less [of bs'] len by simp
  have "(unat b * 256 ^ n + unbe bs') div 256 ^ n = unat b"
    using less by simp
  then show ?case
    using Suc.IH [OF len] shift [OF less] by (simp add: bs len unbe_Cons)
qed simp

definition be16 :: "u16 \<Rightarrow> bytes" where "be16 v = be 2 (unat v)"
definition be32 :: "u32 \<Rightarrow> bytes" where "be32 v = be 4 (unat v)"
definition be64 :: "u64 \<Rightarrow> bytes" where "be64 v = be 8 (unat v)"

definition get16 :: "bytes \<Rightarrow> u16" where "get16 bs = word_of_nat (unbe (take 2 bs))"
definition get32 :: "bytes \<Rightarrow> u32" where "get32 bs = word_of_nat (unbe (take 4 bs))"
definition get64 :: "bytes \<Rightarrow> u64" where "get64 bs = word_of_nat (unbe (take 8 bs))"

lemma length_be_words [simp, bytes_simps]:
  "length (be16 a) = 2" "length (be32 b) = 4" "length (be64 c) = 8"
  by (simp_all add: be16_def be32_def be64_def)

lemma get16_be16 [simp]: "get16 (be16 v @ bs) = v"
  using unsigned_less [of v, where ?'a = nat]
  by (simp add: get16_def be16_def unbe_be)

lemma get32_be32 [simp]: "get32 (be32 v @ bs) = v"
  using unsigned_less [of v, where ?'a = nat]
  by (simp add: get32_def be32_def unbe_be)

lemma get64_be64 [simp]: "get64 (be64 v @ bs) = v"
  using unsigned_less [of v, where ?'a = nat]
  by (simp add: get64_def be64_def unbe_be)

lemma get_be_Nil [simp]: "get16 (be16 a) = a" "get32 (be32 b) = b" "get64 (be64 c) = c"
  using get16_be16 [of a "[]"] get32_be32 [of b "[]"] get64_be64 [of c "[]"] by simp_all

lemma be16_get16: "length bs = 2 \<Longrightarrow> be16 (get16 bs) = bs"
  using unbe_less [of bs] by (simp add: be16_def get16_def unat_of_nat be_unbe)

lemma be32_get32: "length bs = 4 \<Longrightarrow> be32 (get32 bs) = bs"
  using unbe_less [of bs] by (simp add: be32_def get32_def unat_of_nat be_unbe)

lemma be64_get64: "length bs = 8 \<Longrightarrow> be64 (get64 bs) = bs"
  using unbe_less [of bs] by (simp add: be64_def get64_def unat_of_nat be_unbe)

section \<open>Signed 64-bit arithmetic\<close>

text \<open>
  The value of an \<^verbatim>\<open>int64\<close> expression whose mathematical value is \<open>x\<close>: two's complement
  wrap-around.
\<close>

definition wrap64 :: "int \<Rightarrow> int" where
  "wrap64 x = (x + 2 ^ 63) mod 2 ^ 64 - 2 ^ 63"

definition is_int64 :: "int \<Rightarrow> bool" where
  "is_int64 x \<longleftrightarrow> - (2 ^ 63) \<le> x \<and> x < 2 ^ 63"

text \<open>\<^verbatim>\<open>int64(v)\<close> of an unsigned 64-bit value, and \<^verbatim>\<open>uint64(x)\<close> back.\<close>

definition i64_of_u64 :: "u64 \<Rightarrow> int" where
  "i64_of_u64 v = wrap64 (uint v)"

definition u64_of_i64 :: "int \<Rightarrow> u64" where
  "u64_of_i64 x = word_of_int x"

lemma wrap64_id [simp]: "is_int64 x \<Longrightarrow> wrap64 x = x"
  by (simp add: wrap64_def is_int64_def)

lemma is_int64_wrap64 [simp]: "is_int64 (wrap64 x)"
proof -
  have "0 \<le> (x + 2 ^ 63) mod 2 ^ 64" "(x + 2 ^ 63) mod 2 ^ 64 < 2 ^ 64"
    by simp_all
  then show ?thesis by (simp add: wrap64_def is_int64_def)
qed

lemma u64_of_i64_of_u64 [simp]: "u64_of_i64 (i64_of_u64 v) = v"
proof -
  have "wrap64 (uint v) mod 2 ^ 64 = uint v mod 2 ^ 64"
    unfolding wrap64_def by (simp only: mod_diff_left_eq) simp
  then have "(word_of_int (wrap64 (uint v)) :: u64) = word_of_int (uint v)"
    by (simp only: word_of_int_eq_iff take_bit_eq_mod) simp
  then show ?thesis by (simp add: u64_of_i64_def i64_of_u64_def)
qed

lemma i64_of_u64_of_i64 [simp]: "is_int64 x \<Longrightarrow> i64_of_u64 (u64_of_i64 x) = x"
proof -
  assume x: "is_int64 x"
  have "wrap64 (x mod 2 ^ 64) = wrap64 x"
    by (simp add: wrap64_def mod_simps)
  with x show ?thesis
    by (simp add: i64_of_u64_def u64_of_i64_def uint_word_of_int)
qed

lemma i64_of_u64_nonneg: "unat v < 2 ^ 63 \<Longrightarrow> i64_of_u64 v = int (unat v)"
proof -
  assume "unat v < 2 ^ 63"
  then have "int (unat v) < int (2 ^ 63)" by (simp only: of_nat_less_iff)
  moreover have "- (2 ^ 63) \<le> uint v" by (rule order_trans [of _ 0]) simp_all
  ultimately have "is_int64 (int (unat v))" by (simp add: is_int64_def)
  then show ?thesis by (simp add: i64_of_u64_def)
qed

section \<open>Lists\<close>

lemma take_append_len [simp]: "length a = n \<Longrightarrow> take n (a @ b) = a"
  by simp

lemma drop_append_len [simp]: "length a = n \<Longrightarrow> drop n (a @ b) = b"
  by simp

text \<open>\<^verbatim>\<open>b[i:j]\<close> of a subslice.\<close>

definition subslice :: "nat \<Rightarrow> nat \<Rightarrow> 'a list \<Rightarrow> 'a list" where
  "subslice i j xs = take (j - i) (drop i xs)"

lemma length_subslice [simp]: "i \<le> j \<Longrightarrow> j \<le> length xs \<Longrightarrow> length (subslice i j xs) = j - i"
  by (simp add: subslice_def)

lemma subslice_middle: "length a = i \<Longrightarrow> length b = j - i \<Longrightarrow> subslice i j (a @ b @ c) = b"
  by (simp add: subslice_def)

lemma concat_map_length: "length (concat (map f xs)) = sum_list (map (length \<circ> f) xs)"
  by (simp add: length_concat)

end
