(* ===== verification/Go_Strings.thy ===== *)
theory Go_Strings
  imports Esync_Prelude
begin

text \<open>
  The parts of Go's string, number-formatting and encoding packages that the program calls
  (\<^verbatim>\<open>strings\<close>, \<^verbatim>\<open>strconv\<close>, \<^verbatim>\<open>encoding/hex\<close>), with the round trips the components rest on.
\<close>

section \<open>Prefixes and suffixes\<close>

definition HasPrefix :: "bytes \<Rightarrow> bytes \<Rightarrow> bool" where
  "HasPrefix s p \<longleftrightarrow> take (length p) s = p"

definition HasSuffix :: "bytes \<Rightarrow> bytes \<Rightarrow> bool" where
  "HasSuffix s p \<longleftrightarrow> HasPrefix (rev s) (rev p)"

definition TrimPrefix :: "bytes \<Rightarrow> bytes \<Rightarrow> bytes" where
  "TrimPrefix s p = (if HasPrefix s p then drop (length p) s else s)"

definition TrimSuffix :: "bytes \<Rightarrow> bytes \<Rightarrow> bytes" where
  "TrimSuffix s p = (if HasSuffix s p then take (length s - length p) s else s)"

lemma HasPrefix_append [simp]: "HasPrefix (p @ s) p"
  by (simp add: HasPrefix_def)

lemma HasPrefix_iff: "HasPrefix s p \<longleftrightarrow> (\<exists>t. s = p @ t)"
  by (auto simp: HasPrefix_def) (metis append_take_drop_id)

lemma HasSuffix_iff: "HasSuffix s p \<longleftrightarrow> (\<exists>t. s = t @ p)"
  by (auto simp: HasSuffix_def HasPrefix_iff) (metis rev_append rev_rev_ident)

lemma TrimPrefix_append [simp]: "TrimPrefix (p @ s) p = s"
  by (simp add: TrimPrefix_def)

section \<open>Numbers as text\<close>

text \<open>The digits of a number in base \<open>b\<close>, most significant first; \<open>0\<close> is one digit.\<close>

fun digits :: "nat \<Rightarrow> nat \<Rightarrow> nat list" where
  "digits b n = (if b < 2 \<or> n < b then [n] else digits b (n div b) @ [n mod b])"

declare digits.simps [simp del]

definition undigits :: "nat \<Rightarrow> nat list \<Rightarrow> nat" where
  "undigits b ds = foldl (\<lambda>a d. a * b + d) 0 ds"

lemma undigits_snoc [simp]: "undigits b (ds @ [d]) = undigits b ds * b + d"
  by (simp add: undigits_def)

lemma undigits_digits: "2 \<le> b \<Longrightarrow> undigits b (digits b n) = n"
proof (induction b n rule: digits.induct)
  case (1 b n)
  show ?case
  proof (cases "n < b")
    case True
    then show ?thesis by (simp add: digits.simps [of b n] undigits_def)
  next
    case False
    with 1 show ?thesis by (simp add: digits.simps [of b n])
  qed
qed

lemma digits_nonempty [simp]: "digits b n \<noteq> []"
  by (subst digits.simps) simp

lemma digits_less: "2 \<le> b \<Longrightarrow> d \<in> set (digits b n) \<Longrightarrow> d < b"
proof (induction b n rule: digits.induct)
  case (1 b n)
  show ?case
  proof (cases "n < b")
    case True
    with 1 show ?thesis by (simp add: digits.simps [of b n])
  next
    case False
    with 1 show ?thesis by (auto simp: digits.simps [of b n])
  qed
qed

text \<open>Lower-case digit characters up to base 16, and their value in either case.\<close>

definition digit_char :: "nat \<Rightarrow> byte" where
  "digit_char d = (if d < 10 then word_of_nat (48 + d) else word_of_nat (87 + d))"

definition char_digit :: "byte \<Rightarrow> nat option" where
  "char_digit c =
     (let n = unat c in
      if 48 \<le> n \<and> n \<le> 57 then Some (n - 48)
      else if 97 \<le> n \<and> n \<le> 122 then Some (n - 87)
      else if 65 \<le> n \<and> n \<le> 90 then Some (n - 55)
      else None)"

lemma char_digit_char [simp]: "d < 16 \<Longrightarrow> char_digit (digit_char d) = Some d"
proof -
  assume d: "d < 16"
  have "unat (word_of_nat n :: byte) = n" if "n < 256" for n
    using that by (simp add: unat_of_nat)
  with d have "unat (digit_char d) = (if d < 10 then 48 + d else 87 + d)"
    by (simp add: digit_char_def del: of_nat_add)
  with d show ?thesis by (auto simp: char_digit_def Let_def)
qed

text \<open>\<^verbatim>\<open>strconv.FormatUint\<close> / \<^verbatim>\<open>strconv.Itoa\<close> of a non-negative number.\<close>

definition FormatUint :: "nat \<Rightarrow> nat \<Rightarrow> bytes" where
  "FormatUint n b = map digit_char (digits b n)"

text \<open>
  \<^verbatim>\<open>strconv.ParseUint(s, base, bitSize)\<close> for an explicit base: no sign, no underscores, at
  least one digit, and an error when the value does not fit in \<open>bits\<close> bits.
\<close>

fun digit_values :: "nat \<Rightarrow> bytes \<Rightarrow> nat list option" where
  "digit_values b [] = Some []"
| "digit_values b (c # cs) =
     (case char_digit c of
        None \<Rightarrow> None
      | Some d \<Rightarrow> if d < b then map_option (Cons d) (digit_values b cs) else None)"

definition ParseUint :: "bytes \<Rightarrow> nat \<Rightarrow> nat \<Rightarrow> nat option" where
  "ParseUint s b bits =
     (if s = [] then None
      else case digit_values b s of
        None \<Rightarrow> None
      | Some ds \<Rightarrow> if undigits b ds < 2 ^ bits then Some (undigits b ds) else None)"

lemma digit_values_map:
  "\<forall>d\<in>set ds. d < b \<and> d < 16 \<Longrightarrow> digit_values b (map digit_char ds) = Some ds"
  by (induction ds) auto

lemma FormatUint_nonempty [simp]: "FormatUint n b \<noteq> []"
  by (simp add: FormatUint_def)

lemma digit_values_FormatUint:
  "2 \<le> b \<Longrightarrow> b \<le> 16 \<Longrightarrow> digit_values b (FormatUint n b) = Some (digits b n)"
  unfolding FormatUint_def
  by (rule digit_values_map) (auto dest: digits_less)

lemma ParseUint_FormatUint [simp]:
  "2 \<le> b \<Longrightarrow> b \<le> 16 \<Longrightarrow> n < 2 ^ bits \<Longrightarrow> ParseUint (FormatUint n b) b bits = Some n"
  by (simp add: ParseUint_def digit_values_FormatUint undigits_digits)

text \<open>
  \<^verbatim>\<open>strconv.ParseInt(s, 10, 64)\<close>, and \<^verbatim>\<open>strconv.Atoi\<close> with the value Go returns beside an
  error: 0 for a syntax error, the nearest representable value for a range error.
\<close>

definition ParseInt :: "bytes \<Rightarrow> int option" where
  "ParseInt s =
     (let neg = (s \<noteq> [] \<and> hd s = ch (CHR ''-''));
          u = (if s \<noteq> [] \<and> (hd s = ch (CHR ''-'') \<or> hd s = ch (CHR ''+'')) then tl s else s)
      in case ParseUint u 10 64 of
           None \<Rightarrow> None
         | Some n \<Rightarrow> if neg then (if n \<le> 2 ^ 63 then Some (- int n) else None)
                     else (if n < 2 ^ 63 then Some (int n) else None))"

definition FormatInt :: "int \<Rightarrow> bytes" where
  "FormatInt i = (if i < 0 then ch (CHR ''-'') # FormatUint (nat (- i)) 10
                  else FormatUint (nat i) 10)"

definition Atoi :: "bytes \<Rightarrow> int" where
  "Atoi s =
     (let neg = (s \<noteq> [] \<and> hd s = ch (CHR ''-''));
          u = (if s \<noteq> [] \<and> (hd s = ch (CHR ''-'') \<or> hd s = ch (CHR ''+'')) then tl s else s)
      in case (if u = [] then None else digit_values 10 u) of
           None \<Rightarrow> 0
         | Some ds \<Rightarrow> let n = int (undigits 10 ds) in
             if neg then max (- n) (- (2 ^ 63)) else min n (2 ^ 63 - 1))"

lemma digit_char_not_sign:
  "d < 16 \<Longrightarrow> digit_char d \<noteq> ch (CHR ''-'') \<and> digit_char d \<noteq> ch (CHR ''+'')"
  by (auto simp: ch_def dest!: arg_cong [where f = char_digit]) (simp_all add: char_digit_def)

lemma hd_FormatUint: "2 \<le> b \<Longrightarrow> b \<le> 16 \<Longrightarrow> \<exists>d<16. hd (FormatUint n b) = digit_char d"
proof -
  assume b: "2 \<le> b" "b \<le> 16"
  have "hd (digits b n) \<in> set (digits b n)" by (rule hd_in_set) simp
  from digits_less [OF b(1) this] have "hd (digits b n) < 16" using b(2) by simp
  then show ?thesis by (auto simp: FormatUint_def hd_map)
qed

lemma hd_FormatUint_not_sign [simp]:
  "2 \<le> b \<Longrightarrow> b \<le> 16 \<Longrightarrow> hd (FormatUint n b) \<noteq> ch (CHR ''-'')"
  "2 \<le> b \<Longrightarrow> b \<le> 16 \<Longrightarrow> hd (FormatUint n b) \<noteq> ch (CHR ''+'')"
  using hd_FormatUint [of b n] digit_char_not_sign by metis+

lemma ParseInt_FormatInt [simp]: "is_int64 i \<Longrightarrow> ParseInt (FormatInt i) = Some i"
proof (cases "i < 0")
  case True
  assume "is_int64 i"
  with True have "nat (- i) \<le> 2 ^ 63" by (simp add: is_int64_def nat_le_iff)
  moreover from this have "nat (- i) < 2 ^ 64" by (rule le_less_trans) simp
  ultimately show ?thesis using True by (simp add: ParseInt_def FormatInt_def)
next
  case False
  assume "is_int64 i"
  with False have "nat i < 2 ^ 63" by (simp add: is_int64_def nat_less_iff)
  moreover from this have "nat i < 2 ^ 64" by (rule less_trans) simp
  ultimately show ?thesis using False by (simp add: ParseInt_def FormatInt_def)
qed

lemma Atoi_FormatUint [simp]: "n < 2 ^ 63 \<Longrightarrow> Atoi (FormatUint n 10) = int n"
proof -
  assume "n < 2 ^ 63"
  then have "int n < int (2 ^ 63)" by (simp only: of_nat_less_iff)
  then have "int n \<le> 2 ^ 63 - 1" by simp
  then show ?thesis by (simp add: Atoi_def digit_values_FormatUint undigits_digits Let_def)
qed

section \<open>Hexadecimal\<close>

text \<open>\<^verbatim>\<open>hex.EncodeToString\<close> and \<^verbatim>\<open>hex.DecodeString\<close>: two digits per byte.\<close>

definition hex_encode :: "bytes \<Rightarrow> bytes" where
  "hex_encode bs = concat (map (\<lambda>b. [digit_char (unat b div 16), digit_char (unat b mod 16)]) bs)"

fun hex_decode :: "bytes \<Rightarrow> bytes option" where
  "hex_decode [] = Some []"
| "hex_decode [c] = None"
| "hex_decode (c # d # cs) =
     (case (char_digit c, char_digit d) of
        (Some x, Some y) \<Rightarrow>
          if x < 16 \<and> y < 16 then map_option (Cons (word_of_nat (x * 16 + y))) (hex_decode cs)
          else None
      | _ \<Rightarrow> None)"

lemma hex_encode_Nil [simp]: "hex_encode [] = []"
  by (simp add: hex_encode_def)

lemma hex_encode_Cons:
  "hex_encode (b # bs) = digit_char (unat b div 16) # digit_char (unat b mod 16) # hex_encode bs"
  by (simp add: hex_encode_def)

lemma byte_div_16: "unat (b :: byte) div 16 < 16"
  using unat_byte_less [of b] by (simp add: less_mult_imp_div_less)

lemma hex_decode_encode [simp]: "hex_decode (hex_encode bs) = Some bs"
proof (induction bs)
  case (Cons b bs)
  have "word_of_nat (unat b div 16 * 16 + unat b mod 16) = b" by simp
  with Cons show ?case by (simp add: hex_encode_Cons byte_div_16 del: of_nat_add of_nat_mult)
qed simp

end
