(* ===== verification/Fault.thy ===== *)
theory Fault
  imports Go_Strings
begin

text \<open>
  The error model (\<^verbatim>\<open>internal/fault\<close>): the code catalogue, the \<^verbatim>\<open>Fault\<close> type and its error
  chains, classification, exit codes, the retry delay, and the mapping of a code to the number
  the wire carries and back (\<^verbatim>\<open>codeNum\<close>, \<^verbatim>\<open>numericCode\<close>, \<^verbatim>\<open>pad4\<close>).

  In the other components a failing operation returns \<open>Inl c\<close> with the fault's code \<open>c\<close>; where
  the control flow looks at error chains (\<^verbatim>\<open>errors.As\<close>, \<^verbatim>\<open>Wrap\<close>), the full \<open>err\<close> type is used.
\<close>

section \<open>Codes and the catalogue\<close>

type_synonym Code = bytes

definition E1001 :: Code where "E1001 = str ''E1001''"
definition E1002 :: Code where "E1002 = str ''E1002''"
definition E1003 :: Code where "E1003 = str ''E1003''"
definition E1004 :: Code where "E1004 = str ''E1004''"
definition E1005 :: Code where "E1005 = str ''E1005''"
definition E1006 :: Code where "E1006 = str ''E1006''"
definition E1007 :: Code where "E1007 = str ''E1007''"
definition E1008 :: Code where "E1008 = str ''E1008''"
definition E2001 :: Code where "E2001 = str ''E2001''"
definition E2002 :: Code where "E2002 = str ''E2002''"
definition E2003 :: Code where "E2003 = str ''E2003''"
definition E2004 :: Code where "E2004 = str ''E2004''"
definition E2005 :: Code where "E2005 = str ''E2005''"
definition E2006 :: Code where "E2006 = str ''E2006''"
definition E2007 :: Code where "E2007 = str ''E2007''"
definition E3001 :: Code where "E3001 = str ''E3001''"
definition E3002 :: Code where "E3002 = str ''E3002''"
definition E3003 :: Code where "E3003 = str ''E3003''"
definition E3004 :: Code where "E3004 = str ''E3004''"
definition E3005 :: Code where "E3005 = str ''E3005''"
definition E3006 :: Code where "E3006 = str ''E3006''"
definition E3007 :: Code where "E3007 = str ''E3007''"
definition E4001 :: Code where "E4001 = str ''E4001''"
definition E4002 :: Code where "E4002 = str ''E4002''"
definition E4003 :: Code where "E4003 = str ''E4003''"
definition E4004 :: Code where "E4004 = str ''E4004''"
definition E4005 :: Code where "E4005 = str ''E4005''"
definition E4006 :: Code where "E4006 = str ''E4006''"
definition E4007 :: Code where "E4007 = str ''E4007''"
definition E5001 :: Code where "E5001 = str ''E5001''"
definition E5002 :: Code where "E5002 = str ''E5002''"
definition E5003 :: Code where "E5003 = str ''E5003''"
definition E5004 :: Code where "E5004 = str ''E5004''"
definition E5005 :: Code where "E5005 = str ''E5005''"
definition E5006 :: Code where "E5006 = str ''E5006''"
definition E5007 :: Code where "E5007 = str ''E5007''"
definition E5008 :: Code where "E5008 = str ''E5008''"
definition E5009 :: Code where "E5009 = str ''E5009''"
definition E5010 :: Code where "E5010 = str ''E5010''"
definition E5011 :: Code where "E5011 = str ''E5011''"
definition E6001 :: Code where "E6001 = str ''E6001''"
definition E6002 :: Code where "E6002 = str ''E6002''"
definition E6003 :: Code where "E6003 = str ''E6003''"
definition E6004 :: Code where "E6004 = str ''E6004''"
definition E6005 :: Code where "E6005 = str ''E6005''"
definition E6006 :: Code where "E6006 = str ''E6006''"
definition E6007 :: Code where "E6007 = str ''E6007''"
definition E6008 :: Code where "E6008 = str ''E6008''"
definition E7001 :: Code where "E7001 = str ''E7001''"
definition E7002 :: Code where "E7002 = str ''E7002''"
definition E7003 :: Code where "E7003 = str ''E7003''"
definition E7004 :: Code where "E7004 = str ''E7004''"
definition E7005 :: Code where "E7005 = str ''E7005''"
definition E7006 :: Code where "E7006 = str ''E7006''"
definition E7007 :: Code where "E7007 = str ''E7007''"
definition E7008 :: Code where "E7008 = str ''E7008''"
definition E7009 :: Code where "E7009 = str ''E7009''"
definition E7010 :: Code where "E7010 = str ''E7010''"
definition E7011 :: Code where "E7011 = str ''E7011''"
definition E7012 :: Code where "E7012 = str ''E7012''"
definition E7013 :: Code where "E7013 = str ''E7013''"
definition E7014 :: Code where "E7014 = str ''E7014''"
definition E8001 :: Code where "E8001 = str ''E8001''"
definition E8002 :: Code where "E8002 = str ''E8002''"
definition E8003 :: Code where "E8003 = str ''E8003''"
definition E8004 :: Code where "E8004 = str ''E8004''"
definition E8005 :: Code where "E8005 = str ''E8005''"
definition E9001 :: Code where "E9001 = str ''E9001''"
definition E9002 :: Code where "E9002 = str ''E9002''"
definition E9003 :: Code where "E9003 = str ''E9003''"
definition E9004 :: Code where "E9004 = str ''E9004''"
definition Signal :: Code where "Signal = str ''ESIGNAL''"

lemmas code_defs =
  E1001_def E1002_def E1003_def E1004_def E1005_def E1006_def E1007_def E1008_def
  E2001_def E2002_def E2003_def E2004_def E2005_def E2006_def E2007_def E3001_def
  E3002_def E3003_def E3004_def E3005_def E3006_def E3007_def E4001_def E4002_def
  E4003_def E4004_def E4005_def E4006_def E4007_def E5001_def E5002_def E5003_def
  E5004_def E5005_def E5006_def E5007_def E5008_def E5009_def E5010_def E5011_def
  E6001_def E6002_def E6003_def E6004_def E6005_def E6006_def E6007_def E6008_def
  E7001_def E7002_def E7003_def E7004_def E7005_def E7006_def E7007_def E7008_def
  E7009_def E7010_def E7011_def E7012_def E7013_def E7014_def E8001_def E8002_def
  E8003_def E8004_def E8005_def E9001_def E9002_def E9003_def E9004_def Signal_def

datatype Class = Fatal | Item | Warn

datatype policy = Policy (p_class: Class) (p_retryable: bool) (p_condition: string) (p_action: string)

definition catalogue :: "(Code \<times> policy) list" where
  "catalogue =
  [(E1001, Policy Fatal False ''unknown flag or malformed argument'' ''fix the command line''),
   (E1002, Policy Fatal False ''both a path and --link given, or neither'' ''choose one mode''),
   (E1003, Policy Fatal False ''source path does not exist'' ''check the path''),
   (E1004, Policy Fatal False ''source path not readable'' ''check permissions''),
   (E1005, Policy Fatal False ''no usable network interface for the code'' ''connect to a network, or use --bind''),
   (E1006, Policy Fatal False ''destination not writable'' ''choose another --dest''),
   (E1007, Policy Fatal False ''flag value outside its documented range'' ''see --help for the range''),
   (E1008, Policy Fatal False ''destination is inside the source tree on the same host'' ''choose a destination outside the source''),
   (E2001, Policy Fatal False ''pairing code fails length/alphabet/CRC validation'' ''re-copy the code; it was mistyped or truncated''),
   (E2002, Policy Fatal False ''code carries an unknown code-format version'' ''upgrade the older side''),
   (E2003, Policy Fatal False ''protocol version unsupported by this build'' ''use matching versions on both machines''),
   (E2004, Policy Fatal False ''every endpoint in the code is syntactically unusable'' ''regenerate the code''),
   (E2005, Policy Fatal False ''code already claimed by another receiver'' ''generate a new code on the sender''),
   (E2006, Policy Fatal False ''no receiver linked before --pair-timeout'' ''re-run the sender''),
   (E2007, Policy Fatal False ''handshake attempt budget exhausted'' ''someone is guessing, or the code is wrong; re-run the sender''),
   (E3001, Policy Fatal False ''no candidate endpoint reachable'' ''check LAN connectivity and firewall; see the per-endpoint table''),
   (E3002, Policy Fatal False ''connect timeout on all candidates'' ''check LAN connectivity and firewall''),
   (E3003, Policy Item True ''connection reset mid-session'' ''automatic: requeue and rejoin; fatal if the control channel and resume fails''),
   (E3004, Policy Fatal False ''peer unresponsive past the keepalive deadline'' ''check the other machine; resume with the same command''),
   (E3005, Policy Fatal False ''unrecoverable data-channel failure: idle past the stall timeout, the last channel retired with work outstanding, or a coded channel fault'' ''re-run; the receiver resumes from its journal''),
   (E3006, Policy Item True ''CHANNEL_JOIN rejected'' ''automatic retry; channel retired on exhaustion''),
   (E3007, Policy Fatal False ''control channel resume window expired'' ''re-run; the receiver resumes from its journal''),
   (E4001, Policy Fatal False ''handshake confirmation MAC failed'' ''the code is wrong or a MITM is present''),
   (E4002, Policy Fatal False ''data-channel authentication failed'' ''the code is wrong or a MITM is present''),
   (E4003, Policy Fatal False ''record MAC verification failed'' ''tampering or corruption; session is aborted''),
   (E4004, Policy Fatal False ''record sequence violation'' ''tampering, replay, or a bug; session is aborted''),
   (E4005, Policy Fatal False ''stream ended without an authenticated close'' ''treat the transfer as incomplete; re-run to resume''),
   (E4006, Policy Fatal False ''sequence space exhausted'' ''unreachable in practice; re-run''),
   (E4007, Policy Fatal False ''system CSPRNG failure'' ''environment fault; do not retry''),
   (E5001, Policy Fatal False ''message not valid in the current state'' ''version mismatch or a peer bug; report with both versions''),
   (E5002, Policy Fatal False ''unsupported record/protocol version'' ''match versions''),
   (E5003, Policy Fatal False ''record length outside the declared bounds'' ''corrupt or hostile peer''),
   (E5004, Policy Fatal False ''malformed padding after a valid MAC'' ''internal bug; reachable only from a defect''),
   (E5005, Policy Fatal False ''session summaries disagree'' ''do not trust the destination; investigate with both logs''),
   (E5006, Policy Fatal False ''FILE_CHUNK offsets not contiguous'' ''peer bug''),
   (E5007, Policy Fatal False ''request for an unknown file_id'' ''peer bug or desynchronised plan''),
   (E5008, Policy Fatal False ''sender exceeded the granted credit'' ''peer bug''),
   (E5009, Policy Fatal False ''duplicate GROUP_DECISION for one group'' ''peer bug''),
   (E5010, Policy Fatal False ''frame body_len disagrees with the record plaintext'' ''corrupt peer''),
   (E5011, Policy Fatal False ''unknown message type'' ''version mismatch''),
   (E6001, Policy Item False ''permission denied reading a source file'' ''fix source permissions and re-run''),
   (E6002, Policy Item False ''source file vanished between manifest and read'' ''expected on a live tree; re-run to pick it up''),
   (E6003, Policy Item False ''source file changed during transfer (size or digest drift)'' ''re-run; the file will be re-planned with its new content''),
   (E6004, Policy Item True ''source read I/O error'' ''retried; persistent failure suggests failing media''),
   (E6005, Policy Warn False ''source directory unreadable during enumeration'' ''fix permissions; contents were not planned''),
   (E6006, Policy Warn False ''unsupported entry type (socket, FIFO, device)'' ''expected; these are never transferred''),
   (E6007, Policy Warn False ''symlink loop detected under --follow-symlinks'' ''informational''),
   (E6008, Policy Item True ''too many open files on the sender'' ''lower --read-concurrency or raise ulimit -n''),
   (E7001, Policy Item True ''destination file create failed'' ''check permissions and inode availability''),
   (E7002, Policy Item False ''destination permission denied'' ''fix destination permissions''),
   (E7003, Policy Fatal False ''destination out of space'' ''free space and re-run; the journal makes it resumable''),
   (E7004, Policy Item True ''destination write I/O error'' ''retried; persistent failure suggests failing media''),
   (E7005, Policy Item True ''atomic publish (rename) failed'' ''retried; the partial file remains under .esync/parts''),
   (E7006, Policy Warn False ''could not apply mode or mtime'' ''content is correct; metadata is not''),
   (E7007, Policy Fatal False ''journal write failed'' ''resume safety cannot be guaranteed; stop rather than continue blind''),
   (E7008, Policy Item True ''directory create failed'' ''check permissions''),
   (E7009, Policy Warn False ''hard link creation failed'' ''content is materialised separately; storage is larger''),
   (E7010, Policy Item False ''unsafe path rejected (traversal, absolute, NUL, reserved)'' ''reported in the summary; investigate the source tree''),
   (E7011, Policy Item False ''symlink target escapes the destination root'' ''use --allow-unsafe-links only if intended''),
   (E7012, Policy Item False ''destination name collision after platform normalisation'' ''two source names map to one destination name; rename at the source''),
   (E7013, Policy Item False ''symlink encountered on the destination path'' ''remove the symlink or choose another destination''),
   (E7014, Policy Item False ''path too long for the destination platform'' ''shorten the destination root''),
   (E8001, Policy Item True ''received content digest does not match the manifest digest'' ''retried; exhaustion means the file could not be moved intact''),
   (E8002, Policy Item True ''byte count does not match the declared size'' ''retried; exhaustion means the file could not be moved intact''),
   (E8003, Policy Item False (''sender'' @ [CHR 0x27] @ ''s streamed digest does not match the manifest digest'') ''the source changed; equivalent to E6003''),
   (E8004, Policy Warn False ''journal record corrupt (torn tail)'' ''automatic: the record is discarded, its file is re-fetched''),
   (E8005, Policy Warn False ''digest cache corrupt or version-mismatched'' ''automatic: full hashing is used''),
   (E9001, Policy Fatal False ''panic recovered at a worker boundary'' ''a defect; the stack trace and the trace-ring dump are in the log''),
   (E9002, Policy Fatal False ''the transfer stopped making progress with work still outstanding'' ''the peer or network went quiet; check the other machine and the link, then re-run to resume from the journal''),
   (E9003, Policy Fatal False (''runtime invariant violated ('' @ [CHR 0xC2, CHR 0xA7] @ ''9.4)'') ''a defect; report with the log''),
   (E9004, Policy Fatal False ''a bound was exceeded that should have been unreachable'' ''a defect; report with the log''),
   (Signal, Policy Fatal False ''interrupted by a signal'' ''re-run to resume; the journal is durable'')]"

text \<open>An uncatalogued code is Fatal, never benign.\<close>

definition lookup :: "Code \<Rightarrow> policy" where
  "lookup c = (case map_of catalogue c of
     Some p \<Rightarrow> p
   | None \<Rightarrow> Policy Fatal False ''uncatalogued error code'' ''report this as a bug'')"

definition Condition :: "Code \<Rightarrow> string" where "Condition c = p_condition (lookup c)"
definition Action :: "Code \<Rightarrow> string" where "Action c = p_action (lookup c)"

section \<open>Errors\<close>

text \<open>
  A Go \<^verbatim>\<open>error\<close> that is not \<open>nil\<close>: a \<^verbatim>\<open>*Fault\<close>, an error type of the program that only wraps
  another one and has \<^verbatim>\<open>Unwrap\<close> (such as \<^verbatim>\<open>channelLost\<close>), or a plain error. A nil error is
  \<open>None\<close> of \<open>err option\<close>.
\<close>

datatype err =
    FaultErr (f_Code: Code) (f_Class: Class) (f_Retryable: bool) (f_Op: string)
      (f_Subject: bytes) (f_Cause: "err option") (f_detail: bytes)
  | WrapErr string err
  | PlainErr string

definition New :: "Code \<Rightarrow> string \<Rightarrow> bytes \<Rightarrow> err option \<Rightarrow> err" where
  "New code op subject cause =
     FaultErr code (p_class (lookup code)) (p_retryable (lookup code)) op subject cause []"

definition Newf :: "Code \<Rightarrow> string \<Rightarrow> bytes \<Rightarrow> err option \<Rightarrow> bytes \<Rightarrow> err" where
  "Newf code op subject cause detail =
     FaultErr code (p_class (lookup code)) (p_retryable (lookup code)) op subject cause detail"

text \<open>\<^verbatim>\<open>errors.As(err, &f)\<close> for a \<^verbatim>\<open>*Fault\<close> target: the first fault of the chain.\<close>

fun as_fault :: "err \<Rightarrow> err option" where
  "as_fault (WrapErr t e) = as_fault e"
| "as_fault (PlainErr s) = None"
| "as_fault f = Some f"

definition Wrap :: "Code \<Rightarrow> string \<Rightarrow> bytes \<Rightarrow> err option \<Rightarrow> err" where
  "Wrap code op subject e =
     (case Option.bind e as_fault of
        Some f \<Rightarrow> if f_Code f \<noteq> [] then f else New code op subject e
      | None \<Rightarrow> New code op subject e)"

definition GetCode :: "err option \<Rightarrow> Code" where
  "GetCode e = (case Option.bind e as_fault of Some f \<Rightarrow> f_Code f | None \<Rightarrow> [])"

fun HasCode :: "err \<Rightarrow> Code \<Rightarrow> bool" where
  "HasCode (FaultErr code cl r op sb cause d) c =
     (code = c \<or> (case cause of None \<Rightarrow> False | Some e \<Rightarrow> HasCode e c))"
| "HasCode (WrapErr t e) c = HasCode e c"
| "HasCode (PlainErr s) c = False"

definition IsRetryable :: "err option \<Rightarrow> bool" where
  "IsRetryable e = (case Option.bind e as_fault of Some f \<Rightarrow> f_Retryable f | None \<Rightarrow> False)"

definition IsFatal :: "err option \<Rightarrow> bool" where
  "IsFatal e = (case e of
     None \<Rightarrow> False
   | Some e' \<Rightarrow> (case as_fault e' of Some f \<Rightarrow> f_Class f = Fatal | None \<Rightarrow> True))"

definition ErrSignal :: err where
  "ErrSignal = New Signal ''interrupted by signal'' [] None"

definition ExitCode :: "err option \<Rightarrow> nat" where
  "ExitCode e = (case e of
     None \<Rightarrow> 0
   | Some e' \<Rightarrow> (case as_fault e' of
       None \<Rightarrow> 2
     | Some f \<Rightarrow>
         if f_Code f = Signal then 5
         else if f_Code f \<in> {E1001, E1002, E1007} then 3
         else if f_Code f \<in> {E2001, E2002, E2003, E2004, E2005, E2006, E2007, E4001, E4002} then 4
         else case f_Class f of Warn \<Rightarrow> 0 | Item \<Rightarrow> 1 | Fatal \<Rightarrow> 2))"

section \<open>Retry delay\<close>

definition backoffBase :: int where "backoffBase = 200 * 1000000"
definition backoffCap :: int where "backoffCap = 5 * 1000000000"

text \<open>
  \<^verbatim>\<open>Backoff(attempt, nil)\<close> in nanoseconds: the delay before the random jitter factor. The shift
  is an \<^verbatim>\<open>int64\<close> shift.
\<close>

definition Backoff :: "int \<Rightarrow> int" where
  "Backoff attempt =
     (let a = (if attempt < 0 then 0 else attempt) in
      if a < 24
      then let d = wrap64 (backoffBase * 2 ^ nat a) in
           if d \<le> 0 \<or> d > backoffCap then backoffCap else d
      else backoffCap)"

section \<open>Codes on the wire\<close>

text \<open>\<^verbatim>\<open>codeNum\<close> (sender) and \<^verbatim>\<open>numericCode\<close> (receiver) are the same function.\<close>

definition numericCode :: "Code \<Rightarrow> u16" where
  "numericCode c = word_of_int (Atoi (TrimPrefix c (str ''E'')))"

fun pad4_loop :: "nat \<Rightarrow> bytes \<Rightarrow> bytes" where
  "pad4_loop 0 s = s"
| "pad4_loop (Suc k) s = (if length s < 4 then pad4_loop k (ch (CHR ''0'') # s) else s)"

text \<open>\<open>pad4_loop\<close> needs at most four rounds, as each adds a character.\<close>

definition pad4 :: "u16 \<Rightarrow> bytes" where
  "pad4 n = pad4_loop 4 (FormatUint (unat n) 10)"

text \<open>\<^verbatim>\<open>fault.Code("E" + pad4(n))\<close>: the code a peer reads back from the wire.\<close>

definition code_of_wire :: "u16 \<Rightarrow> Code" where
  "code_of_wire n = str ''E'' @ pad4 n"

section \<open>Lemmas\<close>

lemma New_fields [simp]:
  "f_Code (New c op s e) = c" "f_Class (New c op s e) = p_class (lookup c)"
  "f_Retryable (New c op s e) = p_retryable (lookup c)" "as_fault (New c op s e) = Some (New c op s e)"
  by (simp_all add: New_def)

lemma Newf_fields [simp]:
  "f_Code (Newf c op s e d) = c" "f_Class (Newf c op s e d) = p_class (lookup c)"
  "f_Retryable (Newf c op s e d) = p_retryable (lookup c)"
  "as_fault (Newf c op s e d) = Some (Newf c op s e d)"
  by (simp_all add: Newf_def)

lemma as_fault_idem: "as_fault e = Some f \<Longrightarrow> as_fault f = Some f"
  by (induction e rule: as_fault.induct) auto

lemma distinct_catalogue: "distinct (map fst catalogue)"
  by (simp add: catalogue_def code_defs)

lemma catalogue_codes: "map fst catalogue = [E1001, E1002, E1003, E1004, E1005, E1006, E1007, E1008, E2001, E2002, E2003, E2004, E2005, E2006, E2007, E3001, E3002, E3003, E3004, E3005, E3006, E3007, E4001, E4002, E4003, E4004, E4005, E4006, E4007, E5001, E5002, E5003, E5004, E5005, E5006, E5007, E5008, E5009, E5010, E5011, E6001, E6002, E6003, E6004, E6005, E6006, E6007, E6008, E7001, E7002, E7003, E7004, E7005, E7006, E7007, E7008, E7009, E7010, E7011, E7012, E7013, E7014, E8001, E8002, E8003, E8004, E8005, E9001, E9002, E9003, E9004, Signal]"
  by (simp add: catalogue_def)

lemma in_catalogue_iff: "c \<in> fst ` set catalogue \<longleftrightarrow> c \<in> set (map fst catalogue)"
  by simp

lemma lookup_in_catalogue: "(c, p) \<in> set catalogue \<Longrightarrow> lookup c = p"
  by (simp add: lookup_def map_of_is_SomeI [OF distinct_catalogue])

lemma lookup_unknown: "c \<notin> fst ` set catalogue \<Longrightarrow> p_class (lookup c) = Fatal"
proof -
  assume "c \<notin> fst ` set catalogue"
  then have "map_of catalogue c = None" by (simp add: map_of_eq_None_iff)
  then show ?thesis by (simp add: lookup_def)
qed

lemma length_pad4_loop: "4 \<le> length s + k \<Longrightarrow> 4 \<le> length (pad4_loop k s)"
  by (induction k arbitrary: s) auto

lemma pad4_loop_id: "4 \<le> length s \<Longrightarrow> pad4_loop k s = s"
  by (cases k) auto

lemma GetCode_Some_fault: "as_fault e = Some f \<Longrightarrow> GetCode (Some e) = f_Code f"
  by (simp add: GetCode_def)

lemma lookup_cases:
  obtains p where "(c, p) \<in> set catalogue" and "lookup c = p"
  | "c \<notin> fst ` set catalogue" and "p_class (lookup c) = Fatal" and "\<not> p_retryable (lookup c)"
proof (cases "map_of catalogue c")
  case None
  then have "c \<notin> fst ` set catalogue" by (simp add: map_of_eq_None_iff)
  then show thesis using that(2) None by (simp add: lookup_def)
next
  case (Some p)
  then have "(c, p) \<in> set catalogue" by (rule map_of_SomeD)
  then show thesis using that(1) Some by (simp add: lookup_def)
qed

lemma catalogue_retryable_item:
  "list_all (\<lambda>(c, p). p_retryable p \<longrightarrow> p_class p = Item) catalogue"
  by (simp add: catalogue_def)

text \<open>The shape of a catalogued code: the letter E and four decimal digits, the first not 0.\<close>

fun code4 :: "bytes \<Rightarrow> bool" where
  "code4 [e, a, b, c, d] =
     (e = ch (CHR ''E'') \<and> 49 \<le> unat a \<and> (\<forall>x\<in>{a, b, c, d}. 48 \<le> unat x \<and> unat x \<le> 57))"
| "code4 _ = False"

lemma digit_char_of_char: "48 \<le> unat x \<Longrightarrow> unat x \<le> 57 \<Longrightarrow> digit_char (unat x - 48) = x"
  by (auto simp: digit_char_def simp del: of_nat_add)

lemma digits_step: "0 < n \<Longrightarrow> d < 10 \<Longrightarrow> digits 10 (n * 10 + d) = digits 10 n @ [d]"
  by (subst digits.simps) simp

lemma digits_single: "d < 10 \<Longrightarrow> digits 10 d = [d]"
  by (subst digits.simps) simp

lemma digits4:
  "1 \<le> a \<Longrightarrow> a < 10 \<Longrightarrow> b < 10 \<Longrightarrow> c < 10 \<Longrightarrow> d < 10 \<Longrightarrow>
    digits 10 (((a * 10 + b) * 10 + c) * 10 + d) = [a, b, c, d]"
proof -
  assume r: "1 \<le> a" "a < 10" "b < 10" "c < 10" "d < 10"
  have "digits 10 (((a * 10 + b) * 10 + c) * 10 + d) = digits 10 ((a * 10 + b) * 10 + c) @ [d]"
    using r by (intro digits_step) auto
  also have "digits 10 ((a * 10 + b) * 10 + c) = digits 10 (a * 10 + b) @ [c]"
    using r by (intro digits_step) auto
  also have "digits 10 (a * 10 + b) = digits 10 a @ [b]"
    using r by (intro digits_step) auto
  finally show ?thesis using r by (simp add: digits_single)
qed

lemma code4_roundtrip:
  assumes "code4 x" shows "code_of_wire (numericCode x) = x"
proof -
  from assms obtain e a b c d where x: "x = [e, a, b, c, d]" and e: "e = ch (CHR ''E'')"
    and r: "49 \<le> unat a" "\<forall>y\<in>{a, b, c, d}. 48 \<le> unat y \<and> unat y \<le> 57"
    by (cases x rule: code4.cases) auto
  define ds where "ds = map (\<lambda>y. unat y - 48) [a, b, c, d]"
  define n where "n = undigits 10 ds"
  have dig: "map digit_char ds = [a, b, c, d]" using r by (simp add: ds_def digit_char_of_char)
  have dn: "digits 10 n = ds"
    using r digits4 [of "unat a - 48" "unat b - 48" "unat c - 48" "unat d - 48"]
    by (auto simp: n_def ds_def undigits_def)
  have F: "FormatUint n 10 = [a, b, c, d]" by (simp add: FormatUint_def dn dig)
  have "n < 10000" using r by (auto simp: n_def ds_def undigits_def)
  then have "numericCode x = word_of_nat n"
    using Atoi_FormatUint [of n] by (simp add: numericCode_def x e TrimPrefix_def HasPrefix_def F)
  with \<open>n < 10000\<close> have "unat (numericCode x) = n" by (simp add: unat_of_nat)
  then show ?thesis
    by (simp add: code_of_wire_def pad4_def F x e pad4_loop_id)
qed

lemma catalogue_code4: "list_all (\<lambda>(c, p). c = Signal \<or> code4 c) catalogue"
  by (simp add: catalogue_def code_defs ch_def)

lemma catalogue_wire_roundtrip:
  "c \<in> fst ` set catalogue \<Longrightarrow> c \<noteq> Signal \<Longrightarrow> code_of_wire (numericCode c) = c"
  using catalogue_code4 code4_roundtrip by (auto simp: list_all_iff)

section \<open>Properties\<close>

text \<open>
  A code survives the wire: the receiver of an \<^verbatim>\<open>ERROR\<close> or \<^verbatim>\<open>FILE_ERROR\<close> message rebuilds
  from \<^verbatim>\<open>numericCode\<close> exactly the code the peer failed with, for every code of the catalogue but
  the synthetic signal code, so class, retryability and exit code agree on both sides.
\<close>

theorem code_wire_roundtrip:
  assumes "c \<in> fst ` set catalogue" and "c \<noteq> Signal"
  shows "code_of_wire (numericCode c) = c \<and>
    ExitCode (Some (Newf (code_of_wire (numericCode c)) op s e d)) = ExitCode (Some (New c op' s' e'))"
proof -
  have "code_of_wire (numericCode c) = c"
    using assms by (rule catalogue_wire_roundtrip)
  then show ?thesis by (simp add: ExitCode_def)
qed

theorem code_wire_roundtrip_witness:
  "code_of_wire (numericCode E7003) = E7003 \<and>
    ExitCode (Some (Newf (code_of_wire (numericCode E7003)) ''a'' [] None [])) =
      ExitCode (Some (New E7003 ''b'' [] None))"
proof -
  have "E7003 \<in> fst ` set catalogue" unfolding in_catalogue_iff catalogue_codes by simp
  moreover have "E7003 \<noteq> Signal" by (simp add: code_defs)
  ultimately show ?thesis by (rule code_wire_roundtrip)
qed

text \<open>
  Classification is consistent: an error the fetch loop may retry is always of class Item,
  so a Fatal error is never retried and never counted as an item failure; and an error whose
  chain holds no catalogued code is Fatal, not retryable, and makes the process exit with 2.
\<close>

theorem classification_consistent:
  "(IsRetryable (Some (New c op s e)) \<longrightarrow>
      \<not> IsFatal (Some (New c op s e)) \<and> p_class (lookup c) = Item) \<and>
   (c \<notin> fst ` set catalogue \<longrightarrow>
      IsFatal (Some (New c op s e)) \<and> \<not> IsRetryable (Some (New c op s e)) \<and>
      ExitCode (Some (New c op s e)) = 2)"
proof -
  have "p_class (lookup c) = Item" if "p_retryable (lookup c)"
    using that catalogue_retryable_item by (cases c rule: lookup_cases) (auto simp: list_all_iff)
  moreover have "ExitCode (Some (New c op s e)) = 2" if nc: "c \<notin> fst ` set catalogue"
  proof -
    have "set [Signal, E1001, E1002, E1007, E2001, E2002, E2003, E2004, E2005, E2006, E2007, E4001, E4002]
        \<subseteq> fst ` set catalogue"
      unfolding subset_iff in_catalogue_iff catalogue_codes by simp
    with nc lookup_unknown [OF nc] show ?thesis by (auto simp: ExitCode_def)
  qed
  moreover have "\<not> p_retryable (lookup c) \<and> p_class (lookup c) = Fatal" if "c \<notin> fst ` set catalogue"
    using that by (cases c rule: lookup_cases) force+
  ultimately show ?thesis by (simp add: IsRetryable_def IsFatal_def)
qed

theorem classification_consistent_witness:
  "\<not> IsFatal (Some (New E7004 ''write part file'' [] None)) \<and>
   ExitCode (Some (New (str ''E0000'') ''peer'' [] None)) = 2"
proof -
  have "lookup E7004 = Policy Item True ''destination write I/O error''
      ''retried; persistent failure suggests failing media''"
    by (rule lookup_in_catalogue) (simp add: catalogue_def)
  then have "IsRetryable (Some (New E7004 ''write part file'' [] None))" by (simp add: IsRetryable_def)
  moreover have "str ''E0000'' \<notin> fst ` set catalogue"
    unfolding in_catalogue_iff catalogue_codes code_defs by simp
  ultimately show ?thesis
    using classification_consistent [of E7004 "''write part file''" "[]" None]
      classification_consistent [of "str ''E0000''" "''peer''" "[]" None] by blast
qed

text \<open>
  The retry delay is the documented schedule, 200 ms doubled per attempt and capped at 5 s:
  the \<^verbatim>\<open>int64\<close> shift never overflows, for every attempt number.
\<close>

theorem Backoff_schedule:
  "Backoff (int n) = min (200000000 * 2 ^ n) 5000000000"
proof (cases "n < 24")
  case True
  then have "(2::int) ^ n \<le> 2 ^ 23" by (intro power_increasing) auto
  then have "is_int64 (backoffBase * 2 ^ n)" by (simp add: is_int64_def backoffBase_def)
      (rule order_trans [of _ 0]; simp)
  moreover have "(0::int) < 200000000 * 2 ^ n" by simp
  ultimately show ?thesis
    using True by (simp add: Backoff_def Let_def backoffBase_def backoffCap_def min_def)
next
  case False
  then have "(2::int) ^ 24 \<le> 2 ^ n" by (intro power_increasing) auto
  with False show ?thesis by (simp add: Backoff_def backoffCap_def)
qed

end
