(* ===== verification/Wire_Messages.thy ===== *)
theory Wire_Messages
  imports Fault
begin

text \<open>
  The messages of the protocol (\<^verbatim>\<open>internal/wire/messages.go\<close>, \<^verbatim>\<open>msgtype.go\<close>) and the declared
  maxima (\<^verbatim>\<open>wire.go\<close>): one record per body struct with the fields in wire order, and the
  \<^verbatim>\<open>Message\<close> interface as a datatype with one constructor per struct. \<open>M_Foreign\<close> stands for a
  value of some other type that implements the interface: the default branch of the encoder.
\<close>

section \<open>Declared maxima\<close>

definition Magic :: bytes where "Magic = str ''ESYNC''"
definition ProtocolVersion :: u8 where "ProtocolVersion = 2"
definition FrameHeaderLen :: nat where "FrameHeaderLen = 5"
definition MaxFramePlaintext :: nat where "MaxFramePlaintext = 2 ^ 20 + 4096"

definition maxStr :: nat where "maxStr = 65535"
definition maxPathBytes :: nat where "maxPathBytes = 4096"
definition maxDigest :: nat where "maxDigest = 64"
definition maxEntryCount :: nat where "maxEntryCount = 1024"
definition maxIndexList :: nat where "maxIndexList = 1024"
definition maxChunkData :: nat where "maxChunkData = 2 ^ 20"
definition maxBlob :: nat where "maxBlob = 4096"

lemmas max_defs = maxStr_def maxPathBytes_def maxDigest_def maxEntryCount_def maxIndexList_def
  maxChunkData_def maxBlob_def

section \<open>Message types\<close>

definition MsgSessionParams :: u8 where "MsgSessionParams = 0x01"
definition MsgSessionReady :: u8 where "MsgSessionReady = 0x02"
definition MsgScanProgress :: u8 where "MsgScanProgress = 0x10"
definition MsgScanComplete :: u8 where "MsgScanComplete = 0x11"
definition MsgGroupManifest :: u8 where "MsgGroupManifest = 0x12"
definition MsgGroupDecision :: u8 where "MsgGroupDecision = 0x20"
definition MsgCredit :: u8 where "MsgCredit = 0x21"
definition MsgFileRequest :: u8 where "MsgFileRequest = 0x30"
definition MsgFileHeader :: u8 where "MsgFileHeader = 0x31"
definition MsgFileChunk :: u8 where "MsgFileChunk = 0x32"
definition MsgFileComplete :: u8 where "MsgFileComplete = 0x33"
definition MsgFileError :: u8 where "MsgFileError = 0x34"
definition MsgFileCancel :: u8 where "MsgFileCancel = 0x35"
definition MsgSessionSummary :: u8 where "MsgSessionSummary = 0x40"
definition MsgSessionSummaryAck :: u8 where "MsgSessionSummaryAck = 0x41"
definition MsgError :: u8 where "MsgError = 0x50"
definition MsgPing :: u8 where "MsgPing = 0x60"
definition MsgPong :: u8 where "MsgPong = 0x61"
definition MsgSessionResume :: u8 where "MsgSessionResume = 0x70"

lemmas msgtype_defs =
  MsgSessionParams_def MsgSessionReady_def MsgScanProgress_def MsgScanComplete_def MsgGroupManifest_def
  MsgGroupDecision_def MsgCredit_def MsgFileRequest_def MsgFileHeader_def MsgFileChunk_def
  MsgFileComplete_def MsgFileError_def MsgFileCancel_def MsgSessionSummary_def MsgSessionSummaryAck_def
  MsgError_def MsgPing_def MsgPong_def MsgSessionResume_def

definition msgTypeNames :: "(u8 \<times> string) list" where
  "msgTypeNames =
    [(MsgSessionParams, ''SESSION_PARAMS''),
     (MsgSessionReady, ''SESSION_READY''),
     (MsgScanProgress, ''SCAN_PROGRESS''),
     (MsgScanComplete, ''SCAN_COMPLETE''),
     (MsgGroupManifest, ''GROUP_MANIFEST''),
     (MsgGroupDecision, ''GROUP_DECISION''),
     (MsgCredit, ''CREDIT''),
     (MsgFileRequest, ''FILE_REQUEST''),
     (MsgFileHeader, ''FILE_HEADER''),
     (MsgFileChunk, ''FILE_CHUNK''),
     (MsgFileComplete, ''FILE_COMPLETE''),
     (MsgFileError, ''FILE_ERROR''),
     (MsgFileCancel, ''FILE_CANCEL''),
     (MsgSessionSummary, ''SESSION_SUMMARY''),
     (MsgSessionSummaryAck, ''SESSION_SUMMARY_ACK''),
     (MsgError, ''ERROR''),
     (MsgPing, ''PING''),
     (MsgPong, ''PONG''),
     (MsgSessionResume, ''SESSION_RESUME'')]"

definition MsgType_String :: "u8 \<Rightarrow> string" where
  "MsgType_String t = (case map_of msgTypeNames t of Some n \<Rightarrow> n | None \<Rightarrow> ''UNKNOWN'')"

section \<open>Bodies\<close>

record SessionParams =
  sp_RootName :: bytes
  sp_SourceKind :: u8
  sp_HashAlg :: u8
  sp_GroupBytes :: u64
  sp_Flags :: u32
  sp_SourcePlatform :: u8
  sp_PathNorm :: u8
  sp_SenderVersion :: bytes
  sp_MaxChannels :: u32
  sp_FilterSignature :: bytes
  sp_SysexcludeTag :: bytes

record SessionReady =
  sr_Channels :: u16
  sr_GroupCredit :: u16
  sr_PipelineDepth :: u8
  sr_MaxChunk :: u32
  sr_DestPlatform :: u8
  sr_ReceiverVersion :: bytes
  sr_DestFreeBytes :: u64

record ScanProgress =
  pr_EntriesSeen :: u64
  pr_BytesSeen :: u64
  pr_ErrorsSeen :: u32

record ScanComplete =
  sc_TotalFiles :: u64
  sc_TotalBytes :: u64
  sc_TotalGroups :: u32
  sc_SkippedEntries :: u32
  sc_ManifestDigest :: bytes

record ManifestEntry =
  me_EntryType :: u8
  me_Flags :: u16
  me_Path :: bytes
  me_Size :: u64
  me_Mode :: u32
  me_MtimeSec :: int
  me_MtimeNsec :: u32
  me_Digest :: bytes
  me_LinkTarget :: bytes
  me_HardlinkKey :: u64

text \<open>Flags bit 0: the entry carries a hard-link key.\<close>

definition ManifestFlagHasHardlinkKey :: u16 where "ManifestFlagHasHardlinkKey = 1"

record GroupManifest =
  gm_GroupID :: u32
  gm_FirstFileID :: u64
  gm_Entries :: "ManifestEntry list"

record RejectedEntry =
  rj_Index :: u16
  rj_ErrorCode :: u16

record GroupDecision =
  gd_GroupID :: u32
  gd_Needed :: "u16 list"
  gd_SkippedCount :: u16
  gd_Rejected :: "RejectedEntry list"

record Credit =
  cr_AdditionalGroups :: u16

record FileRequest =
  fq_RequestID :: u64
  fq_FileID :: u64
  fq_Offset :: u64
  fq_MaxChunk :: u32

record FileHeader =
  fh_RequestID :: u64
  fh_FileID :: u64
  fh_Size :: u64
  fh_Mode :: u32
  fh_MtimeSec :: int
  fh_MtimeNsec :: u32
  fh_Digest :: bytes
  fh_ChunkSize :: u32

record FileChunk =
  fc_RequestID :: u64
  fc_Offset :: u64
  fc_Data :: bytes

record FileComplete =
  fp_RequestID :: u64
  fp_BytesSent :: u64
  fp_DigestFull :: bytes

record FileError =
  fe_RequestID :: u64
  fe_Code :: u16
  fe_Retryable :: u8
  fe_Message :: bytes

record FileCancel =
  fx_RequestID :: u64
  fx_Reason :: u16

record SessionSummary =
  ss_FilesTotal :: u64
  ss_FilesTransferred :: u64
  ss_FilesSkipped :: u64
  ss_FilesFailed :: u64
  ss_BytesTransferred :: u64
  ss_GroupsTotal :: u32
  ss_CompletionDigest :: bytes

record SessionSummaryAck =
  sa_FilesTotal :: u64
  sa_FilesTransferred :: u64
  sa_FilesSkipped :: u64
  sa_FilesFailed :: u64
  sa_BytesTransferred :: u64
  sa_GroupsTotal :: u32
  sa_CompletionDigest :: bytes

record Error =
  er_Code :: u16
  er_Fatal :: u8
  er_Message :: bytes
  er_Detail :: bytes

record Ping =
  pi_Token :: u64

record Pong =
  po_Token :: u64

record SessionResume =
  su_SessionID :: u64
  su_Nonce :: bytes
  su_Tag :: bytes
  su_LastSeqSeen :: u64

datatype Message =
    M_SessionParams SessionParams
  | M_SessionReady SessionReady
  | M_ScanProgress ScanProgress
  | M_ScanComplete ScanComplete
  | M_GroupManifest GroupManifest
  | M_GroupDecision GroupDecision
  | M_Credit Credit
  | M_FileRequest FileRequest
  | M_FileHeader FileHeader
  | M_FileChunk FileChunk
  | M_FileComplete FileComplete
  | M_FileError FileError
  | M_FileCancel FileCancel
  | M_SessionSummary SessionSummary
  | M_SessionSummaryAck SessionSummaryAck
  | M_Error Error
  | M_Ping Ping
  | M_Pong Pong
  | M_SessionResume SessionResume
  | M_Foreign u8

fun Type :: "Message \<Rightarrow> u8" where
  "Type (M_SessionParams x) = MsgSessionParams"
| "Type (M_SessionReady x) = MsgSessionReady"
| "Type (M_ScanProgress x) = MsgScanProgress"
| "Type (M_ScanComplete x) = MsgScanComplete"
| "Type (M_GroupManifest x) = MsgGroupManifest"
| "Type (M_GroupDecision x) = MsgGroupDecision"
| "Type (M_Credit x) = MsgCredit"
| "Type (M_FileRequest x) = MsgFileRequest"
| "Type (M_FileHeader x) = MsgFileHeader"
| "Type (M_FileChunk x) = MsgFileChunk"
| "Type (M_FileComplete x) = MsgFileComplete"
| "Type (M_FileError x) = MsgFileError"
| "Type (M_FileCancel x) = MsgFileCancel"
| "Type (M_SessionSummary x) = MsgSessionSummary"
| "Type (M_SessionSummaryAck x) = MsgSessionSummaryAck"
| "Type (M_Error x) = MsgError"
| "Type (M_Ping x) = MsgPing"
| "Type (M_Pong x) = MsgPong"
| "Type (M_SessionResume x) = MsgSessionResume"
| "Type (M_Foreign t) = t"

lemma distinct_msgTypes: "distinct (map fst msgTypeNames)"
  by (simp add: msgTypeNames_def msgtype_defs)

end
