(* ===== verification/Session_Common.thy ===== *)
theory Session_Common
  imports Fault Wire_Messages
begin

text \<open>
  What the two ends of a session share: the latch for the first error, the notice of a fatal error, the tests on error
  chains, and how a wait ends.
\<close>

section \<open>The first error wins\<close>

text \<open>
  Each end collects the errors of its goroutines in one place that keeps the first one (\<^verbatim>\<open>session.fail\<close> in the
  receiver, \<^verbatim>\<open>atomic.Value.CompareAndSwap\<close> in the sender). The contract is a locale: what a store of an error does to
  the value that is read back. The results for any sequence of stores are proved once.
\<close>

locale error_latch =
  fixes get :: "'s \<Rightarrow> 'e option" and put :: "'e \<Rightarrow> 's \<Rightarrow> 's"
  assumes get_put: "get (put e s) = Some (case get s of None \<Rightarrow> e | Some e0 \<Rightarrow> e0)"
begin

lemma latched: "get s = Some e \<Longrightarrow> get (fold put es s) = Some e"
  by (induction es arbitrary: s) (simp_all add: get_put)

lemma first_wins: "get s = None \<Longrightarrow> get (fold put es s) = (case es of [] \<Rightarrow> None | e # _ \<Rightarrow> Some e)"
  by (cases es) (simp_all add: latched get_put)

lemma put_not_None [simp]: "get (put e s) \<noteq> None"
  by (simp add: get_put)

lemma fold_None: "get (fold put es s) = None \<longleftrightarrow> get s = None \<and> es = []"
  by (cases "get s") (auto simp: latched first_wins split: list.splits)

end

section \<open>Error chains and notices\<close>

text \<open>\<^verbatim>\<open>errors.Is(err, io.EOF)\<close> and \<^verbatim>\<open>errors.Is(err, fault.ErrSignal)\<close>, the latter by the code (\<^verbatim>\<open>Fault.Is\<close>).\<close>

fun is_EOF :: "err \<Rightarrow> bool" where
  "is_EOF (FaultErr code cl r op sb cause d) = (case cause of None \<Rightarrow> False | Some e \<Rightarrow> is_EOF e)"
| "is_EOF (WrapErr t e) = is_EOF e"
| "is_EOF (PlainErr s) = (s = ''EOF'')"

definition is_signal :: "err \<Rightarrow> bool" where
  "is_signal e = HasCode e Signal"

lemma is_signal_ErrSignal [simp]: "is_signal ErrSignal"
  by (simp add: is_signal_def ErrSignal_def New_def)

text \<open>The notice that each end sends to the other when a fault ends its session.\<close>

definition fatal_notice :: "err \<Rightarrow> Message" where
  "fatal_notice e = (let code = GetCode (Some e) in
     M_Error \<lparr>er_Code = numericCode code, er_Fatal = 1, er_Message = code, er_Detail = str (Condition code)\<rparr>)"

definition is_notice :: "Message \<Rightarrow> bool" where
  "is_notice m = (case m of M_Error _ \<Rightarrow> True | _ \<Rightarrow> False)"

lemma is_notice_fatal_notice [simp]: "is_notice (fatal_notice e)"
  by (simp add: is_notice_def fatal_notice_def Let_def)

text \<open>The fault for a message that is out of place.\<close>

definition unexpected :: "string \<Rightarrow> Message \<Rightarrow> err" where
  "unexpected op m = Newf E5001 op (FormatUint (unat (Type m)) 16) None (str ''unexpected control message'')"

section \<open>Waits and defaults\<close>

text \<open>How a wait on a channel, the root context and a timer ends.\<close>

datatype waited = Arrived | RootDone | TimedOut

text \<open>A setting that is not positive stands for its default.\<close>

definition or_default :: "int \<Rightarrow> int \<Rightarrow> int" where
  "or_default v d = (if v \<le> 0 then d else v)"

definition milli :: int where "milli = 1000000"
definition second :: int where "second = 1000000000"

end
