(* ===== verification/Base32.thy ===== *)
theory Base32
  imports Esync_Prelude
begin

text \<open>
  Bit strings, and the two standard-library codes the pairing code is built from: Base32 without
  padding over a 32-symbol alphabet (\<^verbatim>\<open>encoding/base32\<close>) and CRC-32C (\<^verbatim>\<open>hash/crc32\<close> with the
  Castagnoli polynomial). Both are bit-level definitions; the library's decoder drops a final
  group of 1, 3 or 6 symbols without an error, which \<open>b32_tail\<close> records.
\<close>

unbundle bit_operations_syntax

section \<open>Bit strings\<close>

fun bits :: "nat \<Rightarrow> nat \<Rightarrow> bool list" where
  "bits 0 x = []"
| "bits (Suc w) x = odd (x div 2 ^ w) # bits w x"

fun unbits :: "bool list \<Rightarrow> nat" where
  "unbits [] = 0"
| "unbits (b # bs) = of_bool b * 2 ^ length bs + unbits bs"

lemma length_bits [simp]: "length (bits w x) = w"
  by (induction w) auto

lemma unbits_less: "unbits bs < 2 ^ length bs"
  by (induction bs) auto

lemma unbits_bits [simp]: "unbits (bits w x) = x mod 2 ^ w"
proof (induction w)
  case (Suc w)
  have "x mod 2 ^ Suc w = (x div 2 ^ w mod 2) * 2 ^ w + x mod 2 ^ w"
    using mod_mult2_eq [of x "2 ^ w" 2] by (simp add: mult.commute)
  with Suc show ?case by (simp add: odd_iff_mod_2_eq_one)
qed simp

lemma bits_mod: "w \<le> v \<Longrightarrow> bits w (x mod 2 ^ v) = bits w x"
proof (induction w)
  case (Suc w)
  then show ?case
    by (simp flip: bit_iff_odd take_bit_eq_mod add: bit_take_bit_iff)
qed simp

lemma bits_unbits: "length bs = n \<Longrightarrow> bits n (unbits bs) = bs"
proof (induction bs arbitrary: n)
  case (Cons b bs)
  then obtain m where n: "n = Suc m" "length bs = m" by auto
  have "unbits (b # bs) div 2 ^ m = of_bool b" using unbits_less [of bs] by (simp add: n)
  moreover have "bits m (unbits (b # bs)) = bits m (unbits bs)"
    using bits_mod [of m m "unbits (b # bs)"] unbits_less [of bs] by (simp add: n)
  ultimately show ?case using Cons.IH [OF n(2)] by (simp add: n)
qed simp

lemma unbits_inject: "length a = length b \<Longrightarrow> unbits a = unbits b \<Longrightarrow> a = b"
  by (metis bits_unbits)

text \<open>Cutting a list into groups of \<open>n\<close>.\<close>

function chunks :: "nat \<Rightarrow> 'a list \<Rightarrow> 'a list list" where
  "chunks n xs = (if n = 0 \<or> xs = [] then [] else take n xs # chunks n (drop n xs))"
  by pat_completeness auto
termination by (relation "measure (\<lambda>(n, xs). length xs)") (auto simp: length_drop)

declare chunks.simps [simp del]

lemma chunks_Nil [simp]: "chunks n [] = []" by (simp add: chunks.simps)

lemma chunks_append: "length a = n \<Longrightarrow> 0 < n \<Longrightarrow> chunks n (a @ b) = a # chunks n b"
  by (subst chunks.simps) auto

lemma concat_chunks: "0 < n \<Longrightarrow> concat (chunks n xs) = xs"
proof (induction n xs rule: chunks.induct)
  case (1 n xs)
  then show ?case by (subst chunks.simps) auto
qed

lemma chunks_length: "0 < n \<Longrightarrow> length xs mod n = 0 \<Longrightarrow> c \<in> set (chunks n xs) \<Longrightarrow> length c = n"
proof (induction n xs rule: chunks.induct)
  case (1 n xs)
  show ?case
  proof (cases "xs = []")
    case False
    have len: "n \<le> length xs"
    proof (rule ccontr)
      assume "\<not> n \<le> length xs"
      then have "length xs mod n = length xs" by simp
      with 1(3) False show False by simp
    qed
    then have dvd: "length (drop n xs) mod n = 0" using 1(3) by (simp add: le_mod_geq)
    have "c = take n xs \<or> c \<in> set (chunks n (drop n xs))"
      using 1(4) False 1(2) by (subst (asm) chunks.simps) auto
    then show ?thesis using 1(1) [OF _ 1(2) dvd] 1(2) False len by auto
  qed (use 1 in simp)
qed

lemma length_chunks: "0 < n \<Longrightarrow> length xs = n * k \<Longrightarrow> length (chunks n xs) = k"
proof (induction k arbitrary: xs)
  case (Suc k)
  then show ?case by (subst chunks.simps) auto
qed simp

lemma chunks_concat: "0 < n \<Longrightarrow> (\<And>c. c \<in> set cs \<Longrightarrow> length c = n) \<Longrightarrow> chunks n (concat cs) = cs"
  by (induction cs) (auto simp: chunks_append)

section \<open>Base32\<close>

definition bits_of_bytes :: "bytes \<Rightarrow> bool list" where
  "bits_of_bytes b = concat (map (\<lambda>x. bits 8 (unat x)) b)"

definition bytes_of_bits :: "bool list \<Rightarrow> bytes" where
  "bytes_of_bits bs = map (\<lambda>c. word_of_nat (unbits c)) (chunks 8 bs)"

lemma length_bits_of_bytes [simp]: "length (bits_of_bytes b) = 8 * length b"
  by (induction b) (auto simp: bits_of_bytes_def)

lemma bytes_of_bits_of_bytes [simp]: "bytes_of_bits (bits_of_bytes b) = b"
proof -
  have "chunks 8 (bits_of_bytes b) = map (\<lambda>x. bits 8 (unat x)) b"
    unfolding bits_of_bytes_def by (rule chunks_concat) auto
  moreover have "word_of_nat (unat x mod 2 ^ 8) = x" for x :: byte by simp
  ultimately show ?thesis by (simp add: bytes_of_bits_def comp_def map_idI)
qed

definition b32_encode :: "bytes \<Rightarrow> bytes \<Rightarrow> bytes" where
  "b32_encode alphabet b =
     (let bs = bits_of_bytes b; padded = bs @ replicate ((5 - length bs mod 5) mod 5) False
      in map (\<lambda>q. alphabet ! unbits q) (chunks 5 padded))"

text \<open>The bytes a final group of \<open>n\<close> symbols yields.\<close>

definition b32_tail :: "nat \<Rightarrow> nat" where
  "b32_tail n = (if n = 7 then 4 else if n = 5 then 3 else if n = 4 then 2 else if n = 2 then 1 else 0)"

definition b32_decode :: "(byte \<Rightarrow> nat option) \<Rightarrow> bytes \<Rightarrow> bytes option" where
  "b32_decode idx cs =
     (if \<exists>c\<in>set cs. idx c = None then None
      else let bs = concat (map (\<lambda>c. bits 5 (the (idx c))) cs);
               n = 5 * (length cs div 8) + b32_tail (length cs mod 8)
           in Some (bytes_of_bits (take (8 * n) bs)))"

lemma b32_pad_length:
  fixes n :: nat
  obtains k where "8 * n + (5 - 8 * n mod 5) mod 5 = 5 * k" and "n = 5 * (k div 8) + b32_tail (k mod 8)"
proof -
  define q r where "q = n div 5" and "r = n mod 5"
  have n: "n = 5 * q + r" and r: "r < 5" by (simp_all add: q_def r_def)
  define t :: nat where "t = (if r = 0 then 0 else if r = 1 then 2 else if r = 2 then 4 else if r = 3 then 5 else 7)"
  have t: "t < 8" "b32_tail t = r" using r by (auto simp: t_def b32_tail_def)
  have m: "8 * n mod 5 = 8 * r mod 5"
    using mod_mult_self4 [of 5 "8 * q" "8 * r"] by (simp add: n algebra_simps)
  have "8 * r + (5 - 8 * r mod 5) mod 5 = 5 * t"
  proof -
    consider "r = 0" | "r = 1" | "r = 2" | "r = 3" | "r = 4" using r by linarith
    then show ?thesis by cases (simp_all add: t_def)
  qed
  then have "8 * n + (5 - 8 * n mod 5) mod 5 = 5 * (8 * q + t)" unfolding m by (simp add: n)
  moreover have "(8 * q + t) div 8 = q" "(8 * q + t) mod 8 = t" using t by simp_all
  ultimately show ?thesis using that [of "8 * q + t"] t(2) n by simp
qed

lemma b32_roundtrip:
  assumes idx: "\<And>i. i < 32 \<Longrightarrow> idx (alphabet ! i) = Some i"
  shows "b32_decode idx (b32_encode alphabet b) = Some b"
proof -
  let ?bs = "bits_of_bytes b"
  let ?pad = "?bs @ replicate ((5 - length ?bs mod 5) mod 5) False"
  obtain k where k: "8 * length b + (5 - 8 * length b mod 5) mod 5 = 5 * k"
    and n: "length b = 5 * (k div 8) + b32_tail (k mod 8)" by (rule b32_pad_length)
  have len: "length ?pad = 5 * k" using k by simp
  then have q: "length c = 5" if "c \<in> set (chunks 5 ?pad)" for c
    using chunks_length [of 5 ?pad c] that by simp
  then have lt: "unbits c < 32" if "c \<in> set (chunks 5 ?pad)" for c
    using unbits_less [of c] that by fastforce
  have enc: "b32_encode alphabet b = map (\<lambda>q. alphabet ! unbits q) (chunks 5 ?pad)"
    by (simp add: b32_encode_def Let_def)
  have "map (\<lambda>c. bits 5 (the (idx c))) (b32_encode alphabet b) = chunks 5 ?pad"
    using idx lt q unfolding enc by (auto simp: comp_def bits_unbits intro!: map_idI)
  then have bs: "concat (map (\<lambda>c. bits 5 (the (idx c))) (b32_encode alphabet b)) = ?pad"
    by (simp only: concat_chunks [of 5, simplified])
  have "length (b32_encode alphabet b) = k" unfolding enc using length_chunks [OF _ len] by simp
  moreover have "\<not> (\<exists>c\<in>set (b32_encode alphabet b). idx c = None)" unfolding enc using idx lt by auto
  ultimately show ?thesis
    unfolding b32_decode_def bs Let_def by (simp flip: n)
qed

lemma length_b32_encode:
  "length b = 5 * (length (b32_encode alphabet b) div 8) + b32_tail (length (b32_encode alphabet b) mod 8)"
proof -
  let ?bs = "bits_of_bytes b"
  obtain k where k: "8 * length b + (5 - 8 * length b mod 5) mod 5 = 5 * k"
    and n: "length b = 5 * (k div 8) + b32_tail (k mod 8)" by (rule b32_pad_length)
  have "length (b32_encode alphabet b) = k"
    using length_chunks [of 5 "?bs @ replicate ((5 - length ?bs mod 5) mod 5) False" k] k
    by (simp add: b32_encode_def Let_def)
  with n show ?thesis by simp
qed

text \<open>
  Two encodings that differ in one symbol come from byte strings of the same length that differ
  in at most two neighbouring bytes.
\<close>

lemma bits_of_bytes_take: "bits_of_bytes (take n b) = take (8 * n) (bits_of_bytes b)"
proof (induction b arbitrary: n)
  case (Cons x b)
  then show ?case by (cases n) (auto simp: bits_of_bytes_def)
qed (simp add: bits_of_bytes_def)

lemma bits_of_bytes_drop: "bits_of_bytes (drop n b) = drop (8 * n) (bits_of_bytes b)"
proof (induction b arbitrary: n)
  case (Cons x b)
  then show ?case by (cases n) (auto simp: bits_of_bytes_def)
qed (simp add: bits_of_bytes_def)

lemma bits_of_bytes_inject: "bits_of_bytes a = bits_of_bytes b \<Longrightarrow> a = b"
  by (metis bytes_of_bits_of_bytes)

lemma b32_decode_bits:
  assumes "b32_decode idx cs = Some b" and "b32_encode alphabet b = cs"
  shows "bits_of_bytes b = take (8 * length b) (concat (map (\<lambda>c. bits 5 (the (idx c))) cs))"
proof -
  let ?bs = "concat (map (\<lambda>c. bits 5 (the (idx c))) cs)"
  let ?n = "5 * (length cs div 8) + b32_tail (length cs mod 8)"
  have n: "length b = ?n" using length_b32_encode [of b alphabet] assms(2) by simp
  have b: "b = bytes_of_bits (take (8 * ?n) ?bs)"
    using assms(1) by (simp add: b32_decode_def Let_def split: if_splits)
  have len: "length ?bs = 5 * length cs" by (induction cs) auto
  have "b32_tail m * 8 \<le> 5 * m" for m by (simp add: b32_tail_def)
  moreover have "8 * (5 * d + t) \<le> 5 * l" if "t * 8 \<le> 5 * m" "d * 8 + m = l" for d t m l :: nat
    using that by presburger
  ultimately have le: "8 * ?n \<le> 5 * length cs" using div_mult_mod_eq by blast
  have "bits_of_bytes (bytes_of_bits xs) = xs" if "length xs mod 8 = 0" for xs
  proof -
    have "map (\<lambda>c. bits 8 (unat (word_of_nat (unbits c) :: byte))) (chunks 8 xs) = chunks 8 xs"
    proof (rule map_idI)
      fix c assume "c \<in> set (chunks 8 xs)"
      then have "length c = 8" using chunks_length [of 8 xs c] that by simp
      then show "bits 8 (unat (word_of_nat (unbits c) :: byte)) = c"
        using unbits_less [of c] by (simp add: unat_of_nat bits_unbits)
    qed
    then show ?thesis by (simp add: bits_of_bytes_def bytes_of_bits_def comp_def concat_chunks)
  qed
  from this [of "take (8 * ?n) ?bs"] have "bits_of_bytes b = take (8 * ?n) ?bs"
    using len le unfolding b by simp
  then show ?thesis unfolding n .
qed

lemma b32_one_symbol:
  assumes 1: "b32_decode idx (pre @ x # post) = Some a" "b32_encode alphabet a = pre @ x # post"
    and 2: "b32_decode idx (pre @ y # post) = Some b" "b32_encode alphabet b = pre @ y # post"
  shows "length a = length b" and "\<exists>i. take i a = take i b \<and> drop (i + 2) a = drop (i + 2) b"
proof -
  show len: "length a = length b"
    using length_b32_encode [of a alphabet] length_b32_encode [of b alphabet] 1(2) 2(2) by simp
  define P Q X Y where "P = concat (map (\<lambda>c. bits 5 (the (idx c))) pre)"
    and "Q = concat (map (\<lambda>c. bits 5 (the (idx c))) post)"
    and "X = bits 5 (the (idx x))" and "Y = bits 5 (the (idx y))"
  have A: "bits_of_bytes a = take (8 * length a) (P @ X @ Q)"
    using b32_decode_bits [OF 1] by (simp add: P_def Q_def X_def)
  have B: "bits_of_bytes b = take (8 * length a) (P @ Y @ Q)"
    using b32_decode_bits [OF 2] by (simp add: P_def Q_def Y_def len)
  define i where "i = length P div 8"
  have i: "8 * i \<le> length P" "length P + 5 \<le> 8 * (i + 2)" by (simp_all add: i_def)
  have XY: "length X = 5" "length Y = 5" by (simp_all add: X_def Y_def)
  have "bits_of_bytes (take i a) = bits_of_bytes (take i b)"
  proof -
    have "take (8 * i) (P @ X @ Q) = take (8 * i) (P @ Y @ Q)" using i(1) by simp
    then have "take n (take (8 * i) (P @ X @ Q)) = take n (take (8 * i) (P @ Y @ Q))" for n by (rule arg_cong)
    then show ?thesis unfolding bits_of_bytes_take A B take_take min.commute [of "8 * i"] by (simp only: take_take)
  qed
  moreover have "drop (8 * (i + 2)) (P @ X @ Q) = drop (8 * (i + 2)) (P @ Y @ Q)"
    using i(2) XY by simp
  then have "bits_of_bytes (drop (i + 2) a) = bits_of_bytes (drop (i + 2) b)"
    unfolding bits_of_bytes_drop A B by (simp only: drop_take)
  ultimately show "\<exists>i. take i a = take i b \<and> drop (i + 2) a = drop (i + 2) b"
    by (blast dest: bits_of_bytes_inject)
qed

section \<open>CRC-32C\<close>

definition crc_bit :: "u32 \<Rightarrow> u32" where
  "crc_bit s = (if bit s 0 then drop_bit 1 s XOR 0x82F63B78 else drop_bit 1 s)"

definition crc_bit8 :: "u32 \<Rightarrow> u32" where
  "crc_bit8 s = crc_bit (crc_bit (crc_bit (crc_bit (crc_bit (crc_bit (crc_bit (crc_bit s)))))))"

definition crc_byte :: "u32 \<Rightarrow> byte \<Rightarrow> u32" where
  "crc_byte s b = crc_bit8 (s XOR ucast b)"

definition crc32c :: "bytes \<Rightarrow> u32" where
  "crc32c b = NOT (foldl crc_byte 0xFFFFFFFF b)"

lemma crc_bit_xor: "crc_bit (a XOR b) = crc_bit a XOR crc_bit b"
  by (auto simp: crc_bit_def bit_xor_iff drop_bit_xor xor.assoc xor.commute xor.left_commute)

lemma crc_bit8_xor: "crc_bit8 (a XOR b) = crc_bit8 a XOR crc_bit8 b"
  by (simp add: crc_bit8_def crc_bit_xor)

lemma crc_bit_0: "crc_bit s = 0 \<Longrightarrow> s = 0"
proof -
  assume a: "crc_bit s = 0"
  have "bit (drop_bit 1 s) 31 = False" by (auto simp: bit_drop_bit_eq dest: bit_imp_le_length)
  moreover have "bit (0x82F63B78 :: u32) 31" by simp
  ultimately have even: "\<not> bit s 0"
    using arg_cong [OF a, of "\<lambda>w. bit w 31"] by (auto simp: crc_bit_def bit_xor_iff split: if_splits)
  then have "drop_bit 1 s = 0" using a by (simp add: crc_bit_def)
  show ?thesis
  proof (rule bit_eqI)
    fix n
    show "bit s n = bit (0 :: u32) n"
      using even arg_cong [OF \<open>drop_bit 1 s = 0\<close>, of "\<lambda>w. bit w (n - 1)"]
      by (cases n) (simp_all add: bit_drop_bit_eq)
  qed
qed

lemma crc_bit8_0: "crc_bit8 s = 0 \<Longrightarrow> s = 0"
  unfolding crc_bit8_def by (blast dest: crc_bit_0)

lemma xor_eq_0: "(a :: 'a::len word) XOR b = 0 \<longleftrightarrow> a = b"
  by (metis xor.left_neutral xor.assoc xor_self_eq xor.right_neutral)

lemma crc_byte_inj: "crc_byte s x = crc_byte t x \<Longrightarrow> s = t"
proof -
  assume "crc_byte s x = crc_byte t x"
  then have "crc_bit8 ((s XOR ucast x) XOR (t XOR ucast x)) = 0"
    by (simp add: crc_byte_def crc_bit8_xor xor_eq_0)
  from crc_bit8_0 [OF this] have "s XOR ucast x = t XOR ucast x" by (simp only: xor_eq_0)
  from arg_cong [OF this, of "\<lambda>w. w XOR ucast x"] show ?thesis by (simp add: xor.assoc)
qed

lemma crc_fold_inj: "foldl crc_byte s bs = foldl crc_byte t bs \<Longrightarrow> s = t"
  by (induction bs arbitrary: s t) (auto dest: crc_byte_inj)

text \<open>The effect of one byte on the register, as a combination of eight constants.\<close>

lemma crc_bit8_basis:
  "crc_bit8 (2 ^ 0) = 0xF26B8303"
  "crc_bit8 (2 ^ 1) = 0xE13B70F7"
  "crc_bit8 (2 ^ 2) = 0xC79A971F"
  "crc_bit8 (2 ^ 3) = 0x8AD958CF"
  "crc_bit8 (2 ^ 4) = 0x105EC76F"
  "crc_bit8 (2 ^ 5) = 0x20BD8EDE"
  "crc_bit8 (2 ^ 6) = 0x417B1DBC"
  "crc_bit8 (2 ^ 7) = 0x82F63B78"
  by (simp_all add: crc_bit8_def crc_bit_def)

lemma bit_if_exp: "bit (if c then 2 ^ k else 0 :: u32) n \<longleftrightarrow> c \<and> n = k \<and> k < 32"
  by (auto simp: bit_exp_iff)

lemma byte_as_bits:
  "(ucast (e :: byte) :: u32) =
     (if bit e 0 then 2 ^ 0 else 0) XOR
     (if bit e 1 then 2 ^ 1 else 0) XOR
     (if bit e 2 then 2 ^ 2 else 0) XOR
     (if bit e 3 then 2 ^ 3 else 0) XOR
     (if bit e 4 then 2 ^ 4 else 0) XOR
     (if bit e 5 then 2 ^ 5 else 0) XOR
     (if bit e 6 then 2 ^ 6 else 0) XOR
     (if bit e 7 then 2 ^ 7 else 0)"
proof (rule bit_word_eqI)
  fix n assume n: "n < LENGTH(32)"
  have "n = 0 \<or> n = 1 \<or> n = 2 \<or> n = 3 \<or> n = 4 \<or> n = 5 \<or> n = 6 \<or> n = 7 \<or> n > 7 \<and> \<not> bit e n"
    using bit_imp_le_length [of e n] by auto
  then show "bit (ucast e :: u32) n = bit ((if bit e 0 then 2 ^ 0 else 0) XOR
     (if bit e 1 then 2 ^ 1 else 0) XOR
     (if bit e 2 then 2 ^ 2 else 0) XOR
     (if bit e 3 then 2 ^ 3 else 0) XOR
     (if bit e 4 then 2 ^ 4 else 0) XOR
     (if bit e 5 then 2 ^ 5 else 0) XOR
     (if bit e 6 then 2 ^ 6 else 0) XOR
     (if bit e 7 then 2 ^ 7 else 0) :: u32) n"
    unfolding bit_xor_iff bit_if_exp bit_ucast_iff using n by (elim disjE) simp_all
qed

lemma crc_bit8_if: "crc_bit8 (if c then v else 0) = (if c then crc_bit8 v else 0)"
proof -
  have "crc_bit8 0 = 0" by (simp add: crc_bit8_def crc_bit_def)
  then show ?thesis by simp
qed

lemma crc_bit8_byte:
  "crc_bit8 (ucast (e :: byte)) =
     (if bit e 0 then 0xF26B8303 else 0) XOR
     (if bit e 1 then 0xE13B70F7 else 0) XOR
     (if bit e 2 then 0xC79A971F else 0) XOR
     (if bit e 3 then 0x8AD958CF else 0) XOR
     (if bit e 4 then 0x105EC76F else 0) XOR
     (if bit e 5 then 0x20BD8EDE else 0) XOR
     (if bit e 6 then 0x417B1DBC else 0) XOR
     (if bit e 7 then 0x82F63B78 else 0)"
  unfolding byte_as_bits crc_bit8_xor crc_bit8_if crc_bit8_basis ..

lemma byte_0_iff: "(e :: byte) = 0 \<longleftrightarrow> \<not> bit e 0 \<and> \<not> bit e 1 \<and> \<not> bit e 2 \<and> \<not> bit e 3 \<and>
    \<not> bit e 4 \<and> \<not> bit e 5 \<and> \<not> bit e 6 \<and> \<not> bit e 7"
proof
  assume a: "\<not> bit e 0 \<and> \<not> bit e 1 \<and> \<not> bit e 2 \<and> \<not> bit e 3 \<and> \<not> bit e 4 \<and> \<not> bit e 5 \<and> \<not> bit e 6 \<and> \<not> bit e 7"
  show "e = 0"
  proof (rule bit_word_eqI)
    fix n assume "n < LENGTH(8)"
    then have "n = 0 \<or> n = 1 \<or> n = 2 \<or> n = 3 \<or> n = 4 \<or> n = 5 \<or> n = 6 \<or> n = 7" by auto
    with a show "bit e n = bit 0 n" by (elim disjE) simp_all
  qed
qed simp

text \<open>One changed byte always reaches both the high 24 and the low 24 bits of the register.\<close>

lemma bit_if_word: "bit (if p then w else 0 :: u32) n \<longleftrightarrow> p \<and> bit w n"
  by simp

lemma xor_system:
  assumes "\<not> (a \<noteq> (c \<noteq> (e \<noteq> (g \<noteq> h))))"
    and "\<not> (a \<noteq> (c \<noteq> (e \<noteq> (f \<noteq> h))))"
    and "\<not> (c \<noteq> (e \<noteq> (f \<noteq> g)))"
    and "\<not> (d \<noteq> (f \<noteq> (g \<noteq> h)))"
    and "\<not> (b \<noteq> (c \<noteq> (d \<noteq> (g \<noteq> h))))"
    and "\<not> (b \<noteq> h)"
    and "\<not> (b \<noteq> (d \<noteq> e))"
    and "\<not> (a \<noteq> (c \<noteq> (e \<noteq> f)))"
  shows "\<not> a \<and> \<not> b \<and> \<not> c \<and> \<not> d \<and> \<not> e \<and> \<not> f \<and> \<not> g \<and> \<not> h"
  using assms by argo

lemma crc_independent:
  fixes v :: u32
  assumes v: "v = (if a then 0xF26B8303 else 0) XOR (if b then 0xE13B70F7 else 0) XOR (if c then 0xC79A971F else 0) XOR (if d then 0x8AD958CF else 0) XOR
      (if e then 0x105EC76F else 0) XOR (if f then 0x20BD8EDE else 0) XOR (if g then 0x417B1DBC else 0) XOR (if h then 0x82F63B78 else 0)"
    and z: "v AND 0xFFFFFF00 = 0 \<or> v AND 0x00FFFFFF = 0"
  shows "\<not> a \<and> \<not> b \<and> \<not> c \<and> \<not> d \<and> \<not> e \<and> \<not> f \<and> \<not> g \<and> \<not> h"
proof -
  have "bit (0xFFFFFF00 :: u32) k \<and> bit (0x00FFFFFF :: u32) k" if "k \<in> {8, 9, 10, 11, 12, 13, 14, 15}" for k
    using that by auto
  then have "\<not> bit v k" if "k \<in> {8, 9, 10, 11, 12, 13, 14, 15}" for k
    using z that by (metis bit_and_iff bit_0_eq bot_apply bot_bool_def)
  then have "\<not> bit v 8" "\<not> bit v 9" "\<not> bit v 10" "\<not> bit v 11" "\<not> bit v 12" "\<not> bit v 13" "\<not> bit v 14" "\<not> bit v 15" by blast+
  then show ?thesis
    unfolding v bit_xor_iff bit_if_word by (intro xor_system) simp_all
qed

lemma crc_spread:
  assumes "crc_bit8 (ucast (e :: byte)) AND 0xFFFFFF00 = 0 \<or> crc_bit8 (ucast e) AND 0x00FFFFFF = 0"
  shows "e = 0"
  unfolding byte_0_iff by (rule crc_independent [OF crc_bit8_byte assms])

lemma ucast_xor: "(ucast (x :: byte) :: u32) XOR ucast y = ucast (x XOR y)"
  by (rule bit_word_eqI) (auto simp: bit_xor_iff bit_ucast_iff)

lemma ucast_byte_0: "(ucast (x :: byte) :: u32) = 0 \<Longrightarrow> x = 0"
proof (rule bit_word_eqI)
  fix n assume "(ucast x :: u32) = 0" and "n < LENGTH(8)"
  then show "bit x n = bit 0 n" using bit_ucast_iff [of x n, where ?'a = 32] by simp
qed

lemma ucast_byte_high: "(ucast (x :: byte) :: u32) AND 0xFFFFFF00 = 0"
proof (rule bit_word_eqI)
  fix n assume "n < LENGTH(32)"
  have "n = 0 \<or> n = 1 \<or> n = 2 \<or> n = 3 \<or> n = 4 \<or> n = 5 \<or> n = 6 \<or> n = 7 \<or> \<not> bit x n"
    using bit_imp_le_length [of x n] by auto
  then show "bit (ucast x AND 0xFFFFFF00 :: u32) n = bit 0 n"
    unfolding bit_and_iff bit_ucast_iff by (elim disjE) simp_all
qed

lemma crc_byte_xor: "crc_byte s x XOR crc_byte t y = crc_bit8 ((s XOR t) XOR ucast (x XOR y))"
  unfolding crc_byte_def crc_bit8_xor [symmetric] ucast_xor [symmetric]
  by (simp add: xor.assoc xor.left_commute xor.commute)

lemma crc_two_bytes:
  assumes "crc_byte (crc_byte s x1) x2 = crc_byte (crc_byte s y1) y2"
  shows "x1 = y1 \<and> x2 = y2"
proof -
  have "crc_bit8 ((crc_byte s x1 XOR crc_byte s y1) XOR ucast (x2 XOR y2)) = 0"
    using assms unfolding crc_byte_xor [symmetric] by (simp add: xor_eq_0)
  then have eq: "crc_bit8 (ucast (x1 XOR y1)) = ucast (x2 XOR y2)"
    unfolding crc_byte_xor by (auto dest!: crc_bit8_0 simp: xor_eq_0)
  then have "x1 XOR y1 = 0" by (intro crc_spread) (simp add: ucast_byte_high)
  moreover from this have "(ucast (x2 XOR y2) :: u32) = 0" using eq crc_bit8_if [of False] by simp
  then have "x2 XOR y2 = 0" by (rule ucast_byte_0)
  ultimately show ?thesis by (simp add: xor_eq_0)
qed

lemma get32_low:
  assumes "length p = 4" "length q = 4" "drop 1 p = drop 1 q"
  shows "(get32 p XOR get32 q) AND 0x00FFFFFF = 0"
proof -
  obtain x p' where p: "p = x # p'" "length p' = 3" using assms(1) by (cases p) auto
  obtain y where q: "q = y # p'" using assms(2,3) p by (cases q) auto
  have low: "get32 (z # p') AND 0x00FFFFFF = word_of_nat (unbe p' mod 2 ^ 24)" for z
  proof -
    have "unbe (z # p') mod 2 ^ 24 = unbe p' mod 2 ^ 24" using p(2) by (simp add: unbe_Cons)
    moreover have "get32 (z # p') AND 0x00FFFFFF = take_bit 24 (word_of_nat (unbe (z # p')))"
      using p(2) by (simp add: get32_def take_bit_eq_mask mask_eq_exp_minus_1)
    moreover have "take_bit 24 (word_of_nat n :: u32) = word_of_nat (n mod 2 ^ 24)" for n
      by (simp only: take_bit_of_nat take_bit_nat_def)
    ultimately show ?thesis by simp
  qed
  have "(v XOR w) AND m = (v AND m) XOR (w AND m)" for v w m :: u32
    by (rule bit_word_eqI) (auto simp: bit_and_iff bit_xor_iff)
  then show ?thesis unfolding p(1) q by (simp only: low xor_self_eq)
qed

lemma get32_inject: "length p = 4 \<Longrightarrow> length q = 4 \<Longrightarrow> get32 p = get32 q \<Longrightarrow> p = q"
  by (metis be32_get32)

lemma not_xor_not: "NOT (a :: 'a::len word) XOR NOT b = a XOR b"
  by (rule bit_word_eqI) (auto simp: bit_xor_iff bit_not_iff)

lemma crc_last_byte:
  assumes crc: "(crc32c (d @ [x]) XOR crc32c (d @ [y])) AND 0x00FFFFFF = 0"
  shows "x = y"
proof -
  have "crc_bit8 (ucast (x XOR y)) AND 0x00FFFFFF = 0"
    using crc by (simp add: crc32c_def not_xor_not crc_byte_xor)
  then have "x XOR y = 0" by (intro crc_spread) simp
  then show ?thesis by (simp add: xor_eq_0)
qed

text \<open>
  A byte string followed by its checksum, changed within two neighbouring bytes, no longer
  carries its checksum: also when the change runs across the boundary.
\<close>

lemma take_drop_split: "m < length a \<Longrightarrow> a = take m a @ a ! m # drop (Suc m) a"
  by (simp add: id_take_nth_drop)

lemma crc_detects:
  assumes len: "length a = length b" "4 \<le> length a" "m = length a - 4"
    and near: "take i a = take i b" "drop (i + 2) a = drop (i + 2) b"
    and ok: "crc32c (take m a) = get32 (drop m a)" "crc32c (take m b) = get32 (drop m b)"
  shows "a = b"
proof -
  have len4: "length (drop m a) = 4" "length (drop m b) = 4" using len by simp_all
  have same: "a = b" if "take m a = take m b"
  proof -
    have "drop m a = drop m b" using ok that by (intro get32_inject len4) simp
    with that show ?thesis by (metis append_take_drop_id)
  qed
  consider "m \<le> i" | "m = i + 1" | "i + 2 \<le> m" by linarith
  then show ?thesis
  proof cases
    case 1
    then show ?thesis using near(1) by (intro same) (metis take_take min.absorb1)
  next
    case 2
    have i: "take m a = take i a @ [a ! i]" "take m b = take i a @ [b ! i]"
      using 2 len near(1) by (simp_all add: take_Suc_conv_app_nth)
    have "drop 1 (drop m a) = drop 1 (drop m b)" using near(2) 2 by (simp add: add.commute)
    then have "(crc32c (take i a @ [a ! i]) XOR crc32c (take i a @ [b ! i])) AND 0x00FFFFFF = 0"
      using get32_low [OF len4] ok unfolding i by simp
    then have "a ! i = b ! i" by (rule crc_last_byte)
    then show ?thesis using i by (intro same) simp
  next
    case 3
    let ?s = "foldl crc_byte 0xFFFFFFFF (take i a)" and ?r = "take (m - (i + 2)) (drop (i + 2) a)"
    have "drop m a = drop m b" using near(2) 3 by (metis add.commute drop_drop le_add_diff_inverse)
    with ok have crc: "crc32c (take m a) = crc32c (take m b)" by simp
    have two: "take m c = take i c @ [c ! i, c ! Suc i] @ take (m - (i + 2)) (drop (i + 2) c)"
      if "length c = length a" for c
    proof -
      obtain r where r: "m = i + (2 + r)" using 3 le_Suc_ex by (metis add.assoc)
      have "i < length c" "Suc i < length c" using that len 3 by simp_all
      then have "drop i c = c ! i # c ! Suc i # drop (i + 2) c" by (simp add: Cons_nth_drop_Suc)
      moreover have "take (i + (2 + r)) c = take i c @ take (2 + r) (drop i c)" by (rule take_add)
      ultimately show ?thesis by (simp add: r)
    qed
    have ab: "take m a = take i a @ [a ! i, a ! Suc i] @ ?r" by (rule two) simp
    have bb: "take m b = take i a @ [b ! i, b ! Suc i] @ ?r"
      unfolding near using two [of b] len(1) by simp
    have "foldl crc_byte (crc_byte (crc_byte ?s (a ! i)) (a ! Suc i)) ?r =
        foldl crc_byte (crc_byte (crc_byte ?s (b ! i)) (b ! Suc i)) ?r"
      using arg_cong [OF crc, of "\<lambda>w. NOT w"] unfolding ab bb crc32c_def by simp
    from crc_two_bytes [OF crc_fold_inj [OF this]] have "take m a = take m b" unfolding ab bb by simp
    then show ?thesis by (rule same)
  qed
qed

end
