(* ===== verification/Paircode.thy ===== *)
theory Paircode
  imports Base32 Fault
begin

text \<open>
  The pairing code (\<^verbatim>\<open>internal/paircode\<close>): building, printing, cleaning and parsing a code
  (\<^verbatim>\<open>paircode.go\<close>), the identifiers derived from its secret (\<^verbatim>\<open>derive.go\<close>), and the choice of
  the advertised endpoints (\<^verbatim>\<open>discover.go\<close>). SHA-256, HKDF, the address parser and the
  interface table are parameters.
\<close>

unbundle bit_operations_syntax

section \<open>Addresses and payloads\<close>

text \<open>A \<^verbatim>\<open>netip.Addr\<close>: the zero value, an IPv4 address, or an IPv6 address with its zone.\<close>

datatype Addr = NoAddr | V4 bytes | V6 bytes bytes

record Endpoint =
  ep_Addr :: Addr
  ep_Port :: u16

record Payload =
  pl_Endpoints :: "Endpoint list"
  pl_Secret :: bytes
  pl_Restricted :: bool

definition Alphabet :: bytes where "Alphabet = str ''0123456789ABCDEFGHJKMNPQRSTVWXYZ''"
definition Version :: byte where "Version = 0x01"
definition SecretLen :: nat where "SecretLen = 16"
definition familyV4 :: byte where "familyV4 = 0x04"
definition familyV6 :: byte where "familyV6 = 0x06"
definition minPayloadLen :: nat where "minPayloadLen = 1 + 1 + (1 + 4 + 2) + SecretLen + 4"
definition maxEndpoints :: nat where "maxEndpoints = 4"
definition maxPayloadLen :: nat where "maxPayloadLen = 1 + 1 + maxEndpoints * (1 + 16 + 2) + SecretLen + 4"
definition maxCodeLen :: nat where "maxCodeLen = 260"

lemmas pair_consts = SecretLen_def minPayloadLen_def maxEndpoints_def maxPayloadLen_def maxCodeLen_def

fun IsUnspecified :: "Addr \<Rightarrow> bool" where
  "IsUnspecified (V4 a) \<longleftrightarrow> a = replicate 4 0"
| "IsUnspecified (V6 a z) \<longleftrightarrow> a = replicate 16 0 \<and> z = []"
| "IsUnspecified NoAddr \<longleftrightarrow> False"

definition usable :: "Endpoint \<Rightarrow> bool" where
  "usable e \<longleftrightarrow> ep_Addr e \<noteq> NoAddr \<and> \<not> IsUnspecified (ep_Addr e) \<and> ep_Port e \<noteq> 0"

section \<open>Encoding\<close>

text \<open>\<^verbatim>\<open>Is4\<close> selects the family; \<^verbatim>\<open>As16\<close> of the zero address is sixteen zero bytes.\<close>

fun encodeAddr :: "Addr \<Rightarrow> bytes" where
  "encodeAddr (V4 a) = familyV4 # a"
| "encodeAddr (V6 a z) = familyV6 # a"
| "encodeAddr NoAddr = familyV6 # replicate 16 0"

definition encodeEndpoint :: "Endpoint \<Rightarrow> bytes" where
  "encodeEndpoint e = encodeAddr (ep_Addr e) @ be16 (ep_Port e)"

fun group_from :: "nat \<Rightarrow> bytes \<Rightarrow> bytes" where
  "group_from i [] = []"
| "group_from i (c # s) =
     (if i > 0 \<and> i mod 5 = 0 then [ch (CHR ''-'')] else []) @ c # group_from (Suc i) s"

definition group :: "bytes \<Rightarrow> bytes" where "group s = group_from 0 s"

text \<open>The payload bytes before the checksum; the secret is copied into sixteen bytes.\<close>

definition payload_bytes :: "nat \<Rightarrow> Payload \<Rightarrow> bytes" where
  "payload_bytes n p =
     [Version, push_bit 6 (word_of_nat (n - 1)) OR (if pl_Restricted p then 8 else 0)] @
     concat (map encodeEndpoint (take n (pl_Endpoints p))) @
     take SecretLen (pl_Secret p @ replicate SecretLen 0)"

text \<open>With no endpoint at all the slice expression of the source panics.\<close>

definition Encode :: "Payload \<Rightarrow> bytes option" where
  "Encode p =
     (let n = length (pl_Endpoints p);
          n = (if n < 1 then 1 else n);
          n = (if n > maxEndpoints then maxEndpoints else n)
      in if n > length (pl_Endpoints p) then None
         else let b = payload_bytes n p
              in Some (group (b32_encode Alphabet (b @ be32 (crc32c b)))))"

section \<open>Decoding\<close>

definition is_separator :: "byte \<Rightarrow> bool" where
  "is_separator c \<longleftrightarrow> c \<in> {ch (CHR ''-''), ch (CHR '' ''), 9, 10, 13}"

definition fold_char :: "byte \<Rightarrow> byte" where
  "fold_char c =
     (let c = (if c \<ge> ch (CHR ''a'') \<and> c \<le> ch (CHR ''z'') then c - (ch (CHR ''a'') - ch (CHR ''A'')) else c)
      in if c = ch (CHR ''I'') \<or> c = ch (CHR ''L'') then ch (CHR ''1'')
         else if c = ch (CHR ''O'') then ch (CHR ''0'') else c)"

fun clean :: "bytes \<Rightarrow> bytes" where
  "clean [] = []"
| "clean (c # s) = (if is_separator c then clean s else fold_char c # clean s)"

fun index_from :: "nat \<Rightarrow> bytes \<Rightarrow> byte \<Rightarrow> nat option" where
  "index_from i [] c = None"
| "index_from i (a # as) c = (if a = c then Some i else index_from (Suc i) as c)"

definition alphabetIndex :: "byte \<Rightarrow> nat option" where
  "alphabetIndex c = index_from 0 Alphabet c"

text \<open>The endpoint loop: \<open>None\<close> is each of its E2001 returns.\<close>

fun decodeEndpoints :: "nat \<Rightarrow> nat \<Rightarrow> bytes \<Rightarrow> (Endpoint list \<times> nat) option" where
  "decodeEndpoints 0 pos raw = Some ([], pos)"
| "decodeEndpoints (Suc n) pos raw =
     (if pos + 1 > length raw then None
      else case (if raw ! pos = familyV4 then Some 4 else if raw ! pos = familyV6 then Some 16 else None) of
        None \<Rightarrow> None
      | Some alen \<Rightarrow>
          let pos = pos + 1 in
          if pos + alen + 2 > length raw then None
          else let a = subslice pos (pos + alen) raw;
                   addr = (if alen = 4 then V4 a else V6 a []);
                   pos = pos + alen;
                   port = get16 (subslice pos (pos + 2) raw)
               in case decodeEndpoints n (pos + 2) raw of
                    None \<Rightarrow> None
                  | Some (eps, pos') \<Rightarrow> Some (\<lparr>ep_Addr = addr, ep_Port = port\<rparr> # eps, pos'))"

definition Decode :: "bytes \<Rightarrow> Code + Payload" where
  "Decode code =
     (let cleaned = clean code in
      if length cleaned < 47 \<or> length cleaned > maxCodeLen then Inl E2001
      else if \<exists>c\<in>set cleaned. alphabetIndex c = None then Inl E2001
      else case b32_decode alphabetIndex cleaned of
        None \<Rightarrow> Inl E2001
      | Some raw \<Rightarrow>
          if length raw < minPayloadLen \<or> length raw > maxPayloadLen then Inl E2001
          else if b32_encode Alphabet raw \<noteq> cleaned then Inl E2001
          else if raw ! 0 \<noteq> Version then Inl E2002
          else let header = raw ! 1 in
            if header AND 0x37 \<noteq> 0 then Inl E2001
            else let n = unat (drop_bit 6 header) + 1; restricted = (header AND 8 \<noteq> 0) in
              case decodeEndpoints n 2 raw of
                None \<Rightarrow> Inl E2001
              | Some (eps, pos) \<Rightarrow>
                  if pos + SecretLen + 4 \<noteq> length raw then Inl E2001
                  else let secret = subslice pos (pos + SecretLen) raw;
                           want = get32 (drop (length raw - 4) raw)
                       in if crc32c (take (length raw - 4) raw) \<noteq> want then Inl E2001
                          else if \<not> list_ex usable eps then Inl E2004
                          else Inr \<lparr>pl_Endpoints = eps, pl_Secret = secret, pl_Restricted = restricted\<rparr>)"

section \<open>Derived identifiers\<close>

definition SessionID :: "(bytes \<Rightarrow> bytes) \<Rightarrow> bytes \<Rightarrow> bytes" where
  "SessionID sha256 secret = take 8 (sha256 (str ''esync/v1/session-id'' @ secret))"

text \<open>\<open>hkdf ikm salt info len\<close>; a request for 32 bytes is below the function's ceiling.\<close>

definition KPair :: "(bytes \<Rightarrow> bytes \<Rightarrow> bytes \<Rightarrow> nat \<Rightarrow> bytes) \<Rightarrow> bytes \<Rightarrow> bytes" where
  "KPair hkdf secret = hkdf secret (str ''esync/v1/pair'') [] 32"

section \<open>Discovery\<close>

text \<open>The \<^verbatim>\<open>netip\<close> predicates the ranking uses; 4-in-6 addresses are unmapped before.\<close>

definition v6_hi :: "bytes \<Rightarrow> u16" where "v6_hi a = get16 a"

fun IsLinkLocalUnicast :: "Addr \<Rightarrow> bool" where
  "IsLinkLocalUnicast (V4 a) \<longleftrightarrow> a ! 0 = 169 \<and> a ! 1 = 254"
| "IsLinkLocalUnicast (V6 a z) \<longleftrightarrow> v6_hi a AND 0xFFC0 = 0xFE80"
| "IsLinkLocalUnicast NoAddr \<longleftrightarrow> False"

fun IsLoopback :: "Addr \<Rightarrow> bool" where
  "IsLoopback (V4 a) \<longleftrightarrow> a ! 0 = 127"
| "IsLoopback (V6 a z) \<longleftrightarrow> a = replicate 15 0 @ [1]"
| "IsLoopback NoAddr \<longleftrightarrow> False"

fun IsMulticast :: "Addr \<Rightarrow> bool" where
  "IsMulticast (V4 a) \<longleftrightarrow> a ! 0 AND 0xF0 = 0xE0"
| "IsMulticast (V6 a z) \<longleftrightarrow> a ! 0 = 0xFF"
| "IsMulticast NoAddr \<longleftrightarrow> False"

fun IsPrivate :: "Addr \<Rightarrow> bool" where
  "IsPrivate (V4 a) \<longleftrightarrow> a ! 0 = 10 \<or> a ! 0 = 172 \<and> a ! 1 AND 0xF0 = 16 \<or> a ! 0 = 192 \<and> a ! 1 = 168"
| "IsPrivate (V6 a z) \<longleftrightarrow> a ! 0 AND 0xFE = 0xFC"
| "IsPrivate NoAddr \<longleftrightarrow> False"

fun Is4 :: "Addr \<Rightarrow> bool" where
  "Is4 (V4 a) = True" | "Is4 (V6 a z) = False" | "Is4 NoAddr = False"

fun Is6 :: "Addr \<Rightarrow> bool" where
  "Is6 (V4 a) = False" | "Is6 (V6 a z) = True" | "Is6 NoAddr = False"

definition IsGlobalUnicast :: "Addr \<Rightarrow> bool" where
  "IsGlobalUnicast ip \<longleftrightarrow> ip \<noteq> NoAddr \<and> ip \<noteq> V4 (replicate 4 0) \<and> ip \<noteq> V4 (replicate 4 255) \<and>
     ip \<noteq> V6 (replicate 16 0) [] \<and> \<not> IsLoopback ip \<and> \<not> IsMulticast ip \<and> \<not> IsLinkLocalUnicast ip"

text \<open>\<^verbatim>\<open>AddrFromSlice\<close> followed by \<^verbatim>\<open>Unmap\<close>.\<close>

definition addr_from_slice :: "bytes \<Rightarrow> Addr option" where
  "addr_from_slice b =
     (if length b = 4 then Some (V4 b)
      else if length b = 16 then
        Some (if take 12 b = replicate 10 0 @ [255, 255] then V4 (drop 12 b) else V6 b [])
      else None)"

fun WithZone :: "bytes \<Rightarrow> Addr \<Rightarrow> Addr" where
  "WithZone z (V6 a z') = V6 a z" | "WithZone z (V4 a) = V4 a" | "WithZone z NoAddr = NoAddr"

definition score :: "Addr \<Rightarrow> bool \<Rightarrow> nat" where
  "score ip wired =
     (if Is4 ip \<and> IsGlobalUnicast ip \<and> \<not> IsPrivate ip then (if wired then 100 else 90)
      else if Is4 ip \<and> IsPrivate ip then (if wired then 80 else 70)
      else if Is6 ip \<and> (IsGlobalUnicast ip \<or> IsPrivate ip) \<and> \<not> IsLinkLocalUnicast ip then 50
      else if Is6 ip \<and> IsLinkLocalUnicast ip then 20
      else 0)"

definition isWired :: "(bytes \<Rightarrow> bytes) \<Rightarrow> bytes \<Rightarrow> bool" where
  "isWired toLower name \<longleftrightarrow>
     \<not> list_ex (\<lambda>p. prefix (str p) (toLower name)) [''wl'', ''wlan'', ''wifi'', ''wlp'', ''ath'', ''ra'']"

text \<open>An interface: its flags, its name, and the IP of each address it reports (\<open>None\<close>: the call failed).\<close>

record iface =
  if_up :: bool
  if_loopback :: bool
  if_name :: bytes
  if_addrs :: "bytes list option"

definition iface_cands :: "(bytes \<Rightarrow> bytes) \<Rightarrow> iface \<Rightarrow> (Endpoint \<times> nat) list" where
  "iface_cands toLower ifi =
     (if \<not> if_up ifi \<or> if_loopback ifi then []
      else case if_addrs ifi of
        None \<Rightarrow> []
      | Some addrs \<Rightarrow>
          let parsed = List.map_filter addr_from_slice addrs in
          if \<not> list_ex (\<lambda>ip. \<not> IsLinkLocalUnicast ip \<and> \<not> IsLoopback ip) parsed then []
          else let wired = isWired toLower (if_name ifi) in
            map (\<lambda>ip. (\<lparr>ep_Addr = (if IsLinkLocalUnicast ip then WithZone (if_name ifi) ip else ip), ep_Port = 0\<rparr>,
                       score ip wired))
              (filter (\<lambda>ip. score ip wired \<noteq> 0) parsed))"

definition Discover ::
    "(bytes \<Rightarrow> Addr option) \<Rightarrow> (bytes \<Rightarrow> bytes) \<Rightarrow> (bytes \<Rightarrow> bytes) \<Rightarrow> iface list option \<Rightarrow> bytes \<Rightarrow> Code + Endpoint list" where
  "Discover parseAddr trimSpace toLower ifaces bindAddr =
     (if bindAddr \<noteq> [] then
        (case parseAddr (trimSpace bindAddr) of
           None \<Rightarrow> Inl E1005
         | Some addr \<Rightarrow> if IsUnspecified addr then Inl E1005 else Inr [\<lparr>ep_Addr = addr, ep_Port = 0\<rparr>])
      else case ifaces of
        None \<Rightarrow> Inl E1005
      | Some ifs \<Rightarrow>
          let cands = concat (map (iface_cands toLower) ifs) in
          if cands = [] then Inl E1005
          else Inr (map fst (take maxEndpoints (sort_key (\<lambda>c. - int (snd c)) cands))))"

section \<open>Printing and cleaning\<close>

lemma length_Alphabet [simp]: "length Alphabet = 32"
  by (simp add: Alphabet_def)

lemma distinct_Alphabet: "distinct Alphabet"
  by (simp add: Alphabet_def)

lemma index_from_nth:
  "distinct as \<Longrightarrow> i < length as \<Longrightarrow> index_from n as (as ! i) = Some (n + i)"
proof (induction as arbitrary: i n)
  case (Cons a as)
  then show ?case by (cases i) auto
qed simp

lemma alphabetIndex_nth [simp]: "i < 32 \<Longrightarrow> alphabetIndex (Alphabet ! i) = Some i"
  using index_from_nth [OF distinct_Alphabet, of i 0] by (simp add: alphabetIndex_def)

lemma Alphabet_clean: "c \<in> set Alphabet \<Longrightarrow> \<not> is_separator c \<and> fold_char c = c"
proof -
  have A: "Alphabet = [48, 49, 50, 51, 52, 53, 54, 55, 56, 57, 65, 66, 67, 68, 69, 70, 71, 72, 74, 75, 77, 78, 80, 81, 82, 83, 84, 86, 87, 88, 89, 90]"
    by (simp add: Alphabet_def ch_def)
  have cs: "ch (CHR ''a'') = 97" "ch (CHR ''z'') = 122" "ch (CHR ''A'') = 65" "ch (CHR ''I'') = 73"
    "ch (CHR ''L'') = 76" "ch (CHR ''O'') = 79" "ch (CHR ''1'') = 49" "ch (CHR ''0'') = 48"
    by (simp_all add: ch_def)
  have "is_separator c \<longleftrightarrow> c \<in> {45, 32, 9, 10, 13}" for c by (simp add: is_separator_def ch_def)
  moreover have "fold_char c = (let c = (if c \<ge> 97 \<and> c \<le> 122 then c - (97 - 65) else c)
      in if c = 73 \<or> c = 76 then 49 else if c = 79 then 48 else c)" for c unfolding fold_char_def cs ..
  ultimately have "list_all (\<lambda>c. \<not> is_separator c \<and> fold_char c = c) Alphabet" unfolding A by simp
  then show "c \<in> set Alphabet \<Longrightarrow> \<not> is_separator c \<and> fold_char c = c" by (simp add: list_all_iff)
qed

lemma clean_alphabet: "set s \<subseteq> set Alphabet \<Longrightarrow> clean s = s"
  using Alphabet_clean by (induction s) auto

lemma clean_group: "set s \<subseteq> set Alphabet \<Longrightarrow> clean (group s) = s"
proof -
  have "is_separator (ch (CHR ''-''))" by (simp add: is_separator_def)
  then have "set s \<subseteq> set Alphabet \<Longrightarrow> clean (group_from i s) = s" for i
    using Alphabet_clean by (induction s arbitrary: i) auto
  then show "set s \<subseteq> set Alphabet \<Longrightarrow> clean (group s) = s" by (simp add: group_def)
qed

lemma unbits_chunk_less:
  "length xs mod 5 = 0 \<Longrightarrow> q \<in> set (chunks 5 xs) \<Longrightarrow> unbits q < 32"
  using chunks_length [of 5 xs q] unbits_less [of q] by simp

lemma b32_encode_alphabet: "set (b32_encode Alphabet b) \<subseteq> set Alphabet"
proof -
  let ?bs = "bits_of_bytes b"
  let ?pad = "?bs @ replicate ((5 - length ?bs mod 5) mod 5) False"
  have "length ?pad mod 5 = 0"
    using b32_pad_length [of "length b"] by (metis (no_types, lifting) length_append length_bits_of_bytes
      length_replicate mod_mult_self1_is_0)
  then have "unbits q < length Alphabet" if "q \<in> set (chunks 5 ?pad)" for q
    using unbits_chunk_less [OF \<open>length ?pad mod 5 = 0\<close> that] by simp
  then show ?thesis by (auto simp: b32_encode_def Let_def intro: nth_mem)
qed

lemma length_b32_bounds:
  "8 * length b \<le> 5 * length (b32_encode A b)" "5 * length (b32_encode A b) \<le> 8 * length b + 4"
proof -
  let ?bs = "bits_of_bytes b"
  let ?pad = "?bs @ replicate ((5 - length ?bs mod 5) mod 5) False"
  obtain k where k: "8 * length b + (5 - 8 * length b mod 5) mod 5 = 5 * k" by (rule b32_pad_length)
  then have "length (b32_encode A b) = k"
    using length_chunks [of 5 ?pad k] by (simp add: b32_encode_def Let_def)
  moreover have "(5 - 8 * length b mod 5) mod 5 \<le> 4" by simp
  ultimately show "8 * length b \<le> 5 * length (b32_encode A b)" "5 * length (b32_encode A b) \<le> 8 * length b + 4"
    using k by linarith+
qed

section \<open>Round trip\<close>

fun wf_addr :: "Addr \<Rightarrow> bool" where
  "wf_addr (V4 a) \<longleftrightarrow> length a = 4"
| "wf_addr (V6 a z) \<longleftrightarrow> length a = 16 \<and> z = []"
| "wf_addr NoAddr \<longleftrightarrow> False"

definition wf_payload :: "Payload \<Rightarrow> bool" where
  "wf_payload p \<longleftrightarrow> 1 \<le> length (pl_Endpoints p) \<and> length (pl_Endpoints p) \<le> maxEndpoints \<and>
     list_all (\<lambda>e. wf_addr (ep_Addr e)) (pl_Endpoints p) \<and> list_ex usable (pl_Endpoints p) \<and>
     length (pl_Secret p) = SecretLen"

lemma length_encodeEndpoint:
  "wf_addr (ep_Addr e) \<Longrightarrow> 7 \<le> length (encodeEndpoint e) \<and> length (encodeEndpoint e) \<le> 19"
  by (cases "ep_Addr e") (auto simp: encodeEndpoint_def)

lemma length_encodeEndpoints:
  "list_all (\<lambda>e. wf_addr (ep_Addr e)) es \<Longrightarrow>
    7 * length es \<le> length (concat (map encodeEndpoint es)) \<and> length (concat (map encodeEndpoint es)) \<le> 19 * length es"
proof (induction es)
  case (Cons e es)
  then show ?case using length_encodeEndpoint [of e] by simp
qed simp

text \<open>One endpoint record in the middle of the payload.\<close>

lemma endpoint_fields:
  assumes "m = length b"
  shows "(pre @ f # b @ be16 q @ rest) ! length pre = f"
    and "subslice (length pre + 1) (length pre + 1 + m) (pre @ f # b @ be16 q @ rest) = b"
    and "subslice (length pre + 1 + m) (length pre + 1 + m + 2) (pre @ f # b @ be16 q @ rest) = be16 q"
proof -
  show "subslice (length pre + 1) (length pre + 1 + m) (pre @ f # b @ be16 q @ rest) = b"
    using subslice_middle [of "pre @ [f]" "length pre + 1" b "length pre + 1 + m" "be16 q @ rest"] assms by simp
  show "subslice (length pre + 1 + m) (length pre + 1 + m + 2) (pre @ f # b @ be16 q @ rest) = be16 q"
    using subslice_middle [of "pre @ f # b" "length pre + 1 + m" "be16 q" "length pre + 1 + m + 2" rest] assms by simp
qed simp

lemma decodeEndpoints_step:
  fixes a :: Addr and b :: bytes and q :: u16
  assumes "a = V4 b \<and> length b = 4 \<or> a = V6 b [] \<and> length b = 16"
  defines "enc \<equiv> encodeEndpoint \<lparr>ep_Addr = a, ep_Port = q\<rparr>"
  shows "decodeEndpoints (Suc n) (length pre) (pre @ enc @ rest) =
    (case decodeEndpoints n (length (pre @ enc)) ((pre @ enc) @ rest) of
       None \<Rightarrow> None | Some (eps, pos') \<Rightarrow> Some (\<lparr>ep_Addr = a, ep_Port = q\<rparr> # eps, pos'))"
  using assms(1)
proof
  assume a: "a = V4 b \<and> length b = 4"
  then have enc: "pre @ enc @ rest = pre @ familyV4 # b @ be16 q @ rest" "length enc = 7"
    by (simp_all add: enc_def encodeEndpoint_def)
  note f = endpoint_fields [of 4 b pre familyV4 q rest, folded enc(1)]
  have eqs: "Suc (Suc (5 + length pre)) = 7 + length pre" "length pre + 7 = 7 + length pre" by simp_all
  show ?thesis using a f enc by (simp add: Let_def eqs cong: option.case_cong)
next
  assume a: "a = V6 b [] \<and> length b = 16"
  then have enc: "pre @ enc @ rest = pre @ familyV6 # b @ be16 q @ rest" "length enc = 19"
    by (simp_all add: enc_def encodeEndpoint_def)
  note f = endpoint_fields [of 16 b pre familyV6 q rest, folded enc(1)]
  have eqs: "Suc (Suc (17 + length pre)) = 19 + length pre" "length pre + 19 = 19 + length pre" by simp_all
  have "familyV6 \<noteq> familyV4" by (simp add: familyV4_def familyV6_def)
  then show ?thesis using a f enc by (simp add: Let_def eqs cong: option.case_cong)
qed

lemma decodeEndpoints_encode:
  "list_all (\<lambda>e. wf_addr (ep_Addr e)) es \<Longrightarrow>
    decodeEndpoints (length es) (length pre) (pre @ concat (map encodeEndpoint es) @ rest) =
      Some (es, length pre + length (concat (map encodeEndpoint es)))"
proof (induction es arbitrary: pre)
  case (Cons e es)
  obtain a q where e: "e = \<lparr>ep_Addr = a, ep_Port = q\<rparr>" by (cases e) auto
  from Cons.prems obtain b where "a = V4 b \<and> length b = 4 \<or> a = V6 b [] \<and> length b = 16"
    by (cases a) (auto simp: e)
  note step = decodeEndpoints_step [OF this, of "length es" pre q "concat (map encodeEndpoint es) @ rest"]
  show ?case
    using step Cons.IH [of "pre @ encodeEndpoint e"] Cons.prems by (simp add: e add.assoc)
qed simp

lemma header_bits:
  fixes n :: nat and r :: bool
  assumes "1 \<le> n" "n \<le> 4"
  defines "h \<equiv> push_bit 6 (word_of_nat (n - 1)) OR (if r then 8 else 0) :: byte"
  shows "h AND 0x37 = 0" "unat (drop_bit 6 h) + 1 = n" "h AND 8 \<noteq> 0 \<longleftrightarrow> r"
proof -
  consider "n = 1" | "n = 2" | "n = 3" | "n = 4" using assms(1,2) by linarith
  then have "h AND 0x37 = 0 \<and> unat (drop_bit 6 h) + 1 = n \<and> (h AND 8 \<noteq> 0 \<longleftrightarrow> r)"
    unfolding h_def by cases (cases r; simp)+
  then show "h AND 0x37 = 0" "unat (drop_bit 6 h) + 1 = n" "h AND 8 \<noteq> 0 \<longleftrightarrow> r" by blast+
qed

lemma Encode_eq:
  "wf_payload p \<Longrightarrow> Encode p = Some (group (b32_encode Alphabet
     (payload_bytes (length (pl_Endpoints p)) p @ be32 (crc32c (payload_bytes (length (pl_Endpoints p)) p)))))"
  by (auto simp: Encode_def wf_payload_def Let_def)

text \<open>The raw payload of a well-formed code, and what \<^verbatim>\<open>Decode\<close> makes of it.\<close>

lemma Decode_payload:
  assumes wf: "wf_payload p"
    and cleaned: "clean c = b32_encode Alphabet raw"
    and raw: "raw = payload_bytes (length (pl_Endpoints p)) p @ be32 (crc32c (payload_bytes (length (pl_Endpoints p)) p))"
  shows "Decode c = Inr p"
proof -
  let ?n = "length (pl_Endpoints p)" and ?eps = "concat (map encodeEndpoint (pl_Endpoints p))"
  let ?b = "payload_bytes ?n p"
  define h where "h = push_bit 6 (word_of_nat (?n - 1)) OR (if pl_Restricted p then 8 else 0 :: byte)"
  have n: "1 \<le> ?n" "?n \<le> 4" and addrs: "list_all (\<lambda>e. wf_addr (ep_Addr e)) (pl_Endpoints p)"
    and us: "list_ex usable (pl_Endpoints p)" and sec: "length (pl_Secret p) = 16"
    using wf by (auto simp: wf_payload_def pair_consts)
  have b: "?b = [Version, h] @ ?eps @ pl_Secret p"
    using sec by (simp add: payload_bytes_def h_def SecretLen_def)
  have len: "7 * ?n \<le> length ?eps \<and> length ?eps \<le> 19 * ?n"
    by (rule length_encodeEndpoints [OF addrs])
  have raw': "raw = [Version, h] @ ?eps @ (pl_Secret p @ be32 (crc32c ?b))" using raw b by simp
  have rl: "length raw = 22 + length ?eps" using raw' sec by simp
  have bound: "7 \<le> length ?eps" "length ?eps \<le> 76" using len n by linarith+
  have clen: "47 \<le> length (clean c)" "length (clean c) \<le> 260"
    unfolding cleaned using length_b32_bounds [where b = raw and A = Alphabet] bound rl by simp_all
  have idx: "\<not> (\<exists>x\<in>set (clean c). alphabetIndex x = None)"
  proof -
    have "alphabetIndex x \<noteq> None" if "x \<in> set Alphabet" for x
      using that by (metis in_set_conv_nth length_Alphabet alphabetIndex_nth option.distinct(1))
    then show ?thesis unfolding cleaned using b32_encode_alphabet [of raw] by blast
  qed
  have dec: "b32_decode alphabetIndex (clean c) = Some raw"
    unfolding cleaned by (rule b32_roundtrip) simp
  have e: "decodeEndpoints ?n 2 raw = Some (pl_Endpoints p, 2 + length ?eps)"
    using decodeEndpoints_encode [OF addrs, of "[Version, h]"] by (simp add: raw' numeral_2_eq_2)
  have tail: "take (length raw - 4) raw = ?b" "drop (length raw - 4) raw = be32 (crc32c ?b)"
    by (simp_all add: raw)
  have secret: "subslice (2 + length ?eps) (2 + length ?eps + SecretLen) raw = pl_Secret p"
    using subslice_middle [of "[Version, h] @ ?eps" "2 + length ?eps" "pl_Secret p"] sec
    by (simp add: raw' SecretLen_def)
  have hd: "raw ! 0 = Version" "raw ! 1 = h" by (simp_all add: raw')
  have hb: "h AND 0x37 = 0" "unat (drop_bit 6 h) + 1 = ?n" "h AND 8 \<noteq> 0 \<longleftrightarrow> pl_Restricted p"
    unfolding h_def by (rule header_bits [OF n])+
  show ?thesis
    unfolding Decode_def Let_def dec hd hb(2) tail e option.case prod.case secret
    using clen idx hb rl len n us cleaned
    by (simp add: maxCodeLen_def minPayloadLen_def maxPayloadLen_def maxEndpoints_def SecretLen_def)
qed

text \<open>
  C34. A printed pairing code is read back exactly: for a payload with one to four endpoints, a
  16-byte secret and a usable endpoint, every string that cleans to the same symbols as the printed
  code (lower case, other separators, the folded letters) decodes to the payload.
\<close>

theorem paircode_roundtrip:
  assumes "wf_payload p"
  shows "\<exists>code. Encode p = Some code \<and> (\<forall>c. clean c = clean code \<longrightarrow> Decode c = Inr p)"
proof -
  let ?b = "payload_bytes (length (pl_Endpoints p)) p"
  let ?raw = "?b @ be32 (crc32c ?b)"
  have "clean (group (b32_encode Alphabet ?raw)) = b32_encode Alphabet ?raw"
    by (rule clean_group [OF b32_encode_alphabet])
  then show ?thesis using Encode_eq [OF assms] Decode_payload [OF assms] by auto
qed

definition sample_payload :: Payload where
  "sample_payload = \<lparr>pl_Endpoints = [\<lparr>ep_Addr = V4 [10, 0, 0, 7], ep_Port = 4000\<rparr>],
     pl_Secret = replicate 16 3, pl_Restricted = True\<rparr>"

lemma wf_sample_payload: "wf_payload sample_payload"
proof -
  have "hd [10, 0, 0, 7] \<noteq> hd (replicate 4 (0 :: byte))" by simp
  then have "[10, 0, 0, 7] \<noteq> (replicate 4 0 :: bytes)" by metis
  then show ?thesis by (simp add: wf_payload_def sample_payload_def usable_def pair_consts)
qed

theorem paircode_roundtrip_witness:
  "\<exists>code. Encode sample_payload = Some code \<and> Decode code = Inr sample_payload"
  using paircode_roundtrip [OF wf_sample_payload] by blast

section \<open>Error detection\<close>

lemma Decode_checked:
  assumes "Decode c = Inr p"
  obtains raw where "b32_decode alphabetIndex (clean c) = Some raw" "b32_encode Alphabet raw = clean c"
    "29 \<le> length raw" "crc32c (take (length raw - 4) raw) = get32 (drop (length raw - 4) raw)"
    "raw ! 0 = Version"
  using assms
  by (auto simp: Decode_def Let_def minPayloadLen_def SecretLen_def split: if_splits option.splits prod.splits)

text \<open>
  One mistyped symbol is always caught: if a code is accepted and one symbol of its cleaned
  form is replaced by any other, the result is rejected.
\<close>

theorem paircode_detects_substitution:
  assumes "Decode c = Inr p" "clean c = pre @ x # post" "clean c' = pre @ y # post" "x \<noteq> y"
  shows "\<exists>e. Decode c' = Inl e"
proof (cases "Decode c'")
  case (Inr p')
  obtain a where a: "b32_decode alphabetIndex (pre @ x # post) = Some a" "b32_encode Alphabet a = pre @ x # post"
    "29 \<le> length a" "crc32c (take (length a - 4) a) = get32 (drop (length a - 4) a)"
    using Decode_checked [OF assms(1)] assms(2) by metis
  obtain b where b: "b32_decode alphabetIndex (pre @ y # post) = Some b" "b32_encode Alphabet b = pre @ y # post"
    "crc32c (take (length b - 4) b) = get32 (drop (length b - 4) b)"
    using Decode_checked [OF Inr] assms(3) by metis
  note one = b32_one_symbol [OF a(1,2) b(1,2)]
  from one(2) obtain i where "take i a = take i b" "drop (i + 2) a = drop (i + 2) b" by blast
  then have "a = b" using a(3,4) b(3) one(1) by (intro crc_detects [of a b "length a - 4" i]) simp_all
  then show ?thesis using a(2) b(2) assms(4) by simp
qed simp

theorem paircode_detects_substitution_witness:
  "\<exists>code x y post. Encode sample_payload = Some code \<and> clean code = x # post \<and>
     Decode (x # post) = Inr sample_payload \<and> (\<exists>e. Decode (y # post) = Inl e)"
proof -
  obtain code where code: "Encode sample_payload = Some code"
    and dec: "\<And>c. clean c = clean code \<Longrightarrow> Decode c = Inr sample_payload"
    using Encode_eq [OF wf_sample_payload] Decode_payload [OF wf_sample_payload]
      clean_group [OF b32_encode_alphabet] by metis
  obtain raw where raw: "b32_encode Alphabet raw = clean code" "29 \<le> length raw"
    using Decode_checked [OF dec [OF refl]] by metis
  then have "0 < length (clean code)" using length_b32_bounds(1) [where b = raw and A = Alphabet] by auto
  then obtain x post where xp: "clean code = x # post" by (cases "clean code") auto
  have sub: "set (x # post) \<subseteq> set Alphabet" using b32_encode_alphabet [of raw] raw xp by simp
  have "Alphabet ! 0 \<noteq> Alphabet ! 1" using distinct_Alphabet by (simp add: nth_eq_iff_index_eq)
  then obtain y where y: "y \<in> set Alphabet" "x \<noteq> y"
    using nth_mem [of 0 Alphabet] nth_mem [of 1 Alphabet] by (metis length_Alphabet zero_less_numeral one_less_numeral_iff semiring_norm(76))
  have "clean (x # post) = [] @ x # post" "clean (y # post) = [] @ y # post"
    using clean_alphabet [OF sub] clean_alphabet [of "y # post"] sub y by simp_all
  with paircode_detects_substitution [OF dec, of "x # post" "[]" x post "y # post" y] y xp code dec
  show ?thesis by (metis append_Nil)
qed

text \<open>
  A link-local IPv6 endpoint does not survive the code: \<^verbatim>\<open>Discover\<close> attaches the interface
  as a zone, the code has no field for it, and the decoded address carries no zone.
\<close>

theorem paircode_drops_zone:
  assumes "Encode \<lparr>pl_Endpoints = [\<lparr>ep_Addr = V6 a z, ep_Port = q\<rparr>], pl_Secret = s, pl_Restricted = r\<rparr> = Some code"
  shows "Encode \<lparr>pl_Endpoints = [\<lparr>ep_Addr = V6 a [], ep_Port = q\<rparr>], pl_Secret = s, pl_Restricted = r\<rparr> = Some code"
  using assms by (simp add: Encode_def payload_bytes_def encodeEndpoint_def Let_def split: if_splits)

theorem paircode_drops_zone_witness:
  "Encode \<lparr>pl_Endpoints = [\<lparr>ep_Addr = V6 (replicate 16 1) [], ep_Port = 1\<rparr>], pl_Secret = [], pl_Restricted = False\<rparr> =
   Encode \<lparr>pl_Endpoints = [\<lparr>ep_Addr = V6 (replicate 16 1) (str ''eth0''), ep_Port = 1\<rparr>], pl_Secret = [], pl_Restricted = False\<rparr>"
proof -
  obtain code where "Encode \<lparr>pl_Endpoints = [\<lparr>ep_Addr = V6 (replicate 16 1) (str ''eth0''), ep_Port = 1\<rparr>],
      pl_Secret = [], pl_Restricted = False\<rparr> = Some code"
    by (simp add: Encode_def Let_def maxEndpoints_def)
  with paircode_drops_zone [OF this] show ?thesis by simp
qed

text \<open>
  \<^verbatim>\<open>Discover\<close> returns between one and four endpoints when it succeeds without a bind address,
  each an address of an interface that is up and not loopback, the best-ranked first: no candidate
  left out ranks above one returned. Otherwise it fails with E1005.
\<close>

theorem Discover_ranked:
  "case Discover parseAddr trimSpace toLower ifaces [] of
     Inl e \<Rightarrow> e = E1005
   | Inr eps \<Rightarrow> 1 \<le> length eps \<and> length eps \<le> 4 \<and>
       (\<exists>cands. mset cands = mset (concat (map (iface_cands toLower) (the ifaces))) \<and>
          sorted (rev (map snd cands)) \<and> eps = map fst (take 4 cands))"
proof (cases ifaces)
  case None
  then show ?thesis by (simp add: Discover_def)
next
  case (Some ifs)
  let ?c = "concat (map (iface_cands toLower) ifs)"
  let ?s = "sort_key (\<lambda>c. - int (snd c)) ?c"
  show ?thesis
  proof (cases "?c = []")
    case True
    then show ?thesis by (simp add: Discover_def Some)
  next
    case False
    have "sorted (map (\<lambda>c. - int (snd c)) ?s)" by (rule sorted_sort_key)
    then have "sorted (rev (map snd ?s))"
      by (simp add: sorted_wrt_map sorted_wrt_rev sorted_map)
    moreover have "?s \<noteq> []" using False by (metis mset_sort mset_zero_iff)
    ultimately show ?thesis
      using False by (auto simp: Discover_def Some Let_def maxEndpoints_def Suc_le_eq intro!: exI [of _ ?s])
  qed
qed

end
