(* ===== verification/Dial.thy ===== *)
theory Dial
  imports Session_Common Paircode
begin

text \<open>
  Dialling and listening (\<^verbatim>\<open>internal/channel/dial.go\<close>, \<^verbatim>\<open>listen.go\<close>). Each candidate endpoint is tried by a goroutine of
  its own; what it meets is a \<open>candidate\<close>, what it reports an \<open>outcome\<close>, and the outcomes reach \<^verbatim>\<open>Dial\<close> in any order.
  A connection is an opaque value.
\<close>

section \<open>Dialling\<close>

record EndpointErr =
  ee_Endpoint :: Endpoint
  ee_Err :: err

datatype 'c candidate = CandCancelled err | CandRefused err | CandRejected 'c err | CandWon 'c

record 'c outcome =
  oc_ep :: Endpoint
  oc_nc :: "'c option"
  oc_err :: "err option"
  oc_wonHS :: bool

text \<open>The goroutine of one candidate: what it reports, and the connection it closes itself.\<close>

fun dialCandidate :: "Endpoint \<Rightarrow> 'c candidate \<Rightarrow> 'c outcome \<times> 'c list" where
  "dialCandidate ep (CandCancelled e) = (\<lparr>oc_ep = ep, oc_nc = None, oc_err = Some e, oc_wonHS = False\<rparr>, [])"
| "dialCandidate ep (CandRefused e) = (\<lparr>oc_ep = ep, oc_nc = None, oc_err = Some e, oc_wonHS = False\<rparr>, [])"
| "dialCandidate ep (CandRejected c e) = (\<lparr>oc_ep = ep, oc_nc = None, oc_err = Some e, oc_wonHS = False\<rparr>, [c])"
| "dialCandidate ep (CandWon c) = (\<lparr>oc_ep = ep, oc_nc = Some c, oc_err = None, oc_wonHS = True\<rparr>, [])"

definition won :: "'c outcome \<Rightarrow> bool" where
  "won r \<longleftrightarrow> oc_wonHS r"

definition endpoint_err :: "'c outcome \<Rightarrow> EndpointErr" where
  "endpoint_err r = \<lparr>ee_Endpoint = oc_ep r, ee_Err = (case oc_err r of Some e \<Rightarrow> e | None \<Rightarrow> PlainErr ''unknown error'')\<rparr>"

text \<open>The drain goroutine closes the connections of the outcomes that are still to come.\<close>

definition drain_conns :: "'c outcome list \<Rightarrow> 'c list" where
  "drain_conns rs = List.map_filter oc_nc rs"

fun dialCollect :: "'c outcome list \<Rightarrow> EndpointErr list \<Rightarrow> ('c option \<times> Endpoint) option \<times> EndpointErr list \<times> 'c list" where
  "dialCollect [] errs = (None, errs, [])"
| "dialCollect (r # rs) errs =
     (if won r then (Some (oc_nc r, oc_ep r), errs, drain_conns rs)
      else dialCollect rs (errs @ [endpoint_err r]))"

text \<open>\<open>rs\<close>: the outcomes in the order of arrival. The result has the reason table and the connections closed by the drain.\<close>

definition Dial :: "Endpoint list \<Rightarrow> 'c outcome list \<Rightarrow> (err + 'c option \<times> Endpoint) \<times> EndpointErr list \<times> 'c list" where
  "Dial endpoints rs =
     (if endpoints = [] then (Inl (New E3001 ''dial sender'' [] None), [], [])
      else case dialCollect rs [] of
        (Some w, errs, closed) \<Rightarrow> (Inr w, errs, closed)
      | (None, errs, closed) \<Rightarrow>
          (Inl (Newf E3001 ''dial sender'' [] None (str ''no candidate endpoint reachable'')), errs, closed))"

section \<open>Listening\<close>

text \<open>\<open>parse\<close> is \<^verbatim>\<open>netip.ParseAddr\<close>, \<open>bindErr\<close> the failure of the system call; the result is the address to listen on.\<close>

definition Listen :: "(bytes \<Rightarrow> bytes) \<Rightarrow> (bytes \<Rightarrow> Addr option) \<Rightarrow> err option \<Rightarrow> bytes \<Rightarrow> int \<Rightarrow> err + Addr option \<times> int" where
  "Listen trim parse bindErr bind port =
     (let b = trim bind in
      if b \<noteq> [] \<and> parse b = None then
        Inl (Newf E1005 ''parse bind address'' bind (Some (PlainErr ''ParseAddr'')) (str ''not an IP address''))
      else case bindErr of
        Some e \<Rightarrow> Inl (Wrap E3001 ''bind listener'' [] (Some e))
      | None \<Rightarrow> Inr (if b = [] then None else parse b, port))"

definition listener_Accept :: "err + 'c \<Rightarrow> err + 'c" where
  "listener_Accept r = (case r of Inl e \<Rightarrow> Inl (Wrap E3001 ''accept connection'' [] (Some e)) | Inr nc \<Rightarrow> Inr nc)"

section \<open>The race\<close>

lemma dialCollect_won:
  "dialCollect (pre @ r # post) errs = (Some (oc_nc r, oc_ep r), errs @ map endpoint_err pre, drain_conns post)"
  if "\<forall>x\<in>set pre. \<not> won x" "won r"
  using that by (induction pre arbitrary: errs) auto

lemma dialCollect_lost: "\<forall>x\<in>set rs. \<not> won x \<Longrightarrow> dialCollect rs errs = (None, errs @ map endpoint_err rs, [])"
  by (induction rs arbitrary: errs) auto

lemma dialCandidate_fields [simp]:
  "oc_ep (fst (dialCandidate ep c)) = ep" "won (fst (dialCandidate ep c)) \<longleftrightarrow> (\<exists>x. c = CandWon x)"
  "oc_nc (fst (dialCandidate ep c)) = (case c of CandWon x \<Rightarrow> Some x | _ \<Rightarrow> None)"
  by (cases c; simp add: won_def)+

lemma drain_conns_cands:
  "drain_conns (map (\<lambda>(ep, c). fst (dialCandidate ep c)) cands) = [x. CandWon x \<leftarrow> map snd cands]"
  by (induction cands) (auto simp: drain_conns_def List.map_filter_simps split: candidate.splits)

definition reports :: "(Endpoint \<times> 'c candidate) list \<Rightarrow> 'c outcome list" where
  "reports cands = map (\<lambda>(ep, c). fst (dialCandidate ep c)) cands"

text \<open>
  Whatever the order in which the candidates report, the dial returns the first one that completed the handshake,
  closes every other connection that a candidate opened, and fails exactly when none completed it; the table then
  has the reason of each candidate.
\<close>

theorem dial_race:
  assumes "eps \<noteq> []" "mset (map fst cands) = mset eps"
  shows "case Dial eps (reports cands) of
     (Inl e, tab, closed) \<Rightarrow> GetCode (Some e) = E3001 \<and> (\<forall>c\<in>snd ` set cands. \<forall>x. c \<noteq> CandWon x) \<and>
       mset (map ee_Endpoint tab) = mset eps \<and> closed = []
   | (Inr (nc, ep), tab, closed) \<Rightarrow> \<exists>pre c post. cands = pre @ (ep, CandWon c) # post \<and> nc = Some c \<and>
       (\<forall>d\<in>snd ` set pre. \<forall>x. d \<noteq> CandWon x) \<and> closed = [x. CandWon x \<leftarrow> map snd post]"
proof (cases "\<exists>x\<in>set cands. \<exists>c. snd x = CandWon c")
  case True
  then obtain pre x post where x: "cands = pre @ x # post" "\<exists>c. snd x = CandWon c" "\<forall>y\<in>set pre. \<not> (\<exists>c. snd y = CandWon c)"
    using split_list_first_prop [OF True] by auto
  then obtain ep c where ep: "x = (ep, CandWon c)" by (cases x) auto
  have "\<forall>r\<in>set (reports pre). \<not> won r" using x(3) by (auto simp: reports_def)
  moreover have "reports cands = reports pre @ fst (dialCandidate ep (CandWon c)) # reports post"
    by (simp add: reports_def x(1) ep)
  ultimately have "dialCollect (reports cands) [] = (Some (Some c, ep), map endpoint_err (reports pre), drain_conns (reports post))"
    using dialCollect_won [of "reports pre" "fst (dialCandidate ep (CandWon c))" "reports post" "[]"] by (simp add: won_def)
  then have "Dial eps (reports cands) = (Inr (Some c, ep), map endpoint_err (reports pre), drain_conns (reports post))"
    using assms(1) by (simp add: Dial_def)
  moreover have "drain_conns (reports post) = [x. CandWon x \<leftarrow> map snd post]" by (simp add: reports_def drain_conns_cands)
  ultimately show ?thesis using x ep by fastforce
next
  case False
  then have "\<forall>r\<in>set (reports cands). \<not> won r" by (auto simp: reports_def)
  then have "Dial eps (reports cands) =
      (Inl (Newf E3001 ''dial sender'' [] None (str ''no candidate endpoint reachable'')), map endpoint_err (reports cands), [])"
    using dialCollect_lost [of "reports cands" "[]"] assms(1) by (simp add: Dial_def)
  moreover have "map ee_Endpoint (map endpoint_err (reports cands)) = map fst cands"
    by (simp add: reports_def endpoint_err_def split_def)
  then have "mset (map ee_Endpoint (map endpoint_err (reports cands))) = mset eps"
    by (simp only: assms(2))
  ultimately show ?thesis using False by (auto simp: GetCode_def simp del: mset_map map_map)
qed

theorem dial_race_witness:
  "fst (Dial [\<lparr>ep_Addr = V4 [10, 0, 0, 1], ep_Port = 1\<rparr>, \<lparr>ep_Addr = V4 [10, 0, 0, 2], ep_Port = 1\<rparr>]
     (reports [(\<lparr>ep_Addr = V4 [10, 0, 0, 2], ep_Port = 1\<rparr>, CandWon (7 :: nat)), (\<lparr>ep_Addr = V4 [10, 0, 0, 1], ep_Port = 1\<rparr>, CandWon 8)]))
     = Inr (Some 7, \<lparr>ep_Addr = V4 [10, 0, 0, 2], ep_Port = 1\<rparr>)"
  (is "fst (Dial ?eps (reports ?cands)) = _")
proof -
  have "?eps \<noteq> []" "mset (map fst ?cands) = mset ?eps" by (simp_all add: add_mset_commute)
  from dial_race [OF this] show ?thesis
    by (simp add: Dial_def reports_def won_def)
qed

end
