(* ===== verification/Work_Queue.thy ===== *)
theory Work_Queue
  imports Esync_Prelude
begin

text \<open>
  The contract between a queue of work and the workers that empty it. Workers push batches, pop
  items, hold them, and either put them back or finish them; an extra item may be added by a worker
  that still holds one, or while the queue is open. The client result, proved once from the laws:
  at every point each key that was ever pushed is queued, held or resolved, exactly as often as it
  was pushed, and when the queue reports that it is drained every one of them is resolved.
\<close>

record ('q, 'i) queue_ops =
  qo_push :: "'i list \<Rightarrow> 'q \<Rightarrow> 'q option"
  qo_extra :: "'i \<Rightarrow> 'q \<Rightarrow> 'q"
  qo_pop :: "'q \<Rightarrow> ('i \<times> 'q) option"
  qo_requeue :: "'i \<Rightarrow> 'q \<Rightarrow> 'q"
  qo_done :: "'i \<Rightarrow> 'q \<Rightarrow> 'q"
  qo_close :: "'q \<Rightarrow> 'q"
  qo_closed :: "'q \<Rightarrow> bool"
  qo_drained :: "'q \<Rightarrow> bool"

datatype 'i qop = OpPush "'i list" | OpExtra 'i | OpPop | OpRequeue 'i 'i | OpDone 'i | OpClose

record ('q, 'i, 'k) qstate =
  qs_q :: 'q
  qs_held :: "'i multiset"
  qs_pushed :: "'k multiset"
  qs_resolved :: "'k multiset"

text \<open>One step of the system; \<open>None\<close> when the operation blocks or the worker may not do it.\<close>

fun exec_op :: "('q, 'i) queue_ops \<Rightarrow> ('i \<Rightarrow> 'k) \<Rightarrow> 'i qop \<Rightarrow> ('q, 'i, 'k) qstate \<Rightarrow> ('q, 'i, 'k) qstate option" where
  "exec_op ops key (OpPush xs) s = (case qo_push ops xs (qs_q s) of
     None \<Rightarrow> None
   | Some q \<Rightarrow> Some (s\<lparr>qs_q := q, qs_pushed := qs_pushed s + mset (map key xs)\<rparr>))"
| "exec_op ops key (OpExtra x) s =
     (if qs_held s \<noteq> {#} \<or> \<not> qo_closed ops (qs_q s)
      then Some (s\<lparr>qs_q := qo_extra ops x (qs_q s), qs_pushed := qs_pushed s + {#key x#}\<rparr>) else None)"
| "exec_op ops key OpPop s = (case qo_pop ops (qs_q s) of
     None \<Rightarrow> None
   | Some (x, q) \<Rightarrow> Some (s\<lparr>qs_q := q, qs_held := qs_held s + {#x#}\<rparr>))"
| "exec_op ops key (OpRequeue x y) s =
     (if x \<in># qs_held s \<and> key y = key x
      then Some (s\<lparr>qs_q := qo_requeue ops y (qs_q s), qs_held := qs_held s - {#x#}\<rparr>) else None)"
| "exec_op ops key (OpDone x) s =
     (if x \<in># qs_held s
      then Some (s\<lparr>qs_q := qo_done ops x (qs_q s), qs_held := qs_held s - {#x#},
         qs_resolved := qs_resolved s + {#key x#}\<rparr>) else None)"
| "exec_op ops key OpClose s = Some (s\<lparr>qs_q := qo_close ops (qs_q s)\<rparr>)"

fun exec :: "('q, 'i) queue_ops \<Rightarrow> ('i \<Rightarrow> 'k) \<Rightarrow> 'i qop list \<Rightarrow> ('q, 'i, 'k) qstate \<Rightarrow> ('q, 'i, 'k) qstate option" where
  "exec ops key [] s = Some s"
| "exec ops key (p # ps) s = (case exec_op ops key p s of None \<Rightarrow> None | Some s' \<Rightarrow> exec ops key ps s')"

definition qstate_init :: "'q \<Rightarrow> ('q, 'i, 'k) qstate" where
  "qstate_init q = \<lparr>qs_q = q, qs_held = {#}, qs_pushed = {#}, qs_resolved = {#}\<rparr>"

locale work_queue =
  fixes ops :: "('q, 'i) queue_ops" and content :: "'q \<Rightarrow> 'i multiset" and inflight :: "'q \<Rightarrow> nat"
  assumes push: "qo_push ops xs q = Some q' \<Longrightarrow> content q' = content q + mset xs \<and> inflight q' = inflight q"
    and extra: "content (qo_extra ops x q) = content q + {#x#} \<and> inflight (qo_extra ops x q) = inflight q"
    and pop: "qo_pop ops q = Some (x, q') \<Longrightarrow> x \<in># content q \<and> content q' = content q - {#x#} \<and> inflight q' = Suc (inflight q)"
    and requeue: "content (qo_requeue ops x q) = content q + {#x#} \<and> inflight (qo_requeue ops x q) = inflight q - 1"
    and finish: "content (qo_done ops x q) = content q \<and> inflight (qo_done ops x q) = inflight q - 1"
    and close: "content (qo_close ops q) = content q \<and> inflight (qo_close ops q) = inflight q"
    and drained: "qo_drained ops q \<longleftrightarrow> qo_closed ops q \<and> content q = {#} \<and> inflight q = 0"
begin

definition balanced :: "('i \<Rightarrow> 'k) \<Rightarrow> ('q, 'i, 'k) qstate \<Rightarrow> bool" where
  "balanced key s \<longleftrightarrow> inflight (qs_q s) = size (qs_held s) \<and>
     qs_pushed s = image_mset key (content (qs_q s)) + image_mset key (qs_held s) + qs_resolved s"

lemma held_diff: "x \<in># H \<Longrightarrow> image_mset key H = image_mset key (H - {#x#}) + {#key x#}"
  by (metis image_mset_add_mset insert_DiffM2 add_mset_add_single)

lemma exec_op_balanced:
  assumes "exec_op ops key p s = Some s'" and "balanced key s"
  shows "balanced key s'"
proof (cases p)
  case (OpPush xs)
  then show ?thesis using assms push by (auto simp: balanced_def split: option.splits)
next
  case (OpExtra x)
  then show ?thesis using assms extra by (auto simp: balanced_def split: if_splits)
next
  case OpPop
  then obtain x q where x: "qo_pop ops (qs_q s) = Some (x, q)"
    and s': "s' = s\<lparr>qs_q := q, qs_held := qs_held s + {#x#}\<rparr>"
    using assms(1) by (auto split: option.splits)
  have "image_mset key (content (qs_q s)) = image_mset key (content q) + {#key x#}"
    using pop [OF x] held_diff by metis
  then show ?thesis using assms(2) pop [OF x] by (auto simp: balanced_def s')
next
  case (OpRequeue x y)
  then have x: "x \<in># qs_held s" "key y = key x"
    and s': "s' = s\<lparr>qs_q := qo_requeue ops y (qs_q s), qs_held := qs_held s - {#x#}\<rparr>"
    using assms(1) by (auto split: if_splits)
  then show ?thesis
    using assms(2) requeue held_diff [OF x(1), of key] by (auto simp: balanced_def s' size_Diff_singleton)
next
  case (OpDone x)
  then have x: "x \<in># qs_held s"
    and s': "s' = s\<lparr>qs_q := qo_done ops x (qs_q s), qs_held := qs_held s - {#x#}, qs_resolved := qs_resolved s + {#key x#}\<rparr>"
    using assms(1) by (auto split: if_splits)
  then show ?thesis
    using assms(2) finish held_diff [OF x, of key] by (auto simp: balanced_def s' size_Diff_singleton)
next
  case OpClose
  then show ?thesis using assms close by (auto simp: balanced_def)
qed

lemma exec_balanced: "exec ops key ps s = Some s' \<Longrightarrow> balanced key s \<Longrightarrow> balanced key s'"
proof (induction ps arbitrary: s)
  case (Cons p ps)
  then show ?case using exec_op_balanced by (fastforce split: option.splits)
qed simp

lemma init_balanced: "content q = {#} \<Longrightarrow> inflight q = 0 \<Longrightarrow> balanced key (qstate_init q)"
  by (simp add: balanced_def qstate_init_def)

lemma drained_resolved:
  assumes "balanced key s" and "qo_drained ops (qs_q s)"
  shows "qs_resolved s = qs_pushed s" "qs_held s = {#}"
  using assms by (auto simp: balanced_def drained)

text \<open>Once drained, the only operations that succeed leave nothing to do.\<close>

lemma drained_stays:
  assumes "balanced key s" "qo_drained ops (qs_q s)" "exec_op ops key p s = Some s'"
    and "\<And>xs q. qo_closed ops q \<Longrightarrow> xs \<noteq> [] \<Longrightarrow> qo_push ops xs q = None"
    and "\<And>q. qo_closed ops (qo_close ops q)"
  shows "qs_pushed s' = qs_pushed s \<and> qs_resolved s' = qs_resolved s"
proof -
  have h: "qs_held s = {#}" "qo_closed ops (qs_q s)" using assms(1,2) by (auto simp: balanced_def drained)
  show ?thesis
  proof (cases p)
    case (OpPush xs)
    then show ?thesis using assms(3,4) h by (cases "xs = []") (auto split: option.splits)
  qed (use assms(3) h in \<open>auto split: option.splits if_splits\<close>)
qed

end

end
