(* ===== verification/Need_Queue.thy ===== *)
theory Need_Queue
  imports Work_Queue Fault
begin

text \<open>
  The receiver's need queue (\<^verbatim>\<open>internal/receiver/queue.go\<close>), the free-space guard (\<^verbatim>\<open>space.go\<close>)
  and the hard-link fallback that uses both (\<^verbatim>\<open>hlfallback.go\<close>). Every method runs under the
  queue's mutex, so each is one atomic step on the state; a wait on a condition variable is the
  result \<open>Blocked\<close> (the method runs again when the state has changed), and cancellation of the
  context ends the caller without a step.
\<close>

section \<open>The queue\<close>

record needItem =
  ni_fileID :: u64
  ni_groupID :: u32
  ni_size :: int
  ni_rel :: bytes
  ni_attempt :: nat

record needQueue =
  nq_items :: "needItem list"
  nq_capacity :: nat
  nq_inflight :: nat
  nq_closed :: bool
  nq_pushed :: u64
  nq_yielded :: u64
  nq_pending :: "u32 \<rightharpoonup> nat"

definition newNeedQueue :: "nat \<Rightarrow> needQueue" where
  "newNeedQueue capacity = \<lparr>nq_items = [], nq_capacity = capacity, nq_inflight = 0, nq_closed = False,
     nq_pushed = 0, nq_yielded = 0, nq_pending = Map.empty\<rparr>"

datatype push_result = Blocked | QueueClosed | Pushed needQueue

definition pend :: "(u32 \<rightharpoonup> nat) \<Rightarrow> u32 \<Rightarrow> nat" where
  "pend m g = (case m g of None \<Rightarrow> 0 | Some n \<Rightarrow> n)"

definition pushGroup :: "needItem list \<Rightarrow> needQueue \<Rightarrow> push_result" where
  "pushGroup items q =
     (if length items = 0 then Pushed q
      else let sorted_items = sort_key (\<lambda>i. - ni_size i) items in
        if length (nq_items q) + length sorted_items > nq_capacity q \<and> \<not> nq_closed q then Blocked
        else if nq_closed q then QueueClosed
        else let g = ni_groupID (sorted_items ! 0) in
          Pushed (q\<lparr>nq_items := nq_items q @ sorted_items,
            nq_pushed := nq_pushed q + word_of_nat (length sorted_items),
            nq_pending := (nq_pending q)(g \<mapsto> pend (nq_pending q) g + length sorted_items)\<rparr>))"

definition requeue :: "needItem \<Rightarrow> needQueue \<Rightarrow> needQueue" where
  "requeue it q = q\<lparr>nq_inflight := (if nq_inflight q > 0 then nq_inflight q - 1 else nq_inflight q),
     nq_items := nq_items q @ [it]\<rparr>"

definition pushFallback :: "needItem \<Rightarrow> needQueue \<Rightarrow> needQueue" where
  "pushFallback it q = q\<lparr>nq_items := nq_items q @ [it], nq_pushed := nq_pushed q + 1,
     nq_pending := (nq_pending q)(ni_groupID it \<mapsto> pend (nq_pending q) (ni_groupID it) + 1)\<rparr>"

datatype pop_result = PopWait | PopEnd | PopItem needItem needQueue

definition pop :: "needQueue \<Rightarrow> pop_result" where
  "pop q = (case nq_items q of
     it # rest \<Rightarrow> PopItem it (q\<lparr>nq_items := rest, nq_inflight := nq_inflight q + 1, nq_yielded := nq_yielded q + 1\<rparr>)
   | [] \<Rightarrow> if nq_closed q \<and> nq_inflight q = 0 then PopEnd else PopWait)"

definition queue_done :: "u32 \<Rightarrow> needQueue \<Rightarrow> needQueue" where
  "queue_done groupID q =
     (let q = q\<lparr>nq_inflight := (if nq_inflight q > 0 then nq_inflight q - 1 else nq_inflight q)\<rparr>;
          n = pend (nq_pending q) groupID
      in if n > 0 then q\<lparr>nq_pending := (nq_pending q)(groupID := (if n - 1 = 0 then None else Some (n - 1)))\<rparr> else q)"

definition queue_close :: "needQueue \<Rightarrow> needQueue" where
  "queue_close q = q\<lparr>nq_closed := True\<rparr>"

definition queue_drained :: "needQueue \<Rightarrow> bool" where
  "queue_drained q \<longleftrightarrow> nq_closed q \<and> length (nq_items q) = 0 \<and> nq_inflight q = 0"

definition depth :: "needQueue \<Rightarrow> nat" where "depth q = length (nq_items q)"

definition inProgressGroups :: "needQueue \<Rightarrow> u32 list" where
  "inProgressGroups q = sorted_list_of_set (dom (nq_pending q))"

text \<open>The operations as the workers see them.\<close>

definition need_ops :: "(needQueue, needItem) queue_ops" where
  "need_ops = \<lparr>qo_push = (\<lambda>xs q. case pushGroup xs q of Pushed q' \<Rightarrow> Some q' | _ \<Rightarrow> None),
     qo_extra = pushFallback, qo_pop = (\<lambda>q. case pop q of PopItem x q' \<Rightarrow> Some (x, q') | _ \<Rightarrow> None),
     qo_requeue = requeue, qo_done = (\<lambda>x. queue_done (ni_groupID x)), qo_close = queue_close,
     qo_closed = nq_closed, qo_drained = queue_drained\<rparr>"

definition item_key :: "needItem \<Rightarrow> u64 \<times> u32" where
  "item_key i = (ni_fileID i, ni_groupID i)"

lemma queue_done_items [simp]:
  "nq_items (queue_done g q) = nq_items q" "nq_inflight (queue_done g q) = nq_inflight q - 1"
  by (auto simp: queue_done_def Let_def)

lemma pushGroup_Pushed:
  "pushGroup xs q = Pushed q' \<Longrightarrow> nq_items q' = nq_items q @ sort_key (\<lambda>i. - ni_size i) xs \<and>
     nq_inflight q' = nq_inflight q \<and> nq_closed q' = nq_closed q"
  by (auto simp: pushGroup_def Let_def split: if_splits)

lemma need_ops_sel:
  "qo_push need_ops xs q = Some q' \<longleftrightarrow> pushGroup xs q = Pushed q'" "qo_extra need_ops = pushFallback"
  "qo_pop need_ops q = Some (x, q') \<longleftrightarrow> pop q = PopItem x q'" "qo_requeue need_ops = requeue"
  "qo_done need_ops x = queue_done (ni_groupID x)" "qo_close need_ops = queue_close"
  "qo_closed need_ops = nq_closed" "qo_drained need_ops = queue_drained"
  by (auto simp: need_ops_def split: push_result.splits pop_result.splits)

interpretation nq: work_queue need_ops "\<lambda>q. mset (nq_items q)" nq_inflight
proof
  show "qo_pop need_ops q = Some (x, q') \<Longrightarrow> x \<in># mset (nq_items q) \<and>
      mset (nq_items q') = mset (nq_items q) - {#x#} \<and> nq_inflight q' = Suc (nq_inflight q)" for q x q'
    by (auto simp: need_ops_sel pop_def split: list.splits if_splits)
qed (auto simp: need_ops_sel pushFallback_def requeue_def queue_close_def queue_drained_def dest: pushGroup_Pushed)

section \<open>What the queue promises\<close>

text \<open>
  C37. The need queue loses nothing and duplicates nothing: after any sequence of operations by the
  workers, each pushed (file, group) is queued, held by a worker or resolved, exactly as many times
  as it was pushed; the in-flight counter is the number of held items; and when the queue reports
  that it is drained, everything ever pushed (fallback items included) has been resolved.
\<close>

theorem need_queue_conserves:
  assumes "exec need_ops item_key trace (qstate_init (newNeedQueue cap)) = Some s"
  shows "qs_pushed s = image_mset item_key (mset (nq_items (qs_q s))) + image_mset item_key (qs_held s) + qs_resolved s \<and>
    nq_inflight (qs_q s) = size (qs_held s) \<and>
    (queue_drained (qs_q s) \<longrightarrow> qs_resolved s = qs_pushed s)"
proof -
  have "nq.balanced item_key (qstate_init (newNeedQueue cap))"
    by (rule nq.init_balanced) (simp_all add: newNeedQueue_def)
  then have b: "nq.balanced item_key s" by (rule nq.exec_balanced [OF assms])
  then show ?thesis using nq.drained_resolved [OF b] by (auto simp: nq.balanced_def need_ops_sel)
qed

definition sample_item :: "u64 \<Rightarrow> int \<Rightarrow> needItem" where
  "sample_item i n = \<lparr>ni_fileID = i, ni_groupID = 0, ni_size = n, ni_rel = [], ni_attempt = 0\<rparr>"

theorem need_queue_conserves_witness:
  "\<exists>s. exec need_ops item_key [OpPush [sample_item 1 5], OpPop, OpExtra (sample_item 2 1), OpClose, OpDone (sample_item 1 5),
       OpPop, OpDone (sample_item 2 1)] (qstate_init (newNeedQueue 4)) = Some s \<and> queue_drained (qs_q s) \<and>
     qs_resolved s = qs_pushed s"
proof -
  let ?tr = "[OpPush [sample_item 1 5], OpPop, OpExtra (sample_item 2 1), OpClose, OpDone (sample_item 1 5),
       OpPop, OpDone (sample_item 2 1)]"
  obtain s where s: "exec need_ops item_key ?tr (qstate_init (newNeedQueue 4)) = Some s"
      and "queue_drained (qs_q s)"
    by (simp add: need_ops_def newNeedQueue_def qstate_init_def pushGroup_def pop_def pushFallback_def
        queue_close_def queue_done_def queue_drained_def Let_def pend_def)
  with need_queue_conserves [OF s] show ?thesis by blast
qed

text \<open>
  When the queue says it is drained it stays drained: no operation that the workers can still
  perform adds work, so a fetcher that left on the end of the queue misses nothing.
\<close>

theorem need_queue_drained_final:
  assumes "exec need_ops item_key trace (qstate_init (newNeedQueue cap)) = Some s" and "queue_drained (qs_q s)"
    and "exec_op need_ops item_key op s = Some s'"
  shows "qs_pushed s' = qs_pushed s \<and> qs_resolved s' = qs_resolved s \<and> pop (qs_q s) = PopEnd"
proof -
  have "nq.balanced item_key (qstate_init (newNeedQueue cap))"
    by (rule nq.init_balanced) (simp_all add: newNeedQueue_def)
  then have b: "nq.balanced item_key s" by (rule nq.exec_balanced [OF assms(1)])
  have closed: "qo_push need_ops xs q = None" if "qo_closed need_ops q" "xs \<noteq> []" for xs q
    using that by (auto simp: need_ops_def pushGroup_def Let_def)
  have "qs_pushed s' = qs_pushed s \<and> qs_resolved s' = qs_resolved s"
    by (rule nq.drained_stays [OF b _ assms(3) closed])
      (use assms(2) in \<open>auto simp: need_ops_sel queue_close_def\<close>)
  then show ?thesis using assms(2) by (auto simp: queue_drained_def pop_def)
qed

theorem need_queue_drained_final_witness:
  "\<exists>s. exec need_ops item_key [OpClose] (qstate_init (newNeedQueue 4)) = Some s \<and> pop (qs_q s) = PopEnd"
proof -
  obtain s where s: "exec need_ops item_key [OpClose] (qstate_init (newNeedQueue 4)) = Some s"
      and d: "queue_drained (qs_q s)"
    by (simp add: need_ops_def newNeedQueue_def qstate_init_def queue_close_def queue_drained_def)
  obtain s' where "exec_op need_ops item_key OpClose s = Some s'" by simp
  from need_queue_drained_final [OF s d this] s show ?thesis by blast
qed

text \<open>
  A batch is appended in order of size, largest first and stably, the queue never holds more
  than its capacity right after a batch, and a batch of at most the capacity is never blocked by an
  empty queue: a decide pass cannot wait for ever on its own group.
\<close>

theorem pushGroup_capacity:
  assumes "items \<noteq> []" "length items \<le> nq_capacity q" "\<not> nq_closed q"
  shows "(\<forall>q'. pushGroup items q = Pushed q' \<longrightarrow> length (nq_items q') \<le> nq_capacity q \<and>
       (\<exists>added. nq_items q' = nq_items q @ added \<and> mset added = mset items \<and>
          sorted_wrt (\<lambda>a b. ni_size a \<ge> ni_size b) added)) \<and>
    (nq_items q = [] \<longrightarrow> (\<exists>q'. pushGroup items q = Pushed q'))"
proof -
  have "sorted (map (\<lambda>i. - ni_size i) (sort_key (\<lambda>i. - ni_size i) items))" by simp
  then have "sorted_wrt (\<lambda>a b. ni_size a \<ge> ni_size b) (sort_key (\<lambda>i. - ni_size i) items)"
    by (simp add: sorted_map sorted_wrt_map)
  then show ?thesis using assms by (auto simp: pushGroup_def Let_def split: if_splits)
qed

theorem pushGroup_capacity_witness:
  "\<exists>q'. pushGroup [sample_item 1 5, sample_item 2 9] (newNeedQueue 4) = Pushed q' \<and> length (nq_items q') \<le> 4"
  using pushGroup_capacity [of "[sample_item 1 5, sample_item 2 9]" "newNeedQueue 4"]
  by (auto simp: newNeedQueue_def)

section \<open>Pending counts\<close>

text \<open>The pending count of a group is the number of its items that are queued or held.\<close>

definition unresolved :: "(needQueue, needItem, 'k) qstate \<Rightarrow> u32 \<Rightarrow> nat" where
  "unresolved s g = size (filter_mset (\<lambda>i. ni_groupID i = g) (mset (nq_items (qs_q s)) + qs_held s))"

definition pending_inv :: "(needQueue, needItem, 'k) qstate \<Rightarrow> bool" where
  "pending_inv s \<longleftrightarrow> (\<forall>g. nq_pending (qs_q s) g = (if unresolved s g = 0 then None else Some (unresolved s g)))"

text \<open>A pushed batch belongs to one group, as the decide pass builds it.\<close>

fun one_group :: "needItem qop \<Rightarrow> bool" where
  "one_group (OpPush xs) \<longleftrightarrow> (\<forall>x\<in>set xs. ni_groupID x = ni_groupID (hd xs))"
| "one_group _ \<longleftrightarrow> True"

lemma pending_inv_pend: "pending_inv s \<Longrightarrow> pend (nq_pending (qs_q s)) g = unresolved s g"
  by (simp add: pending_inv_def pend_def)

lemma filter_group_all: "\<forall>x\<in>#M. ni_groupID x = g \<Longrightarrow>
    size (filter_mset (\<lambda>i. ni_groupID i = h) M) = (if h = g then size M else 0)"
  by (induction M) auto

lemma pending_push:
  assumes "pending_inv s" "pushGroup xs (qs_q s) = Pushed q'" "\<forall>x\<in>set xs. ni_groupID x = ni_groupID (hd xs)"
  shows "pending_inv (s\<lparr>qs_q := q', qs_pushed := z\<rparr>)"
proof (cases "xs = []")
  case True
  then show ?thesis using assms by (simp add: pushGroup_def pending_inv_def unresolved_def)
next
  case False
  let ?ys = "sort_key (\<lambda>i. - ni_size i) xs" and ?g = "ni_groupID (hd xs)"
  have all: "\<forall>x\<in>#mset ?ys. ni_groupID x = ?g" using assms(3) by simp
  have "0 < length ?ys" using False by simp
  then have "?ys ! 0 \<in> set ?ys" by (rule nth_mem)
  then have "?ys ! 0 \<in># mset ?ys" by (simp only: set_mset_mset)
  with all have g: "ni_groupID (?ys ! 0) = ?g" by blast
  have q': "nq_items q' = nq_items (qs_q s) @ ?ys"
      "nq_pending q' = (nq_pending (qs_q s))(?g \<mapsto> pend (nq_pending (qs_q s)) ?g + length xs)"
    using assms(2) False by (auto simp: pushGroup_def Let_def g split: if_splits)
  have "size (filter_mset (\<lambda>i. ni_groupID i = h) (mset ?ys)) = (if h = ?g then length xs else 0)" for h
    using filter_group_all [OF all] by simp
  then have "unresolved (s\<lparr>qs_q := q', qs_pushed := z\<rparr>) h = unresolved s h + (if h = ?g then length xs else 0)" for h
    by (simp add: unresolved_def q')
  then show ?thesis
    using assms(1) pending_inv_pend [OF assms(1)] False by (auto simp: pending_inv_def q')
qed

lemma unresolved_held:
  assumes "x \<in># H"
  shows "size (filter_mset (\<lambda>i. ni_groupID i = g) H) =
    size (filter_mset (\<lambda>i. ni_groupID i = g) (H - {#x#})) + (if ni_groupID x = g then 1 else 0)"
proof -
  obtain H' where "H = add_mset x H'" using multi_member_split [OF assms] by blast
  then show ?thesis by simp
qed

lemma unresolved_sum:
  "unresolved s g = size (filter_mset (\<lambda>i. ni_groupID i = g) (mset (nq_items (qs_q s)))) +
     size (filter_mset (\<lambda>i. ni_groupID i = g) (qs_held s))"
  by (simp add: unresolved_def)

lemma pending_done:
  assumes inv: "pending_inv s" and x: "x \<in># qs_held s"
  shows "pending_inv (s\<lparr>qs_q := queue_done (ni_groupID x) (qs_q s), qs_held := qs_held s - {#x#}, qs_resolved := z\<rparr>)"
    (is "pending_inv ?s'")
proof -
  let ?g = "ni_groupID x"
  have u: "unresolved s h = unresolved ?s' h + (if h = ?g then 1 else 0)" for h
    unfolding unresolved_sum using unresolved_held [OF x, of h] by simp
  define n where "n = unresolved ?s' ?g"
  have p: "pend (nq_pending (qs_q s)) ?g = n + 1"
    using pending_inv_pend [OF inv, of ?g] u [of ?g] by (simp add: n_def)
  have "nq_pending (qs_q ?s') = (nq_pending (qs_q s))(?g := (if n = 0 then None else Some n))"
    using p by (simp add: queue_done_def Let_def)
  then show ?thesis using inv u unfolding pending_inv_def n_def by (auto simp del: qstate.select_convs)
qed

lemma pending_step:
  assumes inv: "pending_inv s" and run: "exec_op need_ops item_key op s = Some s'" and og: "one_group op"
  shows "pending_inv s'"
proof (cases op)
  case (OpPush xs)
  then obtain q' where "pushGroup xs (qs_q s) = Pushed q'"
    and "s' = s\<lparr>qs_q := q', qs_pushed := qs_pushed s + mset (map item_key xs)\<rparr>"
    using run by (auto split: option.splits simp: need_ops_sel)
  then show ?thesis using pending_push [OF inv] og OpPush by simp
next
  case (OpExtra x)
  then have s': "s' = s\<lparr>qs_q := pushFallback x (qs_q s), qs_pushed := qs_pushed s + {#item_key x#}\<rparr>"
    using run by (auto simp: need_ops_sel split: if_splits)
  have "unresolved s' h = unresolved s h + (if h = ni_groupID x then 1 else 0)" for h
    by (simp add: s' unresolved_def pushFallback_def)
  then show ?thesis
    using inv pending_inv_pend [OF inv] by (auto simp: pending_inv_def s' pushFallback_def)
next
  case OpPop
  then obtain x q' where x: "pop (qs_q s) = PopItem x q'" and s': "s' = s\<lparr>qs_q := q', qs_held := qs_held s + {#x#}\<rparr>"
    using run by (auto split: option.splits simp: need_ops_sel)
  then have "unresolved s' h = unresolved s h" for h
    by (auto simp: s' unresolved_def pop_def split: list.splits if_splits)
  moreover have "nq_pending q' = nq_pending (qs_q s)" using x by (auto simp: pop_def split: list.splits if_splits)
  ultimately show ?thesis using inv by (simp add: pending_inv_def s')
next
  case (OpRequeue x y)
  then have x: "x \<in># qs_held s" "item_key y = item_key x"
    and s': "s' = s\<lparr>qs_q := requeue y (qs_q s), qs_held := qs_held s - {#x#}\<rparr>"
    using run by (auto simp: need_ops_sel split: if_splits)
  have "unresolved s' h = unresolved s h" for h
    using unresolved_held [OF x(1), of h] x(2) unfolding unresolved_sum
    by (simp add: s' requeue_def item_key_def)
  moreover have "nq_pending (qs_q s') = nq_pending (qs_q s)" by (simp add: s' requeue_def)
  ultimately show ?thesis using inv by (simp add: pending_inv_def)
next
  case (OpDone x)
  then have "x \<in># qs_held s" and "s' = s\<lparr>qs_q := queue_done (ni_groupID x) (qs_q s), qs_held := qs_held s - {#x#},
      qs_resolved := qs_resolved s + {#item_key x#}\<rparr>"
    using run by (auto simp: need_ops_sel split: if_splits)
  then show ?thesis using pending_done [OF inv] by simp
next
  case OpClose
  then show ?thesis using run inv by (auto simp: need_ops_sel queue_close_def pending_inv_def unresolved_def)
qed

text \<open>
  \<^verbatim>\<open>inProgressGroups\<close> is exact: after any sequence of operations it lists precisely the groups
  with an item still queued or held, in ascending order.
\<close>

theorem inProgressGroups_exact:
  assumes "exec need_ops item_key trace (qstate_init (newNeedQueue cap)) = Some s" and "list_all one_group trace"
  shows "sorted_wrt (<) (inProgressGroups (qs_q s)) \<and>
    set (inProgressGroups (qs_q s)) = ni_groupID ` (set (nq_items (qs_q s)) \<union> set_mset (qs_held s))"
proof -
  have "pending_inv s0 \<Longrightarrow> exec need_ops item_key tr s0 = Some s \<Longrightarrow> list_all one_group tr \<Longrightarrow> pending_inv s" for tr s0
    by (induction tr arbitrary: s0) (auto split: option.splits dest: pending_step)
  moreover have "pending_inv (qstate_init (newNeedQueue cap))"
    by (simp add: pending_inv_def unresolved_def qstate_init_def newNeedQueue_def)
  ultimately have inv: "pending_inv s" using assms by blast
  have "unresolved s g = 0 \<longleftrightarrow> g \<notin> ni_groupID ` (set (nq_items (qs_q s)) \<union> set_mset (qs_held s))" for g
    by (auto simp: unresolved_def simp flip: set_mset_eq_empty_iff)
  then have "dom (nq_pending (qs_q s)) = ni_groupID ` (set (nq_items (qs_q s)) \<union> set_mset (qs_held s))"
    using inv unfolding pending_inv_def dom_def by auto
  then show ?thesis by (simp add: inProgressGroups_def)
qed

theorem inProgressGroups_exact_witness:
  "\<exists>s. exec need_ops item_key [OpPush [sample_item 1 5], OpPop] (qstate_init (newNeedQueue 4)) = Some s \<and>
     0 \<in> set (inProgressGroups (qs_q s))"
proof -
  let ?tr = "[OpPush [sample_item 1 5], OpPop]"
  obtain s where s: "exec need_ops item_key ?tr (qstate_init (newNeedQueue 4)) = Some s"
      and h: "qs_held s = {#sample_item 1 5#}"
    by (simp add: need_ops_def newNeedQueue_def qstate_init_def pushGroup_def pop_def Let_def pend_def)
  with inProgressGroups_exact [OF s] show ?thesis by (auto simp: sample_item_def)
qed

section \<open>The free-space guard\<close>

record spaceGuard =
  sg_free :: int
  sg_margin :: int
  sg_required :: int
  sg_warned :: bool

definition newSpaceGuard :: "u64 \<Rightarrow> int \<Rightarrow> spaceGuard" where
  "newSpaceGuard freeBytes margin =
     (let f = i64_of_u64 freeBytes in
      \<lparr>sg_free = (if f < 0 then 0 else f), sg_margin = margin, sg_required = 0, sg_warned = False\<rparr>)"

text \<open>\<open>((warn, fatal), guard)\<close>.\<close>

definition reserve :: "int \<Rightarrow> spaceGuard \<Rightarrow> (bool \<times> Code option) \<times> spaceGuard" where
  "reserve bytes g =
     (let g = g\<lparr>sg_required := wrap64 (sg_required g + bytes)\<rparr>;
          over = wrap64 (sg_required g - wrap64 (sg_free g - sg_margin g));
          warn = (over > 0 \<and> \<not> sg_warned g);
          g = (if warn then g\<lparr>sg_warned := True\<rparr> else g)
      in ((warn, if over > sg_margin g then Some E7003 else None), g))"

fun reserve_all :: "int list \<Rightarrow> spaceGuard \<Rightarrow> (bool \<times> Code option) list \<times> spaceGuard" where
  "reserve_all [] g = ([], g)"
| "reserve_all (b # bs) g = (case reserve b g of (r, g') \<Rightarrow> case reserve_all bs g' of (rs, g'') \<Rightarrow> (r # rs, g''))"

definition guard_ok :: "spaceGuard \<Rightarrow> bool" where
  "guard_ok g \<longleftrightarrow> 0 \<le> sg_free g \<and> sg_free g < 2 ^ 62 \<and> 0 \<le> sg_margin g \<and> sg_margin g < 2 ^ 61 \<and> 0 \<le> sg_required g"

lemma reserve_eq:
  assumes "guard_ok g" "0 \<le> b" "sg_required g + b < 2 ^ 62"
  shows "reserve b g = ((sg_required g + b > sg_free g - sg_margin g \<and> \<not> sg_warned g,
     if sg_required g + b > sg_free g then Some E7003 else None),
     g\<lparr>sg_required := sg_required g + b, sg_warned := sg_warned g \<or> sg_required g + b > sg_free g - sg_margin g\<rparr>)"
proof -
  have 1: "wrap64 (sg_required g + b) = sg_required g + b"
    and 2: "wrap64 (sg_free g - sg_margin g) = sg_free g - sg_margin g"
    and 3: "wrap64 (sg_required g + b - (sg_free g - sg_margin g)) = sg_required g + b - (sg_free g - sg_margin g)"
    using assms by (auto intro!: wrap64_id simp: guard_ok_def is_int64_def)
  have g: "g\<lparr>sg_required := r\<rparr> = g\<lparr>sg_required := r, sg_warned := sg_warned g\<rparr>" for r by (cases g) simp
  show ?thesis by (auto simp: reserve_def Let_def 1 2 3 intro: g [THEN trans])
qed

lemma reserve_all_nth:
  assumes "guard_ok g" "\<forall>b\<in>set bs. 0 \<le> b" "sg_required g + sum_list bs < 2 ^ 62"
    and "reserve_all bs g = (rs, g')" "i < length bs"
  shows "(snd (rs ! i) = Some E7003 \<longleftrightarrow> sg_required g + sum_list (take (Suc i) bs) > sg_free g) \<and>
    (fst (rs ! i) \<longleftrightarrow> \<not> sg_warned g \<and> sg_required g + sum_list (take (Suc i) bs) > sg_free g - sg_margin g \<and>
       (i = 0 \<or> \<not> sg_required g + sum_list (take i bs) > sg_free g - sg_margin g))"
  using assms
proof (induction bs arbitrary: g rs g' i)
  case (Cons b bs)
  have nn: "0 \<le> b" "0 \<le> sum_list bs" using Cons.prems(2) by (auto intro!: sum_list_nonneg)
  have le: "0 \<le> sum_list (take k bs)" for k
    using Cons.prems(2) set_take_subset [of k bs] by (intro sum_list_nonneg) auto
  have r: "sg_required g + b < 2 ^ 62" using Cons.prems(3) nn by simp
  let ?g = "g\<lparr>sg_required := sg_required g + b, sg_warned := sg_warned g \<or> sg_required g + b > sg_free g - sg_margin g\<rparr>"
  note eq = reserve_eq [OF Cons.prems(1) nn(1) r]
  obtain rs' g'' where rs: "reserve_all bs ?g = (rs', g'')" by fastforce
  with Cons.prems(4) have rs0: "rs = fst (reserve b g) # rs'" by (simp add: eq)
  have g: "guard_ok ?g" using Cons.prems(1) nn(1) by (simp add: guard_ok_def)
  show ?case
  proof (cases i)
    case 0
    then show ?thesis by (auto simp: rs0 eq)
  next
    case (Suc j)
    have "(snd (rs' ! j) = Some E7003 \<longleftrightarrow> sg_required ?g + sum_list (take (Suc j) bs) > sg_free ?g) \<and>
      (fst (rs' ! j) \<longleftrightarrow> \<not> sg_warned ?g \<and> sg_required ?g + sum_list (take (Suc j) bs) > sg_free ?g - sg_margin ?g \<and>
       (j = 0 \<or> \<not> sg_required ?g + sum_list (take j bs) > sg_free ?g - sg_margin ?g))"
      by (rule Cons.IH [OF g _ _ rs]) (use Cons.prems Suc in auto)
    then show ?thesis using le [of j] by (auto simp: rs0 Suc add.assoc)
  qed
qed simp

text \<open>
  The free-space guard stops a session exactly when the running requirement exceeds the free
  space: for non-negative reservations below the overflow range, the reservation that takes the sum
  past the free bytes is E7003 and none before it is; the warning comes exactly once, at the first
  sum past the free bytes minus the margin.
\<close>

theorem space_guard_exact:
  assumes "free < 2 ^ 62" "0 \<le> margin" "margin < 2 ^ 61" "\<forall>b\<in>set bs. 0 \<le> b" "sum_list bs < 2 ^ 62"
    and "reserve_all bs (newSpaceGuard free margin) = (rs, g')" "i < length bs"
  shows "(snd (rs ! i) = Some E7003 \<longleftrightarrow> sum_list (take (Suc i) bs) > int (unat free)) \<and>
    (fst (rs ! i) \<longleftrightarrow> sum_list (take (Suc i) bs) > int (unat free) - margin \<and>
       (i = 0 \<or> \<not> sum_list (take i bs) > int (unat free) - margin))"
proof -
  have "unat free < 2 ^ 62" using assms(1) by (simp add: word_less_nat_alt)
  then have "unat free < 2 ^ 63" and i: "int (unat free) < int (2 ^ 62)"
    by (simp, simp only: of_nat_less_iff)
  then have f: "i64_of_u64 free = int (unat free)" "int (unat free) < 2 ^ 62"
    using i by (simp_all add: i64_of_u64_nonneg del: of_nat_unat)
  have g: "guard_ok (newSpaceGuard free margin)"
    using f assms(2,3) by (simp add: guard_ok_def newSpaceGuard_def Let_def)
  from reserve_all_nth [OF g assms(4) _ assms(6,7)] assms(5)
  show ?thesis by (simp add: newSpaceGuard_def Let_def f)
qed

theorem space_guard_exact_witness:
  "\<exists>rs g'. reserve_all [3, 4, 5] (newSpaceGuard 10 2) = (rs, g') \<and> snd (rs ! 2) = Some E7003 \<and> snd (rs ! 1) \<noteq> Some E7003"
proof -
  obtain rs g' where r: "reserve_all [3, 4, 5] (newSpaceGuard 10 2) = (rs, g')" by fastforce
  have "snd (rs ! 2) = Some E7003" using space_guard_exact [of 10 2 "[3, 4, 5]" rs g' 2] r by simp
  moreover have "snd (rs ! 1) \<noteq> Some E7003" using space_guard_exact [of 10 2 "[3, 4, 5]" rs g' 1] r by simp
  ultimately show ?thesis using r by blast
qed

text \<open>
  When the free space could not be measured (zero bytes are reported) the guard ends the session
  at the first byte that is needed, and a reported size of 2 to the 63 or more passes the guard: it
  becomes a negative reservation.
\<close>

theorem space_guard_edges:
  "snd (fst (reserve 1 (newSpaceGuard 0 67108864))) = Some E7003 \<and>
   snd (fst (reserve (i64_of_u64 (2 ^ 63)) (newSpaceGuard 0 67108864))) = None"
  by (simp add: newSpaceGuard_def reserve_def Let_def i64_of_u64_def wrap64_def)

section \<open>Hard-link fallback\<close>

record fallback_env =
  fb_guard :: "spaceGuard option"
  fb_queue :: needQueue
  fb_failed :: nat
  fb_neededBytes :: int
  fb_neededFiles :: int

text \<open>
  \<^verbatim>\<open>fetchInstead\<close>: \<open>meta\<close> gives the size recorded for a file, \<open>None\<close> when there is no metadata. The
  progress totals are optional in the source and always present in the program.
\<close>

definition fetchInstead :: "(u64 \<Rightarrow> int option) \<Rightarrow> u32 \<Rightarrow> u64 \<Rightarrow> bytes \<Rightarrow> fallback_env \<Rightarrow> fallback_env" where
  "fetchInstead meta groupID fileID rel d = (case meta fileID of
     None \<Rightarrow> d\<lparr>fb_failed := fb_failed d + 1\<rparr>
   | Some sz \<Rightarrow>
       let (ferr, d) = (case fb_guard d of
             None \<Rightarrow> (None, d)
           | Some g \<Rightarrow> (case reserve sz g of ((_, ferr), g') \<Rightarrow> (ferr, d\<lparr>fb_guard := Some g'\<rparr>)))
       in case ferr of
            Some _ \<Rightarrow> d\<lparr>fb_failed := fb_failed d + 1\<rparr>
          | None \<Rightarrow> d\<lparr>fb_neededBytes := fb_neededBytes d + sz, fb_neededFiles := fb_neededFiles d + 1,
              fb_queue := pushFallback \<lparr>ni_fileID = fileID, ni_groupID = groupID, ni_size = sz, ni_rel = rel, ni_attempt = 0\<rparr>
                (fb_queue d)\<rparr>)"

text \<open>
  A hard link that could not be made is never silently dropped: either its content is queued as
  one more item with its size added to the totals and accepted by the space guard, or the file is
  counted as failed.
\<close>

theorem fallback_accounts:
  "let d' = fetchInstead meta gid fid rel d in
     (fb_failed d' = fb_failed d + 1 \<and> fb_queue d' = fb_queue d \<and> fb_neededFiles d' = fb_neededFiles d) \<or>
     (\<exists>sz. meta fid = Some sz \<and> fb_failed d' = fb_failed d \<and> fb_neededFiles d' = fb_neededFiles d + 1 \<and>
        fb_neededBytes d' = fb_neededBytes d + sz \<and>
        nq_items (fb_queue d') = nq_items (fb_queue d) @
          [\<lparr>ni_fileID = fid, ni_groupID = gid, ni_size = sz, ni_rel = rel, ni_attempt = 0\<rparr>])"
  by (auto simp: fetchInstead_def Let_def pushFallback_def split: option.splits prod.splits)

end
