(* ===== verification/Go_Match.thy ===== *)
theory Go_Match
  imports Go_Strings
begin

text \<open>
  The parts of Go's library that the filters and the ordering key use: UTF-8 decoding
  (\<^verbatim>\<open>unicode/utf8\<close>), \<^verbatim>\<open>path.Base\<close>, and \<^verbatim>\<open>filepath.Match\<close> on a platform whose separator is
  \<open>'/'\<close>. A malformed pattern is \<open>None\<close>.
\<close>

unbundle bit_operations_syntax

section \<open>UTF-8\<close>

definition cont_byte :: "byte \<Rightarrow> bool" where
  "cont_byte b \<longleftrightarrow> b AND 0xC0 = 0x80"

text \<open>
  \<^verbatim>\<open>DecodeRuneInString\<close>: the rune and its width; an invalid encoding is \<open>(RuneError, 1)\<close> and the
  empty string \<open>(RuneError, 0)\<close>.
\<close>

definition RuneError :: nat where "RuneError = 0xFFFD"

definition DecodeRune :: "bytes \<Rightarrow> nat \<times> nat" where
  "DecodeRune s = (case s of
     [] \<Rightarrow> (RuneError, 0)
   | a # t \<Rightarrow>
       let x = unat a in
       if x < 0x80 then (x, 1)
       else if x < 0xC2 \<or> x > 0xF4 then (RuneError, 1)
       else if x < 0xE0 then
         (case t of b # _ \<Rightarrow> if cont_byte b then ((x mod 32) * 64 + unat b mod 64, 2) else (RuneError, 1)
          | [] \<Rightarrow> (RuneError, 1))
       else if x < 0xF0 then
         (case t of b # c # _ \<Rightarrow>
            let lo = (if x = 0xE0 then 0xA0 else 0x80); hi = (if x = 0xED then 0x9F else 0xBF) in
            if lo \<le> unat b \<and> unat b \<le> hi \<and> cont_byte c
            then ((x mod 16) * 4096 + (unat b mod 64) * 64 + unat c mod 64, 3) else (RuneError, 1)
          | _ \<Rightarrow> (RuneError, 1))
       else
         (case t of b # c # d # _ \<Rightarrow>
            let lo = (if x = 0xF0 then 0x90 else 0x80); hi = (if x = 0xF4 then 0x8F else 0xBF) in
            if lo \<le> unat b \<and> unat b \<le> hi \<and> cont_byte c \<and> cont_byte d
            then ((x mod 8) * 262144 + (unat b mod 64) * 4096 + (unat c mod 64) * 64 + unat d mod 64, 4)
            else (RuneError, 1)
          | _ \<Rightarrow> (RuneError, 1)))"

lemma DecodeRune_pos: "s \<noteq> [] \<Longrightarrow> 0 < snd (DecodeRune s)"
  by (cases s) (auto simp: DecodeRune_def Let_def split: list.splits)

text \<open>\<^verbatim>\<open>utf8.Valid\<close>: no byte decodes to the error of width one.\<close>

function utf8_Valid :: "bytes \<Rightarrow> bool" where
  "utf8_Valid s = (if s = [] then True
     else case DecodeRune s of (r, n) \<Rightarrow> if r = RuneError \<and> n = 1 then False else utf8_Valid (drop n s))"
  by pat_completeness auto
termination
proof (relation "measure length", goal_cases)
  case (2 s r n)
  then have "0 < n" using DecodeRune_pos [of s] by (metis snd_conv)
  with 2 show ?case by simp
qed simp

declare utf8_Valid.simps [simp del]

section \<open>Paths\<close>

definition slash :: byte where "slash = ch (CHR ''/'')"

text \<open>\<^verbatim>\<open>path.Base\<close>.\<close>

definition path_Base :: "bytes \<Rightarrow> bytes" where
  "path_Base p =
     (if p = [] then str ''.''
      else let q = rev (dropWhile (\<lambda>c. c = slash) (rev p)) in
        if q = [] then str ''/'' else rev (takeWhile (\<lambda>c. c \<noteq> slash) (rev q)))"

section \<open>Patterns\<close>

fun strip_stars :: "bytes \<Rightarrow> bool \<Rightarrow> bool \<times> bytes" where
  "strip_stars [] star = (star, [])"
| "strip_stars (c # p) star = (if c = ch (CHR ''*'') then strip_stars p True else (star, c # p))"

fun scan_index :: "bytes \<Rightarrow> bool \<Rightarrow> nat" where
  "scan_index [] inrange = 0"
| "scan_index (c # p) inrange =
     (if c = ch (CHR 0x5C) then (case p of [] \<Rightarrow> 1 | _ # q \<Rightarrow> 2 + scan_index q inrange)
      else if c = ch (CHR ''['') then 1 + scan_index p True
      else if c = ch (CHR '']'') then 1 + scan_index p False
      else if c = ch (CHR ''*'') \<and> \<not> inrange then 0
      else 1 + scan_index p inrange)"

definition scanChunk :: "bytes \<Rightarrow> bool \<times> bytes \<times> bytes" where
  "scanChunk pattern = (case strip_stars pattern False of (star, p) \<Rightarrow>
     let i = scan_index p False in (star, take i p, drop i p))"

definition getEsc :: "bytes \<Rightarrow> (nat \<times> bytes) option" where
  "getEsc chunk =
     (if chunk = [] \<or> hd chunk = ch (CHR ''-'') \<or> hd chunk = ch (CHR '']'') then None
      else let c = (if hd chunk = ch (CHR 0x5C) then tl chunk else chunk) in
        if c = [] then None
        else case DecodeRune c of (r, n) \<Rightarrow>
          if r = RuneError \<and> n = 1 then None
          else if drop n c = [] then None
          else Some (r, drop n c))"

lemma getEsc_shorter: "getEsc chunk = Some (r, rest) \<Longrightarrow> length rest < length chunk \<and> rest \<noteq> []"
proof -
  assume a: "getEsc chunk = Some (r, rest)"
  define c where "c = (if hd chunk = ch (CHR 0x5C) then tl chunk else chunk)"
  have c: "c \<noteq> []" "chunk \<noteq> []" "rest = drop (snd (DecodeRune c)) c" "rest \<noteq> []"
    using a by (auto simp: getEsc_def c_def [symmetric] Let_def split: if_splits prod.splits)
  have "length c \<le> length chunk" by (simp add: c_def)
  with c DecodeRune_pos [OF c(1)] show ?thesis by (auto simp: c(3))
qed

text \<open>The range loop of a character class: the match flag, the rest of the chunk.\<close>

function class_ranges :: "nat \<Rightarrow> bytes \<Rightarrow> bool \<Rightarrow> nat \<Rightarrow> (bool \<times> bytes) option" where
  "class_ranges r chunk m nrange =
     (if chunk \<noteq> [] \<and> hd chunk = ch (CHR '']'') \<and> nrange > 0 then Some (m, tl chunk)
      else case getEsc chunk of
        None \<Rightarrow> None
      | Some (lo, c1) \<Rightarrow>
          if hd c1 = ch (CHR ''-'') then
            (case getEsc (tl c1) of
               None \<Rightarrow> None
             | Some (hi, c2) \<Rightarrow> class_ranges r c2 (m \<or> (lo \<le> r \<and> r \<le> hi)) (Suc nrange))
          else class_ranges r c1 (m \<or> lo = r) (Suc nrange))"
  by pat_completeness auto
termination
  by (relation "measure (\<lambda>(r, chunk, m, n). length chunk)")
    (auto dest!: getEsc_shorter [OF sym] getEsc_shorter simp: length_tl)

declare class_ranges.simps [simp del]

lemma class_ranges_shorter: "class_ranges r chunk m n = Some (b, rest) \<Longrightarrow> length rest < length chunk"
proof (induction r chunk m n arbitrary: b rest rule: class_ranges.induct)
  case (1 r chunk m nrange)
  show ?case
  proof (cases "chunk \<noteq> [] \<and> hd chunk = ch (CHR '']'') \<and> nrange > 0")
    case True
    then show ?thesis using 1(3) by (subst (asm) class_ranges.simps) auto
  next
    case False
    then obtain lo c1 where c1: "getEsc chunk = Some (lo, c1)"
      using 1(3) by (subst (asm) class_ranges.simps) (auto split: option.splits if_splits)
    then have l1: "length c1 < length chunk" by (simp add: getEsc_shorter)
    show ?thesis
    proof (cases "hd c1 = ch (CHR ''-'')")
      case True
      then obtain hi c2 where c2: "getEsc (tl c1) = Some (hi, c2)"
        using 1(3) False c1 by (subst (asm) class_ranges.simps) (auto split: option.splits if_splits)
      then have "length c2 < length c1" using getEsc_shorter [OF c2] by simp linarith
      moreover have "class_ranges r c2 (m \<or> (lo \<le> r \<and> r \<le> hi)) (Suc nrange) = Some (b, rest)"
        using 1(3) False c1 c2 True by (subst (asm) class_ranges.simps) (auto split: if_splits)
      ultimately show ?thesis using 1(1) [OF False c1 refl True c2 refl] l1 by simp
    next
      case False2: False
      have "class_ranges r c1 (m \<or> lo = r) (Suc nrange) = Some (b, rest)"
        using 1(3) False c1 False2 by (subst (asm) class_ranges.simps) (auto split: if_splits)
      then show ?thesis using 1(2) [OF False c1 refl False2] l1 by simp
    qed
  qed
qed

text \<open>
  \<^verbatim>\<open>matchChunk\<close>: \<open>None\<close> for a bad pattern, \<open>Some None\<close> for a failed match, \<open>Some (Some rest)\<close>
  for a match that leaves \<open>rest\<close>. After a failure the chunk is only checked for well-formedness.
\<close>

function matchChunk :: "bytes \<Rightarrow> bytes \<Rightarrow> bool \<Rightarrow> bytes option option" where
  "matchChunk chunk s failed =
     (if chunk = [] then Some (if failed then None else Some s)
      else let failed = (failed \<or> s = []) in
        if hd chunk = ch (CHR ''['') then
          (let (r, n) = (if failed then (0, 0) else DecodeRune s);
               c1 = tl chunk;
               negated = (c1 \<noteq> [] \<and> hd c1 = ch (CHR ''^''));
               c2 = (if negated then tl c1 else c1)
           in case class_ranges r c2 False 0 of
                None \<Rightarrow> None
              | Some (m, rest) \<Rightarrow> matchChunk rest (drop n s) (failed \<or> m = negated))
        else if hd chunk = ch (CHR ''?'') then
          (if failed then matchChunk (tl chunk) s True
           else matchChunk (tl chunk) (drop (snd (DecodeRune s)) s) (hd s = slash))
        else if hd chunk = ch (CHR 0x5C) \<and> tl chunk = [] then None
        else let c = (if hd chunk = ch (CHR 0x5C) then tl chunk else chunk) in
          if failed then matchChunk (tl c) s True
          else matchChunk (tl c) (tl s) (hd c \<noteq> hd s))"
  by pat_completeness auto
termination
proof (relation "measure (\<lambda>(chunk, s, f). length chunk)", goal_cases)
  case (2 chunk s failed f x r n c1 negated c2 x2 m rest)
  then have "length rest < length c2" by (metis class_ranges_shorter)
  moreover have "length c2 \<le> length chunk" using 2 by auto
  ultimately show ?case by simp
qed (auto split: if_splits simp: neq_Nil_conv)

declare matchChunk.simps [simp del]

lemma strip_stars_length: "strip_stars p b = (star, q) \<Longrightarrow> length q \<le> length p \<and> (length q = length p \<longrightarrow> q = p)"
  by (induction p b rule: strip_stars.induct) (auto split: if_splits)

lemma scan_index_le: "scan_index p b \<le> length p"
  by (induction p b rule: scan_index.induct) (auto split: list.splits)

lemma scanChunk_progress:
  assumes "p \<noteq> []" "scanChunk p = (star, chunk, rest)" shows "length rest < length p"
proof -
  obtain st q where q: "strip_stars p False = (st, q)" by fastforce
  have rest: "rest = drop (scan_index q False) q" using assms q by (simp add: scanChunk_def Let_def)
  show ?thesis
  proof (cases "length q < length p")
    case True
    then show ?thesis by (simp add: rest)
  next
    case False
    then have "q = p" using strip_stars_length [OF q] by simp
    then obtain c p' where p: "p = c # p'" "q = c # p'" using assms(1) by (cases p) auto
    then have "c \<noteq> ch (CHR ''*'')" using q strip_stars_length [of p' True]
      by (auto split: if_splits dest!: strip_stars_length)
    then have "0 < scan_index q False" by (auto simp: p split: list.splits)
    then show ?thesis by (simp add: rest p)
  qed
qed

text \<open>The remainder of a pattern is only checked for well-formedness.\<close>

function pattern_ok :: "bytes \<Rightarrow> bool" where
  "pattern_ok p = (if p = [] then True
     else case scanChunk p of (_, chunk, rest) \<Rightarrow> matchChunk chunk [] False \<noteq> None \<and> pattern_ok rest)"
  by pat_completeness auto
termination by (relation "measure length") (auto dest: scanChunk_progress [OF _ sym])

declare pattern_ok.simps [simp del]

text \<open>
  The star loop: the first suffix after skipping a byte other than the separator at which the
  chunk matches (and, for the last chunk, uses up the name).
\<close>

fun star_loop :: "bytes \<Rightarrow> bool \<Rightarrow> bytes \<Rightarrow> bytes option option" where
  "star_loop chunk is_last [] = Some None"
| "star_loop chunk is_last (c # s) =
     (if c = slash then Some None
      else case matchChunk chunk s False of
        None \<Rightarrow> None
      | Some (Some t) \<Rightarrow> if is_last \<and> t \<noteq> [] then star_loop chunk is_last s else Some (Some t)
      | Some None \<Rightarrow> star_loop chunk is_last s)"

function Match :: "bytes \<Rightarrow> bytes \<Rightarrow> bool option" where
  "Match pattern name =
     (if pattern = [] then Some (name = [])
      else case scanChunk pattern of (star, chunk, rest) \<Rightarrow>
        if star \<and> chunk = [] then Some (slash \<notin> set name)
        else case matchChunk chunk name False of
          None \<Rightarrow> None
        | Some res \<Rightarrow>
            if (case res of Some t \<Rightarrow> t = [] \<or> rest \<noteq> [] | None \<Rightarrow> False) then Match rest (the res)
            else case (if star then star_loop chunk (rest = []) name else Some None) of
              None \<Rightarrow> None
            | Some (Some t) \<Rightarrow> Match rest t
            | Some None \<Rightarrow> if pattern_ok rest then Some False else None)"
  by pat_completeness auto
termination by (relation "measure (\<lambda>(p, n). length p)") (auto dest: scanChunk_progress [OF _ sym])

declare Match.simps [simp del]

end
