(* ===== verification/Go_Path.thy ===== *)
theory Go_Path
  imports Go_Match
begin

text \<open>
  What the destination code uses of \<^verbatim>\<open>strings.Split\<close>, \<^verbatim>\<open>strings.Join\<close> and of the lexical functions of
  the \<^verbatim>\<open>path\<close> package, on slash-separated byte strings.
\<close>

fun SplitSlash :: "bytes \<Rightarrow> bytes list" where
  "SplitSlash [] = [[]]"
| "SplitSlash (c # cs) =
     (if c = slash then [] # SplitSlash cs
      else case SplitSlash cs of [] \<Rightarrow> [[c]] | w # ws \<Rightarrow> (c # w) # ws)"

fun JoinSlash :: "bytes list \<Rightarrow> bytes" where
  "JoinSlash [] = []"
| "JoinSlash [w] = w"
| "JoinSlash (w # ws) = w @ slash # JoinSlash ws"

definition dot :: bytes where "dot = str ''.''"
definition dotdot :: bytes where "dotdot = str ''..''"

text \<open>\<^verbatim>\<open>path.Clean\<close>: \<open>out\<close> holds the components kept so far, last first.\<close>

fun clean_comps :: "bool \<Rightarrow> bytes list \<Rightarrow> bytes list \<Rightarrow> bytes list" where
  "clean_comps rooted out [] = rev out"
| "clean_comps rooted out (w # ws) =
     (if w = [] \<or> w = dot then clean_comps rooted out ws
      else if w = dotdot then
        (case out of
           x # out' \<Rightarrow> if x = dotdot then clean_comps rooted (dotdot # out) ws else clean_comps rooted out' ws
         | [] \<Rightarrow> if rooted then clean_comps rooted [] ws else clean_comps rooted [dotdot] ws)
      else clean_comps rooted (w # out) ws)"

definition path_Clean :: "bytes \<Rightarrow> bytes" where
  "path_Clean p =
     (let rooted = (p \<noteq> [] \<and> hd p = slash);
          body = JoinSlash (clean_comps rooted [] (SplitSlash p))
      in if rooted then slash # body else if body = [] then dot else body)"

text \<open>\<^verbatim>\<open>path.Dir\<close>: everything up to the last slash, cleaned. \<^verbatim>\<open>path.Join\<close> of two elements.\<close>

definition path_Dir :: "bytes \<Rightarrow> bytes" where
  "path_Dir p = path_Clean (rev (dropWhile (\<lambda>c. c \<noteq> slash) (rev p)))"

definition path_Join :: "bytes \<Rightarrow> bytes \<Rightarrow> bytes" where
  "path_Join a b =
     (if a = [] \<and> b = [] then []
      else path_Clean (if a = [] then b else if b = [] then a else a @ slash # b))"

lemma SplitSlash_not_Nil [simp]: "SplitSlash p \<noteq> []"
  by (induction p) (auto split: list.splits)

lemma JoinSlash_Cons: "ws \<noteq> [] \<Longrightarrow> JoinSlash (w # ws) = w @ slash # JoinSlash ws"
  by (cases ws) auto

lemma JoinSlash_SplitSlash [simp]: "JoinSlash (SplitSlash p) = p"
proof (induction p)
  case (Cons c cs)
  obtain w ws where "SplitSlash cs = w # ws" by (meson SplitSlash_not_Nil list.exhaust)
  then show ?case using Cons by (cases ws) (auto simp: JoinSlash_Cons)
qed simp

text \<open>The proper ancestors of a path, from the top down.\<close>

definition ancestors :: "bytes \<Rightarrow> bytes list" where
  "ancestors p = (let comps = SplitSlash p in map (\<lambda>i. JoinSlash (take i comps)) [1..<length comps])"

lemma JoinSlash_append: "xs \<noteq> [] \<Longrightarrow> ys \<noteq> [] \<Longrightarrow> JoinSlash (xs @ ys) = JoinSlash xs @ slash # JoinSlash ys"
  by (induction xs rule: JoinSlash.induct) (auto simp: JoinSlash_Cons neq_Nil_conv)

lemma ancestor_shorter:
  assumes "a \<in> set (ancestors p)"
  shows "length a < length p"
proof -
  let ?c = "SplitSlash p"
  from assms obtain i where i: "1 \<le> i" "i < length ?c" "a = JoinSlash (take i ?c)"
    by (auto simp: ancestors_def Let_def)
  then have "p = a @ slash # JoinSlash (drop i ?c)"
    using JoinSlash_append [of "take i ?c" "drop i ?c"] by simp
  then have "length p = length (a @ slash # JoinSlash (drop i ?c))" by (rule arg_cong)
  then show ?thesis by simp
qed

end
