(* ===== verification/Dest.thy ===== *)
theory Dest
  imports Go_Path Fault
begin

text \<open>
  Confined destination access (\<^verbatim>\<open>internal/fsx/dest.go\<close>). The tree under the \<^verbatim>\<open>*os.Root\<close> is a map from
  slash paths to nodes; which system calls fail, and with what error, is an input \<open>w\<close>. A call that
  fails leaves the tree as it was (directories that a failing \<^verbatim>\<open>MkdirAll\<close> may have made are left out).
\<close>

section \<open>The tree and its system calls\<close>

type_synonym mtime = "int \<times> u32"

datatype node = File (node_content: bytes) (node_mode: u32) (node_mtime: mtime) | Directory u32 mtime | Symlink bytes

type_synonym tree = "bytes \<rightharpoonup> node"

datatype errno = ENOENT | EEXIST | EACCES | ENOSPC | EOTHER

datatype root_op = OpLstat bytes | OpMkdirAll bytes | OpChmod bytes | OpChtimes bytes | OpOpen bytes
  | OpRename bytes bytes | OpRemove bytes | OpSymlink bytes bytes | OpLink bytes bytes | OpLchown bytes

type_synonym outcomes = "root_op \<Rightarrow> errno option"

definition Lstat :: "outcomes \<Rightarrow> tree \<Rightarrow> bytes \<Rightarrow> errno + node" where
  "Lstat w t p = (case w (OpLstat p) of
     Some e \<Rightarrow> Inl e
   | None \<Rightarrow> (case t p of None \<Rightarrow> Inl ENOENT | Some n \<Rightarrow> Inr n))"

definition is_dir :: "node \<Rightarrow> bool" where
  "is_dir n \<longleftrightarrow> (case n of Directory _ _ \<Rightarrow> True | _ \<Rightarrow> False)"

definition is_symlink :: "node \<Rightarrow> bool" where
  "is_symlink n \<longleftrightarrow> (case n of Symlink _ \<Rightarrow> True | _ \<Rightarrow> False)"

definition new_dir :: node where "new_dir = Directory 0x1FF (0, 0)"

text \<open>A symlink on the way is followed by the kernel, inside the root; what is behind it is not represented.\<close>

fun add_dirs :: "bytes list \<Rightarrow> tree \<Rightarrow> errno + tree" where
  "add_dirs [] t = Inr t"
| "add_dirs (p # ps) t = (case t p of
     None \<Rightarrow> add_dirs ps (t(p \<mapsto> new_dir))
   | Some n \<Rightarrow> if is_dir n \<or> is_symlink n then add_dirs ps t else Inl EOTHER)"

definition MkdirAll :: "outcomes \<Rightarrow> bytes \<Rightarrow> tree \<Rightarrow> errno + tree" where
  "MkdirAll w p t = (case w (OpMkdirAll p) of Some e \<Rightarrow> Inl e | None \<Rightarrow> add_dirs (ancestors p @ [p]) t)"

definition Chmod :: "outcomes \<Rightarrow> bytes \<Rightarrow> u32 \<Rightarrow> tree \<Rightarrow> errno + tree" where
  "Chmod w p m t = (case w (OpChmod p) of
     Some e \<Rightarrow> Inl e
   | None \<Rightarrow> (case t p of
       Some (File c _ mt) \<Rightarrow> Inr (t(p \<mapsto> File c m mt))
     | Some (Directory _ mt) \<Rightarrow> Inr (t(p \<mapsto> Directory m mt))
     | Some (Symlink _) \<Rightarrow> Inr t
     | None \<Rightarrow> Inl ENOENT))"

definition Chtimes :: "outcomes \<Rightarrow> bytes \<Rightarrow> mtime \<Rightarrow> tree \<Rightarrow> errno + tree" where
  "Chtimes w p mt t = (case w (OpChtimes p) of
     Some e \<Rightarrow> Inl e
   | None \<Rightarrow> (case t p of
       Some (File c m _) \<Rightarrow> Inr (t(p \<mapsto> File c m mt))
     | Some (Directory m _) \<Rightarrow> Inr (t(p \<mapsto> Directory m mt))
     | Some (Symlink _) \<Rightarrow> Inr t
     | None \<Rightarrow> Inl ENOENT))"

text \<open>\<^verbatim>\<open>rename\<close> replaces a file or a symlink at the new path, never a directory.\<close>

definition Rename :: "outcomes \<Rightarrow> bytes \<Rightarrow> bytes \<Rightarrow> tree \<Rightarrow> errno + tree" where
  "Rename w a b t = (case w (OpRename a b) of
     Some e \<Rightarrow> Inl e
   | None \<Rightarrow> (case t a of
       None \<Rightarrow> Inl ENOENT
     | Some n \<Rightarrow> (case t b of
         Some m \<Rightarrow> if is_dir m then Inl EOTHER else Inr ((t(a := None))(b \<mapsto> n))
       | None \<Rightarrow> Inr ((t(a := None))(b \<mapsto> n)))))"

text \<open>\<^verbatim>\<open>Remove\<close> of a directory that is not empty is one of the failing outcomes.\<close>

definition Remove :: "outcomes \<Rightarrow> bytes \<Rightarrow> tree \<Rightarrow> errno + tree" where
  "Remove w p t = (case w (OpRemove p) of
     Some e \<Rightarrow> Inl e
   | None \<Rightarrow> (case t p of
       None \<Rightarrow> Inl ENOENT
     | Some n \<Rightarrow> Inr (t(p := None))))"

definition create_node :: "bytes \<Rightarrow> node \<Rightarrow> tree \<Rightarrow> errno + tree" where
  "create_node p n t = (case t p of Some _ \<Rightarrow> Inl EEXIST | None \<Rightarrow> Inr (t(p \<mapsto> n)))"

definition Symlink_call :: "outcomes \<Rightarrow> bytes \<Rightarrow> bytes \<Rightarrow> tree \<Rightarrow> errno + tree" where
  "Symlink_call w target p t = (case w (OpSymlink target p) of Some e \<Rightarrow> Inl e | None \<Rightarrow> create_node p (Symlink target) t)"

definition Link :: "outcomes \<Rightarrow> bytes \<Rightarrow> bytes \<Rightarrow> tree \<Rightarrow> errno + tree" where
  "Link w old new t = (case w (OpLink old new) of
     Some e \<Rightarrow> Inl e
   | None \<Rightarrow> (case t old of None \<Rightarrow> Inl ENOENT | Some n \<Rightarrow> if is_dir n then Inl EOTHER else create_node new n t))"

section \<open>Destination operations\<close>

definition diskCode :: "errno \<Rightarrow> Code \<Rightarrow> Code" where
  "diskCode e dflt = (case e of ENOSPC \<Rightarrow> E7003 | EACCES \<Rightarrow> E7002 | _ \<Rightarrow> dflt)"

fun check_loop :: "outcomes \<Rightarrow> tree \<Rightarrow> bytes list \<Rightarrow> Code option" where
  "check_loop w t [] = None"
| "check_loop w t (parent # ps) =
     (if parent = [] \<or> parent = dot then check_loop w t ps
      else case Lstat w t parent of
        Inl e \<Rightarrow> if e = ENOENT then None else Some E7013
      | Inr n \<Rightarrow> if is_symlink n then Some E7013 else check_loop w t ps)"

definition checkParentSymlinks :: "outcomes \<Rightarrow> tree \<Rightarrow> bytes \<Rightarrow> Code option" where
  "checkParentSymlinks w t rel = check_loop w t (ancestors rel)"

definition mkParents :: "outcomes \<Rightarrow> bytes \<Rightarrow> tree \<Rightarrow> Code + tree" where
  "mkParents w rel t =
     (let dir = path_Dir rel in
      if dir = dot \<or> dir = [] then Inr t
      else case MkdirAll w dir t of Inl e \<Rightarrow> Inl (diskCode e E7008) | Inr t' \<Rightarrow> Inr t')"

definition EnsureDir :: "outcomes \<Rightarrow> bytes \<Rightarrow> u32 \<Rightarrow> tree \<Rightarrow> Code option \<times> tree" where
  "EnsureDir w relDir mode t =
     (if relDir = [] \<or> relDir = dot then (None, t)
      else case checkParentSymlinks w t relDir of
        Some c \<Rightarrow> (Some c, t)
      | None \<Rightarrow> (case MkdirAll w relDir t of
          Inl e \<Rightarrow> (Some (diskCode e E7008), t)
        | Inr t \<Rightarrow> (case Chmod w relDir mode t of Inl e \<Rightarrow> (Some E7006, t) | Inr t \<Rightarrow> (None, t))))"

definition partName :: "u64 \<Rightarrow> bytes" where
  "partName fileID = str ''.esync/parts/'' @ FormatUint (unat fileID) 10 @ str ''.part''"

text \<open>\<^verbatim>\<open>O_CREATE\<close> without \<^verbatim>\<open>O_TRUNC\<close>: an existing part keeps its content (the caller truncates).\<close>

definition OpenPart :: "outcomes \<Rightarrow> u64 \<Rightarrow> tree \<Rightarrow> Code option \<times> tree" where
  "OpenPart w fileID t = (case MkdirAll w (str ''.esync/parts'') t of
     Inl e \<Rightarrow> (Some (diskCode e E7008), t)
   | Inr t \<Rightarrow>
       let name = partName fileID in
       case w (OpOpen name) of
         Some e \<Rightarrow> (Some (diskCode e E7001), t)
       | None \<Rightarrow> (case t name of
           None \<Rightarrow> (None, t(name \<mapsto> File [] 0x180 (0, 0)))
         | Some (File c m mt) \<Rightarrow> (None, t)
         | Some _ \<Rightarrow> (Some (diskCode EOTHER E7001), t)))"

definition PublishPart :: "outcomes \<Rightarrow> u64 \<Rightarrow> bytes \<Rightarrow> u32 \<Rightarrow> mtime \<Rightarrow> tree \<Rightarrow> Code option \<times> tree" where
  "PublishPart w fileID finalRel mode mt t =
     (let part = partName fileID in
      case checkParentSymlinks w t finalRel of
        Some c \<Rightarrow> (Some c, t)
      | None \<Rightarrow> (case mkParents w finalRel t of
          Inl c \<Rightarrow> (Some c, t)
        | Inr t \<Rightarrow>
            let (e1, t) = (case Chmod w part mode t of Inl _ \<Rightarrow> (True, t) | Inr t \<Rightarrow> (False, t));
                (e2, t) = (case Chtimes w part mt t of Inl _ \<Rightarrow> (True, t) | Inr t \<Rightarrow> (False, t))
            in case Rename w part finalRel t of
                 Inl e \<Rightarrow> (Some (diskCode e E7005), t)
               | Inr t \<Rightarrow> (if e1 \<or> e2 then Some E7006 else None, t)))"

definition ApplyMeta :: "outcomes \<Rightarrow> bytes \<Rightarrow> u32 \<Rightarrow> mtime \<Rightarrow> tree \<Rightarrow> Code option \<times> tree" where
  "ApplyMeta w rel mode mt t =
     (let (e1, t) = (case Chmod w rel mode t of Inl _ \<Rightarrow> (True, t) | Inr t \<Rightarrow> (False, t));
          (e2, t) = (case Chtimes w rel mt t of Inl _ \<Rightarrow> (True, t) | Inr t \<Rightarrow> (False, t))
      in (if e1 \<or> e2 then Some E7006 else None, t))"

definition isASCIILetter :: "byte \<Rightarrow> bool" where
  "isASCIILetter c \<longleftrightarrow> ch (CHR ''a'') \<le> c \<and> c \<le> ch (CHR ''z'') \<or> ch (CHR ''A'') \<le> c \<and> c \<le> ch (CHR ''Z'')"

definition absoluteTarget :: "bytes \<Rightarrow> bool" where
  "absoluteTarget t \<longleftrightarrow> HasPrefix t [slash] \<or> HasPrefix t [ch (CHR 0x5C)] \<or>
     (length t \<ge> 2 \<and> t ! 1 = ch (CHR '':'') \<and> isASCIILetter (t ! 0))"

definition MakeSymlink :: "outcomes \<Rightarrow> bytes \<Rightarrow> bytes \<Rightarrow> bool \<Rightarrow> tree \<Rightarrow> Code option \<times> tree" where
  "MakeSymlink w relPath target allowUnsafeLinks t =
     (case checkParentSymlinks w t relPath of
        Some c \<Rightarrow> (Some c, t)
      | None \<Rightarrow>
          if \<not> allowUnsafeLinks \<and> absoluteTarget target then (Some E7011, t)
          else let resolved = path_Join (path_Dir relPath) target in
            if \<not> allowUnsafeLinks \<and> (resolved = dotdot \<or> HasPrefix resolved (dotdot @ [slash])) then (Some E7011, t)
            else case mkParents w relPath t of
              Inl c \<Rightarrow> (Some c, t)
            | Inr t \<Rightarrow>
                let t = (case Remove w relPath t of Inl _ \<Rightarrow> t | Inr t \<Rightarrow> t) in
                case Symlink_call w target relPath t of
                  Inl e \<Rightarrow> (Some (diskCode e E7001), t)
                | Inr t \<Rightarrow> (None, t))"

definition MakeHardlink :: "outcomes \<Rightarrow> bytes \<Rightarrow> bytes \<Rightarrow> tree \<Rightarrow> Code option \<times> tree" where
  "MakeHardlink w relPath existingRel t =
     (case checkParentSymlinks w t relPath of
        Some c \<Rightarrow> (Some c, t)
      | None \<Rightarrow> (case mkParents w relPath t of
          Inl c \<Rightarrow> (Some E7009, t)
        | Inr t \<Rightarrow>
            let t = (case Remove w relPath t of Inl _ \<Rightarrow> t | Inr t \<Rightarrow> t) in
            case Link w existingRel relPath t of
              Inl e \<Rightarrow> (Some E7009, t)
            | Inr t \<Rightarrow> (None, t)))"

section \<open>Atomic publication\<close>

text \<open>\<open>t'\<close> has what \<open>t\<close> has, and possibly more directories.\<close>

definition grows :: "tree \<Rightarrow> tree \<Rightarrow> bool" where
  "grows t t' \<longleftrightarrow> (\<forall>q. t' q = t q \<or> t q = None \<and> t' q = Some new_dir)"

lemma grows_refl [simp]: "grows t t" by (simp add: grows_def)

lemma add_dirs_grows: "add_dirs ps t = Inr t' \<Longrightarrow> grows t t'"
proof (induction ps arbitrary: t)
  case (Cons p ps)
  show ?case
  proof (cases "t p")
    case None
    then have "grows (t(p \<mapsto> new_dir)) t'" using Cons by simp
    then show ?thesis using None by (auto simp: grows_def split: if_splits)
  next
    case (Some n)
    then show ?thesis using Cons by (auto split: if_splits)
  qed
qed simp

lemma mkParents_grows: "mkParents w rel t = Inr t' \<Longrightarrow> grows t t'"
  by (auto simp: mkParents_def MkdirAll_def Let_def split: if_splits sum.splits option.splits dest: add_dirs_grows)

lemma mkParents_code: "mkParents w rel t = Inl c \<Longrightarrow> c \<in> {E7002, E7003, E7008}"
  by (auto simp: mkParents_def diskCode_def Let_def split: if_splits sum.splits errno.splits)

lemma check_loop_code: "check_loop w t ps = Some c \<Longrightarrow> c = E7013"
  by (induction ps) (auto split: if_splits sum.splits)

lemma grows_File: "grows t t' \<Longrightarrow> t p = Some n \<Longrightarrow> t' p = Some n"
  unfolding grows_def by (metis option.distinct(1))

text \<open>Changing mode and time of a regular file changes nothing else.\<close>

lemma meta_step:
  assumes "t p = Some (File c m mt)"
  shows "\<exists>e1 e2 m' mt'. (case Chmod w p mode t of Inl _ \<Rightarrow> (True, t) | Inr t \<Rightarrow> (False, t)) = (e1, t(p \<mapsto> File c m' mt)) \<and>
    (case Chtimes w p time (t(p \<mapsto> File c m' mt)) of Inl _ \<Rightarrow> (True, t(p \<mapsto> File c m' mt)) | Inr t \<Rightarrow> (False, t)) =
      (e2, t(p \<mapsto> File c m' mt')) \<and> (\<not> e1 \<and> \<not> e2 \<longrightarrow> m' = mode \<and> mt' = time)"
proof -
  have same: "t(p \<mapsto> File c m mt) = t" using assms by auto
  have chmod: "(case Chmod w p mode t of Inl _ \<Rightarrow> (True, t) | Inr t \<Rightarrow> (False, t)) =
      (w (OpChmod p) \<noteq> None, t(p \<mapsto> File c (if w (OpChmod p) \<noteq> None then m else mode) mt))"
    by (cases "w (OpChmod p)") (simp_all add: Chmod_def assms same)
  have "(case Chtimes w p time (t(p \<mapsto> File c k mt)) of Inl _ \<Rightarrow> (True, t(p \<mapsto> File c k mt)) | Inr t \<Rightarrow> (False, t)) =
      (w (OpChtimes p) \<noteq> None, t(p \<mapsto> File c k (if w (OpChtimes p) \<noteq> None then mt else time)))" for k
    by (cases "w (OpChtimes p)") (simp_all add: Chtimes_def)
  with chmod show ?thesis by (intro exI conjI) (assumption | rule | simp)+
qed

lemma published_codes: "diskCode e E7005 \<noteq> E7006" "E7013 \<noteq> E7006" "c \<in> {E7002, E7003, E7008} \<Longrightarrow> c \<noteq> E7006"
  by (auto simp: diskCode_def code_defs split: errno.splits)

lemma PublishPart_cases:
  assumes run: "PublishPart w fid rel mode time t = (r, t')" and part: "t (partName fid) = Some (File c m mt)"
  shows "(r \<noteq> None \<and> r \<noteq> Some E7006 \<and> (\<exists>t1 m' mt'. grows t t1 \<and> t' = t1(partName fid \<mapsto> File c m' mt'))) \<or>
    (r = None \<or> r = Some E7006) \<and> (\<exists>t1 m' mt'. grows t t1 \<and>
      t' = (t1(partName fid := None))(rel \<mapsto> File c m' mt') \<and> (r = None \<longrightarrow> m' = mode \<and> mt' = time))"
proof -
  have "t(partName fid \<mapsto> File c m mt) = t" using part by auto
  then have ex: "\<exists>t1 m' mt'. grows t t1 \<and> t = t1(partName fid \<mapsto> File c m' mt')"
    by (intro exI [of _ t] exI [of _ m] exI [of _ mt]) simp
  consider (sym) "checkParentSymlinks w t rel = Some E7013"
    | (mk) code where "checkParentSymlinks w t rel = None" "mkParents w rel t = Inl code"
    | (go) t1 where "checkParentSymlinks w t rel = None" "mkParents w rel t = Inr t1"
    by (cases "checkParentSymlinks w t rel"; cases "mkParents w rel t")
      (auto simp: checkParentSymlinks_def dest: check_loop_code)
  then show ?thesis
  proof cases
    case sym
    then have "r = Some E7013" "t' = t" using run unfolding PublishPart_def Let_def by simp_all
    then show ?thesis using ex published_codes(2) by simp
  next
    case mk
    then have "r = Some code" "t' = t" using run unfolding PublishPart_def Let_def by simp_all
    then show ?thesis using ex published_codes(3) [OF mkParents_code [OF mk(2)]] by simp
  next
    case go
    note g = mkParents_grows [OF go(2)]
    note p1 = grows_File [OF g part]
    from meta_step [where t = t1 and p = "partName fid", OF p1] obtain e1 e2 m' mt' where
      ch: "(case Chmod w (partName fid) mode t1 of Inl _ \<Rightarrow> (True, t1) | Inr t \<Rightarrow> (False, t)) = (e1, t1(partName fid \<mapsto> File c m' mt))"
        "(case Chtimes w (partName fid) time (t1(partName fid \<mapsto> File c m' mt)) of
            Inl _ \<Rightarrow> (True, t1(partName fid \<mapsto> File c m' mt)) | Inr t \<Rightarrow> (False, t)) = (e2, t1(partName fid \<mapsto> File c m' mt'))"
      and ok: "\<not> e1 \<and> \<not> e2 \<longrightarrow> m' = mode \<and> mt' = time" by blast
    let ?t2 = "t1(partName fid \<mapsto> File c m' mt')"
    have body: "(case Rename w (partName fid) rel ?t2 of
          Inl e \<Rightarrow> (Some (diskCode e E7005), ?t2) | Inr t \<Rightarrow> (if e1 \<or> e2 then Some E7006 else None, t)) = (r, t')"
      using run go ch unfolding PublishPart_def Let_def by simp
    show ?thesis
    proof (cases "Rename w (partName fid) rel ?t2")
      case (Inl e)
      then have "r = Some (diskCode e E7005)" "t' = ?t2" using body by auto
      moreover have "\<exists>t2 m2 mt2. grows t t2 \<and> ?t2 = t2(partName fid \<mapsto> File c m2 mt2)" using g by blast
      ultimately show ?thesis using published_codes(1) by simp
    next
      case (Inr t3)
      then have "t3 = (?t2(partName fid := None))(rel \<mapsto> File c m' mt')"
        by (auto simp: Rename_def split: option.splits if_splits)
      moreover have "r = (if e1 \<or> e2 then Some E7006 else None)" "t' = t3" using body Inr by auto
      ultimately have "(r = None \<or> r = Some E7006) \<and> t' = (t1(partName fid := None))(rel \<mapsto> File c m' mt') \<and>
          (r = None \<longrightarrow> m' = mode \<and> mt' = time)" using ok by simp
      then show ?thesis using g by blast
    qed
  qed
qed

text \<open>
  C18. Publication is atomic for every pattern of failing system calls. If it reports success, or only
  the metadata warning E7006, the final path holds exactly the bytes of the part file (with the mode and
  time asked for when there is no warning) and the part is gone. With any other error the part file keeps
  its bytes for the next attempt and the final path keeps what it had. No other existing path changes,
  and nothing appears but directories.
\<close>

theorem PublishPart_atomic:
  assumes "PublishPart w fid rel mode time t = (r, t')" "t (partName fid) = Some (File c m mt)" "rel \<noteq> partName fid"
  shows "(r \<in> {None, Some E7006} \<longrightarrow> t' (partName fid) = None \<and>
      (\<exists>m' mt'. t' rel = Some (File c m' mt') \<and> (r = None \<longrightarrow> m' = mode \<and> mt' = time))) \<and>
    (r \<notin> {None, Some E7006} \<longrightarrow> (\<exists>m' mt'. t' (partName fid) = Some (File c m' mt')) \<and>
      (t rel \<noteq> None \<longrightarrow> t' rel = t rel)) \<and>
    (\<forall>q. q \<noteq> rel \<longrightarrow> q \<noteq> partName fid \<longrightarrow> t' q = t q \<or> t q = None \<and> t' q = Some new_dir)"
  using PublishPart_cases [OF assms(1,2)] assms(3) by (auto simp: grows_def) (metis option.distinct(1))

definition sample_tree :: tree where
  "sample_tree = [partName 1 \<mapsto> File [1, 2] 0x180 (0, 0), str ''a'' \<mapsto> File [9] 0x1A4 (5, 0)]"

lemma sample_part: "sample_tree (partName 1) = Some (File [1, 2] 0x180 (0, 0))" "str ''a'' \<noteq> partName 1"
  by (simp_all add: sample_tree_def partName_def str_def)

theorem PublishPart_atomic_witness:
  "\<exists>r t'. PublishPart (\<lambda>_. None) 1 (str ''a'') 0x1A4 (7, 0) sample_tree = (r, t') \<and>
     (r = None \<longrightarrow> t' (str ''a'') = Some (File [1, 2] 0x1A4 (7, 0)))"
proof -
  obtain r t' where 1: "PublishPart (\<lambda>_. None) 1 (str ''a'') 0x1A4 (7, 0) sample_tree = (r, t')" by fastforce
  from PublishPart_atomic [OF 1 sample_part] 1 show ?thesis by auto
qed

section \<open>Symlinks on the path\<close>

text \<open>A tree has no node below a missing one; \<^verbatim>\<open>Lstat\<close> does not deny a node that exists.\<close>

definition tree_closed :: "tree \<Rightarrow> bool" where
  "tree_closed t \<longleftrightarrow> (\<forall>p a. t p \<noteq> None \<and> a \<in> set (ancestors p) \<and> a \<noteq> [] \<and> a \<noteq> dot \<longrightarrow> t a \<noteq> None)"

definition honest :: "outcomes \<Rightarrow> tree \<Rightarrow> bool" where
  "honest w t \<longleftrightarrow> (\<forall>p. t p \<noteq> None \<longrightarrow> w (OpLstat p) \<noteq> Some ENOENT)"

lemma SplitSlash_no_slash: "\<forall>w\<in>set (SplitSlash p). slash \<notin> set w"
proof (induction p)
  case (Cons c cs)
  then show ?case by (cases "SplitSlash cs") auto
qed simp

lemma SplitSlash_word: "slash \<notin> set w \<Longrightarrow> SplitSlash w = [w]"
  by (induction w) auto

lemma SplitSlash_append: "slash \<notin> set w \<Longrightarrow> SplitSlash (w @ slash # p) = w # SplitSlash p"
  by (induction w) auto

lemma SplitSlash_JoinSlash: "ws \<noteq> [] \<Longrightarrow> \<forall>w\<in>set ws. slash \<notin> set w \<Longrightarrow> SplitSlash (JoinSlash ws) = ws"
proof (induction ws rule: JoinSlash.induct)
  case (3 w v ws)
  then show ?case using SplitSlash_append [of w "JoinSlash (v # ws)"] by simp
qed (auto simp: SplitSlash_word)

text \<open>The ancestors of the j-th ancestor are the ones before it.\<close>

lemma ancestors_nth:
  assumes "i < j" "j < length (ancestors p)"
  shows "ancestors p ! i \<in> set (ancestors (ancestors p ! j))"
proof -
  let ?c = "SplitSlash p"
  have n: "length (ancestors p) = length ?c - 1" by (simp add: ancestors_def Let_def)
  have at: "ancestors p ! k = JoinSlash (take (Suc k) ?c)" if "k < length (ancestors p)" for k
    using that by (simp add: ancestors_def Let_def nth_upt)
  have sl: "\<forall>w\<in>set (take (Suc j) ?c). slash \<notin> set w" using SplitSlash_no_slash [of p] set_take_subset [of "Suc j" ?c] by blast
  have "take (Suc j) ?c \<noteq> []" by simp
  then have sp: "SplitSlash (ancestors p ! j) = take (Suc j) ?c" using SplitSlash_JoinSlash [OF _ sl] at assms(2) by simp
  have len: "length (take (Suc j) ?c) = Suc j" using assms(2) n by simp
  have "JoinSlash (take (Suc i) (take (Suc j) ?c)) \<in> set (ancestors (ancestors p ! j))"
    unfolding ancestors_def [of "ancestors p ! j"] Let_def sp len set_map using assms(1)
    by (intro image_eqI [of _ _ "Suc i"]) auto
  then show ?thesis using at [of i] assms by (simp add: min_def)
qed

lemma check_loop_symlink:
  assumes "a \<in> set ps" "a \<noteq> []" "a \<noteq> dot" "t a = Some (Symlink tg)" "honest w t"
    and "\<forall>b\<in>set (takeWhile (\<lambda>b. b \<noteq> a) ps). b \<noteq> [] \<longrightarrow> b \<noteq> dot \<longrightarrow> t b \<noteq> None"
  shows "check_loop w t ps = Some E7013"
  using assms(1,6)
proof (induction ps)
  case (Cons b ps)
  have ex: "b \<noteq> [] \<Longrightarrow> b \<noteq> dot \<Longrightarrow> t b \<noteq> None" using Cons.prems assms(4) by (cases "b = a") auto
  have IH: "check_loop w t ps = Some E7013" if "b \<noteq> a" using Cons that by auto
  show ?case
  proof (cases "b = [] \<or> b = dot")
    case True
    then show ?thesis using IH assms(2,3) by auto
  next
    case False
    then obtain n where n: "t b = Some n" using ex by auto
    then have "w (OpLstat b) \<noteq> Some ENOENT" using assms(5) by (simp add: honest_def)
    then show ?thesis using False IH n assms(4)
      by (cases "w (OpLstat b)"; cases "b = a") (auto simp: Lstat_def is_symlink_def split: node.splits)
  qed
qed simp

text \<open>
  Nothing is written through a symlink: when any directory on the way to a destination path is a
  symlink, creating a directory, publishing a file, making a symlink or making a hard link there is
  refused with E7013 and the tree does not change.
\<close>

theorem no_write_through_symlink:
  assumes "tree_closed t" "honest w t" "a \<in> set (ancestors rel)" "a \<noteq> []" "a \<noteq> dot" "t a = Some (Symlink tg)"
    and "rel \<noteq> dot"
  shows "EnsureDir w rel mode t = (Some E7013, t) \<and> PublishPart w fid rel mode time t = (Some E7013, t) \<and>
    MakeSymlink w rel target unsafe t = (Some E7013, t) \<and> MakeHardlink w rel old t = (Some E7013, t)"
proof -
  have "t b \<noteq> None" if "b \<in> set (takeWhile (\<lambda>b. b \<noteq> a) (ancestors rel))" "b \<noteq> []" "b \<noteq> dot" for b
  proof -
    obtain ys zs where sp: "ancestors rel = ys @ a # zs" "a \<notin> set ys" using split_list_first [OF assms(3)] by blast
    then have "takeWhile (\<lambda>b. b \<noteq> a) (ancestors rel) = ys" by (auto simp: takeWhile_eq_all_conv takeWhile_append)
    then have "b \<in> set ys" using that(1) by simp
    then obtain i where "i < length ys" "ys ! i = b" by (auto simp: in_set_conv_nth)
    then have "i < length ys" "b = ancestors rel ! i" by (simp_all add: sp(1) nth_append)
    then have "b \<in> set (ancestors a)" using ancestors_nth [of i "length ys" rel] sp(1) by simp
    then show ?thesis using assms(1,6) that(2,3) unfolding tree_closed_def by (metis option.distinct(1))
  qed
  then have "checkParentSymlinks w t rel = Some E7013"
    unfolding checkParentSymlinks_def by (intro check_loop_symlink [OF assms(3-6,2)]) blast
  moreover have "rel \<noteq> []" using assms(3) by (auto simp: ancestors_def)
  ultimately show ?thesis using assms(7) by (simp add: EnsureDir_def PublishPart_def MakeSymlink_def MakeHardlink_def Let_def)
qed

definition link_tree :: tree where
  "link_tree = [str ''d'' \<mapsto> Symlink (str ''e'')]"

lemma slash_code: "slash = 0x2F" by (simp add: slash_def ch_def)

lemma link_tree_closed: "tree_closed link_tree"
  by (auto simp: tree_closed_def link_tree_def ancestors_def str_def ch_def slash_code split: if_splits)

theorem no_write_through_symlink_witness:
  "MakeHardlink (\<lambda>_. None) (str ''d/f'') (str ''x'') link_tree = (Some E7013, link_tree)"
proof -
  have "honest (\<lambda>_. None) link_tree" by (simp add: honest_def)
  moreover have "str ''d'' \<in> set (ancestors (str ''d/f''))" by (simp add: ancestors_def str_def ch_def slash_code)
  ultimately show ?thesis
    using no_write_through_symlink [OF link_tree_closed, of "\<lambda>_. None" "str ''d''" "str ''d/f''" "str ''e''"]
    by (simp add: str_def dot_def link_tree_def)
qed

section \<open>Where a symlink leads\<close>

text \<open>
  Resolution of a path from the root, following symlinks as the kernel does: \<open>None\<close> when a \<^verbatim>\<open>..\<close>
  is applied at the root, that is when the path leaves the destination. \<open>here\<close> is the current
  directory, innermost component first; the fuel bounds the steps.
\<close>

fun resolve :: "nat \<Rightarrow> tree \<Rightarrow> bytes list \<Rightarrow> bytes list \<Rightarrow> bytes list option" where
  "resolve 0 t here todo = Some (rev here)"
| "resolve (Suc n) t here [] = Some (rev here)"
| "resolve (Suc n) t here (w # ws) =
     (if w = [] \<or> w = dot then resolve n t here ws
      else if w = dotdot then (case here of [] \<Rightarrow> None | _ # up \<Rightarrow> resolve n t up ws)
      else case t (JoinSlash (rev (w # here))) of
        Some (Symlink tg) \<Rightarrow> resolve n t here (SplitSlash tg @ ws)
      | _ \<Rightarrow> resolve n t (w # here) ws)"

text \<open>
  The escape check of MakeSymlink is lexical and can be passed by two links together: the link
  \<^verbatim>\<open>p/q/s\<close> to \<^verbatim>\<open>..\<close> and the link \<^verbatim>\<open>l\<close> to \<^verbatim>\<open>p/q/s/../..\<close> are both accepted without
  \<^verbatim>\<open>allowUnsafeLinks\<close>, and following \<^verbatim>\<open>l\<close> leaves the destination root.
\<close>

theorem MakeSymlink_chain_escapes:
  "let (r1, t1) = MakeSymlink (\<lambda>_. None) (str ''p/q/s'') (str ''..'') False Map.empty;
       (r2, t2) = MakeSymlink (\<lambda>_. None) (str ''l'') (str ''p/q/s/../..'') False t1
   in r1 = None \<and> r2 = None \<and> resolve 20 t2 [] [str ''l''] = None"
  by code_simp

end
