(* ===== verification/Hardlinks.thy ===== *)
theory Hardlinks
  imports Esync_Prelude "HOL-Library.Multiset"
begin

text \<open>
  The receiver's metadata store and hard-link map (\<^verbatim>\<open>internal/receiver/decide.go\<close>). Each method holds
  the map's mutex and is one atomic step; the decide workers and the fetch workers interleave their
  steps freely. A secondary is parked on its key until the key's primary is materialised, abandoned or
  replaced.
\<close>

section \<open>The map\<close>

record fileMeta =
  fm_rel :: bytes
  fm_size :: int
  fm_mode :: u32
  fm_mtime :: "int \<times> u32"
  fm_digest :: bytes
  fm_hlKey :: u64
  fm_hasHLKey :: bool

type_synonym metaStore = "u64 \<rightharpoonup> fileMeta"

definition newMetaStore :: metaStore where "newMetaStore = Map.empty"
definition meta_set :: "u64 \<Rightarrow> fileMeta \<Rightarrow> metaStore \<Rightarrow> metaStore" where "meta_set i fm m = m(i \<mapsto> fm)"
definition meta_get :: "u64 \<Rightarrow> metaStore \<Rightarrow> fileMeta option" where "meta_get i m = m i"

record pendingLink =
  pl_fileID :: u64
  pl_rel :: bytes

record hardlinkMap =
  hl_keyToPath :: "u64 \<rightharpoonup> bytes"
  hl_fileKey :: "u64 \<rightharpoonup> u64"
  hl_seen :: "u64 set"
  hl_pending :: "u64 \<rightharpoonup> pendingLink list"

definition newHardlinkMap :: hardlinkMap where
  "newHardlinkMap = \<lparr>hl_keyToPath = Map.empty, hl_fileKey = Map.empty, hl_seen = {}, hl_pending = Map.empty\<rparr>"

definition pathFor :: "u64 \<Rightarrow> hardlinkMap \<Rightarrow> bytes option" where
  "pathFor key h = hl_keyToPath h key"

text \<open>The entry of a map of slices, nil when there is none.\<close>

definition parked :: "hardlinkMap \<Rightarrow> u64 \<Rightarrow> pendingLink list" where
  "parked h key = (case hl_pending h key of None \<Rightarrow> [] | Some ps \<Rightarrow> ps)"

definition claimSecondary :: "u64 \<Rightarrow> u64 \<Rightarrow> bytes \<Rightarrow> hardlinkMap \<Rightarrow> bool \<times> hardlinkMap" where
  "claimSecondary key fileID rel h =
     (if key \<notin> hl_seen h then (False, h)
      else if hl_keyToPath h key \<noteq> None then (False, h)
      else (True, h\<lparr>hl_pending := (hl_pending h)(key \<mapsto> parked h key @ [\<lparr>pl_fileID = fileID, pl_rel = rel\<rparr>])\<rparr>))"

definition markPrimary :: "u64 \<Rightarrow> u64 \<Rightarrow> hardlinkMap \<Rightarrow> hardlinkMap" where
  "markPrimary fileID key h = h\<lparr>hl_seen := insert key (hl_seen h), hl_fileKey := (hl_fileKey h)(fileID \<mapsto> key)\<rparr>"

definition clear :: "u64 \<Rightarrow> hardlinkMap \<Rightarrow> pendingLink list \<times> hardlinkMap" where
  "clear key h = (parked h key,
     h\<lparr>hl_keyToPath := (hl_keyToPath h)(key := None), hl_seen := hl_seen h - {key}, hl_pending := (hl_pending h)(key := None)\<rparr>)"

definition abandon :: "u64 \<Rightarrow> hardlinkMap \<Rightarrow> pendingLink list \<times> hardlinkMap" where
  "abandon fileID h = (case hl_fileKey h fileID of
     None \<Rightarrow> ([], h)
   | Some key \<Rightarrow> (parked h key,
       h\<lparr>hl_pending := (hl_pending h)(key := None), hl_keyToPath := (hl_keyToPath h)(key := None), hl_seen := hl_seen h - {key}\<rparr>))"

definition registerMaterialised :: "u64 \<Rightarrow> bytes \<Rightarrow> hardlinkMap \<Rightarrow> pendingLink list \<times> hardlinkMap" where
  "registerMaterialised fileID rel h = (case hl_fileKey h fileID of
     None \<Rightarrow> ([], h)
   | Some key \<Rightarrow>
       let h = (if hl_keyToPath h key = None then h\<lparr>hl_keyToPath := (hl_keyToPath h)(key \<mapsto> rel)\<rparr> else h)
       in (parked h key, h\<lparr>hl_pending := (hl_pending h)(key := None)\<rparr>))"

section \<open>Interleaved use\<close>

text \<open>
  What the workers do with the map, in any order, with a history: \<open>live\<close> are the primaries that are
  neither published nor abandoned yet, \<open>claimed\<close> every secondary that was parked, \<open>handed\<close> every
  secondary that a call returned to its caller (to be linked, fetched as content, or counted as failed).
\<close>

record hl_state =
  hs_map :: hardlinkMap
  hs_live :: "u64 set"
  hs_claimed :: "pendingLink multiset"
  hs_handed :: "pendingLink multiset"

definition hl_init :: hl_state where
  "hl_init = \<lparr>hs_map = newHardlinkMap, hs_live = {}, hs_claimed = {#}, hs_handed = {#}\<rparr>"

inductive hl_step :: "hl_state \<Rightarrow> hl_state \<Rightarrow> bool" where
  claim: "claimSecondary key f rel (hs_map s) = (b, h) \<Longrightarrow>
    hl_step s (s\<lparr>hs_map := h, hs_claimed := hs_claimed s + (if b then {#\<lparr>pl_fileID = f, pl_rel = rel\<rparr>#} else {#})\<rparr>)"
| mark: "hl_fileKey (hs_map s) f \<in> {None, Some key} \<Longrightarrow>
    hl_step s (s\<lparr>hs_map := markPrimary f key (hs_map s), hs_live := insert f (hs_live s)\<rparr>)"
| clear: "Hardlinks.clear key (hs_map s) = (ps, h) \<Longrightarrow>
    hl_step s (s\<lparr>hs_map := h, hs_handed := hs_handed s + mset ps\<rparr>)"
| publish: "registerMaterialised f rel (hs_map s) = (ps, h) \<Longrightarrow>
    hl_step s (s\<lparr>hs_map := h, hs_live := hs_live s - {f}, hs_handed := hs_handed s + mset ps\<rparr>)"
| abandon: "Hardlinks.abandon f (hs_map s) = (ps, h) \<Longrightarrow>
    hl_step s (s\<lparr>hs_map := h, hs_live := hs_live s - {f}, hs_handed := hs_handed s + mset ps\<rparr>)"

inductive hl_reach :: "hl_state \<Rightarrow> bool" where
  init: "hl_reach hl_init"
| step: "hl_reach s \<Longrightarrow> hl_step s s' \<Longrightarrow> hl_reach s'"

inductive_cases hl_stepE: "hl_step s s'"

text \<open>A key that is seen and has no path has a live primary; only such a key has parked secondaries.\<close>

definition waiting :: "hardlinkMap \<Rightarrow> u64 set" where
  "waiting h = {k. k \<in> hl_seen h \<and> hl_keyToPath h k = None}"

definition all_parked :: "(u64 \<rightharpoonup> pendingLink list) \<Rightarrow> pendingLink multiset" where
  "all_parked P = (\<Sum>k\<in>dom P. mset (the (P k)))"

lemma all_parked_remove:
  assumes "finite (dom P)"
  shows "all_parked P = all_parked (P(k := None)) + mset (case P k of None \<Rightarrow> [] | Some ps \<Rightarrow> ps)"
proof (cases "P k")
  case None
  then have "P(k := None) = P" by auto
  then show ?thesis using None by simp
next
  case (Some ps)
  then have "all_parked P = mset ps + (\<Sum>j\<in>dom P - {k}. mset (the (P j)))"
    unfolding all_parked_def by (subst sum.remove [OF assms, of k]) auto
  moreover have "(\<Sum>j\<in>dom P - {k}. mset (the (P j))) = all_parked (P(k := None))"
    unfolding all_parked_def by (rule sum.cong) auto
  ultimately show ?thesis using Some by simp
qed

lemma all_parked_update:
  assumes "finite (dom P)"
  shows "all_parked (P(k \<mapsto> ps)) = all_parked (P(k := None)) + mset ps"
  using all_parked_remove [of "P(k \<mapsto> ps)" k] assms by simp

definition hl_inv :: "hl_state \<Rightarrow> bool" where
  "hl_inv s \<longleftrightarrow> (\<forall>k\<in>waiting (hs_map s). \<exists>f\<in>hs_live s. hl_fileKey (hs_map s) f = Some k) \<and>
     (\<forall>k. parked (hs_map s) k \<noteq> [] \<longrightarrow> k \<in> waiting (hs_map s)) \<and>
     (\<forall>f\<in>hs_live s. hl_fileKey (hs_map s) f \<noteq> None) \<and> finite (dom (hl_pending (hs_map s))) \<and>
     hs_claimed s = all_parked (hl_pending (hs_map s)) + hs_handed s"

text \<open>Retiring a key (clear, abandon, publish) hands out exactly what was parked on it.\<close>

lemma retire_key:
  assumes inv: "hl_inv s" and pend: "hl_pending h = (hl_pending (hs_map s))(k := None)"
    and fk: "hl_fileKey h = hl_fileKey (hs_map s)"
    and w: "waiting h = waiting (hs_map s) - {k}"
    and live: "live \<subseteq> hs_live s" "\<forall>f\<in>hs_live s - live. hl_fileKey (hs_map s) f = Some k"
  shows "hl_inv (s\<lparr>hs_map := h, hs_live := live, hs_handed := hs_handed s + mset (parked (hs_map s) k)\<rparr>)"
proof -
  have fin: "finite (dom (hl_pending (hs_map s)))" using inv by (simp add: hl_inv_def)
  have pk: "parked h j = (if j = k then [] else parked (hs_map s) j)" for j by (simp add: parked_def pend)
  have "\<exists>f\<in>live. hl_fileKey h f = Some j" if j: "j \<in> waiting h" for j
  proof -
    obtain f where f: "f \<in> hs_live s" "hl_fileKey (hs_map s) f = Some j" using inv j w by (auto simp: hl_inv_def)
    then have "f \<in> live" using live(2) j w by fastforce
    then show ?thesis using f fk by auto
  qed
  moreover have "parked h j \<noteq> [] \<Longrightarrow> j \<in> waiting h" for j using inv w pk by (auto simp: hl_inv_def split: if_splits)
  moreover have "hs_claimed s = all_parked (hl_pending h) + (hs_handed s + mset (parked (hs_map s) k))"
    using inv all_parked_remove [OF fin, of k] by (simp add: hl_inv_def pend parked_def add_ac)
  ultimately show ?thesis using inv live(1) fk fin by (auto simp: hl_inv_def pend)
qed

lemma claim_inv:
  assumes inv: "hl_inv s" and run: "claimSecondary key f rel (hs_map s) = (b, h)"
  shows "hl_inv (s\<lparr>hs_map := h, hs_claimed := hs_claimed s + (if b then {#\<lparr>pl_fileID = f, pl_rel = rel\<rparr>#} else {#})\<rparr>)"
proof (cases b)
  case False
  then show ?thesis using inv run by (auto simp: claimSecondary_def split: if_splits)
next
  case True
  let ?p = "\<lparr>pl_fileID = f, pl_rel = rel\<rparr>" and ?P = "hl_pending (hs_map s)"
  have k: "key \<in> waiting (hs_map s)" and h: "h = (hs_map s)\<lparr>hl_pending := ?P(key \<mapsto> parked (hs_map s) key @ [?p])\<rparr>"
    using run True by (auto simp: claimSecondary_def waiting_def split: if_splits)
  have fin: "finite (dom ?P)" using inv by (simp add: hl_inv_def)
  have "all_parked (hl_pending h) = all_parked ?P + {#?p#}"
    using all_parked_update [OF fin, of key "parked (hs_map s) key @ [?p]"] all_parked_remove [OF fin, of key]
    by (simp add: h parked_def)
  moreover have "waiting h = waiting (hs_map s)" "hl_fileKey h = hl_fileKey (hs_map s)" by (simp_all add: h waiting_def)
  moreover have "parked h j = (if j = key then parked (hs_map s) key @ [?p] else parked (hs_map s) j)" for j
    by (simp add: h parked_def)
  ultimately show ?thesis using inv k fin True by (auto simp: hl_inv_def h split: if_splits)
qed

lemma mark_inv:
  assumes inv: "hl_inv s" and k: "hl_fileKey (hs_map s) f \<in> {None, Some key}"
  shows "hl_inv (s\<lparr>hs_map := markPrimary f key (hs_map s), hs_live := insert f (hs_live s)\<rparr>)"
proof -
  let ?h = "markPrimary f key (hs_map s)"
  have w: "waiting ?h \<subseteq> insert key (waiting (hs_map s))" "waiting (hs_map s) \<subseteq> waiting ?h"
    by (auto simp: waiting_def markPrimary_def)
  have fk: "hl_fileKey ?h g = (if g = f then Some key else hl_fileKey (hs_map s) g)" for g by (simp add: markPrimary_def)
  have "\<exists>g\<in>insert f (hs_live s). hl_fileKey ?h g = Some j" if "j \<in> waiting ?h" for j
  proof (cases "j = key")
    case False
    then have "j \<in> waiting (hs_map s)" using w(1) that by auto
    then obtain g where "g \<in> hs_live s" "hl_fileKey (hs_map s) g = Some j" using inv by (auto simp: hl_inv_def)
    moreover from this have "g \<noteq> f" using k False by auto
    ultimately show ?thesis using fk by (intro bexI [of _ g]) auto
  qed (use fk in auto)
  moreover have "parked ?h = parked (hs_map s)" "hl_pending ?h = hl_pending (hs_map s)"
    by (simp_all add: markPrimary_def parked_def fun_eq_iff)
  ultimately show ?thesis using inv w(2) fk by (auto simp: hl_inv_def)
qed

lemma hl_reach_inv: "hl_reach s \<Longrightarrow> hl_inv s"
proof (induction rule: hl_reach.induct)
  case init
  show ?case by (simp add: hl_init_def hl_inv_def newHardlinkMap_def waiting_def parked_def all_parked_def)
next
  case (step s s')
  from step(2) show ?case
  proof (cases rule: hl_step.cases)
    case (claim key f rel b h)
    then show ?thesis using claim_inv [OF step.IH] by simp
  next
    case (mark f key)
    then show ?thesis using mark_inv [OF step.IH] by simp
  next
    case (clear key ps h)
    then have "hl_inv (s\<lparr>hs_map := h, hs_live := hs_live s, hs_handed := hs_handed s + mset (parked (hs_map s) key)\<rparr>)"
      by (intro retire_key [OF step.IH]) (auto simp: clear_def waiting_def)
    then show ?thesis using clear by (simp add: clear_def)
  next
    case (publish f rel ps h)
    show ?thesis
    proof (cases "hl_fileKey (hs_map s) f")
      case None
      then have "f \<notin> hs_live s" using step.IH by (auto simp: hl_inv_def)
      then have "s' = s" using publish None by (auto simp: registerMaterialised_def)
      then show ?thesis using step.IH by simp
    next
      case (Some k)
      have "hl_inv (s\<lparr>hs_map := h, hs_live := hs_live s - {f}, hs_handed := hs_handed s + mset (parked (hs_map s) k)\<rparr>)"
        by (rule retire_key [OF step.IH]) (use publish Some in
            \<open>auto simp: registerMaterialised_def waiting_def Let_def split: if_splits\<close>)
      moreover have "ps = parked (hs_map s) k" using publish Some
        by (auto simp: registerMaterialised_def Let_def parked_def split: if_splits)
      ultimately show ?thesis using publish by simp
    qed
  next
    case (abandon f ps h)
    show ?thesis
    proof (cases "hl_fileKey (hs_map s) f")
      case None
      then have "f \<notin> hs_live s" using step.IH by (auto simp: hl_inv_def)
      then have "s' = s" using abandon None by (auto simp: abandon_def)
      then show ?thesis using step.IH by simp
    next
      case (Some k)
      have "hl_inv (s\<lparr>hs_map := h, hs_live := hs_live s - {f}, hs_handed := hs_handed s + mset (parked (hs_map s) k)\<rparr>)"
        by (rule retire_key [OF step.IH]) (use abandon Some in \<open>auto simp: abandon_def waiting_def\<close>)
      then show ?thesis using abandon Some by (simp add: abandon_def)
    qed
  qed
qed

text \<open>
  No hard-link secondary is lost or handled twice, under every interleaving of the decide and the
  fetch workers: each one that was parked is either still parked on a key whose primary is not resolved
  yet, or was returned to a caller exactly once; when no primary is outstanding, nothing is parked.
\<close>

theorem hardlinks_none_lost:
  assumes "hl_reach s"
  shows "hs_claimed s = all_parked (hl_pending (hs_map s)) + hs_handed s \<and>
    (\<forall>k. parked (hs_map s) k \<noteq> [] \<longrightarrow> (\<exists>f\<in>hs_live s. hl_fileKey (hs_map s) f = Some k)) \<and>
    (hs_live s = {} \<longrightarrow> hs_claimed s = hs_handed s)"
proof -
  have inv: "hl_inv s" by (rule hl_reach_inv [OF assms])
  have "all_parked (hl_pending (hs_map s)) = {#}" if "hs_live s = {}"
  proof -
    have "parked (hs_map s) k = []" for k using inv that by (auto simp: hl_inv_def)
    then have "mset (the (hl_pending (hs_map s) k)) = {#}" if "k \<in> dom (hl_pending (hs_map s))" for k
      using that by (force simp: parked_def split: option.splits)
    then show ?thesis by (simp add: all_parked_def)
  qed
  then show ?thesis using inv by (auto simp: hl_inv_def)
qed

definition sample_hl :: hl_state where
  "sample_hl = \<lparr>hs_map = \<lparr>hl_keyToPath = [7 \<mapsto> [1]], hl_fileKey = [0 \<mapsto> 7], hl_seen = {7}, hl_pending = Map.empty\<rparr>,
     hs_live = {}, hs_claimed = {#\<lparr>pl_fileID = 1, pl_rel = [2]\<rparr>#}, hs_handed = {#\<lparr>pl_fileID = 1, pl_rel = [2]\<rparr>#}\<rparr>"

lemma sample_hl_reach: "hl_reach sample_hl"
proof -
  let ?h1 = "markPrimary 0 7 newHardlinkMap"
  let ?s1 = "hl_init\<lparr>hs_map := ?h1, hs_live := {0}\<rparr>"
  have 1: "hl_reach ?s1"
    using hl_reach.step [OF hl_reach.init hl_step.mark [of hl_init 0 7]] by (simp add: hl_init_def newHardlinkMap_def)
  let ?h2 = "?h1\<lparr>hl_pending := [7 \<mapsto> [\<lparr>pl_fileID = 1, pl_rel = [2]\<rparr>]]\<rparr>"
  have "claimSecondary 7 1 [2] (hs_map ?s1) = (True, ?h2)"
    by (simp add: claimSecondary_def markPrimary_def newHardlinkMap_def parked_def)
  from hl_reach.step [OF 1 hl_step.claim [OF this]]
  have 2: "hl_reach (?s1\<lparr>hs_map := ?h2, hs_claimed := {#\<lparr>pl_fileID = 1, pl_rel = [2]\<rparr>#}\<rparr>)" (is "hl_reach ?s2")
    by (simp add: hl_init_def)
  have "registerMaterialised 0 [1] (hs_map ?s2) = ([\<lparr>pl_fileID = 1, pl_rel = [2]\<rparr>], hs_map sample_hl)"
    by (simp add: registerMaterialised_def markPrimary_def newHardlinkMap_def parked_def Let_def sample_hl_def)
  from hl_reach.step [OF 2 hl_step.publish [OF this]] show ?thesis by (simp add: hl_init_def sample_hl_def)
qed

theorem hardlinks_none_lost_witness: "hs_claimed sample_hl = hs_handed sample_hl"
  using hardlinks_none_lost [OF sample_hl_reach] by (simp add: sample_hl_def)

end
