(* ===== verification/Fetch.thy ===== *)
theory Fetch
  imports Need_Queue Dest Hardlinks Wire_Messages
begin

text \<open>
  The receiver's data-channel worker (\<^verbatim>\<open>internal/receiver/fetch.go\<close>): request a file, write its chunks to
  the part file, verify, publish, journal, link the waiting secondaries; and the loop that pops items
  and decides what becomes of each. The environment of one attempt is a record of inputs: the result of
  the send, the messages received (the list ends in end of file), the failing system calls, the hash.
\<close>

unbundle bit_operations_syntax

section \<open>Errors of a data channel\<close>

definition faultFromFileError :: "FileError \<Rightarrow> err" where
  "faultFromFileError fe =
     (let msg = (if fe_Message fe = [] then str ''sender reported a file error'' else fe_Message fe)
      in Newf (code_of_wire (fe_Code fe)) ''sender reported a file error'' [] None msg)"

definition channelLost :: "err \<Rightarrow> err" where "channelLost e = WrapErr ''channelLost'' e"
definition desynced :: "err \<Rightarrow> err" where "desynced e = WrapErr ''desynced'' e"

text \<open>\<^verbatim>\<open>errors.As\<close> for one of the two wrapper types.\<close>

fun has_wrap :: "string \<Rightarrow> err \<Rightarrow> bool" where
  "has_wrap w (WrapErr t e) \<longleftrightarrow> t = w \<or> has_wrap w e"
| "has_wrap w (FaultErr c cl r op sb cause d) \<longleftrightarrow> (case cause of None \<Rightarrow> False | Some e \<Rightarrow> has_wrap w e)"
| "has_wrap w (PlainErr s) \<longleftrightarrow> False"

definition transportData :: "err \<Rightarrow> err" where
  "transportData e = (if GetCode (Some e) \<noteq> [] then e else channelLost e)"

section \<open>State and environment\<close>

record journal_record =
  jr_FileID :: u64
  jr_Path :: bytes
  jr_Digest :: bytes
  jr_Size :: int

record fetcher =
  ft_tree :: tree
  ft_meta :: metaStore
  ft_hl :: hardlinkMap
  ft_fb :: fallback_env
  ft_journal :: "journal_record list option"
  ft_reqID :: u64
  ft_sent :: "FileRequest list"
  ft_bytes :: int
  ft_transferred :: nat
  ft_retries :: nat
  ft_retriesOK :: nat
  ft_completed :: "u64 list"
  ft_fatal :: "err option"

record fetch_io =
  io_send :: "err option"
  io_recv :: "(err + Message) list"
  io_sys :: outcomes
  io_truncate :: bool
  io_seek :: bool
  io_write :: "nat \<Rightarrow> errno option"
  io_close :: bool
  io_hash :: "err + (bytes \<Rightarrow> bytes)"
  io_journal :: bool

definition safeMaxChunk :: u32 where "safeMaxChunk = 2 ^ 20 - 8192"

definition io_EOF :: err where "io_EOF = PlainErr ''EOF''"

section \<open>Publishing\<close>

definition fallbackFetch :: "u32 \<Rightarrow> u64 \<Rightarrow> bytes \<Rightarrow> fetcher \<Rightarrow> fetcher" where
  "fallbackFetch groupID fileID rel f =
     f\<lparr>ft_fb := fetchInstead (\<lambda>i. map_option fm_size (meta_get i (ft_meta f))) groupID fileID rel (ft_fb f)\<rparr>"

fun linkOrFallback :: "outcomes \<Rightarrow> u32 \<Rightarrow> bytes \<Rightarrow> pendingLink list \<Rightarrow> fetcher \<Rightarrow> fetcher" where
  "linkOrFallback w groupID primaryRel [] f = f"
| "linkOrFallback w groupID primaryRel (sec # pending) f =
     (case MakeHardlink w (pl_rel sec) primaryRel (ft_tree f) of
        (None, t) \<Rightarrow> linkOrFallback w groupID primaryRel pending (f\<lparr>ft_tree := t\<rparr>)
      | (Some c, t) \<Rightarrow> linkOrFallback w groupID primaryRel pending
          (fallbackFetch groupID (pl_fileID sec) (pl_rel sec) (f\<lparr>ft_tree := t\<rparr>)))"

text \<open>After the publication: journal, links, counters, the completed list.\<close>

definition finish_tail :: "fetch_io \<Rightarrow> needItem \<Rightarrow> fileMeta \<Rightarrow> bytes \<Rightarrow> u64 \<Rightarrow> fetcher \<Rightarrow> err option \<times> fetcher" where
  "finish_tail io it fm local written f =
     (if ft_journal f \<noteq> None \<and> io_journal io then (Some (New E7007 ''journal write'' (str ''complete.log'') None), f)
      else let
        f = f\<lparr>ft_journal := map_option (\<lambda>j. j @ [\<lparr>jr_FileID = ni_fileID it, jr_Path = fm_rel fm, jr_Digest = local,
              jr_Size = i64_of_u64 written\<rparr>]) (ft_journal f)\<rparr>;
        f = (if fm_hasHLKey fm then
               (case registerMaterialised (ni_fileID it) (fm_rel fm) (ft_hl f) of
                  (ps, h) \<Rightarrow> linkOrFallback (io_sys io) (ni_groupID it) (fm_rel fm) ps (f\<lparr>ft_hl := h\<rparr>))
             else f)
      in (None, f\<lparr>ft_transferred := ft_transferred f + 1,
            ft_retriesOK := (if ni_attempt it > 0 then ft_retriesOK f + 1 else ft_retriesOK f),
            ft_completed := ft_completed f @ [ni_fileID it]\<rparr>))"

definition verify :: "fileMeta \<Rightarrow> FileHeader \<Rightarrow> FileComplete \<Rightarrow> bytes \<Rightarrow> u64 \<Rightarrow> Code option" where
  "verify fm hdr fc local written =
     (if written \<noteq> fh_Size hdr then Some E8002
      else if length (fp_DigestFull fc) > 0 \<and> local \<noteq> fp_DigestFull fc then Some E8001
      else if length (fm_digest fm) > 0 \<and> local \<noteq> fm_digest fm then Some E8003
      else if length (fh_Digest hdr) > 0 \<and> local \<noteq> fh_Digest hdr then Some E8003
      else None)"

definition finish :: "fetch_io \<Rightarrow> needItem \<Rightarrow> fileMeta \<Rightarrow> FileHeader \<Rightarrow> FileComplete \<Rightarrow> bytes \<Rightarrow> u64 \<Rightarrow> fetcher \<Rightarrow>
    err option \<times> fetcher" where
  "finish io it fm hdr fc local written f = (case verify fm hdr fc local written of
     Some c \<Rightarrow> (Some (New c ''verify'' (fm_rel fm) None), f)
   | None \<Rightarrow>
       let mode = (if fm_mode fm = 0 then fh_Mode hdr AND 0x1FF else fm_mode fm) in
       case PublishPart (io_sys io) (ni_fileID it) (fm_rel fm) mode (fm_mtime fm) (ft_tree f) of
         (r, t) \<Rightarrow>
           let f = f\<lparr>ft_tree := t\<rparr> in
           case r of
             None \<Rightarrow> finish_tail io it fm local written f
           | Some c \<Rightarrow> if c = E7006 then finish_tail io it fm local written f
                       else (Some (New c ''atomic publish'' (fm_rel fm) None), f))"

section \<open>One attempt\<close>

text \<open>
  The receive loop: \<open>n\<close> counts the writes, \<open>acc\<close> is what has been hashed. The result has the final value
  of \<^verbatim>\<open>streaming\<close>: whether the sender may still be writing chunks of this request.
\<close>

fun recv_loop :: "fetch_io \<Rightarrow> needItem \<Rightarrow> fileMeta \<Rightarrow> FileHeader \<Rightarrow> (bytes \<Rightarrow> bytes) \<Rightarrow> (err + Message) list \<Rightarrow>
    nat \<Rightarrow> bytes \<Rightarrow> u64 \<Rightarrow> fetcher \<Rightarrow> bool \<times> err option \<times> fetcher" where
  "recv_loop io it fm hdr H [] n acc written f = (True, Some (transportData io_EOF), f)"
| "recv_loop io it fm hdr H (Inl e # ms) n acc written f = (True, Some (transportData e), f)"
| "recv_loop io it fm hdr H (Inr m # ms) n acc written f = (case m of
     M_FileChunk v \<Rightarrow>
       if fc_Offset v \<noteq> written then (True, Some (New E5006 ''verify chunk offset'' (fm_rel fm) None), f)
       else (case io_write io n of
         Some er \<Rightarrow> (True, Some (New (if er = ENOSPC then E7003 else E7004) ''write part file'' (fm_rel fm) None), f)
       | None \<Rightarrow>
           let part = partName (ni_fileID it);
               t = (case ft_tree f part of Some (File c md mt) \<Rightarrow> (ft_tree f)(part \<mapsto> File (c @ fc_Data v) md mt) | _ \<Rightarrow> ft_tree f)
           in recv_loop io it fm hdr H ms (n + 1) (acc @ fc_Data v) (written + word_of_nat (length (fc_Data v)))
                (f\<lparr>ft_tree := t, ft_bytes := ft_bytes f + int (length (fc_Data v))\<rparr>))
   | M_FileComplete v \<Rightarrow>
       if io_close io then (False, Some (New E7004 ''close part file'' (fm_rel fm) None), f)
       else (False, finish io it fm hdr v (H acc) written f)
   | M_FileError v \<Rightarrow> (False, Some (faultFromFileError v), f)
   | _ \<Rightarrow> (True, Some (New E5001 ''receive file content'' (str (MsgType_String (Type m))) None), f))"

text \<open>The header has arrived: open and truncate the part file, then receive.\<close>

definition fetch_content :: "fetch_io \<Rightarrow> needItem \<Rightarrow> fileMeta \<Rightarrow> FileHeader \<Rightarrow> (err + Message) list \<Rightarrow> fetcher \<Rightarrow>
    bool \<times> err option \<times> fetcher" where
  "fetch_content io it fm hdr ms f = (case OpenPart (io_sys io) (ni_fileID it) (ft_tree f) of
     (Some c, t) \<Rightarrow> (True, Some (New c ''open part file'' [] None), f\<lparr>ft_tree := t\<rparr>)
   | (None, t) \<Rightarrow>
       if io_truncate io then (True, Some (New E7004 ''truncate part file'' (fm_rel fm) None), f\<lparr>ft_tree := t\<rparr>)
       else let
         part = partName (ni_fileID it);
         f = f\<lparr>ft_tree := (case t part of Some (File c md mt) \<Rightarrow> t(part \<mapsto> File [] md mt) | _ \<Rightarrow> t)\<rparr>
       in if io_seek io then (True, Some (New E7004 ''seek part file'' (fm_rel fm) None), f)
          else case io_hash io of
            Inl e \<Rightarrow> (True, Some e, f)
          | Inr H \<Rightarrow> recv_loop io it fm hdr H ms 0 [] 0 f)"

definition file_request :: "u64 \<Rightarrow> u64 \<Rightarrow> FileRequest" where
  "file_request reqID fileID = \<lparr>fq_RequestID = reqID, fq_FileID = fileID, fq_Offset = 0, fq_MaxChunk = safeMaxChunk\<rparr>"

definition fetch_body :: "fetch_io \<Rightarrow> needItem \<Rightarrow> fetcher \<Rightarrow> bool \<times> err option \<times> fetcher" where
  "fetch_body io it f = (case meta_get (ni_fileID it) (ft_meta f) of
     None \<Rightarrow> (False, Some (New E5001 ''fetch file'' (FormatUint (unat (ni_fileID it)) 10) None), f)
   | Some fm \<Rightarrow>
       let reqID = ft_reqID f + 1; f = f\<lparr>ft_reqID := reqID\<rparr> in
       case io_send io of
         Some e \<Rightarrow> (False, Some (transportData e), f)
       | None \<Rightarrow>
           let f = f\<lparr>ft_sent := ft_sent f @ [file_request reqID (ni_fileID it)]\<rparr> in
           case io_recv io of
             [] \<Rightarrow> (False, Some (transportData io_EOF), f)
           | Inl e # ms \<Rightarrow> (False, Some (transportData e), f)
           | Inr m # ms \<Rightarrow> (case m of
               M_FileHeader hdr \<Rightarrow> fetch_content io it fm hdr ms f
             | M_FileError v \<Rightarrow> (False, Some (faultFromFileError v), f)
             | _ \<Rightarrow> (False, Some (New E5001 ''await FILE_HEADER'' (str (MsgType_String (Type m))) None), f)))"

definition fetchOne :: "fetch_io \<Rightarrow> needItem \<Rightarrow> fetcher \<Rightarrow> err option \<times> fetcher" where
  "fetchOne io it f = (case fetch_body io it f of
     (streaming, Some e, f) \<Rightarrow> (Some (if streaming then desynced e else e), f)
   | (streaming, None, f) \<Rightarrow> (None, f))"

section \<open>The worker loop\<close>

definition on_queue :: "(needQueue \<Rightarrow> needQueue) \<Rightarrow> fetcher \<Rightarrow> fetcher" where
  "on_queue g f = f\<lparr>ft_fb := (ft_fb f)\<lparr>fb_queue := g (fb_queue (ft_fb f))\<rparr>\<rparr>"

definition count_failed :: "nat \<Rightarrow> fetcher \<Rightarrow> fetcher" where
  "count_failed n f = f\<lparr>ft_fb := (ft_fb f)\<lparr>fb_failed := fb_failed (ft_fb f) + n\<rparr>\<rparr>"

definition session_fail :: "err \<Rightarrow> fetcher \<Rightarrow> fetcher" where
  "session_fail e f = f\<lparr>ft_fatal := (case ft_fatal f of None \<Rightarrow> Some e | Some e0 \<Rightarrow> Some e0)\<rparr>"

datatype loop_ctl = LoopNext | LoopExit bool

text \<open>
  What becomes of the item: \<open>ctxDone\<close> is \<^verbatim>\<open>ctx.Err() != nil\<close> after the attempt, \<open>stopped\<close> is cancellation
  during the backoff. \<open>LoopExit lost\<close> is the return of the loop.
\<close>

definition after_fetch :: "nat \<Rightarrow> bool \<Rightarrow> bool \<Rightarrow> needItem \<Rightarrow> err option \<Rightarrow> fetcher \<Rightarrow> loop_ctl \<times> fetcher" where
  "after_fetch maxRetries ctxDone stopped it r f = (case r of
     None \<Rightarrow> (LoopNext, on_queue (queue_done (ni_groupID it)) f)
   | Some e \<Rightarrow>
       if ctxDone then (LoopExit False, on_queue (requeue it) f)
       else if has_wrap ''channelLost'' e then
         (LoopExit True, (on_queue (requeue it) f)\<lparr>ft_retries := ft_retries f + 1\<rparr>)
       else let dropChannel = has_wrap ''desynced'' e in
         if IsFatal (Some e) then (LoopExit False, on_queue (queue_done (ni_groupID it)) (session_fail e f))
         else if IsRetryable (Some e) \<and> ni_attempt it + 1 \<le> maxRetries then
           let f = f\<lparr>ft_retries := ft_retries f + 1\<rparr>; it = it\<lparr>ni_attempt := ni_attempt it + 1\<rparr> in
           if stopped then (LoopExit False, on_queue (requeue it) f)
           else (if dropChannel then LoopExit True else LoopNext, on_queue (requeue it) f)
         else
           let (orphans, h) = abandon (ni_fileID it) (ft_hl f);
               f = count_failed (1 + length orphans) (f\<lparr>ft_hl := h\<rparr>)
           in (if dropChannel then LoopExit True else LoopNext, on_queue (queue_done (ni_groupID it)) f))"

text \<open>The loop on a sequence of attempt environments; \<open>None\<close>: still running or waiting for an item.\<close>

fun fetch_loop :: "nat \<Rightarrow> (fetch_io \<times> bool \<times> bool) list \<Rightarrow> fetcher \<Rightarrow> bool option \<times> fetcher" where
  "fetch_loop maxRetries [] f = (None, f)"
| "fetch_loop maxRetries ((io, ctxDone, stopped) # rest) f = (case pop (fb_queue (ft_fb f)) of
     PopEnd \<Rightarrow> (Some False, f)
   | PopWait \<Rightarrow> (None, f)
   | PopItem it q \<Rightarrow>
       case fetchOne io it (on_queue (\<lambda>_. q) f) of
         (r, f) \<Rightarrow> (case after_fetch maxRetries ctxDone stopped it r f of
           (LoopExit lost, f) \<Rightarrow> (Some lost, f)
         | (LoopNext, f) \<Rightarrow> fetch_loop maxRetries rest f))"

section \<open>What an attempt does to the tree\<close>

text \<open>\<open>only_at A t t'\<close>: outside the paths of \<open>A\<close>, \<open>t'\<close> has what \<open>t\<close> has and possibly more directories.\<close>

definition only_at :: "bytes set \<Rightarrow> tree \<Rightarrow> tree \<Rightarrow> bool" where
  "only_at A t t' \<longleftrightarrow> (\<forall>q. q \<notin> A \<longrightarrow> t' q = t q \<or> t q = None \<and> t' q = Some new_dir)"

lemma only_at_refl [simp]: "only_at A t t" by (simp add: only_at_def)

lemma only_at_trans: "only_at A t t1 \<Longrightarrow> only_at B t1 t2 \<Longrightarrow> only_at (A \<union> B) t t2"
  unfolding only_at_def by (metis UnCI)

lemma only_at_mono: "only_at A t t' \<Longrightarrow> A \<subseteq> B \<Longrightarrow> only_at B t t'"
  unfolding only_at_def by blast

lemma only_at_keep: "only_at A t t' \<Longrightarrow> q \<notin> A \<Longrightarrow> t q = Some n \<Longrightarrow> t' q = Some n"
  unfolding only_at_def by (metis option.distinct(1))

lemma only_at_upd: "only_at A t t1 \<Longrightarrow> p \<in> A \<Longrightarrow> only_at A t (t1(p := x))"
  by (auto simp: only_at_def)

lemma only_at_upd_iff: "p \<in> A \<Longrightarrow> only_at A (t(p := x)) t1 \<longleftrightarrow> only_at A t t1"
  by (auto simp: only_at_def)

lemma grows_only_at: "grows t t' \<Longrightarrow> only_at A t t'"
  by (simp add: grows_def only_at_def)

lemma MakeHardlink_only: "MakeHardlink w rel old t = (r, t') \<Longrightarrow> only_at {rel} t t'"
proof -
  assume run: "MakeHardlink w rel old t = (r, t')"
  have rm: "only_at {rel} t1 (case Remove w rel t1 of Inl _ \<Rightarrow> t1 | Inr t \<Rightarrow> t)" for t1
    by (auto simp: Remove_def only_at_def split: option.splits sum.splits)
  have lk: "Link w old rel t1 = Inr t2 \<Longrightarrow> only_at {rel} t1 t2" for t1 t2
    by (auto simp: Link_def create_node_def only_at_def split: option.splits if_splits)
  consider "t' = t" | t1 where "grows t t1" "t' = (case Remove w rel t1 of Inl _ \<Rightarrow> t1 | Inr t \<Rightarrow> t)"
    | t1 where "grows t t1" "Link w old rel (case Remove w rel t1 of Inl _ \<Rightarrow> t1 | Inr t \<Rightarrow> t) = Inr t'"
    using run unfolding MakeHardlink_def Let_def by (auto split: option.splits sum.splits dest: mkParents_grows)
  then show ?thesis
  proof cases
    case 2
    then show ?thesis using only_at_trans [OF grows_only_at [OF 2(1)] rm [of t1], of "{rel}"] by simp
  next
    case 3
    then show ?thesis using only_at_trans [OF only_at_trans [OF grows_only_at [OF 3(1)] rm [of t1]] lk [OF 3(2)], of "{rel}"] by simp
  qed simp
qed

lemma OpenPart_ok:
  assumes "OpenPart w fid t = (r, t')"
  shows "only_at {partName fid} t t'" "r = None \<Longrightarrow> \<exists>c m mt. t' (partName fid) = Some (File c m mt)"
proof -
  have g: "MkdirAll w p t = Inr t1 \<Longrightarrow> only_at {partName fid} t t1" for p t1
    by (auto simp: MkdirAll_def split: option.splits dest: add_dirs_grows grows_only_at)
  show "only_at {partName fid} t t'"
    using assms g unfolding OpenPart_def Let_def
    by (auto split: sum.splits option.splits node.splits intro: only_at_upd)
  show "r = None \<Longrightarrow> \<exists>c m mt. t' (partName fid) = Some (File c m mt)"
    using assms unfolding OpenPart_def Let_def by (auto split: sum.splits option.splits node.splits)
qed

definition has_content :: "tree \<Rightarrow> bytes \<Rightarrow> bytes \<Rightarrow> bool" where
  "has_content t p c \<longleftrightarrow> (case t p of Some (File c' _ _) \<Rightarrow> c' = c | _ \<Rightarrow> False)"

lemma has_contentI: "t p = Some (File c m mt) \<Longrightarrow> has_content t p c"
  by (simp add: has_content_def)

lemma has_content_keep: "only_at A t t' \<Longrightarrow> p \<notin> A \<Longrightarrow> has_content t p c \<Longrightarrow> has_content t' p c"
  unfolding has_content_def only_at_def by (cases "t p") (auto split: node.splits)

text \<open>The content received before the terminal message.\<close>

fun recv_data :: "(err + Message) list \<Rightarrow> bytes" where
  "recv_data (Inr (M_FileChunk v) # ms) = fc_Data v @ recv_data ms"
| "recv_data _ = []"

text \<open>The fields that receiving chunks does not touch.\<close>

definition same_but_tree :: "fetcher \<Rightarrow> fetcher \<Rightarrow> bool" where
  "same_but_tree f f' \<longleftrightarrow> (\<exists>t n. f' = f\<lparr>ft_tree := t, ft_bytes := n\<rparr>)"

lemma same_but_tree_refl [simp]: "same_but_tree f f"
  unfolding same_but_tree_def by (intro exI [of _ "ft_tree f"] exI [of _ "ft_bytes f"]) simp

lemma same_but_tree_step: "same_but_tree (f\<lparr>ft_tree := t, ft_bytes := n\<rparr>) f' \<Longrightarrow> same_but_tree f f'"
  by (auto simp: same_but_tree_def)

lemma same_but_tree_sel:
  "same_but_tree f f' \<Longrightarrow> ft_meta f' = ft_meta f \<and> ft_hl f' = ft_hl f \<and> ft_fb f' = ft_fb f \<and> ft_journal f' = ft_journal f \<and>
     ft_completed f' = ft_completed f \<and> ft_sent f' = ft_sent f \<and> ft_reqID f' = ft_reqID f \<and> ft_fatal f' = ft_fatal f \<and>
     ft_transferred f' = ft_transferred f"
  by (auto simp: same_but_tree_def)

lemma recv_loop_cases:
  assumes "recv_loop io it fm hdr H ms n acc written f = (s, r, f')"
    and "ft_tree f (partName (ni_fileID it)) = Some (File c md mt)"
  shows "(r \<noteq> None \<and> same_but_tree f f' \<and> only_at {partName (ni_fileID it)} (ft_tree f) (ft_tree f')) \<or>
    (\<exists>fc f1. \<not> s \<and> finish io it fm hdr fc (H (acc @ recv_data ms)) (written + word_of_nat (length (recv_data ms))) f1 = (r, f') \<and>
       same_but_tree f f1 \<and> ft_tree f1 = (ft_tree f)(partName (ni_fileID it) \<mapsto> File (c @ recv_data ms) md mt))"
  using assms
proof (induction ms arbitrary: n acc written f c)
  case Nil
  then show ?case by auto
next
  case (Cons x ms)
  show ?case
  proof (cases x)
    case (Inl e)
    then show ?thesis using Cons.prems by auto
  next
    case (Inr m)
    have same: "(ft_tree f)(partName (ni_fileID it) \<mapsto> File c md mt) = ft_tree f" using Cons.prems(2) by auto
    show ?thesis
    proof (cases m)
      case (M_FileChunk v)
      let ?f = "f\<lparr>ft_tree := (ft_tree f)(partName (ni_fileID it) \<mapsto> File (c @ fc_Data v) md mt),
        ft_bytes := ft_bytes f + int (length (fc_Data v))\<rparr>"
      show ?thesis
      proof (cases "fc_Offset v = written \<and> io_write io n = None")
        case True
        then have run: "recv_loop io it fm hdr H ms (n + 1) (acc @ fc_Data v) (written + word_of_nat (length (fc_Data v))) ?f = (s, r, f')"
          using Cons.prems Inr M_FileChunk by (simp add: Let_def)
        have at: "ft_tree ?f (partName (ni_fileID it)) = Some (File (c @ fc_Data v) md mt)" by simp
        have d: "recv_data (x # ms) = fc_Data v @ recv_data ms" by (simp add: Inr M_FileChunk)
        from Cons.IH [OF run at] show ?thesis
        proof (elim disjE exE conjE)
          assume "r \<noteq> None" "same_but_tree ?f f'" "only_at {partName (ni_fileID it)} (ft_tree ?f) (ft_tree f')"
          then show ?thesis using same_but_tree_step by (simp add: only_at_upd_iff)
        next
          fix fc f1
          assume "\<not> s" "finish io it fm hdr fc (H ((acc @ fc_Data v) @ recv_data ms))
              (written + word_of_nat (length (fc_Data v)) + word_of_nat (length (recv_data ms))) f1 = (r, f')"
            "same_but_tree ?f f1"
            "ft_tree f1 = (ft_tree ?f)(partName (ni_fileID it) \<mapsto> File ((c @ fc_Data v) @ recv_data ms) md mt)"
          then show ?thesis unfolding d using same_but_tree_step
            by (intro disjI2 exI [of _ fc] exI [of _ f1]) (auto simp: add.assoc)
        qed
      next
        case False
        then show ?thesis using Cons.prems Inr M_FileChunk by (auto split: if_splits option.splits)
      qed
    next
      case (M_FileComplete v)
      have d: "recv_data (x # ms) = []" by (simp add: Inr M_FileComplete)
      show ?thesis
      proof (cases "io_close io")
        case False
        then have "\<not> s" "finish io it fm hdr v (H acc) written f = (r, f')" using Cons.prems(1) Inr M_FileComplete by auto
        then show ?thesis unfolding d using same by (intro disjI2 exI [of _ v] exI [of _ f]) simp
      qed (use Cons.prems Inr M_FileComplete in auto)
    qed (use Cons.prems Inr in auto)
  qed
qed

section \<open>Links and fallbacks\<close>

text \<open>The queue after some fallback items were added.\<close>

definition queue_plus :: "needQueue \<Rightarrow> needQueue \<Rightarrow> bool" where
  "queue_plus q q' \<longleftrightarrow> (\<exists>xs. q' = fold pushFallback xs q)"

lemma queue_plus_refl [simp]: "queue_plus q q" unfolding queue_plus_def by (intro exI [of _ "[]"]) simp

lemma queue_plus_trans: "queue_plus q q1 \<Longrightarrow> queue_plus q1 q2 \<Longrightarrow> queue_plus q q2"
  unfolding queue_plus_def by (metis comp_apply fold_append)

lemma fetchInstead_queue: "queue_plus (fb_queue d) (fb_queue (fetchInstead m g i rel d))"
proof -
  have "queue_plus q (pushFallback x q)" for q x unfolding queue_plus_def by (intro exI [of _ "[x]"]) simp
  then show ?thesis by (auto simp: fetchInstead_def Let_def split: option.splits prod.splits)
qed

lemma fallbackFetch_sel [simp]:
  "ft_tree (fallbackFetch g i rel f) = ft_tree f" "ft_meta (fallbackFetch g i rel f) = ft_meta f"
  "ft_hl (fallbackFetch g i rel f) = ft_hl f" "ft_journal (fallbackFetch g i rel f) = ft_journal f"
  "ft_completed (fallbackFetch g i rel f) = ft_completed f"
  by (simp_all add: fallbackFetch_def)

lemma linkOrFallback_effect:
  "only_at (pl_rel ` set ps) (ft_tree f) (ft_tree (linkOrFallback w g prim ps f)) \<and>
   ft_completed (linkOrFallback w g prim ps f) = ft_completed f \<and> ft_journal (linkOrFallback w g prim ps f) = ft_journal f \<and>
   queue_plus (fb_queue (ft_fb f)) (fb_queue (ft_fb (linkOrFallback w g prim ps f)))"
proof (induction ps arbitrary: f)
  case (Cons p ps)
  obtain r t where run: "MakeHardlink w (pl_rel p) prim (ft_tree f) = (r, t)" by fastforce
  define f1 where "f1 = (case r of None \<Rightarrow> f\<lparr>ft_tree := t\<rparr> | Some c \<Rightarrow> fallbackFetch g (pl_fileID p) (pl_rel p) (f\<lparr>ft_tree := t\<rparr>))"
  have f1: "ft_tree f1 = t" "ft_completed f1 = ft_completed f" "ft_journal f1 = ft_journal f"
    "queue_plus (fb_queue (ft_fb f)) (fb_queue (ft_fb f1))"
    using fetchInstead_queue by (auto simp: f1_def fallbackFetch_def split: option.splits)
  have eq: "linkOrFallback w g prim (p # ps) f = linkOrFallback w g prim ps f1" by (simp add: run f1_def split: option.splits)
  have "only_at ({pl_rel p} \<union> pl_rel ` set ps) (ft_tree f) (ft_tree (linkOrFallback w g prim ps f1))"
    using only_at_trans [OF MakeHardlink_only [OF run]] Cons.IH [of f1] f1(1) by simp
  then show ?case unfolding eq using Cons.IH [of f1] f1 queue_plus_trans by auto
qed simp

text \<open>The secondaries that the publication of a file releases.\<close>

definition released :: "fetcher \<Rightarrow> needItem \<Rightarrow> pendingLink list" where
  "released f it = fst (registerMaterialised (ni_fileID it) [] (ft_hl f))"

lemma registerMaterialised_fst: "fst (registerMaterialised i rel h) = fst (registerMaterialised i [] h)"
  by (simp add: registerMaterialised_def Let_def parked_def split: option.splits)

lemma finish_tail_cases:
  assumes "finish_tail io it fm local written f = (r, f')"
  shows "(r = Some (New E7007 ''journal write'' (str ''complete.log'') None) \<and> f' = f) \<or>
    (r = None \<and> only_at (pl_rel ` set (released f it)) (ft_tree f) (ft_tree f') \<and>
     ft_completed f' = ft_completed f @ [ni_fileID it] \<and> queue_plus (fb_queue (ft_fb f)) (fb_queue (ft_fb f')) \<and>
     ft_journal f' = map_option (\<lambda>j. j @ [\<lparr>jr_FileID = ni_fileID it, jr_Path = fm_rel fm, jr_Digest = local,
              jr_Size = i64_of_u64 written\<rparr>]) (ft_journal f))"
proof (cases "ft_journal f \<noteq> None \<and> io_journal io")
  case True
  then show ?thesis using assms by (simp add: finish_tail_def)
next
  case False
  let ?f = "f\<lparr>ft_journal := map_option (\<lambda>j. j @ [\<lparr>jr_FileID = ni_fileID it, jr_Path = fm_rel fm, jr_Digest = local,
              jr_Size = i64_of_u64 written\<rparr>]) (ft_journal f)\<rparr>"
  obtain ps h where reg: "registerMaterialised (ni_fileID it) (fm_rel fm) (ft_hl f) = (ps, h)" by fastforce
  then have ps: "ps = released f it" unfolding released_def using registerMaterialised_fst by (metis fst_conv)
  note L = linkOrFallback_effect [of ps "?f\<lparr>ft_hl := h\<rparr>" "io_sys io" "ni_groupID it" "fm_rel fm"]
  show ?thesis
    using assms False reg L unfolding finish_tail_def Let_def ps by (cases "fm_hasHLKey fm") auto
qed

lemma finish_cases:
  assumes run: "finish io it fm hdr fc local written f = (r, f')"
    and part: "ft_tree f (partName (ni_fileID it)) = Some (File c md mt)"
    and ne: "fm_rel fm \<noteq> partName (ni_fileID it)" "\<forall>p\<in>set (released f it). pl_rel p \<noteq> fm_rel fm"
  shows "(r \<noteq> None \<and> ft_completed f' = ft_completed f \<and> fb_queue (ft_fb f') = fb_queue (ft_fb f) \<and>
      (GetCode r = E7007 \<or> only_at {partName (ni_fileID it)} (ft_tree f) (ft_tree f'))) \<or>
    (r = None \<and> verify fm hdr fc local written = None \<and> has_content (ft_tree f') (fm_rel fm) c \<and>
      ft_completed f' = ft_completed f @ [ni_fileID it] \<and> queue_plus (fb_queue (ft_fb f)) (fb_queue (ft_fb f')))"
proof (cases "verify fm hdr fc local written")
  case (Some code)
  then show ?thesis using run by (auto simp: finish_def)
next
  case None
  obtain r1 t where pub: "PublishPart (io_sys io) (ni_fileID it) (fm_rel fm)
      (if fm_mode fm = 0 then fh_Mode hdr AND 0x1FF else fm_mode fm) (fm_mtime fm) (ft_tree f) = (r1, t)" by fastforce
  let ?f = "f\<lparr>ft_tree := t\<rparr>"
  have run': "(case r1 of None \<Rightarrow> finish_tail io it fm local written ?f
      | Some c \<Rightarrow> if c = E7006 then finish_tail io it fm local written ?f
                  else (Some (New c ''atomic publish'' (fm_rel fm) None), ?f)) = (r, f')"
    using run None pub by (simp add: finish_def Let_def)
  show ?thesis
  proof (cases "r1 = None \<or> r1 = Some E7006")
    case True
    have at: "has_content t (fm_rel fm) c" using PublishPart_cases [OF pub part] True
      by (elim disjE conjE exE) (simp_all add: has_content_def)
    have tail: "finish_tail io it fm local written ?f = (r, f')" using run' True by (auto split: if_splits)
    have "released ?f it = released f it" by (simp add: released_def)
    then have keep: "only_at (pl_rel ` set (released ?f it)) t t2 \<Longrightarrow> has_content t2 (fm_rel fm) c" for t2
      using has_content_keep [OF _ _ at, where A = "pl_rel ` set (released ?f it)"] ne(2) by fastforce
    from finish_tail_cases [OF tail] show ?thesis
    proof (elim disjE conjE)
      assume "r = Some (New E7007 ''journal write'' (str ''complete.log'') None)" "f' = ?f"
      then show ?thesis by (simp add: GetCode_def)
    next
      assume ok: "r = None" "ft_completed f' = ft_completed ?f @ [ni_fileID it]"
        "queue_plus (fb_queue (ft_fb ?f)) (fb_queue (ft_fb f'))"
        and "only_at (pl_rel ` set (released ?f it)) (ft_tree ?f) (ft_tree f')"
      then have "has_content (ft_tree f') (fm_rel fm) c" using keep by simp
      then show ?thesis using ok None by simp
    qed
  next
    case False
    then have "r \<noteq> None" "f' = ?f" using run' by (auto split: option.splits if_splits)
    moreover have "only_at {partName (ni_fileID it)} (ft_tree f) t"
      using PublishPart_cases [OF pub part] False by (auto intro: only_at_upd [OF grows_only_at])
    ultimately show ?thesis by simp
  qed
qed

section \<open>Soundness of one attempt\<close>

lemma fetch_content_cases:
  assumes run: "fetch_content io it fm hdr ms f = (s, r, f')"
    and ne: "fm_rel fm \<noteq> partName (ni_fileID it)" "\<forall>p\<in>set (released f it). pl_rel p \<noteq> fm_rel fm"
  shows "(r \<noteq> None \<and> ft_completed f' = ft_completed f \<and> fb_queue (ft_fb f') = fb_queue (ft_fb f) \<and>
      (GetCode r = E7007 \<or> only_at {partName (ni_fileID it)} (ft_tree f) (ft_tree f'))) \<or>
    (\<exists>H fc. r = None \<and> io_hash io = Inr H \<and>
      verify fm hdr fc (H (recv_data ms)) (word_of_nat (length (recv_data ms))) = None \<and>
      has_content (ft_tree f') (fm_rel fm) (recv_data ms) \<and>
      ft_completed f' = ft_completed f @ [ni_fileID it] \<and> queue_plus (fb_queue (ft_fb f)) (fb_queue (ft_fb f')))"
proof -
  let ?p = "partName (ni_fileID it)"
  obtain r0 t where op: "OpenPart (io_sys io) (ni_fileID it) (ft_tree f) = (r0, t)" by fastforce
  note O = OpenPart_ok [OF op]
  show ?thesis
  proof (cases "r0 = None \<and> \<not> io_truncate io")
    case False
    then have "r \<noteq> None" "f' = f\<lparr>ft_tree := t\<rparr>"
      using run op by (auto simp: fetch_content_def split: option.splits)
    then show ?thesis using O(1) by simp
  next
    case True
    then obtain c md mt where at: "t ?p = Some (File c md mt)" using O(2) by blast
    let ?f = "f\<lparr>ft_tree := t(?p \<mapsto> File [] md mt)\<rparr>"
    have only: "only_at {?p} (ft_tree f) (ft_tree ?f)" using O(1) by (simp add: only_at_upd)
    have body: "(if io_seek io then (True, Some (New E7004 ''seek part file'' (fm_rel fm) None), ?f)
        else case io_hash io of Inl e \<Rightarrow> (True, Some e, ?f) | Inr H \<Rightarrow> recv_loop io it fm hdr H ms 0 [] 0 ?f) = (s, r, f')"
      using run op True at by (simp add: fetch_content_def Let_def cong: if_cong sum.case_cong)
    show ?thesis
    proof (cases "\<not> io_seek io \<and> (\<exists>H. io_hash io = Inr H)")
      case False
      then have "r \<noteq> None" "f' = ?f" using body by (auto split: if_splits sum.splits)
      then show ?thesis using only by simp
    next
      case True
      then obtain H where H: "io_hash io = Inr H" and loop: "recv_loop io it fm hdr H ms 0 [] 0 ?f = (s, r, f')" using body by auto
      have at': "ft_tree ?f ?p = Some (File [] md mt)" by simp
      from recv_loop_cases [OF loop at'] show ?thesis
      proof (elim disjE exE conjE)
        assume "r \<noteq> None" "same_but_tree ?f f'" "only_at {?p} (ft_tree ?f) (ft_tree f')"
        then show ?thesis using only_at_trans [OF only] same_but_tree_sel by fastforce
      next
        fix fc f1
        assume fin: "finish io it fm hdr fc (H ([] @ recv_data ms)) (0 + word_of_nat (length (recv_data ms))) f1 = (r, f')"
          and f1: "same_but_tree ?f f1" "ft_tree f1 = (ft_tree ?f)(?p \<mapsto> File ([] @ recv_data ms) md mt)"
        note sel = same_but_tree_sel [OF f1(1)]
        have part: "ft_tree f1 ?p = Some (File (recv_data ms) md mt)" by (simp add: f1(2))
        have only1: "only_at {?p} (ft_tree f) (ft_tree f1)" using only unfolding f1(2) by (intro only_at_upd) auto
        have "released f1 it = released f it" using sel by (simp add: released_def)
        with finish_cases [OF fin part ne(1)] ne(2) show ?thesis
          using only_at_trans [OF only1, of "{?p}"] sel H by (elim disjE conjE) auto
      qed
    qed
  qed
qed

lemma desynced_fault [simp]: "as_fault (if s then desynced e else e) = as_fault e"
  by (simp add: desynced_def)

lemma fetchOne_cases:
  assumes run: "fetchOne io it f = (r, f')" and fm: "meta_get (ni_fileID it) (ft_meta f) = Some fm"
    and ne: "fm_rel fm \<noteq> partName (ni_fileID it)" "\<forall>p\<in>set (released f it). pl_rel p \<noteq> fm_rel fm"
  shows "(r \<noteq> None \<and> ft_completed f' = ft_completed f \<and> fb_queue (ft_fb f') = fb_queue (ft_fb f) \<and>
      (GetCode r = E7007 \<or> only_at {partName (ni_fileID it)} (ft_tree f) (ft_tree f'))) \<or>
    (\<exists>hdr ms H fc. r = None \<and> io_recv io = Inr (M_FileHeader hdr) # ms \<and> io_hash io = Inr H \<and>
      verify fm hdr fc (H (recv_data ms)) (word_of_nat (length (recv_data ms))) = None \<and>
      has_content (ft_tree f') (fm_rel fm) (recv_data ms) \<and>
      ft_completed f' = ft_completed f @ [ni_fileID it] \<and> queue_plus (fb_queue (ft_fb f)) (fb_queue (ft_fb f')))"
proof -
  let ?f = "f\<lparr>ft_reqID := ft_reqID f + 1, ft_sent := ft_sent f @ [file_request (ft_reqID f + 1) (ni_fileID it)]\<rparr>"
  obtain s r0 f0 where body: "fetch_body io it f = (s, r0, f0)" by (metis prod_cases3)
  have f0: "f' = f0" "r = None \<longleftrightarrow> r0 = None" "GetCode r = GetCode r0"
    using run body by (auto simp: fetchOne_def GetCode_def split: option.splits)
  consider (hdr) hdr ms where "io_send io = None" "io_recv io = Inr (M_FileHeader hdr) # ms"
      "fetch_content io it fm hdr ms ?f = (s, r0, f0)"
    | (err) "r0 \<noteq> None" "ft_tree f0 = ft_tree f" "ft_fb f0 = ft_fb f" "ft_completed f0 = ft_completed f"
    using body fm unfolding fetch_body_def Let_def by (auto split: option.splits list.splits sum.splits Message.splits)
  then show ?thesis
  proof cases
    case hdr
    have "\<forall>p\<in>set (released ?f it). pl_rel p \<noteq> fm_rel fm" using ne(2) by (simp add: released_def)
    from fetch_content_cases [OF hdr(3) ne(1) this] hdr(2) f0 show ?thesis by auto
  next
    case err
    then show ?thesis using f0 by auto
  qed
qed


definition sample_meta :: fileMeta where
  "sample_meta = \<lparr>fm_rel = str ''a'', fm_size = 3, fm_mode = 0x1A4, fm_mtime = (0, 0), fm_digest = [3], fm_hlKey = 0, fm_hasHLKey = False\<rparr>"

definition sample_fetcher :: fetcher where
  "sample_fetcher = \<lparr>ft_tree = Map.empty, ft_meta = [0 \<mapsto> sample_meta], ft_hl = newHardlinkMap,
     ft_fb = \<lparr>fb_guard = None, fb_queue = newNeedQueue 4, fb_failed = 0, fb_neededBytes = 3, fb_neededFiles = 1\<rparr>,
     ft_journal = Some [], ft_reqID = 0, ft_sent = [], ft_bytes = 0, ft_transferred = 0, ft_retries = 0, ft_retriesOK = 0,
     ft_completed = [], ft_fatal = None\<rparr>"

definition sample_io :: "(err + Message) list \<Rightarrow> fetch_io" where
  "sample_io ms = \<lparr>io_send = None, io_recv = ms, io_sys = (\<lambda>_. None), io_truncate = False, io_seek = False,
     io_write = (\<lambda>_. None), io_close = False, io_hash = Inr (\<lambda>bs. [word_of_nat (length bs)]), io_journal = False\<rparr>"

definition sample_header :: FileHeader where
  "sample_header = \<lparr>fh_RequestID = 1, fh_FileID = 0, fh_Size = 3, fh_Mode = 0x1A4, fh_MtimeSec = 0, fh_MtimeNsec = 0,
     fh_Digest = [3], fh_ChunkSize = 1024\<rparr>"

definition sample_msgs :: "(err + Message) list" where
  "sample_msgs = [Inr (M_FileHeader sample_header), Inr (M_FileChunk \<lparr>fc_RequestID = 1, fc_Offset = 0, fc_Data = [1, 2]\<rparr>),
     Inr (M_FileChunk \<lparr>fc_RequestID = 1, fc_Offset = 2, fc_Data = [3]\<rparr>),
     Inr (M_FileComplete \<lparr>fp_RequestID = 1, fp_BytesSent = 3, fp_DigestFull = [3]\<rparr>)]"


section \<open>The worker and the queue\<close>

lemma pushes_exec:
  assumes "qs_held s \<noteq> {#}"
  shows "\<exists>s'. exec need_ops item_key (map OpExtra xs) s = Some s' \<and> qs_q s' = fold pushFallback xs (qs_q s) \<and>
    qs_held s' = qs_held s \<and> qs_resolved s' = qs_resolved s"
  using assms
proof (induction xs arbitrary: s)
  case (Cons x xs)
  let ?s = "s\<lparr>qs_q := pushFallback x (qs_q s), qs_pushed := qs_pushed s + {#item_key x#}\<rparr>"
  have "exec_op need_ops item_key (OpExtra x) s = Some ?s" using Cons.prems by (simp add: need_ops_def)
  with Cons.IH [of ?s] Cons.prems show ?case by (auto simp: need_ops_def)
qed simp

lemma exec_append: "exec ops key (ps @ qs) s = (case exec ops key ps s of None \<Rightarrow> None | Some s' \<Rightarrow> exec ops key qs s')"
  by (induction ps arbitrary: s) (auto split: option.splits)

text \<open>What the loop does with the popped item.\<close>

lemma after_fetch_queue:
  assumes "after_fetch mr d st it r f = (ctl, f')"
  shows "fb_queue (ft_fb f') = queue_done (ni_groupID it) (fb_queue (ft_fb f)) \<or>
    fb_queue (ft_fb f') = requeue it (fb_queue (ft_fb f)) \<or>
    fb_queue (ft_fb f') = requeue (it\<lparr>ni_attempt := ni_attempt it + 1\<rparr>) (fb_queue (ft_fb f)) \<and> ni_attempt it + 1 \<le> mr"
  using assms
  by (auto simp: after_fetch_def on_queue_def count_failed_def session_fail_def Let_def
      split: option.splits if_splits prod.splits)

lemma finish_queue: "finish io it fm hdr fc local written f = (r, f') \<Longrightarrow> queue_plus (fb_queue (ft_fb f)) (fb_queue (ft_fb f'))"
  by (auto simp: finish_def Let_def split: option.splits prod.splits if_splits dest!: finish_tail_cases)

lemma recv_loop_queue:
  "recv_loop io it fm hdr H ms n acc written f = (s, r, f') \<Longrightarrow> queue_plus (fb_queue (ft_fb f)) (fb_queue (ft_fb f'))"
proof (induction ms arbitrary: n acc written f)
  case (Cons x ms)
  show ?case
  proof (cases x)
    case (Inr m)
    show ?thesis
    proof (cases m)
      case (M_FileChunk v)
      then show ?thesis using Cons.prems Inr Cons.IH by (fastforce simp: Let_def split: if_splits option.splits)
    qed (use Cons.prems Inr finish_queue in \<open>auto split: if_splits\<close>)
  qed (use Cons.prems in auto)
qed auto

lemma fetchOne_queue: "fetchOne io it f = (r, f') \<Longrightarrow> queue_plus (fb_queue (ft_fb f)) (fb_queue (ft_fb f'))"
proof -
  assume run: "fetchOne io it f = (r, f')"
  have c: "fetch_content io it fm hdr ms g = (s, r', g') \<Longrightarrow> queue_plus (fb_queue (ft_fb g)) (fb_queue (ft_fb g'))" for fm hdr ms g s r' g'
    by (auto simp: fetch_content_def Let_def split: prod.splits option.splits if_splits sum.splits dest!: recv_loop_queue)
  have b: "fetch_body io it f = (s, r', g') \<Longrightarrow> queue_plus (fb_queue (ft_fb f)) (fb_queue (ft_fb g'))" for s r' g'
    by (auto simp: fetch_body_def Let_def split: option.splits list.splits sum.splits Message.splits dest!: c)
  show ?thesis using run b by (auto simp: fetchOne_def split: prod.splits option.splits)
qed

text \<open>One round of the loop is a pop, some extra items, and one final operation on the popped item.\<close>

lemma fetch_round:
  assumes q: "qs_q s = fb_queue (ft_fb f)" and p: "pop (fb_queue (ft_fb f)) = PopItem it q1"
    and one: "fetchOne io it (on_queue (\<lambda>_. q1) f) = (r, f1)" and af: "after_fetch mr d st it r f1 = (ctl, f2)"
  shows "\<exists>xs fin s'. exec need_ops item_key (OpPop # map OpExtra xs @ [fin]) s = Some s' \<and> qs_q s' = fb_queue (ft_fb f2) \<and>
    qs_held s' = qs_held s \<and> (fin = OpDone it \<or> fin = OpRequeue it it \<or>
      fin = OpRequeue it (it\<lparr>ni_attempt := ni_attempt it + 1\<rparr>) \<and> ni_attempt it + 1 \<le> mr)"
proof -
  let ?s1 = "s\<lparr>qs_q := q1, qs_held := qs_held s + {#it#}\<rparr>"
  have 1: "exec_op need_ops item_key OpPop s = Some ?s1" using q p by (simp add: need_ops_def)
  from fetchOne_queue [OF one] obtain xs where xs: "fb_queue (ft_fb f1) = fold pushFallback xs q1"
    by (auto simp: queue_plus_def on_queue_def)
  obtain s2 where 2: "exec need_ops item_key (map OpExtra xs) ?s1 = Some s2" "qs_q s2 = fold pushFallback xs q1"
      "qs_held s2 = qs_held s + {#it#}"
    using pushes_exec [of ?s1 xs] by auto
  have run: "exec need_ops item_key (OpPop # map OpExtra xs @ [fin]) s = exec_op need_ops item_key fin s2" for fin
    by (simp only: exec.simps exec_append 1 2(1) option.case) (cases "exec_op need_ops item_key fin s2"; simp only: option.case exec.simps)
  from after_fetch_queue [OF af] show ?thesis
  proof (elim disjE conjE)
    assume "fb_queue (ft_fb f2) = queue_done (ni_groupID it) (fb_queue (ft_fb f1))"
    then show ?thesis using 2 xs
      by (intro exI [of _ xs] exI [of _ "OpDone it"]) (unfold run, simp add: need_ops_sel)
  next
    assume "fb_queue (ft_fb f2) = requeue it (fb_queue (ft_fb f1))"
    then show ?thesis using 2 xs
      by (intro exI [of _ xs] exI [of _ "OpRequeue it it"]) (unfold run, simp add: need_ops_sel)
  next
    assume "fb_queue (ft_fb f2) = requeue (it\<lparr>ni_attempt := ni_attempt it + 1\<rparr>) (fb_queue (ft_fb f1))" "ni_attempt it + 1 \<le> mr"
    then show ?thesis using 2 xs
      by (intro exI [of _ xs] exI [of _ "OpRequeue it (it\<lparr>ni_attempt := ni_attempt it + 1\<rparr>)"])
        (unfold run, simp add: need_ops_sel item_key_def)
  qed
qed

text \<open>
  C30. The worker keeps the contract of the queue: whatever arrives and fails, a run of the fetch loop is
  a legal sequence of queue operations by one worker, in which every popped item is finished or put back
  exactly once and the worker holds nothing when it leaves; extra items are only added while it holds one.
  So the conservation of the queue carries over to the running program.
\<close>

theorem fetch_loop_refines:
  assumes "fetch_loop mr envs f = (r, f')" "qs_q s = fb_queue (ft_fb f)"
  shows "\<exists>ops s'. exec need_ops item_key ops s = Some s' \<and> qs_q s' = fb_queue (ft_fb f') \<and> qs_held s' = qs_held s"
  using assms
proof (induction envs arbitrary: f s)
  case Nil
  then show ?case by (intro exI [of _ "[]"]) simp
next
  case (Cons e envs)
  obtain io d st where e: "e = (io, d, st)" by (metis prod_cases3)
  show ?case
  proof (cases "pop (fb_queue (ft_fb f))")
    case (PopItem it q1)
    obtain r1 f1 where one: "fetchOne io it (on_queue (\<lambda>_. q1) f) = (r1, f1)" by fastforce
    obtain ctl f2 where af: "after_fetch mr d st it r1 f1 = (ctl, f2)" by fastforce
    from fetch_round [OF Cons.prems(2) PopItem one af] obtain ops s1 where
      ops: "exec need_ops item_key ops s = Some s1" "qs_q s1 = fb_queue (ft_fb f2)" "qs_held s1 = qs_held s" by blast
    show ?thesis
    proof (cases ctl)
      case LoopNext
      then have "fetch_loop mr envs f2 = (r, f')" using Cons.prems(1) e PopItem one af by simp
      from Cons.IH [OF this ops(2)] obtain ops' s' where "exec need_ops item_key ops' s1 = Some s'"
        "qs_q s' = fb_queue (ft_fb f')" "qs_held s' = qs_held s1" by blast
      then show ?thesis using ops by (intro exI [of _ "ops @ ops'"] exI [of _ s']) (simp add: exec_append)
    next
      case (LoopExit b)
      then have "f' = f2" using Cons.prems(1) e PopItem one af by simp
      then show ?thesis using ops by blast
    qed
  qed (use Cons.prems e in \<open>auto intro!: exI [of _ "[]"]\<close>)
qed

theorem fetch_loop_refines_witness:
  "\<exists>r f' ops s'. fetch_loop 3 [(sample_io sample_msgs, False, False)] sample_fetcher = (r, f') \<and>
     exec need_ops item_key ops (qstate_init (newNeedQueue 4)) = Some s' \<and> qs_q s' = fb_queue (ft_fb f') \<and> qs_held s' = {#}"
proof -
  obtain r f' where 1: "fetch_loop 3 [(sample_io sample_msgs, False, False)] sample_fetcher = (r, f')" by fastforce
  have "qs_q (qstate_init (newNeedQueue 4)) = fb_queue (ft_fb sample_fetcher)" by (simp add: qstate_init_def sample_fetcher_def)
  from fetch_loop_refines [OF 1 this] 1 show ?thesis by (auto simp: qstate_init_def)
qed

end
