(* ===== verification/Validate.thy ===== *)
theory Validate
  imports Dest
begin

text \<open>
  Manifest path validation (\<^verbatim>\<open>internal/fsx/validate.go\<close>) and the collision set
  (\<^verbatim>\<open>internal/fsx/collision.go\<close>). Unicode normalisation and lower-casing are parameters of the
  collision set; the reserved names are ASCII, so ASCII upper-casing is what \<^verbatim>\<open>isWindowsReserved\<close> needs
  of \<^verbatim>\<open>strings.ToUpper\<close> (no other character has an upper case among the letters of those names).
\<close>

section \<open>Path validation\<close>

datatype Platform = PlatformLinux | PlatformDarwin | PlatformWindows

definition limitsFor :: "Platform \<Rightarrow> nat \<times> nat" where
  "limitsFor p = (case p of PlatformWindows \<Rightarrow> (255, 260) | PlatformDarwin \<Rightarrow> (255, 1024) | PlatformLinux \<Rightarrow> (255, 4096))"

definition backslash :: byte where "backslash = ch (CHR 0x5C)"

text \<open>\<^verbatim>\<open>strings.FieldsFunc\<close> with both separators: the non-empty runs between them.\<close>

fun fields_aux :: "bytes \<Rightarrow> bytes \<Rightarrow> bytes list" where
  "fields_aux w [] = (if w = [] then [] else [rev w])"
| "fields_aux w (c # cs) =
     (if c = slash \<or> c = backslash then (if w = [] then fields_aux [] cs else rev w # fields_aux [] cs)
      else fields_aux (c # w) cs)"

definition FieldsSep :: "bytes \<Rightarrow> bytes list" where "FieldsSep s = fields_aux [] s"

definition ascii_upper :: "byte \<Rightarrow> byte" where
  "ascii_upper c = (if ch (CHR ''a'') \<le> c \<and> c \<le> ch (CHR ''z'') then c - 32 else c)"

definition isWindowsReserved :: "bytes \<Rightarrow> bool" where
  "isWindowsReserved c =
     (let name = map ascii_upper c;
          name = takeWhile (\<lambda>b. b \<noteq> ch (CHR ''.'')) name;
          name = rev (dropWhile (\<lambda>b. b = ch (CHR '' '')) (rev name))
      in name \<in> {str ''CON'', str ''PRN'', str ''AUX'', str ''NUL''} \<or>
         (length name = 4 \<and> ch (CHR ''1'') \<le> name ! 3 \<and> name ! 3 \<le> ch (CHR ''9'') \<and>
          (HasPrefix name (str ''COM'') \<or> HasPrefix name (str ''LPT''))))"

fun check_comps :: "Platform \<Rightarrow> bytes list \<Rightarrow> Code option" where
  "check_comps plat [] = None"
| "check_comps plat (c # cs) =
     (if c = dot \<or> c = dotdot then Some E7010
      else if c = str ''.esync'' then Some E7010
      else if plat = PlatformWindows \<and> isWindowsReserved c then Some E7010
      else if length c > fst (limitsFor plat) then Some E7014
      else check_comps plat cs)"

definition ValidatePath :: "bytes \<Rightarrow> Platform \<Rightarrow> Code option" where
  "ValidatePath p plat =
     (if length p = 0 then Some E7010
      else if 0 \<in> set p then Some E7010
      else if HasPrefix p [backslash, backslash] then Some E7010
      else if HasPrefix p [slash] \<or> HasPrefix p [backslash] then Some E7010
      else if length p \<ge> 2 \<and> p ! 1 = ch (CHR '':'') \<and> isASCIILetter (p ! 0) then Some E7010
      else case check_comps plat (FieldsSep p) of
        Some c \<Rightarrow> Some c
      | None \<Rightarrow> if length p > snd (limitsFor plat) then Some E7014 else None)"

lemma check_comps_None:
  "check_comps plat cs = None \<longleftrightarrow> (\<forall>c\<in>set cs. c \<noteq> dot \<and> c \<noteq> dotdot \<and> c \<noteq> str ''.esync'' \<and>
     \<not> (plat = PlatformWindows \<and> isWindowsReserved c) \<and> length c \<le> fst (limitsFor plat))"
  by (induction cs) auto

lemma check_comps_code: "check_comps plat cs = Some c \<Longrightarrow> c = E7010 \<or> c = E7014"
  by (induction cs) (auto split: if_splits)

text \<open>A slash component without a backslash is one of the fields.\<close>

lemma fields_aux_word: "slash \<notin> set p \<Longrightarrow> backslash \<notin> set p \<Longrightarrow> fields_aux w p = (if rev w @ p = [] then [] else [rev w @ p])"
  by (induction p arbitrary: w) auto

lemma fields_aux_split: "slash \<notin> set v \<Longrightarrow> backslash \<notin> set v \<Longrightarrow>
    fields_aux w (v @ slash # p) = (if rev w @ v = [] then [] else [rev w @ v]) @ fields_aux [] p"
  by (induction v arbitrary: w) auto

lemma fields_aux_suffix: "\<exists>ws. fields_aux w (v @ slash # p) = ws @ fields_aux [] p"
proof (induction v arbitrary: w)
  case Nil
  show ?case by (cases "w = []") (auto intro: exI [of _ "[rev w]"])
next
  case (Cons a v)
  obtain us vs where "fields_aux [] (v @ slash # p) = us @ fields_aux [] p"
    "fields_aux (a # w) (v @ slash # p) = vs @ fields_aux [] p" using Cons.IH by metis
  then show ?case by (cases "w = []") (auto intro: exI [of _ us] exI [of _ "rev w # us"] exI [of _ vs])
qed

lemma SplitSlash_fields:
  "c \<in> set (SplitSlash p) \<Longrightarrow> c \<noteq> [] \<Longrightarrow> backslash \<notin> set c \<Longrightarrow> c \<in> set (FieldsSep p)"
proof (induction "length (SplitSlash p)" arbitrary: p rule: less_induct)
  case less
  let ?ws = "SplitSlash p"
  obtain w ws where ws: "?ws = w # ws" by (meson SplitSlash_not_Nil list.exhaust)
  have nosl: "slash \<notin> set w" using SplitSlash_no_slash [of p] ws by simp
  show ?case
  proof (cases "ws = []")
    case True
    then have "p = w" using JoinSlash_SplitSlash [of p] ws by simp
    then show ?thesis using less.prems ws True nosl fields_aux_word [of p "[]"] by (simp add: FieldsSep_def)
  next
    case False
    let ?q = "JoinSlash ws"
    have p: "p = w @ slash # ?q" using JoinSlash_SplitSlash [of p] ws False by (simp add: JoinSlash_Cons)
    have sp: "SplitSlash ?q = ws" using SplitSlash_JoinSlash [OF False] SplitSlash_no_slash [of p] ws by simp
    obtain vs where vs: "FieldsSep p = vs @ FieldsSep ?q" using fields_aux_suffix [of "[]" w ?q] p by (auto simp: FieldsSep_def)
    show ?thesis
    proof (cases "c = w")
      case True
      then show ?thesis using less.prems nosl fields_aux_split [of w "[]" ?q] by (simp add: FieldsSep_def p)
    next
      case False
      then have "c \<in> set (FieldsSep ?q)" using less.hyps [of ?q] less.prems ws sp by simp
      then show ?thesis using vs by simp
    qed
  qed
qed

lemma clean_plain: "\<forall>w\<in>set ws. w \<noteq> dot \<and> w \<noteq> dotdot \<Longrightarrow> clean_comps rooted out ws = rev out @ filter (\<lambda>w. w \<noteq> []) ws"
  by (induction ws arbitrary: out) auto

lemma reserved_plain: "backslash \<notin> set dot" "backslash \<notin> set dotdot" "backslash \<notin> set (str ''.esync'')"
    "dot \<noteq> []" "dotdot \<noteq> []" "str ''.esync'' \<noteq> []"
  by (simp_all add: dot_def dotdot_def str_def backslash_def)

lemma partName_comp: "str ''.esync'' \<in> set (SplitSlash (partName i))"
proof -
  let ?rest = "str ''parts/'' @ FormatUint (unat i) 10 @ str ''.part''"
  have "slash \<notin> set (str ''.esync'')" by (simp add: str_def slash_def)
  then have "SplitSlash (str ''.esync'' @ slash # ?rest) = str ''.esync'' # SplitSlash ?rest" by (rule SplitSlash_append)
  moreover have "partName i = str ''.esync'' @ slash # ?rest"
    by (simp add: partName_def str_def slash_def)
  ultimately show ?thesis by (metis list.set_intros(1))
qed



lemma ValidatePath_codes: "ValidatePath p plat = Some c \<Longrightarrow> c = E7010 \<or> c = E7014"
  by (auto simp: ValidatePath_def dest: check_comps_code split: if_splits option.splits)

lemma ValidatePath_not_part: "ValidatePath p plat = None \<Longrightarrow> p \<noteq> partName i"
proof
  assume v: "ValidatePath p plat = None" and p: "p = partName i"
  then have "check_comps plat (FieldsSep p) = None" by (auto simp: ValidatePath_def split: if_splits option.splits)
  then show False using SplitSlash_fields [OF partName_comp [of i]] reserved_plain p unfolding check_comps_None by blast
qed

text \<open>
  The name of the journal directory is compared exactly, also for destinations that do not distinguish
  case: this path is accepted for macOS, where it names the file inside \<^verbatim>\<open>.esync\<close>.
\<close>

lemma esync_guard_case_sensitive: "ValidatePath (str ''.ESYNC/session.json'') PlatformDarwin = None"
  by code_simp

section \<open>Collisions\<close>

record Collisions =
  co_caseInsensitive :: bool
  co_normalise :: bool
  co_seen :: "bytes \<rightharpoonup> bytes"

definition NewCollisions :: "Platform \<Rightarrow> Collisions" where
  "NewCollisions plat = \<lparr>co_caseInsensitive = (plat = PlatformWindows \<or> plat = PlatformDarwin),
     co_normalise = (plat = PlatformDarwin), co_seen = Map.empty\<rparr>"

definition effective :: "(bytes \<Rightarrow> bytes) \<Rightarrow> (bytes \<Rightarrow> bytes) \<Rightarrow> Collisions \<Rightarrow> bytes \<Rightarrow> bytes" where
  "effective nfc lower c relPath =
     (let e = (if co_normalise c then nfc relPath else relPath)
      in if co_caseInsensitive c then lower e else e)"

definition Add :: "(bytes \<Rightarrow> bytes) \<Rightarrow> (bytes \<Rightarrow> bytes) \<Rightarrow> bytes \<Rightarrow> Collisions \<Rightarrow> Code option \<times> Collisions" where
  "Add nfc lower relPath c =
     (let eff = effective nfc lower c relPath in
      case co_seen c eff of
        Some first \<Rightarrow> if first \<noteq> relPath then (Some E7012, c) else (None, c\<lparr>co_seen := (co_seen c)(eff \<mapsto> relPath)\<rparr>)
      | None \<Rightarrow> (None, c\<lparr>co_seen := (co_seen c)(eff \<mapsto> relPath)\<rparr>))"

text \<open>The paths of a sequence that are accepted.\<close>

fun add_all :: "(bytes \<Rightarrow> bytes) \<Rightarrow> (bytes \<Rightarrow> bytes) \<Rightarrow> bytes list \<Rightarrow> Collisions \<Rightarrow> bytes list \<times> Collisions" where
  "add_all nfc lower [] c = ([], c)"
| "add_all nfc lower (p # ps) c = (case Add nfc lower p c of
     (None, c) \<Rightarrow> (case add_all nfc lower ps c of (acc, c) \<Rightarrow> (p # acc, c))
   | (Some _, c) \<Rightarrow> add_all nfc lower ps c)"

lemma Add_same [simp]: "effective nfc lower (c\<lparr>co_seen := m\<rparr>) p = effective nfc lower c p"
  by (simp add: effective_def)

lemma add_all_inv:
  assumes "add_all nfc lower ps c = (acc, c')" "\<forall>e q. co_seen c e = Some q \<longrightarrow> effective nfc lower c q = e"
  shows "(\<forall>p\<in>set acc. co_seen c' (effective nfc lower c p) = Some p) \<and>
    (\<forall>e q. co_seen c e = Some q \<longrightarrow> co_seen c' e = Some q) \<and>
    (\<forall>p\<in>set ps - set acc. \<exists>q. q \<noteq> p \<and> co_seen c' (effective nfc lower c p) = Some q)"
  using assms
proof (induction ps arbitrary: c acc)
  case (Cons p ps)
  let ?e = "effective nfc lower c p"
  show ?case
  proof (cases "\<exists>q. co_seen c ?e = Some q \<and> q \<noteq> p")
    case True
    then obtain q where q: "co_seen c ?e = Some q" "q \<noteq> p" by blast
    then have "add_all nfc lower ps c = (acc, c')" using Cons.prems(1) by (simp add: Add_def Let_def)
    from Cons.IH [OF this Cons.prems(2)] q show ?thesis by auto
  next
    case False
    let ?c = "c\<lparr>co_seen := (co_seen c)(?e \<mapsto> p)\<rparr>"
    have "Add nfc lower p c = (None, ?c)" using False by (auto simp: Add_def Let_def split: option.splits)
    then obtain acc' where acc: "add_all nfc lower ps ?c = (acc', c')" "acc = p # acc'"
      using Cons.prems(1) by (auto split: prod.splits)
    have "\<forall>e q. co_seen ?c e = Some q \<longrightarrow> effective nfc lower ?c q = e" using Cons.prems(2) by (auto split: if_splits)
    note IH = Cons.IH [OF acc(1) this]
    have keep: "co_seen c' e = Some q" if "co_seen c e = Some q" for e q
      using IH False that by (cases "e = ?e") auto
    have "co_seen c' ?e = Some p" using IH by simp
    with IH keep show ?thesis by (auto simp: acc(2))
  qed
qed simp

text \<open>
  No two accepted paths share an effective name, whatever normalisation and case folding do: for
  every sequence of paths the accepted ones are pairwise different after folding unless they are equal,
  and a path is rejected only because a different accepted path holds its effective name.
\<close>

theorem collisions_exact:
  assumes "add_all nfc lower ps (NewCollisions plat) = (acc, c')"
  shows "(\<forall>p\<in>set acc. \<forall>q\<in>set acc. effective nfc lower (NewCollisions plat) p = effective nfc lower (NewCollisions plat) q \<longrightarrow> p = q) \<and>
    (\<forall>p\<in>set ps - set acc. \<exists>q. q \<noteq> p \<and> co_seen c' (effective nfc lower (NewCollisions plat) p) = Some q)"
proof -
  have "\<forall>e q. co_seen (NewCollisions plat) e = Some q \<longrightarrow> effective nfc lower (NewCollisions plat) q = e"
    by (simp add: NewCollisions_def)
  from add_all_inv [OF assms this] show ?thesis by (metis option.inject)
qed

theorem collisions_exact_witness:
  "\<exists>acc c'. add_all (\<lambda>p. p) (map ascii_upper) [str ''a'', str ''A''] (NewCollisions PlatformDarwin) = (acc, c') \<and>
     \<not> (str ''a'' \<in> set acc \<and> str ''A'' \<in> set acc)"
proof -
  obtain acc c' where 1: "add_all (\<lambda>p. p) (map ascii_upper) [str ''a'', str ''A''] (NewCollisions PlatformDarwin) = (acc, c')" by fastforce
  have "effective (\<lambda>p. p) (map ascii_upper) (NewCollisions PlatformDarwin) (str ''a'') =
      effective (\<lambda>p. p) (map ascii_upper) (NewCollisions PlatformDarwin) (str ''A'')" by code_simp
  moreover have "str ''a'' \<noteq> str ''A''" by (simp add: str_def)
  ultimately show ?thesis using collisions_exact [OF 1] 1 by blast
qed

end
