(* ===== verification/Go_Text.thy ===== *)
theory Go_Text
  imports Go_Strings
begin

text \<open>
  Splitting text (\<^verbatim>\<open>strings.Fields\<close>, \<^verbatim>\<open>strings.TrimSpace\<close>, \<^verbatim>\<open>bytes.Split\<close> on newlines) and standard Base64, as
  Go's library defines them, with the round trips that the journal rests on.
\<close>

unbundle bit_operations_syntax

section \<open>White space\<close>

text \<open>
  The length of a white-space character at the head of a byte string, 0 when there is none: the ASCII
  ones and the encodings of U+0085, U+00A0, U+1680, U+2000 to U+200A, U+2028, U+2029, U+202F, U+205F and
  U+3000. Their lead bytes never occur inside another character, so no other decoding is needed.
\<close>

definition ascii_space :: "byte \<Rightarrow> bool" where
  "ascii_space c \<longleftrightarrow> c \<in> {9, 10, 11, 12, 13, 32}"

definition space_len :: "bytes \<Rightarrow> nat" where
  "space_len s = (case s of
     [] \<Rightarrow> 0
   | c # cs \<Rightarrow>
       if ascii_space c then 1
       else if c = 0xC2 \<and> take 1 cs \<in> {[0x85], [0xA0]} then 2
       else if c = 0xE1 \<and> take 2 cs = [0x9A, 0x80] then 3
       else if c = 0xE2 \<and> length cs \<ge> 2 \<and> cs ! 0 = 0x80 \<and> (cs ! 1 \<in> {0xA8, 0xA9, 0xAF} \<or> 0x80 \<le> cs ! 1 \<and> cs ! 1 \<le> 0x8A) then 3
       else if c = 0xE2 \<and> take 2 cs = [0x81, 0x9F] then 3
       else if c = 0xE3 \<and> take 2 cs = [0x80, 0x80] then 3
       else 0)"

lemma space_len_Nil [simp]: "space_len [] = 0" by (simp add: space_len_def)

function fields_from :: "bytes \<Rightarrow> bytes \<Rightarrow> bytes list" where
  "fields_from w s =
     (if s = [] then (if w = [] then [] else [rev w])
      else if space_len s > 0 then (if w = [] then [] else [rev w]) @ fields_from [] (drop (space_len s) s)
      else fields_from (hd s # w) (tl s))"
  by pat_completeness auto
termination by (relation "measure (\<lambda>(w, s). length s)") auto

declare fields_from.simps [simp del]

definition Fields :: "bytes \<Rightarrow> bytes list" where "Fields s = fields_from [] s"

function drop_spaces :: "bytes \<Rightarrow> bytes" where
  "drop_spaces s = (if space_len s > 0 then drop_spaces (drop (space_len s) s) else s)"
  by pat_completeness auto
termination
proof (relation "measure length")
  fix s assume "0 < space_len s"
  then show "(drop (space_len s) s, s) \<in> measure length" by (cases s) auto
qed simp

text \<open>The last character is white space when one of the encodings is a suffix.\<close>

definition space_suffix :: "bytes \<Rightarrow> nat" where
  "space_suffix s =
     (let n = length s in
      if n \<ge> 1 \<and> space_len (drop (n - 1) s) = 1 then 1
      else if n \<ge> 2 \<and> space_len (drop (n - 2) s) = 2 then 2
      else if n \<ge> 3 \<and> space_len (drop (n - 3) s) = 3 then 3
      else 0)"

function drop_spaces_right :: "bytes \<Rightarrow> bytes" where
  "drop_spaces_right s = (if space_suffix s > 0 then drop_spaces_right (take (length s - space_suffix s) s) else s)"
  by pat_completeness auto
termination
proof (relation "measure length")
  fix s assume "0 < space_suffix s"
  then show "(take (length s - space_suffix s) s, s) \<in> measure length"
    by (auto simp: space_suffix_def Let_def split: if_splits)
qed simp

declare drop_spaces.simps [simp del] drop_spaces_right.simps [simp del]

definition TrimSpace :: "bytes \<Rightarrow> bytes" where "TrimSpace s = drop_spaces_right (drop_spaces s)"

text \<open>Words of printable ASCII, joined by single spaces.\<close>

definition printable :: "byte \<Rightarrow> bool" where "printable c \<longleftrightarrow> 33 \<le> c \<and> c \<le> 126"

definition space :: byte where "space = 32"

fun unwords :: "bytes list \<Rightarrow> bytes" where
  "unwords [] = []"
| "unwords [w] = w"
| "unwords (w # v # ws) = w @ space # unwords (v # ws)"

lemma printable_not_space: "printable c \<Longrightarrow> space_len (c # s) = 0"
proof -
  assume "printable c"
  then have c: "33 \<le> unat c" "unat c \<le> 126" by (simp_all add: printable_def word_le_nat_alt)
  have ne: "c \<noteq> k" if "unat k < 33 \<or> 126 < unat k" for k using c that by auto
  show ?thesis by (simp add: space_len_def ascii_space_def ne)
qed

lemma space_len_space [simp]: "space_len (space # s) = 1"
  by (simp add: space_len_def ascii_space_def space_def)

lemma fields_from_word:
  "list_all printable v \<Longrightarrow> fields_from w (v @ s) = fields_from (rev v @ w) s"
proof (induction v arbitrary: w)
  case (Cons c v)
  then have "fields_from w ((c # v) @ s) = fields_from (c # w) (v @ s)"
    by (subst fields_from.simps) (simp add: printable_not_space)
  then show ?case using Cons by simp
qed simp

lemma fields_from_end: "fields_from w [] = (if w = [] then [] else [rev w])"
  by (subst fields_from.simps) simp

lemma fields_from_space: "fields_from w (space # s) = (if w = [] then [] else [rev w]) @ fields_from [] s"
  by (subst fields_from.simps) simp

definition word_ok :: "bytes \<Rightarrow> bool" where "word_ok w \<longleftrightarrow> w \<noteq> [] \<and> list_all printable w"

lemma Fields_unwords: "\<forall>w\<in>set ws. word_ok w \<Longrightarrow> Fields (unwords ws) = ws"
  unfolding Fields_def
proof (induction ws rule: unwords.induct)
  case (2 w)
  then show ?case using fields_from_word [of w "[]" "[]"] by (simp add: word_ok_def fields_from_end)
next
  case (3 w v ws)
  then have "fields_from [] (unwords (w # v # ws)) = fields_from (rev w) (space # unwords (v # ws))"
    using fields_from_word [of w "[]"] by (simp add: word_ok_def)
  then show ?case using 3 by (simp add: fields_from_space word_ok_def)
qed (simp add: fields_from_end)

text \<open>A space ends the field before it, whatever follows.\<close>

definition plain :: "byte \<Rightarrow> bool" where "plain c \<longleftrightarrow> printable c \<or> c = space"

lemma fields_from_append_space:
  "list_all plain s \<Longrightarrow> fields_from w (s @ space # t) = fields_from w s @ fields_from [] t"
proof (induction s arbitrary: w)
  case (Cons c s)
  show ?case
  proof (cases "c = space")
    case True
    then show ?thesis using Cons by (simp add: fields_from_space)
  next
    case False
    then have "printable c" using Cons.prems by (simp add: plain_def)
    then have "fields_from w (c # u) = fields_from (c # w) u" for u using fields_from_word [of "[c]" w u] by simp
    then show ?thesis using Cons by simp
  qed
qed (simp add: fields_from_space fields_from_end)

lemma fields_from_count: "list_all plain s \<Longrightarrow> length (fields_from w s) \<le> count_list s space + 1"
proof (induction s arbitrary: w)
  case (Cons c s)
  show ?case
  proof (cases "c = space")
    case True
    then show ?thesis using Cons.IH [of "[]"] Cons.prems by (simp add: fields_from_space)
  next
    case False
    then have "printable c" using Cons.prems by (simp add: plain_def)
    then have "fields_from w (c # s) = fields_from (c # w) s" using fields_from_word [of "[c]" w s] by simp
    then show ?thesis using Cons.IH [of "c # w"] Cons.prems False by simp
  qed
qed (simp add: fields_from_end)

lemma word_ok_plain: "word_ok w \<Longrightarrow> list_all plain w \<and> count_list w space = 0"
  by (auto simp: word_ok_def list_all_iff plain_def printable_def space_def count_list_0_iff)

lemma unwords_plain: "\<forall>w\<in>set ws. word_ok w \<Longrightarrow> list_all plain (unwords ws) \<and> count_list (unwords ws) space = length ws - 1"
  by (induction ws rule: unwords.induct) (auto simp: word_ok_plain plain_def)

lemma Fields_ends: "list_all plain s \<Longrightarrow> w \<noteq> [] \<Longrightarrow> fields_from w s \<noteq> []"
proof (induction s arbitrary: w)
  case (Cons c s)
  then show ?case using fields_from_word [of "[c]" w s] by (cases "c = space") (auto simp: plain_def fields_from_space)
qed (simp add: fields_from_end)

section \<open>Lines\<close>

definition newline :: byte where "newline = 10"

fun SplitLines :: "bytes \<Rightarrow> bytes list" where
  "SplitLines [] = [[]]"
| "SplitLines (c # cs) = (if c = newline then [] # SplitLines cs
     else case SplitLines cs of w # ws \<Rightarrow> (c # w) # ws | [] \<Rightarrow> [[c]])"

lemma SplitLines_word: "newline \<notin> set w \<Longrightarrow> SplitLines w = [w]"
  by (induction w) auto

lemma SplitLines_line: "newline \<notin> set w \<Longrightarrow> SplitLines (w @ newline # s) = w # SplitLines s"
  by (induction w) auto

lemma SplitLines_cases: "(newline \<notin> set s \<and> SplitLines s = [s]) \<or> (\<exists>v t. s = v @ newline # t \<and> newline \<notin> set v)"
  by (metis SplitLines_word split_list_first)

section \<open>Base64\<close>

text \<open>\<^verbatim>\<open>base64.StdEncoding\<close>: groups of three bytes to four symbols, padded with \<^verbatim>\<open>=\<close>.\<close>

definition b64_char :: "nat \<Rightarrow> byte" where
  "b64_char n = (if n < 26 then word_of_nat (65 + n) else if n < 52 then word_of_nat (71 + n)
     else if n < 62 then word_of_nat (n - 4) else if n = 62 then 43 else 47)"

definition b64_index :: "byte \<Rightarrow> nat option" where
  "b64_index c = (let n = unat c in
     if 65 \<le> n \<and> n \<le> 90 then Some (n - 65) else if 97 \<le> n \<and> n \<le> 122 then Some (n - 71)
     else if 48 \<le> n \<and> n \<le> 57 then Some (n + 4) else if n = 43 then Some 62 else if n = 47 then Some 63 else None)"

definition pad_char :: byte where "pad_char = 61"

fun b64_encode :: "bytes \<Rightarrow> bytes" where
  "b64_encode (a # b # c # s) =
     (let v = unat a * 65536 + unat b * 256 + unat c
      in b64_char (v div 262144) # b64_char (v div 4096 mod 64) # b64_char (v div 64 mod 64) # b64_char (v mod 64) # b64_encode s)"
| "b64_encode [a, b] =
     (let v = unat a * 65536 + unat b * 256
      in [b64_char (v div 262144), b64_char (v div 4096 mod 64), b64_char (v div 64 mod 64), pad_char])"
| "b64_encode [a] =
     (let v = unat a * 65536 in [b64_char (v div 262144), b64_char (v div 4096 mod 64), pad_char, pad_char])"
| "b64_encode [] = []"

text \<open>
  \<^verbatim>\<open>DecodeString\<close> on a string without line breaks: padding is required, may only end the input, and the
  unused bits of a padded group are not checked.
\<close>

fun b64_decode :: "bytes \<Rightarrow> bytes option" where
  "b64_decode [] = Some []"
| "b64_decode (a # b # c # d # s) = (case (b64_index a, b64_index b) of
     (Some x, Some y) \<Rightarrow>
       if c = pad_char then
         (if d = pad_char \<and> s = [] then Some [word_of_nat ((x * 64 + y) div 16)] else None)
       else (case b64_index c of
         None \<Rightarrow> None
       | Some z \<Rightarrow>
           if d = pad_char then
             (if s = [] then (let v = (x * 64 + y) * 64 + z in Some [word_of_nat (v div 1024), word_of_nat (v div 4 mod 256)]) else None)
           else (case b64_index d of
             None \<Rightarrow> None
           | Some u \<Rightarrow> (let v = ((x * 64 + y) * 64 + z) * 64 + u
               in map_option (\<lambda>t. word_of_nat (v div 65536) # word_of_nat (v div 256 mod 256) # word_of_nat (v mod 256) # t) (b64_decode s))))
   | _ \<Rightarrow> None)"
| "b64_decode _ = None"

lemma b64_char_facts: "n < 64 \<Longrightarrow> b64_index (b64_char n) = Some n \<and> b64_char n \<noteq> pad_char \<and> printable (b64_char n)"
proof -
  assume "n < 64"
  moreover have "list_all (\<lambda>n. b64_index (b64_char n) = Some n \<and> b64_char n \<noteq> pad_char \<and> printable (b64_char n)) [0..<64]"
    by code_simp
  ultimately show ?thesis by (simp add: list_all_iff)
qed

lemma group_value:
  fixes v :: nat
  assumes "v < 16777216"
  shows "v div 262144 * 64 + v div 4096 mod 64 = v div 4096" "v div 4096 * 64 + v div 64 mod 64 = v div 64"
    "v div 64 * 64 + v mod 64 = v" "v div 262144 < 64"
proof -
  have d: "v div 262144 = v div 4096 div 64" "v div 4096 = v div 64 div 64" by (simp_all add: div_mult2_eq)
  show "v div 262144 * 64 + v div 4096 mod 64 = v div 4096" unfolding d(1) by simp
  show "v div 4096 * 64 + v div 64 mod 64 = v div 64" unfolding d(2) by simp
qed (use assms in simp_all)

lemma three_bytes:
  fixes a b c :: nat
  assumes "b < 256" "c < 256"
  shows "(a * 65536 + b * 256 + c) div 65536 = a" "(a * 65536 + b * 256 + c) div 256 mod 256 = b"
    "(a * 65536 + b * 256 + c) mod 256 = c"
proof -
  have e: "a * 65536 + b * 256 + c = (a * 256 + b) * 256 + c" by simp
  have q: "((a * 256 + b) * 256 + c) div 256 = a * 256 + b" using assms(2) by simp
  have "((a * 256 + b) * 256 + c) div 65536 = ((a * 256 + b) * 256 + c) div 256 div 256" by (simp flip: div_mult2_eq)
  also have "\<dots> = a" unfolding q using assms(1) by simp
  finally show "(a * 65536 + b * 256 + c) div 65536 = a" unfolding e .
  show "(a * 65536 + b * 256 + c) div 256 mod 256 = b" unfolding e q using assms(1) by simp
  show "(a * 65536 + b * 256 + c) mod 256 = c" unfolding e using assms(2) by (simp only: mod_mult_self3 mod_less)
qed

lemma b64_decode_encode [simp]: "b64_decode (b64_encode bs) = Some bs"
proof (induction bs rule: b64_encode.induct)
  case (1 a b c s)
  define v where "v = unat a * 65536 + unat b * 256 + unat c"
  have b: "unat a < 256" "unat b < 256" "unat c < 256" by (rule unat_byte_less)+
  then have v: "v < 16777216" unfolding v_def by linarith
  have "v div 65536 = unat a" "v div 256 mod 256 = unat b" "v mod 256 = unat c"
    unfolding v_def using three_bytes [OF b(2,3)] by blast+
  then have w: "word_of_nat (v div 65536) = a" "word_of_nat (v div 256 mod 256) = b" "word_of_nat (v mod 256) = c" by simp_all
  have e: "b64_encode (a # b # c # s) = b64_char (v div 262144) # b64_char (v div 4096 mod 64) # b64_char (v div 64 mod 64) #
      b64_char (v mod 64) # b64_encode s" by (simp add: v_def Let_def)
  have i: "b64_index (b64_char (v div 262144)) = Some (v div 262144)" using group_value(4) [OF v] b64_char_facts by blast
  have j: "b64_index (b64_char (n mod 64)) = Some (n mod 64)" "(b64_char (n mod 64) = pad_char) = False" for n
    using b64_char_facts [of "n mod 64"] by simp_all
  show ?case unfolding e
    by (simp only: b64_decode.simps i j prod.case option.case if_False Let_def group_value [OF v] w "1.IH" [OF v_def] option.map)
next
  case (2 a b)
  define v where "v = unat a * 65536 + unat b * 256"
  have b: "unat a < 256" "unat b < 256" by (rule unat_byte_less)+
  then have v: "v < 16777216" unfolding v_def by linarith
  have "v div 64 div 1024 = unat a" "v div 64 div 4 mod 256 = unat b" using b by (simp_all add: v_def flip: div_mult2_eq)
  then have w: "word_of_nat (v div 64 div 1024) = a" "word_of_nat (v div 64 div 4 mod 256) = b" by simp_all
  have e: "b64_encode [a, b] = [b64_char (v div 262144), b64_char (v div 4096 mod 64), b64_char (v div 64 mod 64), pad_char]"
    by (simp add: v_def Let_def)
  show ?case unfolding e by (simp only: b64_decode.simps) (simp add: b64_char_facts group_value [OF v] w Let_def)
next
  case (3 a)
  define v where "v = unat a * 65536"
  have b: "unat a < 256" by (rule unat_byte_less)
  then have v: "v < 16777216" unfolding v_def by linarith
  have "v div 4096 div 16 = unat a" using b by (simp add: v_def flip: div_mult2_eq)
  then have w: "word_of_nat (v div 4096 div 16) = a" by simp
  have e: "b64_encode [a] = [b64_char (v div 262144), b64_char (v div 4096 mod 64), pad_char, pad_char]" by (simp add: v_def Let_def)
  show ?case unfolding e by (simp only: b64_decode.simps) (simp add: b64_char_facts group_value [OF v] w Let_def)
qed simp

lemma b64_encode_printable: "list_all printable (b64_encode bs)"
proof -
  have "printable (b64_char (v div 262144))" if "v < 16777216" for v using b64_char_facts that by simp
  moreover have "unat a * 65536 + unat b * 256 + unat c < 16777216" "unat a * 65536 + unat b * 256 < 16777216"
    "unat a * 65536 < 16777216" for a b c :: byte
    using unat_byte_less [of a] unat_byte_less [of b] unat_byte_less [of c] by linarith+
  ultimately have p: "printable (b64_char ((unat a * 65536 + unat b * 256 + unat c) div 262144))"
    "printable (b64_char ((unat a * 65536 + unat b * 256) div 262144))" "printable (b64_char (unat a * 65536 div 262144))"
    for a b c :: byte by blast+
  have "printable pad_char" by (simp add: printable_def pad_char_def)
  moreover have "printable (b64_char (n mod 64))" for n using b64_char_facts by simp
  ultimately show ?thesis
    by (induction bs rule: b64_encode.induct) (simp_all only: b64_encode.simps Let_def list.pred_inject p simp_thms)
qed

lemma b64_encode_Nil [simp]: "b64_encode bs = [] \<longleftrightarrow> bs = []"
  by (induction bs rule: b64_encode.induct) (auto simp: Let_def)

section \<open>CRC-32\<close>

text \<open>\<^verbatim>\<open>crc32.ChecksumIEEE\<close>, bit by bit.\<close>

definition ieee_bit :: "u32 \<Rightarrow> u32" where
  "ieee_bit s = (if bit s 0 then drop_bit 1 s XOR 0xEDB88320 else drop_bit 1 s)"

definition ieee_byte :: "u32 \<Rightarrow> byte \<Rightarrow> u32" where
  "ieee_byte s b = (ieee_bit ^^ 8) (s XOR ucast b)"

definition ChecksumIEEE :: "bytes \<Rightarrow> u32" where
  "ChecksumIEEE b = NOT (foldl ieee_byte 0xFFFFFFFF b)"

section \<open>Printable numbers\<close>

lemma digit_char_printable: "d < 16 \<Longrightarrow> printable (digit_char d)"
proof -
  assume "d < 16"
  moreover have "list_all (\<lambda>d. printable (digit_char d)) [0..<16]" by code_simp
  ultimately show ?thesis by (simp add: list_all_iff)
qed

lemma FormatUint_word [simp]: "2 \<le> b \<Longrightarrow> b \<le> 16 \<Longrightarrow> word_ok (FormatUint n b)"
  using digits_less [of b _ n] by (fastforce simp: word_ok_def FormatUint_def list_all_iff intro!: digit_char_printable)

lemma FormatInt_word [simp]: "word_ok (FormatInt i)"
proof -
  have "printable (ch (CHR ''-''))" by (simp add: printable_def ch_def)
  then show ?thesis using FormatUint_word [of 10] by (simp add: FormatInt_def word_ok_def)
qed

lemma hex_encode_printable [simp]: "list_all printable (hex_encode bs)"
  by (induction bs) (auto simp: hex_encode_Cons intro!: digit_char_printable byte_div_16)

lemma hex_encode_word: "bs \<noteq> [] \<Longrightarrow> word_ok (hex_encode bs)"
  using hex_encode_printable [of bs] by (cases bs) (auto simp: word_ok_def hex_encode_Cons)

lemma b64_encode_word: "bs \<noteq> [] \<Longrightarrow> word_ok (b64_encode bs)"
  using b64_encode_printable by (simp add: word_ok_def)

lemma word_ok_no_newline: "word_ok w \<Longrightarrow> newline \<notin> set w \<and> space \<notin> set w"
  by (auto simp: word_ok_def list_all_iff printable_def newline_def space_def)

text \<open>A proper prefix of the digits of a number is another number.\<close>

lemma undigits_take: "2 \<le> b \<Longrightarrow> undigits b (take j (digits b n)) = n div b ^ (length (digits b n) - j)"
proof (induction b n rule: digits.induct)
  case (1 b n)
  show ?case
  proof (cases "n < b")
    case True
    then have "digits b n = [n]" by (simp add: digits.simps [of b n])
    then show ?thesis using True by (cases j) (auto simp: undigits_def)
  next
    case False
    let ?d = "digits b (n div b)"
    have d: "digits b n = ?d @ [n mod b]" using False 1 by (simp add: digits.simps [of b n])
    show ?thesis
    proof (cases "j \<le> length ?d")
      case True
      then have "undigits b (take j (digits b n)) = n div b div b ^ (length ?d - j)" using 1 False by (simp add: d)
      also have "\<dots> = n div b ^ Suc (length ?d - j)" by (simp add: div_mult2_eq)
      finally show ?thesis using True by (simp add: d Suc_diff_le)
    next
      case False
      then have "take j (digits b n) = digits b n" "length (digits b n) - j = 0" by (simp_all add: d)
      then show ?thesis using undigits_digits [OF "1.prems", of n] by simp
    qed
  qed
qed

lemma digit_values_take: "digit_values b s = Some ds \<Longrightarrow> digit_values b (take j s) = Some (take j ds)"
proof (induction s arbitrary: j ds)
  case (Cons c s)
  then obtain d es where "char_digit c = Some d" "d < b" "digit_values b s = Some es" "ds = d # es"
    by (auto split: option.splits if_splits)
  then show ?case using Cons.IH by (cases j) auto
qed simp

lemma ParseUint_take:
  assumes "2 \<le> b" "b \<le> 16" "j < length (FormatUint n b)"
  shows "ParseUint (take j (FormatUint n b)) b bits \<noteq> Some n"
proof
  assume p: "ParseUint (take j (FormatUint n b)) b bits = Some n"
  let ?m = "length (digits b n) - j"
  have "digit_values b (take j (FormatUint n b)) = Some (take j (digits b n))"
    using digit_values_take [OF digit_values_FormatUint [OF assms(1,2)]] .
  with p have j: "j \<noteq> 0" and "undigits b (take j (digits b n)) = n"
    by (auto simp: ParseUint_def split: if_splits)
  then have n: "n div b ^ ?m = n" using undigits_take [OF assms(1)] by simp
  have "1 < b ^ ?m" using assms by (intro one_less_power) (auto simp: FormatUint_def)
  then have "n = 0" using n div_less_dividend [of "b ^ ?m" n] by (cases "n = 0") auto
  then have "length (digits b n) = 1" using assms(1) by (simp add: digits.simps [of b 0])
  then show False using assms(3) j by (simp add: FormatUint_def)
qed

end
