(* ===== verification/Journal.thy ===== *)
theory Journal
  imports Go_Text Fetch
begin

text \<open>
  The resume journal (\<^verbatim>\<open>internal/fsx/journal.go\<close>): the text records of \<^verbatim>\<open>complete.log\<close>, their parser, and
  \<^verbatim>\<open>Open\<close>, \<^verbatim>\<open>MarkComplete\<close>, \<^verbatim>\<open>Sync\<close>, \<^verbatim>\<open>remove\<close> and \<^verbatim>\<open>Close\<close> on the directory \<^verbatim>\<open>.esync\<close>. Which system calls
  fail is an input; the JSON codec of \<^verbatim>\<open>session.json\<close> is a parameter.
\<close>

section \<open>Records\<close>

definition record_body :: "journal_record \<Rightarrow> bytes" where
  "record_body r = FormatUint (unat (jr_FileID r)) 10 @ [space] @ FormatInt (jr_Size r) @ [space] @
     hex_encode (jr_Digest r) @ [space] @ b64_encode (jr_Path r)"

definition encodeRecord :: "journal_record \<Rightarrow> bytes" where
  "encodeRecord r =
     (let body = record_body r; crc = ChecksumIEEE body
      in body @ [space] @ FormatUint (unat crc) 16 @ [newline])"

definition decodeRecord :: "bytes \<Rightarrow> journal_record option" where
  "decodeRecord line =
     (let f = Fields line in
      if length f \<noteq> 5 then None
      else let body = f ! 0 @ [space] @ f ! 1 @ [space] @ f ! 2 @ [space] @ f ! 3 in
        case ParseUint (f ! 4) 16 32 of
          None \<Rightarrow> None
        | Some crc \<Rightarrow>
            if crc \<noteq> unat (ChecksumIEEE body) then None
            else case (ParseUint (f ! 0) 10 64, ParseInt (f ! 1), hex_decode (f ! 2), b64_decode (f ! 3)) of
              (Some fid, Some sz, Some dig, Some pth) \<Rightarrow>
                Some \<lparr>jr_FileID = word_of_nat fid, jr_Path = pth, jr_Digest = dig, jr_Size = sz\<rparr>
            | _ \<Rightarrow> None)"

type_synonym completed = "u64 \<rightharpoonup> journal_record"

fun parse_lines :: "bytes list \<Rightarrow> completed \<Rightarrow> completed" where
  "parse_lines [] out = out"
| "parse_lines (ln # lns) out =
     (if length ln = 0 then parse_lines lns out
      else case decodeRecord ln of
        None \<Rightarrow> out
      | Some r \<Rightarrow> parse_lines lns (out(jr_FileID r \<mapsto> r)))"

definition parseCompleteLog :: "bytes \<Rightarrow> completed" where
  "parseCompleteLog data = parse_lines (SplitLines data) Map.empty"

text \<open>What the fetch workers write: a digest and a path that are not empty, a size in range.\<close>

definition wf_record :: "journal_record \<Rightarrow> bool" where
  "wf_record r \<longleftrightarrow> is_int64 (jr_Size r) \<and> jr_Digest r \<noteq> [] \<and> jr_Path r \<noteq> []"

definition record_words :: "journal_record \<Rightarrow> bytes list" where
  "record_words r = [FormatUint (unat (jr_FileID r)) 10, FormatInt (jr_Size r), hex_encode (jr_Digest r), b64_encode (jr_Path r)]"

definition crc_word :: "journal_record \<Rightarrow> bytes" where
  "crc_word r = FormatUint (unat (ChecksumIEEE (record_body r))) 16"

lemma record_words_ok: "wf_record r \<Longrightarrow> \<forall>w\<in>set (record_words r). word_ok w"
  by (simp add: record_words_def wf_record_def hex_encode_word b64_encode_word)

lemma record_body_words: "record_body r = unwords (record_words r)"
  by (simp add: record_body_def record_words_def)

definition record_line :: "journal_record \<Rightarrow> bytes" where
  "record_line r = record_body r @ space # crc_word r"

lemma encodeRecord_line: "encodeRecord r = record_line r @ [newline]"
  by (simp add: encodeRecord_def crc_word_def record_line_def Let_def)

lemma body_crc_words: "record_body r @ space # c = unwords (record_words r @ [c])"
  by (simp add: record_body_def record_words_def)

lemma crc_word_ok [simp]: "word_ok (crc_word r)"
  by (simp add: crc_word_def)

lemma line_plain: "wf_record r \<Longrightarrow> list_all plain (record_line r)"
  using unwords_plain [of "record_words r @ [crc_word r]"] record_words_ok [of r]
  unfolding record_line_def body_crc_words by auto

lemma plain_no_newline: "list_all plain s \<Longrightarrow> newline \<notin> set s"
  by (auto simp: list_all_iff plain_def printable_def newline_def space_def)

lemma plain_take: "list_all plain s \<Longrightarrow> list_all plain (take k s)"
  by (auto simp: list_all_iff dest: in_set_takeD)

lemma line_no_newline: "wf_record r \<Longrightarrow> newline \<notin> set (record_line r)"
  by (rule plain_no_newline [OF line_plain])

lemma line_not_Nil [simp]: "record_line r \<noteq> []"
  by (simp add: record_line_def)

text \<open>The decoder on a record whose checksum word is \<open>c\<close>.\<close>

lemma decodeRecord_body:
  assumes "wf_record r" "word_ok c"
  shows "decodeRecord (record_body r @ space # c) =
    (if ParseUint c 16 32 = Some (unat (ChecksumIEEE (record_body r))) then Some r else None)"
proof -
  define ws where "ws = record_words r @ [c]"
  have f: "Fields (record_body r @ space # c) = ws"
    unfolding body_crc_words ws_def using record_words_ok [OF assms(1)] assms(2) by (intro Fields_unwords) auto
  have id: "unat (jr_FileID r) < 2 ^ 64" using unsigned_less [of "jr_FileID r"] by simp
  have body: "ws ! 0 @ [space] @ ws ! 1 @ [space] @ ws ! 2 @ [space] @ ws ! 3 = record_body r"
    by (simp add: ws_def record_words_def record_body_def)
  have at: "length ws = 5" "ws ! 4 = c" "ParseUint (ws ! 0) 10 64 = Some (unat (jr_FileID r))" "ParseInt (ws ! 1) = Some (jr_Size r)"
    "hex_decode (ws ! 2) = Some (jr_Digest r)" "b64_decode (ws ! 3) = Some (jr_Path r)"
    using id assms(1) by (simp_all add: ws_def record_words_def wf_record_def)
  show ?thesis unfolding decodeRecord_def f Let_def body at by (auto split: option.split)
qed

lemma crc_parses: "ParseUint (crc_word r) 16 32 = Some (unat (ChecksumIEEE (record_body r)))"
proof -
  have "unat (ChecksumIEEE (record_body r)) < 2 ^ 32" using unsigned_less [of "ChecksumIEEE (record_body r)"] by simp
  then show ?thesis by (simp add: crc_word_def)
qed

lemma decode_line: "wf_record r \<Longrightarrow> decodeRecord (record_line r) = Some r"
  by (simp add: record_line_def decodeRecord_body crc_parses)

definition log_of :: "journal_record list \<Rightarrow> bytes" where
  "log_of rs = concat (map encodeRecord rs)"

definition add_record :: "journal_record \<Rightarrow> completed \<Rightarrow> completed" where
  "add_record r m = m(jr_FileID r \<mapsto> r)"

lemma parse_log_append:
  "list_all wf_record rs \<Longrightarrow> parse_lines (SplitLines (log_of rs @ s)) m = parse_lines (SplitLines s) (fold add_record rs m)"
proof (induction rs arbitrary: m)
  case (Cons r rs)
  let ?l = "record_line r"
  have "log_of (r # rs) @ s = ?l @ newline # (log_of rs @ s)" by (simp add: log_of_def encodeRecord_line)
  then have "SplitLines (log_of (r # rs) @ s) = ?l # SplitLines (log_of rs @ s)"
    using SplitLines_line [OF line_no_newline, of r] Cons.prems by simp
  then show ?case using Cons decode_line [of r] by (simp flip: add_record_def)
qed (simp add: log_of_def)

text \<open>
  The journal reads back what was written: for every sequence of records of completed files, the
  parser of the log yields exactly those records, the last one for each file.
\<close>

theorem journal_roundtrip:
  assumes "list_all wf_record rs"
  shows "parseCompleteLog (log_of rs) = fold add_record rs Map.empty"
  using parse_log_append [OF assms, of "[]" Map.empty] by (simp add: parseCompleteLog_def)

definition sample_record :: "u64 \<Rightarrow> journal_record" where
  "sample_record i = \<lparr>jr_FileID = i, jr_Path = str ''a/b'', jr_Digest = [1, 2], jr_Size = 7\<rparr>"

lemma sample_record_wf [simp]: "wf_record (sample_record i)"
  by (simp add: wf_record_def sample_record_def is_int64_def)

theorem journal_roundtrip_witness:
  "parseCompleteLog (log_of [sample_record 3, sample_record 9]) 3 = Some (sample_record 3)"
proof -
  have "list_all wf_record [sample_record 3, sample_record 9]" by simp
  from journal_roundtrip [OF this] show ?thesis by (simp add: add_record_def) (simp add: sample_record_def)
qed

section \<open>Torn writes\<close>

lemma torn_line:
  assumes wf: "wf_record r" and k: "k < length (record_line r)"
  shows "decodeRecord (take k (record_line r)) = None"
proof (cases "k \<le> Suc (length (record_body r))")
  case True
  let ?s = "take k (record_line r)"
  have body: "list_all plain (record_body r)" "count_list (record_body r) space = 3"
    using unwords_plain [OF record_words_ok [OF wf]] unfolding record_body_words by (auto simp: record_words_def)
  have le: "list_all plain (take k (record_body r))" "count_list (take k (record_body r)) space \<le> 3"
    using body by (auto simp: list_all_iff dest: in_set_takeD)
      (metis append_take_drop_id body(2) count_list_append le_add1)
  have "length (Fields ?s) \<le> 4"
  proof (cases "k \<le> length (record_body r)")
    case True
    then have "?s = take k (record_body r)" by (simp add: record_line_def)
    then show ?thesis using fields_from_count [OF le(1), of "[]"] le(2) by (simp add: Fields_def)
  next
    case False
    then have "?s = record_body r @ space # []" using \<open>k \<le> Suc (length (record_body r))\<close> by (simp add: record_line_def take_Cons')
    then have "Fields ?s = Fields (record_body r)"
      using fields_from_append_space [OF body(1), of "[]" "[]"] by (simp add: Fields_def fields_from_end)
    then show ?thesis using fields_from_count [OF body(1), of "[]"] body(2) by (simp add: Fields_def)
  qed
  then show ?thesis by (simp add: decodeRecord_def Let_def)
next
  case False
  define j where "j = k - Suc (length (record_body r))"
  have s: "take k (record_line r) = record_body r @ space # take j (crc_word r)"
    using False by (simp add: record_line_def j_def take_Cons')
  have j: "0 < j" "j < length (crc_word r)" using False k by (auto simp: j_def record_line_def)
  have "word_ok (take j (crc_word r))"
    using crc_word_ok [of r] j by (auto simp: word_ok_def list_all_iff dest: in_set_takeD)
  moreover have "ParseUint (take j (crc_word r)) 16 32 \<noteq> Some (unat (ChecksumIEEE (record_body r)))"
    using ParseUint_take [of 16 j] j(2) unfolding crc_word_def by simp
  ultimately show ?thesis unfolding s using decodeRecord_body [OF wf] by simp
qed

lemma torn_log:
  assumes "list_all wf_record rs" "wf_record r" "k < length (encodeRecord r)"
  shows "parseCompleteLog (log_of rs @ take k (encodeRecord r)) =
    fold add_record (if k = length (encodeRecord r) - 1 then rs @ [r] else rs) Map.empty"
proof -
  let ?l = "record_line r" and ?m = "fold add_record rs Map.empty"
  have k: "k \<le> length ?l" using assms(3) by (simp add: encodeRecord_line)
  then have t: "take k (encodeRecord r) = take k ?l" by (simp add: encodeRecord_line)
  have "newline \<notin> set (take k ?l)" using line_no_newline [OF assms(2)] by (meson in_set_takeD)
  then have p: "parseCompleteLog (log_of rs @ take k (encodeRecord r)) = parse_lines [take k ?l] ?m"
    using parse_log_append [OF assms(1)] SplitLines_word t by (simp add: parseCompleteLog_def)
  show ?thesis
  proof (cases "k = length ?l")
    case True
    then show ?thesis using p decode_line [OF assms(2)] by (simp add: encodeRecord_line add_record_def)
  next
    case False
    then have "decodeRecord (take k ?l) = None" using torn_line [OF assms(2)] k by simp
    then show ?thesis using p False by (simp add: encodeRecord_line)
  qed
qed

text \<open>
  A torn final write is discarded: when only the first \<open>k\<close> bytes of the last record reached the
  disk, the parser returns the records before it, and the last one exactly when nothing but its newline
  is missing. No cut is ever read as a different record.
\<close>

theorem torn_write_discarded:
  assumes "list_all wf_record rs" "wf_record r" "k < length (encodeRecord r)"
  shows "parseCompleteLog (log_of rs @ take k (encodeRecord r)) =
    fold add_record (if k = length (encodeRecord r) - 1 then rs @ [r] else rs) Map.empty"
  by (rule torn_log [OF assms])

theorem torn_write_discarded_witness:
  "parseCompleteLog (log_of [sample_record 3] @ take 4 (encodeRecord (sample_record 9))) 9 = None"
proof -
  have "length (encodeRecord (sample_record 9)) > 5"
    by (simp add: encodeRecord_def Let_def record_body_def sample_record_def hex_encode_def)
  then show ?thesis
    using torn_write_discarded [of "[sample_record 3]" "sample_record 9" 4]
    by (simp add: add_record_def) (simp add: sample_record_def)
qed

text \<open>
  The log is opened for appending behind a torn record, so the next record continues the torn line:
  that line never parses again, and every record written after it is lost to the following resume.
\<close>

lemma torn_tail_hides:
  assumes rs: "list_all wf_record rs" and wf: "wf_record r" "wf_record r2"
    and k: "length (FormatUint (unat (jr_FileID r)) 10) < k" "k < length (encodeRecord r)"
  shows "parseCompleteLog (log_of rs @ take k (encodeRecord r) @ encodeRecord r2 @ later) = fold add_record rs Map.empty"
proof -
  let ?l = "record_line r" and ?l2 = "record_line r2"
  let ?a = "FormatUint (unat (jr_FileID r)) 10" and ?b = "FormatUint (unat (jr_FileID r2)) 10"
  define t where "t = take (k - Suc (length ?a)) (FormatInt (jr_Size r) @ [space] @ hex_encode (jr_Digest r) @ [space] @
    b64_encode (jr_Path r) @ space # crc_word r)"
  have le: "k \<le> length ?l" using k(2) by (simp add: encodeRecord_line)
  then have tk: "take k (encodeRecord r) = take k ?l" by (simp add: encodeRecord_line)
  have torn: "take k ?l = ?a @ space # t" using k(1) by (simp add: record_line_def record_body_def t_def take_Cons')
  define c where "c = FormatInt (jr_Size r2) @ space # hex_encode (jr_Digest r2) @ space # b64_encode (jr_Path r2) @ space # crc_word r2"
  have l2: "?l2 = ?b @ space # c" by (simp add: record_line_def record_body_def c_def)
  have "list_all plain (take k ?l)" by (rule plain_take [OF line_plain [OF wf(1)]])
  then have plt: "list_all plain ?a" "list_all plain t" unfolding torn by simp_all
  have plb: "list_all plain ?b" "?b \<noteq> []" using word_ok_plain [of ?b] by simp_all
  have c: "fields_from [] c = [FormatInt (jr_Size r2), hex_encode (jr_Digest r2), b64_encode (jr_Path r2), crc_word r2]"
    using Fields_unwords [of "[FormatInt (jr_Size r2), hex_encode (jr_Digest r2), b64_encode (jr_Path r2), crc_word r2]"]
      record_words_ok [OF wf(2)] by (simp add: Fields_def c_def record_words_def)
  have glue: "take k ?l @ ?l2 = ?a @ space # (t @ ?b) @ space # c" unfolding torn l2 by simp
  have "Fields (take k ?l @ ?l2) = fields_from [] ?a @ fields_from [] (t @ ?b) @ fields_from [] c"
    unfolding glue Fields_def
    using fields_from_append_space [OF plt(1)] fields_from_append_space [of "t @ ?b" "[]" c] plt plb by simp
  moreover have "fields_from [] ?a = [?a]" using Fields_unwords [of "[?a]"] by (simp add: Fields_def)
  moreover have "fields_from [] (t @ ?b) \<noteq> []"
  proof -
    obtain d ds where b: "?b = d # ds" using plb(2) by (cases ?b) auto
    have "printable d" using FormatUint_word [of 10 "unat (jr_FileID r2)"] b by (simp add: word_ok_def)
    then have e: "fields_from w (d # ds) = fields_from (d # w) ds" for w using fields_from_word [of "[d]" w ds] by simp
    have "fields_from w (t @ ?b) \<noteq> []" for w using plt(2)
    proof (induction t arbitrary: w)
      case Nil
      then show ?case using e Fields_ends [of ds "d # w"] plb(1) by (simp add: b)
    next
      case (Cons x t)
      then show ?case using fields_from_word [of "[x]" w "t @ ?b"]
        by (cases "x = space") (auto simp: plain_def fields_from_space)
    qed
    then show ?thesis by blast
  qed
  ultimately have "length (Fields (take k ?l @ ?l2)) \<noteq> 5" unfolding c by (cases "fields_from [] (t @ ?b)") auto
  then have bad: "decodeRecord (take k ?l @ ?l2) = None" by (simp add: decodeRecord_def Let_def)
  have "newline \<notin> set (take k ?l @ ?l2)" using line_no_newline [OF wf(1)] line_no_newline [OF wf(2)] by (auto dest: in_set_takeD)
  then have "SplitLines (take k (encodeRecord r) @ encodeRecord r2 @ later) = (take k ?l @ ?l2) # SplitLines later"
    using SplitLines_line [of "take k ?l @ ?l2" later] tk by (simp add: encodeRecord_line)
  then show ?thesis using parse_log_append [OF rs] bad torn by (simp add: parseCompleteLog_def)
qed

section \<open>The journal directory\<close>

record sessionInfo =
  si_SessionID :: bytes
  si_ManifestDigest :: bytes
  si_SourceRootName :: bytes
  si_ProtocolVersion :: int
  si_StartedAt :: bytes

text \<open>\<^verbatim>\<open>json.MarshalIndent\<close> and \<^verbatim>\<open>json.Unmarshal\<close> of that struct.\<close>

record json_codec =
  js_Marshal :: "sessionInfo \<Rightarrow> bytes"
  js_Unmarshal :: "bytes \<Rightarrow> sessionInfo option"

text \<open>What is relied on: the values the program writes, whose strings are printable ASCII, read back.\<close>

definition writable :: "sessionInfo \<Rightarrow> bool" where
  "writable si \<longleftrightarrow> list_all printable (si_SessionID si) \<and> list_all printable (si_ManifestDigest si) \<and>
     list_all printable (si_StartedAt si) \<and> si_SourceRootName si = [] \<and> si_ProtocolVersion si = 2"

definition json_laws :: "json_codec \<Rightarrow> bool" where
  "json_laws J \<longleftrightarrow> (\<forall>si. writable si \<longrightarrow> js_Unmarshal J (js_Marshal J si) = Some si)"

text \<open>The directory \<^verbatim>\<open>.esync\<close> as \<^verbatim>\<open>Open\<close> sees it; the part files themselves belong to \<^verbatim>\<open>Dest\<close>.\<close>

record jdir =
  jd_exists :: bool
  jd_session :: "bytes option"
  jd_log :: "bytes option"
  jd_parts :: bool

definition no_jdir :: jdir where
  "no_jdir = \<lparr>jd_exists = False, jd_session = None, jd_log = None, jd_parts = False\<rparr>"

text \<open>
  Failing calls, in program order; \<open>jo_left\<close> is what a failing or interrupted \<^verbatim>\<open>RemoveAll\<close>, whose error the
  code drops, leaves behind.
\<close>

record journal_io =
  jo_root :: bool
  jo_mkdir :: "errno option"
  jo_readSession :: bool
  jo_readLog :: bool
  jo_left :: "jdir option"
  jo_mkdir2 :: "errno option"
  jo_write :: "errno option"
  jo_parts :: "errno option"
  jo_open :: "errno option"

definition journal_io_ok :: journal_io where
  "journal_io_ok = \<lparr>jo_root = False, jo_mkdir = None, jo_readSession = False, jo_readLog = False, jo_left = None,
     jo_mkdir2 = None, jo_write = None, jo_parts = None, jo_open = None\<rparr>"

definition Mkdir_journal :: "errno option \<Rightarrow> jdir \<Rightarrow> errno option \<times> jdir" where
  "Mkdir_journal e d = (case e of
     Some er \<Rightarrow> (Some er, d)
   | None \<Rightarrow> if jd_exists d then (Some EEXIST, d) else (None, no_jdir\<lparr>jd_exists := True\<rparr>))"

record Journal =
  jn_log_open :: bool
  jn_Resumed :: bool

text \<open>From the decision on: write \<^verbatim>\<open>session.json\<close> for a new session, make the parts directory, open the log.\<close>

definition open_tail :: "json_codec \<Rightarrow> journal_io \<Rightarrow> bytes \<Rightarrow> bytes \<Rightarrow> bytes \<Rightarrow> bool \<Rightarrow> completed \<Rightarrow> jdir \<Rightarrow>
    (Code + Journal \<times> completed) \<times> jdir" where
  "open_tail J io sessionID digestHex now resumed prior d =
     (let si = \<lparr>si_SessionID = sessionID, si_ManifestDigest = digestHex, si_SourceRootName = [], si_ProtocolVersion = 2, si_StartedAt = now\<rparr>
      in if \<not> resumed \<and> jo_write io \<noteq> None then (Inl (diskCode (the (jo_write io)) E7007), d)
         else let d = (if resumed then d else d\<lparr>jd_session := Some (js_Marshal J si)\<rparr>) in
           case jo_parts io of
             Some e \<Rightarrow> if e \<noteq> EEXIST then (Inl (diskCode e E7007), d)
                        else (case jo_open io of
                          Some e \<Rightarrow> (Inl (diskCode e E7007), d)
                        | None \<Rightarrow> (Inr (\<lparr>jn_log_open = True, jn_Resumed = resumed\<rparr>, prior),
                            d\<lparr>jd_log := (case jd_log d of None \<Rightarrow> Some [] | l \<Rightarrow> l)\<rparr>))
           | None \<Rightarrow>
               let d = d\<lparr>jd_parts := True\<rparr> in
               case jo_open io of
                 Some e \<Rightarrow> (Inl (diskCode e E7007), d)
               | None \<Rightarrow> (Inr (\<lparr>jn_log_open = True, jn_Resumed = resumed\<rparr>, prior),
                   d\<lparr>jd_log := (case jd_log d of None \<Rightarrow> Some [] | l \<Rightarrow> l)\<rparr>))"

definition Open :: "json_codec \<Rightarrow> journal_io \<Rightarrow> bytes \<Rightarrow> bytes \<Rightarrow> bytes \<Rightarrow> jdir \<Rightarrow> (Code + Journal \<times> completed) \<times> jdir" where
  "Open J io sessionID manifestDigest now d =
     (if jo_root io then (Inl E1006, d)
      else let digestHex = hex_encode manifestDigest in
        case Mkdir_journal (jo_mkdir io) d of
          (Some e, d) \<Rightarrow>
            if e \<noteq> EEXIST then (Inl (diskCode e E7007), d)
            else (case (if jo_readSession io then None else jd_session d) of
              None \<Rightarrow> open_tail J io sessionID digestHex now False Map.empty d
            | Some data \<Rightarrow>
                if (case js_Unmarshal J data of Some si \<Rightarrow> si_ManifestDigest si = digestHex | None \<Rightarrow> False) then
                  open_tail J io sessionID digestHex now True
                    (case (if jo_readLog io then None else jd_log d) of None \<Rightarrow> Map.empty | Some lg \<Rightarrow> parseCompleteLog lg) d
                else let d = (case jo_left io of None \<Rightarrow> no_jdir | Some l \<Rightarrow> l) in
                  case Mkdir_journal (jo_mkdir2 io) d of
                    (Some e, d) \<Rightarrow> (Inl (diskCode e E7007), d)
                  | (None, d) \<Rightarrow> open_tail J io sessionID digestHex now False Map.empty d)
        | (None, d) \<Rightarrow> open_tail J io sessionID digestHex now False Map.empty d)"

text \<open>\<open>Some k\<close>: the write fails after \<open>k\<close> bytes.\<close>

definition MarkComplete :: "nat option \<Rightarrow> journal_record \<Rightarrow> Journal \<Rightarrow> jdir \<Rightarrow> Code option \<times> jdir" where
  "MarkComplete w r j d =
     (if \<not> jn_log_open j then (Some E7007, d)
      else let old = (case jd_log d of None \<Rightarrow> [] | Some l \<Rightarrow> l) in
        case w of
          Some k \<Rightarrow> (Some E7007, d\<lparr>jd_log := Some (old @ take k (encodeRecord r))\<rparr>)
        | None \<Rightarrow> (None, d\<lparr>jd_log := Some (old @ encodeRecord r)\<rparr>))"

definition journal_Sync :: "bool \<Rightarrow> Journal \<Rightarrow> Code option" where
  "journal_Sync fails j = (if \<not> jn_log_open j then None else if fails then Some E7007 else None)"

definition journal_remove :: "jdir option \<Rightarrow> Journal \<Rightarrow> jdir \<Rightarrow> Code option \<times> Journal \<times> jdir" where
  "journal_remove left j d =
     (let j = j\<lparr>jn_log_open := False\<rparr>
      in case left of Some l \<Rightarrow> (Some E7007, j, l) | None \<Rightarrow> (None, j, no_jdir))"

definition journal_Close :: "bool \<Rightarrow> Journal \<Rightarrow> Code option \<times> Journal" where
  "journal_Close fails j =
     (if jn_log_open j then (if fails then Some E7007 else None, j\<lparr>jn_log_open := False\<rparr>) else (None, j))"

fun mark_all :: "journal_record list \<Rightarrow> Journal \<Rightarrow> jdir \<Rightarrow> jdir" where
  "mark_all [] j d = d"
| "mark_all (r # rs) j d = mark_all rs j (snd (MarkComplete None r j d))"

lemma mark_all_log:
  "jn_log_open j \<Longrightarrow> jd_log d = Some l \<Longrightarrow> mark_all rs j d = d\<lparr>jd_log := Some (l @ log_of rs)\<rparr>"
proof (induction rs arbitrary: d l)
  case (Cons r rs)
  then show ?case by (simp add: MarkComplete_def log_of_def)
qed (simp add: log_of_def)

lemma hex_encode_inj: "hex_encode a = hex_encode b \<longleftrightarrow> a = b"
  by (metis hex_decode_encode option.inject)

lemma open_tail_ok:
  "open_tail J journal_io_ok sid dh now resumed prior d =
     (Inr (\<lparr>jn_log_open = True, jn_Resumed = resumed\<rparr>, prior),
      d\<lparr>jd_session := (if resumed then jd_session d else Some (js_Marshal J
           \<lparr>si_SessionID = sid, si_ManifestDigest = dh, si_SourceRootName = [], si_ProtocolVersion = 2, si_StartedAt = now\<rparr>)),
        jd_parts := True, jd_log := (case jd_log d of None \<Rightarrow> Some [] | l \<Rightarrow> l)\<rparr>)"
  by (cases "jd_log d"; cases resumed) (simp_all add: open_tail_def journal_io_ok_def Let_def)


text \<open>A codec with that law, for the witness.\<close>

definition sample_json :: json_codec where
  "sample_json = \<lparr>js_Marshal = (\<lambda>si. si_SessionID si @ newline # si_ManifestDigest si @ newline # si_StartedAt si),
     js_Unmarshal = (\<lambda>b. case SplitLines b of
       [s, m, t] \<Rightarrow> Some \<lparr>si_SessionID = s, si_ManifestDigest = m, si_SourceRootName = [], si_ProtocolVersion = 2, si_StartedAt = t\<rparr>
     | _ \<Rightarrow> None)\<rparr>"

lemma printable_no_newline: "list_all printable s \<Longrightarrow> newline \<notin> set s"
  by (auto simp: list_all_iff printable_def newline_def)

lemma sample_json_laws: "json_laws sample_json"
  by (auto simp: json_laws_def sample_json_def writable_def SplitLines_line SplitLines_word printable_no_newline)


text \<open>
  A journal directory whose \<^verbatim>\<open>session.json\<close> is gone but whose log is left (an interrupted \<^verbatim>\<open>RemoveAll\<close>) is
  adopted: the new session writes its own \<^verbatim>\<open>session.json\<close> over the old log, and when it is interrupted in turn
  the next one takes the old records, which belong to another manifest, as files it has completed.
\<close>

lemma stale_log_adopted:
  assumes J: "json_laws J" "list_all printable sid" "list_all printable now" and rs: "list_all wf_record rs"
    and stale: "d = \<lparr>jd_exists = True, jd_session = None, jd_log = Some (log_of rs), jd_parts = b\<rparr>"
    and first: "Open J journal_io_ok sid m now d = (Inr (j, prior), d1)"
    and second: "Open J journal_io_ok sid2 m now2 d1 = (Inr (j2, prior2), d2)"
  shows "prior = Map.empty \<and> jn_Resumed j2 \<and> prior2 = fold add_record rs Map.empty"
proof -
  have io: "\<not> jo_root journal_io_ok" "jo_mkdir journal_io_ok = None" "\<not> jo_readSession journal_io_ok" "\<not> jo_readLog journal_io_ok"
    by (simp_all add: journal_io_ok_def)
  have 1: "prior = Map.empty" "jd_exists d1" "jd_log d1 = Some (log_of rs)"
    "jd_session d1 = Some (js_Marshal J \<lparr>si_SessionID = sid, si_ManifestDigest = hex_encode m, si_SourceRootName = [],
       si_ProtocolVersion = 2, si_StartedAt = now\<rparr>)"
    using first by (auto simp: Open_def io open_tail_ok Mkdir_journal_def stale)
  have "parseCompleteLog (log_of rs) = fold add_record rs Map.empty"
    using parse_log_append [OF rs, of "[]" Map.empty] by (simp add: parseCompleteLog_def)
  then show ?thesis
    using second J 1 by (auto simp: Open_def io open_tail_ok Mkdir_journal_def json_laws_def writable_def Let_def)
qed

end
