(* ===== verification/Sender_State.thy ===== *)
theory Sender_State
  imports Wire_Messages Fault
begin

text \<open>
  The sender's shared state (\<^verbatim>\<open>internal/sender/state.go\<close>): the digest store, the manifest credit gate
  and the completion tracker. Every method runs under the mutex of its object, so it is one function
  on the state; a closed channel is a flag, the condition-variable wait of \<^verbatim>\<open>acquire\<close> is \<open>None\<close>, and
  the \<^verbatim>\<open>select\<close> of \<^verbatim>\<open>wait\<close> consumes the sequence of cases that become ready.
\<close>

section \<open>Digest store and credit gate\<close>

type_synonym digestStore = "u64 \<rightharpoonup> bytes"

definition newDigestStore :: digestStore where "newDigestStore = Map.empty"
definition ds_set :: "u64 \<Rightarrow> bytes \<Rightarrow> digestStore \<Rightarrow> digestStore" where "ds_set i dg d = d(i \<mapsto> dg)"
definition ds_get :: "u64 \<Rightarrow> digestStore \<Rightarrow> bytes option" where "ds_get i d = d i"

record creditGate =
  cg_avail :: int

definition newCreditGate :: "int \<Rightarrow> creditGate" where
  "newCreditGate initial = \<lparr>cg_avail = initial\<rparr>"

definition cg_add :: "int \<Rightarrow> creditGate \<Rightarrow> creditGate" where
  "cg_add n g = g\<lparr>cg_avail := cg_avail g + n\<rparr>"

definition acquire :: "creditGate \<Rightarrow> creditGate option" where
  "acquire g = (if cg_avail g \<le> 0 then None else Some (g\<lparr>cg_avail := cg_avail g - 1\<rparr>))"

text \<open>The events at the gate: a CREDIT message is added, or the publisher takes one unit for a group.\<close>

datatype gate_event = GateCredit u16 | GatePublish

fun gate_run :: "gate_event list \<Rightarrow> creditGate \<Rightarrow> creditGate option" where
  "gate_run [] g = Some g"
| "gate_run (GateCredit n # es) g = gate_run es (cg_add (int (unat n)) g)"
| "gate_run (GatePublish # es) g = (case acquire g of None \<Rightarrow> None | Some g' \<Rightarrow> gate_run es g')"

fun granted :: "gate_event list \<Rightarrow> nat" where
  "granted [] = 0"
| "granted (GateCredit n # es) = unat n + granted es"
| "granted (GatePublish # es) = granted es"

fun published :: "gate_event list \<Rightarrow> nat" where
  "published [] = 0"
| "published (GateCredit n # es) = published es"
| "published (GatePublish # es) = Suc (published es)"

section \<open>The tracker\<close>

record tracker =
  tr_totalGroups :: nat
  tr_groupFirst :: "u64 list"
  tr_fileGroup :: "u64 \<rightharpoonup> u32"
  tr_groupsDecided :: nat
  tr_decidedSet :: "u32 set"
  tr_needed :: "u64 set"
  tr_resolved :: "u64 set"
  tr_reqToFile :: "u64 \<rightharpoonup> u64"
  tr_inflight :: int
  tr_completed :: "u64 list"
  tr_completedSet :: "u64 set"
  tr_failedSet :: "u64 set"
  tr_bytesTotal :: u64
  tr_skippedCount :: u64
  tr_rejectedCount :: u64
  tr_decidedDone :: bool
  tr_doneClosed :: bool
  tr_progress :: u64

definition reevalLocked :: "tracker \<Rightarrow> tracker" where
  "reevalLocked t =
     (let t = (if \<not> tr_decidedDone t \<and> tr_groupsDecided t \<ge> tr_totalGroups t then t\<lparr>tr_decidedDone := True\<rparr> else t)
      in if tr_doneClosed t then t
         else if tr_groupsDecided t < tr_totalGroups t \<or> tr_inflight t > 0 then t
         else if \<exists>fid\<in>tr_needed t. fid \<notin> tr_resolved t then t
         else t\<lparr>tr_doneClosed := True\<rparr>)"

definition newTracker :: "u64 list \<Rightarrow> tracker" where
  "newTracker groupFirst = reevalLocked
     \<lparr>tr_totalGroups = length groupFirst, tr_groupFirst = groupFirst, tr_fileGroup = Map.empty,
      tr_groupsDecided = 0, tr_decidedSet = {}, tr_needed = {}, tr_resolved = {}, tr_reqToFile = Map.empty,
      tr_inflight = 0, tr_completed = [], tr_completedSet = {}, tr_failedSet = {}, tr_bytesTotal = 0,
      tr_skippedCount = 0, tr_rejectedCount = 0, tr_decidedDone = False, tr_doneClosed = False, tr_progress = 0\<rparr>"

fun mark_needed :: "u64 \<Rightarrow> u32 \<Rightarrow> u16 list \<Rightarrow> tracker \<Rightarrow> tracker" where
  "mark_needed first gid [] t = t"
| "mark_needed first gid (idx # is) t =
     (let fid = first + ucast idx in
      mark_needed first gid is
        (t\<lparr>tr_needed := insert fid (tr_needed t), tr_fileGroup := (tr_fileGroup t)(fid \<mapsto> gid)\<rparr>))"

definition decision :: "GroupDecision \<Rightarrow> tracker \<Rightarrow> Code + tracker" where
  "decision m t =
     (if unat (gd_GroupID m) \<ge> length (tr_groupFirst t) then Inl E5001
      else if gd_GroupID m \<in> tr_decidedSet t then Inl E5009
      else
        let t = t\<lparr>tr_decidedSet := insert (gd_GroupID m) (tr_decidedSet t), tr_groupsDecided := tr_groupsDecided t + 1\<rparr>;
            first = tr_groupFirst t ! unat (gd_GroupID m);
            t = mark_needed first (gd_GroupID m) (gd_Needed m) t;
            t = t\<lparr>tr_skippedCount := tr_skippedCount t + ucast (gd_SkippedCount m),
                  tr_rejectedCount := tr_rejectedCount t + word_of_nat (length (gd_Rejected m))\<rparr>
        in Inr (reevalLocked t))"

definition bump :: "tracker \<Rightarrow> tracker" where
  "bump t = t\<lparr>tr_progress := tr_progress t + 1\<rparr>"

definition reqStarted :: "u64 \<Rightarrow> u64 \<Rightarrow> tracker \<Rightarrow> tracker" where
  "reqStarted reqID fileID t =
     bump (t\<lparr>tr_reqToFile := (tr_reqToFile t)(reqID \<mapsto> fileID), tr_inflight := tr_inflight t + 1\<rparr>)"

definition finishLocked :: "u64 \<Rightarrow> bool \<Rightarrow> tracker \<Rightarrow> tracker" where
  "finishLocked reqID resolve t = (case tr_reqToFile t reqID of
     None \<Rightarrow> t
   | Some fid \<Rightarrow>
       let t = t\<lparr>tr_reqToFile := (tr_reqToFile t)(reqID := None), tr_inflight := tr_inflight t - 1\<rparr>
       in if resolve then t\<lparr>tr_resolved := insert fid (tr_resolved t)\<rparr> else t)"

definition reqCompleted :: "u64 \<Rightarrow> u64 \<Rightarrow> u64 \<Rightarrow> tracker \<Rightarrow> tracker" where
  "reqCompleted reqID fileID bytesSent t =
     (let t = finishLocked reqID True t;
          t = (if fileID \<notin> tr_completedSet t
               then t\<lparr>tr_completedSet := insert fileID (tr_completedSet t), tr_completed := tr_completed t @ [fileID],
                      tr_bytesTotal := tr_bytesTotal t + bytesSent\<rparr>
               else t)
      in bump (reevalLocked t))"

definition reqFailed :: "u64 \<Rightarrow> bool \<Rightarrow> bool \<Rightarrow> tracker \<Rightarrow> tracker" where
  "reqFailed reqID resolve permanent t =
     (let r = tr_reqToFile t reqID;
          t = finishLocked reqID resolve t;
          t = (case r of Some fid \<Rightarrow> if permanent then t\<lparr>tr_failedSet := insert fid (tr_failedSet t)\<rparr> else t | None \<Rightarrow> t)
      in bump (reevalLocked t))"

definition reqCancelled :: "u64 \<Rightarrow> tracker \<Rightarrow> tracker" where
  "reqCancelled reqID t = bump (reevalLocked (finishLocked reqID True t))"

definition tracker_inProgressGroups :: "tracker \<Rightarrow> u32 list" where
  "tracker_inProgressGroups t = sorted_list_of_set
     ((\<lambda>fid. case tr_fileGroup t fid of None \<Rightarrow> 0 | Some g \<Rightarrow> g) ` {fid \<in> tr_needed t. fid \<notin> tr_resolved t})"

text \<open>The bytes that are hashed, and the digest with SHA-256 as a parameter.\<close>

definition completion_input :: "u64 list \<Rightarrow> bytes" where
  "completion_input ids = concat (map be64 (sort ids))"

definition completionDigest :: "(bytes \<Rightarrow> bytes) \<Rightarrow> tracker \<Rightarrow> bytes" where
  "completionDigest sha256 t = sha256 (completion_input (tr_completed t))"

definition counts :: "tracker \<Rightarrow> u64 \<times> u64 \<times> u64 \<times> u64" where
  "counts t = (word_of_nat (card (tr_completedSet t)), tr_skippedCount t, word_of_nat (card (tr_failedSet t)), tr_bytesTotal t)"

text \<open>
  \<^verbatim>\<open>wait\<close>: the cases of the select as they fire. \<open>WDone\<close> is the closed done channel, \<open>WCtx\<close> the
  context, \<open>WDecided p\<close> the closed all-decided channel with the progress counter read after it, \<open>WTimer p\<close>
  the timer with the counter read in its branch. \<open>None\<close>: still waiting.
\<close>

datatype wake = WDone | WCtx err | WDecided u64 | WTimer u64

fun drain_loop :: "u64 \<Rightarrow> wake list \<Rightarrow> err option option" where
  "drain_loop prev (WDone # ws) = Some None"
| "drain_loop prev (WCtx e # ws) = Some (Some e)"
| "drain_loop prev (WTimer cur # ws) =
     (if cur = prev then Some (Some (New E9002 ''drain watchdog'' [] None)) else drain_loop cur ws)"
| "drain_loop prev (WDecided p # ws) = drain_loop prev ws"
| "drain_loop prev [] = None"

fun wait :: "wake list \<Rightarrow> err option option" where
  "wait (WDone # ws) = Some None"
| "wait (WCtx e # ws) = Some (Some e)"
| "wait (WDecided p # ws) = drain_loop p ws"
| "wait (WTimer p # ws) = wait ws"
| "wait [] = None"

section \<open>Runs of the tracker\<close>

datatype tr_event = EvDecision GroupDecision | EvBump | EvStarted u64 u64 | EvCompleted u64 u64 u64
  | EvFailed u64 bool bool | EvCancelled u64

text \<open>A decision that is refused leaves the state alone: its error is checked before any update.\<close>

fun tr_step :: "tr_event \<Rightarrow> tracker \<Rightarrow> tracker" where
  "tr_step (EvDecision m) t = (case decision m t of Inl _ \<Rightarrow> t | Inr t' \<Rightarrow> t')"
| "tr_step EvBump t = bump t"
| "tr_step (EvStarted r f) t = reqStarted r f t"
| "tr_step (EvCompleted r f n) t = reqCompleted r f n t"
| "tr_step (EvFailed r res perm) t = reqFailed r res perm t"
| "tr_step (EvCancelled r) t = reqCancelled r t"

definition tr_run :: "tr_event list \<Rightarrow> tracker \<Rightarrow> tracker" where
  "tr_run es t = fold tr_step es t"

inductive tr_reach :: "u64 list \<Rightarrow> tracker \<Rightarrow> bool" for gf where
  init: "tr_reach gf (newTracker gf)"
| step: "tr_reach gf t \<Longrightarrow> tr_reach gf (tr_step e t)"

lemma tr_reach_run: "tr_reach gf t \<Longrightarrow> tr_reach gf (tr_run es t)"
  unfolding tr_run_def by (induction es arbitrary: t) (auto intro: tr_reach.step)

section \<open>The invariant\<close>

lemma reeval_simps [simp]:
  "tr_totalGroups (reevalLocked t) = tr_totalGroups t" "tr_groupFirst (reevalLocked t) = tr_groupFirst t"
  "tr_fileGroup (reevalLocked t) = tr_fileGroup t" "tr_groupsDecided (reevalLocked t) = tr_groupsDecided t"
  "tr_decidedSet (reevalLocked t) = tr_decidedSet t" "tr_needed (reevalLocked t) = tr_needed t"
  "tr_resolved (reevalLocked t) = tr_resolved t" "tr_reqToFile (reevalLocked t) = tr_reqToFile t"
  "tr_inflight (reevalLocked t) = tr_inflight t" "tr_completed (reevalLocked t) = tr_completed t"
  "tr_completedSet (reevalLocked t) = tr_completedSet t" "tr_failedSet (reevalLocked t) = tr_failedSet t"
  "tr_bytesTotal (reevalLocked t) = tr_bytesTotal t" "tr_skippedCount (reevalLocked t) = tr_skippedCount t"
  "tr_rejectedCount (reevalLocked t) = tr_rejectedCount t" "tr_progress (reevalLocked t) = tr_progress t"
  by (simp_all add: reevalLocked_def Let_def)

lemma reeval_decidedDone [simp]:
  "tr_decidedDone (reevalLocked t) \<longleftrightarrow> tr_decidedDone t \<or> tr_groupsDecided t \<ge> tr_totalGroups t"
  by (auto simp: reevalLocked_def Let_def)

lemma reeval_doneClosed [simp]:
  "tr_doneClosed (reevalLocked t) \<longleftrightarrow>
     tr_doneClosed t \<or> tr_groupsDecided t \<ge> tr_totalGroups t \<and> tr_inflight t \<le> 0 \<and> tr_needed t \<subseteq> tr_resolved t"
  by (auto simp: reevalLocked_def Let_def)

text \<open>\<open>frame t t'\<close>: \<open>t'\<close> differs from \<open>t\<close> only in what the request methods may change.\<close>

definition frame :: "tracker \<Rightarrow> tracker \<Rightarrow> bool" where
  "frame t t' \<longleftrightarrow> tr_totalGroups t' = tr_totalGroups t \<and> tr_groupFirst t' = tr_groupFirst t \<and>
     tr_fileGroup t' = tr_fileGroup t \<and> tr_groupsDecided t' = tr_groupsDecided t \<and>
     tr_decidedSet t' = tr_decidedSet t \<and> tr_needed t' = tr_needed t \<and> tr_decidedDone t' = tr_decidedDone t \<and>
     tr_doneClosed t' = tr_doneClosed t \<and> tr_resolved t \<subseteq> tr_resolved t'"

text \<open>What concerns the decisions.\<close>

definition decided_inv :: "u64 list \<Rightarrow> tracker \<Rightarrow> bool" where
  "decided_inv gf t \<longleftrightarrow> tr_groupFirst t = gf \<and> tr_totalGroups t = length gf \<and>
     tr_decidedSet t \<subseteq> {g. unat g < length gf} \<and> tr_groupsDecided t = card (tr_decidedSet t) \<and>
     dom (tr_fileGroup t) = tr_needed t"

text \<open>What concerns the two closed channels.\<close>

definition close_inv :: "tracker \<Rightarrow> bool" where
  "close_inv t \<longleftrightarrow> (tr_decidedDone t \<longleftrightarrow> tr_groupsDecided t \<ge> tr_totalGroups t) \<and>
     (tr_doneClosed t \<longrightarrow> tr_groupsDecided t \<ge> tr_totalGroups t \<and> tr_needed t \<subseteq> tr_resolved t) \<and>
     (tr_groupsDecided t \<ge> tr_totalGroups t \<and> tr_inflight t \<le> 0 \<and> tr_needed t \<subseteq> tr_resolved t \<longrightarrow> tr_doneClosed t)"

text \<open>What concerns the requests and the completed files.\<close>

definition req_inv :: "tracker \<Rightarrow> bool" where
  "req_inv t \<longleftrightarrow> finite (dom (tr_reqToFile t)) \<and> int (card (dom (tr_reqToFile t))) \<le> tr_inflight t \<and>
     distinct (tr_completed t) \<and> set (tr_completed t) = tr_completedSet t"

lemma group_ids_finite: "card {g :: u32. unat g < n} \<le> n"
proof -
  have "card (unat ` {g :: u32. unat g < n}) \<le> card {..<n}" by (rule card_mono) auto
  moreover have "inj_on unat {g :: u32. unat g < n}" by (auto intro!: inj_onI unsigned_word_eqI)
  ultimately show ?thesis by (simp add: card_image)
qed

lemma all_decided:
  assumes "decided_inv gf t" "tr_groupsDecided t \<ge> tr_totalGroups t"
  shows "tr_decidedSet t = {g. unat g < length gf}"
  by (rule card_seteq) (use assms group_ids_finite [of "length gf"] in \<open>auto simp: decided_inv_def\<close>)

lemma all_decided_refuses:
  assumes "decided_inv gf t" "tr_groupsDecided t \<ge> tr_totalGroups t"
  shows "decision m t \<in> {Inl E5001, Inl E5009}"
  using all_decided [OF assms] assms(1) by (auto simp: decision_def decided_inv_def)

lemma mark_needed_simps [simp]:
  "tr_totalGroups (mark_needed f g is t) = tr_totalGroups t" "tr_groupFirst (mark_needed f g is t) = tr_groupFirst t"
  "tr_groupsDecided (mark_needed f g is t) = tr_groupsDecided t" "tr_decidedSet (mark_needed f g is t) = tr_decidedSet t"
  "tr_resolved (mark_needed f g is t) = tr_resolved t" "tr_reqToFile (mark_needed f g is t) = tr_reqToFile t"
  "tr_inflight (mark_needed f g is t) = tr_inflight t" "tr_completed (mark_needed f g is t) = tr_completed t"
  "tr_completedSet (mark_needed f g is t) = tr_completedSet t" "tr_doneClosed (mark_needed f g is t) = tr_doneClosed t"
  "tr_decidedDone (mark_needed f g is t) = tr_decidedDone t" "tr_progress (mark_needed f g is t) = tr_progress t"
  "tr_skippedCount (mark_needed f g is t) = tr_skippedCount t" "tr_bytesTotal (mark_needed f g is t) = tr_bytesTotal t"
  "tr_failedSet (mark_needed f g is t) = tr_failedSet t"
  by (induction "is" arbitrary: t; simp add: Let_def)+

lemma mark_needed_needed [simp]:
  "tr_needed (mark_needed f g is t) = tr_needed t \<union> (\<lambda>i. f + ucast i) ` set is"
  by (induction "is" arbitrary: t) (auto simp: Let_def)

lemma mark_needed_fileGroup [simp]:
  "dom (tr_fileGroup (mark_needed f g is t)) = dom (tr_fileGroup t) \<union> (\<lambda>i. f + ucast i) ` set is"
  by (induction "is" arbitrary: t) (auto simp: Let_def)

lemma decision_ok:
  assumes "decision m t = Inr t'"
  shows "unat (gd_GroupID m) < length (tr_groupFirst t)" "gd_GroupID m \<notin> tr_decidedSet t"
    "tr_needed t' = tr_needed t \<union> (\<lambda>i. tr_groupFirst t ! unat (gd_GroupID m) + ucast i) ` set (gd_Needed m)"
    "tr_decidedSet t' = insert (gd_GroupID m) (tr_decidedSet t)" "tr_groupsDecided t' = Suc (tr_groupsDecided t)"
    "tr_groupFirst t' = tr_groupFirst t" "tr_totalGroups t' = tr_totalGroups t" "tr_resolved t' = tr_resolved t"
    "dom (tr_fileGroup t') = dom (tr_fileGroup t) \<union> (\<lambda>i. tr_groupFirst t ! unat (gd_GroupID m) + ucast i) ` set (gd_Needed m)"
    "tr_decidedDone t' \<longleftrightarrow> tr_decidedDone t \<or> tr_groupsDecided t' \<ge> tr_totalGroups t'"
    "tr_doneClosed t' \<longleftrightarrow> tr_doneClosed t \<or>
       tr_groupsDecided t' \<ge> tr_totalGroups t' \<and> tr_inflight t' \<le> 0 \<and> tr_needed t' \<subseteq> tr_resolved t'"
  using assms by (clarsimp simp: decision_def Let_def split: if_splits)+

lemma decision_decided_inv:
  assumes "decided_inv gf t" "decision m t = Inr t'"
  shows "decided_inv gf t'"
proof -
  have "finite (tr_decidedSet t)" by simp
  then show ?thesis
    using assms(1) decision_ok(1,2) [OF assms(2)] unfolding decided_inv_def
    by (simp add: decision_ok [OF assms(2)] del: Un_insert_right)
qed

lemma decision_close_inv:
  assumes "decided_inv gf t" "close_inv t" "decision m t = Inr t'"
  shows "close_inv t'"
proof -
  have "\<not> tr_groupsDecided t \<ge> tr_totalGroups t"
  proof
    assume "tr_groupsDecided t \<ge> tr_totalGroups t"
    from all_decided_refuses [OF assms(1) this, of m] show False using assms(3) by simp
  qed
  then have "\<not> tr_doneClosed t" "\<not> tr_decidedDone t" using assms(2) by (auto simp: close_inv_def)
  then show ?thesis unfolding close_inv_def decision_ok(10,11) [OF assms(3)] by simp
qed

lemma decision_req_inv: "req_inv t \<Longrightarrow> decision m t = Inr t' \<Longrightarrow> req_inv t'"
  by (auto simp: req_inv_def decision_def Let_def split: if_splits)

lemma bump_simps [simp]:
  "tr_totalGroups (bump t) = tr_totalGroups t" "tr_groupFirst (bump t) = tr_groupFirst t"
  "tr_fileGroup (bump t) = tr_fileGroup t" "tr_groupsDecided (bump t) = tr_groupsDecided t"
  "tr_decidedSet (bump t) = tr_decidedSet t" "tr_needed (bump t) = tr_needed t"
  "tr_resolved (bump t) = tr_resolved t" "tr_reqToFile (bump t) = tr_reqToFile t"
  "tr_inflight (bump t) = tr_inflight t" "tr_completed (bump t) = tr_completed t"
  "tr_completedSet (bump t) = tr_completedSet t" "tr_failedSet (bump t) = tr_failedSet t"
  "tr_bytesTotal (bump t) = tr_bytesTotal t" "tr_decidedDone (bump t) = tr_decidedDone t"
  "tr_doneClosed (bump t) = tr_doneClosed t" "tr_progress (bump t) = tr_progress t + 1"
  by (simp_all add: bump_def)

lemma bump_invs [simp]:
  "decided_inv gf (bump t) = decided_inv gf t" "close_inv (bump t) = close_inv t" "req_inv (bump t) = req_inv t"
  by (simp_all add: bump_def decided_inv_def close_inv_def req_inv_def)

lemma reeval_invs [simp]:
  "decided_inv gf (reevalLocked t) = decided_inv gf t" "req_inv (reevalLocked t) = req_inv t"
  by (simp_all add: decided_inv_def req_inv_def)

lemma reeval_close:
  assumes "close_inv t" "frame t t'"
  shows "close_inv (reevalLocked t')"
proof -
  have e: "tr_totalGroups t' = tr_totalGroups t" "tr_groupsDecided t' = tr_groupsDecided t"
    "tr_needed t' = tr_needed t" "tr_decidedDone t' = tr_decidedDone t" "tr_doneClosed t' = tr_doneClosed t"
    and sub: "tr_resolved t \<subseteq> tr_resolved t'"
    using assms(2) unfolding frame_def by blast+
  have c: "tr_decidedDone t \<longleftrightarrow> tr_groupsDecided t \<ge> tr_totalGroups t"
    "tr_doneClosed t \<Longrightarrow> tr_groupsDecided t \<ge> tr_totalGroups t" "tr_doneClosed t \<Longrightarrow> tr_needed t \<subseteq> tr_resolved t"
    using assms(1) unfolding close_inv_def by blast+
  show ?thesis unfolding close_inv_def reeval_simps reeval_decidedDone reeval_doneClosed e
    using c sub by blast
qed

lemma frame_decided: "frame t t' \<Longrightarrow> decided_inv gf t \<Longrightarrow> decided_inv gf t'"
  by (simp add: frame_def decided_inv_def)

lemma frame_finish: "frame t (finishLocked r res t)"
  by (auto simp: frame_def finishLocked_def Let_def split: option.splits)

lemma finish_req_inv: "req_inv t \<Longrightarrow> req_inv (finishLocked r res t)"
proof (cases "tr_reqToFile t r")
  case (Some f)
  assume "req_inv t"
  moreover have "card (dom (tr_reqToFile t)) = Suc (card (dom (tr_reqToFile t) - {r}))" if "finite (dom (tr_reqToFile t))"
    by (rule card.remove [OF that]) (use Some in auto)
  ultimately show ?thesis using Some by (auto simp: req_inv_def finishLocked_def Let_def)
qed (simp add: finishLocked_def)

lemma start_invs:
  assumes "close_inv t" "req_inv t"
  shows "close_inv (reqStarted r f t)" "req_inv (reqStarted r f t)"
proof -
  have "\<not> tr_inflight t + 1 \<le> 0" using assms(2) by (simp add: req_inv_def)
  moreover have e: "tr_totalGroups (reqStarted r f t) = tr_totalGroups t" "tr_needed (reqStarted r f t) = tr_needed t"
    "tr_groupsDecided (reqStarted r f t) = tr_groupsDecided t" "tr_resolved (reqStarted r f t) = tr_resolved t"
    "tr_decidedDone (reqStarted r f t) = tr_decidedDone t" "tr_doneClosed (reqStarted r f t) = tr_doneClosed t"
    "tr_inflight (reqStarted r f t) = tr_inflight t + 1"
    by (simp_all add: reqStarted_def)
  ultimately show "close_inv (reqStarted r f t)"
    using assms(1) unfolding close_inv_def e by blast
  show "req_inv (reqStarted r f t)"
    using assms(2) unfolding reqStarted_def bump_invs req_inv_def by (simp add: card_insert_if)
qed

text \<open>A request method is a change inside the frame, then the re-evaluation.\<close>

lemma request_step:
  assumes "decided_inv gf t" "close_inv t" "frame t t'" "req_inv t'"
  shows "decided_inv gf (bump (reevalLocked t')) \<and> close_inv (bump (reevalLocked t')) \<and> req_inv (bump (reevalLocked t'))"
  using frame_decided [OF assms(3,1)] reeval_close [OF assms(2,3)] assms(4) by simp

lemma completed_frame:
  assumes "frame t t1" "req_inv t1"
  shows "frame t (t1\<lparr>tr_completedSet := insert f (tr_completedSet t1), tr_completed := tr_completed t1 @ [f], tr_bytesTotal := n\<rparr>)"
    and "f \<notin> tr_completedSet t1 \<Longrightarrow>
      req_inv (t1\<lparr>tr_completedSet := insert f (tr_completedSet t1), tr_completed := tr_completed t1 @ [f], tr_bytesTotal := n\<rparr>)"
  using assms by (simp_all add: frame_def req_inv_def)

lemma failed_frame:
  assumes "frame t t1" "req_inv t1"
  shows "frame t (t1\<lparr>tr_failedSet := F\<rparr>)" "req_inv (t1\<lparr>tr_failedSet := F\<rparr>)"
  using assms by (simp_all add: frame_def req_inv_def)

lemma tr_reach_inv: "tr_reach gf t \<Longrightarrow> decided_inv gf t \<and> close_inv t \<and> req_inv t"
proof (induction rule: tr_reach.induct)
  case init
  show ?case by (simp add: newTracker_def decided_inv_def close_inv_def req_inv_def)
next
  case (step t e)
  then have inv: "decided_inv gf t" "close_inv t" "req_inv t" by auto
  show ?case
  proof (cases e)
    case (EvDecision m)
    then show ?thesis
      using inv decision_decided_inv decision_close_inv decision_req_inv by (auto split: sum.splits)
  next
    case (EvStarted r f)
    then show ?thesis using inv start_invs by (simp add: reqStarted_def decided_inv_def bump_def)
  next
    case (EvCompleted r f n)
    note f = frame_finish [of t r True] finish_req_inv [OF inv(3), of r True]
    show ?thesis unfolding EvCompleted tr_step.simps reqCompleted_def Let_def
      by (rule request_step [OF inv(1,2)]) (simp_all add: f completed_frame [OF f])
  next
    case (EvFailed r res perm)
    note f = frame_finish [of t r res] finish_req_inv [OF inv(3), of r res]
    show ?thesis unfolding EvFailed tr_step.simps reqFailed_def Let_def
      by (rule request_step [OF inv(1,2)]) (simp_all add: f failed_frame [OF f] split: option.splits)
  next
    case (EvCancelled r)
    note f = frame_finish [of t r True] finish_req_inv [OF inv(3), of r True]
    show ?thesis unfolding EvCancelled tr_step.simps reqCancelled_def by (rule request_step [OF inv(1,2) f])
  qed (use inv in simp_all)
qed

section \<open>What the tracker promises\<close>

text \<open>
  C35. The session ends exactly when it should: in every state the tracker can reach, if the done
  channel is closed then every group has been decided and every needed file is resolved; and as soon
  as that holds with nothing in flight the done channel is closed, so no event order loses the end.
  The all-decided channel is closed exactly when every group id of the plan has a decision.
\<close>

theorem tracker_done_exact:
  assumes "tr_reach gf t"
  shows "(tr_doneClosed t \<longrightarrow> tr_decidedSet t = {g. unat g < length gf} \<and> tr_needed t \<subseteq> tr_resolved t) \<and>
    (tr_groupsDecided t = length gf \<and> tr_inflight t = 0 \<and> tr_needed t \<subseteq> tr_resolved t \<longrightarrow> tr_doneClosed t) \<and>
    (tr_decidedDone t \<longleftrightarrow> tr_groupsDecided t = length gf) \<and> tr_groupsDecided t = card (tr_decidedSet t)"
proof -
  have inv: "decided_inv gf t" "close_inv t" using tr_reach_inv [OF assms] by auto
  have "card (tr_decidedSet t) \<le> card {g :: u32. unat g < length gf}"
    by (rule card_mono) (use inv(1) in \<open>auto simp: decided_inv_def\<close>)
  then have le: "tr_groupsDecided t \<le> length gf"
    using inv(1) group_ids_finite [of "length gf"] by (simp add: decided_inv_def)
  have tot: "tr_totalGroups t = length gf" "tr_groupsDecided t = card (tr_decidedSet t)"
    using inv(1) by (simp_all add: decided_inv_def)
  have c: "tr_decidedDone t \<longleftrightarrow> tr_groupsDecided t \<ge> length gf"
    "tr_doneClosed t \<Longrightarrow> tr_groupsDecided t \<ge> length gf" "tr_doneClosed t \<Longrightarrow> tr_needed t \<subseteq> tr_resolved t"
    "tr_groupsDecided t \<ge> length gf \<Longrightarrow> tr_inflight t \<le> 0 \<Longrightarrow> tr_needed t \<subseteq> tr_resolved t \<Longrightarrow> tr_doneClosed t"
    using inv(2) unfolding close_inv_def tot(1) by blast+
  have "tr_decidedSet t = {g. unat g < length gf}" if "tr_doneClosed t"
    using all_decided [OF inv(1)] c(2) [OF that] tot(1) by simp
  then show ?thesis using c le tot(2) by (metis le_antisym order_refl)
qed

definition sample_group_decision :: GroupDecision where
  "sample_group_decision = \<lparr>gd_GroupID = 0, gd_Needed = [0], gd_SkippedCount = 1, gd_Rejected = []\<rparr>"

definition sample_tracker :: tracker where
  "sample_tracker = tr_run [EvDecision sample_group_decision, EvStarted 1 0, EvCompleted 1 0 5] (newTracker [0])"

lemmas tracker_eval = tr_run_def newTracker_def decision_def reqStarted_def reqCompleted_def finishLocked_def
  reevalLocked_def bump_def sample_group_decision_def Let_def

lemma sample_tracker_reach: "tr_reach [0] sample_tracker"
  unfolding sample_tracker_def by (intro tr_reach_run tr_reach.init)

lemma sample_tracker_sel:
  "tr_groupsDecided sample_tracker = 1" "tr_inflight sample_tracker = 0" "tr_needed sample_tracker = {0}"
  "tr_resolved sample_tracker = {0}" "tr_doneClosed sample_tracker" "tr_completed sample_tracker = [0]"
  by (simp_all add: sample_tracker_def tracker_eval)

theorem tracker_done_exact_witness:
  "tr_groupsDecided sample_tracker = 1 \<and> tr_doneClosed sample_tracker \<and> tr_decidedDone sample_tracker"
  using tracker_done_exact [OF sample_tracker_reach] by (simp add: sample_tracker_sel)

lemma tr_step_frame_done: "tr_doneClosed t \<Longrightarrow> tr_doneClosed (tr_step e t)"
  by (cases e) (auto simp: reqStarted_def reqCompleted_def reqFailed_def reqCancelled_def finishLocked_def
      decision_def Let_def split: option.splits sum.splits)

lemma tr_step_needed: "\<not> (\<exists>m t'. e = EvDecision m \<and> decision m t = Inr t') \<Longrightarrow> tr_needed (tr_step e t) = tr_needed t"
  by (cases e) (auto simp: reqStarted_def reqCompleted_def reqFailed_def reqCancelled_def finishLocked_def Let_def
      split: option.splits sum.splits)

text \<open>
  The end is final: once the done channel is closed it stays closed, no further GROUP_DECISION
  is accepted, and the set of needed files does not change whatever requests still arrive.
\<close>

theorem tracker_done_final:
  assumes "tr_reach gf t" "tr_doneClosed t"
  shows "tr_doneClosed (tr_run es t) \<and> tr_needed (tr_run es t) = tr_needed t \<and>
    decision m (tr_run es t) \<in> {Inl E5001, Inl E5009}"
  using assms
proof (induction es arbitrary: t)
  case Nil
  have inv: "decided_inv gf t" "close_inv t" using tr_reach_inv [OF Nil.prems(1)] by auto
  have "tr_groupsDecided t \<ge> tr_totalGroups t" using inv(2) Nil.prems(2) unfolding close_inv_def by blast
  from all_decided_refuses [OF inv(1) this] Nil.prems show ?case by (simp add: tr_run_def)
next
  case (Cons e es)
  have inv: "decided_inv gf t" "close_inv t" using tr_reach_inv [OF Cons.prems(1)] by auto
  have "tr_groupsDecided t \<ge> tr_totalGroups t" using inv(2) Cons.prems(2) unfolding close_inv_def by blast
  then have "decision m' t \<noteq> Inr t'" for m' t' using all_decided_refuses [OF inv(1), of m'] by auto
  then have "tr_needed (tr_step e t) = tr_needed t" using tr_step_needed by blast
  with Cons.IH [OF tr_reach.step [OF Cons.prems(1)] tr_step_frame_done [OF Cons.prems(2)]]
  show ?case by (simp add: tr_run_def)
qed

theorem tracker_done_final_witness:
  "tr_doneClosed (tr_run [EvDecision sample_group_decision, EvStarted 2 1] sample_tracker) \<and>
   tr_needed (tr_run [EvDecision sample_group_decision, EvStarted 2 1] sample_tracker) = {0}"
  using tracker_done_final [OF sample_tracker_reach sample_tracker_sel(5)] sample_tracker_sel(3) by blast

text \<open>
  A request that arrives after the end is served and recorded, but after the digest of the
  session was taken: with one group whose only needed file 0 has completed, the done channel is
  closed; the content of a hard-link secondary (file 1, in no decision's needed list) is requested and
  completed next, and the bytes to be hashed for the completion digest are then different.
\<close>

theorem late_fallback_missed:
  "\<exists>t late. tr_reach [0] t \<and> tr_doneClosed t \<and> late = tr_run [EvStarted 2 1, EvCompleted 2 1 7] t \<and>
     completion_input (tr_completed late) \<noteq> completion_input (tr_completed t)"
proof (intro exI conjI)
  show "tr_reach [0] sample_tracker" by (rule sample_tracker_reach)
  show "tr_doneClosed sample_tracker" by (rule sample_tracker_sel)
  have "tr_completed (tr_run [EvStarted 2 1, EvCompleted 2 1 7] sample_tracker) = [0, 1]"
    by (simp add: sample_tracker_def tracker_eval)
  then show "completion_input (tr_completed (tr_run [EvStarted 2 1, EvCompleted 2 1 7] sample_tracker)) \<noteq>
      completion_input (tr_completed sample_tracker)"
    by (auto simp: completion_input_def sample_tracker_sel be64_def dest!: arg_cong [of _ _ length])
qed simp

text \<open>
  The publisher never has more groups outstanding than the receiver granted: whatever the order
  of CREDIT messages and publications, the number of groups published is at most the initial credit
  plus everything granted, what is left is exactly the difference, and a publication is refused only
  when that difference is zero.
\<close>

theorem credit_never_exceeded:
  assumes "gate_run es (newCreditGate (int initial)) = Some g"
  shows "cg_avail g = int initial + int (granted es) - int (published es) \<and> published es \<le> initial + granted es \<and>
    (acquire g = None \<longleftrightarrow> published es = initial + granted es)"
proof -
  have "gate_run es g0 = Some g \<Longrightarrow> cg_avail g0 \<ge> 0 \<Longrightarrow>
      cg_avail g = cg_avail g0 + int (granted es) - int (published es) \<and> cg_avail g \<ge> 0" for g0
    by (induction es g0 rule: gate_run.induct)
      (auto simp: cg_add_def acquire_def split: option.splits if_splits)
  from this [OF assms] show ?thesis by (auto simp: newCreditGate_def acquire_def)
qed

theorem credit_never_exceeded_witness:
  "published [GatePublish, GateCredit 2, GatePublish, GatePublish] \<le> 1 + granted [GatePublish, GateCredit 2, GatePublish, GatePublish]"
  using credit_never_exceeded [of "[GatePublish, GateCredit 2, GatePublish, GatePublish]" 1]
  by (simp add: newCreditGate_def cg_add_def acquire_def)

section \<open>Activity and the drain watchdog\<close>

fun bumping :: "tr_event \<Rightarrow> bool" where
  "bumping (EvDecision m) \<longleftrightarrow> False"
| "bumping _ \<longleftrightarrow> True"

lemma finish_progress [simp]: "tr_progress (finishLocked r res t) = tr_progress t"
  by (simp add: finishLocked_def Let_def split: option.splits)

lemma tr_step_progress: "tr_progress (tr_step e t) = tr_progress t + (if bumping e then 1 else 0)"
  by (cases e) (auto simp: decision_def reqStarted_def reqCompleted_def reqFailed_def reqCancelled_def Let_def
      split: option.splits sum.splits if_splits)

lemma tr_run_progress: "tr_progress (tr_run es t) = tr_progress t + word_of_nat (length (filter bumping es))"
  by (induction es arbitrary: t) (simp_all add: tr_run_def tr_step_progress)

text \<open>The timer samples the counter after each interval of events.\<close>

fun timer_ticks :: "tr_event list list \<Rightarrow> tracker \<Rightarrow> wake list" where
  "timer_ticks [] t = []"
| "timer_ticks (es # ess) t = WTimer (tr_progress (tr_run es t)) # timer_ticks ess (tr_run es t)"

text \<open>
  The drain watchdog measures inactivity and not duration: however many timer intervals the tail
  of a session takes, E9002 is returned exactly when some interval passes without a request event or
  a streamed chunk; with activity in each interval the wait goes on.
\<close>

theorem watchdog_fires_iff_idle:
  assumes "\<forall>es\<in>set ess. length es < 2 ^ 64"
  shows "drain_loop (tr_progress t) (timer_ticks ess t) =
    (if \<exists>es\<in>set ess. filter bumping es = [] then Some (Some (New E9002 ''drain watchdog'' [] None)) else None)"
  using assms
proof (induction ess arbitrary: t)
  case (Cons es ess)
  have "length (filter bumping es) < 2 ^ 64"
    using Cons.prems le_less_trans [OF length_filter_le [of bumping es]] by simp
  then have "(word_of_nat (length (filter bumping es)) :: u64) = 0 \<longleftrightarrow> filter bumping es = []"
    by (simp add: word_of_nat_eq_0_iff nat_dvd_not_less [of "length (filter bumping es)"])
      (metis length_0_conv dvd_0_right nat_dvd_not_less neq0_conv)
  then have "tr_progress (tr_run es t) = tr_progress t \<longleftrightarrow> filter bumping es = []"
    by (simp add: tr_run_progress)
  then show ?case using Cons by simp
qed simp

theorem watchdog_fires_iff_idle_witness:
  "drain_loop 0 (timer_ticks [[EvBump], [EvBump, EvBump]] (newTracker [0])) = None"
  using watchdog_fires_iff_idle [of "[[EvBump], [EvBump, EvBump]]" "newTracker [0]"]
  by (simp add: newTracker_def)

section \<open>Requests in flight\<close>

fun fresh_ids :: "tr_event list \<Rightarrow> tracker \<Rightarrow> bool" where
  "fresh_ids [] t \<longleftrightarrow> True"
| "fresh_ids (e # es) t \<longleftrightarrow> (case e of EvStarted r f \<Rightarrow> tr_reqToFile t r = None | _ \<Rightarrow> True) \<and> fresh_ids es (tr_step e t)"

definition exact :: "tracker \<Rightarrow> bool" where
  "exact t \<longleftrightarrow> finite (dom (tr_reqToFile t)) \<and> tr_inflight t = int (card (dom (tr_reqToFile t)))"

lemma exact_finish: "exact t \<Longrightarrow> exact (finishLocked r res t)"
proof (cases "tr_reqToFile t r")
  case (Some f)
  assume "exact t"
  moreover have "card (dom (tr_reqToFile t)) = Suc (card (dom (tr_reqToFile t) - {r}))" if "finite (dom (tr_reqToFile t))"
    by (rule card.remove [OF that]) (use Some in auto)
  ultimately show ?thesis using Some by (auto simp: exact_def finishLocked_def Let_def)
qed (simp add: finishLocked_def)

lemma exact_cong: "tr_reqToFile t' = tr_reqToFile t \<Longrightarrow> tr_inflight t' = tr_inflight t \<Longrightarrow> exact t' = exact t"
  by (simp add: exact_def)

lemma exact_step:
  assumes "exact t" "case e of EvStarted r f \<Rightarrow> tr_reqToFile t r = None | _ \<Rightarrow> True"
  shows "exact (tr_step e t)"
proof (cases e)
  case (EvDecision m)
  then show ?thesis using assms(1) by (auto simp: decision_def Let_def exact_def split: sum.splits if_splits)
next
  case (EvStarted r f)
  then have "r \<notin> dom (tr_reqToFile t)" using assms(2) by auto
  then show ?thesis using assms(1) EvStarted by (simp add: exact_def reqStarted_def)
next
  case (EvCompleted r f n)
  have "exact (tr_step e t) = exact (finishLocked r True t)"
    by (rule exact_cong) (simp_all add: EvCompleted reqCompleted_def Let_def)
  then show ?thesis using exact_finish [OF assms(1)] by simp
next
  case (EvFailed r res perm)
  have "exact (tr_step e t) = exact (finishLocked r res t)"
    by (rule exact_cong) (simp_all add: EvFailed reqFailed_def Let_def split: option.splits)
  then show ?thesis using exact_finish [OF assms(1)] by simp
next
  case (EvCancelled r)
  have "exact (tr_step e t) = exact (finishLocked r True t)"
    by (rule exact_cong) (simp_all add: EvCancelled reqCancelled_def)
  then show ?thesis using exact_finish [OF assms(1)] by simp
qed (use assms(1) in \<open>simp add: exact_def\<close>)

text \<open>
  With request ids that are not reused while they are in flight (the receiver takes them from one
  counter), the in-flight count is exactly the number of open requests, whatever the order in which
  the data channels start, finish, fail or cancel them.
\<close>

theorem inflight_exact:
  assumes "fresh_ids es (newTracker gf)"
  shows "tr_inflight (tr_run es (newTracker gf)) = int (card (dom (tr_reqToFile (tr_run es (newTracker gf)))))"
proof -
  have "fresh_ids es t \<Longrightarrow> exact t \<Longrightarrow> exact (tr_run es t)" for t
    unfolding tr_run_def by (induction es arbitrary: t) (auto intro: exact_step)
  from this [OF assms] show ?thesis by (simp add: exact_def newTracker_def)
qed

theorem inflight_exact_witness:
  "tr_inflight (tr_run [EvStarted 1 4, EvStarted 2 5, EvCancelled 1] (newTracker [0])) =
     int (card (dom (tr_reqToFile (tr_run [EvStarted 1 4, EvStarted 2 5, EvCancelled 1] (newTracker [0])))))"
  using inflight_exact [of "[EvStarted 1 4, EvStarted 2 5, EvCancelled 1]" "[0]"]
  by (simp add: newTracker_def reqStarted_def)

section \<open>The completion digest\<close>

lemma be64_not_Nil [simp]: "be64 v \<noteq> []"
proof
  assume "be64 v = []"
  then have "length (be64 v) = 0" by simp
  then show False by (simp add: be64_def)
qed

lemma concat_be64_inj: "concat (map be64 xs) = concat (map be64 ys) \<Longrightarrow> xs = ys"
proof (induction xs arbitrary: ys)
  case Nil
  then show ?case by (cases ys) auto
next
  case (Cons x xs)
  show ?case
  proof (cases ys)
    case Nil
    then show ?thesis using Cons.prems by simp
  next
    case (Cons y ys')
    then have "be64 x = be64 y \<and> concat (map be64 xs) = concat (map be64 ys')"
      using Cons.prems by simp
    moreover have "be64 x = be64 y \<Longrightarrow> x = y" by (metis append_Nil2 get64_be64)
    ultimately show ?thesis using Cons.IH Cons by simp
  qed
qed

lemma completion_input_eq:
  assumes "distinct xs" "distinct ys"
  shows "completion_input xs = completion_input ys \<longleftrightarrow> set xs = set ys"
proof
  assume "completion_input xs = completion_input ys"
  then have "sort xs = sort ys" unfolding completion_input_def by (rule concat_be64_inj)
  then have "set (sort xs) = set (sort ys)" by simp
  then show "set xs = set ys" by simp
next
  assume "set xs = set ys"
  then have "sort xs = sort ys" by (intro sorted_distinct_set_unique) (simp_all add: assms)
  then show "completion_input xs = completion_input ys" by (simp add: completion_input_def)
qed

text \<open>
  The completion digest identifies the set of completed files: for two reachable trackers, or a
  tracker and a list without duplicates kept by the peer in its own order, the hashed bytes are equal
  exactly when the sets of completed file ids are equal; and each file is counted once.
\<close>

theorem completion_digest_exact:
  assumes "tr_reach gf t" "distinct ids"
  shows "(completion_input (tr_completed t) = completion_input ids \<longleftrightarrow> tr_completedSet t = set ids) \<and>
    card (tr_completedSet t) = length (tr_completed t)"
proof -
  have d: "distinct (tr_completed t)" "set (tr_completed t) = tr_completedSet t"
    using tr_reach_inv [OF assms(1)] by (auto simp: req_inv_def)
  then show ?thesis using completion_input_eq [OF d(1) assms(2)] distinct_card [OF d(1)] by simp
qed

theorem completion_digest_exact_witness:
  "completion_input (tr_completed sample_tracker) = completion_input [0] \<and>
   completion_input (tr_completed sample_tracker) \<noteq> completion_input [1, 0]"
  using completion_digest_exact [OF sample_tracker_reach, of "[0]"] completion_digest_exact [OF sample_tracker_reach, of "[1, 0]"]
  by (auto simp: sample_tracker_def tracker_eval)

end
