(* ===== verification/Wire_Codec.thy ===== *)
theory Wire_Codec
  imports Fault "HOL-Library.State_Monad"
begin

text \<open>
  The frame-body codec of \<^verbatim>\<open>internal/wire/codec.go\<close>. The writer is the list of bytes it has
  appended, so each \<open>w_*\<close> operation is the bytes it adds. The reader keeps its buffer, its
  position and its latched error flag; each \<open>r_*\<close> operation is a state-monad action over it.

  \<open>reads p bs v\<close> says that on a buffer that holds \<open>bs\<close> at the current position the action \<open>p\<close>
  consumes exactly \<open>bs\<close>, returns \<open>v\<close> and latches no error. It composes along the monad's bind,
  which reduces the round trip of a whole message to one rule per field.
\<close>

section \<open>Writer\<close>

definition w_u8 :: "u8 \<Rightarrow> bytes" where "w_u8 v = [v]"
definition w_u16 :: "u16 \<Rightarrow> bytes" where "w_u16 v = be16 v"
definition w_u32 :: "u32 \<Rightarrow> bytes" where "w_u32 v = be32 v"
definition w_u64 :: "u64 \<Rightarrow> bytes" where "w_u64 v = be64 v"
definition w_i64 :: "int \<Rightarrow> bytes" where "w_i64 v = w_u64 (u64_of_i64 v)"

text \<open>A length prefix is the length truncated to the field's width, as Go's conversion does.\<close>

definition w_str :: "bytes \<Rightarrow> bytes" where
  "w_str s = w_u16 (word_of_nat (length s)) @ s"

definition w_blob :: "bytes \<Rightarrow> bytes" where
  "w_blob p = w_u16 (word_of_nat (length p)) @ p"

definition w_raw :: "bytes \<Rightarrow> bytes" where "w_raw p = p"

lemma length_w [simp, bytes_simps]:
  "length (w_u8 a) = 1" "length (w_u16 b) = 2" "length (w_u32 c) = 4" "length (w_u64 d) = 8"
  "length (w_i64 e) = 8" "length (w_str s) = 2 + length s" "length (w_blob p) = 2 + length p"
  "length (w_raw p) = length p"
  by (simp_all add: w_u8_def w_u16_def w_u32_def w_u64_def w_i64_def w_str_def w_blob_def w_raw_def)

lemma w_str_nonempty [simp]: "w_str s \<noteq> []"
  using length_w(6) [of s] by (auto simp del: length_w)

section \<open>Reader\<close>

record reader =
  rd_b :: bytes
  rd_i :: nat
  rd_err :: bool

type_synonym 'a rd = "(reader, 'a) state"

definition rd_init :: "bytes \<Rightarrow> reader" where
  "rd_init b = \<lparr>rd_b = b, rd_i = 0, rd_err = False\<rparr>"

definition r_fail :: "unit rd" where
  "r_fail = State (\<lambda>r. ((), r\<lparr>rd_err := True\<rparr>))"

definition r_err :: "bool rd" where
  "r_err = State (\<lambda>r. (rd_err r, r))"

text \<open>
  \<^verbatim>\<open>need(n)\<close>: false when an error is latched; a read past the end latches one. Every caller
  passes a non-negative \<open>n\<close>, so the sign test of the source never fires.
\<close>

definition r_need :: "nat \<Rightarrow> bool rd" where
  "r_need n = State (\<lambda>r.
     if rd_err r then (False, r)
     else if rd_i r + n > length (rd_b r) then (False, r\<lparr>rd_err := True\<rparr>)
     else (True, r))"

text \<open>The next \<open>n\<close> bytes, advancing the position; only run after \<open>need\<close> returned true.\<close>

definition r_take :: "nat \<Rightarrow> bytes rd" where
  "r_take n = State (\<lambda>r. (take n (drop (rd_i r) (rd_b r)), r\<lparr>rd_i := rd_i r + n\<rparr>))"

definition r_u8 :: "u8 rd" where
  "r_u8 = do { ok \<leftarrow> r_need 1;
     if \<not> ok then State_Monad.return 0
     else do { p \<leftarrow> r_take 1; State_Monad.return (hd p) } }"

definition r_u16 :: "u16 rd" where
  "r_u16 = do { ok \<leftarrow> r_need 2;
     if \<not> ok then State_Monad.return 0
     else do { p \<leftarrow> r_take 2; State_Monad.return (get16 p) } }"

definition r_u32 :: "u32 rd" where
  "r_u32 = do { ok \<leftarrow> r_need 4;
     if \<not> ok then State_Monad.return 0
     else do { p \<leftarrow> r_take 4; State_Monad.return (get32 p) } }"

definition r_u64 :: "u64 rd" where
  "r_u64 = do { ok \<leftarrow> r_need 8;
     if \<not> ok then State_Monad.return 0
     else do { p \<leftarrow> r_take 8; State_Monad.return (get64 p) } }"

definition r_i64 :: "int rd" where
  "r_i64 = do { v \<leftarrow> r_u64; State_Monad.return (i64_of_u64 v) }"

text \<open>The bounded tail shared by \<^verbatim>\<open>str\<close>, \<^verbatim>\<open>blob\<close> and \<^verbatim>\<open>raw\<close>: \<open>n > max || !need(n)\<close>, then copy.\<close>

definition r_bounded :: "nat \<Rightarrow> nat \<Rightarrow> bytes rd" where
  "r_bounded n mx =
     (if n > mx then do { r_fail; State_Monad.return [] }
      else do { ok \<leftarrow> r_need n;
        if \<not> ok then do { r_fail; State_Monad.return [] } else r_take n })"

definition r_str :: "nat \<Rightarrow> bytes rd" where
  "r_str mx = do { n \<leftarrow> r_u16; e \<leftarrow> r_err;
     if e then State_Monad.return [] else r_bounded (unat n) mx }"

definition r_blob :: "nat \<Rightarrow> bytes rd" where
  "r_blob mx = do { n \<leftarrow> r_u16; e \<leftarrow> r_err;
     if e then State_Monad.return [] else r_bounded (unat n) mx }"

definition r_raw :: "nat \<Rightarrow> nat \<Rightarrow> bytes rd" where
  "r_raw n mx = do { e \<leftarrow> r_err; if e then State_Monad.return [] else r_bounded n mx }"

definition r_remaining :: "nat rd" where
  "r_remaining = State (\<lambda>r. (if rd_err r then 0 else length (rd_b r) - rd_i r, r))"

text \<open>
  The counted loop \<^verbatim>\<open>for k := 0; k < n && r.err == nil; k++ \<close>\<open>{ append(.., p) }\<close>.
\<close>

fun r_times :: "nat \<Rightarrow> 'a rd \<Rightarrow> 'a list rd" where
  "r_times 0 p = State_Monad.return []"
| "r_times (Suc n) p = do { e \<leftarrow> r_err;
     if e then State_Monad.return []
     else do { x \<leftarrow> p; xs \<leftarrow> r_times n p; State_Monad.return (x # xs) } }"

section \<open>Reading back what was written\<close>

definition reads :: "'a rd \<Rightarrow> bytes \<Rightarrow> 'a \<Rightarrow> bool" where
  "reads p bs v \<longleftrightarrow> (\<forall>pre post.
     run_state p \<lparr>rd_b = pre @ bs @ post, rd_i = length pre, rd_err = False\<rparr> =
       (v, \<lparr>rd_b = pre @ bs @ post, rd_i = length pre + length bs, rd_err = False\<rparr>))"

lemma readsD:
  "reads p bs v \<Longrightarrow> run_state p \<lparr>rd_b = pre @ bs @ post, rd_i = length pre, rd_err = False\<rparr> =
       (v, \<lparr>rd_b = pre @ bs @ post, rd_i = length pre + length bs, rd_err = False\<rparr>)"
  by (simp add: reads_def)

lemma reads_return [reads_intros]: "reads (State_Monad.return v) [] v"
  by (simp add: reads_def)

lemma reads_bind [reads_intros]:
  assumes p: "reads p as a" and q: "reads (q a) bs b"
  shows "reads (p \<bind> q) (as @ bs) b"
  unfolding reads_def
proof (intro allI)
  fix pre post
  have "run_state p \<lparr>rd_b = pre @ as @ (bs @ post), rd_i = length pre, rd_err = False\<rparr> =
      (a, \<lparr>rd_b = pre @ as @ (bs @ post), rd_i = length pre + length as, rd_err = False\<rparr>)"
    by (rule readsD [OF p])
  moreover have "run_state (q a) \<lparr>rd_b = (pre @ as) @ bs @ post, rd_i = length (pre @ as), rd_err = False\<rparr> =
      (b, \<lparr>rd_b = (pre @ as) @ bs @ post, rd_i = length (pre @ as) + length bs, rd_err = False\<rparr>)"
    by (rule readsD [OF q])
  ultimately show "run_state (p \<bind> q) \<lparr>rd_b = pre @ (as @ bs) @ post, rd_i = length pre, rd_err = False\<rparr> =
      (b, \<lparr>rd_b = pre @ (as @ bs) @ post, rd_i = length pre + length (as @ bs), rd_err = False\<rparr>)"
    by (simp add: State_Monad.bind_def add.assoc)
qed

text \<open>A last field: the bytes are consumed and the result assembled.\<close>

lemma reads_bind_last:
  "reads p bs a \<Longrightarrow> reads (q a) [] b \<Longrightarrow> reads (p \<bind> q) bs b"
  using reads_bind [of p bs a q "[]" b] by simp

lemma reads_bind_Nil:
  "reads p [] a \<Longrightarrow> reads (q a) bs b \<Longrightarrow> reads (p \<bind> q) bs b"
  using reads_bind [of p "[]" a q bs b] by simp

lemma reads_r_err [reads_intros]: "reads r_err [] False"
  by (simp add: reads_def r_err_def)

lemma reads_if_err:
  "reads p bs v \<Longrightarrow> reads (r_err \<bind> (\<lambda>e. if e then q else p)) bs v"
  by (rule reads_bind_Nil [OF reads_r_err]) simp

lemma reads_take:
  "length bs = n \<Longrightarrow> reads (r_need n \<bind> (\<lambda>ok. if \<not> ok then q else r_take n)) bs bs"
  by (simp add: reads_def State_Monad.bind_def r_need_def r_take_def)

lemma reads_take_bind:
  "length bs = n \<Longrightarrow>
    reads (r_need n \<bind> (\<lambda>ok. if \<not> ok then q else r_take n \<bind> (\<lambda>p. State_Monad.return (f p)))) bs (f bs)"
  by (simp add: reads_def State_Monad.bind_def r_need_def r_take_def)

lemma reads_u8 [reads_intros]: "reads r_u8 (w_u8 v) v"
  using reads_take_bind [of "w_u8 v" 1 _ hd] by (simp add: r_u8_def w_u8_def)

lemma reads_u16 [reads_intros]: "reads r_u16 (w_u16 v) v"
  using reads_take_bind [of "w_u16 v" 2 _ get16] by (simp add: r_u16_def w_u16_def)

lemma reads_u32 [reads_intros]: "reads r_u32 (w_u32 v) v"
  using reads_take_bind [of "w_u32 v" 4 _ get32] by (simp add: r_u32_def w_u32_def)

lemma reads_u64 [reads_intros]: "reads r_u64 (w_u64 v) v"
  using reads_take_bind [of "w_u64 v" 8 _ get64] by (simp add: r_u64_def w_u64_def)

lemma reads_i64 [reads_intros]: "is_int64 v \<Longrightarrow> reads r_i64 (w_i64 v) v"
  unfolding r_i64_def w_i64_def
  by (rule reads_bind_last [OF reads_u64]) (simp add: reads_return)

lemma reads_bounded [reads_intros]: "length bs = n \<Longrightarrow> n \<le> mx \<Longrightarrow> reads (r_bounded n mx) bs bs"
  using reads_take by (auto simp: r_bounded_def)

lemma reads_raw [reads_intros]: "length bs = n \<Longrightarrow> n \<le> mx \<Longrightarrow> reads (r_raw n mx) (w_raw bs) bs"
  unfolding r_raw_def w_raw_def by (intro reads_if_err reads_bounded)

lemma reads_str [reads_intros]: "length s \<le> mx \<Longrightarrow> length s < 65536 \<Longrightarrow> reads (r_str mx) (w_str s) s"
  unfolding r_str_def w_str_def
  by (rule reads_bind [OF reads_u16]) (intro reads_if_err reads_bounded; simp add: unat_of_nat)

lemma reads_blob [reads_intros]: "length s \<le> mx \<Longrightarrow> length s < 65536 \<Longrightarrow> reads (r_blob mx) (w_blob s) s"
  unfolding r_blob_def w_blob_def
  by (rule reads_bind [OF reads_u16]) (intro reads_if_err reads_bounded; simp add: unat_of_nat)

lemma reads_times:
  "\<forall>x\<in>set xs. reads p (f x) x \<Longrightarrow> reads (r_times (length xs) p) (concat (map f xs)) xs"
proof (induction xs)
  case Nil
  then show ?case by (simp add: reads_return)
next
  case (Cons x xs)
  have "reads (p \<bind> (\<lambda>x. r_times (length xs) p \<bind> (\<lambda>xs. State_Monad.return (x # xs))))
      (f x @ concat (map f xs)) (x # xs)"
    using Cons.IH Cons.prems
    by (intro reads_bind) (auto intro: reads_bind_last [where a = xs] reads_return)
  then show ?case by (auto intro: reads_if_err)
qed

text \<open>
  The field-by-field form: one rule per primitive for a field followed by more bytes and one for
  the last field, so that \<open>intro reads_fields\<close> walks a message body.
\<close>

named_theorems reads_fields \<open>a field followed by the rest of the body\<close>

lemma reads_returnI [reads_fields]: "v = w \<Longrightarrow> reads (State_Monad.return v) [] w"
  by (simp add: reads_return)

lemma reads_field [reads_fields]:
  "reads (q_u8 a) bs b \<Longrightarrow> reads (r_u8 \<bind> q_u8) (w_u8 a @ bs) b"
  "reads (q_u16 c) bs b \<Longrightarrow> reads (r_u16 \<bind> q_u16) (w_u16 c @ bs) b"
  "reads (q_u32 d) bs b \<Longrightarrow> reads (r_u32 \<bind> q_u32) (w_u32 d @ bs) b"
  "reads (q_u64 e) bs b \<Longrightarrow> reads (r_u64 \<bind> q_u64) (w_u64 e @ bs) b"
  "is_int64 i \<Longrightarrow> reads (q_i64 i) bs b \<Longrightarrow> reads (r_i64 \<bind> q_i64) (w_i64 i @ bs) b"
  "length s \<le> mx \<Longrightarrow> length s < 65536 \<Longrightarrow> reads (q_s s) bs b \<Longrightarrow> reads (r_str mx \<bind> q_s) (w_str s @ bs) b"
  "length s \<le> mx \<Longrightarrow> length s < 65536 \<Longrightarrow> reads (q_s s) bs b \<Longrightarrow> reads (r_blob mx \<bind> q_s) (w_blob s @ bs) b"
  "length s = n \<Longrightarrow> n \<le> mx \<Longrightarrow> reads (q_s s) bs b \<Longrightarrow> reads (r_raw n mx \<bind> q_s) (w_raw s @ bs) b"
  by (blast intro: reads_bind reads_u8 reads_u16 reads_u32 reads_u64 reads_i64 reads_str reads_blob reads_raw)+

lemma reads_last_field [reads_fields]:
  "reads (q_u8 a) [] b \<Longrightarrow> reads (r_u8 \<bind> q_u8) (w_u8 a) b"
  "reads (q_u16 c) [] b \<Longrightarrow> reads (r_u16 \<bind> q_u16) (w_u16 c) b"
  "reads (q_u32 d) [] b \<Longrightarrow> reads (r_u32 \<bind> q_u32) (w_u32 d) b"
  "reads (q_u64 e) [] b \<Longrightarrow> reads (r_u64 \<bind> q_u64) (w_u64 e) b"
  "length s \<le> mx \<Longrightarrow> length s < 65536 \<Longrightarrow> reads (q_s s) [] b \<Longrightarrow> reads (r_str mx \<bind> q_s) (w_str s) b"
  "length s \<le> mx \<Longrightarrow> length s < 65536 \<Longrightarrow> reads (q_s s) [] b \<Longrightarrow> reads (r_blob mx \<bind> q_s) (w_blob s) b"
  "length s = n \<Longrightarrow> n \<le> mx \<Longrightarrow> reads (q_s s) [] b \<Longrightarrow> reads (r_raw n mx \<bind> q_s) (w_raw s) b"
  by (blast intro: reads_bind_last reads_u8 reads_u16 reads_u32 reads_u64 reads_str reads_blob reads_raw)+

text \<open>What a whole buffer decodes to: trailing bytes are left unread.\<close>

lemma reads_run:
  assumes "reads p bs v"
  shows "run_state p (rd_init (bs @ post)) = (v, \<lparr>rd_b = bs @ post, rd_i = length bs, rd_err = False\<rparr>)"
  using readsD [OF assms, of "[]" post] by (simp add: rd_init_def)

section \<open>A latched error stays, and no read passes the end of the buffer\<close>

text \<open>
  \<open>safe p\<close>: the action never moves the position past the buffer's end, never changes the
  buffer, and never clears a latched error.
\<close>

definition rd_le :: "reader \<Rightarrow> reader \<Rightarrow> bool" where
  "rd_le r r' \<longleftrightarrow> rd_b r' = rd_b r \<and> rd_i r \<le> rd_i r' \<and> rd_i r' \<le> length (rd_b r) \<and>
     (rd_err r \<longrightarrow> rd_err r')"

definition safe :: "'a rd \<Rightarrow> bool" where
  "safe p \<longleftrightarrow> (\<forall>r. rd_i r \<le> length (rd_b r) \<longrightarrow> rd_le r (snd (run_state p r)))"

named_theorems safe_intros \<open>reader actions that respect the buffer\<close>

lemma safeD: "safe p \<Longrightarrow> rd_i r \<le> length (rd_b r) \<Longrightarrow> run_state p r = (a, r') \<Longrightarrow> rd_le r r'"
  unfolding safe_def by (metis snd_conv)

lemma rd_le_trans: "rd_le a b \<Longrightarrow> rd_le b c \<Longrightarrow> rd_le a c"
  by (auto simp: rd_le_def)

lemma rd_le_bound: "rd_le a b \<Longrightarrow> rd_i b \<le> length (rd_b b)"
  by (simp add: rd_le_def)

lemma run_bind: "run_state (p \<bind> q) r = (case run_state p r of (a, r') \<Rightarrow> run_state (q a) r')"
  by (simp add: State_Monad.bind_def)

lemma safe_return [safe_intros]: "safe (State_Monad.return v)"
  by (simp add: safe_def rd_le_def)

lemma safe_bind [safe_intros]:
  assumes p: "safe p" and q: "\<And>a. safe (q a)"
  shows "safe (p \<bind> q)"
  unfolding safe_def
proof (intro allI impI)
  fix r :: reader
  assume r: "rd_i r \<le> length (rd_b r)"
  obtain a r1 where 1: "run_state p r = (a, r1)" by fastforce
  obtain b r2 where 2: "run_state (q a) r1 = (b, r2)" by fastforce
  have le: "rd_le r r1" using safeD [OF p r 1] .
  with safeD [OF q rd_le_bound [OF le] 2] have "rd_le r r2" by (blast intro: rd_le_trans)
  then show "rd_le r (snd (run_state (p \<bind> q) r))" using 1 2 by (simp add: run_bind)
qed

lemma safe_if [safe_intros]: "safe p \<Longrightarrow> safe q \<Longrightarrow> safe (if b then p else q)"
  by simp

lemma safe_basic [safe_intros]: "safe r_fail" "safe r_err" "safe (r_need n)" "safe r_remaining"
  by (simp_all add: safe_def rd_le_def r_fail_def r_err_def r_need_def r_remaining_def)

lemma safe_need_take:
  assumes f: "\<And>p. safe (f p)" and q: "safe q"
  shows "safe (r_need n \<bind> (\<lambda>ok. if \<not> ok then q else r_take n \<bind> f))"
  unfolding safe_def
proof (intro allI impI)
  fix r :: reader
  assume r: "rd_i r \<le> length (rd_b r)"
  let ?m = "r_need n \<bind> (\<lambda>ok. if \<not> ok then q else r_take n \<bind> f)"
  consider (err) "rd_err r" | (short) "\<not> rd_err r" "rd_i r + n > length (rd_b r)"
    | (ok) "\<not> rd_err r" "rd_i r + n \<le> length (rd_b r)" by linarith
  then show "rd_le r (snd (run_state ?m r))"
  proof cases
    case err
    then have "run_state ?m r = run_state q r" by (simp add: run_bind r_need_def)
    then show ?thesis using q r by (simp add: safe_def)
  next
    case short
    then have eq: "run_state ?m r = run_state q (r\<lparr>rd_err := True\<rparr>)" by (simp add: run_bind r_need_def)
    have 2: "rd_le (r\<lparr>rd_err := True\<rparr>) (snd (run_state q (r\<lparr>rd_err := True\<rparr>)))"
      using q r by (simp add: safe_def)
    have 1: "rd_le r (r\<lparr>rd_err := True\<rparr>)" using r by (simp add: rd_le_def)
    show ?thesis unfolding eq by (rule rd_le_trans [OF 1 2])
  next
    case ok
    let ?r = "r\<lparr>rd_i := rd_i r + n\<rparr>" and ?f = "f (take n (drop (rd_i r) (rd_b r)))"
    have eq: "run_state ?m r = run_state ?f ?r"
      using ok by (simp add: run_bind r_need_def r_take_def)
    have 1: "rd_le r ?r" using ok by (simp add: rd_le_def)
    have 2: "rd_le ?r (snd (run_state ?f ?r))"
      using f [of "take n (drop (rd_i r) (rd_b r))"] ok unfolding safe_def by simp
    show ?thesis unfolding eq by (rule rd_le_trans [OF 1 2])
  qed
qed

lemma safe_need_take_end:
  assumes "safe q" shows "safe (r_need n \<bind> (\<lambda>ok. if \<not> ok then q else r_take n))"
proof -
  have "r_take n \<bind> State_Monad.return = r_take n"
    by (rule state_ext) (simp add: run_bind split: prod.splits)
  then have "(\<lambda>ok. if \<not> ok then q else r_take n) =
      (\<lambda>ok. if \<not> ok then q else r_take n \<bind> State_Monad.return)"
    by (intro ext) (simp cong: if_cong)
  then show ?thesis using safe_need_take [of State_Monad.return q n, OF safe_return assms]
    by (simp only:)
qed

lemma safe_fields [safe_intros]:
  "safe r_u8" "safe r_u16" "safe r_u32" "safe r_u64" "safe r_i64"
  "safe (r_bounded n mx)" "safe (r_str mx)" "safe (r_blob mx)" "safe (r_raw n mx)"
proof -
  show u8: "safe r_u8" "safe r_u16" "safe r_u32" "safe r_u64"
    unfolding r_u8_def r_u16_def r_u32_def r_u64_def by (intro safe_need_take safe_return)+
  show "safe r_i64" unfolding r_i64_def by (intro safe_bind safe_return u8)
  show b: "safe (r_bounded n mx)" for n mx
    unfolding r_bounded_def by (intro safe_if safe_need_take_end safe_bind safe_basic safe_return)
  show "safe (r_str mx)" "safe (r_blob mx)" "safe (r_raw n mx)"
    unfolding r_str_def r_blob_def r_raw_def by (intro safe_bind safe_if u8 b safe_basic safe_return)+
qed

lemma safe_times [safe_intros]: "safe p \<Longrightarrow> safe (r_times n p)"
  by (induction n) (auto intro!: safe_intros)

section \<open>What a successful read consumed\<close>

text \<open>
  \<open>consumes p W\<close>: whenever \<open>p\<close> ends without a latched error, the bytes \<open>bs\<close> it moved over and
  its result \<open>v\<close> satisfy \<open>W v bs\<close>. This is the converse direction of \<open>reads\<close>.
\<close>

definition consumes :: "'a rd \<Rightarrow> ('a \<Rightarrow> bytes \<Rightarrow> bool) \<Rightarrow> bool" where
  "consumes p W \<longleftrightarrow> (\<forall>pre rest v r'.
     run_state p \<lparr>rd_b = pre @ rest, rd_i = length pre, rd_err = False\<rparr> = (v, r') \<longrightarrow> \<not> rd_err r' \<longrightarrow>
     (\<exists>bs post. rest = bs @ post \<and> W v bs \<and>
        r' = \<lparr>rd_b = pre @ rest, rd_i = length pre + length bs, rd_err = False\<rparr>))"

named_theorems consumes_fields \<open>a field read back from the consumed bytes\<close>

lemma consumesE:
  assumes "consumes p W"
    and "run_state p \<lparr>rd_b = pre @ rest, rd_i = length pre, rd_err = False\<rparr> = (v, r')" and "\<not> rd_err r'"
  obtains bs post where "rest = bs @ post" and "W v bs"
    and "r' = \<lparr>rd_b = pre @ rest, rd_i = length pre + length bs, rd_err = False\<rparr>"
  using assms unfolding consumes_def by blast

lemma consumes_mono: "consumes p V \<Longrightarrow> (\<And>v bs. V v bs \<Longrightarrow> W v bs) \<Longrightarrow> consumes p W"
  unfolding consumes_def by blast

lemma consumes_return [consumes_fields]: "W v [] \<Longrightarrow> consumes (State_Monad.return v) W"
  unfolding consumes_def by auto

lemma consumes_bind:
  assumes p: "consumes p V" and safe: "safe p" "\<And>a. safe (q a)"
    and q: "\<And>a as. V a as \<Longrightarrow> consumes (q a) (\<lambda>v bs. W v (as @ bs))"
  shows "consumes (p \<bind> q) W"
  unfolding consumes_def
proof (intro allI impI)
  fix pre rest v r'
  let ?r = "\<lparr>rd_b = pre @ rest, rd_i = length pre, rd_err = False\<rparr>"
  assume run: "run_state (p \<bind> q) ?r = (v, r')" and ok: "\<not> rd_err r'"
  obtain a r1 where 1: "run_state p ?r = (a, r1)" by fastforce
  with run have 2: "run_state (q a) r1 = (v, r')" by (simp add: run_bind)
  have "rd_le ?r r1" by (rule safeD [OF safe(1) _ 1]) simp
  then have "rd_le r1 r'" by (intro safeD [OF safe(2) _ 2]) (rule rd_le_bound)
  with ok have ok1: "\<not> rd_err r1" by (auto simp: rd_le_def)
  from consumesE [OF p 1 ok1] obtain as post where as: "rest = as @ post" "V a as"
    and r1: "r1 = \<lparr>rd_b = pre @ rest, rd_i = length pre + length as, rd_err = False\<rparr>" by blast
  have "run_state (q a) \<lparr>rd_b = (pre @ as) @ post, rd_i = length (pre @ as), rd_err = False\<rparr> = (v, r')"
    using 2 by (simp add: r1 as)
  from consumesE [OF q [OF as(2)] this ok] obtain bs post' where "post = bs @ post'" "W v (as @ bs)"
    and "r' = \<lparr>rd_b = (pre @ as) @ post, rd_i = length (pre @ as) + length bs, rd_err = False\<rparr>" by blast
  then have "rest = (as @ bs) @ post' \<and> W v (as @ bs) \<and>
      r' = \<lparr>rd_b = pre @ rest, rd_i = length pre + length (as @ bs), rd_err = False\<rparr>"
    by (simp add: as add.assoc)
  then show "\<exists>bs post. rest = bs @ post \<and> W v bs \<and>
      r' = \<lparr>rd_b = pre @ rest, rd_i = length pre + length bs, rd_err = False\<rparr>" by blast
qed

text \<open>Taking \<open>n\<close> bytes and applying a pure function; the failure branch ends in an error state.\<close>

lemma consumes_take:
  assumes "\<And>r. rd_err r \<Longrightarrow> rd_err (snd (run_state q r))"
  shows "consumes (r_need n \<bind> (\<lambda>ok. if \<not> ok then q else r_take n \<bind> (\<lambda>p. State_Monad.return (f p))))
    (\<lambda>v bs. length bs = n \<and> v = f bs)"
  unfolding consumes_def
proof (intro allI impI)
  fix pre rest v r'
  let ?r = "\<lparr>rd_b = pre @ rest, rd_i = length pre, rd_err = False\<rparr>"
  let ?m = "r_need n \<bind> (\<lambda>ok. if \<not> ok then q else r_take n \<bind> (\<lambda>p. State_Monad.return (f p)))"
  assume run: "run_state ?m ?r = (v, r')" and ok: "\<not> rd_err r'"
  have n: "n \<le> length rest"
  proof (rule ccontr)
    assume "\<not> n \<le> length rest"
    then have "run_state ?m ?r = run_state q (?r\<lparr>rd_err := True\<rparr>)" by (simp add: run_bind r_need_def)
    with run have "snd (run_state q (?r\<lparr>rd_err := True\<rparr>)) = r'" by (metis snd_conv)
    with ok show False using assms [of "?r\<lparr>rd_err := True\<rparr>"] by simp
  qed
  then have "v = f (take n rest)" "r' = ?r\<lparr>rd_i := length pre + n\<rparr>"
    using run by (auto simp: run_bind r_need_def r_take_def)
  with n show "\<exists>bs post. rest = bs @ post \<and> (length bs = n \<and> v = f bs) \<and>
      r' = \<lparr>rd_b = pre @ rest, rd_i = length pre + length bs, rd_err = False\<rparr>"
    by (intro exI [of _ "take n rest"] exI [of _ "drop n rest"]) simp
qed

lemma r_take_return: "r_take n \<bind> (\<lambda>p. State_Monad.return p) = r_take n"
  by (rule state_ext) (simp add: run_bind split: prod.splits)

lemma consumes_fixed:
  "consumes r_u8 (\<lambda>v bs. bs = w_u8 v)" "consumes r_u16 (\<lambda>v bs. bs = w_u16 v)"
  "consumes r_u32 (\<lambda>v bs. bs = w_u32 v)" "consumes r_u64 (\<lambda>v bs. bs = w_u64 v)"
  unfolding r_u8_def r_u16_def r_u32_def r_u64_def
  by (rule consumes_mono [OF consumes_take]; 
      auto simp: w_u8_def w_u16_def w_u32_def w_u64_def be16_get16 be32_get32 be64_get64 length_Suc_conv)+

lemma consumes_i64: "consumes r_i64 (\<lambda>v bs. bs = w_i64 v \<and> is_int64 v)"
  unfolding r_i64_def
  by (rule consumes_bind [OF consumes_fixed(4)])
    (auto intro!: safe_intros consumes_return simp: w_i64_def i64_of_u64_def [symmetric]
      , simp add: i64_of_u64_def)

lemma consumes_bounded: "consumes (r_bounded n mx) (\<lambda>v bs. v = bs \<and> length v = n \<and> n \<le> mx)"
proof (cases "n > mx")
  case True
  then show ?thesis by (auto simp: r_bounded_def consumes_def run_bind r_fail_def)
next
  case False
  have "consumes (r_need n \<bind> (\<lambda>ok. if \<not> ok then r_fail \<bind> (\<lambda>_. State_Monad.return [])
      else r_take n \<bind> (\<lambda>p. State_Monad.return p))) (\<lambda>v bs. length bs = n \<and> v = bs)"
    by (rule consumes_take) (simp add: run_bind r_fail_def)
  with False show ?thesis
    unfolding r_bounded_def r_take_return by (auto elim: consumes_mono)
qed

lemma consumes_if_err:
  assumes "consumes p W" shows "consumes (r_err \<bind> (\<lambda>e. if e then q else p)) W"
  using assms unfolding consumes_def by (simp add: run_bind r_err_def)

lemma consumes_var:
  "consumes (r_str mx) (\<lambda>v bs. bs = w_str v \<and> length v \<le> mx)"
  "consumes (r_blob mx) (\<lambda>v bs. bs = w_blob v \<and> length v \<le> mx)"
  "consumes (r_raw n mx) (\<lambda>v bs. bs = w_raw v \<and> length v = n \<and> n \<le> mx)"
  unfolding r_str_def r_blob_def r_raw_def
  by (rule consumes_bind [OF consumes_fixed(2)] consumes_if_err consumes_mono [OF consumes_bounded];
      (intro safe_intros | auto simp: w_str_def w_blob_def w_raw_def intro!: safe_intros
        consumes_if_err consumes_mono [OF consumes_bounded]))+

text \<open>The field-by-field form.\<close>

lemma consumes_field [consumes_fields]:
  "(\<And>a. safe (q_u8 a)) \<Longrightarrow> (\<And>a. consumes (q_u8 a) (\<lambda>v bs. W v (w_u8 a @ bs))) \<Longrightarrow> consumes (r_u8 \<bind> q_u8) W"
  "(\<And>a. safe (q_u16 a)) \<Longrightarrow> (\<And>a. consumes (q_u16 a) (\<lambda>v bs. W v (w_u16 a @ bs))) \<Longrightarrow> consumes (r_u16 \<bind> q_u16) W"
  "(\<And>a. safe (q_u32 a)) \<Longrightarrow> (\<And>a. consumes (q_u32 a) (\<lambda>v bs. W v (w_u32 a @ bs))) \<Longrightarrow> consumes (r_u32 \<bind> q_u32) W"
  "(\<And>a. safe (q_u64 a)) \<Longrightarrow> (\<And>a. consumes (q_u64 a) (\<lambda>v bs. W v (w_u64 a @ bs))) \<Longrightarrow> consumes (r_u64 \<bind> q_u64) W"
  "(\<And>a. safe (q_i64 a)) \<Longrightarrow> (\<And>a. is_int64 a \<Longrightarrow> consumes (q_i64 a) (\<lambda>v bs. W v (w_i64 a @ bs))) \<Longrightarrow>
    consumes (r_i64 \<bind> q_i64) W"
  "(\<And>a. safe (q_s a)) \<Longrightarrow> (\<And>a. length a \<le> mx \<Longrightarrow> consumes (q_s a) (\<lambda>v bs. W v (w_str a @ bs))) \<Longrightarrow>
    consumes (r_str mx \<bind> q_s) W"
  "(\<And>a. safe (q_s a)) \<Longrightarrow> (\<And>a. length a \<le> mx \<Longrightarrow> consumes (q_s a) (\<lambda>v bs. W v (w_blob a @ bs))) \<Longrightarrow>
    consumes (r_blob mx \<bind> q_s) W"
  "(\<And>a. safe (q_s a)) \<Longrightarrow>
    (\<And>a. length a = n \<Longrightarrow> n \<le> mx \<Longrightarrow> consumes (q_s a) (\<lambda>v bs. W v (w_raw a @ bs))) \<Longrightarrow>
    consumes (r_raw n mx \<bind> q_s) W"
  by (rule consumes_bind [OF consumes_fixed(1)] consumes_bind [OF consumes_fixed(2)]
        consumes_bind [OF consumes_fixed(3)] consumes_bind [OF consumes_fixed(4)]
        consumes_bind [OF consumes_i64] consumes_bind [OF consumes_var(1)]
        consumes_bind [OF consumes_var(2)] consumes_bind [OF consumes_var(3)]; 
      auto intro: safe_intros)+

lemma consumes_remaining [consumes_fields]:
  "(\<And>k. consumes (q k) W) \<Longrightarrow> consumes (r_remaining \<bind> q) W"
  unfolding consumes_def by (simp add: run_bind r_remaining_def)

lemma consumes_times:
  assumes p: "consumes p (\<lambda>v bs. bs = f v \<and> P v)" "safe p"
  shows "consumes (r_times n p) (\<lambda>vs bs. bs = concat (map f vs) \<and> length vs = n \<and> (\<forall>v\<in>set vs. P v))"
proof (induction n)
  case 0
  then show ?case by (simp add: consumes_return)
next
  case (Suc n)
  have "consumes (p \<bind> (\<lambda>x. r_times n p \<bind> (\<lambda>xs. State_Monad.return (x # xs))))
    (\<lambda>vs bs. bs = concat (map f vs) \<and> length vs = Suc n \<and> (\<forall>v\<in>set vs. P v))"
    using p(2)
    by (intro consumes_bind [OF p(1)] consumes_bind [OF Suc.IH] safe_intros consumes_return) auto
  then show ?case by (simp add: consumes_if_err)
qed

text \<open>A whole buffer.\<close>

lemma consumes_run:
  assumes "consumes p W" and "run_state p (rd_init b) = (v, r')" and "\<not> rd_err r'"
  shows "\<exists>bs post. b = bs @ post \<and> W v bs"
proof -
  have "run_state p \<lparr>rd_b = [] @ b, rd_i = length ([] :: bytes), rd_err = False\<rparr> = (v, r')"
    using assms(2) by (simp add: rd_init_def)
  from consumesE [OF assms(1) this assms(3)] show ?thesis by blast
qed

end
