(* ===== verification/Wire_Frame.thy ===== *)
theory Wire_Frame
  imports Wire_Codec Wire_Messages
begin

text \<open>
  The frame layer (\<^verbatim>\<open>internal/wire/frame.go\<close>, \<^verbatim>\<open>wire.go\<close>): the body encoder and decoder, one
  definition per message of the two type switches, and \<^verbatim>\<open>Marshal\<close> / \<^verbatim>\<open>Unmarshal\<close>.
\<close>

unbundle bit_operations_syntax

section \<open>Encoding bodies\<close>

definition enc_SessionParams :: "SessionParams \<Rightarrow> bytes" where
  "enc_SessionParams x =
     w_str (sp_RootName x) @ w_u8 (sp_SourceKind x) @ w_u8 (sp_HashAlg x) @ w_u64 (sp_GroupBytes x) @ w_u32 (sp_Flags x) @ w_u8 (sp_SourcePlatform x) @ w_u8 (sp_PathNorm x) @ w_str (sp_SenderVersion x) @ w_u32 (sp_MaxChannels x) @ w_str (sp_FilterSignature x) @ w_str (sp_SysexcludeTag x)"

definition enc_SessionReady :: "SessionReady \<Rightarrow> bytes" where
  "enc_SessionReady x =
     w_u16 (sr_Channels x) @ w_u16 (sr_GroupCredit x) @ w_u8 (sr_PipelineDepth x) @ w_u32 (sr_MaxChunk x) @ w_u8 (sr_DestPlatform x) @ w_str (sr_ReceiverVersion x) @ w_u64 (sr_DestFreeBytes x)"

definition enc_ScanProgress :: "ScanProgress \<Rightarrow> bytes" where
  "enc_ScanProgress x =
     w_u64 (pr_EntriesSeen x) @ w_u64 (pr_BytesSeen x) @ w_u32 (pr_ErrorsSeen x)"

definition enc_ScanComplete :: "ScanComplete \<Rightarrow> bytes" where
  "enc_ScanComplete x =
     w_u64 (sc_TotalFiles x) @ w_u64 (sc_TotalBytes x) @ w_u32 (sc_TotalGroups x) @ w_u32 (sc_SkippedEntries x) @ w_blob (sc_ManifestDigest x)"

definition enc_Credit :: "Credit \<Rightarrow> bytes" where
  "enc_Credit x =
     w_u16 (cr_AdditionalGroups x)"

definition enc_FileRequest :: "FileRequest \<Rightarrow> bytes" where
  "enc_FileRequest x =
     w_u64 (fq_RequestID x) @ w_u64 (fq_FileID x) @ w_u64 (fq_Offset x) @ w_u32 (fq_MaxChunk x)"

definition enc_FileHeader :: "FileHeader \<Rightarrow> bytes" where
  "enc_FileHeader x =
     w_u64 (fh_RequestID x) @ w_u64 (fh_FileID x) @ w_u64 (fh_Size x) @ w_u32 (fh_Mode x) @ w_i64 (fh_MtimeSec x) @ w_u32 (fh_MtimeNsec x) @ w_u8 (word_of_nat (length (fh_Digest x))) @ w_raw (fh_Digest x) @ w_u32 (fh_ChunkSize x)"

definition enc_FileChunk :: "FileChunk \<Rightarrow> bytes" where
  "enc_FileChunk x =
     w_u64 (fc_RequestID x) @ w_u64 (fc_Offset x) @ w_u32 (word_of_nat (length (fc_Data x))) @ w_raw (fc_Data x)"

definition enc_FileComplete :: "FileComplete \<Rightarrow> bytes" where
  "enc_FileComplete x =
     w_u64 (fp_RequestID x) @ w_u64 (fp_BytesSent x) @ w_u8 (word_of_nat (length (fp_DigestFull x))) @ w_raw (fp_DigestFull x)"

definition enc_FileError :: "FileError \<Rightarrow> bytes" where
  "enc_FileError x =
     w_u64 (fe_RequestID x) @ w_u16 (fe_Code x) @ w_u8 (fe_Retryable x) @ w_str (fe_Message x)"

definition enc_FileCancel :: "FileCancel \<Rightarrow> bytes" where
  "enc_FileCancel x =
     w_u64 (fx_RequestID x) @ w_u16 (fx_Reason x)"

definition enc_Ping :: "Ping \<Rightarrow> bytes" where
  "enc_Ping x =
     w_u64 (pi_Token x)"

definition enc_Pong :: "Pong \<Rightarrow> bytes" where
  "enc_Pong x =
     w_u64 (po_Token x)"

definition enc_SessionResume :: "SessionResume \<Rightarrow> bytes" where
  "enc_SessionResume x =
     w_u64 (su_SessionID x) @ w_blob (su_Nonce x) @ w_blob (su_Tag x) @ w_u64 (su_LastSeqSeen x)"

definition encodeManifestEntry :: "ManifestEntry \<Rightarrow> bytes" where
  "encodeManifestEntry e =
     w_u8 (me_EntryType e) @ w_u16 (me_Flags e) @ w_blob (me_Path e) @ w_u64 (me_Size e) @
     w_u32 (me_Mode e) @ w_i64 (me_MtimeSec e) @ w_u32 (me_MtimeNsec e) @
     w_u8 (word_of_nat (length (me_Digest e))) @ w_raw (me_Digest e) @
     (if me_EntryType e = 2 then w_blob (me_LinkTarget e) else []) @
     (if me_Flags e AND ManifestFlagHasHardlinkKey \<noteq> 0 then w_u64 (me_HardlinkKey e) else [])"

definition enc_GroupManifest :: "GroupManifest \<Rightarrow> bytes" where
  "enc_GroupManifest x =
     w_u32 (gm_GroupID x) @ w_u64 (gm_FirstFileID x) @
     w_u16 (word_of_nat (length (gm_Entries x))) @ concat (map encodeManifestEntry (gm_Entries x))"

definition enc_RejectedEntry :: "RejectedEntry \<Rightarrow> bytes" where
  "enc_RejectedEntry rj = w_u16 (rj_Index rj) @ w_u16 (rj_ErrorCode rj)"

definition enc_GroupDecision :: "GroupDecision \<Rightarrow> bytes" where
  "enc_GroupDecision x =
     w_u32 (gd_GroupID x) @
     w_u16 (word_of_nat (length (gd_Needed x))) @ concat (map w_u16 (gd_Needed x)) @
     w_u16 (gd_SkippedCount x) @
     w_u16 (word_of_nat (length (gd_Rejected x))) @ concat (map enc_RejectedEntry (gd_Rejected x))"

definition encodeSummary ::
    "u64 \<Rightarrow> u64 \<Rightarrow> u64 \<Rightarrow> u64 \<Rightarrow> u64 \<Rightarrow> u32 \<Rightarrow> bytes \<Rightarrow> bytes" where
  "encodeSummary ft ftr fs ff bt gt digest =
     w_u64 ft @ w_u64 ftr @ w_u64 fs @ w_u64 ff @ w_u64 bt @ w_u32 gt @ w_blob digest"

definition enc_SessionSummary :: "SessionSummary \<Rightarrow> bytes" where
  "enc_SessionSummary x =
     encodeSummary (ss_FilesTotal x) (ss_FilesTransferred x) (ss_FilesSkipped x) (ss_FilesFailed x)
       (ss_BytesTransferred x) (ss_GroupsTotal x) (ss_CompletionDigest x)"

definition enc_SessionSummaryAck :: "SessionSummaryAck \<Rightarrow> bytes" where
  "enc_SessionSummaryAck x =
     encodeSummary (sa_FilesTotal x) (sa_FilesTransferred x) (sa_FilesSkipped x) (sa_FilesFailed x)
       (sa_BytesTransferred x) (sa_GroupsTotal x) (sa_CompletionDigest x)"

definition enc_Error :: "Error \<Rightarrow> bytes" where
  "enc_Error x = w_u16 (er_Code x) @ w_u8 (er_Fatal x) @ w_str (er_Message x) @ w_str (er_Detail x)"

fun encodeBody :: "Message \<Rightarrow> Code + bytes" where
  "encodeBody (M_SessionParams x) = Inr (enc_SessionParams x)"
| "encodeBody (M_SessionReady x) = Inr (enc_SessionReady x)"
| "encodeBody (M_ScanProgress x) = Inr (enc_ScanProgress x)"
| "encodeBody (M_ScanComplete x) = Inr (enc_ScanComplete x)"
| "encodeBody (M_GroupManifest x) = Inr (enc_GroupManifest x)"
| "encodeBody (M_GroupDecision x) = Inr (enc_GroupDecision x)"
| "encodeBody (M_Credit x) = Inr (enc_Credit x)"
| "encodeBody (M_FileRequest x) = Inr (enc_FileRequest x)"
| "encodeBody (M_FileHeader x) = Inr (enc_FileHeader x)"
| "encodeBody (M_FileChunk x) = Inr (enc_FileChunk x)"
| "encodeBody (M_FileComplete x) = Inr (enc_FileComplete x)"
| "encodeBody (M_FileError x) = Inr (enc_FileError x)"
| "encodeBody (M_FileCancel x) = Inr (enc_FileCancel x)"
| "encodeBody (M_SessionSummary x) = Inr (enc_SessionSummary x)"
| "encodeBody (M_SessionSummaryAck x) = Inr (enc_SessionSummaryAck x)"
| "encodeBody (M_Error x) = Inr (enc_Error x)"
| "encodeBody (M_Ping x) = Inr (enc_Ping x)"
| "encodeBody (M_Pong x) = Inr (enc_Pong x)"
| "encodeBody (M_SessionResume x) = Inr (enc_SessionResume x)"
| "encodeBody (M_Foreign t) = Inl E5011"

section \<open>Decoding bodies\<close>

definition dec_SessionParams :: "SessionParams rd" where
  "dec_SessionParams = do {
     rootName' \<leftarrow> r_str maxStr;
     sourceKind' \<leftarrow> r_u8;
     hashAlg' \<leftarrow> r_u8;
     groupBytes' \<leftarrow> r_u64;
     flags' \<leftarrow> r_u32;
     sourcePlatform' \<leftarrow> r_u8;
     pathNorm' \<leftarrow> r_u8;
     senderVersion' \<leftarrow> r_str maxStr;
     maxChannels' \<leftarrow> r_u32;
     filterSignature' \<leftarrow> r_str maxStr;
     sysexcludeTag' \<leftarrow> r_str maxStr;
     State_Monad.return \<lparr>sp_RootName = rootName', sp_SourceKind = sourceKind', sp_HashAlg = hashAlg', sp_GroupBytes = groupBytes', sp_Flags = flags', sp_SourcePlatform = sourcePlatform', sp_PathNorm = pathNorm', sp_SenderVersion = senderVersion', sp_MaxChannels = maxChannels', sp_FilterSignature = filterSignature', sp_SysexcludeTag = sysexcludeTag'\<rparr> }"

definition dec_SessionReady :: "SessionReady rd" where
  "dec_SessionReady = do {
     channels' \<leftarrow> r_u16;
     groupCredit' \<leftarrow> r_u16;
     pipelineDepth' \<leftarrow> r_u8;
     maxChunk' \<leftarrow> r_u32;
     destPlatform' \<leftarrow> r_u8;
     receiverVersion' \<leftarrow> r_str maxStr;
     destFreeBytes' \<leftarrow> r_u64;
     State_Monad.return \<lparr>sr_Channels = channels', sr_GroupCredit = groupCredit', sr_PipelineDepth = pipelineDepth', sr_MaxChunk = maxChunk', sr_DestPlatform = destPlatform', sr_ReceiverVersion = receiverVersion', sr_DestFreeBytes = destFreeBytes'\<rparr> }"

definition dec_ScanProgress :: "ScanProgress rd" where
  "dec_ScanProgress = do {
     entriesSeen' \<leftarrow> r_u64;
     bytesSeen' \<leftarrow> r_u64;
     errorsSeen' \<leftarrow> r_u32;
     State_Monad.return \<lparr>pr_EntriesSeen = entriesSeen', pr_BytesSeen = bytesSeen', pr_ErrorsSeen = errorsSeen'\<rparr> }"

definition dec_ScanComplete :: "ScanComplete rd" where
  "dec_ScanComplete = do {
     totalFiles' \<leftarrow> r_u64;
     totalBytes' \<leftarrow> r_u64;
     totalGroups' \<leftarrow> r_u32;
     skippedEntries' \<leftarrow> r_u32;
     manifestDigest' \<leftarrow> r_blob maxDigest;
     State_Monad.return \<lparr>sc_TotalFiles = totalFiles', sc_TotalBytes = totalBytes', sc_TotalGroups = totalGroups', sc_SkippedEntries = skippedEntries', sc_ManifestDigest = manifestDigest'\<rparr> }"

definition dec_Credit :: "Credit rd" where
  "dec_Credit = do {
     additionalGroups' \<leftarrow> r_u16;
     State_Monad.return \<lparr>cr_AdditionalGroups = additionalGroups'\<rparr> }"

definition dec_FileRequest :: "FileRequest rd" where
  "dec_FileRequest = do {
     requestID' \<leftarrow> r_u64;
     fileID' \<leftarrow> r_u64;
     offset' \<leftarrow> r_u64;
     maxChunk' \<leftarrow> r_u32;
     State_Monad.return \<lparr>fq_RequestID = requestID', fq_FileID = fileID', fq_Offset = offset', fq_MaxChunk = maxChunk'\<rparr> }"

definition dec_FileHeader :: "FileHeader rd" where
  "dec_FileHeader = do {
     requestID' \<leftarrow> r_u64;
     fileID' \<leftarrow> r_u64;
     size' \<leftarrow> r_u64;
     mode' \<leftarrow> r_u32;
     mtimeSec' \<leftarrow> r_i64;
     mtimeNsec' \<leftarrow> r_u32;
     dl \<leftarrow> r_u8;
     digest' \<leftarrow> r_raw (unat dl) maxDigest;
     chunkSize' \<leftarrow> r_u32;
     State_Monad.return \<lparr>fh_RequestID = requestID', fh_FileID = fileID', fh_Size = size', fh_Mode = mode', fh_MtimeSec = mtimeSec', fh_MtimeNsec = mtimeNsec', fh_Digest = digest', fh_ChunkSize = chunkSize'\<rparr> }"

definition dec_FileChunk :: "FileChunk rd" where
  "dec_FileChunk = do {
     requestID' \<leftarrow> r_u64;
     offset' \<leftarrow> r_u64;
     dl \<leftarrow> r_u32;
     data' \<leftarrow> r_raw (unat dl) maxChunkData;
     State_Monad.return \<lparr>fc_RequestID = requestID', fc_Offset = offset', fc_Data = data'\<rparr> }"

definition dec_FileComplete :: "FileComplete rd" where
  "dec_FileComplete = do {
     requestID' \<leftarrow> r_u64;
     bytesSent' \<leftarrow> r_u64;
     dl \<leftarrow> r_u8;
     digestFull' \<leftarrow> r_raw (unat dl) maxDigest;
     State_Monad.return \<lparr>fp_RequestID = requestID', fp_BytesSent = bytesSent', fp_DigestFull = digestFull'\<rparr> }"

definition dec_FileError :: "FileError rd" where
  "dec_FileError = do {
     requestID' \<leftarrow> r_u64;
     code' \<leftarrow> r_u16;
     retryable' \<leftarrow> r_u8;
     message' \<leftarrow> r_str maxStr;
     State_Monad.return \<lparr>fe_RequestID = requestID', fe_Code = code', fe_Retryable = retryable', fe_Message = message'\<rparr> }"

definition dec_FileCancel :: "FileCancel rd" where
  "dec_FileCancel = do {
     requestID' \<leftarrow> r_u64;
     reason' \<leftarrow> r_u16;
     State_Monad.return \<lparr>fx_RequestID = requestID', fx_Reason = reason'\<rparr> }"

definition dec_Ping :: "Ping rd" where
  "dec_Ping = do {
     token' \<leftarrow> r_u64;
     State_Monad.return \<lparr>pi_Token = token'\<rparr> }"

definition dec_Pong :: "Pong rd" where
  "dec_Pong = do {
     token' \<leftarrow> r_u64;
     State_Monad.return \<lparr>po_Token = token'\<rparr> }"

definition dec_SessionResume :: "SessionResume rd" where
  "dec_SessionResume = do {
     sessionID' \<leftarrow> r_u64;
     nonce' \<leftarrow> r_blob maxBlob;
     tag' \<leftarrow> r_blob maxBlob;
     lastSeqSeen' \<leftarrow> r_u64;
     State_Monad.return \<lparr>su_SessionID = sessionID', su_Nonce = nonce', su_Tag = tag', su_LastSeqSeen = lastSeqSeen'\<rparr> }"

definition decodeManifestEntry :: "ManifestEntry rd" where
  "decodeManifestEntry = do {
     entryType' \<leftarrow> r_u8;
     flags' \<leftarrow> r_u16;
     path' \<leftarrow> r_blob maxPathBytes;
     size' \<leftarrow> r_u64;
     mode' \<leftarrow> r_u32;
     mtimeSec' \<leftarrow> r_i64;
     mtimeNsec' \<leftarrow> r_u32;
     dl \<leftarrow> r_u8;
     digest' \<leftarrow> r_raw (unat dl) maxDigest;
     linkTarget' \<leftarrow> (if entryType' = 2 then r_blob maxPathBytes else State_Monad.return []);
     hardlinkKey' \<leftarrow> (if flags' AND ManifestFlagHasHardlinkKey \<noteq> 0 then r_u64 else State_Monad.return 0);
     State_Monad.return \<lparr>me_EntryType = entryType', me_Flags = flags', me_Path = path',
       me_Size = size', me_Mode = mode', me_MtimeSec = mtimeSec', me_MtimeNsec = mtimeNsec',
       me_Digest = digest', me_LinkTarget = linkTarget', me_HardlinkKey = hardlinkKey'\<rparr> }"

text \<open>
  A counted list: the count is a u16; a count above the maximum latches the error, and the loop
  runs only while there is none.
\<close>

definition r_counted :: "nat \<Rightarrow> 'a rd \<Rightarrow> 'a list rd" where
  "r_counted mx p = do {
     n \<leftarrow> r_u16;
     e \<leftarrow> r_err;
     (if \<not> e \<and> unat n > mx then r_fail else State_Monad.return ());
     e' \<leftarrow> r_err;
     (if \<not> e' \<and> unat n > 0 then r_times (unat n) p else State_Monad.return []) }"

definition dec_GroupManifest :: "GroupManifest rd" where
  "dec_GroupManifest = do {
     groupID' \<leftarrow> r_u32;
     firstFileID' \<leftarrow> r_u64;
     entries' \<leftarrow> r_counted maxEntryCount decodeManifestEntry;
     State_Monad.return \<lparr>gm_GroupID = groupID', gm_FirstFileID = firstFileID', gm_Entries = entries'\<rparr> }"

definition dec_RejectedEntry :: "RejectedEntry rd" where
  "dec_RejectedEntry = do {
     index' \<leftarrow> r_u16;
     errorCode' \<leftarrow> r_u16;
     State_Monad.return \<lparr>rj_Index = index', rj_ErrorCode = errorCode'\<rparr> }"

definition dec_GroupDecision :: "GroupDecision rd" where
  "dec_GroupDecision = do {
     groupID' \<leftarrow> r_u32;
     needed' \<leftarrow> r_counted maxIndexList r_u16;
     skippedCount' \<leftarrow> r_u16;
     rejected' \<leftarrow> r_counted maxIndexList dec_RejectedEntry;
     State_Monad.return \<lparr>gd_GroupID = groupID', gd_Needed = needed', gd_SkippedCount = skippedCount',
       gd_Rejected = rejected'\<rparr> }"

definition decodeSummary :: "(u64 \<Rightarrow> u64 \<Rightarrow> u64 \<Rightarrow> u64 \<Rightarrow> u64 \<Rightarrow> u32 \<Rightarrow> bytes \<Rightarrow> 'a) \<Rightarrow> 'a rd" where
  "decodeSummary k = do {
     ft \<leftarrow> r_u64;
     ftr \<leftarrow> r_u64;
     fs \<leftarrow> r_u64;
     ff \<leftarrow> r_u64;
     bt \<leftarrow> r_u64;
     gt \<leftarrow> r_u32;
     digest \<leftarrow> r_blob maxDigest;
     State_Monad.return (k ft ftr fs ff bt gt digest) }"

definition dec_SessionSummary :: "SessionSummary rd" where
  "dec_SessionSummary = decodeSummary (\<lambda>ft ftr fs ff bt gt digest.
     \<lparr>ss_FilesTotal = ft, ss_FilesTransferred = ftr, ss_FilesSkipped = fs, ss_FilesFailed = ff,
      ss_BytesTransferred = bt, ss_GroupsTotal = gt, ss_CompletionDigest = digest\<rparr>)"

definition dec_SessionSummaryAck :: "SessionSummaryAck rd" where
  "dec_SessionSummaryAck = decodeSummary (\<lambda>ft ftr fs ff bt gt digest.
     \<lparr>sa_FilesTotal = ft, sa_FilesTransferred = ftr, sa_FilesSkipped = fs, sa_FilesFailed = ff,
      sa_BytesTransferred = bt, sa_GroupsTotal = gt, sa_CompletionDigest = digest\<rparr>)"

text \<open>The detail is an optional trailing field: read only when bytes remain.\<close>

definition dec_Error :: "Error rd" where
  "dec_Error = do {
     code' \<leftarrow> r_u16;
     fatal' \<leftarrow> r_u8;
     message' \<leftarrow> r_str maxStr;
     rem \<leftarrow> r_remaining;
     detail' \<leftarrow> (if rem > 0 then r_str maxStr else State_Monad.return []);
     State_Monad.return \<lparr>er_Code = code', er_Fatal = fatal', er_Message = message', er_Detail = detail'\<rparr> }"

definition decode_with :: "'a rd \<Rightarrow> ('a \<Rightarrow> Message) \<Rightarrow> bytes \<Rightarrow> Code + Message" where
  "decode_with p k body =
     (case run_state p (rd_init body) of (x, r) \<Rightarrow> if rd_err r then Inl E5003 else Inr (k x))"

definition decodeBody :: "u8 \<Rightarrow> bytes \<Rightarrow> Code + Message" where
  "decodeBody t body =
     (if t = MsgSessionParams then decode_with dec_SessionParams M_SessionParams body
      else if t = MsgSessionReady then decode_with dec_SessionReady M_SessionReady body
      else if t = MsgScanProgress then decode_with dec_ScanProgress M_ScanProgress body
      else if t = MsgScanComplete then decode_with dec_ScanComplete M_ScanComplete body
      else if t = MsgGroupManifest then decode_with dec_GroupManifest M_GroupManifest body
      else if t = MsgGroupDecision then decode_with dec_GroupDecision M_GroupDecision body
      else if t = MsgCredit then decode_with dec_Credit M_Credit body
      else if t = MsgFileRequest then decode_with dec_FileRequest M_FileRequest body
      else if t = MsgFileHeader then decode_with dec_FileHeader M_FileHeader body
      else if t = MsgFileChunk then decode_with dec_FileChunk M_FileChunk body
      else if t = MsgFileComplete then decode_with dec_FileComplete M_FileComplete body
      else if t = MsgFileError then decode_with dec_FileError M_FileError body
      else if t = MsgFileCancel then decode_with dec_FileCancel M_FileCancel body
      else if t = MsgSessionSummary then decode_with dec_SessionSummary M_SessionSummary body
      else if t = MsgSessionSummaryAck then decode_with dec_SessionSummaryAck M_SessionSummaryAck body
      else if t = MsgError then decode_with dec_Error M_Error body
      else if t = MsgPing then decode_with dec_Ping M_Ping body
      else if t = MsgPong then decode_with dec_Pong M_Pong body
      else if t = MsgSessionResume then decode_with dec_SessionResume M_SessionResume body
      else Inl E5011)"

section \<open>Frames\<close>

definition Marshal :: "Message \<Rightarrow> Code + bytes" where
  "Marshal m = (case encodeBody m of
     Inl e \<Rightarrow> Inl e
   | Inr body \<Rightarrow> Inr ([Type m] @ be32 (word_of_nat (length body)) @ body))"

definition Unmarshal :: "bytes \<Rightarrow> Code + Message" where
  "Unmarshal plaintext =
     (if length plaintext < FrameHeaderLen \<or> length plaintext > MaxFramePlaintext then Inl E5010
      else let t = plaintext ! 0; bodyLen = get32 (subslice 1 5 plaintext) in
        if unat bodyLen \<noteq> length plaintext - FrameHeaderLen then Inl E5010
        else decodeBody t (drop FrameHeaderLen plaintext))"

section \<open>Well-formed messages\<close>

text \<open>
  The bounds the decoder enforces, and the canonical value of a field the wire does not carry:
  a non-symlink entry has no link target and an entry without the flag has key 0.
\<close>

definition wf_entry :: "ManifestEntry \<Rightarrow> bool" where
  "wf_entry e \<longleftrightarrow> length (me_Path e) \<le> maxPathBytes \<and> is_int64 (me_MtimeSec e) \<and>
     length (me_Digest e) \<le> maxDigest \<and> length (me_LinkTarget e) \<le> maxPathBytes \<and>
     (me_EntryType e \<noteq> 2 \<longrightarrow> me_LinkTarget e = []) \<and>
     (me_Flags e AND ManifestFlagHasHardlinkKey = 0 \<longrightarrow> me_HardlinkKey e = 0)"

fun wf_msg :: "Message \<Rightarrow> bool" where
  "wf_msg (M_SessionParams x) \<longleftrightarrow> length (sp_RootName x) \<le> maxStr \<and> length (sp_SenderVersion x) \<le> maxStr \<and> length (sp_FilterSignature x) \<le> maxStr \<and> length (sp_SysexcludeTag x) \<le> maxStr"
| "wf_msg (M_SessionReady x) \<longleftrightarrow> length (sr_ReceiverVersion x) \<le> maxStr"
| "wf_msg (M_ScanProgress x) \<longleftrightarrow> True"
| "wf_msg (M_ScanComplete x) \<longleftrightarrow> length (sc_ManifestDigest x) \<le> maxDigest"
| "wf_msg (M_GroupManifest x) \<longleftrightarrow> length (gm_Entries x) \<le> maxEntryCount \<and> (\<forall>e\<in>set (gm_Entries x). wf_entry e)"
| "wf_msg (M_GroupDecision x) \<longleftrightarrow> length (gd_Needed x) \<le> maxIndexList \<and> length (gd_Rejected x) \<le> maxIndexList"
| "wf_msg (M_Credit x) \<longleftrightarrow> True"
| "wf_msg (M_FileRequest x) \<longleftrightarrow> True"
| "wf_msg (M_FileHeader x) \<longleftrightarrow> is_int64 (fh_MtimeSec x) \<and> length (fh_Digest x) \<le> maxDigest"
| "wf_msg (M_FileChunk x) \<longleftrightarrow> length (fc_Data x) \<le> maxChunkData"
| "wf_msg (M_FileComplete x) \<longleftrightarrow> length (fp_DigestFull x) \<le> maxDigest"
| "wf_msg (M_FileError x) \<longleftrightarrow> length (fe_Message x) \<le> maxStr"
| "wf_msg (M_FileCancel x) \<longleftrightarrow> True"
| "wf_msg (M_SessionSummary x) \<longleftrightarrow> length (ss_CompletionDigest x) \<le> maxDigest"
| "wf_msg (M_SessionSummaryAck x) \<longleftrightarrow> length (sa_CompletionDigest x) \<le> maxDigest"
| "wf_msg (M_Error x) \<longleftrightarrow> length (er_Message x) \<le> maxStr \<and> length (er_Detail x) \<le> maxStr"
| "wf_msg (M_Ping x) \<longleftrightarrow> True"
| "wf_msg (M_Pong x) \<longleftrightarrow> True"
| "wf_msg (M_SessionResume x) \<longleftrightarrow> length (su_Nonce x) \<le> maxBlob \<and> length (su_Tag x) \<le> maxBlob"
| "wf_msg (M_Foreign t) \<longleftrightarrow> False"

section \<open>The decoder reads back the encoder's bytes\<close>

lemma reads_counted:
  assumes "\<forall>x\<in>set xs. reads p (f x) x" and "length xs \<le> mx" and "mx < 65536"
  shows "reads (r_counted mx p) (w_u16 (word_of_nat (length xs)) @ concat (map f xs)) xs"
proof -
  have n: "unat (word_of_nat (length xs) :: u16) = length xs" using assms by (simp add: unat_of_nat)
  have "reads (if 0 < length xs then r_times (length xs) p else State_Monad.return [])
      (concat (map f xs)) xs"
    using reads_times [OF assms(1)] by (cases xs) (auto simp: reads_return)
  then have "reads (r_err \<bind> (\<lambda>e. (if \<not> e \<and> length xs > mx then r_fail else State_Monad.return ()) \<bind>
      (\<lambda>_. r_err \<bind> (\<lambda>e'. if \<not> e' \<and> length xs > 0 then r_times (length xs) p else State_Monad.return []))))
      (concat (map f xs)) xs"
    using assms by (intro reads_bind_Nil [OF reads_r_err] reads_bind_Nil [where a = "()"])
      (auto simp: reads_return reads_r_err intro!: reads_bind_Nil [OF reads_r_err])
  then show ?thesis
    unfolding r_counted_def by (intro reads_bind [OF reads_u16]) (simp add: n cong: if_cong)
qed

lemma reads_counted_field:
  "\<forall>x\<in>set xs. reads p (f x) x \<Longrightarrow> length xs \<le> mx \<Longrightarrow> mx < 65536 \<Longrightarrow> reads (q xs) bs b \<Longrightarrow>
    reads (r_counted mx p \<bind> q) (w_u16 (word_of_nat (length xs)) @ concat (map f xs) @ bs) b"
  "\<forall>x\<in>set xs. reads p (f x) x \<Longrightarrow> length xs \<le> mx \<Longrightarrow> mx < 65536 \<Longrightarrow> reads (q xs) [] b \<Longrightarrow>
    reads (r_counted mx p \<bind> q) (w_u16 (word_of_nat (length xs)) @ concat (map f xs)) b"
  using reads_bind [OF reads_counted [of xs p f mx], of q bs b]
    reads_bind_last [OF reads_counted [of xs p f mx], of q b] by simp_all

lemma reads_SessionParams: "wf_msg (M_SessionParams x) \<Longrightarrow> reads dec_SessionParams (enc_SessionParams x) x"
  unfolding dec_SessionParams_def enc_SessionParams_def
  by (cases x) (auto intro!: reads_fields simp: max_defs unat_of_nat)

lemma reads_SessionReady: "wf_msg (M_SessionReady x) \<Longrightarrow> reads dec_SessionReady (enc_SessionReady x) x"
  unfolding dec_SessionReady_def enc_SessionReady_def
  by (cases x) (auto intro!: reads_fields simp: max_defs unat_of_nat)

lemma reads_ScanProgress: "wf_msg (M_ScanProgress x) \<Longrightarrow> reads dec_ScanProgress (enc_ScanProgress x) x"
  unfolding dec_ScanProgress_def enc_ScanProgress_def
  by (cases x) (auto intro!: reads_fields simp: max_defs unat_of_nat)

lemma reads_ScanComplete: "wf_msg (M_ScanComplete x) \<Longrightarrow> reads dec_ScanComplete (enc_ScanComplete x) x"
  unfolding dec_ScanComplete_def enc_ScanComplete_def
  by (cases x) (auto intro!: reads_fields simp: max_defs unat_of_nat)

lemma reads_Credit: "wf_msg (M_Credit x) \<Longrightarrow> reads dec_Credit (enc_Credit x) x"
  unfolding dec_Credit_def enc_Credit_def
  by (cases x) (auto intro!: reads_fields simp: max_defs unat_of_nat)

lemma reads_FileRequest: "wf_msg (M_FileRequest x) \<Longrightarrow> reads dec_FileRequest (enc_FileRequest x) x"
  unfolding dec_FileRequest_def enc_FileRequest_def
  by (cases x) (auto intro!: reads_fields simp: max_defs unat_of_nat)

lemma reads_FileHeader: "wf_msg (M_FileHeader x) \<Longrightarrow> reads dec_FileHeader (enc_FileHeader x) x"
  unfolding dec_FileHeader_def enc_FileHeader_def
  by (cases x) (auto intro!: reads_fields simp: max_defs unat_of_nat)

lemma reads_FileChunk: "wf_msg (M_FileChunk x) \<Longrightarrow> reads dec_FileChunk (enc_FileChunk x) x"
  unfolding dec_FileChunk_def enc_FileChunk_def
  by (cases x) (auto intro!: reads_fields simp: max_defs unat_of_nat)

lemma reads_FileComplete: "wf_msg (M_FileComplete x) \<Longrightarrow> reads dec_FileComplete (enc_FileComplete x) x"
  unfolding dec_FileComplete_def enc_FileComplete_def
  by (cases x) (auto intro!: reads_fields simp: max_defs unat_of_nat)

lemma reads_FileError: "wf_msg (M_FileError x) \<Longrightarrow> reads dec_FileError (enc_FileError x) x"
  unfolding dec_FileError_def enc_FileError_def
  by (cases x) (auto intro!: reads_fields simp: max_defs unat_of_nat)

lemma reads_FileCancel: "wf_msg (M_FileCancel x) \<Longrightarrow> reads dec_FileCancel (enc_FileCancel x) x"
  unfolding dec_FileCancel_def enc_FileCancel_def
  by (cases x) (auto intro!: reads_fields simp: max_defs unat_of_nat)

lemma reads_Ping: "wf_msg (M_Ping x) \<Longrightarrow> reads dec_Ping (enc_Ping x) x"
  unfolding dec_Ping_def enc_Ping_def
  by (cases x) (auto intro!: reads_fields simp: max_defs unat_of_nat)

lemma reads_Pong: "wf_msg (M_Pong x) \<Longrightarrow> reads dec_Pong (enc_Pong x) x"
  unfolding dec_Pong_def enc_Pong_def
  by (cases x) (auto intro!: reads_fields simp: max_defs unat_of_nat)

lemma reads_SessionResume: "wf_msg (M_SessionResume x) \<Longrightarrow> reads dec_SessionResume (enc_SessionResume x) x"
  unfolding dec_SessionResume_def enc_SessionResume_def
  by (cases x) (auto intro!: reads_fields simp: max_defs unat_of_nat)

lemma reads_ManifestEntry: "wf_entry e \<Longrightarrow> reads decodeManifestEntry (encodeManifestEntry e) e"
proof (cases e)
  case (fields et fl pa sz mo ms mn dg lt hk)
  assume wf: "wf_entry e"
  have link: "reads (if et = 2 then r_blob maxPathBytes else State_Monad.return [])
      (if et = 2 then w_blob lt else []) lt"
    using wf by (auto simp: fields wf_entry_def max_defs intro: reads_blob reads_return)
  have key: "reads (if fl AND ManifestFlagHasHardlinkKey \<noteq> 0 then r_u64 else State_Monad.return 0)
      (if fl AND ManifestFlagHasHardlinkKey \<noteq> 0 then w_u64 hk else []) hk"
    using wf by (auto simp: fields wf_entry_def intro: reads_u64 reads_return)
  show ?thesis
    unfolding decodeManifestEntry_def encodeManifestEntry_def fields ManifestEntry.select_convs
    using wf by (intro reads_fields reads_bind [OF link] reads_bind_last [OF key])
      (simp_all add: fields wf_entry_def max_defs unat_of_nat)
qed

lemma reads_GroupManifest: "wf_msg (M_GroupManifest x) \<Longrightarrow> reads dec_GroupManifest (enc_GroupManifest x) x"
  unfolding dec_GroupManifest_def enc_GroupManifest_def
  by (cases x) (auto intro!: reads_fields reads_counted_field reads_ManifestEntry simp: max_defs)

lemma reads_RejectedEntry: "reads dec_RejectedEntry (enc_RejectedEntry x) x"
  unfolding dec_RejectedEntry_def enc_RejectedEntry_def by (cases x) (auto intro!: reads_fields)

lemma reads_GroupDecision: "wf_msg (M_GroupDecision x) \<Longrightarrow> reads dec_GroupDecision (enc_GroupDecision x) x"
  unfolding dec_GroupDecision_def enc_GroupDecision_def
  by (cases x) (auto intro!: reads_fields reads_counted_field reads_u16 reads_RejectedEntry simp: max_defs)

lemma reads_Summary:
  "length dg \<le> maxDigest \<Longrightarrow> v = k a b c d e g dg \<Longrightarrow>
    reads (decodeSummary k) (encodeSummary a b c d e g dg) v"
  unfolding decodeSummary_def encodeSummary_def by (auto intro!: reads_fields simp: max_defs)

lemma reads_SessionSummary:
  "wf_msg (M_SessionSummary x) \<Longrightarrow> reads dec_SessionSummary (enc_SessionSummary x) x"
  unfolding dec_SessionSummary_def enc_SessionSummary_def
  by (rule reads_Summary) simp_all

lemma reads_SessionSummaryAck:
  "wf_msg (M_SessionSummaryAck x) \<Longrightarrow> reads dec_SessionSummaryAck (enc_SessionSummaryAck x) x"
  unfolding dec_SessionSummaryAck_def enc_SessionSummaryAck_def
  by (rule reads_Summary) simp_all

text \<open>The optional trailing detail: the encoder always writes it, so bytes remain.\<close>

lemma reads_remaining:
  "reads (q k) bs b \<Longrightarrow> bs \<noteq> [] \<Longrightarrow> (\<And>k'. 0 < k' \<Longrightarrow> q k' = q k) \<Longrightarrow> reads (r_remaining \<bind> q) bs b"
proof -
  assume q: "reads (q k) bs b" and bs: "bs \<noteq> []" and same: "\<And>k'. 0 < k' \<Longrightarrow> q k' = q k"
  have "0 < length bs + length post" for post :: bytes using bs by simp
  then show ?thesis
    using readsD [OF q] same by (simp add: reads_def run_bind r_remaining_def)
qed

lemma reads_Error: "wf_msg (M_Error x) \<Longrightarrow> reads dec_Error (enc_Error x) x"
proof (cases x)
  case (fields c f m d)
  assume wf: "wf_msg (M_Error x)"
  have "reads (r_remaining \<bind> (\<lambda>rem. (if rem > 0 then r_str maxStr else State_Monad.return []) \<bind>
      (\<lambda>detail'. State_Monad.return \<lparr>er_Code = c, er_Fatal = f, er_Message = m, er_Detail = detail'\<rparr>)))
      (w_str d) x"
    using wf by (intro reads_remaining [where k = 1])
      (auto simp: fields max_defs intro!: reads_fields)
  then show ?thesis
    unfolding dec_Error_def enc_Error_def using wf
    by (auto simp: fields max_defs intro!: reads_fields)
qed

section \<open>Every decoded message came from its own encoding\<close>

lemma safe_counted [safe_intros]: "safe p \<Longrightarrow> safe (r_counted mx p)"
  unfolding r_counted_def by (intro safe_intros)

lemma safe_Summary [safe_intros]: "safe (decodeSummary k)"
  unfolding decodeSummary_def by (intro safe_intros)

lemma safe_Rejected [safe_intros]: "safe dec_RejectedEntry"
  unfolding dec_RejectedEntry_def by (intro safe_intros)

lemma safe_ManifestEntry [safe_intros]: "safe decodeManifestEntry"
  unfolding decodeManifestEntry_def by (intro safe_intros)

lemma consumes_if_bind:
  "(b \<Longrightarrow> consumes (p \<bind> q) W) \<Longrightarrow> (\<not> b \<Longrightarrow> consumes (p' \<bind> q) W) \<Longrightarrow>
    consumes ((if b then p else p') \<bind> q) W"
  by simp

lemma consumes_return_bind: "consumes (q a) W \<Longrightarrow> consumes (State_Monad.return a \<bind> q) W"
  unfolding consumes_def by (simp add: run_bind)

lemma consumes_counted:
  assumes p: "consumes p (\<lambda>v bs. bs = f v \<and> P v)" "safe p"
  shows "consumes (r_counted mx p) (\<lambda>vs bs. bs = w_u16 (word_of_nat (length vs)) @ concat (map f vs) \<and>
    length vs \<le> mx \<and> (\<forall>v\<in>set vs. P v))"
  unfolding r_counted_def
proof (rule consumes_field(2))
  fix n :: u16
  let ?rest = "r_err \<bind> (\<lambda>e'. if \<not> e' \<and> unat n > 0 then r_times (unat n) p else State_Monad.return [])"
  let ?W = "\<lambda>vs bs. w_u16 n @ bs = w_u16 (word_of_nat (length vs)) @ concat (map f vs) \<and>
    length vs \<le> mx \<and> (\<forall>v\<in>set vs. P v)"
  show "safe (r_err \<bind> (\<lambda>e. (if \<not> e \<and> unat n > mx then r_fail else State_Monad.return ()) \<bind> (\<lambda>_. ?rest)))"
    using p(2) by (intro safe_intros)
  have times: "r_times (unat n) p = State_Monad.return []" if "unat n = 0" using that by simp
  have run: "run_state ?rest r = run_state (r_times (unat n) p) r" if "\<not> rd_err r" for r
    using that times by (simp add: run_bind r_err_def)
  show "consumes (r_err \<bind> (\<lambda>e. (if \<not> e \<and> unat n > mx then r_fail else State_Monad.return ()) \<bind> (\<lambda>_. ?rest))) ?W"
  proof (cases "unat n > mx")
    case True
    then show ?thesis by (auto simp: consumes_def run_bind r_err_def r_fail_def)
  next
    case False
    have "consumes (r_times (unat n) p) ?W"
      by (rule consumes_mono [OF consumes_times [OF p]]) (use False in auto)
    then show ?thesis
      using False run unfolding consumes_def by (simp add: run_bind r_err_def)
  qed
qed

lemma consumes_counted_field:
  assumes "consumes p (\<lambda>v bs. bs = f v \<and> P v)" "safe p" and "\<And>vs. safe (q vs)"
    and "\<And>vs. length vs \<le> mx \<Longrightarrow> \<forall>v\<in>set vs. P v \<Longrightarrow>
      consumes (q vs) (\<lambda>v bs. W v (w_u16 (word_of_nat (length vs)) @ concat (map f vs) @ bs))"
  shows "consumes (r_counted mx p \<bind> q) W"
  by (rule consumes_bind [OF consumes_counted [OF assms(1,2)]]) (auto intro: safe_intros assms)

lemma consumes_SessionParams: "consumes dec_SessionParams (\<lambda>x bs. bs = enc_SessionParams x \<and> wf_msg (M_SessionParams x))"
  unfolding dec_SessionParams_def enc_SessionParams_def
  by (intro consumes_fields safe_intros) (simp_all add: unat_of_nat max_defs)

lemma consumes_SessionReady: "consumes dec_SessionReady (\<lambda>x bs. bs = enc_SessionReady x \<and> wf_msg (M_SessionReady x))"
  unfolding dec_SessionReady_def enc_SessionReady_def
  by (intro consumes_fields safe_intros) (simp_all add: unat_of_nat max_defs)

lemma consumes_ScanProgress: "consumes dec_ScanProgress (\<lambda>x bs. bs = enc_ScanProgress x \<and> wf_msg (M_ScanProgress x))"
  unfolding dec_ScanProgress_def enc_ScanProgress_def
  by (intro consumes_fields safe_intros) (simp_all add: unat_of_nat max_defs)

lemma consumes_ScanComplete: "consumes dec_ScanComplete (\<lambda>x bs. bs = enc_ScanComplete x \<and> wf_msg (M_ScanComplete x))"
  unfolding dec_ScanComplete_def enc_ScanComplete_def
  by (intro consumes_fields safe_intros) (simp_all add: unat_of_nat max_defs)

lemma consumes_Credit: "consumes dec_Credit (\<lambda>x bs. bs = enc_Credit x \<and> wf_msg (M_Credit x))"
  unfolding dec_Credit_def enc_Credit_def
  by (intro consumes_fields safe_intros) (simp_all add: unat_of_nat max_defs)

lemma consumes_FileRequest: "consumes dec_FileRequest (\<lambda>x bs. bs = enc_FileRequest x \<and> wf_msg (M_FileRequest x))"
  unfolding dec_FileRequest_def enc_FileRequest_def
  by (intro consumes_fields safe_intros) (simp_all add: unat_of_nat max_defs)

lemma consumes_FileHeader: "consumes dec_FileHeader (\<lambda>x bs. bs = enc_FileHeader x \<and> wf_msg (M_FileHeader x))"
  unfolding dec_FileHeader_def enc_FileHeader_def
  by (intro consumes_fields safe_intros) (simp_all add: unat_of_nat max_defs)

lemma consumes_FileChunk: "consumes dec_FileChunk (\<lambda>x bs. bs = enc_FileChunk x \<and> wf_msg (M_FileChunk x))"
  unfolding dec_FileChunk_def enc_FileChunk_def
  by (intro consumes_fields safe_intros) (simp_all add: unat_of_nat max_defs)

lemma consumes_FileComplete: "consumes dec_FileComplete (\<lambda>x bs. bs = enc_FileComplete x \<and> wf_msg (M_FileComplete x))"
  unfolding dec_FileComplete_def enc_FileComplete_def
  by (intro consumes_fields safe_intros) (simp_all add: unat_of_nat max_defs)

lemma consumes_FileError: "consumes dec_FileError (\<lambda>x bs. bs = enc_FileError x \<and> wf_msg (M_FileError x))"
  unfolding dec_FileError_def enc_FileError_def
  by (intro consumes_fields safe_intros) (simp_all add: unat_of_nat max_defs)

lemma consumes_FileCancel: "consumes dec_FileCancel (\<lambda>x bs. bs = enc_FileCancel x \<and> wf_msg (M_FileCancel x))"
  unfolding dec_FileCancel_def enc_FileCancel_def
  by (intro consumes_fields safe_intros) (simp_all add: unat_of_nat max_defs)

lemma consumes_Ping: "consumes dec_Ping (\<lambda>x bs. bs = enc_Ping x \<and> wf_msg (M_Ping x))"
  unfolding dec_Ping_def enc_Ping_def
  by (intro consumes_fields safe_intros) (simp_all add: unat_of_nat max_defs)

lemma consumes_Pong: "consumes dec_Pong (\<lambda>x bs. bs = enc_Pong x \<and> wf_msg (M_Pong x))"
  unfolding dec_Pong_def enc_Pong_def
  by (intro consumes_fields safe_intros) (simp_all add: unat_of_nat max_defs)

lemma consumes_SessionResume: "consumes dec_SessionResume (\<lambda>x bs. bs = enc_SessionResume x \<and> wf_msg (M_SessionResume x))"
  unfolding dec_SessionResume_def enc_SessionResume_def
  by (intro consumes_fields safe_intros) (simp_all add: unat_of_nat max_defs)

lemma consumes_ManifestEntry: "consumes decodeManifestEntry (\<lambda>e bs. bs = encodeManifestEntry e \<and> wf_entry e)"
  unfolding decodeManifestEntry_def encodeManifestEntry_def
  by (intro consumes_fields consumes_if_bind consumes_return_bind safe_intros)
    (simp_all add: wf_entry_def max_defs)

lemma consumes_RejectedEntry: "consumes dec_RejectedEntry (\<lambda>x bs. bs = enc_RejectedEntry x \<and> True)"
  unfolding dec_RejectedEntry_def enc_RejectedEntry_def
  by (intro consumes_fields safe_intros) simp

lemma consumes_index: "consumes r_u16 (\<lambda>x bs. bs = w_u16 x \<and> True)"
  using consumes_fixed(2) by simp

lemma consumes_GroupManifest: "consumes dec_GroupManifest (\<lambda>x bs. bs = enc_GroupManifest x \<and> wf_msg (M_GroupManifest x))"
  unfolding dec_GroupManifest_def enc_GroupManifest_def
  by (intro consumes_fields consumes_counted_field [OF consumes_ManifestEntry] safe_intros) simp

lemma consumes_GroupDecision: "consumes dec_GroupDecision (\<lambda>x bs. bs = enc_GroupDecision x \<and> wf_msg (M_GroupDecision x))"
  unfolding dec_GroupDecision_def enc_GroupDecision_def
  by (intro consumes_fields consumes_counted_field [OF consumes_index]
      consumes_counted_field [OF consumes_RejectedEntry] safe_intros) simp

lemma consumes_SessionSummary: "consumes dec_SessionSummary (\<lambda>x bs. bs = enc_SessionSummary x \<and> wf_msg (M_SessionSummary x))"
  unfolding dec_SessionSummary_def enc_SessionSummary_def decodeSummary_def encodeSummary_def
  by (intro consumes_fields safe_intros) simp

lemma consumes_SessionSummaryAck: "consumes dec_SessionSummaryAck (\<lambda>x bs. bs = enc_SessionSummaryAck x \<and> wf_msg (M_SessionSummaryAck x))"
  unfolding dec_SessionSummaryAck_def enc_SessionSummaryAck_def decodeSummary_def encodeSummary_def
  by (intro consumes_fields safe_intros) simp

text \<open>An error body may also be the older form without the detail field.\<close>

definition enc_Error_short :: "Error \<Rightarrow> bytes" where
  "enc_Error_short x = w_u16 (er_Code x) @ w_u8 (er_Fatal x) @ w_str (er_Message x)"

lemma consumes_Error: "consumes dec_Error (\<lambda>x bs. (bs = enc_Error x \<or> bs = enc_Error_short x \<and> er_Detail x = [])
    \<and> wf_msg (M_Error x))"
  unfolding dec_Error_def enc_Error_def enc_Error_short_def
  by (intro consumes_fields consumes_if_bind consumes_return_bind safe_intros) simp_all

section \<open>Frames: round trip and soundness\<close>

definition body_of :: "Message \<Rightarrow> bytes" where
  "body_of m = (case encodeBody m of Inl _ \<Rightarrow> [] | Inr b \<Rightarrow> b)"

lemma decode_with_reads: "reads p bs x \<Longrightarrow> decode_with p k (bs @ post) = Inr (k x)"
  by (simp add: decode_with_def reads_run)

lemma decode_with_consumes:
  assumes "consumes p W" and "decode_with p k b = Inr m"
  shows "\<exists>x bs post. m = k x \<and> b = bs @ post \<and> W x bs"
  using consumes_run [OF assms(1)] assms(2)
  by (auto simp: decode_with_def split: prod.splits if_splits)

lemma decode_with_error: "decode_with p k b = Inl e \<Longrightarrow> e = E5003"
  by (simp add: decode_with_def split: prod.splits if_splits)

lemmas reads_messages = reads_SessionParams reads_SessionReady reads_ScanProgress reads_ScanComplete reads_GroupManifest reads_GroupDecision reads_Credit reads_FileRequest reads_FileHeader reads_FileChunk reads_FileComplete reads_FileError reads_FileCancel reads_SessionSummary reads_SessionSummaryAck reads_Error reads_Ping reads_Pong reads_SessionResume

lemmas consumes_messages = consumes_SessionParams consumes_SessionReady consumes_ScanProgress consumes_ScanComplete consumes_GroupManifest consumes_GroupDecision consumes_Credit consumes_FileRequest consumes_FileHeader consumes_FileChunk consumes_FileComplete consumes_FileError consumes_FileCancel consumes_SessionSummary consumes_SessionSummaryAck consumes_Ping consumes_Pong consumes_SessionResume

lemma decodeBody_encodeBody:
  "wf_msg m \<Longrightarrow> encodeBody m = Inr b \<Longrightarrow> decodeBody (Type m) (b @ junk) = Inr m"
  by (cases m) (auto simp: decodeBody_def msgtype_defs simp del: wf_msg.simps intro!: decode_with_reads intro: reads_messages)

lemma decodeBody_sound:
  assumes "decodeBody t b = Inr m"
  shows "t = Type m \<and> wf_msg m \<and> (\<exists>junk. b = body_of m @ junk \<or>
    (\<exists>x. m = M_Error x \<and> er_Detail x = [] \<and> b = enc_Error_short x @ junk))"
  using assms unfolding decodeBody_def
  by (simp split: if_split_asm del: wf_msg.simps)
    (auto simp: body_of_def simp del: wf_msg.simps
      dest!: consumes_messages [THEN decode_with_consumes] consumes_Error [THEN decode_with_consumes])

lemma decodeBody_errors: "decodeBody t b = Inl e \<Longrightarrow> e \<in> {E5003, E5011} \<and> (e = E5011 \<longleftrightarrow> t \<notin> fst ` set msgTypeNames)"
  unfolding decodeBody_def
  by (simp split: if_split_asm)
    (auto dest!: decode_with_error simp: msgTypeNames_def code_defs)

lemma encodeBody_body_of: "wf_msg m \<Longrightarrow> encodeBody m = Inr (body_of m)"
  by (cases m) (simp_all add: body_of_def)

lemma Marshal_eq: "wf_msg m \<Longrightarrow> Marshal m = Inr ([Type m] @ be32 (word_of_nat (length (body_of m))) @ body_of m)"
  by (simp add: Marshal_def encodeBody_body_of)

lemma frame_parts:
  assumes "length b < 2 ^ 32"
  shows "unat (get32 (subslice 1 5 (t # be32 (word_of_nat (length b)) @ b))) = length b"
  using assms subslice_middle [of "[t]" 1 "be32 (word_of_nat (length b))" 5 b]
  by (simp add: unat_of_nat)

lemma Marshal_Unmarshal:
  assumes "wf_msg m" and "FrameHeaderLen + length (body_of m) \<le> MaxFramePlaintext"
  shows "\<exists>b. Marshal m = Inr b \<and> length b = FrameHeaderLen + length (body_of m) \<and> Unmarshal b = Inr m"
proof -
  let ?b = "[Type m] @ be32 (word_of_nat (length (body_of m))) @ body_of m"
  have "length (body_of m) < 2 ^ 32"
    using assms(2) by (simp add: FrameHeaderLen_def MaxFramePlaintext_def)
  note parts = frame_parts [OF this, of "Type m"]
  have "decodeBody (Type m) (body_of m) = Inr m"
    using decodeBody_encodeBody [OF assms(1) encodeBody_body_of [OF assms(1)], of "[]"] by simp
  then have "Unmarshal ?b = Inr m"
    using assms(2) parts by (simp add: Unmarshal_def FrameHeaderLen_def Let_def)
  then show ?thesis using Marshal_eq [OF assms(1)] by (auto simp: FrameHeaderLen_def)
qed

text \<open>
  C3. Every well-formed message whose frame fits the plaintext ceiling is encoded by
  \<^verbatim>\<open>Marshal\<close>, and \<^verbatim>\<open>Unmarshal\<close> gives the same message back; the frame is exactly the
  five-byte header and the body.
\<close>

theorem wire_roundtrip:
  assumes "wf_msg m" and "FrameHeaderLen + length (body_of m) \<le> MaxFramePlaintext"
  shows "\<exists>b. Marshal m = Inr b \<and> length b = FrameHeaderLen + length (body_of m) \<and> Unmarshal b = Inr m"
  by (rule Marshal_Unmarshal [OF assms])

definition sample_decision :: Message where
  "sample_decision = M_GroupDecision \<lparr>gd_GroupID = 7, gd_Needed = [0, 2], gd_SkippedCount = 1,
     gd_Rejected = [\<lparr>rj_Index = 3, rj_ErrorCode = 7009\<rparr>]\<rparr>"

lemma length_sample: "length (body_of sample_decision) = 18"
  by (simp add: sample_decision_def body_of_def enc_GroupDecision_def enc_RejectedEntry_def)

theorem wire_roundtrip_witness:
  "\<exists>b. Marshal sample_decision = Inr b \<and> length b = 23 \<and> Unmarshal b = Inr sample_decision"
  using wire_roundtrip [of sample_decision] length_sample
  by (simp add: sample_decision_def max_defs FrameHeaderLen_def MaxFramePlaintext_def)

text \<open>
  C20. \<^verbatim>\<open>Unmarshal\<close> accepts nothing malformed: an accepted frame is within the size limits,
  carries its own length, and its body is the encoding of the message returned (for an error
  message possibly the short form without the detail), followed by ignored bytes; every length
  and count in the message is within its declared maximum.
\<close>

theorem Unmarshal_sound:
  assumes "Unmarshal b = Inr m"
  shows "wf_msg m \<and> length b \<le> MaxFramePlaintext \<and>
    (\<exists>body junk. b = [Type m] @ be32 (word_of_nat (length (body @ junk))) @ body @ junk \<and>
      (body = body_of m \<or> (\<exists>x. m = M_Error x \<and> er_Detail x = [] \<and> body = enc_Error_short x)))"
proof -
  let ?body = "drop 5 b"
  have len: "5 \<le> length b" "length b \<le> MaxFramePlaintext"
    and bl: "unat (get32 (subslice 1 5 b)) = length b - 5"
    and dec: "decodeBody (b ! 0) ?body = Inr m"
    using assms by (auto simp: Unmarshal_def FrameHeaderLen_def Let_def split: if_splits)
  have "get32 (subslice 1 5 b) = word_of_nat (length ?body)"
    using bl by (simp flip: bl)
  then have hdr: "subslice 1 5 b = be32 (word_of_nat (length ?body))"
    using be32_get32 [of "subslice 1 5 b"] len by simp
  have "b = take 1 b @ subslice 1 5 b @ ?body"
    using append_take_drop_id [of 1 b] append_take_drop_id [of 4 "drop 1 b"]
    by (simp add: subslice_def)
  also have "take 1 b = [b ! 0]" using len by (cases b) auto
  finally have b: "b = [b ! 0] @ be32 (word_of_nat (length ?body)) @ ?body" by (simp only: hdr)
  show ?thesis using decodeBody_sound [OF dec] b len by metis
qed

theorem Unmarshal_sound_witness:
  "\<exists>b. Unmarshal b = Inr (M_Ping \<lparr>pi_Token = 5\<rparr>) \<and> length b \<le> MaxFramePlaintext"
proof -
  let ?m = "M_Ping \<lparr>pi_Token = 5\<rparr>"
  have "decodeBody MsgPing (w_u64 5) = Inr ?m"
    using decodeBody_encodeBody [of ?m "w_u64 5" "[]"] by (simp add: enc_Ping_def)
  then have u: "Unmarshal ([MsgPing] @ be32 8 @ w_u64 5) = Inr ?m"
    using frame_parts [of "w_u64 5" MsgPing]
    by (simp add: Unmarshal_def FrameHeaderLen_def MaxFramePlaintext_def Let_def)
  show ?thesis using Unmarshal_sound [OF u] u by blast
qed

text \<open>
  Every rejected frame gives one of three codes: E5010 for a length that does not fit,
  E5011 for a type that is not in the message table, E5003 for a body of a known type that
  does not parse.
\<close>

theorem Unmarshal_errors:
  assumes "Unmarshal b = Inl e"
  shows "(e = E5010 \<longrightarrow> length b < 5 \<or> length b > MaxFramePlaintext \<or>
       unat (get32 (subslice 1 5 b)) \<noteq> length b - 5) \<and>
    (e = E5011 \<longrightarrow> b ! 0 \<notin> fst ` set msgTypeNames) \<and>
    (e = E5003 \<longrightarrow> b ! 0 \<in> fst ` set msgTypeNames) \<and> e \<in> {E5010, E5011, E5003}"
proof (cases "length b < 5 \<or> length b > MaxFramePlaintext \<or> unat (get32 (subslice 1 5 b)) \<noteq> length b - 5")
  case True
  then have "e = E5010" using assms by (auto simp: Unmarshal_def FrameHeaderLen_def Let_def split: if_splits)
  with True show ?thesis by (simp add: code_defs)
next
  case False
  then have "decodeBody (b ! 0) (drop 5 b) = Inl e"
    using assms by (auto simp: Unmarshal_def FrameHeaderLen_def Let_def split: if_splits)
  from decodeBody_errors [OF this] show ?thesis by (auto simp: code_defs)
qed

theorem Unmarshal_errors_witness: "Unmarshal (0xFF # replicate 4 0) = Inl E5011 \<and> 0xFF \<notin> fst ` set msgTypeNames"
proof -
  let ?b = "0xFF # replicate 4 0 :: bytes"
  have "subslice 1 5 ?b = replicate 4 0" by (simp add: subslice_def)
  moreover have "get32 (replicate 4 0) = 0"
    by (simp add: get32_def unbe_def numeral_eq_Suc)
  ultimately have z: "get32 (subslice 1 5 ?b) = 0" by simp
  have d: "decodeBody 0xFF [] = Inl E5011" by (simp add: decodeBody_def msgtype_defs)
  have u: "Unmarshal ?b = Inl E5011"
    unfolding Unmarshal_def Let_def z using d by (simp add: FrameHeaderLen_def MaxFramePlaintext_def)
  show ?thesis using Unmarshal_errors [OF u] u by simp
qed

section \<open>Sizes\<close>

definition ManifestEntryFixedBytes :: nat where "ManifestEntryFixedBytes = 1 + 2 + 2 + 8 + 4 + 8 + 4 + 1"
definition ManifestEntryLinkTargetPrefix :: nat where "ManifestEntryLinkTargetPrefix = 2"
definition ManifestEntryHardlinkKeyBytes :: nat where "ManifestEntryHardlinkKeyBytes = 8"
definition MaxDigestBytes :: nat where "MaxDigestBytes = maxDigest"
definition GroupManifestFixedBytes :: nat where "GroupManifestFixedBytes = 4 + 8 + 2"

definition ManifestEntrySize :: "nat \<Rightarrow> nat \<Rightarrow> bool \<Rightarrow> nat \<Rightarrow> bool \<Rightarrow> nat" where
  "ManifestEntrySize pathLen digestLen isSymlink linkTargetLen hasHardlinkKey =
     (let n = ManifestEntryFixedBytes + pathLen + digestLen;
          n = (if isSymlink then n + (ManifestEntryLinkTargetPrefix + linkTargetLen) else n)
      in if hasHardlinkKey then n + ManifestEntryHardlinkKeyBytes else n)"

lemma length_encodeManifestEntry:
  "length (encodeManifestEntry e) = ManifestEntrySize (length (me_Path e)) (length (me_Digest e))
     (me_EntryType e = 2) (length (me_LinkTarget e)) (me_Flags e AND ManifestFlagHasHardlinkKey \<noteq> 0)"
  by (simp add: encodeManifestEntry_def ManifestEntrySize_def ManifestEntryFixedBytes_def
      ManifestEntryLinkTargetPrefix_def ManifestEntryHardlinkKeyBytes_def Let_def)

lemma length_enc_GroupManifest:
  "length (enc_GroupManifest g) = GroupManifestFixedBytes +
     sum_list (map (length \<circ> encodeManifestEntry) (gm_Entries g))"
  by (simp add: enc_GroupManifest_def GroupManifestFixedBytes_def concat_map_length)

end
