(* ===== verification/Record_Layer.thy ===== *)
theory Record_Layer
  imports Fault
begin

text \<open>
  The encrypt-then-MAC record layer (\<^verbatim>\<open>internal/crypto/record/record.go\<close>): PKCS#7 padding, the
  \<^verbatim>\<open>Writer\<close> and the \<^verbatim>\<open>Reader\<close> of one channel and direction.

  AES-CBC and HMAC-SHA-256 are a parameter \<open>crypto\<close>; \<open>crypto_ok\<close> states what the layer relies
  on: CBC keeps the length and decryption inverts encryption on whole blocks, and a MAC has 32
  bytes. The connection is the list of bytes written to it or still to be read from it; an I/O
  failure and the random IV are inputs of the operation.

  The lemmas show that a stream of records is delivered exactly, that every proper prefix of it
  ends in E4005, and what a record must satisfy to be accepted.
\<close>

section \<open>Constants and primitives\<close>

definition rec_version :: u8 where "rec_version = 0x01"
definition headerLen :: nat where "headerLen = 14"
definition ivLen :: nat where "ivLen = 16"
definition macLen :: nat where "macLen = 32"
definition prefixLen :: nat where "prefixLen = headerLen + ivLen"
definition blockSize :: nat where "blockSize = 16"
definition MaxCTData :: nat where "MaxCTData = 2 ^ 20 + blockSize"
definition MaxCTControl :: nat where "MaxCTControl = 2 ^ 19 + blockSize"
definition PadBlockSize :: nat where "PadBlockSize = blockSize"

lemmas rec_consts = headerLen_def ivLen_def macLen_def prefixLen_def blockSize_def MaxCTData_def
  MaxCTControl_def PadBlockSize_def

definition maxCT :: "u8 \<Rightarrow> nat" where
  "maxCT channelID = (if channelID = 0 then MaxCTControl else MaxCTData)"

lemma maxCT_less: "maxCT cid < 2 ^ 32"
  by (simp add: maxCT_def rec_consts)

record crypto =
  cbc_encrypt :: "bytes \<Rightarrow> bytes \<Rightarrow> bytes \<Rightarrow> bytes"
  cbc_decrypt :: "bytes \<Rightarrow> bytes \<Rightarrow> bytes \<Rightarrow> bytes"
  hmac_sha256 :: "bytes \<Rightarrow> bytes \<Rightarrow> bytes"

text \<open>\<^verbatim>\<open>aes.NewCipher\<close> accepts exactly the three AES key sizes.\<close>

definition aes_key_ok :: "bytes \<Rightarrow> bool" where
  "aes_key_ok k \<longleftrightarrow> length k = 16 \<or> length k = 24 \<or> length k = 32"

definition crypto_ok :: "crypto \<Rightarrow> bool" where
  "crypto_ok c \<longleftrightarrow>
     (\<forall>k iv p. aes_key_ok k \<longrightarrow> length iv = ivLen \<longrightarrow> length p mod blockSize = 0 \<longrightarrow>
        length (cbc_encrypt c k iv p) = length p \<and> cbc_decrypt c k iv (cbc_encrypt c k iv p) = p) \<and>
     (\<forall>k m. length (hmac_sha256 c k m) = macLen)"

section \<open>Padding\<close>

definition pkcs7Pad :: "bytes \<Rightarrow> bytes" where
  "pkcs7Pad b = (let pad = blockSize - length b mod blockSize in b @ replicate pad (word_of_nat pad))"

definition pkcs7Unpad :: "bytes \<Rightarrow> Code + bytes" where
  "pkcs7Unpad b = (let n = length b in
     if n = 0 \<or> n mod blockSize \<noteq> 0 then Inl E5004
     else let pad = unat (b ! (n - 1)) in
       if pad = 0 \<or> pad > blockSize \<or> pad > n then Inl E5004
       else if \<exists>c\<in>set (drop (n - pad) b). unat c \<noteq> pad then Inl E5004
       else Inr (take (n - pad) b))"

lemma length_pkcs7Pad: "length (pkcs7Pad b) = (length b div blockSize + 1) * blockSize"
proof -
  have "length b mod blockSize < blockSize" by (simp add: blockSize_def)
  then have "length (pkcs7Pad b) = length b - length b mod blockSize + blockSize"
    by (simp add: pkcs7Pad_def Let_def)
  then show ?thesis by (simp add: minus_mod_eq_div_mult)
qed

lemma pkcs7Pad_blocks [simp]: "length (pkcs7Pad b) mod blockSize = 0" "blockSize \<le> length (pkcs7Pad b)"
  by (simp_all add: length_pkcs7Pad)

lemma pkcs7Unpad_Pad [simp]: "pkcs7Unpad (pkcs7Pad b) = Inr b"
proof -
  define pad where "pad = blockSize - length b mod blockSize"
  have pad: "0 < pad" "pad \<le> 16" by (simp_all add: pad_def blockSize_def)
  have eq: "pkcs7Pad b = b @ replicate pad (word_of_nat pad)" by (simp add: pkcs7Pad_def pad_def Let_def)
  have u: "unat (word_of_nat pad :: byte) = pad" using pad by (simp add: unat_of_nat)
  have "pkcs7Pad b \<noteq> []" "last (pkcs7Pad b) = word_of_nat pad" using pad by (simp_all add: eq)
  then have last: "pkcs7Pad b ! (length (pkcs7Pad b) - 1) = word_of_nat pad" by (metis last_conv_nth)
  have "length (pkcs7Pad b) = length b + pad" by (simp add: eq)
  then show ?thesis
    using pad pkcs7Pad_blocks(1) [of b] unfolding pkcs7Unpad_def Let_def last u
    by (auto simp: eq blockSize_def u)
qed

lemma pkcs7Unpad_canonical: "pkcs7Unpad b = Inr f \<Longrightarrow> b = pkcs7Pad f"
proof -
  assume u: "pkcs7Unpad b = Inr f"
  let ?n = "length b"
  define pad where "pad = unat (b ! (?n - 1))"
  from u have n: "?n mod 16 = 0" and pad: "0 < pad" "pad \<le> 16" "pad \<le> ?n"
    and all: "\<forall>c\<in>set (drop (?n - pad) b). unat c = pad" and f: "f = take (?n - pad) b"
    unfolding pkcs7Unpad_def Let_def pad_def [symmetric] blockSize_def
    by (simp_all split: if_split_asm)
  have "drop (?n - pad) b = replicate pad (word_of_nat pad)"
  proof (rule replicate_eqI)
    fix c assume "c \<in> set (drop (?n - pad) b)"
    with all have "unat c = pad" by blast
    show "c = word_of_nat pad" by (simp flip: \<open>unat c = pad\<close>)
  qed (use pad in simp)
  moreover have "(?n - pad) mod 16 = 16 - pad \<or> pad = 16 \<and> (?n - pad) mod 16 = 0"
  proof -
    obtain k where k: "?n = 16 * k" using n by auto
    then have "k > 0" using pad by (cases k) auto
    then obtain j where "k = Suc j" using gr0_conv_Suc by blast
    then have "?n - pad = 16 * j + (16 - pad)" using k pad by simp
    moreover have "16 - pad < 16" using pad by simp
    ultimately have "(?n - pad) mod 16 = 16 - pad" by (simp only: mod_mult_self4 mod_less)
    then show ?thesis by blast
  qed
  then have "blockSize - length f mod blockSize = pad" using pad f by (auto simp: blockSize_def)
  ultimately show ?thesis
    using f append_take_drop_id [of "?n - pad" b] by (simp add: pkcs7Pad_def Let_def)
qed

lemma pkcs7Pad_inject: "pkcs7Pad a = pkcs7Pad b \<longleftrightarrow> a = b"
  by (metis pkcs7Unpad_Pad sum.inject(2))

section \<open>Writer\<close>

record Writer =
  wr_out :: bytes
  wr_kEnc :: bytes
  wr_kMac :: bytes
  wr_chID :: u8
  wr_maxCT :: nat
  wr_seq :: u64
  wr_closed :: bool

text \<open>
  What the environment does during one write: the IV drawn (or a failure of the random source),
  and whether the connection takes the whole buffer or fails after some bytes of it.
\<close>

record write_env =
  env_iv :: "bytes option"
  env_write_fails :: "nat option"

definition newWriter :: "bytes \<Rightarrow> bytes \<Rightarrow> u8 \<Rightarrow> Writer" where
  "newWriter kEnc kMac channelID = \<lparr>wr_out = [], wr_kEnc = kEnc, wr_kMac = kMac, wr_chID = channelID,
     wr_maxCT = maxCT channelID, wr_seq = 0, wr_closed = False\<rparr>"

definition record_header :: "u8 \<Rightarrow> u64 \<Rightarrow> nat \<Rightarrow> bytes" where
  "record_header chID sq ctLen = [rec_version, chID] @ be64 sq @ be32 (word_of_nat ctLen)"

definition record_bytes :: "crypto \<Rightarrow> bytes \<Rightarrow> bytes \<Rightarrow> u8 \<Rightarrow> u64 \<Rightarrow> bytes \<Rightarrow> bytes \<Rightarrow> bytes" where
  "record_bytes c kEnc kMac chID sq iv plaintext =
     (let padded = pkcs7Pad plaintext;
          buf = record_header chID sq (length padded) @ iv @ cbc_encrypt c kEnc iv padded
      in buf @ hmac_sha256 c kMac buf)"

definition writeRecord :: "crypto \<Rightarrow> write_env \<Rightarrow> bytes \<Rightarrow> bool \<Rightarrow> Writer \<Rightarrow> Code option \<times> Writer" where
  "writeRecord c env plaintext isClose w =
     (if wr_closed w then (if isClose then (None, w) else (Some E9004, w))
      else if wr_seq w = - 1 then (Some E4006, w)
      else if length (pkcs7Pad plaintext) > wr_maxCT w then (Some E5003, w)
      else case env_iv env of
        None \<Rightarrow> (Some E4007, w)
      | Some iv \<Rightarrow>
          if \<not> aes_key_ok (wr_kEnc w) then (Some E4007, w)
          else let buf = record_bytes c (wr_kEnc w) (wr_kMac w) (wr_chID w) (wr_seq w) iv plaintext in
            case env_write_fails env of
              Some k \<Rightarrow> (Some E3003, w\<lparr>wr_out := wr_out w @ take k buf\<rparr>)
            | None \<Rightarrow> (None, w\<lparr>wr_out := wr_out w @ buf, wr_seq := wr_seq w + 1, wr_closed := isClose\<rparr>))"

definition WriteFrame :: "crypto \<Rightarrow> write_env \<Rightarrow> bytes \<Rightarrow> Writer \<Rightarrow> Code option \<times> Writer" where
  "WriteFrame c env plaintext w =
     (if length plaintext = 0 then (Some E9004, w) else writeRecord c env plaintext False w)"

definition Writer_Close :: "crypto \<Rightarrow> write_env \<Rightarrow> Writer \<Rightarrow> Code option \<times> Writer" where
  "Writer_Close c env w = writeRecord c env [] True w"

section \<open>Reader\<close>

record Reader =
  re_in :: bytes
  re_ioerr :: bool
  re_kEnc :: bytes
  re_kMac :: bytes
  re_chID :: u8
  re_maxCT :: nat
  re_seq :: u64
  re_done :: bool

datatype frame_result = Frame bytes | EOF | Failed Code

definition NewReader :: "bytes \<Rightarrow> bool \<Rightarrow> bytes \<Rightarrow> bytes \<Rightarrow> u8 \<Rightarrow> Reader" where
  "NewReader inp ioerr kEnc kMac channelID = \<lparr>re_in = inp, re_ioerr = ioerr, re_kEnc = kEnc,
     re_kMac = kMac, re_chID = channelID, re_maxCT = maxCT channelID, re_seq = 0, re_done = False\<rparr>"

text \<open>
  \<^verbatim>\<open>io.ReadFull\<close> of \<open>n\<close> bytes: too few bytes end in an end-of-file error, or in the
  connection's own error when \<open>re_ioerr\<close> says that the input ends with one.
\<close>

definition ReadFull :: "nat \<Rightarrow> Reader \<Rightarrow> (Code + bytes) \<times> Reader" where
  "ReadFull n r =
     (if n \<le> length (re_in r) then (Inr (take n (re_in r)), r\<lparr>re_in := drop n (re_in r)\<rparr>)
      else (Inl (if re_ioerr r then E3003 else E4005), r\<lparr>re_in := []\<rparr>))"

definition ct_len_ok :: "nat \<Rightarrow> nat \<Rightarrow> bool" where
  "ct_len_ok ctLen mx \<longleftrightarrow> \<not> (ctLen < blockSize \<or> ctLen > mx \<or> ctLen mod blockSize \<noteq> 0)"

definition ReadFrame :: "crypto \<Rightarrow> Reader \<Rightarrow> frame_result \<times> Reader" where
  "ReadFrame c r =
     (if re_done r then (EOF, r)
      else case ReadFull headerLen r of
        (Inl e, r1) \<Rightarrow> (Failed e, r1)
      | (Inr h, r1) \<Rightarrow>
          if h ! 0 \<noteq> rec_version then (Failed E5002, r1)
          else if h ! 1 \<noteq> re_chID r then (Failed E4003, r1)
          else let ctLen = unat (get32 (subslice 10 14 h)) in
            if \<not> ct_len_ok ctLen (re_maxCT r) then (Failed E5003, r1)
            else case ReadFull (ivLen + ctLen + macLen) r1 of
              (Inl e, r2) \<Rightarrow> (Failed e, r2)
            | (Inr body, r2) \<Rightarrow>
                let iv = take ivLen body; ct = subslice ivLen (ivLen + ctLen) body;
                    gotMAC = drop (ivLen + ctLen) body
                in if hmac_sha256 c (re_kMac r) (h @ iv @ ct) \<noteq> gotMAC then (Failed E4003, r2)
                   else if get64 (subslice 2 10 h) \<noteq> re_seq r then (Failed E4004, r2)
                   else if \<not> aes_key_ok (re_kEnc r) then (Failed E4007, r2)
                   else case pkcs7Unpad (cbc_decrypt c (re_kEnc r) iv ct) of
                     Inl e \<Rightarrow> (Failed e, r2)
                   | Inr frame \<Rightarrow>
                       let r3 = r2\<lparr>re_seq := re_seq r + 1\<rparr>
                       in if length frame = 0 then (EOF, r3\<lparr>re_done := True\<rparr>) else (Frame frame, r3))"

section \<open>One record\<close>

lemma length_record_header [simp]: "length (record_header cid sq n) = 14"
  by (simp add: record_header_def)

lemma record_header_fields:
  "record_header cid sq n ! 0 = rec_version" "record_header cid sq n ! Suc 0 = cid"
  "subslice 2 10 (record_header cid sq n) = be64 sq"
  "subslice 10 14 (record_header cid sq n) = be32 (word_of_nat n)"
proof -
  have "length [rec_version, cid] = 2" by simp
  then show "subslice 2 10 (record_header cid sq n) = be64 sq"
    unfolding record_header_def by (rule subslice_middle) simp
  have "subslice 10 14 (([rec_version, cid] @ be64 sq) @ be32 (word_of_nat n) @ []) = be32 (word_of_nat n)"
    by (rule subslice_middle) simp_all
  then show "subslice 10 14 (record_header cid sq n) = be32 (word_of_nat n)"
    by (simp add: record_header_def)
qed (simp_all add: record_header_def)

text \<open>The parameters of a stream: keys of the right size, IVs of 16 bytes, frames that fit.\<close>

definition fits :: "u8 \<Rightarrow> bytes \<Rightarrow> bool" where
  "fits cid pt \<longleftrightarrow> length (pkcs7Pad pt) \<le> maxCT cid"

lemma fits_Nil [simp]: "fits cid []"
  by (simp add: fits_def length_pkcs7Pad maxCT_def rec_consts)

lemma length_record_bytes:
  assumes "crypto_ok c" "aes_key_ok kE" "length iv = ivLen"
  shows "length (record_bytes c kE kM cid sq iv pt) = 62 + length (pkcs7Pad pt)"
  using assms by (simp add: record_bytes_def crypto_ok_def Let_def ivLen_def macLen_def)

definition reader_at :: "bytes \<Rightarrow> bytes \<Rightarrow> u8 \<Rightarrow> u64 \<Rightarrow> bytes \<Rightarrow> Reader" where
  "reader_at kE kM cid sq inp = \<lparr>re_in = inp, re_ioerr = False, re_kEnc = kE, re_kMac = kM,
     re_chID = cid, re_maxCT = maxCT cid, re_seq = sq, re_done = False\<rparr>"

lemma ReadFull_reader_at:
  "ReadFull n (reader_at kE kM cid sq inp) = (if n \<le> length inp
     then (Inr (take n inp), reader_at kE kM cid sq (drop n inp))
     else (Inl E4005, reader_at kE kM cid sq []))"
  by (simp add: ReadFull_def reader_at_def)

lemma ReadFull_exact:
  "length a = n \<Longrightarrow> ReadFull n (reader_at kE kM cid sq (a @ b)) = (Inr a, reader_at kE kM cid sq b)"
  by (simp add: ReadFull_reader_at)

lemma reader_at_sel [simp]:
  "re_kEnc (reader_at kE kM cid sq inp) = kE" "re_kMac (reader_at kE kM cid sq inp) = kM"
  "re_chID (reader_at kE kM cid sq inp) = cid" "re_maxCT (reader_at kE kM cid sq inp) = maxCT cid"
  "re_seq (reader_at kE kM cid sq inp) = sq" "re_in (reader_at kE kM cid sq inp) = inp"
  "\<not> re_done (reader_at kE kM cid sq inp)"
  "reader_at kE kM cid sq inp\<lparr>re_seq := sq'\<rparr> = reader_at kE kM cid sq' inp"
  by (simp_all add: reader_at_def)

lemma record_ct_len:
  "fits cid pt \<Longrightarrow> unat (word_of_nat (length (pkcs7Pad pt)) :: u32) = length (pkcs7Pad pt)"
  using maxCT_less [of cid] by (simp add: fits_def unat_of_nat)

lemma record_split:
  assumes "crypto_ok c" "aes_key_ok kE" "length iv = ivLen"
  obtains ct mac where "record_bytes c kE kM cid sq iv pt =
      record_header cid sq (length (pkcs7Pad pt)) @ (iv @ ct @ mac)"
    and "length ct = length (pkcs7Pad pt)" "length mac = macLen"
    and "mac = hmac_sha256 c kM (record_header cid sq (length (pkcs7Pad pt)) @ iv @ ct)"
    and "cbc_decrypt c kE iv ct = pkcs7Pad pt"
  using assms by (intro that [of "cbc_encrypt c kE iv (pkcs7Pad pt)"])
    (simp_all add: record_bytes_def crypto_ok_def Let_def)

lemma ct_len_ok_pad: "fits cid pt \<Longrightarrow> ct_len_ok (length (pkcs7Pad pt)) (maxCT cid)"
  by (simp add: ct_len_ok_def fits_def not_less)

lemma ReadFrame_record:
  assumes ok: "crypto_ok c" "aes_key_ok kE" "length iv = ivLen" and fits: "fits cid pt"
  shows "ReadFrame c (reader_at kE kM cid sq (record_bytes c kE kM cid sq iv pt @ rest)) =
     (if pt = [] then (EOF, (reader_at kE kM cid (sq + 1) rest)\<lparr>re_done := True\<rparr>)
      else (Frame pt, reader_at kE kM cid (sq + 1) rest))"
proof -
  obtain ct mac where rb: "record_bytes c kE kM cid sq iv pt =
      record_header cid sq (length (pkcs7Pad pt)) @ (iv @ ct @ mac)"
    and len: "length ct = length (pkcs7Pad pt)" "length mac = macLen"
    and mac: "mac = hmac_sha256 c kM (record_header cid sq (length (pkcs7Pad pt)) @ iv @ ct)"
    and dec: "cbc_decrypt c kE iv ct = pkcs7Pad pt"
    using record_split [OF ok] by blast
  let ?h = "record_header cid sq (length (pkcs7Pad pt))"
  have h: "ReadFull headerLen (reader_at kE kM cid sq (record_bytes c kE kM cid sq iv pt @ rest)) =
      (Inr ?h, reader_at kE kM cid sq ((iv @ ct @ mac) @ rest))"
    using ReadFull_exact [of ?h headerLen] by (simp add: rb headerLen_def)
  have body: "ReadFull (ivLen + length (pkcs7Pad pt) + macLen) (reader_at kE kM cid sq (iv @ ct @ mac @ rest)) =
      (Inr (iv @ ct @ mac), reader_at kE kM cid sq rest)"
    using ReadFull_exact [of "iv @ ct @ mac"] by (simp add: ok len)
  have parts: "take ivLen (iv @ ct @ mac) = iv" "drop (ivLen + length (pkcs7Pad pt)) (iv @ ct @ mac) = mac"
    "subslice ivLen (ivLen + length (pkcs7Pad pt)) (iv @ ct @ mac) = ct"
    using ok(3) len by (simp_all add: subslice_def)
  show ?thesis
    unfolding ReadFrame_def h
    using ct_len_ok_pad [OF fits] record_ct_len [OF fits] ok(2)
    by (simp add: record_header_fields body parts(3) ok(3) len(1) mac [symmetric] dec Let_def)
qed

text \<open>A proper prefix of a record, with nothing after it.\<close>

lemma ReadFrame_prefix:
  assumes ok: "crypto_ok c" "aes_key_ok kE" "length iv = ivLen" and fits: "fits cid pt"
    and k: "k < length (record_bytes c kE kM cid sq iv pt)"
  shows "fst (ReadFrame c (reader_at kE kM cid sq (take k (record_bytes c kE kM cid sq iv pt)))) = Failed E4005"
proof -
  obtain ct mac where rb: "record_bytes c kE kM cid sq iv pt =
      record_header cid sq (length (pkcs7Pad pt)) @ (iv @ ct @ mac)"
    and len: "length ct = length (pkcs7Pad pt)" "length mac = macLen"
    using record_split [OF ok] by metis
  let ?h = "record_header cid sq (length (pkcs7Pad pt))"
  show ?thesis
  proof (cases "k < 14")
    case True
    then show ?thesis by (simp add: ReadFrame_def ReadFull_reader_at headerLen_def)
  next
    case False
    then obtain j where j: "k = 14 + j" using le_Suc_ex not_less by metis
    have inp: "take k (record_bytes c kE kM cid sq iv pt) = ?h @ take j (iv @ ct @ mac)"
      using j by (simp add: rb)
    have h: "ReadFull headerLen (reader_at kE kM cid sq (?h @ take j (iv @ ct @ mac))) =
        (Inr ?h, reader_at kE kM cid sq (take j (iv @ ct @ mac)))"
      by (rule ReadFull_exact) (simp add: headerLen_def)
    have "\<not> ivLen + length (pkcs7Pad pt) + macLen \<le> length (take j (iv @ ct @ mac))"
      using k by (simp add: rb j ok(3) len)
    then show ?thesis
      unfolding inp ReadFrame_def h
      using ct_len_ok_pad [OF fits] record_ct_len [OF fits]
      by (simp add: record_header_fields ReadFull_reader_at Let_def)
  qed
qed

section \<open>What an accepted record satisfies\<close>

lemma ReadFull_Inr:
  assumes "ReadFull n r = (Inr x, r')"
  obtains rest where "re_in r = x @ rest" "length x = n" "r' = r\<lparr>re_in := rest\<rparr>"
  using assms that [of "drop n (re_in r)"] by (auto simp: ReadFull_def split: if_splits)

lemma header_eq:
  assumes "length h = 14" "h ! 0 = rec_version" "h ! 1 = cid" "get64 (subslice 2 10 h) = sq"
    and "unat (get32 (subslice 10 14 h)) = n"
  shows "h = record_header cid sq n"
proof -
  have "be64 sq = subslice 2 10 h" using assms(1,4) be64_get64 [of "subslice 2 10 h"] by simp
  moreover have "be32 (word_of_nat n) = subslice 10 14 h"
    using assms(1) be32_get32 [of "subslice 10 14 h"] by (simp flip: assms(5))
  moreover have "h = take 2 h @ subslice 2 10 h @ subslice 10 14 h"
    using append_take_drop_id [of 2 h] append_take_drop_id [of 8 "drop 2 h"] assms(1)
    by (simp add: subslice_def)
  moreover have "take 2 h = [rec_version, cid]"
    using assms(1-3) by (intro nth_equalityI) (auto simp: less_Suc_eq numeral_2_eq_2)
  ultimately show ?thesis by (simp add: record_header_def)
qed

lemma accepted_record:
  assumes run: "ReadFrame c r = (Frame f, r')"
  obtains iv ct rest where
    "re_in r = record_header (re_chID r) (re_seq r) (length ct) @ iv @ ct @
       hmac_sha256 c (re_kMac r) (record_header (re_chID r) (re_seq r) (length ct) @ iv @ ct) @ rest"
    "length iv = ivLen" "ct_len_ok (length ct) (re_maxCT r)"
    "cbc_decrypt c (re_kEnc r) iv ct = pkcs7Pad f" "f \<noteq> []"
    "r' = r\<lparr>re_in := rest, re_seq := re_seq r + 1\<rparr>" "\<not> re_done r"
proof -
  from run obtain h r1 where 1: "ReadFull headerLen r = (Inr h, r1)" and nd: "\<not> re_done r"
    by (auto simp: ReadFrame_def split: if_splits prod.splits sum.splits)
  define n where "n = unat (get32 (subslice 10 14 h))"
  from run 1 nd obtain body r2 where hv: "h ! 0 = rec_version" "h ! 1 = re_chID r" "ct_len_ok n (re_maxCT r)"
    and 2: "ReadFull (ivLen + n + macLen) r1 = (Inr body, r2)"
    by (auto simp: ReadFrame_def Let_def n_def split: if_splits prod.splits sum.splits)
  define iv ct mac where "iv = take ivLen body" and "ct = subslice ivLen (ivLen + n) body"
    and "mac = drop (ivLen + n) body"
  have after: "(if hmac_sha256 c (re_kMac r) (h @ iv @ ct) \<noteq> mac then (Failed E4003, r2)
      else if get64 (subslice 2 10 h) \<noteq> re_seq r then (Failed E4004, r2)
      else if \<not> aes_key_ok (re_kEnc r) then (Failed E4007, r2)
      else case pkcs7Unpad (cbc_decrypt c (re_kEnc r) iv ct) of
          Inl e \<Rightarrow> (Failed e, r2)
        | Inr frame \<Rightarrow> let r3 = r2\<lparr>re_seq := re_seq r + 1\<rparr>
            in if length frame = 0 then (EOF, r3\<lparr>re_done := True\<rparr>) else (Frame frame, r3)) = (Frame f, r')"
    using run nd hv unfolding ReadFrame_def 1 
    by (simp add: n_def [symmetric] 2 iv_def ct_def mac_def Let_def split del: if_split cong: if_cong)
  then have mac: "mac = hmac_sha256 c (re_kMac r) (h @ iv @ ct)" and sq: "get64 (subslice 2 10 h) = re_seq r"
    and up: "pkcs7Unpad (cbc_decrypt c (re_kEnc r) iv ct) = Inr f" and f: "f \<noteq> []"
    and r': "r' = r2\<lparr>re_seq := re_seq r + 1\<rparr>"
    by (auto simp: Let_def split: if_splits sum.splits)
  obtain in1 where b1: "re_in r = h @ in1" "length h = 14" "r1 = r\<lparr>re_in := in1\<rparr>"
    using ReadFull_Inr [OF 1] by (auto simp: headerLen_def)
  obtain rest where b2: "re_in r1 = body @ rest" "length body = ivLen + n + macLen" "r2 = r1\<lparr>re_in := rest\<rparr>"
    using ReadFull_Inr [OF 2] by blast
  have len: "length ct = n" "length iv = ivLen" using b2(2) by (simp_all add: ct_def iv_def)
  have body: "body = iv @ ct @ mac"
    using append_take_drop_id [of ivLen body] append_take_drop_id [of n "drop ivLen body"]
    by (simp add: iv_def ct_def mac_def subslice_def add.commute)
  have h: "h = record_header (re_chID r) (re_seq r) (length ct)"
    using header_eq [OF b1(2) hv(1,2) sq] by (simp add: n_def len)
  have "r' = r\<lparr>re_in := rest, re_seq := re_seq r + 1\<rparr>" "re_in r = h @ body @ rest"
    using r' b1 b2 by simp_all
  then show ?thesis
    using that [of ct iv rest] body mac h hv(3) len f nd pkcs7Unpad_canonical [OF up] by simp
qed

section \<open>Streams\<close>

text \<open>A run of writes, stopping at the first error, and a run of reads up to the first non-frame.\<close>

definition good_env :: "bytes \<Rightarrow> write_env" where
  "good_env iv = \<lparr>env_iv = Some iv, env_write_fails = None\<rparr>"

fun write_all :: "crypto \<Rightarrow> (bytes \<times> bytes) list \<Rightarrow> Writer \<Rightarrow> Code option \<times> Writer" where
  "write_all c [] w = (None, w)"
| "write_all c ((iv, f) # fs) w = (case WriteFrame c (good_env iv) f w of
     (Some e, w') \<Rightarrow> (Some e, w')
   | (None, w') \<Rightarrow> write_all c fs w')"

lemma ReadFrame_progress: "ReadFrame c r = (Frame f, r') \<Longrightarrow> length (re_in r') < length (re_in r)"
  by (elim accepted_record) simp

function drain :: "crypto \<Rightarrow> Reader \<Rightarrow> bytes list \<times> frame_result" where
  "drain c r = (case ReadFrame c r of
     (Frame f, r') \<Rightarrow> (case drain c r' of (fs, e) \<Rightarrow> (f # fs, e))
   | (x, r') \<Rightarrow> ([], x))"
  by pat_completeness auto
termination
  by (relation "measure (\<lambda>(c, r). length (re_in r))") (auto dest: ReadFrame_progress [OF sym])

declare drain.simps [simp del]

fun stream :: "crypto \<Rightarrow> bytes \<Rightarrow> bytes \<Rightarrow> u8 \<Rightarrow> u64 \<Rightarrow> (bytes \<times> bytes) list \<Rightarrow> bytes" where
  "stream c kE kM cid sq [] = []"
| "stream c kE kM cid sq ((iv, f) # fs) =
     record_bytes c kE kM cid sq iv f @ stream c kE kM cid (sq + 1) fs"

definition good_frames :: "u8 \<Rightarrow> (bytes \<times> bytes) list \<Rightarrow> bool" where
  "good_frames cid fs \<longleftrightarrow> list_all (\<lambda>(iv, f). length iv = ivLen \<and> f \<noteq> [] \<and> fits cid f) fs"

lemma good_frames_Cons [simp]:
  "good_frames cid ((iv, f) # fs) \<longleftrightarrow> length iv = ivLen \<and> f \<noteq> [] \<and> fits cid f \<and> good_frames cid fs"
  "good_frames cid []"
  by (simp_all add: good_frames_def)

definition writer_at :: "bytes \<Rightarrow> bytes \<Rightarrow> u8 \<Rightarrow> u64 \<Rightarrow> bytes \<Rightarrow> Writer" where
  "writer_at kE kM cid sq out = \<lparr>wr_out = out, wr_kEnc = kE, wr_kMac = kM, wr_chID = cid,
     wr_maxCT = maxCT cid, wr_seq = sq, wr_closed = False\<rparr>"

lemma writeRecord_ok:
  "aes_key_ok kE \<Longrightarrow> fits cid pt \<Longrightarrow> sq \<noteq> - 1 \<Longrightarrow>
    writeRecord c (good_env iv) pt cl (writer_at kE kM cid sq out) =
      (None, (writer_at kE kM cid (sq + 1) (out @ record_bytes c kE kM cid sq iv pt))\<lparr>wr_closed := cl\<rparr>)"
  by (simp add: writeRecord_def writer_at_def good_env_def fits_def Let_def)

lemma writer_at_open: "(writer_at kE kM cid sq out)\<lparr>wr_closed := False\<rparr> = writer_at kE kM cid sq out"
  by (simp add: writer_at_def)

lemma u64_seq_room:
  "unat (sq :: u64) + Suc n < 2 ^ 64 \<Longrightarrow> sq \<noteq> - 1 \<and> unat (sq + 1) = unat sq + 1"
proof
  assume a: "unat sq + Suc n < 2 ^ 64"
  have "unat (- 1 :: u64) = 2 ^ 64 - 1" by (simp add: unsigned_minus_1_eq_mask mask_eq_exp_minus_1)
  with a show ne: "sq \<noteq> - 1" by auto
  then show "unat (sq + 1) = unat sq + 1" using unatSuc [of sq] by (simp add: add.commute add_eq_0_iff)
qed

lemma write_all_stream:
  assumes "aes_key_ok kE"
  shows "good_frames cid fs \<Longrightarrow> unat sq + length fs < 2 ^ 64 \<Longrightarrow>
    write_all c fs (writer_at kE kM cid sq out) =
      (None, writer_at kE kM cid (sq + word_of_nat (length fs)) (out @ stream c kE kM cid sq fs))"
proof (induction fs arbitrary: sq out)
  case Nil
  then show ?case by simp
next
  case (Cons p fs)
  obtain iv f where p: "p = (iv, f)" by fastforce
  have sq: "sq \<noteq> - 1" "unat (sq + 1) = unat sq + 1"
    using u64_seq_room [of sq "length fs"] Cons.prems(2) by simp_all
  have w: "WriteFrame c (good_env iv) f (writer_at kE kM cid sq out) =
      (None, writer_at kE kM cid (sq + 1) (out @ record_bytes c kE kM cid sq iv f))"
    using Cons.prems(1) sq(1) by (simp add: p WriteFrame_def writeRecord_ok assms writer_at_open)
  show ?case
    using Cons.IH [of "sq + 1"] Cons.prems sq by (simp add: p w add.assoc)
qed

lemma drain_Frame: "ReadFrame c r = (Frame f, r') \<Longrightarrow> drain c r' = (fs, e) \<Longrightarrow> drain c r = (f # fs, e)"
  by (subst drain.simps) simp

lemma drain_stream:
  assumes "crypto_ok c" "aes_key_ok kE"
  shows "good_frames cid fs \<Longrightarrow> drain c (reader_at kE kM cid (sq + word_of_nat (length fs)) rest) = (gs, e) \<Longrightarrow>
    drain c (reader_at kE kM cid sq (stream c kE kM cid sq fs @ rest)) = (map snd fs @ gs, e)"
proof (induction fs arbitrary: sq)
  case Nil
  then show ?case by simp
next
  case (Cons p fs)
  obtain iv f where p: "p = (iv, f)" by fastforce
  have "drain c (reader_at kE kM cid (sq + 1) (stream c kE kM cid (sq + 1) fs @ rest)) = (map snd fs @ gs, e)"
    using Cons by (simp add: p add.assoc)
  with Cons.prems(1) show ?case
    using ReadFrame_record [OF assms, of iv cid f kM sq "stream c kE kM cid (sq + 1) fs @ rest"]
    by (simp add: p drain_Frame)
qed

text \<open>A stream cut anywhere before its end: some of the frames are delivered, then E4005.\<close>

lemma drain_truncated:
  assumes "crypto_ok c" "aes_key_ok kE" "length iv' = ivLen"
  shows "good_frames cid fs \<Longrightarrow>
    k < length (stream c kE kM cid sq (fs @ [(iv', [])])) \<Longrightarrow>
    \<exists>j\<le>length fs. drain c (reader_at kE kM cid sq (take k (stream c kE kM cid sq (fs @ [(iv', [])])))) =
      (take j (map snd fs), Failed E4005)"
proof (induction fs arbitrary: sq k)
  case Nil
  then have "fst (ReadFrame c (reader_at kE kM cid sq (take k (record_bytes c kE kM cid sq iv' [])))) = Failed E4005"
    by (intro ReadFrame_prefix assms) simp_all
  then show ?case by (subst drain.simps) (auto split: prod.splits)
next
  case (Cons p fs)
  obtain iv f where p: "p = (iv, f)" by fastforce
  let ?rb = "record_bytes c kE kM cid sq iv f" and ?s = "stream c kE kM cid (sq + 1) (fs @ [(iv', [])])"
  have g: "length iv = ivLen" "f \<noteq> []" "fits cid f" "good_frames cid fs" using Cons.prems(1) by (simp_all add: p)
  show ?case
  proof (cases "k < length ?rb")
    case True
    then have "fst (ReadFrame c (reader_at kE kM cid sq (take k ?rb))) = Failed E4005"
      by (intro ReadFrame_prefix assms g)
    then have "drain c (reader_at kE kM cid sq (take k ?rb)) = ([], Failed E4005)"
      by (subst drain.simps) (auto split: prod.splits)
    with True show ?thesis by (intro exI [of _ 0]) (simp add: p)
  next
    case False
    then obtain m where m: "k = length ?rb + m" using le_Suc_ex not_less by metis
    from Cons.prems(2) have "m < length ?s" by (simp add: p m)
    from Cons.IH [OF g(4) this] obtain j where j: "j \<le> length fs"
      and d: "drain c (reader_at kE kM cid (sq + 1) (take m ?s)) = (take j (map snd fs), Failed E4005)" by blast
    have "drain c (reader_at kE kM cid sq (?rb @ take m ?s)) = (f # take j (map snd fs), Failed E4005)"
      using ReadFrame_record [OF assms(1,2) g(1,3), of kM sq "take m ?s"] g(2) d by (simp add: drain_Frame)
    with j show ?thesis by (intro exI [of _ "Suc j"]) (simp add: p m)
  qed
qed

section \<open>Delivery, truncation, authenticity\<close>

text \<open>
  The bytes of a session: all frames, then the close record.
\<close>

definition session_bytes :: "crypto \<Rightarrow> bytes \<Rightarrow> bytes \<Rightarrow> u8 \<Rightarrow> (bytes \<times> bytes) list \<Rightarrow> bytes \<Rightarrow> bytes" where
  "session_bytes c kE kM cid fs iv' =
     wr_out (snd (Writer_Close c (good_env iv') (snd (write_all c fs (newWriter kE kM cid)))))"

lemma stream_append: "stream c kE kM cid sq (fs @ gs) =
    stream c kE kM cid sq fs @ stream c kE kM cid (sq + word_of_nat (length fs)) gs"
  by (induction fs arbitrary: sq) (auto simp: add.assoc)

lemma session_bytes_stream:
  assumes "aes_key_ok kE" "good_frames cid fs" "length fs + 1 < 2 ^ 64"
  shows "session_bytes c kE kM cid fs iv' = stream c kE kM cid 0 (fs @ [(iv', [])])"
proof -
  let ?n = "word_of_nat (length fs) :: u64"
  have n: "unat ?n = length fs" using assms(3) by (simp add: unat_of_nat)
  then have "?n \<noteq> - 1" using u64_seq_room [of ?n 0] assms(3) by simp
  moreover have "newWriter kE kM cid = writer_at kE kM cid 0 []" by (simp add: newWriter_def writer_at_def)
  ultimately show ?thesis
    using stream_append [of c kE kM cid 0 fs] write_all_stream [OF assms(1,2), of 0 c kM "[]"] assms
    by (simp add: session_bytes_def Writer_Close_def writeRecord_ok) (simp add: writer_at_def)
qed

text \<open>
  C5. Record streams are delivered exactly: for any frames that fit the channel's ceiling, the
  records written by \<^verbatim>\<open>WriteFrame\<close> and the final \<^verbatim>\<open>Close\<close> are read back by \<^verbatim>\<open>ReadFrame\<close> as
  the same frames in the same order, ending with the clean end-of-stream.
\<close>

theorem stream_delivered:
  assumes "crypto_ok c" "aes_key_ok kE" "good_frames cid fs" "length iv' = ivLen" "length fs + 1 < 2 ^ 64"
  shows "fst (write_all c fs (newWriter kE kM cid)) = None \<and>
    drain c (NewReader (session_bytes c kE kM cid fs iv') False kE kM cid) = (map snd fs, EOF)"
proof
  have w: "newWriter kE kM cid = writer_at kE kM cid 0 []" by (simp add: newWriter_def writer_at_def)
  show "fst (write_all c fs (newWriter kE kM cid)) = None"
    using write_all_stream [OF assms(2,3), of 0] assms(5) by (simp add: w)
  have r: "NewReader b False kE kM cid = reader_at kE kM cid 0 b" for b by (simp add: NewReader_def reader_at_def)
  let ?sq = "word_of_nat (length fs) :: u64"
  have "drain c (reader_at kE kM cid ?sq (record_bytes c kE kM cid ?sq iv' [] @ [])) = ([], EOF)"
    by (subst drain.simps, subst ReadFrame_record [OF assms(1,2,4)]) simp_all
  then have "drain c (reader_at kE kM cid 0 (stream c kE kM cid 0 fs @ record_bytes c kE kM cid ?sq iv' [])) =
      (map snd fs, EOF)"
    using drain_stream [OF assms(1-3), of kM 0 "record_bytes c kE kM cid ?sq iv' []" "[]"] by simp
  then show "drain c (NewReader (session_bytes c kE kM cid fs iv') False kE kM cid) = (map snd fs, EOF)"
    unfolding r session_bytes_stream [OF assms(2,3,5)] by (simp add: stream_append)
qed

text \<open>A concrete instance of the parameter: a cipher that adds the IV, and a constant-length MAC.\<close>

definition toy_crypto :: crypto where
  "toy_crypto = \<lparr>cbc_encrypt = (\<lambda>k iv p. map (\<lambda>x. x + hd iv) p), cbc_decrypt = (\<lambda>k iv p. map (\<lambda>x. x - hd iv) p),
     hmac_sha256 = (\<lambda>k m. replicate macLen (sum_list m + sum_list k))\<rparr>"

lemma toy_crypto_ok: "crypto_ok toy_crypto"
  by (simp add: crypto_ok_def toy_crypto_def comp_def)

definition toy_frames :: "(bytes \<times> bytes) list" where
  "toy_frames = [(replicate 16 1, [1, 2, 3]), (replicate 16 7, [9])]"

lemma toy_frames_ok: "good_frames 1 toy_frames" "aes_key_ok (replicate 32 5)" "length (replicate 16 (0 :: byte)) = ivLen"
  by (simp_all add: toy_frames_def fits_def length_pkcs7Pad maxCT_def rec_consts aes_key_ok_def)

theorem stream_delivered_witness:
  "drain toy_crypto (NewReader (session_bytes toy_crypto (replicate 32 5) [8] 1 toy_frames (replicate 16 0))
     False (replicate 32 5) [8] 1) = ([[1, 2, 3], [9]], EOF)"
  using stream_delivered [OF toy_crypto_ok toy_frames_ok(2,1,3), of "[8]"] by (simp add: toy_frames_def)

text \<open>
  C11. Truncation is always detected: if the connection ends before the last byte of the close
  record, the reader delivers an initial part of the frames and then fails with E4005; it never
  reports a clean end of stream.
\<close>

theorem stream_truncated:
  assumes "crypto_ok c" "aes_key_ok kE" "good_frames cid fs" "length iv' = ivLen" "length fs + 1 < 2 ^ 64"
    and "k < length (session_bytes c kE kM cid fs iv')"
  shows "\<exists>j\<le>length fs. drain c (NewReader (take k (session_bytes c kE kM cid fs iv')) False kE kM cid) =
    (take j (map snd fs), Failed E4005)"
proof -
  have r: "NewReader b False kE kM cid = reader_at kE kM cid 0 b" for b by (simp add: NewReader_def reader_at_def)
  show ?thesis
    using drain_truncated [OF assms(1,2,4,3), of k kM 0] assms(6)
    unfolding r session_bytes_stream [OF assms(2,3,5)] by blast
qed

lemma session_bytes_nonempty:
  assumes "crypto_ok c" "aes_key_ok kE" "good_frames cid fs" "length iv' = ivLen" "length fs + 1 < 2 ^ 64"
  shows "62 \<le> length (session_bytes c kE kM cid fs iv')"
proof -
  have "62 \<le> length (stream c kE kM cid sq (fs @ [(iv', [])]))" for sq
    using length_record_bytes [OF assms(1,2,4), of kM cid _ "[]"] by (simp add: stream_append)
  then show ?thesis unfolding session_bytes_stream [OF assms(2,3,5)] .
qed

theorem stream_truncated_witness:
  "\<exists>j\<le>length toy_frames. drain toy_crypto (NewReader (take 61 (session_bytes toy_crypto (replicate 32 5) [8] 1 toy_frames
     (replicate 16 0))) False (replicate 32 5) [8] 1) = (take j (map snd toy_frames), Failed E4005)"
proof -
  have "61 < length (session_bytes toy_crypto (replicate 32 5) [8] 1 toy_frames (replicate 16 0))"
    using session_bytes_nonempty [OF toy_crypto_ok toy_frames_ok(2,1,3), of "[8]"] by (simp add: toy_frames_def)
  then show ?thesis
    using stream_truncated [OF toy_crypto_ok toy_frames_ok(2,1,3), of 61 "[8]"]
    by (simp add: toy_frames_def)
qed

text \<open>
  C22. What \<^verbatim>\<open>ReadFrame\<close> accepts: a frame is returned only from a record whose header carries
  this reader's channel and the next sequence number, whose ciphertext length is in range, and
  whose MAC is the keyed MAC of header, IV and ciphertext; the plaintext is the unique unpadding of
  the decrypted text, exactly the record's bytes are consumed, and the sequence number advances by
  one (so a repeated, skipped or reordered record cannot be accepted).
\<close>

theorem ReadFrame_authentic:
  assumes "ReadFrame c r = (Frame f, r')"
  shows "\<exists>iv ct rest. let h = record_header (re_chID r) (re_seq r) (length ct) in
    re_in r = h @ iv @ ct @ hmac_sha256 c (re_kMac r) (h @ iv @ ct) @ rest \<and>
    length iv = ivLen \<and> ct_len_ok (length ct) (re_maxCT r) \<and>
    cbc_decrypt c (re_kEnc r) iv ct = pkcs7Pad f \<and> f \<noteq> [] \<and>
    r' = r\<lparr>re_in := rest, re_seq := re_seq r + 1\<rparr>"
  by (rule accepted_record [OF assms]) (unfold Let_def, blast)

theorem ReadFrame_authentic_witness:
  "\<exists>iv ct rest. re_in (reader_at (replicate 32 5) [8] 1 0 (record_bytes toy_crypto (replicate 32 5) [8] 1 0 (replicate 16 1) [4])) =
     record_header 1 0 (length ct) @ iv @ ct @
     hmac_sha256 toy_crypto [8] (record_header 1 0 (length ct) @ iv @ ct) @ rest"
proof -
  have "fits 1 [4]" by (simp add: fits_def length_pkcs7Pad maxCT_def rec_consts)
  then have "ReadFrame toy_crypto (reader_at (replicate 32 5) [8] 1 0
      (record_bytes toy_crypto (replicate 32 5) [8] 1 0 (replicate 16 1) [4] @ [])) =
      (Frame [4], reader_at (replicate 32 5) [8] 1 (0 + 1) [])"
    using ReadFrame_record [OF toy_crypto_ok toy_frames_ok(2), of "replicate 16 1" 1 "[4]" "[8]" 0 "[]"]
    by (simp add: ivLen_def)
  from ReadFrame_authentic [OF this] show ?thesis by (auto simp: Let_def)
qed

text \<open>
  C28. A genuine record presented at any other position of the stream (a replay, a reordering, a
  gap) is rejected with E4004, and one presented on another channel with E4003, before anything is
  decrypted.
\<close>

theorem replay_rejected:
  assumes "crypto_ok c" "aes_key_ok kE" "length iv = ivLen" "fits cid pt"
  shows "(sq' \<noteq> sq \<longrightarrow>
      fst (ReadFrame c (reader_at kE kM cid sq' (record_bytes c kE kM cid sq iv pt @ rest))) = Failed E4004) \<and>
    (cid' \<noteq> cid \<longrightarrow>
      fst (ReadFrame c (reader_at kE kM cid' sq' (record_bytes c kE kM cid sq iv pt @ rest))) = Failed E4003)"
proof -
  obtain ct mac where rb: "record_bytes c kE kM cid sq iv pt =
      record_header cid sq (length (pkcs7Pad pt)) @ (iv @ ct @ mac)"
    and len: "length ct = length (pkcs7Pad pt)" "length mac = macLen"
    and mac: "mac = hmac_sha256 c kM (record_header cid sq (length (pkcs7Pad pt)) @ iv @ ct)"
    using record_split [OF assms(1-3)] by metis
  let ?h = "record_header cid sq (length (pkcs7Pad pt))"
  have h: "ReadFull headerLen (reader_at kE kM d sq' (record_bytes c kE kM cid sq iv pt @ rest)) =
      (Inr ?h, reader_at kE kM d sq' (iv @ ct @ mac @ rest))" for d
    using ReadFull_exact [of ?h headerLen] by (simp add: rb headerLen_def)
  have body: "ReadFull (ivLen + length (pkcs7Pad pt) + macLen) (reader_at kE kM cid sq' (iv @ ct @ mac @ rest)) =
      (Inr (iv @ ct @ mac), reader_at kE kM cid sq' rest)"
    using ReadFull_exact [of "iv @ ct @ mac"] by (simp add: assms len)
  have part: "subslice ivLen (ivLen + length (pkcs7Pad pt)) (iv @ ct @ mac) = ct"
    using assms(3) len by (simp add: subslice_def)
  show ?thesis
    unfolding ReadFrame_def h
    using ct_len_ok_pad [OF assms(4)] record_ct_len [OF assms(4)]
    by (auto simp: record_header_fields body part assms(3) len(1) mac [symmetric] Let_def)
qed

theorem replay_rejected_witness:
  "fst (ReadFrame toy_crypto (reader_at (replicate 32 5) [8] 1 4
     (record_bytes toy_crypto (replicate 32 5) [8] 1 3 (replicate 16 1) [4] @ []))) = Failed E4004"
proof -
  have "fits 1 [4]" by (simp add: fits_def length_pkcs7Pad maxCT_def rec_consts)
  then show ?thesis
    using replay_rejected [OF toy_crypto_ok toy_frames_ok(2), of "replicate 16 1" 1 "[4]" 4 3 "[8]" "[]"]
    by (simp add: ivLen_def)
qed

text \<open>
  The writer never reuses a sequence number and never wraps: a successful write advances the
  counter by exactly one without overflow, and at the last value every write fails with E4006 and
  leaves the connection untouched; after the close record nothing but E9004 is possible.
\<close>

theorem writer_sequence:
  "writeRecord c env pt cl w = (None, w') \<Longrightarrow> \<not> wr_closed w \<Longrightarrow>
     unat (wr_seq w') = unat (wr_seq w) + 1 \<and> wr_closed w' = cl \<and>
     (\<exists>iv. wr_out w' = wr_out w @ record_bytes c (wr_kEnc w) (wr_kMac w) (wr_chID w) (wr_seq w) iv pt) \<and>
     writeRecord c env pt False (w'\<lparr>wr_closed := True\<rparr>) = (Some E9004, w'\<lparr>wr_closed := True\<rparr>) \<and>
     writeRecord c env pt cl (w\<lparr>wr_seq := - 1\<rparr>) = (Some E4006, w\<lparr>wr_seq := - 1\<rparr>)"
proof -
  assume run: "writeRecord c env pt cl w = (None, w')" and open_w: "\<not> wr_closed w"
  then have sq: "wr_seq w \<noteq> - 1" by (auto simp: writeRecord_def)
  from run open_w sq obtain iv where w': "w' = w\<lparr>wr_out := wr_out w @ record_bytes c (wr_kEnc w) (wr_kMac w)
      (wr_chID w) (wr_seq w) iv pt, wr_seq := wr_seq w + 1, wr_closed := cl\<rparr>"
    by (auto simp: writeRecord_def Let_def split: if_splits option.splits)
  have "unat (wr_seq w + 1) = unat (wr_seq w) + 1"
    using sq unatSuc [of "wr_seq w"] by (simp add: add.commute add_eq_0_iff)
  with open_w show ?thesis by (auto simp: w' writeRecord_def)
qed

theorem writer_sequence_witness:
  "\<exists>w'. writeRecord toy_crypto (good_env (replicate 16 1)) [4] False (newWriter (replicate 32 5) [8] 1) = (None, w') \<and>
     unat (wr_seq w') = 1"
proof -
  let ?w = "newWriter (replicate 32 5) [8] 1"
  have "fits 1 [4]" by (simp add: fits_def length_pkcs7Pad maxCT_def rec_consts)
  moreover have "?w = writer_at (replicate 32 5) [8] 1 0 []" by (simp add: newWriter_def writer_at_def)
  ultimately obtain w' where w': "writeRecord toy_crypto (good_env (replicate 16 1)) [4] False ?w = (None, w')"
    using writeRecord_ok [OF toy_frames_ok(2)] by simp
  have "\<not> wr_closed ?w" "wr_seq ?w = 0" by (simp_all add: newWriter_def)
  with writer_sequence [OF w'] w' show ?thesis by auto
qed

end
