(* ===== verification/Plan.thy ===== *)
theory Plan
  imports Go_Match Wire_Frame Record_Layer "HOL-Library.List_Lexorder" "HOL-Library.Product_Lexorder"
begin

text \<open>
  The transfer plan (\<^verbatim>\<open>internal/plan\<close>): the system-file set (\<^verbatim>\<open>sysfiles.go\<close>), the filters
  (\<^verbatim>\<open>filter.go\<close>), and \<^verbatim>\<open>Build\<close> with ordering, grouping and the manifest digest (\<^verbatim>\<open>plan.go\<close>).
  NFC normalisation and SHA-256 are parameters. \<^verbatim>\<open>slices.SortFunc\<close> is not stable, so the order of
  two entries with the same path is not specified by the code: the results assume distinct paths
  where the order matters.
\<close>

unbundle bit_operations_syntax

section \<open>System files\<close>

datatype sysKind = sysExact | sysPrefix | sysSuffix

record sysRule =
  sr_name :: bytes
  sr_pat :: bytes
  sr_kind :: sysKind
  sr_dir :: bool
  sr_rootOnly :: bool
  sr_winFold :: bool

definition sys_rule :: "string \<Rightarrow> string \<Rightarrow> sysKind \<Rightarrow> bool \<Rightarrow> bool \<Rightarrow> bool \<Rightarrow> sysRule" where
  "sys_rule n p k d r w = \<lparr>sr_name = str n, sr_pat = str p, sr_kind = k, sr_dir = d, sr_rootOnly = r, sr_winFold = w\<rparr>"

definition sysRules :: "sysRule list" where
  "sysRules =
    [sys_rule ''macos:.DS_Store'' ''.DS_Store'' sysExact False False False,
     sys_rule ''macos:._*'' ''._'' sysPrefix False False False,
     sys_rule ''macos:.AppleDouble'' ''.AppleDouble'' sysExact True False False,
     sys_rule ''macos:.AppleDB'' ''.AppleDB'' sysExact True False False,
     sys_rule ''macos:.AppleDesktop'' ''.AppleDesktop'' sysExact True False False,
     sys_rule ''macos:__MACOSX'' ''__MACOSX'' sysExact True False False,
     sys_rule ''macos:.Spotlight-V100'' ''.Spotlight-V100'' sysExact True False False,
     sys_rule ''macos:.DocumentRevisions-V100'' ''.DocumentRevisions-V100'' sysExact True False False,
     sys_rule ''macos:.fseventsd'' ''.fseventsd'' sysExact True False False,
     sys_rule ''macos:.TemporaryItems'' ''.TemporaryItems'' sysExact True False False,
     sys_rule ''macos:.Trashes'' ''.Trashes'' sysExact True False False,
     sys_rule ''macos:.Trash'' ''.Trash'' sysExact True False False,
     sys_rule ''macos:.apdisk'' ''.apdisk'' sysExact False False False,
     sys_rule ''macos:.VolumeIcon.icns'' ''.VolumeIcon.icns'' sysExact False True False,
     sys_rule ''macos:.com.apple.timemachine.donotpresent'' ''.com.apple.timemachine.donotpresent'' sysExact False False False,
     sys_rule ''macos:.PKInstallSandboxManager'' ''.PKInstallSandboxManager'' sysExact True False False,
     sys_rule ''macos:.PKInstallSandboxManager-SystemSoftware'' ''.PKInstallSandboxManager-SystemSoftware'' sysExact True False False,
     sys_rule ''macos:.localized'' ''.localized'' sysExact False False False,
     sys_rule ''windows:Thumbs.db'' ''Thumbs.db'' sysExact False False True,
     sys_rule ''windows:ehthumbs.db'' ''ehthumbs.db'' sysExact False False True,
     sys_rule ''windows:ehthumbs_vista.db'' ''ehthumbs_vista.db'' sysExact False False True,
     sys_rule ''windows:desktop.ini'' ''desktop.ini'' sysExact False False True,
     sys_rule ''windows:$RECYCLE.BIN'' ''$RECYCLE.BIN'' sysExact True True True,
     sys_rule ''windows:RECYCLER'' ''RECYCLER'' sysExact True True True,
     sys_rule ''windows:RECYCLED'' ''RECYCLED'' sysExact True True True,
     sys_rule ''windows:System Volume Information'' ''System Volume Information'' sysExact True True True,
     sys_rule ''windows:hiberfil.sys'' ''hiberfil.sys'' sysExact False True True,
     sys_rule ''windows:pagefile.sys'' ''pagefile.sys'' sysExact False True True,
     sys_rule ''windows:swapfile.sys'' ''swapfile.sys'' sysExact False True True,
     sys_rule ''windows:$AttrDef'' ''$AttrDef'' sysExact False True True,
     sys_rule ''windows:$BadClus'' ''$BadClus'' sysExact False True True,
     sys_rule ''windows:$Bitmap'' ''$Bitmap'' sysExact False True True,
     sys_rule ''windows:$Boot'' ''$Boot'' sysExact False True True,
     sys_rule ''windows:$LogFile'' ''$LogFile'' sysExact False True True,
     sys_rule ''windows:$MFT'' ''$MFT'' sysExact False True True,
     sys_rule ''windows:$MFTMirr'' ''$MFTMirr'' sysExact False True True,
     sys_rule ''windows:$Secure'' ''$Secure'' sysExact False True True,
     sys_rule ''windows:$UpCase'' ''$UpCase'' sysExact False True True,
     sys_rule ''windows:$Volume'' ''$Volume'' sysExact False True True,
     sys_rule ''windows:$Extend'' ''$Extend'' sysExact True True True,
     sys_rule ''linux:.Trash-*'' ''.Trash-'' sysPrefix True False False,
     sys_rule ''linux:lost+found'' ''lost+found'' sysExact True True False,
     sys_rule ''linux:.directory'' ''.directory'' sysExact False False False,
     sys_rule ''linux:.nfs*'' ''.nfs'' sysPrefix False False False,
     sys_rule ''linux:.fuse_hidden*'' ''.fuse_hidden'' sysPrefix False False False,
     sys_rule ''linux:.gvfs'' ''.gvfs'' sysExact True False False]"

definition asciiLower :: "byte \<Rightarrow> byte" where
  "asciiLower c = (if c \<ge> ch (CHR ''A'') \<and> c \<le> ch (CHR ''Z'') then c + (ch (CHR ''a'') - ch (CHR ''A'')) else c)"

definition sysEqual :: "bytes \<Rightarrow> bytes \<Rightarrow> bool \<Rightarrow> bool" where
  "sysEqual a b foldCase \<longleftrightarrow> length a = length b \<and>
     list_all2 (\<lambda>x y. if foldCase then asciiLower x = asciiLower y else x = y) a b"

definition sysNameMatches :: "sysRule \<Rightarrow> bytes \<Rightarrow> bool" where
  "sysNameMatches r name = (let pat = sr_pat r; n = length pat in case sr_kind r of
     sysExact \<Rightarrow> sysEqual name pat (sr_winFold r)
   | sysPrefix \<Rightarrow> length name \<ge> n \<and> sysEqual (take n name) pat (sr_winFold r)
   | sysSuffix \<Rightarrow> length name \<ge> n \<and> sysEqual (drop (length name - n) name) pat (sr_winFold r))"

fun match_rules :: "sysRule list \<Rightarrow> bytes \<Rightarrow> bool \<Rightarrow> bool \<Rightarrow> (bytes \<times> bool) option" where
  "match_rules [] finalComp isDir atRoot = None"
| "match_rules (r # rs) finalComp isDir atRoot =
     (if sr_rootOnly r \<and> \<not> atRoot then match_rules rs finalComp isDir atRoot
      else if sysNameMatches r finalComp then Some (sr_name r, sr_dir r \<and> isDir)
      else match_rules rs finalComp isDir atRoot)"

definition MatchSystemFile :: "bytes \<Rightarrow> bool \<Rightarrow> bool \<Rightarrow> (bytes \<times> bool) option" where
  "MatchSystemFile = match_rules sysRules"

section \<open>Filters\<close>

record FilterRule =
  fr_Include :: bool
  fr_Pattern :: bytes

record Options =
  op_KeepSystemFiles :: bool
  op_Filters :: "FilterRule list"
  op_GroupBytes :: int

definition sysExcludeTag :: bytes where "sysExcludeTag = str ''sys-v1''"

definition rule_sig :: "FilterRule \<Rightarrow> bytes" where
  "rule_sig r = (if fr_Include r then ch (CHR ''+'') else ch (CHR ''-'')) # fr_Pattern r"

fun rules_sig :: "FilterRule list \<Rightarrow> bytes" where
  "rules_sig [] = []"
| "rules_sig [r] = rule_sig r"
| "rules_sig (r # s # rs) = rule_sig r @ ch (CHR '','') # rules_sig (s # rs)"

definition FilterSignature :: "Options \<Rightarrow> bytes" where
  "FilterSignature o' = str ''sysexclude='' @ (if op_KeepSystemFiles o' then str ''off'' else sysExcludeTag) @
     str '';filters='' @ rules_sig (op_Filters o')"

fun validateFilters :: "FilterRule list \<Rightarrow> Code option" where
  "validateFilters [] = None"
| "validateFilters (r # rs) =
     (let p = TrimPrefix (TrimSuffix (fr_Pattern r) [slash]) [slash] in
      if Match p [] = None then Some E1007 else validateFilters rs)"

text \<open>A malformed pattern counts as no match here: the error of \<^verbatim>\<open>filepath.Match\<close> is dropped.\<close>

definition matches :: "bytes \<Rightarrow> bytes \<Rightarrow> bool" where
  "matches pattern name \<longleftrightarrow> Match pattern name = Some True"

definition filterRuleMatches :: "bytes \<Rightarrow> bytes \<Rightarrow> bool \<Rightarrow> bool" where
  "filterRuleMatches pattern p isDir =
     (if HasSuffix pattern [slash] \<and> \<not> isDir then False
      else let pattern = (if HasSuffix pattern [slash] then TrimSuffix pattern [slash] else pattern) in
        if HasPrefix pattern [slash] then matches (TrimPrefix pattern [slash]) p
        else if slash \<in> set pattern then matches pattern p
        else matches pattern (path_Base p))"

definition filterAdmits :: "FilterRule list \<Rightarrow> bytes \<Rightarrow> bool \<Rightarrow> bool \<times> bytes" where
  "filterAdmits rules slashPath isDir =
     foldl (\<lambda>(admit, rule) r. if filterRuleMatches (fr_Pattern r) slashPath isDir
        then (fr_Include r, fr_Pattern r) else (admit, rule)) (True, []) rules"

section \<open>Entries\<close>

datatype PType = TypeFile | TypeDir | TypeSymlink

definition FlagHasHardlinkKey :: u32 where "FlagHasHardlinkKey = 1"
definition FlagNameNonUTF8 :: u32 where "FlagNameNonUTF8 = 2"
definition FlagSparseHint :: u32 where "FlagSparseHint = 4"
definition FlagExecutable :: u32 where "FlagExecutable = 8"

record Entry =
  en_RelPath :: bytes
  en_Type :: PType
  en_Flags :: u32
  en_Size :: int
  en_Mode :: u32
  en_MtimeSec :: int
  en_MtimeNsec :: u32
  en_Dev :: u64
  en_Ino :: u64
  en_LinkTarget :: bytes
  en_HardlinkKey :: u64

record Exclusion =
  ex_Path :: bytes
  ex_Rule :: bytes
  ex_Prune :: bool

record Plan =
  pn_entries :: "Entry list"
  pn_keys :: "bytes list"
  pn_idByKey :: "bytes \<rightharpoonup> u64"
  pn_groupStart :: "nat list"
  pn_exclusions :: "Exclusion list"
  pn_filterSig :: bytes
  pn_digest :: bytes
  pn_TotalFiles :: u64
  pn_TotalBytes :: u64
  pn_ExcludedCount :: u64

definition maxGroupEntries :: nat where "maxGroupEntries = 1024"
definition defaultGroupBytes :: int where "defaultGroupBytes = 512 * 2 ^ 20"
definition planProtocolVersion :: u16 where "planProtocolVersion = 2"
definition hashAlg :: bytes where "hashAlg = str ''md5''"

section \<open>Paths and keys\<close>

definition PathSeparator :: byte where "PathSeparator = slash"

definition toSlash :: "bytes \<Rightarrow> bytes" where
  "toSlash p = (if PathSeparator = slash then p else map (\<lambda>c. if c = PathSeparator then slash else c) p)"

lemma toSlash_id [simp]: "toSlash p = p"
  by (simp add: toSlash_def PathSeparator_def)

definition finalComponent :: "bytes \<Rightarrow> bytes" where
  "finalComponent p = rev (takeWhile (\<lambda>c. c \<noteq> slash) (rev p))"

definition atRoot :: "bytes \<Rightarrow> bool" where "atRoot p \<longleftrightarrow> slash \<notin> set p"

fun IndexByte :: "bytes \<Rightarrow> byte \<Rightarrow> nat option" where
  "IndexByte [] c = None"
| "IndexByte (x # xs) c = (if x = c then Some 0 else map_option Suc (IndexByte xs c))"

lemma IndexByte_Some: "IndexByte xs c = Some j \<Longrightarrow> j < length xs \<and> xs ! j = c \<and> c \<notin> set (take j xs)"
  by (induction xs arbitrary: j) (auto split: if_splits)

lemma IndexByte_None: "IndexByte xs c = None \<longleftrightarrow> c \<notin> set xs"
  by (induction xs) auto

function underPruned_from :: "bytes set \<Rightarrow> bytes \<Rightarrow> nat \<Rightarrow> bool" where
  "underPruned_from pruned p start =
     (case IndexByte (drop start p) slash of
        None \<Rightarrow> False
      | Some j \<Rightarrow> if take (start + j) p \<in> pruned then True else underPruned_from pruned p (start + j + 1))"
  by pat_completeness auto
termination
  by (relation "measure (\<lambda>(pr, p, s). length p - s)") (auto dest!: IndexByte_Some)

declare underPruned_from.simps [simp del]

definition underPruned :: "bytes set \<Rightarrow> bytes \<Rightarrow> bool" where
  "underPruned pruned p = underPruned_from pruned p 0"

definition orderingKey :: "(bytes \<Rightarrow> bytes) \<Rightarrow> bytes \<Rightarrow> bytes \<times> bool" where
  "orderingKey nfc p = (if \<not> utf8_Valid p then (p, True) else (nfc p, False))"

section \<open>Grouping\<close>

definition MaxGroupManifestFrameBytes :: nat where
  "MaxGroupManifestFrameBytes = MaxCTControl - PadBlockSize - 4096"

definition MaxGroupManifestEntryBytes :: nat where
  "MaxGroupManifestEntryBytes = MaxGroupManifestFrameBytes - FrameHeaderLen - GroupManifestFixedBytes"

definition groupTarget :: "int \<Rightarrow> int" where
  "groupTarget n = (if n \<le> 0 then defaultGroupBytes else n)"

definition manifestEntrySize :: "Entry \<Rightarrow> nat" where
  "manifestEntrySize e =
     (let digestLen = (if en_Type e = TypeFile then MaxDigestBytes else 0);
          isSymlink = (en_Type e = TypeSymlink);
          linkLen = (if isSymlink then length (en_LinkTarget e) else 0);
          hasHardlink = (en_Flags e AND FlagHasHardlinkKey \<noteq> 0)
      in ManifestEntrySize (length (en_RelPath e)) digestLen isSymlink linkLen hasHardlink)"

definition fileSize :: "Entry \<Rightarrow> int" where
  "fileSize e = (if en_Type e = TypeFile then en_Size e else 0)"

text \<open>
  The grouping loop: index, accumulated file bytes (an \<^verbatim>\<open>int64\<close> sum), accumulated manifest bytes
  and entry count of the open group; the result lists the further starts and the sentinel.
\<close>

fun group_loop :: "int \<Rightarrow> Entry list \<Rightarrow> nat \<Rightarrow> int \<Rightarrow> nat \<Rightarrow> nat \<Rightarrow> nat list" where
  "group_loop target [] i acc manifestAcc cnt = [i]"
| "group_loop target (e # es) i acc manifestAcc cnt =
     (let sz = fileSize e; mSize = manifestEntrySize e in
      if cnt > 0 \<and> (cnt \<ge> maxGroupEntries \<or> wrap64 (acc + sz) > target \<or>
           manifestAcc + mSize > MaxGroupManifestEntryBytes)
      then i # group_loop target es (Suc i) sz mSize 1
      else group_loop target es (Suc i) (wrap64 (acc + sz)) (manifestAcc + mSize) (Suc cnt))"

definition computeGroups :: "Entry list \<Rightarrow> int \<Rightarrow> nat list" where
  "computeGroups entries target =
     (if length entries = 0 then [0] else 0 # group_loop target entries 0 0 0 0)"

section \<open>Digest\<close>

definition type_byte :: "PType \<Rightarrow> byte" where
  "type_byte t = (case t of TypeFile \<Rightarrow> 0 | TypeDir \<Rightarrow> 1 | TypeSymlink \<Rightarrow> 2)"

definition digest_entry :: "bytes \<Rightarrow> Entry \<Rightarrow> bytes" where
  "digest_entry k e = be32 (word_of_nat (length k)) @ k @ [type_byte (en_Type e)] @
     be64 (u64_of_i64 (en_Size e)) @ be64 (u64_of_i64 (en_MtimeSec e)) @ be32 (en_MtimeNsec e)"

definition digest_input :: "Entry list \<Rightarrow> bytes list \<Rightarrow> bytes \<Rightarrow> bytes" where
  "digest_input entries keys filterSig =
     str ''esync/v1 manifest'' @ be16 planProtocolVersion @ hashAlg @ be32 0 @ be32 0 @ filterSig @ sysExcludeTag @
     concat (map (\<lambda>(k, e). digest_entry k e) (zip keys entries))"

definition computeDigest :: "(bytes \<Rightarrow> bytes) \<Rightarrow> Entry list \<Rightarrow> bytes list \<Rightarrow> bytes \<Rightarrow> bytes" where
  "computeDigest sha256 entries keys filterSig = sha256 (digest_input entries keys filterSig)"

section \<open>Build\<close>

record dec =
  dc_e :: Entry
  dc_slash :: bytes
  dc_rule :: bytes
  dc_pruneDir :: bool
  dc_dropped :: bool

definition classify :: "Options \<Rightarrow> Entry \<Rightarrow> dec" where
  "classify opts e =
     (let p = toSlash (en_RelPath e); isDir = (en_Type e = TypeDir);
          d = \<lparr>dc_e = e, dc_slash = p, dc_rule = [], dc_pruneDir = False, dc_dropped = False\<rparr>;
          d = (if op_KeepSystemFiles opts then d
               else case MatchSystemFile (finalComponent p) isDir (atRoot p) of
                 None \<Rightarrow> d
               | Some (rule, prune) \<Rightarrow> d\<lparr>dc_dropped := True, dc_rule := rule, dc_pruneDir := prune\<rparr>)
      in if dc_dropped d then d
         else case filterAdmits (op_Filters opts) p isDir of (admit, rule) \<Rightarrow>
           if \<not> admit then d\<lparr>dc_dropped := True, dc_rule := str ''filter:'' @ rule, dc_pruneDir := isDir\<rparr> else d)"

definition prunedSet :: "dec list \<Rightarrow> bytes set" where
  "prunedSet decs = set (map dc_slash (filter dc_pruneDir decs))"

record keyed =
  ky_e :: Entry
  ky_key :: bytes
  ky_orig :: bytes

definition key_entry :: "(bytes \<Rightarrow> bytes) \<Rightarrow> dec \<Rightarrow> keyed" where
  "key_entry nfc d = (case orderingKey nfc (dc_slash d) of (key, nonUTF8) \<Rightarrow>
     \<lparr>ky_e = (if nonUTF8 then (dc_e d)\<lparr>en_Flags := en_Flags (dc_e d) OR FlagNameNonUTF8\<rparr> else dc_e d),
      ky_key = key, ky_orig = dc_slash d\<rparr>)"

text \<open>The second pass: exclusions in input order, and the surviving entries with their keys.\<close>

fun apply_decs :: "(bytes \<Rightarrow> bytes) \<Rightarrow> bytes set \<Rightarrow> dec list \<Rightarrow> Exclusion list \<times> keyed list" where
  "apply_decs nfc pruned [] = ([], [])"
| "apply_decs nfc pruned (d # ds) = (case apply_decs nfc pruned ds of (exs, ks) \<Rightarrow>
     if underPruned pruned (dc_slash d) then (exs, ks)
     else if dc_dropped d then
       (\<lparr>ex_Path = en_RelPath (dc_e d), ex_Rule = dc_rule d, ex_Prune = dc_pruneDir d\<rparr> # exs, ks)
     else (exs, key_entry nfc d # ks))"

definition sort_keyed :: "keyed list \<Rightarrow> keyed list" where
  "sort_keyed ks = sort_key (\<lambda>k. (ky_key k, ky_orig k)) ks"

fun index_keys :: "keyed list \<Rightarrow> nat \<Rightarrow> (bytes \<rightharpoonup> u64) \<Rightarrow> (bytes \<rightharpoonup> u64)" where
  "index_keys [] i m = m"
| "index_keys (k # ks) i m =
     index_keys ks (Suc i) (if m (ky_key k) = None then m(ky_key k \<mapsto> word_of_nat i) else m)"

definition Build :: "(bytes \<Rightarrow> bytes) \<Rightarrow> (bytes \<Rightarrow> bytes) \<Rightarrow> Entry list \<Rightarrow> Options \<Rightarrow> Code + Plan" where
  "Build nfc sha256 entries opts = (case validateFilters (op_Filters opts) of
     Some e \<Rightarrow> Inl e
   | None \<Rightarrow>
       let decs = map (classify opts) entries;
           (exs, ks0) = apply_decs nfc (prunedSet decs) decs;
           ks = sort_keyed ks0;
           es = map ky_e ks; keys = map ky_key ks;
           files = filter (\<lambda>e. en_Type e = TypeFile) es
       in Inr \<lparr>pn_entries = es, pn_keys = keys, pn_idByKey = index_keys ks 0 Map.empty,
            pn_groupStart = computeGroups es (groupTarget (op_GroupBytes opts)),
            pn_exclusions = exs, pn_filterSig = FilterSignature opts,
            pn_digest = computeDigest sha256 es keys (FilterSignature opts),
            pn_TotalFiles = word_of_nat (length files),
            pn_TotalBytes = sum_list (map (\<lambda>e. u64_of_i64 (en_Size e)) files),
            pn_ExcludedCount = word_of_nat (length exs)\<rparr>)"

section \<open>Queries\<close>

definition NumGroups :: "Plan \<Rightarrow> nat" where
  "NumGroups p = (if length (pn_groupStart p) < 2 then 0 else length (pn_groupStart p) - 1)"

definition Group :: "Plan \<Rightarrow> nat \<Rightarrow> Entry list" where
  "Group p i = subslice (pn_groupStart p ! i) (pn_groupStart p ! (i + 1)) (pn_entries p)"

definition Groups :: "Plan \<Rightarrow> Entry list list" where
  "Groups p = map (Group p) [0..<NumGroups p]"

definition GroupFirstID :: "Plan \<Rightarrow> nat \<Rightarrow> u64" where
  "GroupFirstID p i = word_of_nat (pn_groupStart p ! i)"

definition GroupFirsts :: "Plan \<Rightarrow> u64 list" where
  "GroupFirsts p = map (\<lambda>i. word_of_nat (pn_groupStart p ! i)) [0..<NumGroups p]"

definition FileID :: "(bytes \<Rightarrow> bytes) \<Rightarrow> Plan \<Rightarrow> bytes \<Rightarrow> u64 option" where
  "FileID nfc p relSlashPath = pn_idByKey p (fst (orderingKey nfc relSlashPath))"

text \<open>\<^verbatim>\<open>sort.Search\<close>.\<close>

function search_loop :: "(nat \<Rightarrow> bool) \<Rightarrow> nat \<Rightarrow> nat \<Rightarrow> nat" where
  "search_loop f i j =
     (if i < j then let h = (i + j) div 2 in
        if \<not> f h then search_loop f (h + 1) j else search_loop f i h
      else i)"
  by pat_completeness auto
termination by (relation "measure (\<lambda>(f, i, j). j - i)") auto

declare search_loop.simps [simp del]

definition Search :: "nat \<Rightarrow> (nat \<Rightarrow> bool) \<Rightarrow> nat" where
  "Search n f = search_loop f 0 n"

definition GroupID :: "Plan \<Rightarrow> u64 \<Rightarrow> u64" where
  "GroupID p fileID = word_of_nat (Search (NumGroups p) (\<lambda>k. word_of_nat (pn_groupStart p ! (k + 1)) > fileID))"

end
