(* ===== verification/Serve.thy ===== *)
theory Serve
  imports Sender_State Plan
begin

text \<open>
  The sender's answer to FILE_REQUEST (\<^verbatim>\<open>internal/sender/serve.go\<close>): the whole handler with its guards,
  the chunk loop, the tracker calls and the deferred \<^verbatim>\<open>reqFailed\<close>. The operating system is an input:
  the path \<^verbatim>\<open>filepath.Join(root, rel)\<close>, what \<^verbatim>\<open>os.Open\<close> of it returns, what \<^verbatim>\<open>Stat\<close> and \<^verbatim>\<open>Seek\<close> return, the blocks the reads
  deliver and how they end. A send may fail at any point: \<open>srv_send\<close> gives the result of the n-th one.
\<close>

unbundle bit_operations_syntax

section \<open>The servicer\<close>

datatype os_err = ErrNotExist bytes | ErrPermission bytes | ErrOther bytes

fun os_msg :: "os_err \<Rightarrow> bytes" where
  "os_msg (ErrNotExist m) = m"
| "os_msg (ErrPermission m) = m"
| "os_msg (ErrOther m) = m"

record file_info =
  fi_regular :: bool
  fi_dev :: u64
  fi_ino :: u64
  fi_size :: int

text \<open>An open file: the blocks that the reads after the seek return, then the end (\<open>None\<close> is \<^verbatim>\<open>io.EOF\<close>).\<close>

record source_file =
  sf_stat :: "os_err + file_info"
  sf_seek :: "os_err option"
  sf_reads :: "bytes list"
  sf_end :: "os_err option"

record servicer =
  srv_entries :: "Entry list"
  srv_path :: "bytes \<Rightarrow> bytes"
  srv_open :: "bytes \<Rightarrow> os_err + source_file"
  srv_hash :: "err + (bytes \<Rightarrow> bytes)"
  srv_chunkSize :: u32
  srv_sem :: "err option"
  srv_digests :: digestStore
  srv_send :: "nat \<Rightarrow> err option"

text \<open>What a call changes: the messages sent, the number of sends tried, the tracker, the counters.\<close>

record serve_state =
  st_sent :: "Message list"
  st_tries :: nat
  st_tr :: tracker
  st_files :: int
  st_bytes :: int

definition SendMsg :: "servicer \<Rightarrow> Message \<Rightarrow> serve_state \<Rightarrow> err option \<times> serve_state" where
  "SendMsg s m st =
     (case srv_send s (st_tries st) of
        None \<Rightarrow> (None, st\<lparr>st_sent := st_sent st @ [m], st_tries := st_tries st + 1\<rparr>)
      | Some e \<Rightarrow> (Some e, st\<lparr>st_tries := st_tries st + 1\<rparr>))"

definition on_tracker :: "(tracker \<Rightarrow> tracker) \<Rightarrow> serve_state \<Rightarrow> serve_state" where
  "on_tracker f st = st\<lparr>st_tr := f (st_tr st)\<rparr>"

definition mapOpenErr :: "os_err \<Rightarrow> Code" where
  "mapOpenErr e = (case e of ErrNotExist _ \<Rightarrow> E6002 | ErrPermission _ \<Rightarrow> E6001 | ErrOther _ \<Rightarrow> E6004)"

definition sendErr :: "servicer \<Rightarrow> FileRequest \<Rightarrow> Code \<Rightarrow> bool \<Rightarrow> bytes \<Rightarrow> serve_state \<Rightarrow> err option \<times> serve_state" where
  "sendErr s req code retryable msg st =
     SendMsg s (M_FileError \<lparr>fe_RequestID = fq_RequestID req, fe_Code = numericCode code,
       fe_Retryable = (if retryable then 1 else 0), fe_Message = msg\<rparr>) st"

text \<open>The recurring exit: report, close the request in the tracker, return nil. A failed report is ignored.\<close>

definition refuse :: "servicer \<Rightarrow> FileRequest \<Rightarrow> Code \<Rightarrow> bool \<Rightarrow> bytes \<Rightarrow> serve_state \<Rightarrow> err option \<times> serve_state" where
  "refuse s req code retry msg st =
     (let st = snd (sendErr s req code retry msg st)
      in (None, on_tracker (reqFailed (fq_RequestID req) (\<not> retry) (\<not> retry)) st))"

datatype stream_end = StreamEnd bytes u64 | StreamSendErr err | StreamReadErr os_err

text \<open>The read loop: \<open>acc\<close> is what has been hashed, \<open>sent\<close> the count of bytes sent.\<close>

fun stream_loop :: "servicer \<Rightarrow> FileRequest \<Rightarrow> int \<Rightarrow> bytes list \<Rightarrow> os_err option \<Rightarrow> bytes \<Rightarrow> u64 \<Rightarrow> serve_state \<Rightarrow>
    stream_end \<times> serve_state" where
  "stream_loop s req off [] fin acc sent st = (case fin of
     None \<Rightarrow> (StreamEnd acc sent, st)
   | Some e \<Rightarrow> (StreamReadErr e, st))"
| "stream_loop s req off (buf # bufs) fin acc sent st =
     (if length buf > 0 then
        case SendMsg s (M_FileChunk \<lparr>fc_RequestID = fq_RequestID req, fc_Offset = u64_of_i64 off + sent, fc_Data = buf\<rparr>) st of
          (Some e, st) \<Rightarrow> (StreamSendErr e, st)
        | (None, st) \<Rightarrow> stream_loop s req off bufs fin (acc @ buf) (sent + word_of_nat (length buf)) (on_tracker bump st)
      else stream_loop s req off bufs fin acc sent st)"

definition file_header :: "servicer \<Rightarrow> FileRequest \<Rightarrow> Entry \<Rightarrow> bytes \<Rightarrow> FileHeader" where
  "file_header s req e dg = \<lparr>fh_RequestID = fq_RequestID req, fh_FileID = fq_FileID req, fh_Size = u64_of_i64 (en_Size e),
     fh_Mode = en_Mode e AND 0x1FF, fh_MtimeSec = en_MtimeSec e, fh_MtimeNsec = en_MtimeNsec e, fh_Digest = dg,
     fh_ChunkSize = srv_chunkSize s\<rparr>"

text \<open>After the loop: the byte count, the digest, FILE_COMPLETE.\<close>

definition serve_finish :: "servicer \<Rightarrow> FileRequest \<Rightarrow> Entry \<Rightarrow> bytes \<Rightarrow> (bytes \<Rightarrow> bytes) \<Rightarrow> bytes \<Rightarrow> u64 \<Rightarrow> serve_state \<Rightarrow>
    err option \<times> serve_state" where
  "serve_finish s req e manifestDigest H acc sent st =
     (let off = i64_of_u64 (fq_Offset req) in
      if wrap64 (off + i64_of_u64 sent) \<noteq> en_Size e then
        refuse s req E6003 False (str ''short read: source shrank during transfer'') st
      else if off = 0 \<and> length manifestDigest > 0 \<and> H acc \<noteq> manifestDigest then
        refuse s req E8003 False (str ''streamed digest does not match the manifest'') st
      else case SendMsg s (M_FileComplete \<lparr>fp_RequestID = fq_RequestID req, fp_BytesSent = sent, fp_DigestFull = H acc\<rparr>) st of
        (Some er, st) \<Rightarrow> (Some er, st)
      | (None, st) \<Rightarrow>
          (None, (on_tracker (reqCompleted (fq_RequestID req) (fq_FileID req) sent) st)
            \<lparr>st_files := st_files st + 1, st_bytes := st_bytes st + i64_of_u64 sent\<rparr>))"

text \<open>From the header on: the size, identity and type of the open file have been checked.\<close>

definition serve_stream :: "servicer \<Rightarrow> FileRequest \<Rightarrow> Entry \<Rightarrow> source_file \<Rightarrow> serve_state \<Rightarrow> err option \<times> serve_state" where
  "serve_stream s req e f st =
     (let manifestDigest = (case ds_get (fq_FileID req) (srv_digests s) of Some d \<Rightarrow> d | None \<Rightarrow> [])
      in case SendMsg s (M_FileHeader (file_header s req e manifestDigest)) st of
        (Some er, st) \<Rightarrow> (Some er, st)
      | (None, st) \<Rightarrow>
        let off = i64_of_u64 (fq_Offset req) in
        if off > 0 \<and> sf_seek f \<noteq> None then refuse s req E6004 True (os_msg (the (sf_seek f))) st
        else case srv_hash s of
          Inl er \<Rightarrow> (Some (Wrap E9002 ''serve'' (srv_path s (en_RelPath e)) (Some er)), st)
        | Inr H \<Rightarrow>
          case stream_loop s req off (sf_reads f) (sf_end f) [] 0 st of
            (StreamSendErr er, st) \<Rightarrow> (Some er, st)
          | (StreamReadErr er, st) \<Rightarrow> refuse s req E6004 True (os_msg er) st
          | (StreamEnd acc sent, st) \<Rightarrow> serve_finish s req e manifestDigest H acc sent st)"

definition serve_open :: "servicer \<Rightarrow> FileRequest \<Rightarrow> Entry \<Rightarrow> source_file \<Rightarrow> serve_state \<Rightarrow> err option \<times> serve_state" where
  "serve_open s req e f st = (case sf_stat f of
     Inl er \<Rightarrow> refuse s req E6004 True (os_msg er) st
   | Inr fi \<Rightarrow>
       if \<not> fi_regular fi then refuse s req E6003 False (str ''source is no longer a regular file'') st
       else if en_Ino e \<noteq> 0 \<and> (fi_dev fi \<noteq> en_Dev e \<or> fi_ino fi \<noteq> en_Ino e) then
         refuse s req E6003 False (str ''source file identity changed since scan'') st
       else if u64_of_i64 (fi_size fi) \<noteq> u64_of_i64 (en_Size e) then
         refuse s req E6003 False (str ''source size changed since scan'') st
       else serve_stream s req e f st)"

definition serve_body :: "servicer \<Rightarrow> FileRequest \<Rightarrow> serve_state \<Rightarrow> err option \<times> serve_state" where
  "serve_body s req st =
     (if unat (fq_FileID req) \<ge> length (srv_entries s) then
        (Some (New E5007 ''serve file request'' (FormatUint (unat (fq_FileID req)) 10) None),
         snd (sendErr s req E5007 False (str ''unknown file_id'') st))
      else let e = srv_entries s ! unat (fq_FileID req) in
        if en_Type e \<noteq> TypeFile then refuse s req E5007 False (str ''file_id is not a regular file'') st
        else case srv_sem s of
          Some er \<Rightarrow> (Some er, st)
        | None \<Rightarrow> (case srv_open s (srv_path s (en_RelPath e)) of
            Inl er \<Rightarrow> let code = mapOpenErr er in refuse s req code (code = E6004) (os_msg er) st
          | Inr f \<Rightarrow> serve_open s req e f st))"

text \<open>With the deferred function: an error leaves the file unresolved but frees the request.\<close>

definition serve :: "servicer \<Rightarrow> FileRequest \<Rightarrow> serve_state \<Rightarrow> err option \<times> serve_state" where
  "serve s req st = (case serve_body s req st of
     (None, st) \<Rightarrow> (None, st)
   | (Some er, st) \<Rightarrow> (Some er, on_tracker (reqFailed (fq_RequestID req) False False) st))"

text \<open>
  The loop of one data channel: the messages that arrive, each with the environment at that time, and
  how the connection ends (\<open>None\<close> for \<^verbatim>\<open>io.EOF\<close> or a cancelled context).
\<close>

fun run_servicer :: "(servicer \<times> Message) list \<Rightarrow> err option \<Rightarrow> serve_state \<Rightarrow> err option \<times> serve_state" where
  "run_servicer [] fin st = (fin, st)"
| "run_servicer ((s, M_FileRequest req) # ms) fin st =
     (case serve s req (on_tracker (reqStarted (fq_RequestID req) (fq_FileID req)) st) of
        (Some er, st) \<Rightarrow> (Some er, st)
      | (None, st) \<Rightarrow> run_servicer ms fin st)"
| "run_servicer ((s, M_FileCancel fx) # ms) fin st =
     run_servicer ms fin (on_tracker (reqCancelled (fx_RequestID fx)) st)"
| "run_servicer ((s, m) # ms) fin st = (Some (Newf E5001 ''serve'' (str (MsgType_String (Type m))) None (str ''unexpected message on data channel'')), st)"

section \<open>What a call can do\<close>

text \<open>The chunk messages for the blocks read, at consecutive offsets; an empty read sends nothing.\<close>

fun chunk_msgs :: "u64 \<Rightarrow> u64 \<Rightarrow> bytes list \<Rightarrow> Message list" where
  "chunk_msgs rid off [] = []"
| "chunk_msgs rid off (b # bs) =
     (if b = [] then chunk_msgs rid off bs
      else M_FileChunk \<lparr>fc_RequestID = rid, fc_Offset = off, fc_Data = b\<rparr> # chunk_msgs rid (off + word_of_nat (length b)) bs)"

definition is_content :: "Message \<Rightarrow> bool" where
  "is_content m \<longleftrightarrow> (case m of M_FileHeader _ \<Rightarrow> True | M_FileChunk _ \<Rightarrow> True | M_FileComplete _ \<Rightarrow> True | _ \<Rightarrow> False)"

definition is_complete :: "Message \<Rightarrow> bool" where
  "is_complete m \<longleftrightarrow> (case m of M_FileComplete _ \<Rightarrow> True | _ \<Rightarrow> False)"

lemma content_simps [simp]:
  "\<not> is_content (M_FileError x)" "\<not> is_complete (M_FileError x)" "is_content (M_FileHeader h)" "\<not> is_complete (M_FileHeader h)"
  "is_content (M_FileChunk c)" "\<not> is_complete (M_FileChunk c)" "is_content (M_FileComplete d)" "is_complete (M_FileComplete d)"
  by (simp_all add: is_content_def is_complete_def)

lemma chunk_msgs_complete [simp]: "list_all (\<lambda>m. \<not> is_complete m) (chunk_msgs rid off bs)"
  by (induction bs arbitrary: off) auto

lemma on_tracker_simps [simp]:
  "st_sent (on_tracker f st) = st_sent st" "st_tries (on_tracker f st) = st_tries st" "st_tr (on_tracker f st) = f (st_tr st)"
  "st_files (on_tracker f st) = st_files st" "st_bytes (on_tracker f st) = st_bytes st"
  by (simp_all add: on_tracker_def)

lemma SendMsg_cases:
  "SendMsg s m st = (r, st') \<Longrightarrow> st_tr st' = st_tr st \<and> st_files st' = st_files st \<and> st_bytes st' = st_bytes st \<and>
     st_tries st' = st_tries st + 1 \<and> (if r = None then st_sent st' = st_sent st @ [m] else st_sent st' = st_sent st)"
  by (auto simp: SendMsg_def split: option.splits)

text \<open>A refusal sends at most a FILE_ERROR and closes the request.\<close>

lemma refuse_cases:
  assumes "refuse s req c retry msg st = (r, st')"
  shows "r = None" "st_tr st' = reqFailed (fq_RequestID req) (\<not> retry) (\<not> retry) (st_tr st)" "st_files st' = st_files st"
    "\<exists>ms. st_sent st' = st_sent st @ ms \<and> list_all (\<lambda>m. \<not> is_content m \<and> \<not> is_complete m) ms"
proof -
  obtain r1 st1 where 1: "sendErr s req c retry msg st = (r1, st1)" by fastforce
  then have st': "st' = on_tracker (reqFailed (fq_RequestID req) (\<not> retry) (\<not> retry)) st1" "r = None"
    using assms by (auto simp: refuse_def Let_def)
  note S = SendMsg_cases [OF 1 [unfolded sendErr_def]]
  show "r = None" by (rule st')
  show "st_tr st' = reqFailed (fq_RequestID req) (\<not> retry) (\<not> retry) (st_tr st)" "st_files st' = st_files st"
    using st' S by simp_all
  show "\<exists>ms. st_sent st' = st_sent st @ ms \<and> list_all (\<lambda>m. \<not> is_content m \<and> \<not> is_complete m) ms"
  proof (cases "r1 = None")
    case True
    then have "st_sent st' = st_sent st @ [M_FileError \<lparr>fe_RequestID = fq_RequestID req, fe_Code = numericCode c,
       fe_Retryable = (if retry then 1 else 0), fe_Message = msg\<rparr>]" using st' S by simp
    then show ?thesis by (intro exI conjI, assumption) simp
  next
    case False
    then show ?thesis using st' S by simp
  qed
qed

text \<open>The stream sends a prefix of the chunk messages, and all of them when it reaches the end.\<close>

lemma stream_loop_cases:
  "stream_loop s req off bufs fin acc sent st = (r, st') \<Longrightarrow>
     (\<exists>k. st_tr st' = (bump ^^ k) (st_tr st)) \<and> st_files st' = st_files st \<and> st_bytes st' = st_bytes st \<and>
     (\<exists>ms rest. st_sent st' = st_sent st @ ms \<and> ms @ rest = chunk_msgs (fq_RequestID req) (u64_of_i64 off + sent) bufs \<and>
        (\<forall>acc' sent'. r = StreamEnd acc' sent' \<longrightarrow> rest = [] \<and> fin = None \<and> acc' = acc @ concat bufs \<and>
           sent' = sent + word_of_nat (length (concat bufs))))"
proof (induction bufs arbitrary: acc sent st)
  case Nil
  then show ?case by (cases fin) (auto intro: exI [of _ 0])
next
  case (Cons b bs)
  show ?case
  proof (cases "b = []")
    case True
    then show ?thesis using Cons by simp
  next
    case False
    let ?m = "M_FileChunk \<lparr>fc_RequestID = fq_RequestID req, fc_Offset = u64_of_i64 off + sent, fc_Data = b\<rparr>"
    obtain e st1 where 1: "SendMsg s ?m st = (e, st1)" by fastforce
    note S = SendMsg_cases [OF 1]
    show ?thesis
    proof (cases e)
      case (Some er)
      then show ?thesis using Cons.prems False 1 S by (auto intro: exI [of _ 0])
    next
      case None
      then have run: "stream_loop s req off bs fin (acc @ b) (sent + word_of_nat (length b)) (on_tracker bump st1) = (r, st')"
        using Cons.prems False 1 by simp
      from Cons.IH [OF this] obtain k ms rest where k: "st_tr st' = (bump ^^ k) (bump (st_tr st))" "st_files st' = st_files st"
          "st_bytes st' = st_bytes st"
        and ms: "st_sent st' = (st_sent st @ [?m]) @ ms"
          "ms @ rest = chunk_msgs (fq_RequestID req) (u64_of_i64 off + (sent + word_of_nat (length b))) bs"
        and fin: "\<forall>acc' sent'. r = StreamEnd acc' sent' \<longrightarrow> rest = [] \<and> fin = None \<and> acc' = (acc @ b) @ concat bs \<and>
           sent' = (sent + word_of_nat (length b)) + word_of_nat (length (concat bs))"
        using S None by auto
      have "st_tr st' = (bump ^^ Suc k) (st_tr st)" using k(1) by (simp add: funpow_swap1)
      moreover have "st_sent st' = st_sent st @ (?m # ms)" "(?m # ms) @ rest = chunk_msgs (fq_RequestID req) (u64_of_i64 off + sent) (b # bs)"
        using ms False by (simp_all add: add.assoc)
      moreover have "r = StreamEnd acc' sent' \<Longrightarrow> rest = [] \<and> fin = None \<and> acc' = acc @ concat (b # bs) \<and>
          sent' = sent + word_of_nat (length (concat (b # bs)))" for acc' sent'
        using fin by (simp add: add.assoc)
      ultimately show ?thesis using k by blast
    qed
  qed
qed

text \<open>The three ways a handler ends: broken off with an error, refused, or completed.\<close>

definition broken_off :: "serve_state \<Rightarrow> err option \<Rightarrow> serve_state \<Rightarrow> bool" where
  "broken_off st r st' \<longleftrightarrow> r \<noteq> None \<and> st_files st' = st_files st \<and> (\<exists>k. st_tr st' = (bump ^^ k) (st_tr st)) \<and>
     (\<exists>ms. st_sent st' = st_sent st @ ms \<and> list_all (\<lambda>m. \<not> is_complete m) ms)"

definition refused :: "FileRequest \<Rightarrow> serve_state \<Rightarrow> err option \<Rightarrow> serve_state \<Rightarrow> bool" where
  "refused req st r st' \<longleftrightarrow> r = None \<and> st_files st' = st_files st \<and>
     (\<exists>k p. st_tr st' = reqFailed (fq_RequestID req) p p ((bump ^^ k) (st_tr st))) \<and>
     (\<exists>ms. st_sent st' = st_sent st @ ms \<and> list_all (\<lambda>m. \<not> is_complete m) ms)"

definition stored_digest :: "servicer \<Rightarrow> FileRequest \<Rightarrow> bytes" where
  "stored_digest s req = (case ds_get (fq_FileID req) (srv_digests s) of Some d \<Rightarrow> d | None \<Rightarrow> [])"

definition completed :: "servicer \<Rightarrow> FileRequest \<Rightarrow> Entry \<Rightarrow> source_file \<Rightarrow> serve_state \<Rightarrow> err option \<Rightarrow> serve_state \<Rightarrow> bool" where
  "completed s req e f st r st' \<longleftrightarrow> r = None \<and> st_files st' = st_files st + 1 \<and>
     (\<exists>H k. srv_hash s = Inr H \<and> sf_end f = None \<and>
        (let content = concat (sf_reads f); n = word_of_nat (length content) :: u64; off = i64_of_u64 (fq_Offset req) in
         wrap64 (off + i64_of_u64 n) = en_Size e \<and>
         (off = 0 \<and> stored_digest s req \<noteq> [] \<longrightarrow> H content = stored_digest s req) \<and>
         st_tr st' = reqCompleted (fq_RequestID req) (fq_FileID req) n ((bump ^^ k) (st_tr st)) \<and>
         st_sent st' = st_sent st @ M_FileHeader (file_header s req e (stored_digest s req)) #
           chunk_msgs (fq_RequestID req) (u64_of_i64 off) (sf_reads f) @
           [M_FileComplete \<lparr>fp_RequestID = fq_RequestID req, fp_BytesSent = n, fp_DigestFull = H content\<rparr>]))"

lemma refuse_refused:
  assumes "refuse s req c retry msg st1 = (r, st')" "st_tr st1 = (bump ^^ k) (st_tr st)" "st_files st1 = st_files st"
    "st_sent st1 = st_sent st @ ms" "list_all (\<lambda>m. \<not> is_complete m) ms"
  shows "refused req st r st'"
proof -
  obtain ms' where ms': "st_sent st' = st_sent st1 @ ms'" "list_all (\<lambda>m. \<not> is_content m \<and> \<not> is_complete m) ms'"
    using refuse_cases(4) [OF assms(1)] by blast
  then have "st_sent st' = st_sent st @ (ms @ ms')" "list_all (\<lambda>m. \<not> is_complete m) (ms @ ms')"
    using assms(4,5) by (auto simp: list_all_iff)
  then show ?thesis using refuse_cases(1-3) [OF assms(1)] assms(2,3) unfolding refused_def by metis
qed

lemma refuse_now: "refuse s req c retry msg st = (r, st') \<Longrightarrow> refused req st r st'"
  by (rule refuse_refused [where k = 0 and ms = "[]"]) auto

lemma prefix_not_complete: "ms @ rest = chunk_msgs rid off bs \<Longrightarrow> list_all (\<lambda>m. \<not> is_complete m) ms"
  using chunk_msgs_complete [of rid off bs] by (metis list_all_append)

lemma serve_finish_cases:
  assumes fin: "serve_finish s req e (stored_digest s req) H acc n st2 = (r, st')" and H: "srv_hash s = Inr H"
    and k: "st_tr st2 = (bump ^^ k) (st_tr st)" "st_files st2 = st_files st"
    and ms: "st_sent st2 = st_sent st @ ms" "list_all (\<lambda>m. \<not> is_complete m) ms"
    and full: "ms = M_FileHeader (file_header s req e (stored_digest s req)) #
      chunk_msgs (fq_RequestID req) (u64_of_i64 (i64_of_u64 (fq_Offset req))) (sf_reads f)"
    and F: "sf_end f = None" "acc = concat (sf_reads f)" "n = word_of_nat (length (concat (sf_reads f)))"
  shows "broken_off st r st' \<or> refused req st r st' \<or> completed s req e f st r st'"
proof -
  let ?off = "i64_of_u64 (fq_Offset req)"
  let ?c = "M_FileComplete \<lparr>fp_RequestID = fq_RequestID req, fp_BytesSent = n, fp_DigestFull = H acc\<rparr>"
  obtain r3 st3 where 3: "SendMsg s ?c st2 = (r3, st3)" by fastforce
  note S3 = SendMsg_cases [OF 3]
  consider (refuse) c msg where "refuse s req c False msg st2 = (r, st')"
    | (good) "wrap64 (?off + i64_of_u64 n) = en_Size e" "?off = 0 \<and> stored_digest s req \<noteq> [] \<longrightarrow> H acc = stored_digest s req"
      "(case (r3, st3) of (Some er, st) \<Rightarrow> (Some er, st)
        | (None, st) \<Rightarrow> (None, (on_tracker (reqCompleted (fq_RequestID req) (fq_FileID req) n) st)
              \<lparr>st_files := st_files st + 1, st_bytes := st_bytes st + i64_of_u64 n\<rparr>)) = (r, st')"
    using fin 3 unfolding serve_finish_def Let_def by (auto split: if_splits)
  then show ?thesis
  proof cases
    case refuse
    then show ?thesis using refuse_refused [OF _ k ms] by blast
  next
    case good
    show ?thesis
    proof (cases r3)
      case (Some er)
      then show ?thesis using good(3) S3 k ms by (auto simp: broken_off_def)
    next
      case None
      then have "completed s req e f st r st'"
        unfolding completed_def Let_def using good S3 k ms(1) full F H by auto
      then show ?thesis by blast
    qed
  qed
qed

lemma serve_stream_cases:
  assumes "serve_stream s req e f st = (r, st')"
  shows "broken_off st r st' \<or> refused req st r st' \<or> completed s req e f st r st'"
proof -
  let ?off = "i64_of_u64 (fq_Offset req)" and ?h = "M_FileHeader (file_header s req e (stored_digest s req))"
  obtain r1 st1 where 1: "SendMsg s ?h st = (r1, st1)" by fastforce
  note S1 = SendMsg_cases [OF 1]
  note body = assms [unfolded serve_stream_def Let_def, folded stored_digest_def, unfolded 1]
  show ?thesis
  proof (cases r1)
    case (Some er)
    then show ?thesis using body S1 by (auto simp: broken_off_def intro: exI [of _ 0])
  next
    case None
    then have sent1: "st_sent st1 = st_sent st @ [?h]" using S1 by simp
    obtain w st2 where 2: "stream_loop s req ?off (sf_reads f) (sf_end f) [] 0 st1 = (w, st2)" by fastforce
    from stream_loop_cases [OF 2] obtain k ms rest where k: "st_tr st2 = (bump ^^ k) (st_tr st)" "st_files st2 = st_files st"
      and ms: "st_sent st2 = st_sent st @ (?h # ms)" "ms @ rest = chunk_msgs (fq_RequestID req) (u64_of_i64 ?off) (sf_reads f)"
      and fin: "\<And>acc n. w = StreamEnd acc n \<Longrightarrow> rest = [] \<and> sf_end f = None \<and> acc = concat (sf_reads f) \<and>
        n = word_of_nat (length (concat (sf_reads f)))"
      using S1 sent1 by auto
    have nc: "list_all (\<lambda>m. \<not> is_complete m) (?h # ms)" using prefix_not_complete [OF ms(2)] by simp
    consider (seek) msg where "refuse s req E6004 True msg st1 = (r, st')" | (hash) "r \<noteq> None \<and> st' = st1"
      | (send) er where "r = Some er" "st' = st2" | (read) msg where "refuse s req E6004 True msg st2 = (r, st')"
      | (fin) H acc n where "srv_hash s = Inr H" "w = StreamEnd acc n"
          "serve_finish s req e (stored_digest s req) H acc n st2 = (r, st')"
      using body None 2 by (auto split: if_splits sum.splits stream_end.splits)
    then show ?thesis
    proof cases
      case seek
      then show ?thesis using refuse_refused [where k = 0] S1 sent1 by simp
    next
      case hash
      then show ?thesis using S1 sent1 by (auto simp: broken_off_def intro: exI [of _ 0])
    next
      case send
      then show ?thesis using k ms(1) nc by (auto simp: broken_off_def)
    next
      case read
      then show ?thesis using refuse_refused [OF _ k ms(1) nc] by blast
    next
      case fin': fin
      have "?h # ms = ?h # chunk_msgs (fq_RequestID req) (u64_of_i64 ?off) (sf_reads f)"
        using fin [OF fin'(2)] ms(2) by simp
      with serve_finish_cases [OF fin'(3,1) k ms(1) nc] fin [OF fin'(2)] show ?thesis by blast
    qed
  qed
qed

text \<open>The checks before any content is sent.\<close>

definition guards_pass :: "servicer \<Rightarrow> FileRequest \<Rightarrow> Entry \<Rightarrow> source_file \<Rightarrow> bool" where
  "guards_pass s req e f \<longleftrightarrow> unat (fq_FileID req) < length (srv_entries s) \<and> e = srv_entries s ! unat (fq_FileID req) \<and>
     en_Type e = TypeFile \<and> srv_open s (srv_path s (en_RelPath e)) = Inr f \<and>
     (case sf_stat f of Inl _ \<Rightarrow> False
      | Inr fi \<Rightarrow> fi_regular fi \<and> (en_Ino e \<noteq> 0 \<longrightarrow> fi_dev fi = en_Dev e \<and> fi_ino fi = en_Ino e) \<and>
          u64_of_i64 (fi_size fi) = u64_of_i64 (en_Size e))"

definition no_content :: "serve_state \<Rightarrow> serve_state \<Rightarrow> bool" where
  "no_content st st' \<longleftrightarrow> (\<exists>ms. st_sent st' = st_sent st @ ms \<and> list_all (\<lambda>m. \<not> is_content m \<and> \<not> is_complete m) ms)"

lemma refuse_no_content: "refuse s req c retry msg st = (r, st') \<Longrightarrow> refused req st r st' \<and> no_content st st'"
  using refuse_now refuse_cases(4) unfolding no_content_def by blast

lemma serve_open_cases:
  assumes "serve_open s req e f st = (r, st')" "unat (fq_FileID req) < length (srv_entries s)"
    "e = srv_entries s ! unat (fq_FileID req)" "en_Type e = TypeFile" "srv_open s (srv_path s (en_RelPath e)) = Inr f"
  shows "guards_pass s req e f \<and> serve_stream s req e f st = (r, st') \<or> refused req st r st' \<and> no_content st st'"
  using assms unfolding serve_open_def
  by (auto simp: guards_pass_def dest!: refuse_no_content split: sum.splits if_splits)

lemma serve_body_cases:
  assumes "serve_body s req st = (r, st')"
  shows "(\<exists>e f. guards_pass s req e f \<and> serve_stream s req e f st = (r, st')) \<or>
    (broken_off st r st' \<or> refused req st r st') \<and> no_content st st'"
proof -
  let ?i = "unat (fq_FileID req)"
  consider (noentry) "length (srv_entries s) \<le> ?i" | (nofile) "?i < length (srv_entries s)" "en_Type (srv_entries s ! ?i) \<noteq> TypeFile"
    | (cancelled) er where "?i < length (srv_entries s)" "en_Type (srv_entries s ! ?i) = TypeFile" "srv_sem s = Some er"
    | (isfile) "?i < length (srv_entries s)" "en_Type (srv_entries s ! ?i) = TypeFile" "srv_sem s = None"
    by (cases "srv_sem s") (use not_less in \<open>blast+\<close>)
  then show ?thesis
  proof cases
    case noentry
    obtain r1 st1 where 1: "sendErr s req E5007 False (str ''unknown file_id'') st = (r1, st1)" by fastforce
    note S = SendMsg_cases [OF 1 [unfolded sendErr_def]]
    have st': "st' = st1" "r \<noteq> None" using assms noentry 1 by (auto simp: serve_body_def)
    have "\<exists>ms. st_sent st1 = st_sent st @ ms \<and> list_all (\<lambda>m. \<not> is_content m \<and> \<not> is_complete m) ms"
      using S by (cases "r1 = None") auto
    then have "no_content st st'" by (simp add: no_content_def st')
    moreover have "broken_off st r st'"
      using calculation S st' by (auto simp: broken_off_def no_content_def list_all_iff intro: exI [of _ 0])
    ultimately show ?thesis by blast
  next
    case nofile
    then have "refuse s req E5007 False (str ''file_id is not a regular file'') st = (r, st')"
      using assms by (simp add: serve_body_def Let_def)
    then show ?thesis using refuse_no_content by blast
  next
    case cancelled
    then have "(Some er, st) = (r, st')" using assms unfolding serve_body_def Let_def by simp
    then have "r \<noteq> None \<and> st' = st" by auto
    then show ?thesis by (auto simp: broken_off_def no_content_def intro: exI [of _ 0])
  next
    case isfile
    then have b: "(case srv_open s (srv_path s (en_RelPath (srv_entries s ! ?i))) of
          Inl er \<Rightarrow> refuse s req (mapOpenErr er) (mapOpenErr er = E6004) (os_msg er) st
        | Inr f \<Rightarrow> serve_open s req (srv_entries s ! ?i) f st) = (r, st')"
      using assms unfolding serve_body_def Let_def by simp
    show ?thesis
    proof (cases "srv_open s (srv_path s (en_RelPath (srv_entries s ! ?i)))")
      case (Inl er)
      then show ?thesis using b refuse_no_content by fastforce
    next
      case (Inr f)
      then show ?thesis using b serve_open_cases [OF _ isfile(1) refl isfile(2) Inr] by fastforce
    qed
  qed
qed

lemma bump_pow_simps [simp]:
  "tr_reqToFile ((bump ^^ k) t) = tr_reqToFile t" "tr_inflight ((bump ^^ k) t) = tr_inflight t"
  "tr_needed ((bump ^^ k) t) = tr_needed t" "tr_resolved ((bump ^^ k) t) = tr_resolved t"
  "tr_completedSet ((bump ^^ k) t) = tr_completedSet t" "tr_doneClosed ((bump ^^ k) t) = tr_doneClosed t"
  "tr_totalGroups ((bump ^^ k) t) = tr_totalGroups t" "tr_groupsDecided ((bump ^^ k) t) = tr_groupsDecided t"
  by (induction k) simp_all

text \<open>How a handler leaves the tracker: the request is closed in exactly one of two ways.\<close>

lemma serve_tracker:
  assumes "serve s req st = (r, st')"
  shows "\<exists>k. (\<exists>p. st_tr st' = reqFailed (fq_RequestID req) p p ((bump ^^ k) (st_tr st)) \<and> st_files st' = st_files st) \<or>
    r = None \<and> (\<exists>n. st_tr st' = reqCompleted (fq_RequestID req) (fq_FileID req) n ((bump ^^ k) (st_tr st)))"
proof -
  obtain r1 st1 where 1: "serve_body s req st = (r1, st1)" by fastforce
  have "broken_off st r1 st1 \<or> refused req st r1 st1 \<or> (\<exists>e f. completed s req e f st r1 st1)"
    using serve_body_cases [OF 1] serve_stream_cases by blast
  then show ?thesis
  proof (elim disjE exE)
    assume "broken_off st r1 st1"
    then show ?thesis using assms 1 unfolding serve_def broken_off_def by auto blast
  next
    assume "refused req st r1 st1"
    then show ?thesis using assms 1 by (auto simp: serve_def refused_def)
  next
    fix e f assume "completed s req e f st r1 st1"
    then show ?thesis using assms 1 by (auto simp: serve_def completed_def Let_def)
  qed
qed

lemma reqFailed_effect:
  assumes "tr_reqToFile t q = Some f"
  shows "tr_reqToFile (reqFailed q p p' t) = (tr_reqToFile t)(q := None)" "tr_inflight (reqFailed q p p' t) = tr_inflight t - 1"
    "tr_needed (reqFailed q p p' t) = tr_needed t"
    "tr_resolved (reqFailed q p p' t) = (if p then insert f (tr_resolved t) else tr_resolved t)"
  using assms by (simp_all add: reqFailed_def finishLocked_def Let_def)

lemma reqCompleted_effect:
  assumes "tr_reqToFile t q = Some f"
  shows "tr_reqToFile (reqCompleted q g n t) = (tr_reqToFile t)(q := None)" "tr_inflight (reqCompleted q g n t) = tr_inflight t - 1"
    "tr_needed (reqCompleted q g n t) = tr_needed t" "tr_resolved (reqCompleted q g n t) = insert f (tr_resolved t)"
    "tr_completedSet (reqCompleted q g n t) = insert g (tr_completedSet t)"
  using assms by (auto simp: reqCompleted_def finishLocked_def Let_def)

lemma reqStarted_effect [simp]:
  "tr_reqToFile (reqStarted q f t) = (tr_reqToFile t)(q \<mapsto> f)" "tr_inflight (reqStarted q f t) = tr_inflight t + 1"
  "tr_needed (reqStarted q f t) = tr_needed t" "tr_resolved (reqStarted q f t) = tr_resolved t"
  by (simp_all add: reqStarted_def)

text \<open>
  A request handler never leaks its in-flight slot: whatever the file system and the connection
  do (open, stat, seek and read errors, a changed file, a send that fails at any point), when the
  handler returns the open requests and the in-flight count are what they were before the request,
  and the only file it may have resolved is the one requested.
\<close>

theorem serve_closes_request:
  assumes "serve s req (on_tracker (reqStarted (fq_RequestID req) (fq_FileID req)) st) = (r, st')"
    and "tr_reqToFile (st_tr st) (fq_RequestID req) = None"
  shows "tr_reqToFile (st_tr st') = tr_reqToFile (st_tr st) \<and> tr_inflight (st_tr st') = tr_inflight (st_tr st) \<and>
    tr_needed (st_tr st') = tr_needed (st_tr st) \<and>
    tr_resolved (st_tr st') \<in> {tr_resolved (st_tr st), insert (fq_FileID req) (tr_resolved (st_tr st))}"
proof -
  let ?t = "reqStarted (fq_RequestID req) (fq_FileID req) (st_tr st)"
  have q: "tr_reqToFile ((bump ^^ k) ?t) (fq_RequestID req) = Some (fq_FileID req)" for k by simp
  have m: "(tr_reqToFile (st_tr st))(fq_RequestID req := None) = tr_reqToFile (st_tr st)" using assms(2) by auto
  from serve_tracker [OF assms(1)] obtain k p n where
      "st_tr st' = reqFailed (fq_RequestID req) p p ((bump ^^ k) ?t) \<or>
       st_tr st' = reqCompleted (fq_RequestID req) (fq_FileID req) n ((bump ^^ k) ?t)" by auto
  then show ?thesis
    by (elim disjE) (simp_all add: reqFailed_effect [OF q] reqCompleted_effect [OF q] m)
qed

definition sample_entry :: Entry where
  "sample_entry = \<lparr>en_RelPath = str ''a'', en_Type = TypeFile, en_Flags = 0, en_Size = 3, en_Mode = 0x1A4,
     en_MtimeSec = 0, en_MtimeNsec = 0, en_Dev = 1, en_Ino = 7, en_LinkTarget = [], en_HardlinkKey = 0\<rparr>"

definition sample_source :: source_file where
  "sample_source = \<lparr>sf_stat = Inr \<lparr>fi_regular = True, fi_dev = 1, fi_ino = 7, fi_size = 3\<rparr>, sf_seek = None,
     sf_reads = [[1, 2], [3]], sf_end = None\<rparr>"

definition sample_servicer :: servicer where
  "sample_servicer = \<lparr>srv_entries = [sample_entry], srv_path = (\<lambda>p. p), srv_open = (\<lambda>_. Inr sample_source),
     srv_hash = Inr (\<lambda>bs. [word_of_nat (length bs)]), srv_chunkSize = 1024, srv_sem = None,
     srv_digests = [0 \<mapsto> [3]], srv_send = (\<lambda>_. None)\<rparr>"

definition sample_request :: FileRequest where
  "sample_request = \<lparr>fq_RequestID = 1, fq_FileID = 0, fq_Offset = 0, fq_MaxChunk = 1024\<rparr>"

definition sample_serve_state :: serve_state where
  "sample_serve_state = \<lparr>st_sent = [], st_tries = 0,
     st_tr = tr_run [EvDecision sample_group_decision] (newTracker [0]), st_files = 0, st_bytes = 0\<rparr>"

lemmas serve_eval = serve_def serve_body_def serve_open_def serve_stream_def serve_finish_def refuse_def sendErr_def SendMsg_def
  on_tracker_def sample_servicer_def sample_entry_def sample_source_def sample_request_def sample_serve_state_def ds_get_def
  Let_def i64_of_u64_def wrap64_def u64_of_i64_def

theorem serve_closes_request_witness:
  "\<exists>r st'. serve sample_servicer sample_request (on_tracker (reqStarted 1 0) sample_serve_state) = (r, st') \<and>
     tr_inflight (st_tr st') = 0"
proof -
  obtain r st' where 1: "serve sample_servicer sample_request (on_tracker (reqStarted 1 0) sample_serve_state) = (r, st')"
    by fastforce
  have "tr_reqToFile (st_tr sample_serve_state) 1 = None" "tr_inflight (st_tr sample_serve_state) = 0"
    by (simp_all add: sample_serve_state_def tracker_eval)
  then show ?thesis using serve_closes_request [of sample_servicer sample_request sample_serve_state r st'] 1
    by (simp add: sample_request_def)
qed

lemma serve_completed:
  assumes "serve s req st = (r, st')" and "st_sent st' = st_sent st @ ms" and "list_ex is_complete ms"
    and "tr_reqToFile (st_tr st) (fq_RequestID req) = Some (fq_FileID req)"
  shows "\<exists>e f. guards_pass s req e f \<and> completed s req e f st r st' \<and> fq_FileID req \<in> tr_completedSet (st_tr st')"
proof -
  obtain r1 st1 where 1: "serve_body s req st = (r1, st1)" by fastforce
  have same: "st_sent st1 = st_sent st'" using assms(1) 1 by (auto simp: serve_def split: option.splits)
  have no: "\<not> (st_sent st1 = st_sent st @ ms' \<and> list_all (\<lambda>m. \<not> is_complete m) ms')" for ms'
    using assms(2,3) same by (auto simp: list_all_iff list_ex_iff)
  then have "\<not> broken_off st r1 st1" "\<not> refused req st r1 st1" by (auto simp: broken_off_def refused_def)
  with serve_body_cases [OF 1] serve_stream_cases obtain e f where g: "guards_pass s req e f"
    and c: "completed s req e f st r1 st1" by blast
  have st': "st' = st1" "r = r1" using assms(1) 1 c by (auto simp: serve_def completed_def)
  from c obtain k where tr: "st_tr st1 =
      reqCompleted (fq_RequestID req) (fq_FileID req) (word_of_nat (length (concat (sf_reads f)))) ((bump ^^ k) (st_tr st))"
    by (auto simp: completed_def Let_def)
  have "tr_reqToFile ((bump ^^ k) (st_tr st)) (fq_RequestID req) = Some (fq_FileID req)" using assms(4) by simp
  then have "fq_FileID req \<in> tr_completedSet (st_tr st')" by (simp add: st' tr reqCompleted_effect)
  then show ?thesis using g c st' by blast
qed

text \<open>
  C23. FILE_COMPLETE certifies the file: it is sent only when the entry is a regular file whose open
  handle passed the type, identity and size checks, the reads reached the end of the file, the bytes
  streamed from the requested offset add up to the planned size, and (from offset zero) their digest is
  the published one. The messages are then exactly the header, the read blocks as chunks at contiguous
  offsets, and the completion with the digest of those blocks; and the tracker has the file completed.
\<close>

theorem serve_complete_sound:
  assumes "serve s req st = (r, st')" and "st_sent st' = st_sent st @ ms" and "list_ex is_complete ms"
    and "tr_reqToFile (st_tr st) (fq_RequestID req) = Some (fq_FileID req)"
  shows "\<exists>e f H. guards_pass s req e f \<and> srv_hash s = Inr H \<and> r = None \<and> sf_end f = None \<and>
    (let content = concat (sf_reads f); off = i64_of_u64 (fq_Offset req); n = word_of_nat (length content) in
     wrap64 (off + i64_of_u64 n) = en_Size e \<and>
     (off = 0 \<and> stored_digest s req \<noteq> [] \<longrightarrow> H content = stored_digest s req) \<and>
     ms = M_FileHeader (file_header s req e (stored_digest s req)) #
       chunk_msgs (fq_RequestID req) (fq_Offset req) (sf_reads f) @
       [M_FileComplete \<lparr>fp_RequestID = fq_RequestID req, fp_BytesSent = n, fp_DigestFull = H content\<rparr>]) \<and>
    fq_FileID req \<in> tr_completedSet (st_tr st')"
proof -
  obtain e f where ef: "guards_pass s req e f" "completed s req e f st r st'" "fq_FileID req \<in> tr_completedSet (st_tr st')"
    using serve_completed [OF assms] by blast
  have off: "u64_of_i64 (i64_of_u64 (fq_Offset req)) = fq_Offset req" by simp
  show ?thesis using ef assms(2) unfolding completed_def Let_def off by auto
qed

definition sample_started :: serve_state where
  "sample_started = on_tracker (reqStarted 1 0) sample_serve_state"

lemma sample_started_open: "tr_reqToFile (st_tr sample_started) (fq_RequestID sample_request) = Some (fq_FileID sample_request)"
  by (simp add: sample_started_def sample_request_def)

lemma sample_run:
  obtains ms st' where "serve sample_servicer sample_request sample_started = (None, st')"
    "st_sent st' = st_sent sample_started @ ms" "list_ex is_complete ms" "list_ex is_content ms"
proof -
  have "\<exists>ms st'. serve sample_servicer sample_request sample_started = (None, st') \<and>
    st_sent st' = st_sent sample_started @ ms \<and> list_ex is_complete ms \<and> list_ex is_content ms"
    by (simp add: serve_eval sample_started_def)
  then show ?thesis using that by blast
qed

theorem serve_complete_sound_witness:
  "\<exists>st'. serve sample_servicer sample_request sample_started = (None, st') \<and> 0 \<in> tr_completedSet (st_tr st')"
proof -
  obtain ms st' where 1: "serve sample_servicer sample_request sample_started = (None, st')"
    and 2: "st_sent st' = st_sent sample_started @ ms" "list_ex is_complete ms" by (rule sample_run)
  have "fq_FileID sample_request \<in> tr_completedSet (st_tr st')"
    using serve_complete_sound [OF 1 2 sample_started_open] by blast
  then show ?thesis using 1 by (simp add: sample_request_def)
qed

text \<open>
  No byte of a swapped file leaves the sender: a header, a chunk or a completion is sent only
  after the open handle was checked to be a regular file with the device, inode and size of the scan,
  whatever is at the path by then.
\<close>

theorem serve_guards_content:
  assumes "serve s req st = (r, st')" and "st_sent st' = st_sent st @ ms" and "list_ex is_content ms"
  shows "\<exists>e f fi. e = srv_entries s ! unat (fq_FileID req) \<and> srv_open s (srv_path s (en_RelPath e)) = Inr f \<and>
    sf_stat f = Inr fi \<and> fi_regular fi \<and> (en_Ino e \<noteq> 0 \<longrightarrow> fi_dev fi = en_Dev e \<and> fi_ino fi = en_Ino e) \<and>
    u64_of_i64 (fi_size fi) = u64_of_i64 (en_Size e)"
proof -
  obtain r1 st1 where 1: "serve_body s req st = (r1, st1)" by fastforce
  have same: "st_sent st1 = st_sent st'" using assms(1) 1 by (auto simp: serve_def split: option.splits)
  have "\<not> no_content st st1" using assms(2,3) same by (auto simp: no_content_def list_all_iff list_ex_iff)
  with serve_body_cases [OF 1] obtain e f where "guards_pass s req e f" by blast
  then show ?thesis by (auto simp: guards_pass_def split: sum.splits)
qed

theorem serve_guards_content_witness:
  "\<exists>st' f. serve sample_servicer sample_request sample_started = (None, st') \<and>
     srv_open sample_servicer (str ''a'') = Inr f \<and> (\<exists>fi. sf_stat f = Inr fi \<and> fi_ino fi = 7)"
proof -
  obtain ms st' where 1: "serve sample_servicer sample_request sample_started = (None, st')"
    and 2: "st_sent st' = st_sent sample_started @ ms" "list_ex is_content ms" by (rule sample_run)
  from serve_guards_content [OF 1 2] 1 show ?thesis
    by (auto simp: sample_servicer_def sample_entry_def sample_request_def)
qed

section \<open>A file that keeps failing\<close>

text \<open>
  A retryable failure is never resolved by the sender: when the source file cannot be opened for
  a reason other than absence or permission, each request is refused with a retryable FILE_ERROR and
  the file stays needed and unresolved, so after any number of attempts the done channel is still open.
  The receiver gives up after its retries without a message, and then only the watchdog ends the session.
\<close>

theorem retryable_failure_blocks_end:
  assumes "\<forall>sm\<in>set attempts. \<exists>s req m. sm = (s, M_FileRequest req) \<and> fq_FileID req = fid \<and> srv_entries s = es \<and>
      srv_sem s = None \<and> srv_open s (srv_path s (en_RelPath (es ! unat fid))) = Inl (ErrOther m)"
    and "unat fid < length es" "en_Type (es ! unat fid) = TypeFile"
    and "fid \<in> tr_needed (st_tr st)" "fid \<notin> tr_resolved (st_tr st)" "\<not> tr_doneClosed (st_tr st)"
    and "tr_reqToFile (st_tr st) = Map.empty" "run_servicer attempts None st = (r, st')"
  shows "r = None \<and> fid \<in> tr_needed (st_tr st') \<and> fid \<notin> tr_resolved (st_tr st') \<and> \<not> tr_doneClosed (st_tr st')"
  using assms(1,4-)
proof (induction attempts arbitrary: st)
  case (Cons sm ms)
  then obtain s req m where sm: "sm = (s, M_FileRequest req)" "fq_FileID req = fid" "srv_entries s = es" "srv_sem s = None"
    "srv_open s (srv_path s (en_RelPath (es ! unat fid))) = Inl (ErrOther m)" by auto
  let ?st = "on_tracker (reqStarted (fq_RequestID req) fid) st"
  obtain st1 where st1: "refuse s req E6004 True m ?st = (None, st1)" by (fastforce simp: refuse_def Let_def)
  have "serve s req ?st = (None, st1)"
    using st1 assms(2,3) by (simp add: serve_def serve_body_def Let_def sm mapOpenErr_def)
  then have run: "run_servicer ms None st1 = (r, st')" using Cons.prems(6) by (simp add: sm)
  have tr: "st_tr st1 = reqFailed (fq_RequestID req) False False (reqStarted (fq_RequestID req) fid (st_tr st))"
    using refuse_cases(2) [OF st1] by simp
  have q: "tr_reqToFile (reqStarted (fq_RequestID req) fid (st_tr st)) (fq_RequestID req) = Some fid" by simp
  have "\<not> tr_doneClosed (st_tr st1)"
    using Cons.prems(2-4) by (auto simp: tr reqFailed_def reqStarted_def finishLocked_def Let_def)
  with Cons.IH [OF _ _ _ _ _ run] Cons.prems show ?case by (simp add: tr reqFailed_effect [OF q])
qed simp

definition broken_servicer :: servicer where
  "broken_servicer = sample_servicer\<lparr>srv_open := (\<lambda>_. Inl (ErrOther []))\<rparr>"

theorem retryable_failure_blocks_end_witness:
  "\<exists>r st'. run_servicer [(broken_servicer, M_FileRequest sample_request), (broken_servicer, M_FileRequest sample_request)] None
      sample_serve_state = (r, st') \<and> \<not> tr_doneClosed (st_tr st')"
proof -
  let ?run = "run_servicer [(broken_servicer, M_FileRequest sample_request), (broken_servicer, M_FileRequest sample_request)] None
      sample_serve_state"
  obtain r st' where 1: "?run = (r, st')" by fastforce
  have "\<not> tr_doneClosed (st_tr st')"
    by (rule retryable_failure_blocks_end [where fid = 0 and es = "[sample_entry]", THEN conjunct2, THEN conjunct2,
          THEN conjunct2, OF _ _ _ _ _ _ _ 1])
      (simp_all add: broken_servicer_def sample_servicer_def sample_request_def sample_entry_def sample_serve_state_def tracker_eval)
  with 1 show ?thesis by blast
qed

end
