(* ===== verification/Digest.thy ===== *)
theory Digest
  imports Go_Text Serve
begin

text \<open>
  The content-digest layer (\<^verbatim>\<open>internal/digest\<close>): the algorithm registry, the file hasher and the on-disk
  digest cache. MD5 and SHA-256 are parameters; the reads of a file, its stat result and the failures
  are inputs.
\<close>

section \<open>Algorithms\<close>

type_synonym Algo = u8

definition MD5 :: Algo where "MD5 = 0"
definition BLAKE3 :: Algo where "BLAKE3 = 1"
definition SHA256 :: Algo where "SHA256 = 2"

lemmas algo_defs = MD5_def BLAKE3_def SHA256_def

definition Algo_String :: "Algo \<Rightarrow> bytes" where
  "Algo_String a = (if a = MD5 then str ''md5'' else if a = BLAKE3 then str ''blake3''
     else if a = SHA256 then str ''sha256'' else str ''unknown'')"

text \<open>\<open>lower\<close> is \<^verbatim>\<open>strings.ToLower\<close>.\<close>

definition Parse_algo :: "(bytes \<Rightarrow> bytes) \<Rightarrow> bytes \<Rightarrow> Code + Algo" where
  "Parse_algo lower s =
     (let v = lower (TrimSpace s) in
      if v = str ''md5'' then Inr MD5
      else if v = str ''blake3'' then Inr BLAKE3
      else if v = str ''sha256'' \<or> v = str ''sha-256'' then Inr SHA256
      else Inl E1007)"

record hashes =
  hs_md5 :: "bytes \<Rightarrow> bytes"
  hs_sha256 :: "bytes \<Rightarrow> bytes"

definition New_hash :: "hashes \<Rightarrow> Algo \<Rightarrow> Code + (bytes \<Rightarrow> bytes)" where
  "New_hash H a = (if a = MD5 then Inr (hs_md5 H) else if a = SHA256 then Inr (hs_sha256 H) else Inl E1007)"

definition Len :: "Algo \<Rightarrow> nat" where
  "Len a = (if a = MD5 then 16 else if a = BLAKE3 \<or> a = SHA256 then 32 else 0)"

section \<open>Cache records\<close>

record CacheKey =
  ck_Dev :: u64
  ck_Ino :: u64
  ck_Size :: u64
  ck_MtimeSec :: int
  ck_MtimeNsec :: int
  ck_CtimeSec :: int
  ck_CtimeNsec :: int
  ck_Algo :: Algo

definition cacheMagic :: bytes where "cacheMagic = str ''esync digest cache v2'' @ [newline]"
definition keyLen :: nat where "keyLen = 57"
definition maxCacheDigest :: nat where "maxCacheDigest = 32"

definition appendKey :: "CacheKey \<Rightarrow> bytes" where
  "appendKey k = be64 (ck_Dev k) @ be64 (ck_Ino k) @ be64 (ck_Size k) @ be64 (u64_of_i64 (ck_MtimeSec k)) @
     be64 (u64_of_i64 (ck_MtimeNsec k)) @ be64 (u64_of_i64 (ck_CtimeSec k)) @ be64 (u64_of_i64 (ck_CtimeNsec k)) @ [ck_Algo k]"

definition decodeKey :: "bytes \<Rightarrow> CacheKey" where
  "decodeKey b = \<lparr>ck_Dev = get64 b, ck_Ino = get64 (drop 8 b), ck_Size = get64 (drop 16 b),
     ck_MtimeSec = i64_of_u64 (get64 (drop 24 b)), ck_MtimeNsec = i64_of_u64 (get64 (drop 32 b)),
     ck_CtimeSec = i64_of_u64 (get64 (drop 40 b)), ck_CtimeNsec = i64_of_u64 (get64 (drop 48 b)), ck_Algo = b ! 56\<rparr>"

definition wf_key :: "CacheKey \<Rightarrow> bool" where
  "wf_key k \<longleftrightarrow> is_int64 (ck_MtimeSec k) \<and> is_int64 (ck_MtimeNsec k) \<and> is_int64 (ck_CtimeSec k) \<and> is_int64 (ck_CtimeNsec k)"

definition cache_record :: "CacheKey \<Rightarrow> bytes \<Rightarrow> bytes" where
  "cache_record key digest =
     (let r = appendKey key @ [word_of_nat (length digest)] @ digest in r @ be32 (ChecksumIEEE r))"

type_synonym cache_map = "CacheKey \<rightharpoonup> bytes"

text \<open>The loop of \<^verbatim>\<open>load\<close>; the flag is the torn-record warning.\<close>

function load_records :: "bytes \<Rightarrow> cache_map \<Rightarrow> bool \<times> cache_map" where
  "load_records p m =
     (if length p = 0 then (False, m)
      else if length p < keyLen + 1 then (True, m)
      else let dl = unat (p ! keyLen); recLen = keyLen + 1 + dl + 4 in
        if dl > maxCacheDigest \<or> length p < recLen then (True, m)
        else if ChecksumIEEE (take (keyLen + 1 + dl) p) \<noteq> get32 (subslice (keyLen + 1 + dl) recLen p) then (True, m)
        else load_records (drop recLen p) (m(decodeKey (take keyLen p) \<mapsto> subslice (keyLen + 1) (keyLen + 1 + dl) p)))"
  by pat_completeness auto
termination by (relation "measure (\<lambda>(p, m). length p)") auto

declare load_records.simps [simp del]

lemma length_appendKey [simp]: "length (appendKey k) = 57"
  by (simp add: appendKey_def)

lemma appendKey_nth: "appendKey k ! 56 = ck_Algo k"
  by (simp add: appendKey_def nth_append)

lemma decode_appendKey: "wf_key k \<Longrightarrow> decodeKey (appendKey k) = k"
  by (simp add: decodeKey_def appendKey_nth wf_key_def) (simp add: appendKey_def)

definition wf_digest :: "bytes \<Rightarrow> bool" where
  "wf_digest d \<longleftrightarrow> d \<noteq> [] \<and> length d \<le> maxCacheDigest"

lemma length_cache_record [simp]: "length (cache_record k d) = 62 + length d"
  by (simp add: cache_record_def Let_def)

lemma cache_record_parts:
  assumes "length d \<le> maxCacheDigest"
  shows "unat ((cache_record k d @ p) ! keyLen) = length d" "take keyLen (cache_record k d @ p) = appendKey k"
    "subslice (keyLen + 1) (keyLen + 1 + length d) (cache_record k d @ p) = d"
    "take (keyLen + 1 + length d) (cache_record k d @ p) = appendKey k @ word_of_nat (length d) # d"
    "get32 (subslice (keyLen + 1 + length d) (keyLen + 1 + length d + 4) (cache_record k d @ p)) =
       ChecksumIEEE (appendKey k @ word_of_nat (length d) # d)"
  using assms by (simp_all add: cache_record_def Let_def keyLen_def maxCacheDigest_def nth_append subslice_def unat_of_nat)

lemma load_record:
  assumes "wf_key k" "wf_digest d"
  shows "load_records (cache_record k d @ p) m = load_records p (m(k \<mapsto> d))"
proof -
  have len: "length d \<le> 32" using assms(2) by (simp add: wf_digest_def maxCacheDigest_def)
  note parts = cache_record_parts [of d k p, unfolded maxCacheDigest_def, OF len]
  have "drop (keyLen + 1 + length d + 4) (cache_record k d @ p) = p" by (simp add: keyLen_def)
  then show ?thesis using len
    by (subst load_records.simps)
      (simp only: parts Let_def, simp add: keyLen_def maxCacheDigest_def decode_appendKey [OF assms(1)])
qed

lemma load_torn:
  assumes "n < length (cache_record k d)" "0 < n" "length d \<le> maxCacheDigest"
  shows "load_records (take n (cache_record k d)) m = (True, m)"
proof (cases "n < keyLen + 1")
  case True
  then show ?thesis using assms by (subst load_records.simps) (simp add: min_def)
next
  case False
  then have "take n (cache_record k d) ! keyLen = cache_record k d ! keyLen" by simp
  then have "unat (take n (cache_record k d) ! keyLen) = length d"
    using cache_record_parts(1) [OF assms(3), of k "[]"] by simp
  then show ?thesis using assms False by (subst load_records.simps) (simp add: min_def Let_def keyLen_def)
qed

section \<open>The cache\<close>

text \<open>\<open>dc_file\<close> is the file on disk, \<open>None\<close> when there is none; \<open>dc_f\<close> whether the append handle is open.\<close>

record Cache =
  dc_m :: cache_map
  dc_f :: bool
  dc_file :: "bytes option"
  dc_warned :: bool

definition load :: "bool \<Rightarrow> Cache \<Rightarrow> bool \<times> Cache" where
  "load readFails c = (case dc_file c of
     None \<Rightarrow> (True, c)
   | Some data \<Rightarrow>
       if readFails then (False, c\<lparr>dc_warned := True\<rparr>)
       else if length data < length cacheMagic \<or> take (length cacheMagic) data \<noteq> cacheMagic then (False, c\<lparr>dc_warned := True\<rparr>)
       else let (torn, m) = load_records (drop (length cacheMagic) data) (dc_m c)
            in (True, c\<lparr>dc_m := m, dc_warned := dc_warned c \<or> torn\<rparr>))"

text \<open>The calls that fail; the header may be written in part.\<close>

definition OpenCache :: "bool \<Rightarrow> bool \<Rightarrow> bool \<Rightarrow> nat option \<Rightarrow> bytes option \<Rightarrow> Cache" where
  "OpenCache readFails mkdirFails openFails magicFails file =
     (let c = \<lparr>dc_m = Map.empty, dc_f = False, dc_file = file, dc_warned = False\<rparr> in
      case load readFails c of
        (False, c) \<Rightarrow> c
      | (True, c) \<Rightarrow>
          if mkdirFails then c
          else if openFails then c
          else let data = (case dc_file c of None \<Rightarrow> [] | Some d \<Rightarrow> d) in
            if length data = 0 then
              (case magicFails of
                 Some n \<Rightarrow> c\<lparr>dc_file := Some (take n cacheMagic)\<rparr>
               | None \<Rightarrow> c\<lparr>dc_file := Some cacheMagic, dc_f := True\<rparr>)
            else c\<lparr>dc_f := True\<rparr>)"

definition cache_Get :: "Cache option \<Rightarrow> CacheKey \<Rightarrow> bytes option" where
  "cache_Get c key = (case c of None \<Rightarrow> None | Some c \<Rightarrow> dc_m c key)"

text \<open>\<open>Some n\<close>: the write fails after \<open>n\<close> bytes.\<close>

definition cache_Put :: "nat option \<Rightarrow> CacheKey \<Rightarrow> bytes \<Rightarrow> Cache \<Rightarrow> Cache" where
  "cache_Put w key digest c =
     (if length digest = 0 \<or> length digest > maxCacheDigest then c
      else if dc_m c key \<noteq> None then c
      else let c = c\<lparr>dc_m := (dc_m c)(key \<mapsto> digest)\<rparr> in
        if \<not> dc_f c then c
        else let data = (case dc_file c of None \<Rightarrow> [] | Some d \<Rightarrow> d) in
          case w of
            None \<Rightarrow> c\<lparr>dc_file := Some (data @ cache_record key digest)\<rparr>
          | Some n \<Rightarrow> c\<lparr>dc_file := Some (data @ take n (cache_record key digest)), dc_f := False\<rparr>)"

definition cache_Close :: "Cache option \<Rightarrow> Cache option" where
  "cache_Close c = map_option (\<lambda>c. c\<lparr>dc_f := False\<rparr>) c"

fun put_all :: "(CacheKey \<times> bytes) list \<Rightarrow> Cache \<Rightarrow> Cache" where
  "put_all [] c = c"
| "put_all ((k, d) # ps) c = put_all ps (cache_Put None k d c)"

text \<open>The file holds whole records only, and they give the map.\<close>

definition synced :: "Cache \<Rightarrow> bool" where
  "synced c \<longleftrightarrow> dc_f c \<and> (\<exists>p. dc_file c = Some (cacheMagic @ p) \<and> (\<forall>q. load_records (p @ q) Map.empty = load_records q (dc_m c)))"

lemma synced_Put:
  assumes "synced c" "wf_key k"
  shows "synced (cache_Put None k d c)"
proof -
  obtain p where p: "dc_f c" "dc_file c = Some (cacheMagic @ p)" "\<And>q. load_records (p @ q) Map.empty = load_records q (dc_m c)"
    using assms(1) by (auto simp: synced_def)
  show ?thesis
  proof (cases "length d = 0 \<or> length d > maxCacheDigest \<or> dc_m c k \<noteq> None")
    case True
    then show ?thesis using assms(1) by (auto simp: cache_Put_def)
  next
    case False
    then have "load_records ((p @ cache_record k d) @ q) Map.empty = load_records q ((dc_m c)(k \<mapsto> d))" for q
      using p(3) load_record [OF assms(2), of d q "dc_m c"] by (simp add: wf_digest_def)
    then show ?thesis using False p by (auto simp: cache_Put_def synced_def Let_def)
  qed
qed

lemma synced_put_all: "synced c \<Longrightarrow> list_all (\<lambda>(k, d). wf_key k) ps \<Longrightarrow> synced (put_all ps c)"
  by (induction ps arbitrary: c) (auto simp: synced_Put)

lemma cacheMagic_not_Nil [simp]: "cacheMagic \<noteq> []"
  by (simp add: cacheMagic_def)

lemma load_records_Nil [simp]: "load_records [] m = (False, m)"
  by (subst load_records.simps) simp

lemma load_synced: "synced c \<Longrightarrow> dc_m (OpenCache False mk op mg (dc_file c)) = dc_m c"
proof -
  assume "synced c"
  then obtain p where p: "dc_file c = Some (cacheMagic @ p)" "\<And>q. load_records (p @ q) Map.empty = load_records q (dc_m c)"
    by (auto simp: synced_def)
  then have "load_records p Map.empty = (False, dc_m c)" using p(2) [of "[]"] by simp
  then show ?thesis by (simp add: OpenCache_def load_def p(1) Let_def)
qed

lemma OpenCache_new: "synced (OpenCache False False False None None)"
  by (simp add: synced_def OpenCache_def load_def Let_def)

text \<open>
  The digest cache survives the process: after any sequence of stores into a new cache, opening the
  file again gives the same map, also when the run ended in the middle of writing one more record.
\<close>

theorem cache_persists:
  assumes keys: "list_all (\<lambda>(k, d). wf_key k) ps" and c: "c = put_all ps (OpenCache False False False None None)"
    and torn: "n < length (cache_record k d)" "length d \<le> maxCacheDigest"
  shows "dc_m (OpenCache False mk op mg (dc_file c)) = dc_m c \<and>
    dc_m (OpenCache False mk op mg (map_option (\<lambda>b. b @ take n (cache_record k d)) (dc_file c))) = dc_m c"
proof -
  have s: "synced c" unfolding c by (rule synced_put_all [OF OpenCache_new keys])
  then obtain p where p: "dc_file c = Some (cacheMagic @ p)" "\<And>q. load_records (p @ q) Map.empty = load_records q (dc_m c)"
    by (auto simp: synced_def)
  have "snd (load_records (take n (cache_record k d)) (dc_m c)) = dc_m c"
    using load_torn [OF torn(1) _ torn(2)] by (cases "n = 0") auto
  then have "snd (load_records (p @ take n (cache_record k d)) Map.empty) = dc_m c" using p(2) by simp
  then have "dc_m (OpenCache False mk op mg (Some (cacheMagic @ p @ take n (cache_record k d)))) = dc_m c"
    by (simp add: OpenCache_def load_def Let_def case_prod_unfold)
  then show ?thesis using load_synced [OF s] p(1) by simp
qed

definition sample_key :: "u64 \<Rightarrow> CacheKey" where
  "sample_key i = \<lparr>ck_Dev = 1, ck_Ino = i, ck_Size = 5, ck_MtimeSec = 6, ck_MtimeNsec = 7, ck_CtimeSec = 8, ck_CtimeNsec = 200, ck_Algo = MD5\<rparr>"

lemma sample_key_wf [simp]: "wf_key (sample_key i)"
  by (simp add: sample_key_def wf_key_def is_int64_def)

theorem cache_persists_witness:
  "dc_m (OpenCache False False False None (dc_file (put_all [(sample_key 1, [7, 8])] (OpenCache False False False None None))))
     (sample_key 1) = Some [7, 8]"
proof -
  let ?c = "put_all [(sample_key 1, [7, 8])] (OpenCache False False False None None)"
  have 1: "list_all (\<lambda>(k, d). wf_key k) [(sample_key 1, [7, 8])]" by simp
  have 2: "3 < length (cache_record (sample_key 2) [1])" "length [1 :: byte] \<le> maxCacheDigest" by (simp_all add: maxCacheDigest_def)
  from cache_persists [OF 1 refl 2] have "dc_m (OpenCache False False False None (dc_file ?c)) = dc_m ?c" by blast
  then show ?thesis by (simp add: cache_Put_def OpenCache_def load_def Let_def maxCacheDigest_def)
qed

section \<open>Hashing a file\<close>

text \<open>
  One call of \<^verbatim>\<open>HashFile\<close>: the result of opening and of \<^verbatim>\<open>Stat\<close>, the stat key of the open file (\<open>None\<close> where the
  platform has none), the buffers read, how the reads end, and after how many buffers the context is cancelled.
\<close>

record hash_io =
  hi_open :: "os_err option"
  hi_stat :: bool
  hi_key :: "CacheKey option"
  hi_reads :: "bytes list"
  hi_end :: "os_err option"
  hi_cancel :: "nat option"
  hi_write :: "nat option"

definition openFault :: "os_err \<Rightarrow> Code" where
  "openFault e = (case e of ErrNotExist _ \<Rightarrow> E6002 | ErrPermission _ \<Rightarrow> E6001 | ErrOther _ \<Rightarrow> E6004)"

definition statKey :: "hash_io \<Rightarrow> Algo \<Rightarrow> CacheKey option" where
  "statKey io algo = map_option (\<lambda>k. k\<lparr>ck_Algo := algo\<rparr>) (hi_key io)"

fun read_loop :: "bytes list \<Rightarrow> os_err option \<Rightarrow> nat option \<Rightarrow> nat \<Rightarrow> bytes \<Rightarrow> Code + bytes" where
  "read_loop [] fin cancel n acc =
     (if cancel = Some n then Inl E6004 else case fin of None \<Rightarrow> Inr acc | Some e \<Rightarrow> Inl E6004)"
| "read_loop (b # bs) fin cancel n acc =
     (if cancel = Some n then Inl E6004 else read_loop bs fin cancel (n + 1) (acc @ b))"

definition HashFile :: "hashes \<Rightarrow> hash_io \<Rightarrow> Algo \<Rightarrow> Cache option \<Rightarrow> (Code + bytes) \<times> Cache option" where
  "HashFile H io algo cache = (case New_hash H algo of
     Inl c \<Rightarrow> (Inl c, cache)
   | Inr h \<Rightarrow> (case hi_open io of
       Some e \<Rightarrow> (Inl (openFault e), cache)
     | None \<Rightarrow>
         if hi_stat io then (Inl E6004, cache)
         else let key = (if cache = None then None else statKey io algo) in
           case (case key of None \<Rightarrow> None | Some k \<Rightarrow> cache_Get cache k) of
             Some d \<Rightarrow> (Inr d, cache)
           | None \<Rightarrow> (case read_loop (hi_reads io) (hi_end io) (hi_cancel io) 0 [] of
               Inl c \<Rightarrow> (Inl c, cache)
             | Inr data \<Rightarrow>
                 let sum = h data in
                 (Inr sum, case key of None \<Rightarrow> cache | Some k \<Rightarrow> map_option (cache_Put (hi_write io) k sum) cache))))"

lemma read_loop_ok: "read_loop bs fin cancel n acc = Inr data \<Longrightarrow> fin = None \<and> data = acc @ concat bs"
  by (induction bs arbitrary: n acc) (fastforce split: if_splits option.splits)+

lemma read_loop_err: "read_loop bs fin cancel n acc = Inl c \<Longrightarrow> c = E6004"
  by (induction bs arbitrary: n acc) (auto split: if_splits option.splits)

text \<open>
  \<open>version k\<close> is the content of the file version that a stat key identifies: every cached digest is the
  hash of that content with the key's algorithm.
\<close>

definition coherent :: "hashes \<Rightarrow> (CacheKey \<Rightarrow> bytes) \<Rightarrow> Cache option \<Rightarrow> bool" where
  "coherent H version c \<longleftrightarrow> (\<forall>k d. cache_Get c k = Some d \<longrightarrow> (\<exists>h. New_hash H (ck_Algo k) = Inr h \<and> d = h (version k)))"

lemma coherent_Put:
  assumes "coherent H version (Some c)" "New_hash H (ck_Algo k) = Inr h"
  shows "coherent H version (Some (cache_Put w k (h (version k)) c))"
proof -
  have "dc_m (cache_Put w k d c) q = dc_m c q \<or> q = k \<and> dc_m (cache_Put w k d c) q = Some d" for q d
    by (auto simp: cache_Put_def Let_def split: option.splits)
  then show ?thesis using assms unfolding coherent_def cache_Get_def by (simp only: option.case) (metis option.inject)
qed

lemma HashFile_sound:
  assumes run: "HashFile H io algo cache = (r, cache')" and co: "coherent H version cache"
    and ver: "\<And>k. statKey io algo = Some k \<Longrightarrow> version k = concat (hi_reads io)"
  shows "coherent H version cache' \<and>
    (case r of Inr d \<Rightarrow> \<exists>h. New_hash H algo = Inr h \<and> d = h (concat (hi_reads io)) | Inl c \<Rightarrow> c \<in> {E1007, E6001, E6002, E6004})"
proof (cases "New_hash H algo")
  case (Inl c)
  then show ?thesis using run co by (auto simp: HashFile_def New_hash_def split: if_splits)
next
  case (Inr h)
  show ?thesis
  proof (cases "hi_open io = None \<and> \<not> hi_stat io")
    case False
    then show ?thesis using run co Inr by (auto simp: HashFile_def openFault_def split: option.splits os_err.splits)
  next
    case True
    define key where "key = (if cache = None then None else statKey io algo)"
    have alg: "ck_Algo k = algo" "version k = concat (hi_reads io)" if "key = Some k" for k
      using that ver by (auto simp: key_def statKey_def split: if_splits)
    show ?thesis
    proof (cases "case key of None \<Rightarrow> None | Some k \<Rightarrow> cache_Get cache k")
      case (Some d)
      then obtain k where k: "key = Some k" "cache_Get cache k = Some d" by (cases key) auto
      then have "\<exists>h. New_hash H (ck_Algo k) = Inr h \<and> d = h (version k)" using co unfolding coherent_def by blast
      then have "d = h (concat (hi_reads io))" using alg [OF k(1)] Inr by auto
      moreover have "r = Inr d" "cache' = cache" using run True Inr Some by (auto simp: HashFile_def Let_def simp flip: key_def)
      ultimately show ?thesis using co Inr by simp
    next
      case None
      show ?thesis
      proof (cases "read_loop (hi_reads io) (hi_end io) (hi_cancel io) 0 []")
        case (Inl c)
        then have "r = Inl c" "cache' = cache" using run True Inr None by (auto simp: HashFile_def Let_def simp flip: key_def)
        then show ?thesis using read_loop_err [OF Inl] co by simp
      next
        case (Inr data)
        then have d: "data = concat (hi_reads io)" using read_loop_ok by fastforce
        have res: "r = Inr (h data)"
            "cache' = (case key of None \<Rightarrow> cache | Some k \<Rightarrow> map_option (cache_Put (hi_write io) k (h data)) cache)"
          using run True \<open>New_hash H algo = Inr h\<close> None Inr by (auto simp: HashFile_def Let_def simp flip: key_def)
        have "coherent H version cache'"
        proof (cases key)
          case (Some k)
          then obtain c where c: "cache = Some c" by (auto simp: key_def split: if_splits)
          moreover have "New_hash H (ck_Algo k) = Inr h" "h data = h (version k)" using alg [OF Some] d \<open>New_hash H algo = Inr h\<close> by simp_all
          ultimately show ?thesis using coherent_Put [of H version c k h "hi_write io"] co res(2) Some by simp
        qed (use res co in simp)
        then show ?thesis using res d \<open>New_hash H algo = Inr h\<close> by simp
      qed
    qed
  qed
qed

text \<open>
  C38. Caching is transparent: with a coherent cache (every stored digest is the hash of the content that
  its stat key identifies) and a file whose key identifies its content, a successful \<^verbatim>\<open>HashFile\<close> returns
  the hash of the whole file, from the cache or not; the cache stays coherent in every case; and a
  failure is E1007 (no such algorithm), E6001, E6002 or E6004.
\<close>

theorem HashFile_transparent:
  assumes run: "HashFile H io algo cache = (r, cache')" and co: "coherent H version cache"
    and ver: "\<And>k. statKey io algo = Some k \<Longrightarrow> version k = concat (hi_reads io)"
  shows "coherent H version cache' \<and>
    (case r of Inr d \<Rightarrow> \<exists>h. New_hash H algo = Inr h \<and> d = h (concat (hi_reads io)) | Inl c \<Rightarrow> c \<in> {E1007, E6001, E6002, E6004})"
  by (rule HashFile_sound [OF assms])

definition sample_hashes :: hashes where
  "sample_hashes = \<lparr>hs_md5 = (\<lambda>b. [word_of_nat (length b)]), hs_sha256 = (\<lambda>b. [0, word_of_nat (length b)])\<rparr>"

definition sample_hash_io :: hash_io where
  "sample_hash_io = \<lparr>hi_open = None, hi_stat = False, hi_key = Some (sample_key 4), hi_reads = [[1, 2], [3]], hi_end = None,
     hi_cancel = None, hi_write = None\<rparr>"

theorem HashFile_transparent_witness:
  "\<exists>c'. HashFile sample_hashes sample_hash_io MD5 (Some (OpenCache False False False None None)) = (Inr [3], c')"
proof -
  let ?c = "Some (OpenCache False False False None None)"
  obtain r c' where 1: "HashFile sample_hashes sample_hash_io MD5 ?c = (r, c')" by fastforce
  have 2: "coherent sample_hashes (\<lambda>_. [1, 2, 3]) ?c" by (simp add: coherent_def cache_Get_def OpenCache_def load_def Let_def)
  have 3: "concat (hi_reads sample_hash_io) = [1, 2, 3]" by (simp add: sample_hash_io_def)
  have "\<exists>d. r = Inr d" using 1
    by (auto simp: HashFile_def New_hash_def sample_hash_io_def statKey_def cache_Get_def OpenCache_def load_def Let_def)
  with HashFile_transparent [OF 1 2, unfolded 3] 1 show ?thesis
    by (auto simp: New_hash_def sample_hashes_def)
qed

text \<open>
  Like the journal, the cache file is appended to behind a torn record. The bytes that follow are then
  read at the wrong place: with two stray bytes, every later store is lost to the next run when the low
  byte of its key's change time, read as a digest length, is too large.
\<close>

lemma load_behind_torn:
  assumes "maxCacheDigest < unat (appendKey k ! 55)"
  shows "load_records ([a, b] @ cache_record k d @ later) m = (True, m)"
proof -
  have "([a, b] @ cache_record k d @ later) ! keyLen = appendKey k ! 55"
    by (simp add: keyLen_def cache_record_def Let_def nth_append)
  then show ?thesis using assms by (subst load_records.simps) (simp add: Let_def keyLen_def)
qed

lemma cache_torn_tail_hides:
  assumes "maxCacheDigest < unat (appendKey k ! 55)" "wf_digest d"
    and c: "c = cache_Put None k d (OpenCache False False False None (Some (cacheMagic @ [x, y])))"
  shows "cache_Get (Some c) k = Some d \<and> dc_m (OpenCache False mk op mg (dc_file c)) = Map.empty"
proof -
  have t: "load_records [x, y] m = (True, m)" for m by (subst load_records.simps) (simp add: keyLen_def)
  have f: "dc_file c = Some (cacheMagic @ [x, y] @ cache_record k d @ [])" "dc_m c k = Some d"
    using assms(2) by (simp_all add: c cache_Put_def OpenCache_def load_def Let_def t wf_digest_def)
  have "load_records ([x, y] @ cache_record k d @ []) Map.empty = (True, Map.empty)" by (rule load_behind_torn [OF assms(1)])
  then show ?thesis unfolding f(1) using f(2) by (simp add: OpenCache_def load_def Let_def cache_Get_def)
qed

end
