(* ===== verification/Decide.thy ===== *)
theory Decide
  imports Fetch Validate Journal Digest
begin

text \<open>
  The receiver's decide pass (\<^verbatim>\<open>internal/receiver/decide.go\<close>): for each group of the manifest it validates the
  paths, makes directories, symlinks and hard links, compares files with what is there, sends one
  GROUP_DECISION, queues the needed files and returns one credit. It shares the tree, the metadata store,
  the hard-link map, the queue and the space guard with the fetch workers, so that part of its state is
  the \<open>fetcher\<close> record. Paths keep the slash form they have in the manifest.
\<close>

unbundle bit_operations_syntax

section \<open>State and environment\<close>

definition entryTypeFile :: u8 where "entryTypeFile = 0"
definition entryTypeDir :: u8 where "entryTypeDir = 1"
definition entryTypeSymlink :: u8 where "entryTypeSymlink = 2"

record dirRec =
  dr_mode :: u32
  dr_mtime :: mtime

record decide_cfg =
  dg_plat :: Platform
  dg_quick :: bool
  dg_dryRun :: bool
  dg_allowUnsafe :: bool
  dg_prior :: completed
  dg_algo :: Algo
  dg_hashes :: hashes
  dg_nfc :: "bytes \<Rightarrow> bytes"
  dg_lower :: "bytes \<Rightarrow> bytes"

record decider =
  de_f :: fetcher
  de_col :: Collisions
  de_cache :: "Cache option"
  de_dirMeta :: "bytes \<rightharpoonup> dirRec"
  de_rejected :: nat
  de_skipped :: nat
  de_dirs :: nat
  de_symlinks :: nat
  de_symlinksRejected :: nat
  de_sent :: "Message list"

text \<open>
  The system calls that fail, what hashing a destination file meets, and the results of the two sends and
  of the journal sync.
\<close>

record decide_io =
  dv_sys :: outcomes
  dv_hash :: "bytes \<Rightarrow> hash_io"
  dv_decision :: "err option"
  dv_sync :: "err option"
  dv_credit :: "err option"

definition on_tree :: "(tree \<Rightarrow> Code option \<times> tree) \<Rightarrow> decider \<Rightarrow> Code option \<times> decider" where
  "on_tree g d = (case g (ft_tree (de_f d)) of (r, t) \<Rightarrow> (r, d\<lparr>de_f := (de_f d)\<lparr>ft_tree := t\<rparr>\<rparr>))"

definition on_hl :: "(hardlinkMap \<Rightarrow> hardlinkMap) \<Rightarrow> decider \<Rightarrow> decider" where
  "on_hl g d = d\<lparr>de_f := (de_f d)\<lparr>ft_hl := g (ft_hl (de_f d))\<rparr>\<rparr>"

section \<open>One entry\<close>

definition decideDir :: "decide_cfg \<Rightarrow> decide_io \<Rightarrow> bytes \<Rightarrow> ManifestEntry \<Rightarrow> decider \<Rightarrow> decider" where
  "decideDir cfg io rel e d =
     (let d = d\<lparr>de_dirs := de_dirs d + 1\<rparr>;
          d = (if rel \<noteq> [] \<and> rel \<noteq> dot then
                 d\<lparr>de_dirMeta := (de_dirMeta d)(rel \<mapsto> \<lparr>dr_mode = me_Mode e AND 0x1FF, dr_mtime = (me_MtimeSec e, me_MtimeNsec e)\<rparr>)\<rparr>
               else d)
      in if dg_dryRun cfg then d else snd (on_tree (EnsureDir (dv_sys io) rel 0x1ED) d))"

definition decideSymlink :: "decide_cfg \<Rightarrow> decide_io \<Rightarrow> bytes \<Rightarrow> ManifestEntry \<Rightarrow> decider \<Rightarrow> decider" where
  "decideSymlink cfg io rel e d =
     (let target = me_LinkTarget e in
      if dg_dryRun cfg then d\<lparr>de_symlinks := de_symlinks d + 1\<rparr>
      else if (case Lstat (dv_sys io) (ft_tree (de_f d)) rel of Inr (Symlink cur) \<Rightarrow> cur = target | _ \<Rightarrow> False) then d
      else case on_tree (MakeSymlink (dv_sys io) rel target (dg_allowUnsafe cfg)) d of
        (Some c, d) \<Rightarrow> if c = E7011 then d\<lparr>de_symlinksRejected := de_symlinksRejected d + 1\<rparr> else d
      | (None, d) \<Rightarrow> d\<lparr>de_symlinks := de_symlinks d + 1\<rparr>)"

definition mtimeEqual :: "mtime \<Rightarrow> ManifestEntry \<Rightarrow> bool" where
  "mtimeEqual mt e \<longleftrightarrow> fst mt = me_MtimeSec e \<and> snd mt = me_MtimeNsec e"

definition decideFileContent :: "decide_cfg \<Rightarrow> decide_io \<Rightarrow> bytes \<Rightarrow> ManifestEntry \<Rightarrow> decider \<Rightarrow> bool \<times> decider" where
  "decideFileContent cfg io rel e d = (case Lstat (dv_sys io) (ft_tree (de_f d)) rel of
     Inl _ \<Rightarrow> (True, d)
   | Inr (File c m mt) \<Rightarrow>
       if int (length c) \<noteq> i64_of_u64 (me_Size e) then (True, d)
       else if dg_quick cfg \<and> mtimeEqual mt e then (False, d)
       else if length (me_Digest e) = 0 then (me_Size e \<noteq> 0, d)
       else (case HashFile (dg_hashes cfg) (dv_hash io rel) (dg_algo cfg) (de_cache d) of
         (Inl _, cache) \<Rightarrow> (True, d\<lparr>de_cache := cache\<rparr>)
       | (Inr local, cache) \<Rightarrow> (local \<noteq> me_Digest e, d\<lparr>de_cache := cache\<rparr>))
   | Inr _ \<Rightarrow> (True, d))"

definition decider_fallbackFetch :: "u32 \<Rightarrow> u64 \<Rightarrow> bytes \<Rightarrow> decider \<Rightarrow> decider" where
  "decider_fallbackFetch groupID fileID rel d = d\<lparr>de_f := fallbackFetch groupID fileID rel (de_f d)\<rparr>"

definition decider_linkOrFallback :: "decide_io \<Rightarrow> u32 \<Rightarrow> bytes \<Rightarrow> pendingLink list \<Rightarrow> decider \<Rightarrow> decider" where
  "decider_linkOrFallback io groupID primaryRel pending d =
     d\<lparr>de_f := linkOrFallback (dv_sys io) groupID primaryRel pending (de_f d)\<rparr>"

fun fall_back_all :: "u32 \<Rightarrow> pendingLink list \<Rightarrow> decider \<Rightarrow> decider" where
  "fall_back_all groupID [] d = d"
| "fall_back_all groupID (o1 # os) d = fall_back_all groupID os (decider_fallbackFetch groupID (pl_fileID o1) (pl_rel o1) d)"

definition has_key :: "ManifestEntry \<Rightarrow> bool" where
  "has_key e \<longleftrightarrow> me_Flags e AND ManifestFlagHasHardlinkKey \<noteq> 0"

text \<open>The hard-link part of \<^verbatim>\<open>decideFile\<close>: \<open>Inl need\<close> decides the entry, \<open>Inr isPrimary\<close> goes on to the content.\<close>

definition decide_link :: "decide_cfg \<Rightarrow> decide_io \<Rightarrow> u32 \<Rightarrow> bytes \<Rightarrow> u64 \<Rightarrow> ManifestEntry \<Rightarrow> decider \<Rightarrow> (bool + bool) \<times> decider" where
  "decide_link cfg io groupID rel fileID e d =
     (if \<not> has_key e then (Inr False, d)
      else let key = me_HardlinkKey e in
        case pathFor key (ft_hl (de_f d)) of
          Some p \<Rightarrow>
            if dg_dryRun cfg then (Inl False, d)
            else (case on_tree (MakeHardlink (dv_sys io) rel p) d of
              (None, d) \<Rightarrow> (Inl False, d)
            | (Some c, d) \<Rightarrow> (case clear key (ft_hl (de_f d)) of
                (orphans, h) \<Rightarrow> (Inr True, on_hl (markPrimary fileID key) (fall_back_all groupID orphans (on_hl (\<lambda>_. h) d)))))
        | None \<Rightarrow> (case claimSecondary key fileID rel (ft_hl (de_f d)) of
            (True, h) \<Rightarrow> (Inl False, on_hl (\<lambda>_. h) d)
          | (False, h) \<Rightarrow> (Inr True, on_hl (markPrimary fileID key) d)))"

definition decideFile :: "decide_cfg \<Rightarrow> decide_io \<Rightarrow> u32 \<Rightarrow> bytes \<Rightarrow> u64 \<Rightarrow> ManifestEntry \<Rightarrow> decider \<Rightarrow> bool \<times> decider" where
  "decideFile cfg io groupID rel fileID e d = (case decide_link cfg io groupID rel fileID e d of
     (Inl need, d) \<Rightarrow> (need, d)
   | (Inr isPrimary, d) \<Rightarrow> (case decideFileContent cfg io rel e d of
       (need, d) \<Rightarrow>
         if isPrimary \<and> \<not> need \<and> \<not> dg_dryRun cfg then
           (case registerMaterialised fileID rel (ft_hl (de_f d)) of
              (ps, h) \<Rightarrow> (need, decider_linkOrFallback io groupID rel ps (on_hl (\<lambda>_. h) d)))
         else (need, d)))"

section \<open>One group\<close>

datatype verdict = Rejected u16 | Skipped | Made | Needed

definition file_meta :: "bytes \<Rightarrow> ManifestEntry \<Rightarrow> fileMeta" where
  "file_meta rel e = \<lparr>fm_rel = rel, fm_size = i64_of_u64 (me_Size e), fm_mode = me_Mode e AND 0x1FF,
     fm_mtime = (me_MtimeSec e, me_MtimeNsec e), fm_digest = me_Digest e, fm_hlKey = me_HardlinkKey e, fm_hasHLKey = has_key e\<rparr>"

definition set_meta :: "u64 \<Rightarrow> fileMeta \<Rightarrow> decider \<Rightarrow> decider" where
  "set_meta fileID fm d = d\<lparr>de_f := (de_f d)\<lparr>ft_meta := meta_set fileID fm (ft_meta (de_f d))\<rparr>\<rparr>"

text \<open>The body of the loop over the entries.\<close>

definition decide_entry :: "decide_cfg \<Rightarrow> decide_io \<Rightarrow> u32 \<Rightarrow> u64 \<Rightarrow> ManifestEntry \<Rightarrow> decider \<Rightarrow> verdict \<times> decider" where
  "decide_entry cfg io groupID fileID e d =
     (let rel = me_Path e in
      case ValidatePath rel (dg_plat cfg) of
        Some c \<Rightarrow> (Rejected (numericCode c), d\<lparr>de_rejected := de_rejected d + 1,
            de_symlinksRejected := (if me_EntryType e = entryTypeSymlink then de_symlinksRejected d + 1 else de_symlinksRejected d)\<rparr>)
      | None \<Rightarrow> (case Add (dg_nfc cfg) (dg_lower cfg) rel (de_col d) of
          (Some c, col) \<Rightarrow> (Rejected (numericCode c), d\<lparr>de_col := col, de_rejected := de_rejected d + 1\<rparr>)
        | (None, col) \<Rightarrow>
            let d = d\<lparr>de_col := col\<rparr> in
            if dg_prior cfg fileID \<noteq> None then (Skipped, d\<lparr>de_skipped := de_skipped d + 1\<rparr>)
            else if me_EntryType e = entryTypeDir then (Made, decideDir cfg io rel e d)
            else if me_EntryType e = entryTypeSymlink then (Skipped, decideSymlink cfg io rel e d)
            else let
              fm = file_meta rel e;
              d = (if fm_hasHLKey fm then set_meta fileID fm d else d)
            in case decideFile cfg io groupID rel fileID e d of
                 (False, d) \<Rightarrow> (Skipped, d\<lparr>de_skipped := de_skipped d + 1\<rparr>)
               | (True, d) \<Rightarrow> (Needed, if fm_hasHLKey fm then d else set_meta fileID fm d)))"

record decide_acc =
  da_needed :: "u16 list"
  da_rejected :: "RejectedEntry list"
  da_items :: "needItem list"
  da_bytes :: int
  da_skipped :: u16

definition note_verdict :: "u32 \<Rightarrow> u16 \<Rightarrow> u64 \<Rightarrow> ManifestEntry \<Rightarrow> verdict \<Rightarrow> decide_acc \<Rightarrow> decide_acc" where
  "note_verdict groupID idx fileID e v a = (case v of
     Rejected c \<Rightarrow> a\<lparr>da_rejected := da_rejected a @ [\<lparr>rj_Index = idx, rj_ErrorCode = c\<rparr>]\<rparr>
   | Skipped \<Rightarrow> a\<lparr>da_skipped := da_skipped a + 1\<rparr>
   | Made \<Rightarrow> a
   | Needed \<Rightarrow> a\<lparr>da_needed := da_needed a @ [idx], da_bytes := wrap64 (da_bytes a + i64_of_u64 (me_Size e)),
       da_items := da_items a @ [\<lparr>ni_fileID = fileID, ni_groupID = groupID, ni_size = i64_of_u64 (me_Size e),
         ni_rel = me_Path e, ni_attempt = 0\<rparr>]\<rparr>)"

fun decide_loop :: "decide_cfg \<Rightarrow> decide_io \<Rightarrow> u32 \<Rightarrow> u64 \<Rightarrow> nat \<Rightarrow> ManifestEntry list \<Rightarrow> decide_acc \<Rightarrow> decider \<Rightarrow> decide_acc \<times> decider" where
  "decide_loop cfg io gid first i [] a d = (a, d)"
| "decide_loop cfg io gid first i (e # es) a d =
     (let fileID = first + word_of_nat i in
      case decide_entry cfg io gid fileID e d of
        (v, d) \<Rightarrow> decide_loop cfg io gid first (i + 1) es (note_verdict gid (word_of_nat i) fileID e v a) d)"

definition no_acc :: decide_acc where
  "no_acc = \<lparr>da_needed = [], da_rejected = [], da_items = [], da_bytes = 0, da_skipped = 0\<rparr>"

datatype decide_result = DecideErr err | DecideBlocked | DecideStopped | DecideOK

definition group_decision :: "GroupManifest \<Rightarrow> decide_acc \<Rightarrow> GroupDecision" where
  "group_decision gm a = \<lparr>gd_GroupID = gm_GroupID gm, gd_Needed = sort (da_needed a), gd_SkippedCount = da_skipped a,
     gd_Rejected = da_rejected a\<rparr>"

definition grow_totals :: "decide_acc \<Rightarrow> decider \<Rightarrow> decider" where
  "grow_totals a d = d\<lparr>de_f := (de_f d)\<lparr>ft_fb := (ft_fb (de_f d))\<lparr>fb_neededBytes := fb_neededBytes (ft_fb (de_f d)) + da_bytes a,
     fb_neededFiles := fb_neededFiles (ft_fb (de_f d)) + int (length (da_needed a))\<rparr>\<rparr>\<rparr>"

definition reserve_group :: "int \<Rightarrow> decider \<Rightarrow> Code option \<times> decider" where
  "reserve_group n d = (case fb_guard (ft_fb (de_f d)) of
     None \<Rightarrow> (None, d)
   | Some g \<Rightarrow> (case reserve n g of ((_, ferr), g) \<Rightarrow> (ferr, d\<lparr>de_f := (de_f d)\<lparr>ft_fb := (ft_fb (de_f d))\<lparr>fb_guard := Some g\<rparr>\<rparr>\<rparr>)))"

text \<open>\<open>DecideBlocked\<close>: the queue has no room yet and the call waits in \<^verbatim>\<open>pushGroup\<close>; \<open>DecideStopped\<close>: it was closed.\<close>

definition push_credit :: "decide_cfg \<Rightarrow> decide_io \<Rightarrow> needItem list \<Rightarrow> decider \<Rightarrow> decide_result \<times> decider" where
  "push_credit cfg io items d =
     (let credit = (\<lambda>d. case dv_credit io of
        Some e \<Rightarrow> (DecideErr e, d)
      | None \<Rightarrow> (DecideOK, d\<lparr>de_sent := de_sent d @ [M_Credit \<lparr>cr_AdditionalGroups = 1\<rparr>]\<rparr>))
      in if dg_dryRun cfg then credit d
         else case pushGroup items (fb_queue (ft_fb (de_f d))) of
           Blocked \<Rightarrow> (DecideBlocked, d)
         | QueueClosed \<Rightarrow> (DecideStopped, d)
         | Pushed q \<Rightarrow> credit (d\<lparr>de_f := on_queue (\<lambda>_. q) (de_f d)\<rparr>))"

text \<open>After the decision has been sent: the journal, the space guard, the queue, the credit.\<close>

definition decide_tail :: "decide_cfg \<Rightarrow> decide_io \<Rightarrow> decide_acc \<Rightarrow> decider \<Rightarrow> decide_result \<times> decider" where
  "decide_tail cfg io a d = (case dv_sync io of
     Some e \<Rightarrow> (DecideErr e, d)
   | None \<Rightarrow> (case (if da_bytes a > 0 then reserve_group (da_bytes a) d else (None, d)) of
       (Some c, d) \<Rightarrow> (DecideErr (New c ''free-space guard'' [] None), d)
     | (None, d) \<Rightarrow> push_credit cfg io (da_items a) d))"

definition decideGroup :: "decide_cfg \<Rightarrow> decide_io \<Rightarrow> GroupManifest \<Rightarrow> decider \<Rightarrow> decide_result \<times> decider" where
  "decideGroup cfg io gm d = (case decide_loop cfg io (gm_GroupID gm) (gm_FirstFileID gm) 0 (gm_Entries gm) no_acc d of
     (a, d) \<Rightarrow>
       let d = grow_totals a d in
       case dv_decision io of
         Some e \<Rightarrow> (DecideErr e, d)
       | None \<Rightarrow>
           decide_tail cfg io a (d\<lparr>de_sent := de_sent d @ [M_GroupDecision (group_decision gm a)]\<rparr>))"

text \<open>\<^verbatim>\<open>applyDirMeta\<close> (\<^verbatim>\<open>run.go\<close>): modes and times of the directories, deepest first.\<close>

definition depth_of :: "bytes \<Rightarrow> nat" where "depth_of r = length (filter (\<lambda>c. c = slash) r)"

fun apply_dirs :: "outcomes \<Rightarrow> (bytes \<times> dirRec) list \<Rightarrow> tree \<Rightarrow> tree" where
  "apply_dirs w [] t = t"
| "apply_dirs w ((r, dr) # rs) t = apply_dirs w rs (snd (ApplyMeta w r (dr_mode dr) (dr_mtime dr) t))"

text \<open>\<open>order\<close> is the enumeration of the map, which Go leaves open.\<close>

definition applyDirMeta :: "outcomes \<Rightarrow> bytes list \<Rightarrow> decider \<Rightarrow> decider" where
  "applyDirMeta w order d =
     (let rels = sort_key (\<lambda>r. - int (depth_of r)) order;
          recs = map (\<lambda>r. (r, the (de_dirMeta d r))) rels
      in d\<lparr>de_f := (de_f d)\<lparr>ft_tree := apply_dirs w recs (ft_tree (de_f d))\<rparr>\<rparr>)"

section \<open>What every step keeps\<close>

text \<open>No message is sent, no directory counted, and the queue at most grows at its end.\<close>

definition keeps :: "decider \<Rightarrow> decider \<Rightarrow> bool" where
  "keeps d d' \<longleftrightarrow> de_dirs d' = de_dirs d \<and> de_sent d' = de_sent d \<and>
     (\<exists>fb. nq_items (fb_queue (ft_fb (de_f d'))) = nq_items (fb_queue (ft_fb (de_f d))) @ fb)"

lemma keeps_refl [simp, intro]: "keeps d d" by (simp add: keeps_def)

lemma keeps_trans [trans]: "keeps d d1 \<Longrightarrow> keeps d1 d2 \<Longrightarrow> keeps d d2"
  by (auto simp: keeps_def)

lemma keeps_same: "de_dirs d' = de_dirs d \<Longrightarrow> de_sent d' = de_sent d \<Longrightarrow> ft_fb (de_f d') = ft_fb (de_f d) \<Longrightarrow> keeps d d'"
  by (simp add: keeps_def)

lemma on_tree_keeps: "on_tree g d = (r, d') \<Longrightarrow> keeps d d'"
  by (auto simp: on_tree_def intro: keeps_same split: prod.splits)

lemma fetchInstead_grows: "\<exists>fb. nq_items (fb_queue (fetchInstead m g i rel d)) = nq_items (fb_queue d) @ fb"
  by (auto simp: fetchInstead_def pushFallback_def Let_def split: option.splits prod.splits)

lemma fallbackFetch_keeps: "keeps d (d\<lparr>de_f := fallbackFetch g i rel (de_f d)\<rparr>)"
  using fetchInstead_grows by (auto simp: keeps_def fallbackFetch_def)

lemma fall_back_all_keeps: "keeps d (fall_back_all g os d)"
proof (induction os arbitrary: d)
  case (Cons o1 os)
  show ?case using keeps_trans [OF fallbackFetch_keeps Cons.IH] by (simp add: decider_fallbackFetch_def)
qed simp

lemma linkOrFallback_keeps: "keeps d (d\<lparr>de_f := linkOrFallback w g rel ps f\<rparr>)" if "ft_fb f = ft_fb (de_f d)"
  using that
proof (induction ps arbitrary: d f)
  case Nil
  then show ?case by (simp add: keeps_same)
next
  case (Cons p ps)
  obtain r t where m: "MakeHardlink w (pl_rel p) rel (ft_tree f) = (r, t)" by fastforce
  show ?case
  proof (cases r)
    case None
    then show ?thesis using Cons m by simp
  next
    case (Some c)
    let ?f = "fallbackFetch g (pl_fileID p) (pl_rel p) (f\<lparr>ft_tree := t\<rparr>)"
    have eq: "linkOrFallback w g rel (p # ps) f = linkOrFallback w g rel ps ?f" using Some m by simp
    have 1: "keeps (d\<lparr>de_f := f\<lparr>ft_tree := t\<rparr>\<rparr>) (d\<lparr>de_f := ?f\<rparr>)"
      using fallbackFetch_keeps [of "d\<lparr>de_f := f\<lparr>ft_tree := t\<rparr>\<rparr>"] by simp
    have 2: "keeps d (d\<lparr>de_f := f\<lparr>ft_tree := t\<rparr>\<rparr>)" using Cons.prems by (simp add: keeps_same)
    have 3: "keeps (d\<lparr>de_f := ?f\<rparr>) (d\<lparr>de_f := linkOrFallback w g rel ps ?f\<rparr>)"
      using Cons.IH [of ?f "d\<lparr>de_f := ?f\<rparr>"] by simp
    show ?thesis unfolding eq by (rule keeps_trans [OF 2 keeps_trans [OF 1 3]])
  qed
qed

lemma on_hl_keeps: "keeps d (on_hl g d)" by (simp add: on_hl_def keeps_same)

lemma set_meta_keeps: "keeps d (set_meta i fm d)" by (simp add: set_meta_def keeps_same)

lemma decideSymlink_keeps: "keeps d (decideSymlink cfg io rel e d)"
  unfolding decideSymlink_def Let_def
  by (auto simp: keeps_same dest!: on_tree_keeps split: prod.splits option.splits intro: keeps_trans)

lemma decideFileContent_keeps: "decideFileContent cfg io rel e d = (b, d') \<Longrightarrow> keeps d d'"
  unfolding decideFileContent_def
  by (auto simp: keeps_same split: sum.splits node.splits if_splits prod.splits)

lemma decide_link_keeps: "decide_link cfg io g rel i e d = (r, d') \<Longrightarrow> keeps d d'"
proof -
  assume run: "decide_link cfg io g rel i e d = (r, d')"
  consider "d' = d" | d1 where "keeps d d1" "d' = d1" | h where "d' = on_hl h d"
    | d1 h h' os where "keeps d d1" "d' = on_hl h (fall_back_all g os (on_hl h' d1))"
    using run unfolding decide_link_def Let_def
    by (auto split: if_splits option.splits prod.splits bool.splits dest!: on_tree_keeps)
  then show ?thesis using on_hl_keeps fall_back_all_keeps keeps_trans by cases (simp, simp, simp, metis)
qed

lemma decideFile_keeps: "decideFile cfg io g rel i e d = (b, d') \<Longrightarrow> keeps d d'"
proof -
  assume run: "decideFile cfg io g rel i e d = (b, d')"
  obtain r d1 where 1: "decide_link cfg io g rel i e d = (r, d1)" by fastforce
  show ?thesis
  proof (cases r)
    case (Inl need)
    then show ?thesis using run 1 decide_link_keeps [OF 1] by (simp add: decideFile_def)
  next
    case (Inr prim)
    obtain need d2 where 2: "decideFileContent cfg io rel e d1 = (need, d2)" by fastforce
    obtain ps h where 3: "registerMaterialised i rel (ft_hl (de_f d2)) = (ps, h)" by fastforce
    have "keeps d2 d'"
      using run 1 2 3 Inr keeps_trans [OF on_hl_keeps linkOrFallback_keeps]
      by (auto simp: decideFile_def decider_linkOrFallback_def split: if_splits)
    then show ?thesis using decide_link_keeps [OF 1] decideFileContent_keeps [OF 2] keeps_trans by blast
  qed
qed

definition counts_dir :: "verdict \<Rightarrow> nat" where "counts_dir v = (if v = Made then 1 else 0)"

text \<open>The effect of one entry on the same parts.\<close>

lemma decide_entry_frame:
  assumes "decide_entry cfg io g i e d = (v, d')"
  shows "de_dirs d' = de_dirs d + counts_dir v \<and> de_sent d' = de_sent d \<and>
    (\<exists>fb. nq_items (fb_queue (ft_fb (de_f d'))) = nq_items (fb_queue (ft_fb (de_f d))) @ fb)"
proof (cases "ValidatePath (me_Path e) (dg_plat cfg)")
  case (Some c)
  then show ?thesis using assms by (auto simp: decide_entry_def Let_def counts_dir_def)
next
  case None
  obtain r col where a: "Add (dg_nfc cfg) (dg_lower cfg) (me_Path e) (de_col d) = (r, col)" by fastforce
  let ?d = "d\<lparr>de_col := col\<rparr>" and ?fm = "file_meta (me_Path e) e"
  let ?dm = "if fm_hasHLKey ?fm then set_meta i ?fm ?d else ?d"
  have kd: "keeps d ?d" by (simp add: keeps_same)
  have km: "keeps d ?dm" using keeps_trans [OF kd set_meta_keeps] kd by simp
  obtain need d2 where f: "decideFile cfg io g (me_Path e) i e ?dm = (need, d2)" by fastforce
  note kf = keeps_trans [OF km decideFile_keeps [OF f]]
  consider (rej) c where "r = Some c" | (prior) "r = None" "dg_prior cfg i \<noteq> None"
    | (dir) "r = None" "dg_prior cfg i = None" "me_EntryType e = entryTypeDir"
    | (sym) "r = None" "dg_prior cfg i = None" "me_EntryType e \<noteq> entryTypeDir" "me_EntryType e = entryTypeSymlink"
    | (regular) "r = None" "dg_prior cfg i = None" "me_EntryType e \<noteq> entryTypeDir" "me_EntryType e \<noteq> entryTypeSymlink"
    by (metis not_None_eq)
  then show ?thesis
  proof cases
    case dir
    then have v: "v = Made" "d' = decideDir cfg io (me_Path e) e ?d"
      using assms None a by (auto simp: decide_entry_def Let_def entryTypeDir_def)
    have "de_dirs d' = de_dirs d + 1 \<and> de_sent d' = de_sent d \<and> ft_fb (de_f d') = ft_fb (de_f d)"
      unfolding v(2) decideDir_def Let_def by (auto simp: on_tree_def split: prod.splits)
    then show ?thesis by (simp add: v(1) counts_dir_def)
  next
    case sym
    then have v: "v = Skipped" "d' = decideSymlink cfg io (me_Path e) e ?d"
      using assms None a by (auto simp: decide_entry_def Let_def)
    then show ?thesis using keeps_trans [OF kd decideSymlink_keeps] by (simp add: keeps_def counts_dir_def)
  next
    case regular
    show ?thesis
    proof (cases need)
      case True
      then have "v = Needed" "d' = (if fm_hasHLKey ?fm then d2 else set_meta i ?fm d2)"
        using regular assms None a f by (auto simp: decide_entry_def Let_def)
      then show ?thesis using kf keeps_trans [OF kf set_meta_keeps] by (simp add: keeps_def counts_dir_def)
    next
      case False
      then have "v = Skipped" "d' = d2\<lparr>de_skipped := de_skipped d2 + 1\<rparr>"
        using regular assms None a f by (auto simp: decide_entry_def Let_def)
      then show ?thesis using kf by (simp add: keeps_def counts_dir_def)
    qed
  qed (use assms None a in \<open>auto simp: decide_entry_def Let_def counts_dir_def\<close>)
qed

section \<open>The decision of a group\<close>

fun is_Rejected :: "verdict \<Rightarrow> bool" where
  "is_Rejected (Rejected c) = True"
| "is_Rejected v = False"

text \<open>The positions, counted from \<open>i\<close>, of the verdicts with a property.\<close>

fun positions :: "(verdict \<Rightarrow> bool) \<Rightarrow> nat \<Rightarrow> verdict list \<Rightarrow> nat list" where
  "positions P i [] = []"
| "positions P i (v # vs) = (if P v then i # positions P (i + 1) vs else positions P (i + 1) vs)"

lemma positions_range: "j \<in> set (positions P i vs) \<Longrightarrow> i \<le> j \<and> j < i + length vs \<and> P (vs ! (j - i))"
proof (induction vs arbitrary: i)
  case (Cons v vs)
  show ?case
  proof (cases "j = i \<and> P v")
    case False
    then have "j \<in> set (positions P (i + 1) vs)" using Cons.prems by (auto split: if_splits)
    from Cons.IH [OF this] show ?thesis by (auto simp: nth_Cons' diff_diff_left)
  qed simp
qed simp

lemma positions_sorted: "sorted_wrt (<) (positions P i vs)"
proof (induction vs arbitrary: i)
  case (Cons v vs)
  then show ?case using positions_range [of _ P "i + 1" vs] by fastforce
qed simp

lemma positions_disjoint: "(\<And>v. \<not> (P v \<and> Q v)) \<Longrightarrow> set (positions P i vs) \<inter> set (positions Q i vs) = {}"
  using positions_range [of _ P i vs] positions_range [of _ Q i vs] by blast

lemma positions_count:
  "length (positions (\<lambda>v. v = Needed) i vs) + length (positions is_Rejected i vs) + count_list vs Skipped + sum_list (map counts_dir vs) = length vs"
proof (induction vs arbitrary: i)
  case (Cons v vs)
  then show ?case by (cases v) (simp_all add: counts_dir_def add.assoc)
qed simp

lemma item_key_mk: "item_key \<lparr>ni_fileID = i, ni_groupID = g, ni_size = n, ni_rel = r, ni_attempt = k\<rparr> = (i, g)"
  by (simp add: item_key_def)

lemma decide_loop_verdicts:
  assumes "decide_loop cfg io gid first i es a d = (a', d')"
  shows "\<exists>vs fb. length vs = length es \<and>
    da_needed a' = da_needed a @ map word_of_nat (positions (\<lambda>v. v = Needed) i vs) \<and>
    map rj_Index (da_rejected a') = map rj_Index (da_rejected a) @ map word_of_nat (positions is_Rejected i vs) \<and>
    da_skipped a' = da_skipped a + word_of_nat (count_list vs Skipped) \<and>
    map item_key (da_items a') = map item_key (da_items a) @ map (\<lambda>j. (first + word_of_nat j, gid)) (positions (\<lambda>v. v = Needed) i vs) \<and>
    de_dirs d' = de_dirs d + sum_list (map counts_dir vs) \<and> de_sent d' = de_sent d \<and>
    nq_items (fb_queue (ft_fb (de_f d'))) = nq_items (fb_queue (ft_fb (de_f d))) @ fb"
  using assms
proof (induction es arbitrary: i a d)
  case Nil
  then show ?case by (intro exI [of _ "[]"]) simp
next
  case (Cons e es)
  obtain v d1 where e: "decide_entry cfg io gid (first + word_of_nat i) e d = (v, d1)" by fastforce
  let ?a = "note_verdict gid (word_of_nat i) (first + word_of_nat i) e v a"
  have "decide_loop cfg io gid first (i + 1) es ?a d1 = (a', d')" using Cons.prems e by (simp add: Let_def)
  from Cons.IH [OF this] obtain vs fb where vs: "length vs = length es"
    "da_needed a' = da_needed ?a @ map word_of_nat (positions (\<lambda>v. v = Needed) (i + 1) vs)"
    "map rj_Index (da_rejected a') = map rj_Index (da_rejected ?a) @ map word_of_nat (positions is_Rejected (i + 1) vs)"
    "da_skipped a' = da_skipped ?a + word_of_nat (count_list vs Skipped)"
    "map item_key (da_items a') = map item_key (da_items ?a) @ map (\<lambda>j. (first + word_of_nat j, gid)) (positions (\<lambda>v. v = Needed) (i + 1) vs)"
    "de_dirs d' = de_dirs d1 + sum_list (map counts_dir vs)" "de_sent d' = de_sent d1"
    "nq_items (fb_queue (ft_fb (de_f d'))) = nq_items (fb_queue (ft_fb (de_f d1))) @ fb" by blast
  from decide_entry_frame [OF e] obtain fb0 where f: "de_dirs d1 = de_dirs d + counts_dir v" "de_sent d1 = de_sent d"
    "nq_items (fb_queue (ft_fb (de_f d1))) = nq_items (fb_queue (ft_fb (de_f d))) @ fb0" by blast
  show ?case using vs f
    by (intro exI [of _ "v # vs"] exI [of _ "fb0 @ fb"])
      (cases v, simp_all add: note_verdict_def item_key_mk)
qed

text \<open>The queue and the messages after the loop.\<close>

lemma reserve_group_frame:
  "reserve_group n d = (r, d') \<Longrightarrow> de_sent d' = de_sent d \<and> de_dirs d' = de_dirs d \<and>
     fb_queue (ft_fb (de_f d')) = fb_queue (ft_fb (de_f d)) \<and> ft_tree (de_f d') = ft_tree (de_f d)"
  by (auto simp: reserve_group_def split: option.splits prod.splits)

lemma push_credit_frame:
  assumes "push_credit cfg io items d = (r, d')"
  shows "de_dirs d' = de_dirs d \<and> (de_sent d' = de_sent d \<and> r \<noteq> DecideOK \<or>
      de_sent d' = de_sent d @ [M_Credit \<lparr>cr_AdditionalGroups = 1\<rparr>] \<and> r = DecideOK) \<and>
    (r = DecideOK \<and> \<not> dg_dryRun cfg \<longrightarrow> nq_items (fb_queue (ft_fb (de_f d'))) =
       nq_items (fb_queue (ft_fb (de_f d))) @ sort_key (\<lambda>i. - ni_size i) items)"
  using assms unfolding push_credit_def Let_def
  by (auto simp: on_queue_def split: if_splits push_result.splits option.splits dest!: pushGroup_Pushed)

lemma sorted_word_map:
  assumes "sorted_wrt (<) js" "\<forall>j\<in>set js. j < 65536"
  shows "sorted_wrt (<) (map (word_of_nat :: nat \<Rightarrow> u16) js)"
proof -
  have u: "unat (word_of_nat j :: u16) = j" if "j \<in> set js" for j using assms(2) that by (simp add: unat_of_nat)
  show ?thesis unfolding sorted_wrt_map
    by (rule sorted_wrt_mono_rel [OF _ assms(1)]) (simp add: word_less_nat_alt u)
qed

lemma ucast_word_of_nat16: "j < 65536 \<Longrightarrow> ucast (word_of_nat j :: u16) = (word_of_nat j :: u64)"
  by (simp add: unsigned_of_nat take_bit_nat_eq_self)

lemma decide_tail_frame:
  assumes "decide_tail cfg io a d = (r, d')"
  shows "\<exists>d3. de_sent d3 = de_sent d \<and> de_dirs d3 = de_dirs d \<and>
    nq_items (fb_queue (ft_fb (de_f d3))) = nq_items (fb_queue (ft_fb (de_f d))) \<and>
    (d' = d3 \<and> r \<noteq> DecideOK \<or> push_credit cfg io (da_items a) d3 = (r, d'))"
proof (cases "dv_sync io")
  case None
  obtain c d3 where g: "(if da_bytes a > 0 then reserve_group (da_bytes a) d else (None, d)) = (c, d3)" by fastforce
  then have "de_sent d3 = de_sent d \<and> de_dirs d3 = de_dirs d \<and> fb_queue (ft_fb (de_f d3)) = fb_queue (ft_fb (de_f d))"
    using reserve_group_frame [of "da_bytes a" d c d3] by (auto split: if_splits)
  moreover have "d' = d3 \<and> r \<noteq> DecideOK \<or> push_credit cfg io (da_items a) d3 = (r, d')"
    using assms None g unfolding decide_tail_def by (cases c) auto
  ultimately show ?thesis by metis
qed (use assms in \<open>auto simp: decide_tail_def\<close>)

text \<open>The decision built from the verdicts.\<close>

lemma group_decision_shape:
  assumes vs: "length vs = n" "da_needed a = map word_of_nat (positions (\<lambda>v. v = Needed) 0 vs)"
    "map rj_Index (da_rejected a) = map word_of_nat (positions is_Rejected 0 vs)"
    "da_skipped a = word_of_nat (count_list vs Skipped)"
    "map item_key (da_items a) = map (\<lambda>j. (gm_FirstFileID gm + word_of_nat j, gm_GroupID gm)) (positions (\<lambda>v. v = Needed) 0 vs)"
    and len: "n \<le> 65535"
  defines "gd \<equiv> group_decision gm a"
  shows "sorted_wrt (<) (gd_Needed gd)" "distinct (map rj_Index (gd_Rejected gd))"
    "set (gd_Needed gd) \<inter> rj_Index ` set (gd_Rejected gd) = {}"
    "\<forall>x\<in>set (gd_Needed gd) \<union> rj_Index ` set (gd_Rejected gd). unat x < n"
    "length (gd_Needed gd) + length (gd_Rejected gd) + unat (gd_SkippedCount gd) + sum_list (map counts_dir vs) = n"
    "mset (map item_key (sort_key (\<lambda>i. - ni_size i) (da_items a))) = mset (map (\<lambda>x. (gm_FirstFileID gm + ucast x, gm_GroupID gm)) (gd_Needed gd))"
proof -
  let ?N = "positions (\<lambda>v. v = Needed) 0 vs" and ?R = "positions is_Rejected 0 vs"
  have lt: "j < 65536" "j < n" if "j \<in> set (positions P 0 vs)" for j P
    using positions_range [OF that] vs(1) len by simp_all
  have u: "unat (word_of_nat j :: u16) = j" if "j \<in> set (positions P 0 vs)" for j P using lt [OF that] by (simp add: unat_of_nat)
  have srt: "sorted_wrt (<) (map (word_of_nat :: nat \<Rightarrow> u16) (positions P 0 vs))" for P
    by (rule sorted_word_map [OF positions_sorted]) (use lt in blast)
  have "sort (da_needed a) = da_needed a"
    unfolding vs(2) by (intro sorted_sort_id) (metis srt strict_sorted_imp_sorted)
  then have gd: "gd_Needed gd = map word_of_nat ?N" "map rj_Index (gd_Rejected gd) = map word_of_nat ?R"
    using vs(2,3) by (simp_all add: gd_def group_decision_def)
  have rset: "rj_Index ` set (gd_Rejected gd) = set (map word_of_nat ?R)" by (metis gd(2) list.set_map)
  show "sorted_wrt (<) (gd_Needed gd)" unfolding gd(1) by (rule srt)
  show "distinct (map rj_Index (gd_Rejected gd))" unfolding gd(2) using strict_sorted_iff srt by blast
  have "set (map word_of_nat ?N :: u16 list) \<inter> set (map word_of_nat ?R) = {}"
  proof (rule ccontr)
    assume "\<not> ?thesis"
    then obtain i j where "i \<in> set ?N" "j \<in> set ?R" "(word_of_nat i :: u16) = word_of_nat j" by auto
    then have "i \<in> set ?N \<inter> set ?R" using u by (metis IntI)
    then show False using positions_disjoint [of "\<lambda>v. v = Needed" is_Rejected 0 vs] by fastforce
  qed
  then show "set (gd_Needed gd) \<inter> rj_Index ` set (gd_Rejected gd) = {}" unfolding rset gd(1) .
  show "\<forall>x\<in>set (gd_Needed gd) \<union> rj_Index ` set (gd_Rejected gd). unat x < n" unfolding rset gd(1) using u lt by auto
  have "unat (gd_SkippedCount gd) = count_list vs Skipped"
    using count_le_length [of vs Skipped] vs(1,4) len by (simp add: gd_def group_decision_def unat_of_nat)
  moreover have "length (gd_Rejected gd) = length ?R" by (metis gd(2) length_map)
  ultimately show "length (gd_Needed gd) + length (gd_Rejected gd) + unat (gd_SkippedCount gd) + sum_list (map counts_dir vs) = n"
    using positions_count [of 0 vs] vs(1) by (simp add: gd(1))
  have "mset (map item_key (sort_key (\<lambda>i. - ni_size i) (da_items a))) = mset (map item_key (da_items a))" by simp
  also have "\<dots> = mset (map (\<lambda>x. (gm_FirstFileID gm + ucast x, gm_GroupID gm)) (map (word_of_nat :: nat \<Rightarrow> u16) ?N))"
    unfolding vs(5) map_map comp_def using lt ucast_word_of_nat16 by (intro arg_cong [of _ _ mset] map_cong) auto
  finally show "mset (map item_key (sort_key (\<lambda>i. - ni_size i) (da_items a))) =
      mset (map (\<lambda>x. (gm_FirstFileID gm + ucast x, gm_GroupID gm)) (gd_Needed gd))" unfolding gd(1) .
qed

lemma decideGroup_decision:
  assumes run: "decideGroup cfg io gm d = (r, d')" and sent: "dv_decision io = None" and len: "length (gm_Entries gm) \<le> 65535"
  shows "\<exists>gd rest fb added. de_sent d' = de_sent d @ M_GroupDecision gd # rest \<and> gd_GroupID gd = gm_GroupID gm \<and>
    rest = (if r = DecideOK then [M_Credit \<lparr>cr_AdditionalGroups = 1\<rparr>] else []) \<and>
    sorted_wrt (<) (gd_Needed gd) \<and> distinct (map rj_Index (gd_Rejected gd)) \<and>
    set (gd_Needed gd) \<inter> rj_Index ` set (gd_Rejected gd) = {} \<and>
    (\<forall>x\<in>set (gd_Needed gd) \<union> rj_Index ` set (gd_Rejected gd). unat x < length (gm_Entries gm)) \<and>
    length (gd_Needed gd) + length (gd_Rejected gd) + unat (gd_SkippedCount gd) + (de_dirs d' - de_dirs d) = length (gm_Entries gm) \<and>
    (r = DecideOK \<and> \<not> dg_dryRun cfg \<longrightarrow>
       nq_items (fb_queue (ft_fb (de_f d'))) = nq_items (fb_queue (ft_fb (de_f d))) @ fb @ added \<and>
       mset (map item_key added) = mset (map (\<lambda>x. (gm_FirstFileID gm + ucast x, gm_GroupID gm)) (gd_Needed gd)))"
proof -
  let ?n = "length (gm_Entries gm)" and ?q = "\<lambda>d. nq_items (fb_queue (ft_fb (de_f d)))"
  obtain a d1 where loop: "decide_loop cfg io (gm_GroupID gm) (gm_FirstFileID gm) 0 (gm_Entries gm) no_acc d = (a, d1)" by fastforce
  from decide_loop_verdicts [OF loop] obtain vs fb where vs: "length vs = ?n"
    "da_needed a = map word_of_nat (positions (\<lambda>v. v = Needed) 0 vs)"
    "map rj_Index (da_rejected a) = map word_of_nat (positions is_Rejected 0 vs)"
    "da_skipped a = word_of_nat (count_list vs Skipped)"
    "map item_key (da_items a) = map (\<lambda>j. (gm_FirstFileID gm + word_of_nat j, gm_GroupID gm)) (positions (\<lambda>v. v = Needed) 0 vs)"
    "de_dirs d1 = de_dirs d + sum_list (map counts_dir vs)" "de_sent d1 = de_sent d" "?q d1 = ?q d @ fb"
    by (auto simp: no_acc_def)
  let ?d2 = "(grow_totals a d1)\<lparr>de_sent := de_sent d @ [M_GroupDecision (group_decision gm a)]\<rparr>"
  have d2: "de_dirs ?d2 = de_dirs d1" "?q ?d2 = ?q d1" by (simp_all add: grow_totals_def)
  have go: "decideGroup cfg io gm d = decide_tail cfg io a ?d2"
    using loop sent vs(7) by (simp add: decideGroup_def Let_def grow_totals_def)
  from decide_tail_frame [OF run [unfolded go]] have "\<exists>d3. de_sent d3 = de_sent ?d2 \<and> de_dirs d3 = de_dirs d1 \<and> ?q d3 = ?q d1 \<and>
      (d' = d3 \<and> r \<noteq> DecideOK \<or> push_credit cfg io (da_items a) d3 = (r, d'))" unfolding d2 .
  then obtain d3 where d3: "de_sent d3 = de_sent ?d2" "de_dirs d3 = de_dirs d1" "?q d3 = ?q d1"
    and last: "d' = d3 \<and> r \<noteq> DecideOK \<or> push_credit cfg io (da_items a) d3 = (r, d')" by blast
  have post: "de_dirs d' = de_dirs d1" "de_sent d' = de_sent ?d2 @ (if r = DecideOK then [M_Credit \<lparr>cr_AdditionalGroups = 1\<rparr>] else [])"
    "r = DecideOK \<and> \<not> dg_dryRun cfg \<longrightarrow> ?q d' = ?q d1 @ sort_key (\<lambda>i. - ni_size i) (da_items a)"
    using last d3 push_credit_frame [of cfg io "da_items a" d3 r d'] by auto
  note shape = group_decision_shape [OF vs(1-5) len]
  show ?thesis
    by (intro exI [of _ "group_decision gm a"] exI [of _ "if r = DecideOK then [M_Credit \<lparr>cr_AdditionalGroups = 1\<rparr>] else []"]
        exI [of _ fb] exI [of _ "sort_key (\<lambda>i. - ni_size i) (da_items a)"] conjI)
      (use post vs(6,8) shape in \<open>simp_all add: group_decision_def [of gm a, THEN arg_cong [of _ _ gd_GroupID]]\<close>)
qed

text \<open>
  C9. The decision partitions the group. In the GROUP_DECISION that is sent, the needed indices ascend
  strictly, the rejected ones are distinct from each other and from the needed ones, all lie inside the
  group, and needed, rejected, skipped entries and directories add up to the whole group. One credit
  follows exactly when the pass ends well, and then, unless it is a dry run, the queue has grown by
  exactly the needed files under their ids (behind hard-link fallbacks).
\<close>

theorem decision_partitions:
  assumes run: "decideGroup cfg io gm d = (r, d')" and sent: "dv_decision io = None" and len: "length (gm_Entries gm) \<le> 65535"
  shows "\<exists>gd rest fb added. de_sent d' = de_sent d @ M_GroupDecision gd # rest \<and> gd_GroupID gd = gm_GroupID gm \<and>
    rest = (if r = DecideOK then [M_Credit \<lparr>cr_AdditionalGroups = 1\<rparr>] else []) \<and>
    sorted_wrt (<) (gd_Needed gd) \<and> distinct (map rj_Index (gd_Rejected gd)) \<and>
    set (gd_Needed gd) \<inter> rj_Index ` set (gd_Rejected gd) = {} \<and>
    (\<forall>x\<in>set (gd_Needed gd) \<union> rj_Index ` set (gd_Rejected gd). unat x < length (gm_Entries gm)) \<and>
    length (gd_Needed gd) + length (gd_Rejected gd) + unat (gd_SkippedCount gd) + (de_dirs d' - de_dirs d) = length (gm_Entries gm) \<and>
    (r = DecideOK \<and> \<not> dg_dryRun cfg \<longrightarrow>
       nq_items (fb_queue (ft_fb (de_f d'))) = nq_items (fb_queue (ft_fb (de_f d))) @ fb @ added \<and>
       mset (map item_key added) = mset (map (\<lambda>x. (gm_FirstFileID gm + ucast x, gm_GroupID gm)) (gd_Needed gd)))"
  using decideGroup_decision [OF assms] .

definition idle_fetcher :: fetcher where
  "idle_fetcher = \<lparr>ft_tree = Map.empty, ft_meta = newMetaStore, ft_hl = newHardlinkMap,
     ft_fb = \<lparr>fb_guard = Some (newSpaceGuard 1000 10), fb_queue = newNeedQueue 8, fb_failed = 0, fb_neededBytes = 0, fb_neededFiles = 0\<rparr>,
     ft_journal = None, ft_reqID = 0, ft_sent = [], ft_bytes = 0, ft_transferred = 0, ft_retries = 0, ft_retriesOK = 0,
     ft_completed = [], ft_fatal = None\<rparr>"

definition sample_decider :: decider where
  "sample_decider = \<lparr>de_f = idle_fetcher, de_col = NewCollisions PlatformLinux, de_cache = None, de_dirMeta = Map.empty,
     de_rejected = 0, de_skipped = 0, de_dirs = 0, de_symlinks = 0, de_symlinksRejected = 0, de_sent = []\<rparr>"

definition sample_decide_cfg :: decide_cfg where
  "sample_decide_cfg = \<lparr>dg_plat = PlatformLinux, dg_quick = False, dg_dryRun = False, dg_allowUnsafe = False, dg_prior = Map.empty,
     dg_algo = MD5, dg_hashes = sample_hashes, dg_nfc = (\<lambda>x. x), dg_lower = (\<lambda>x. x)\<rparr>"

definition sample_decide_io :: decide_io where
  "sample_decide_io = \<lparr>dv_sys = (\<lambda>_. None), dv_hash = (\<lambda>_. sample_hash_io), dv_decision = None, dv_sync = None, dv_credit = None\<rparr>"

definition sample_manifest_entry :: "u8 \<Rightarrow> bytes \<Rightarrow> u64 \<Rightarrow> ManifestEntry" where
  "sample_manifest_entry t p n = \<lparr>me_EntryType = t, me_Flags = 0, me_Path = p, me_Size = n, me_Mode = 0x1A4, me_MtimeSec = 5,
     me_MtimeNsec = 0, me_Digest = [3], me_LinkTarget = [], me_HardlinkKey = 0\<rparr>"

definition sample_group :: GroupManifest where
  "sample_group = \<lparr>gm_GroupID = 4, gm_FirstFileID = 10, gm_Entries =
     [sample_manifest_entry 1 (str ''d'') 0, sample_manifest_entry 0 (str ''../x'') 5, sample_manifest_entry 0 (str ''d/f'') 3]\<rparr>"

theorem decision_partitions_witness:
  "\<exists>r d' gd rest. decideGroup sample_decide_cfg sample_decide_io sample_group sample_decider = (r, d') \<and>
     de_sent d' = M_GroupDecision gd # rest \<and>
     length (gd_Needed gd) + length (gd_Rejected gd) + unat (gd_SkippedCount gd) + de_dirs d' = 3"
proof -
  obtain r d' where 1: "decideGroup sample_decide_cfg sample_decide_io sample_group sample_decider = (r, d')" by fastforce
  have 2: "dv_decision sample_decide_io = None" "length (gm_Entries sample_group) \<le> 65535"
    by (simp_all add: sample_decide_io_def sample_group_def)
  from decision_partitions [OF 1 2] 1 show ?thesis
    by (fastforce simp: sample_decider_def sample_group_def)
qed

section \<open>Skipping\<close>

text \<open>
  C10. Nothing is skipped that is not there: when the content check says that a file need not be fetched,
  the destination has a regular file at that path with the size of the manifest, and either \<^verbatim>\<open>--quick\<close> is
  set and the times agree, or the file is empty and the manifest has no digest for it, or the manifest
  digest is the hash of exactly the bytes at the destination (with a coherent digest cache).
\<close>

theorem skip_sound:
  assumes run: "decideFileContent cfg io rel e d = (False, d')" and co: "coherent (dg_hashes cfg) version (de_cache d)"
    and reads: "\<And>c m mt. ft_tree (de_f d) rel = Some (File c m mt) \<Longrightarrow> concat (hi_reads (dv_hash io rel)) = c"
    and key: "\<And>k. statKey (dv_hash io rel) (dg_algo cfg) = Some k \<Longrightarrow> version k = concat (hi_reads (dv_hash io rel))"
  shows "\<exists>c m mt. ft_tree (de_f d) rel = Some (File c m mt) \<and> int (length c) = i64_of_u64 (me_Size e) \<and>
    (dg_quick cfg \<and> mtimeEqual mt e \<or> me_Digest e = [] \<and> c = [] \<or>
     (\<exists>h. New_hash (dg_hashes cfg) (dg_algo cfg) = Inr h \<and> me_Digest e = h c))"
proof -
  obtain c m mt where f: "Lstat (dv_sys io) (ft_tree (de_f d)) rel = Inr (File c m mt)"
    using run by (auto simp: decideFileContent_def split: sum.splits node.splits)
  then have t: "ft_tree (de_f d) rel = Some (File c m mt)" by (auto simp: Lstat_def split: option.splits)
  have sz: "int (length c) = i64_of_u64 (me_Size e)" using run f by (auto simp: decideFileContent_def split: if_splits)
  obtain r cache where h: "HashFile (dg_hashes cfg) (dv_hash io rel) (dg_algo cfg) (de_cache d) = (r, cache)" by fastforce
  consider (quick) "dg_quick cfg \<and> mtimeEqual mt e" | (empty) "me_Digest e = []" "me_Size e = 0" | (hash) "r = Inr (me_Digest e)"
    using run f h by (cases r) (auto simp: decideFileContent_def split: if_splits)
  then show ?thesis
  proof cases
    case empty
    then have "c = []" using sz by (simp add: i64_of_u64_def wrap64_def)
    then show ?thesis using t sz empty by blast
  next
    case hash
    then show ?thesis using HashFile_sound [OF h co key] reads [OF t] t sz by auto
  qed (use t sz in blast)
qed

definition sample_decider_file :: decider where
  "sample_decider_file = sample_decider\<lparr>de_f := idle_fetcher\<lparr>ft_tree := [str ''f'' \<mapsto> File [1, 2, 3] 0 (0, 0)]\<rparr>\<rparr>"

theorem skip_sound_witness:
  "decideFileContent sample_decide_cfg sample_decide_io (str ''f'') (sample_manifest_entry 0 (str ''f'') 3) sample_decider_file =
     (False, sample_decider_file) \<and> int (length [1, 2, 3 :: byte]) = i64_of_u64 3"
proof -
  let ?e = "sample_manifest_entry 0 (str ''f'') 3"
  have t: "ft_tree (de_f sample_decider_file) (str ''f'') = Some (File [1, 2, 3] 0 (0, 0))" by (simp add: sample_decider_file_def)
  have 1: "decideFileContent sample_decide_cfg sample_decide_io (str ''f'') ?e sample_decider_file = (False, sample_decider_file)"
    by (simp add: decideFileContent_def Lstat_def sample_decide_io_def sample_decide_cfg_def sample_decider_file_def sample_decider_def
        sample_manifest_entry_def i64_of_u64_def wrap64_def HashFile_def New_hash_def sample_hash_io_def sample_hashes_def Let_def)
  have 2: "coherent (dg_hashes sample_decide_cfg) (\<lambda>_. [1, 2, 3]) (de_cache sample_decider_file)"
    by (simp add: coherent_def cache_Get_def sample_decider_file_def sample_decider_def)
  have 3: "concat (hi_reads (dv_hash sample_decide_io (str ''f''))) = [1, 2, 3]" by (simp add: sample_decide_io_def sample_hash_io_def)
  have "\<exists>c m mt. ft_tree (de_f sample_decider_file) (str ''f'') = Some (File c m mt) \<and> int (length c) = i64_of_u64 (me_Size ?e)"
    using skip_sound [OF 1 2] t 3 by fastforce
  then show ?thesis using 1 t by (simp add: sample_manifest_entry_def)
qed

end
