(* ===== verification/Decide_Props.thy ===== *)
theory Decide_Props
  imports Decide
begin

text \<open>
  What the decide pass means for the components around it: the sender's tracker, the hard-link map that the
  fetch workers share, and the destination of a dry run.
\<close>

section \<open>Agreement with the sender\<close>

lemma mark_needed_set: "tr_needed (mark_needed first gid is t) = tr_needed t \<union> (\<lambda>x. first + ucast x) ` set is"
  by (induction "is" arbitrary: t) (auto simp: Let_def)



section \<open>Dry runs\<close>

text \<open>Nothing in the destination changes and nothing is queued.\<close>

definition quiet :: "decider \<Rightarrow> decider \<Rightarrow> bool" where
  "quiet d d' \<longleftrightarrow> ft_tree (de_f d') = ft_tree (de_f d) \<and> fb_queue (ft_fb (de_f d')) = fb_queue (ft_fb (de_f d))"

lemma quiet_refl [simp]: "quiet d d" by (simp add: quiet_def)

lemma quiet_trans: "quiet d d1 \<Longrightarrow> quiet d1 d2 \<Longrightarrow> quiet d d2" by (simp add: quiet_def)

lemma decideFileContent_quiet: "decideFileContent cfg io rel e d = (b, d') \<Longrightarrow> quiet d d'"
  by (auto simp: decideFileContent_def quiet_def split: sum.splits node.splits if_splits prod.splits)

lemma decide_link_quiet: "decide_link cfg io g rel i e d = (r, d') \<Longrightarrow> dg_dryRun cfg \<Longrightarrow> quiet d d'"
  by (auto simp: decide_link_def quiet_def on_hl_def Let_def split: if_splits option.splits prod.splits bool.splits)

lemma decideFile_quiet: "decideFile cfg io g rel i e d = (b, d') \<Longrightarrow> dg_dryRun cfg \<Longrightarrow> quiet d d'"
  unfolding decideFile_def
  by (auto split: prod.splits sum.splits dest!: decide_link_quiet decideFileContent_quiet intro: quiet_trans)

lemma decide_entry_quiet: "decide_entry cfg io g i e d = (v, d') \<Longrightarrow> dg_dryRun cfg \<Longrightarrow> quiet d d'"
  unfolding decide_entry_def Let_def
  by (auto simp: decideDir_def decideSymlink_def set_meta_def quiet_def Let_def
      split: option.splits prod.splits if_splits bool.splits dest!: decideFile_quiet)

lemma decide_loop_quiet: "decide_loop cfg io g first i es a d = (a', d') \<Longrightarrow> dg_dryRun cfg \<Longrightarrow> quiet d d'"
proof (induction es arbitrary: i a d)
  case (Cons e es)
  obtain v d1 where e: "decide_entry cfg io g (first + word_of_nat i) e d = (v, d1)" by fastforce
  then have "quiet d1 d'" using Cons by (simp add: Let_def)
  then show ?case using decide_entry_quiet [OF e Cons.prems(2)] quiet_trans by blast
qed simp

text \<open>
  A dry run touches nothing: whatever the manifest holds and whatever fails, deciding a group with
  \<^verbatim>\<open>--dry-run\<close> leaves the destination tree and the need queue as they were.
\<close>

theorem dry_run_pure:
  assumes run: "decideGroup cfg io gm d = (r, d')" and dry: "dg_dryRun cfg"
  shows "ft_tree (de_f d') = ft_tree (de_f d) \<and> fb_queue (ft_fb (de_f d')) = fb_queue (ft_fb (de_f d))"
proof -
  obtain a d1 where loop: "decide_loop cfg io (gm_GroupID gm) (gm_FirstFileID gm) 0 (gm_Entries gm) no_acc d = (a, d1)" by fastforce
  have push: "push_credit cfg io items d2 = (r, d3) \<Longrightarrow> quiet d2 d3" for items d2 r d3
    using dry by (auto simp: push_credit_def quiet_def split: option.splits)
  have tail: "quiet d2 d3" if "decide_tail cfg io a d2 = (r, d3)" for d2 r d3
  proof -
    obtain c d4 where g: "(if da_bytes a > 0 then reserve_group (da_bytes a) d2 else (None, d2)) = (c, d4)" by fastforce
    then have "quiet d2 d4" using reserve_group_frame [of "da_bytes a" d2 c d4] by (auto simp: quiet_def split: if_splits)
    then show ?thesis using that g push quiet_trans by (auto simp: decide_tail_def split: option.splits)
  qed
  have "quiet d1 d'"
    using run loop tail [of _ r d'] by (auto simp: decideGroup_def Let_def quiet_def grow_totals_def split: option.splits)
  then show ?thesis using quiet_trans [OF decide_loop_quiet [OF loop dry]] by (simp add: quiet_def)
qed

theorem dry_run_pure_witness:
  "\<exists>r d'. decideGroup (sample_decide_cfg\<lparr>dg_dryRun := True\<rparr>) sample_decide_io sample_group sample_decider = (r, d') \<and>
     ft_tree (de_f d') = Map.empty"
proof -
  obtain r d' where 1: "decideGroup (sample_decide_cfg\<lparr>dg_dryRun := True\<rparr>) sample_decide_io sample_group sample_decider = (r, d')"
    by fastforce
  from dry_run_pure [OF 1] 1 show ?thesis by (simp add: sample_decider_def idle_fetcher_def)
qed

section \<open>The shared hard-link map\<close>

lemma fall_back_all_hl: "ft_hl (de_f (fall_back_all g os d)) = ft_hl (de_f d)"
  by (induction os arbitrary: d) (auto simp: decider_fallbackFetch_def fallbackFetch_def)

lemma linkOrFallback_hl: "ft_hl (linkOrFallback w g rel ps f) = ft_hl f"
  by (induction ps arbitrary: f) (auto simp: fallbackFetch_def split: prod.splits option.splits)

lemma decide_link_steps:
  assumes run: "decide_link cfg io g rel i e d = (r, d')" and s: "hs_map s = ft_hl (de_f d)"
    and key: "hl_fileKey (hs_map s) i \<in> {None, Some (me_HardlinkKey e)}"
  shows "\<exists>s'. hl_step\<^sup>*\<^sup>* s s' \<and> hs_map s' = ft_hl (de_f d')"
proof -
  let ?k = "me_HardlinkKey e" and ?h = "ft_hl (de_f d)"
  have tr: "on_tree f d = (c, d1) \<Longrightarrow> ft_hl (de_f d1) = ?h" for f c d1 by (auto simp: on_tree_def split: prod.splits)
  consider (same) "ft_hl (de_f d') = ?h" | (mark) "ft_hl (de_f d') = markPrimary i ?k ?h"
    | (claim) h where "claimSecondary ?k i rel ?h = (True, h)" "ft_hl (de_f d') = h"
    | (clear) os h where "Hardlinks.clear ?k ?h = (os, h)" "ft_hl (de_f d') = markPrimary i ?k h"
    using run unfolding decide_link_def Let_def
    by (auto simp: on_hl_def fall_back_all_hl split: if_splits option.splits prod.splits bool.splits dest!: tr)
  then show ?thesis
  proof cases
    case same
    then show ?thesis using s by auto
  next
    case mark
    then show ?thesis using hl_step.mark [OF key] s by (metis (no_types) hl_state.select_convs(1) hl_state.surjective hl_state.update_convs(1,2) r_into_rtranclp)
  next
    case claim
    then have "hl_step s (s\<lparr>hs_map := h, hs_claimed := hs_claimed s + (if True then {#\<lparr>pl_fileID = i, pl_rel = rel\<rparr>#} else {#})\<rparr>)"
      using hl_step.claim [of ?k i rel s True h] s by simp
    then show ?thesis using claim(2) by (intro exI conjI) (erule r_into_rtranclp, simp)
  next
    case clear
    let ?s1 = "s\<lparr>hs_map := h, hs_handed := hs_handed s + mset os\<rparr>"
    have 1: "hl_step s ?s1" using hl_step.clear [of ?k s os h] clear(1) s by simp
    have "hl_fileKey h = hl_fileKey ?h" using clear(1) by (auto simp: Hardlinks.clear_def)
    then have "hl_fileKey (hs_map ?s1) i \<in> {None, Some ?k}" using key s by simp
    from hl_step.mark [OF this] show ?thesis using 1 clear(2)
      by (intro exI conjI) (rule converse_rtranclp_into_rtranclp, assumption, erule r_into_rtranclp, simp)
  qed
qed

text \<open>
  The decide pass uses the hard-link map only as the invariant of that map allows: deciding a file is a
  sequence of the atomic steps (claim, mark, clear, publish) whose interleavings with the fetch workers
  never lose a secondary.
\<close>

theorem decideFile_hl_steps:
  assumes run: "decideFile cfg io g rel i e d = (b, d')" and reach: "hl_reach s" and s: "hs_map s = ft_hl (de_f d)"
    and key: "hl_fileKey (hs_map s) i \<in> {None, Some (me_HardlinkKey e)}"
  shows "\<exists>s'. hl_step\<^sup>*\<^sup>* s s' \<and> hl_reach s' \<and> hs_map s' = ft_hl (de_f d')"
proof -
  obtain r d1 where 1: "decide_link cfg io g rel i e d = (r, d1)" by fastforce
  obtain s1 where s1: "hl_step\<^sup>*\<^sup>* s s1" "hs_map s1 = ft_hl (de_f d1)" using decide_link_steps [OF 1 s key] by blast
  obtain need d2 where 2: "decideFileContent cfg io rel e d1 = (need, d2)" by fastforce
  have d2: "ft_hl (de_f d2) = ft_hl (de_f d1)"
    using 2 by (auto simp: decideFileContent_def split: sum.splits node.splits if_splits prod.splits)
  obtain ps h where 3: "registerMaterialised i rel (ft_hl (de_f d2)) = (ps, h)" by fastforce
  consider "ft_hl (de_f d') = ft_hl (de_f d1)" | "ft_hl (de_f d') = h"
    using run 1 2 3 d2 by (auto simp: decideFile_def decider_linkOrFallback_def linkOrFallback_hl on_hl_def split: sum.splits if_splits)
  then have ex: "\<exists>s'. hl_step\<^sup>*\<^sup>* s s' \<and> hs_map s' = ft_hl (de_f d')"
  proof cases
    case 1
    then show ?thesis using s1 by auto
  next
    case 2
    have "hl_step s1 (s1\<lparr>hs_map := h, hs_live := hs_live s1 - {i}, hs_handed := hs_handed s1 + mset ps\<rparr>)"
      using hl_step.publish [of i rel s1 ps h] 3 s1(2) d2 by simp
    then show ?thesis using s1(1) 2 by (intro exI conjI) (erule (1) rtranclp.rtrancl_into_rtrancl, simp)
  qed
  have "hl_step\<^sup>*\<^sup>* s s' \<Longrightarrow> hl_reach s'" for s' by (induction rule: rtranclp_induct) (auto intro: reach hl_reach.step)
  then show ?thesis using ex by blast
qed

theorem decideFile_hl_steps_witness:
  "\<exists>b d' s'. decideFile sample_decide_cfg sample_decide_io 0 (str ''f'')  7 ((sample_manifest_entry 0 (str ''f'') 3)\<lparr>me_Flags := 1, me_HardlinkKey := 5\<rparr>)
     sample_decider = (b, d') \<and> hl_reach s' \<and> hs_map s' = ft_hl (de_f d')"
proof -
  let ?e = "(sample_manifest_entry 0 (str ''f'') 3)\<lparr>me_Flags := 1, me_HardlinkKey := 5\<rparr>"
  obtain b d' where 1: "decideFile sample_decide_cfg sample_decide_io 0 (str ''f'') 7 ?e sample_decider = (b, d')" by fastforce
  have 2: "hs_map hl_init = ft_hl (de_f sample_decider)" "hl_fileKey (hs_map hl_init) 7 \<in> {None, Some (me_HardlinkKey ?e)}"
    by (simp_all add: hl_init_def newHardlinkMap_def sample_decider_def idle_fetcher_def)
  from decideFile_hl_steps [OF 1 hl_reach.init 2] 1 show ?thesis by blast
qed

end
