(* ===== verification/Handshake.thy ===== *)
theory Handshake
  imports Wire_Messages
begin

text \<open>
  The authenticated key agreement (\<^verbatim>\<open>internal/crypto/handshake\<close>) and the fixed-size message forms of
  \<^verbatim>\<open>internal/wire/handshake.go\<close>. X25519, HKDF, HMAC-SHA-256 and SHA-256 are a parameter \<open>prims\<close>; random
  values, the bytes the peer sends and failing writes are inputs. Deadlines only decide whether a missing
  byte is a timeout; the constant-time comparisons are equality.
\<close>

unbundle bit_operations_syntax

section \<open>Primitives\<close>

record prims =
  pr_public :: "bytes \<Rightarrow> bytes"
  pr_valid_public :: "bytes \<Rightarrow> bool"
  pr_ecdh :: "bytes \<Rightarrow> bytes \<Rightarrow> bytes option"
  pr_extract :: "bytes \<Rightarrow> bytes \<Rightarrow> bytes option"
  pr_expand :: "bytes \<Rightarrow> bytes \<Rightarrow> bytes option"
  pr_hmac :: "bytes \<Rightarrow> bytes \<Rightarrow> bytes"
  pr_sha256 :: "bytes \<Rightarrow> bytes"

section \<open>The wire forms\<close>

definition ClientHelloLen :: nat where "ClientHelloLen = 78"
definition ServerHelloLen :: nat where "ServerHelloLen = 65"
definition ConfirmLen :: nat where "ConfirmLen = 32"
definition ChannelJoinLen :: nat where "ChannelJoinLen = 63"
definition ChannelAcceptLen :: nat where "ChannelAcceptLen = 32"

lemmas hello_lens = ClientHelloLen_def ServerHelloLen_def ConfirmLen_def ChannelJoinLen_def ChannelAcceptLen_def

record ClientHello =
  ch_Version :: u8
  ch_SessionID :: bytes
  ch_NonceC :: bytes
  ch_Pc :: bytes

definition ClientHello_Encode :: "ClientHello \<Rightarrow> bytes" where
  "ClientHello_Encode h = Magic @ [ch_Version h] @ ch_SessionID h @ ch_NonceC h @ ch_Pc h"

definition DecodeClientHello :: "bytes \<Rightarrow> Code + ClientHello" where
  "DecodeClientHello b =
     (if length b \<noteq> ClientHelloLen \<or> take (length Magic) b \<noteq> Magic then Inl E5003
      else let p = length Magic in
        Inr \<lparr>ch_Version = b ! p, ch_SessionID = subslice (p + 1) (p + 9) b, ch_NonceC = subslice (p + 9) (p + 41) b,
          ch_Pc = subslice (p + 41) (p + 73) b\<rparr>)"

record ServerHello =
  sh_Version :: u8
  sh_NonceS :: bytes
  sh_Ps :: bytes

definition ServerHello_Encode :: "ServerHello \<Rightarrow> bytes" where
  "ServerHello_Encode h = [sh_Version h] @ sh_NonceS h @ sh_Ps h"

definition DecodeServerHello :: "bytes \<Rightarrow> Code + ServerHello" where
  "DecodeServerHello b =
     (if length b \<noteq> ServerHelloLen then Inl E5003
      else Inr \<lparr>sh_Version = b ! 0, sh_NonceS = subslice 1 33 b, sh_Ps = subslice 33 65 b\<rparr>)"

definition DecodeServerConfirm :: "bytes \<Rightarrow> Code + bytes" where
  "DecodeServerConfirm b = (if length b \<noteq> ConfirmLen then Inl E5003 else Inr b)"

definition DecodeClientConfirm :: "bytes \<Rightarrow> Code + bytes" where
  "DecodeClientConfirm b = (if length b \<noteq> ConfirmLen then Inl E5003 else Inr b)"

record ChannelJoin =
  cj_Version :: u8
  cj_SessionID :: bytes
  cj_ChannelID :: u8
  cj_NonceCh :: bytes
  cj_Tag :: bytes

definition ChannelJoin_Encode :: "ChannelJoin \<Rightarrow> bytes" where
  "ChannelJoin_Encode j = Magic @ [cj_Version j] @ cj_SessionID j @ [cj_ChannelID j] @ cj_NonceCh j @ cj_Tag j"

definition DecodeChannelJoin :: "bytes \<Rightarrow> Code + ChannelJoin" where
  "DecodeChannelJoin b =
     (if length b \<noteq> ChannelJoinLen \<or> take (length Magic) b \<noteq> Magic then Inl E5003
      else let p = length Magic in
        Inr \<lparr>cj_Version = b ! p, cj_SessionID = subslice (p + 1) (p + 9) b, cj_ChannelID = b ! (p + 9),
          cj_NonceCh = subslice (p + 10) (p + 26) b, cj_Tag = subslice (p + 26) (p + 58) b\<rparr>)"

definition DecodeChannelAccept :: "bytes \<Rightarrow> Code + bytes" where
  "DecodeChannelAccept b = (if length b \<noteq> ChannelAcceptLen then Inl E5003 else Inr b)"

section \<open>The hello messages of the handshake package\<close>

definition protocolVersion :: u8 where "protocolVersion = 2"

definition clientHelloBytes :: "bytes \<Rightarrow> bytes \<Rightarrow> bytes \<Rightarrow> bytes" where
  "clientHelloBytes sessionID nonceC pc = Magic @ [protocolVersion] @ sessionID @ nonceC @ pc"

definition serverHelloBytes :: "bytes \<Rightarrow> bytes \<Rightarrow> bytes" where
  "serverHelloBytes nonceS ps = [protocolVersion] @ nonceS @ ps"

definition parseClientHello :: "bytes \<Rightarrow> Code + bytes \<times> bytes \<times> bytes" where
  "parseClientHello b =
     (if length b \<noteq> ClientHelloLen \<or> take (length Magic) b \<noteq> Magic then Inl E4001
      else if b ! length Magic \<noteq> protocolVersion then Inl E2003
      else let off = length Magic + 1 in
        Inr (subslice off (off + 8) b, subslice (off + 8) (off + 40) b, subslice (off + 40) (off + 72) b))"

definition parseServerHello :: "bytes \<Rightarrow> Code + bytes \<times> bytes" where
  "parseServerHello b =
     (if length b \<noteq> ServerHelloLen then Inl E4001
      else if b ! 0 \<noteq> protocolVersion then Inl E2003
      else Inr (subslice 1 33 b, drop 33 b))"

section \<open>Key schedule\<close>

definition infoConfirm :: bytes where "infoConfirm = str ''esync/v1 confirm''"
definition infoChannelAuth :: bytes where "infoChannelAuth = str ''esync/v1 channel-auth''"
definition infoEncPrefix :: bytes where "infoEncPrefix = str ''esync/v1 enc ''"
definition infoMacPrefix :: bytes where "infoMacPrefix = str ''esync/v1 mac ''"

datatype Direction = S2R | R2S

fun Direction_String :: "Direction \<Rightarrow> bytes" where
  "Direction_String R2S = str ''r2s''"
| "Direction_String S2R = str ''s2r''"

fun Peer :: "Direction \<Rightarrow> Direction" where
  "Peer R2S = S2R"
| "Peer S2R = R2S"

record schedule =
  sc_prk :: bytes
  sc_kConf :: bytes
  sc_kChan :: bytes

definition expand :: "prims \<Rightarrow> bytes \<Rightarrow> bytes \<Rightarrow> Code + bytes" where
  "expand P prk info = (case pr_expand P prk info of None \<Rightarrow> Inl E4001 | Some k \<Rightarrow> Inr k)"

definition newSchedule :: "prims \<Rightarrow> bytes \<Rightarrow> bytes \<Rightarrow> bytes \<Rightarrow> bytes \<Rightarrow> Code + schedule" where
  "newSchedule P nonceC nonceS z kPair = (case pr_extract P (z @ kPair) (nonceC @ nonceS) of
     None \<Rightarrow> Inl E4001
   | Some prk \<Rightarrow> (case expand P prk infoConfirm of
       Inl c \<Rightarrow> Inl c
     | Inr kConf \<Rightarrow> (case expand P prk infoChannelAuth of
         Inl c \<Rightarrow> Inl c
       | Inr kChan \<Rightarrow> Inr \<lparr>sc_prk = prk, sc_kConf = kConf, sc_kChan = kChan\<rparr>)))"

definition recordKeys :: "prims \<Rightarrow> schedule \<Rightarrow> Direction \<Rightarrow> u8 \<Rightarrow> Code + bytes \<times> bytes" where
  "recordKeys P s dir cid =
     (let suffix = Direction_String dir @ [cid] in
      case expand P (sc_prk s) (infoEncPrefix @ suffix) of
        Inl c \<Rightarrow> Inl c
      | Inr e \<Rightarrow> (case expand P (sc_prk s) (infoMacPrefix @ suffix) of Inl c \<Rightarrow> Inl c | Inr m \<Rightarrow> Inr (e, m)))"

record Session =
  se_SessionID :: bytes
  se_KChan :: bytes
  se_PeerVersion :: u8
  se_sch :: schedule
  se_keys :: "Direction \<times> u8 \<rightharpoonup> bytes \<times> bytes"
  se_accepted :: "u8 set"

definition newSession :: "bytes \<Rightarrow> u8 \<Rightarrow> schedule \<Rightarrow> Session" where
  "newSession sid peerVersion sch = \<lparr>se_SessionID = sid, se_KChan = sc_kChan sch, se_PeerVersion = peerVersion, se_sch = sch,
     se_keys = Map.empty, se_accepted = {}\<rparr>"

definition RecordKeys :: "prims \<Rightarrow> Direction \<Rightarrow> u8 \<Rightarrow> Session \<Rightarrow> (bytes \<times> bytes) \<times> Session" where
  "RecordKeys P dir cid s = (case se_keys s (dir, cid) of
     Some v \<Rightarrow> (v, s)
   | None \<Rightarrow> (case recordKeys P (se_sch s) dir cid of
       Inl c \<Rightarrow> (([], []), s)
     | Inr v \<Rightarrow> (v, s\<lparr>se_keys := (se_keys s)((dir, cid) \<mapsto> v)\<rparr>)))"

section \<open>The exchange\<close>

definition isAllZero :: "bytes \<Rightarrow> bool" where
  "isAllZero b \<longleftrightarrow> foldl (OR) 0 b = 0"

definition sharedSecret :: "prims \<Rightarrow> bytes \<Rightarrow> bytes \<Rightarrow> Code + bytes" where
  "sharedSecret P priv peerPub =
     (if \<not> pr_valid_public P peerPub then Inl E4001
      else case pr_ecdh P priv peerPub of
        None \<Rightarrow> Inl E4001
      | Some z \<Rightarrow> if isAllZero z then Inl E4001 else Inr z)"

definition transcript :: "prims \<Rightarrow> bytes \<Rightarrow> bytes \<Rightarrow> bytes" where
  "transcript P clientHello serverHello = pr_sha256 P (clientHello @ serverHello)"

definition confirmTag :: "prims \<Rightarrow> bytes \<Rightarrow> string \<Rightarrow> bytes \<Rightarrow> bytes" where
  "confirmTag P kConf label t = pr_hmac P kConf (str label @ t)"

definition ioFault :: "bool \<Rightarrow> Code" where
  "ioFault timeout = (if timeout then E3004 else E4001)"

text \<open>
  The connection of one run: what the peer sends, whether a short read is a timeout, which writes fail
  (\<open>Some timeout\<close>), the random private key and nonce (\<open>None\<close>: the generator fails).
\<close>

record hs_io =
  ho_in :: bytes
  ho_timeout :: bool
  ho_write :: "nat \<Rightarrow> bool option"
  ho_priv :: "bytes option"
  ho_nonce :: "bytes option"

type_synonym hs_result = "(Code + Session) \<times> bytes"

text \<open>The receiver's side; the second component is what it has written.\<close>

definition ClientHandshake :: "prims \<Rightarrow> hs_io \<Rightarrow> bytes \<Rightarrow> bytes \<Rightarrow> hs_result" where
  "ClientHandshake P io kPair sessionID = (case ho_priv io of
     None \<Rightarrow> (Inl E4007, [])
   | Some priv \<Rightarrow> (case ho_nonce io of
       None \<Rightarrow> (Inl E4007, [])
     | Some nonceC \<Rightarrow>
         let clientHello = clientHelloBytes sessionID nonceC (pr_public P priv) in
         case ho_write io 0 of
           Some timeout \<Rightarrow> (Inl (ioFault timeout), [])
         | None \<Rightarrow>
             if length (ho_in io) < ServerHelloLen then (Inl (ioFault (ho_timeout io)), clientHello)
             else let serverHello = take ServerHelloLen (ho_in io); rest = drop ServerHelloLen (ho_in io) in
               case parseServerHello serverHello of
                 Inl c \<Rightarrow> (Inl c, clientHello)
               | Inr (nonceS, ps) \<Rightarrow> (case sharedSecret P priv ps of
                   Inl c \<Rightarrow> (Inl c, clientHello)
                 | Inr z \<Rightarrow>
                     let t = transcript P clientHello serverHello in
                     case newSchedule P nonceC nonceS z kPair of
                       Inl c \<Rightarrow> (Inl c, clientHello)
                     | Inr sch \<Rightarrow>
                         if length rest < ConfirmLen then (Inl (ioFault (ho_timeout io)), clientHello)
                         else if confirmTag P (sc_kConf sch) ''esync/v1 server confirm'' t \<noteq> take ConfirmLen rest then
                           (Inl E4001, clientHello)
                         else (case ho_write io 1 of
                           Some timeout \<Rightarrow> (Inl (ioFault timeout), clientHello)
                         | None \<Rightarrow> (Inr (newSession sessionID protocolVersion sch),
                             clientHello @ confirmTag P (sc_kConf sch) ''esync/v1 client confirm'' t)))))"

text \<open>The sender's side.\<close>

definition ServerHandshake :: "prims \<Rightarrow> hs_io \<Rightarrow> bytes \<Rightarrow> bytes \<Rightarrow> hs_result" where
  "ServerHandshake P io kPair expectID =
     (if length (ho_in io) < ClientHelloLen then (Inl (ioFault (ho_timeout io)), [])
      else let clientHello = take ClientHelloLen (ho_in io); rest = drop ClientHelloLen (ho_in io) in
        case parseClientHello clientHello of
          Inl c \<Rightarrow> (Inl c, [])
        | Inr (gotID, nonceC, pc) \<Rightarrow>
            if gotID \<noteq> expectID then (Inl E4001, [])
            else case ho_priv io of
              None \<Rightarrow> (Inl E4007, [])
            | Some priv \<Rightarrow> (case ho_nonce io of
                None \<Rightarrow> (Inl E4007, [])
              | Some nonceS \<Rightarrow> (case sharedSecret P priv pc of
                  Inl c \<Rightarrow> (Inl c, [])
                | Inr z \<Rightarrow>
                    let serverHello = serverHelloBytes nonceS (pr_public P priv);
                        t = transcript P clientHello serverHello
                    in case newSchedule P nonceC nonceS z kPair of
                         Inl c \<Rightarrow> (Inl c, [])
                       | Inr sch \<Rightarrow> (case ho_write io 0 of
                           Some timeout \<Rightarrow> (Inl (ioFault timeout), [])
                         | None \<Rightarrow> (case ho_write io 1 of
                             Some timeout \<Rightarrow> (Inl (ioFault timeout), serverHello)
                           | None \<Rightarrow>
                               let out = serverHello @ confirmTag P (sc_kConf sch) ''esync/v1 server confirm'' t in
                               if length rest < ConfirmLen then (Inl (ioFault (ho_timeout io)), out)
                               else if confirmTag P (sc_kConf sch) ''esync/v1 client confirm'' t \<noteq> take ConfirmLen rest then
                                 (Inl E4001, out)
                               else (Inr (newSession expectID protocolVersion sch), out))))))"

section \<open>Data channels\<close>

definition channelTag :: "prims \<Rightarrow> bytes \<Rightarrow> string \<Rightarrow> bytes \<Rightarrow> u8 \<Rightarrow> bytes \<Rightarrow> bytes" where
  "channelTag P kChan label sid channelID nonce = pr_hmac P kChan (str label @ sid @ [channelID] @ nonce)"

definition join_message :: "prims \<Rightarrow> Session \<Rightarrow> u8 \<Rightarrow> bytes \<Rightarrow> bytes" where
  "join_message P sess channelID nonceCh = Magic @ [protocolVersion] @ se_SessionID sess @ [channelID] @ nonceCh @
     channelTag P (se_KChan sess) ''join'' (se_SessionID sess) channelID nonceCh"

text \<open>The receiver's side: \<open>nonce\<close> is the random nonce, \<open>wr\<close> a failing write, \<open>reply\<close> what the sender answers.\<close>

definition JoinChannel :: "prims \<Rightarrow> bytes option \<Rightarrow> bool \<Rightarrow> bytes \<Rightarrow> Session \<Rightarrow> u8 \<Rightarrow> Code option \<times> bytes" where
  "JoinChannel P nonce wr reply sess channelID = (case nonce of
     None \<Rightarrow> (Some E4007, [])
   | Some nonceCh \<Rightarrow>
       if wr then (Some E3006, [])
       else let msg = join_message P sess channelID nonceCh in
         if length reply < ChannelAcceptLen then (Some E3006, msg)
         else if channelTag P (se_KChan sess) ''accept'' (se_SessionID sess) channelID nonceCh \<noteq> take ChannelAcceptLen reply then
           (Some E4002, msg)
         else (None, msg))"

text \<open>The sender's side; \<open>wr\<close>: the reply cannot be written.\<close>

definition AcceptChannel :: "prims \<Rightarrow> bytes \<Rightarrow> bool \<Rightarrow> u8 \<Rightarrow> Session \<Rightarrow> (Code + u8) \<times> bytes \<times> Session" where
  "AcceptChannel P input wr negotiatedN sess =
     (if length input < ChannelJoinLen then (Inl E3006, [], sess)
      else let msg = take ChannelJoinLen input in
        if take (length Magic) msg \<noteq> Magic \<or> msg ! length Magic \<noteq> protocolVersion then (Inl E4002, [], sess)
        else let
          off = length Magic + 1;
          gotID = subslice off (off + 8) msg;
          channelID = msg ! (off + 8);
          nonceCh = subslice (off + 9) (off + 25) msg;
          tag = drop (off + 25) msg
        in if gotID \<noteq> se_SessionID sess then (Inl E4002, [], sess)
           else if channelID = 0 \<or> channelID > negotiatedN then (Inl E4002, [], sess)
           else if channelTag P (se_KChan sess) ''join'' (se_SessionID sess) channelID nonceCh \<noteq> tag then (Inl E4002, [], sess)
           else if channelID \<in> se_accepted sess then (Inl E4002, [], sess)
           else let sess = sess\<lparr>se_accepted := insert channelID (se_accepted sess)\<rparr> in
             if wr then (Inl E3006, [], sess)
             else (Inr channelID, channelTag P (se_KChan sess) ''accept'' (se_SessionID sess) channelID nonceCh, sess))"

section \<open>Codecs\<close>

lemma length_Magic [simp]: "length Magic = 5"
  by (simp add: Magic_def)

text \<open>
  The handshake package and the wire package have each their own codec for the same messages, and they
  agree: the hello and join messages are built alike, and a hello is parsed to the same fields, where the
  handshake in addition refuses another protocol version.
\<close>

theorem hello_codecs_agree:
  "clientHelloBytes sid nonceC pc = ClientHello_Encode \<lparr>ch_Version = protocolVersion, ch_SessionID = sid, ch_NonceC = nonceC, ch_Pc = pc\<rparr> \<and>
   serverHelloBytes nonceS ps = ServerHello_Encode \<lparr>sh_Version = protocolVersion, sh_NonceS = nonceS, sh_Ps = ps\<rparr> \<and>
   join_message P sess cid nonce = ChannelJoin_Encode \<lparr>cj_Version = protocolVersion, cj_SessionID = se_SessionID sess, cj_ChannelID = cid,
     cj_NonceCh = nonce, cj_Tag = channelTag P (se_KChan sess) ''join'' (se_SessionID sess) cid nonce\<rparr> \<and>
   parseClientHello b = (case DecodeClientHello b of
     Inl _ \<Rightarrow> Inl E4001
   | Inr h \<Rightarrow> if ch_Version h = protocolVersion then Inr (ch_SessionID h, ch_NonceC h, ch_Pc h) else Inl E2003) \<and>
   parseServerHello b = (case DecodeServerHello b of
     Inl _ \<Rightarrow> Inl E4001
   | Inr h \<Rightarrow> if sh_Version h = protocolVersion then Inr (sh_NonceS h, sh_Ps h) else Inl E2003)"
proof -
  have "subslice 33 65 b = drop 33 b" if "length b = ServerHelloLen" using that by (simp add: subslice_def hello_lens)
  then show ?thesis
    by (auto simp: clientHelloBytes_def ClientHello_Encode_def serverHelloBytes_def ServerHello_Encode_def join_message_def
        ChannelJoin_Encode_def parseClientHello_def DecodeClientHello_def parseServerHello_def DecodeServerHello_def Let_def)
qed

lemma parse_clientHello:
  assumes "length sid = 8" "length nonceC = 32" "length pc = 32"
  shows "parseClientHello (clientHelloBytes sid nonceC pc) = Inr (sid, nonceC, pc)"
  using assms by (simp add: parseClientHello_def clientHelloBytes_def ClientHelloLen_def subslice_def nth_append Let_def)

lemma parse_serverHello:
  assumes "length nonceS = 32" "length ps = 32"
  shows "parseServerHello (serverHelloBytes nonceS ps) = Inr (nonceS, ps)"
  using assms by (simp add: parseServerHello_def serverHelloBytes_def ServerHelloLen_def subslice_def)

lemma length_hellos:
  "length sid = 8 \<Longrightarrow> length nonceC = 32 \<Longrightarrow> length pc = 32 \<Longrightarrow> length (clientHelloBytes sid nonceC pc) = ClientHelloLen"
  "length nonceS = 32 \<Longrightarrow> length ps = 32 \<Longrightarrow> length (serverHelloBytes nonceS ps) = ServerHelloLen"
  by (simp_all add: clientHelloBytes_def serverHelloBytes_def hello_lens)

section \<open>Both sides together\<close>

text \<open>What is relied on for an honest run: key exchange commutes, and keys and tags have their lengths.\<close>

definition prims_ok :: "prims \<Rightarrow> bool" where
  "prims_ok P \<longleftrightarrow> (\<forall>a b. pr_ecdh P a (pr_public P b) = pr_ecdh P b (pr_public P a)) \<and>
     (\<forall>a. length (pr_public P a) = 32 \<and> pr_valid_public P (pr_public P a)) \<and>
     (\<forall>k m. length (pr_hmac P k m) = 32)"

text \<open>
  C19. Two honest parties with the same pairing key and session id finish the handshake with the same
  session: the client's messages make the server accept and the server's messages make the client
  accept, when the exchange gives a non-zero secret and the key derivation works.
\<close>

theorem handshake_completes:
  assumes P: "prims_ok P" and rnd: "ho_priv ioc = Some a" "ho_nonce ioc = Some nonceC" "ho_priv ios = Some b" "ho_nonce ios = Some nonceS"
    and len: "length sid = 8" "length nonceC = 32" "length nonceS = 32"
    and wr: "ho_write ioc = (\<lambda>_. None)" "ho_write ios = (\<lambda>_. None)"
    and z: "pr_ecdh P a (pr_public P b) = Some z" "\<not> isAllZero z" and sch: "newSchedule P nonceC nonceS z k = Inr sch"
    and inp: "ho_in ios = snd (ClientHandshake P ioc k sid)" "ho_in ioc = snd (ServerHandshake P (ios\<lparr>ho_in := clientHelloBytes sid nonceC (pr_public P a)\<rparr>) k sid)"
  shows "fst (ClientHandshake P ioc k sid) = Inr (newSession sid protocolVersion sch) \<and>
    fst (ServerHandshake P ios k sid) = Inr (newSession sid protocolVersion sch)"
proof -
  let ?ch = "clientHelloBytes sid nonceC (pr_public P a)" and ?sh = "serverHelloBytes nonceS (pr_public P b)"
  let ?t = "transcript P ?ch ?sh"
  let ?ts = "confirmTag P (sc_kConf sch) ''esync/v1 server confirm'' ?t" and ?tc = "confirmTag P (sc_kConf sch) ''esync/v1 client confirm'' ?t"
  have pub: "length (pr_public P x) = 32" "pr_valid_public P (pr_public P x)" for x using P by (auto simp: prims_ok_def)
  have tag: "length (confirmTag P kk l t) = ConfirmLen" for kk l t using P by (simp add: prims_ok_def confirmTag_def ConfirmLen_def)
  have zc: "sharedSecret P a (pr_public P b) = Inr z" using z pub by (simp add: sharedSecret_def)
  have zs: "sharedSecret P b (pr_public P a) = Inr z" using z pub P by (simp add: sharedSecret_def prims_ok_def)
  have lens: "length ?ch = ClientHelloLen" "length ?sh = ServerHelloLen" using length_hellos len pub by blast+
  note pc = parse_clientHello [OF len(1,2) pub(1)] and ps = parse_serverHello [OF len(3) pub(1)]
  have sv: "ServerHandshake P (ios\<lparr>ho_in := ?ch @ rest\<rparr>) k sid =
      (if length rest < ConfirmLen then (Inl (ioFault (ho_timeout ios)), ?sh @ ?ts)
       else if ?tc \<noteq> take ConfirmLen rest then (Inl E4001, ?sh @ ?ts) else (Inr (newSession sid protocolVersion sch), ?sh @ ?ts))" for rest
    using rnd wr sch zs pc lens by (simp add: ServerHandshake_def Let_def)
  have "ho_in ioc = ?sh @ ?ts" using inp(2) sv [of "[]"] by (simp add: ConfirmLen_def)
  then have cl: "ClientHandshake P ioc k sid = (Inr (newSession sid protocolVersion sch), ?ch @ ?tc)"
    using rnd wr sch zc ps lens tag by (simp add: ClientHandshake_def Let_def)
  then have "ios = ios\<lparr>ho_in := ?ch @ ?tc\<rparr>" using inp(1) by simp
  then have "ServerHandshake P ios k sid = ServerHandshake P (ios\<lparr>ho_in := ?ch @ ?tc\<rparr>) k sid" by simp
  then show ?thesis using cl sv [of ?tc] tag by simp
qed

text \<open>A small instance of the primitives, for the witnesses: exchange by exclusive or, constant tags.\<close>

definition sample_prims :: prims where
  "sample_prims = \<lparr>pr_public = (\<lambda>a. take 32 (a @ replicate 32 0)), pr_valid_public = (\<lambda>p. length p = 32),
     pr_ecdh = (\<lambda>a p. Some (map2 (XOR) (take 32 (a @ replicate 32 0)) p)), pr_extract = (\<lambda>ikm salt. Some (ikm @ salt)),
     pr_expand = (\<lambda>prk info. Some (take 32 (info @ prk @ replicate 32 0))), pr_hmac = (\<lambda>k m. take 32 (k @ m @ replicate 32 0)),
     pr_sha256 = (\<lambda>m. m)\<rparr>"

lemma sample_prims_ok: "prims_ok sample_prims"
proof -
  have "map2 (XOR) xs ys = map2 (XOR) ys xs" for xs ys :: bytes
    by (rule nth_equalityI) (auto simp: xor.commute)
  then show ?thesis by (auto simp: prims_ok_def sample_prims_def)
qed

definition sample_client_io :: "bytes \<Rightarrow> hs_io" where
  "sample_client_io inp = \<lparr>ho_in = inp, ho_timeout = False, ho_write = (\<lambda>_. None), ho_priv = Some [1], ho_nonce = Some (replicate 32 7)\<rparr>"

definition sample_server_io :: "bytes \<Rightarrow> hs_io" where
  "sample_server_io inp = \<lparr>ho_in = inp, ho_timeout = False, ho_write = (\<lambda>_. None), ho_priv = Some [2], ho_nonce = Some (replicate 32 8)\<rparr>"

definition sample_sid :: bytes where "sample_sid = replicate 8 5"

definition sample_server_out :: bytes where
  "sample_server_out = snd (ServerHandshake sample_prims (sample_server_io (clientHelloBytes sample_sid (replicate 32 7) (pr_public sample_prims [1]))) [9] sample_sid)"

definition sample_client_out :: bytes where
  "sample_client_out = snd (ClientHandshake sample_prims (sample_client_io sample_server_out) [9] sample_sid)"

definition sample_z :: bytes where "sample_z = 3 # replicate 31 0"

lemma sample_exchange:
  "pr_ecdh sample_prims [1] (pr_public sample_prims [2]) = Some sample_z" "\<not> isAllZero sample_z"
  "\<exists>sch. newSchedule sample_prims (replicate 32 7) (replicate 32 8) sample_z [9] = Inr sch"
proof -
  show "pr_ecdh sample_prims [1] (pr_public sample_prims [2]) = Some sample_z" by code_simp
  show "\<not> isAllZero sample_z" by code_simp
qed (simp add: newSchedule_def expand_def sample_prims_def)

theorem handshake_completes_witness:
  "\<exists>sch. fst (ClientHandshake sample_prims (sample_client_io sample_server_out) [9] sample_sid) = Inr (newSession sample_sid protocolVersion sch) \<and>
     fst (ServerHandshake sample_prims (sample_server_io sample_client_out) [9] sample_sid) = Inr (newSession sample_sid protocolVersion sch)"
proof -
  obtain sch where sch: "newSchedule sample_prims (replicate 32 7) (replicate 32 8) sample_z [9] = Inr sch" using sample_exchange(3) by blast
  have "fst (ClientHandshake sample_prims (sample_client_io sample_server_out) [9] sample_sid) = Inr (newSession sample_sid protocolVersion sch) \<and>
    fst (ServerHandshake sample_prims (sample_server_io sample_client_out) [9] sample_sid) = Inr (newSession sample_sid protocolVersion sch)"
    by (rule handshake_completes [OF sample_prims_ok, where a = "[1]" and b = "[2]" and nonceC = "replicate 32 7" and nonceS = "replicate 32 8" and z = sample_z])
      (simp_all add: sample_client_io_def sample_server_io_def sample_sid_def sample_exchange(1,2) sch sample_client_out_def sample_server_out_def)
  then show ?thesis by blast
qed

lemma inj_on_pair: "inj_on f {x, y} \<Longrightarrow> f x = f y \<Longrightarrow> x = y"
  by (erule inj_onD) simp_all

text \<open>What an accepting run has checked.\<close>

lemma client_accepts:
  assumes "ClientHandshake P io k sid = (Inr s, out)"
  shows "\<exists>a nonceC nonceS ps z sch. ho_priv io = Some a \<and> ho_nonce io = Some nonceC \<and>
    parseServerHello (take ServerHelloLen (ho_in io)) = Inr (nonceS, ps) \<and> sharedSecret P a ps = Inr z \<and>
    newSchedule P nonceC nonceS z k = Inr sch \<and> s = newSession sid protocolVersion sch \<and>
    out = clientHelloBytes sid nonceC (pr_public P a) @ confirmTag P (sc_kConf sch) ''esync/v1 client confirm''
      (transcript P (clientHelloBytes sid nonceC (pr_public P a)) (take ServerHelloLen (ho_in io)))"
  using assms unfolding ClientHandshake_def Let_def
  by (auto split: option.splits sum.splits prod.splits if_splits)

lemma server_accepts:
  assumes "ServerHandshake P io k sid = (Inr s, out)"
  shows "\<exists>b nonceC nonceS pc z sch. ho_priv io = Some b \<and> ho_nonce io = Some nonceS \<and>
    parseClientHello (take ClientHelloLen (ho_in io)) = Inr (sid, nonceC, pc) \<and> sharedSecret P b pc = Inr z \<and>
    newSchedule P nonceC nonceS z k = Inr sch \<and> s = newSession sid protocolVersion sch \<and>
    confirmTag P (sc_kConf sch) ''esync/v1 client confirm'' (transcript P (take ClientHelloLen (ho_in io)) (serverHelloBytes nonceS (pr_public P b))) =
      take ConfirmLen (drop ClientHelloLen (ho_in io)) \<and>
    out = serverHelloBytes nonceS (pr_public P b) @ confirmTag P (sc_kConf sch) ''esync/v1 server confirm''
      (transcript P (take ClientHelloLen (ho_in io)) (serverHelloBytes nonceS (pr_public P b)))"
  using assms unfolding ServerHandshake_def Let_def
  by (auto split: option.splits sum.splits prod.splits if_splits)

text \<open>
  C12. Acceptance means agreement: when the client and the server accept and the confirmation that the
  server verified is the one the client sent, then, unless HMAC or SHA-256 collide on the values of these
  two runs, each side has received exactly the hello message the other sent, and with the same pairing
  key both hold the same session keys. No byte of the exchange was changed on the way.
\<close>

theorem handshake_agreement:
  assumes P: "prims_ok P" and c: "ClientHandshake P ioc kc sid = (Inr sc, outc)" and s: "ServerHandshake P ios ks sid' = (Inr ss, outs)"
    and len: "length sid = 8" "length (the (ho_nonce ioc)) = 32" "length (the (ho_nonce ios)) = 32"
    and tag: "take ConfirmLen (drop ClientHelloLen (ho_in ios)) = drop ClientHelloLen outc"
    and mac: "inj_on (\<lambda>(k, m). pr_hmac P k m)
      {(sc_kConf (se_sch sc), str ''esync/v1 client confirm'' @ transcript P (take ClientHelloLen outc) (take ServerHelloLen (ho_in ioc))),
       (sc_kConf (se_sch ss), str ''esync/v1 client confirm'' @ transcript P (take ClientHelloLen (ho_in ios)) (take ServerHelloLen outs))}"
    and sha: "inj_on (pr_sha256 P) {take ClientHelloLen outc @ take ServerHelloLen (ho_in ioc), take ClientHelloLen (ho_in ios) @ take ServerHelloLen outs}"
  shows "take ClientHelloLen (ho_in ios) = take ClientHelloLen outc \<and> take ServerHelloLen (ho_in ioc) = take ServerHelloLen outs \<and>
    sid' = sid \<and> (kc = ks \<longrightarrow> ss = sc)"
proof -
  obtain a nonceC nonceS ps z sch where cl: "ho_priv ioc = Some a" "ho_nonce ioc = Some nonceC"
    "parseServerHello (take ServerHelloLen (ho_in ioc)) = Inr (nonceS, ps)" "sharedSecret P a ps = Inr z"
    "newSchedule P nonceC nonceS z kc = Inr sch" "sc = newSession sid protocolVersion sch"
    "outc = clientHelloBytes sid nonceC (pr_public P a) @ confirmTag P (sc_kConf sch) ''esync/v1 client confirm''
      (transcript P (clientHelloBytes sid nonceC (pr_public P a)) (take ServerHelloLen (ho_in ioc)))"
    using client_accepts [OF c] by blast
  obtain b nonceC' nonceS' pc z' sch' where sv: "ho_priv ios = Some b" "ho_nonce ios = Some nonceS'"
    "parseClientHello (take ClientHelloLen (ho_in ios)) = Inr (sid', nonceC', pc)" "sharedSecret P b pc = Inr z'"
    "newSchedule P nonceC' nonceS' z' ks = Inr sch'" "ss = newSession sid' protocolVersion sch'"
    "confirmTag P (sc_kConf sch') ''esync/v1 client confirm'' (transcript P (take ClientHelloLen (ho_in ios)) (serverHelloBytes nonceS' (pr_public P b))) =
      take ConfirmLen (drop ClientHelloLen (ho_in ios))"
    "outs = serverHelloBytes nonceS' (pr_public P b) @ confirmTag P (sc_kConf sch') ''esync/v1 server confirm''
      (transcript P (take ClientHelloLen (ho_in ios)) (serverHelloBytes nonceS' (pr_public P b)))"
    using server_accepts [OF s] by blast
  have pub: "length (pr_public P x) = 32" for x using P by (simp add: prims_ok_def)
  let ?ch = "clientHelloBytes sid nonceC (pr_public P a)" and ?sh = "serverHelloBytes nonceS' (pr_public P b)"
  have n: "length nonceC = 32" "length nonceS' = 32" using len cl(2) sv(2) by simp_all
  have lc: "length ?ch = ClientHelloLen" by (rule length_hellos(1) [OF len(1) n(1) pub])
  have ls: "length ?sh = ServerHelloLen" by (rule length_hellos(2) [OF n(2) pub])
  have oc: "take ClientHelloLen outc = ?ch" "drop ClientHelloLen outc = confirmTag P (sc_kConf sch) ''esync/v1 client confirm'' (transcript P ?ch (take ServerHelloLen (ho_in ioc)))"
    unfolding cl(7) using lc by simp_all
  have os: "take ServerHelloLen outs = ?sh" unfolding sv(8) using ls by simp
  let ?lab = "str ''esync/v1 client confirm''" and ?tc = "transcript P ?ch (take ServerHelloLen (ho_in ioc))"
    and ?ts = "transcript P (take ClientHelloLen (ho_in ios)) ?sh"
  have k: "sc_kConf (se_sch sc) = sc_kConf sch" "sc_kConf (se_sch ss) = sc_kConf sch'" using cl(6) sv(6) by (simp_all add: newSession_def)
  have "pr_hmac P (sc_kConf sch) (?lab @ ?tc) = pr_hmac P (sc_kConf sch') (?lab @ ?ts)"
    using tag oc(2) sv(7) unfolding confirmTag_def by metis
  then have "(case (sc_kConf sch, ?lab @ ?tc) of (k, m) \<Rightarrow> pr_hmac P k m) = (case (sc_kConf sch', ?lab @ ?ts) of (k, m) \<Rightarrow> pr_hmac P k m)"
    by (simp only: prod.case)
  then have "(sc_kConf sch, ?lab @ ?tc) = (sc_kConf sch', ?lab @ ?ts)" by (rule inj_on_pair [OF mac [unfolded oc os k]])
  then have "?tc = ?ts" by (simp only: prod.inject same_append_eq)
  then have eq: "?ch @ take ServerHelloLen (ho_in ioc) = take ClientHelloLen (ho_in ios) @ ?sh"
    unfolding transcript_def by (rule inj_on_pair [OF sha [unfolded oc os]])
  have "length (take ClientHelloLen (ho_in ios)) = ClientHelloLen"
    using sv(3) by (auto simp: parseClientHello_def split: if_splits)
  with lc eq have views: "take ClientHelloLen (ho_in ios) = ?ch" "take ServerHelloLen (ho_in ioc) = ?sh"
    by (metis append_eq_append_conv)+
  have got: "sid' = sid" "nonceC' = nonceC" "pc = pr_public P a"
    using sv(3) unfolding views(1) parse_clientHello [OF len(1) n(1) pub] by simp_all
  have got': "nonceS = nonceS'" "ps = pr_public P b" using cl(3) unfolding views(2) parse_serverHello [OF n(2) pub] by simp_all
  have "sharedSecret P b (pr_public P a) = sharedSecret P a (pr_public P b)" using P by (simp add: sharedSecret_def prims_ok_def)
  then have "z' = z" using cl(4) sv(4) got got' by simp
  then have "kc = ks \<longrightarrow> ss = sc" using cl(5,6) sv(5,6) got got' by auto
  then show ?thesis using views oc(1) os got(1) by simp
qed

theorem handshake_agreement_witness:
  "\<exists>sc outc ss outs. ClientHandshake sample_prims (sample_client_io sample_server_out) [9] sample_sid = (Inr sc, outc) \<and>
     ServerHandshake sample_prims (sample_server_io sample_client_out) [9] sample_sid = (Inr ss, outs) \<and> ss = sc"
proof -
  let ?ioc = "sample_client_io sample_server_out" and ?ios = "sample_server_io sample_client_out"
  have ok: "(case fst (ClientHandshake sample_prims ?ioc [9] sample_sid) of Inr _ \<Rightarrow> True | Inl _ \<Rightarrow> False)"
    "(case fst (ServerHandshake sample_prims ?ios [9] sample_sid) of Inr _ \<Rightarrow> True | Inl _ \<Rightarrow> False)" by code_simp+
  obtain sc outc where 1: "ClientHandshake sample_prims ?ioc [9] sample_sid = (Inr sc, outc)"
    using ok(1) by (cases "ClientHandshake sample_prims ?ioc [9] sample_sid") (auto split: sum.splits)
  obtain ss outs where 2: "ServerHandshake sample_prims ?ios [9] sample_sid = (Inr ss, outs)"
    using ok(2) by (cases "ServerHandshake sample_prims ?ios [9] sample_sid") (auto split: sum.splits)
  have o: "outc = sample_client_out" "outs = snd (ServerHandshake sample_prims ?ios [9] sample_sid)"
    using 1 2 by (simp_all add: sample_client_out_def)
  have e: "take ConfirmLen (drop ClientHelloLen sample_client_out) = drop ClientHelloLen sample_client_out"
    "take ServerHelloLen sample_server_out = take ServerHelloLen (snd (ServerHandshake sample_prims ?ios [9] sample_sid))"
    "map_sum id se_sch (fst (ClientHandshake sample_prims ?ioc [9] sample_sid)) = map_sum id se_sch (fst (ServerHandshake sample_prims ?ios [9] sample_sid))"
    by code_simp+
  have k: "se_sch sc = se_sch ss" using e(3) 1 2 by simp
  have i: "ho_in ?ioc = sample_server_out" "ho_in ?ios = sample_client_out" "length (the (ho_nonce ?ioc)) = 32" "length (the (ho_nonce ?ios)) = 32"
    "length sample_sid = 8" by (simp_all add: sample_client_io_def sample_server_io_def sample_sid_def)
  have "take ClientHelloLen (ho_in ?ios) = take ClientHelloLen outc \<and> take ServerHelloLen (ho_in ?ioc) = take ServerHelloLen outs \<and>
    sample_sid = sample_sid \<and> ([9 :: byte] = [9] \<longrightarrow> ss = sc)"
    by (rule handshake_agreement [OF sample_prims_ok 1 2 i(5,3,4)]) (unfold i o k e, simp_all)
  then show ?thesis using 1 2 by blast
qed

section \<open>Key separation\<close>

datatype key_use = UseConfirm | UseChannel | UseEnc Direction u8 | UseMac Direction u8

fun key_info :: "key_use \<Rightarrow> bytes" where
  "key_info UseConfirm = infoConfirm"
| "key_info UseChannel = infoChannelAuth"
| "key_info (UseEnc dir cid) = infoEncPrefix @ Direction_String dir @ [cid]"
| "key_info (UseMac dir cid) = infoMacPrefix @ Direction_String dir @ [cid]"

lemma Direction_String_inj: "Direction_String d = Direction_String e \<longleftrightarrow> d = e"
  by (cases d; cases e) simp_all

text \<open>
  Every key has its own derivation label: the strings that the confirmation key, the channel key and the
  encryption and MAC key of each channel and direction are expanded from are pairwise different, and the
  keys of a session are the expansions of exactly these labels.
\<close>

theorem key_labels_separate:
  "inj key_info \<and>
   (newSchedule P nonceC nonceS z k = Inr sch \<longrightarrow> pr_expand P (sc_prk sch) (key_info UseConfirm) = Some (sc_kConf sch) \<and>
      pr_expand P (sc_prk sch) (key_info UseChannel) = Some (sc_kChan sch)) \<and>
   (recordKeys P sch dir cid = Inr (e, m) \<longrightarrow> pr_expand P (sc_prk sch) (key_info (UseEnc dir cid)) = Some e \<and>
      pr_expand P (sc_prk sch) (key_info (UseMac dir cid)) = Some m)"
proof -
  have "inj key_info"
  proof (rule injI)
    fix u v assume "key_info u = key_info v"
    then show "u = v"
      by (cases u; cases v)
        (auto simp: infoConfirm_def infoChannelAuth_def infoEncPrefix_def infoMacPrefix_def Direction_String_inj)
  qed
  then show ?thesis
    by (auto simp: newSchedule_def recordKeys_def expand_def Let_def split: option.splits sum.splits)
qed

theorem key_labels_separate_witness:
  "\<exists>sch. newSchedule sample_prims (replicate 32 7) (replicate 32 8) sample_z [9] = Inr sch \<and>
     pr_expand sample_prims (sc_prk sch) (key_info UseChannel) = Some (sc_kChan sch)"
  using key_labels_separate [of sample_prims "replicate 32 7" "replicate 32 8" sample_z "[9]"] sample_exchange(3) by blast

section \<open>Joining channels\<close>

lemma join_fields:
  fixes cid :: u8
  assumes "length sid = 8" "length nonce = 16" "length tag = 32"
  defines "m \<equiv> Magic @ [protocolVersion] @ sid @ [cid] @ nonce @ tag"
  shows "length m = ChannelJoinLen" "take 5 m = Magic" "m ! 5 = protocolVersion" "subslice 6 14 m = sid" "m ! 14 = cid"
    "subslice 15 31 m = nonce" "drop 31 m = tag"
  using assms by (simp_all add: ChannelJoinLen_def subslice_def nth_append)

lemma AcceptChannel_join:
  assumes P: "prims_ok P" and len: "length (se_SessionID s) = 8" "length nonce = 16" and cid: "cid \<noteq> 0" "cid \<le> n"
    and same: "se_SessionID sess' = se_SessionID s" "se_KChan sess' = se_KChan s"
  shows "AcceptChannel P (join_message P sess' cid nonce) False n s =
    (if cid \<in> se_accepted s then (Inl E4002, [], s)
     else (Inr cid, channelTag P (se_KChan s) ''accept'' (se_SessionID s) cid nonce, s\<lparr>se_accepted := insert cid (se_accepted s)\<rparr>))"
proof -
  let ?tag = "channelTag P (se_KChan s) ''join'' (se_SessionID s) cid nonce"
  have tl: "length ?tag = 32" using P by (simp add: prims_ok_def channelTag_def)
  define m where "m = Magic @ [protocolVersion] @ se_SessionID s @ [cid] @ nonce @ ?tag"
  have jm: "join_message P sess' cid nonce = m" using same by (simp add: join_message_def m_def)
  note f = join_fields [OF len tl, of cid, folded m_def]
  have "\<not> length m < ChannelJoinLen" "take ChannelJoinLen m = m" using f(1) by simp_all
  then show ?thesis unfolding jm
    using f cid same linorder_not_less [of n cid] by (simp add: AcceptChannel_def Let_def)
qed

text \<open>
  A join message built by the receiver is accepted by the sender with the same session, once, and the
  sender's reply satisfies the receiver.
\<close>

theorem join_accepted:
  assumes P: "prims_ok P" and len: "length (se_SessionID sess) = 8" "length nonce = 16"
    and cid: "cid \<noteq> 0" "cid \<le> n" "cid \<notin> se_accepted sess"
    and same: "se_SessionID sess' = se_SessionID sess" "se_KChan sess' = se_KChan sess"
  shows "\<exists>reply sess2. AcceptChannel P (join_message P sess' cid nonce) False n sess = (Inr cid, reply, sess2) \<and>
    JoinChannel P (Some nonce) False reply sess' cid = (None, join_message P sess' cid nonce) \<and>
    fst (AcceptChannel P (join_message P sess' cid nonce) False n sess2) = Inl E4002"
proof -
  let ?sess2 = "sess\<lparr>se_accepted := insert cid (se_accepted sess)\<rparr>"
  note a = AcceptChannel_join [OF P _ len(2) cid(1,2), of _ sess']
  have "length (channelTag P kk l s c nn) = 32" for kk l s c nn using P by (simp add: prims_ok_def channelTag_def)
  with a [of sess] a [of ?sess2] cid(3) len(1) same show ?thesis
    by (simp add: JoinChannel_def ChannelAcceptLen_def Let_def)
qed

theorem join_accepted_witness:
  "\<exists>reply s2. AcceptChannel sample_prims (join_message sample_prims (newSession sample_sid 2 \<lparr>sc_prk = [], sc_kConf = [], sc_kChan = [4]\<rparr>) 1 (replicate 16 6))
     False 8 (newSession sample_sid 2 \<lparr>sc_prk = [], sc_kConf = [], sc_kChan = [4]\<rparr>) = (Inr 1, reply, s2)"
proof -
  let ?s = "newSession sample_sid 2 \<lparr>sc_prk = [], sc_kConf = [], sc_kChan = [4]\<rparr>"
  have 1: "length (se_SessionID ?s) = 8" "length (replicate 16 (6 :: byte)) = 16" by (simp_all add: newSession_def sample_sid_def)
  have 2: "(1 :: u8) \<noteq> 0" "(1 :: u8) \<le> 8" "1 \<notin> se_accepted ?s" by (simp_all add: newSession_def)
  from join_accepted [OF sample_prims_ok 1 2 refl refl] show ?thesis by blast
qed

text \<open>A sequence of connections, each tried once; the ids of the accepted ones.\<close>

fun accept_all :: "prims \<Rightarrow> (bytes \<times> bool \<times> u8) list \<Rightarrow> Session \<Rightarrow> u8 list \<times> Session" where
  "accept_all P [] sess = ([], sess)"
| "accept_all P ((input, wr, n) # rest) sess = (case AcceptChannel P input wr n sess of
     (Inl c, out, sess) \<Rightarrow> accept_all P rest sess
   | (Inr cid, out, sess) \<Rightarrow> (case accept_all P rest sess of (ids, sess) \<Rightarrow> (cid # ids, sess)))"

lemma AcceptChannel_cases:
  assumes "AcceptChannel P input wr n sess = (r, out, sess')"
  shows "(\<exists>c. r = Inl c \<and> out = [] \<and> se_accepted sess \<subseteq> se_accepted sess') \<or>
    (\<exists>cid. r = Inr cid \<and> cid \<noteq> 0 \<and> cid \<le> n \<and> cid \<notin> se_accepted sess \<and> se_accepted sess' = insert cid (se_accepted sess))"
  using assms unfolding AcceptChannel_def Let_def by (auto split: if_splits)

lemma accept_all_inv:
  "accept_all P conns sess = (ids, sess') \<Longrightarrow> \<forall>(input, wr, n)\<in>set conns. n \<le> N \<Longrightarrow>
     distinct ids \<and> (\<forall>i\<in>set ids. i \<noteq> 0 \<and> i \<le> N \<and> i \<notin> se_accepted sess) \<and> se_accepted sess \<union> set ids \<subseteq> se_accepted sess'"
proof (induction conns arbitrary: sess ids)
  case (Cons x conns)
  obtain input wr n where x: "x = (input, wr, n)" by (cases x)
  obtain r out s1 where a: "AcceptChannel P input wr n sess = (r, out, s1)" by (cases "AcceptChannel P input wr n sess")
  obtain ids1 where i: "accept_all P conns s1 = (ids1, sess')" "ids = (case r of Inl _ \<Rightarrow> ids1 | Inr cid \<Rightarrow> cid # ids1)"
    using Cons.prems(1) a by (auto simp: x split: sum.splits prod.splits)
  have n: "n \<le> N" "\<forall>(input, wr, n)\<in>set conns. n \<le> N" using Cons.prems(2) by (auto simp: x)
  from AcceptChannel_cases [OF a] Cons.IH [OF i(1) n(2)] i(2) n(1) show ?case by (elim disjE exE conjE) (auto intro: order_trans)
qed simp

text \<open>
  C36. Channel ids are never reused: over any sequence of joining connections, honest or not, the ids that are
  accepted are pairwise different and lie between 1 and the ceiling, so in its whole life a session admits
  at most as many joins as the ceiling allows, including those that replace a lost channel.
\<close>

theorem channel_ids_unique:
  assumes "accept_all P conns (newSession sid v sch) = (ids, sess')" "\<forall>(input, wr, n)\<in>set conns. n \<le> N"
  shows "distinct ids \<and> (\<forall>i\<in>set ids. 1 \<le> i \<and> i \<le> N) \<and> length ids \<le> unat N"
proof -
  have inv: "distinct ids" "\<forall>i\<in>set ids. i \<noteq> 0 \<and> i \<le> N" using accept_all_inv [OF assms] by blast+
  have "unat ` set ids \<subseteq> {1..unat N}"
    using inv(2) by (auto simp: word_le_nat_alt unat_gt_0 Suc_le_eq)
  then have "card (unat ` set ids) \<le> unat N" using card_mono [of "{1..unat N}"] by fastforce
  moreover have "card (unat ` set ids) = length ids"
    using card_image [of unat "set ids", OF inj_onI [OF unsigned_word_eqI]] distinct_card [OF inv(1)] by simp
  moreover have "\<forall>i\<in>set ids. 1 \<le> i" using inv(2) by (auto simp: word_le_nat_alt unat_gt_0 Suc_le_eq)
  ultimately show ?thesis using inv by simp
qed

theorem channel_ids_unique_witness:
  "\<exists>ids s'. accept_all sample_prims [([], False, 8), (replicate 63 0, False, 8)]
     (newSession sample_sid 2 \<lparr>sc_prk = [], sc_kConf = [], sc_kChan = [4]\<rparr>) = (ids, s') \<and> length ids \<le> 8"
proof -
  let ?s = "newSession sample_sid 2 \<lparr>sc_prk = [], sc_kConf = [], sc_kChan = [4]\<rparr>"
  obtain ids s' where 1: "accept_all sample_prims [([], False, 8), (replicate 63 0, False, 8)] ?s = (ids, s')" by fastforce
  have 2: "\<forall>(input, wr, n)\<in>set [([] :: bytes, False, 8), (replicate 63 0, False, 8)]. n \<le> (8 :: u8)" by simp
  from channel_ids_unique [OF 1 2] 1 show ?thesis by auto
qed

end
