(* ===== verification/Channel.thy ===== *)
theory Channel
  imports Handshake Wire_Frame Record_Layer
begin

text \<open>
  One channel (\<^verbatim>\<open>internal/channel/channel.go\<close>): the record layer keyed for the role of this end, with framed
  messages on top and the control channel's keepalive. The bytes that arrive are the input of the reader,
  the bytes written are the output of the writer; socket options have no effect in the model. A keepalive
  tick is one step at a given time.
\<close>

section \<open>A connection\<close>

datatype Role = Sender | Receiver

definition ControlChannelID :: u8 where "ControlChannelID = 0"

record Conn =
  cn_id :: u8
  cn_role :: Role
  cn_w :: Writer
  cn_r :: Reader
  cn_lastRecv :: int
  cn_kaExpired :: bool
  cn_kaStop :: bool
  cn_pingTok :: u64
  cn_kaInterval :: int
  cn_kaDeadline :: int

definition KeepaliveInterval :: int where "KeepaliveInterval = 15000000000"
definition KeepaliveDeadline :: int where "KeepaliveDeadline = 45000000000"

definition directions :: "Role \<Rightarrow> Direction \<times> Direction" where
  "directions role = (if role = Receiver then (R2S, S2R) else (S2R, R2S))"

text \<open>\<open>inp\<close> is what will arrive, \<open>ioerr\<close> whether it ends in an error of the connection.\<close>

definition newConn :: "prims \<Rightarrow> bytes \<Rightarrow> bool \<Rightarrow> int \<Rightarrow> u8 \<Rightarrow> Role \<Rightarrow> Session \<Rightarrow> Conn \<times> Session" where
  "newConn P inp ioerr now cid role sess =
     (let (wdir, rdir) = directions role;
          ((wEnc, wMac), sess) = RecordKeys P wdir cid sess;
          ((rEnc, rMac), sess) = RecordKeys P rdir cid sess
      in (\<lparr>cn_id = cid, cn_role = role, cn_w = newWriter wEnc wMac cid, cn_r = NewReader inp ioerr rEnc rMac cid,
           cn_lastRecv = now, cn_kaExpired = False, cn_kaStop = False, cn_pingTok = 0,
           cn_kaInterval = KeepaliveInterval, cn_kaDeadline = KeepaliveDeadline\<rparr>, sess))"

definition Control :: "prims \<Rightarrow> bytes \<Rightarrow> bool \<Rightarrow> int \<Rightarrow> Role \<Rightarrow> Session \<Rightarrow> Conn \<times> Session" where
  "Control P inp ioerr now role sess = newConn P inp ioerr now ControlChannelID role sess"

definition Data :: "prims \<Rightarrow> bytes \<Rightarrow> bool \<Rightarrow> int \<Rightarrow> u8 \<Rightarrow> Role \<Rightarrow> Session \<Rightarrow> Conn \<times> Session" where
  "Data P inp ioerr now cid role sess = newConn P inp ioerr now cid role sess"

definition conn_SendMsg :: "crypto \<Rightarrow> write_env \<Rightarrow> Message \<Rightarrow> Conn \<Rightarrow> Code option \<times> Conn" where
  "conn_SendMsg c env m conn = (case Marshal m of
     Inl e \<Rightarrow> (Some e, conn)
   | Inr b \<Rightarrow> (case WriteFrame c env b (cn_w conn) of (r, w) \<Rightarrow> (r, conn\<lparr>cn_w := w\<rparr>)))"

lemma conn_SendMsg_reader: "conn_SendMsg c env m conn = (r, conn') \<Longrightarrow> cn_r conn' = cn_r conn"
  by (auto simp: conn_SendMsg_def split: sum.splits prod.splits)

text \<open>The outcome of a receive; an error says whether it carries a timeout of the connection.\<close>

datatype recv_result = RecvEOF | RecvErr Code bool | Got Message

text \<open>
  \<open>env\<close> gives the environment of the write with a given sequence number, \<open>timeout\<close> whether the connection's
  own read error is a timeout, \<open>now\<close> the time of the receive.
\<close>

function conn_RecvMsg :: "crypto \<Rightarrow> (u64 \<Rightarrow> write_env) \<Rightarrow> bool \<Rightarrow> int \<Rightarrow> Conn \<Rightarrow> recv_result \<times> Conn" where
  "conn_RecvMsg c env timeout now conn = (case ReadFrame c (cn_r conn) of
     (EOF, r) \<Rightarrow> (RecvEOF, conn\<lparr>cn_r := r\<rparr>)
   | (Failed e, r) \<Rightarrow>
       (if cn_kaExpired conn then RecvErr E3004 False
        else if timeout \<and> e = E3003 then RecvErr E3004 True
        else RecvErr e False, conn\<lparr>cn_r := r\<rparr>)
   | (Frame f, r) \<Rightarrow>
       let conn = conn\<lparr>cn_r := r, cn_lastRecv := now\<rparr> in
       case Unmarshal f of
         Inl e \<Rightarrow> (RecvErr e False, conn)
       | Inr (M_Ping v) \<Rightarrow> (case conn_SendMsg c (env (wr_seq (cn_w conn))) (M_Pong \<lparr>po_Token = pi_Token v\<rparr>) conn of
           (Some e, conn) \<Rightarrow> (RecvErr e False, conn)
         | (None, conn) \<Rightarrow> conn_RecvMsg c env timeout now conn)
       | Inr (M_Pong v) \<Rightarrow> conn_RecvMsg c env timeout now conn
       | Inr m \<Rightarrow> (Got m, conn))"
  by pat_completeness auto

termination
  by (relation "measure (\<lambda>(c, env, timeout, now, conn). length (re_in (cn_r conn)))")
    (auto dest!: ReadFrame_progress [OF sym] conn_SendMsg_reader [OF sym])

declare conn_RecvMsg.simps [simp del]

text \<open>\<open>d\<close> is the stall timeout in nanoseconds.\<close>

definition conn_RecvMsgTimeout :: "crypto \<Rightarrow> (u64 \<Rightarrow> write_env) \<Rightarrow> bool \<Rightarrow> int \<Rightarrow> int \<Rightarrow> Conn \<Rightarrow> recv_result \<times> Conn" where
  "conn_RecvMsgTimeout c env timeout now d conn =
     (if d \<le> 0 then conn_RecvMsg c env timeout now conn
      else case conn_RecvMsg c env timeout now conn of
        (RecvErr e carries, conn) \<Rightarrow> (if carries then RecvErr E3005 carries else RecvErr e carries, conn)
      | (r, conn) \<Rightarrow> (r, conn))"

definition SetKeepaliveTimings :: "int \<Rightarrow> int \<Rightarrow> Conn \<Rightarrow> Conn" where
  "SetKeepaliveTimings interval deadline conn = conn\<lparr>cn_kaInterval := interval, cn_kaDeadline := deadline\<rparr>"

text \<open>One tick of the ping loop and of the watchdog; the second component says whether the loop goes on.\<close>

definition pingTick :: "crypto \<Rightarrow> write_env \<Rightarrow> int \<Rightarrow> Conn \<Rightarrow> Conn \<times> bool" where
  "pingTick c env now conn =
     (if cn_kaStop conn then (conn, False)
      else if now - cn_lastRecv conn < cn_kaInterval conn then (conn, True)
      else let conn = conn\<lparr>cn_pingTok := cn_pingTok conn + 1\<rparr> in
        case conn_SendMsg c env (M_Ping \<lparr>pi_Token = cn_pingTok conn\<rparr>) conn of
          (Some e, conn) \<Rightarrow> (conn, False)
        | (None, conn) \<Rightarrow> (conn, True))"

text \<open>When the watchdog trips it also makes the pending read fail at once.\<close>

definition watchTick :: "int \<Rightarrow> Conn \<Rightarrow> Conn \<times> bool" where
  "watchTick now conn =
     (if cn_kaStop conn then (conn, False)
      else if now - cn_lastRecv conn > cn_kaDeadline conn then
        (conn\<lparr>cn_kaExpired := True, cn_r := (cn_r conn)\<lparr>re_in := [], re_ioerr := True\<rparr>\<rparr>, False)
      else (conn, True))"

datatype close_result = CloseOK | CloseWriter Code | CloseSocket

definition conn_Close :: "crypto \<Rightarrow> write_env \<Rightarrow> bool \<Rightarrow> Conn \<Rightarrow> close_result \<times> Conn" where
  "conn_Close c env closeFails conn = (case Writer_Close c env (cn_w conn) of
     (werr, w) \<Rightarrow> (case werr of
         Some e \<Rightarrow> CloseWriter e
       | None \<Rightarrow> if closeFails then CloseSocket else CloseOK, conn\<lparr>cn_w := w, cn_kaStop := True\<rparr>))"

section \<open>Messages in, messages out\<close>

fun send_all :: "crypto \<Rightarrow> (bytes \<times> Message) list \<Rightarrow> Conn \<Rightarrow> Code option \<times> Conn" where
  "send_all c [] conn = (None, conn)"
| "send_all c ((iv, m) # ms) conn = (case conn_SendMsg c (good_env iv) m conn of
     (Some e, conn) \<Rightarrow> (Some e, conn)
   | (None, conn) \<Rightarrow> send_all c ms conn)"

lemma conn_RecvMsg_progress:
  "conn_RecvMsg c env timeout now conn = (Got m, conn') \<Longrightarrow> length (re_in (cn_r conn')) < length (re_in (cn_r conn))"
proof (induction c env timeout now conn rule: conn_RecvMsg.induct)
  case (1 c env timeout now conn)
  obtain fr r where rd: "ReadFrame c (cn_r conn) = (fr, r)" by fastforce
  show ?case
  proof (cases fr)
    case (Frame f)
    let ?conn = "conn\<lparr>cn_r := r, cn_lastRecv := now\<rparr>"
    have lt: "length (re_in r) < length (re_in (cn_r conn))" using ReadFrame_progress rd Frame by blast
    obtain um where u: "Unmarshal f = Inr um" using "1.prems" rd Frame by (cases "Unmarshal f") (auto simp: conn_RecvMsg.simps [of c env timeout now conn] Let_def)
    note eq = "1.prems" [unfolded conn_RecvMsg.simps [of c env timeout now conn] rd Frame prod.case frame_result.case Let_def u sum.case]
    note ih = "1.IH" [OF rd [symmetric] Frame refl u]
    consider (ping) v where "um = M_Ping v" | (pong) v where "um = M_Pong v" | (other) "\<forall>v. um \<noteq> M_Ping v" "\<forall>v. um \<noteq> M_Pong v" by blast
    then show ?thesis
    proof cases
      case ping
      obtain e conn1 where s: "conn_SendMsg c (env (wr_seq (cn_w ?conn))) (M_Pong \<lparr>po_Token = pi_Token v\<rparr>) ?conn = (e, conn1)" by fastforce
      have "e = None" using eq s ping by (cases e) auto
      then have "conn_RecvMsg c env timeout now conn1 = (Got m, conn')" using eq s ping by simp
      from ih(1) [OF ping s [symmetric] \<open>e = None\<close> this] show ?thesis using lt conn_SendMsg_reader [OF s] by simp
    next
      case pong
      then have "conn_RecvMsg c env timeout now ?conn = (Got m, conn')" using eq by simp
      from ih(2) [OF pong this] show ?thesis using lt by simp
    next
      case other
      then have "conn' = ?conn" using eq by (cases um) auto
      then show ?thesis using lt by simp
    qed
  qed (use "1.prems" rd in \<open>auto simp: conn_RecvMsg.simps [of c env timeout now conn] split: if_splits\<close>)
qed

text \<open>All messages up to the first result that is none.\<close>

function recv_all :: "crypto \<Rightarrow> (u64 \<Rightarrow> write_env) \<Rightarrow> Conn \<Rightarrow> Message list \<times> recv_result" where
  "recv_all c env conn = (case conn_RecvMsg c env False 0 conn of
     (Got m, conn) \<Rightarrow> (case recv_all c env conn of (ms, r) \<Rightarrow> (m # ms, r))
   | (r, conn) \<Rightarrow> ([], r))"
  by pat_completeness auto
termination
  by (relation "measure (\<lambda>(c, env, conn). length (re_in (cn_r conn)))") (auto dest: conn_RecvMsg_progress [OF sym])

declare recv_all.simps [simp del]

definition frame_of :: "Message \<Rightarrow> bytes" where
  "frame_of m = [Type m] @ be32 (word_of_nat (length (body_of m))) @ body_of m"

definition sendable :: "u8 \<Rightarrow> Message \<Rightarrow> bool" where
  "sendable cid m \<longleftrightarrow> wf_msg m \<and> FrameHeaderLen + length (body_of m) \<le> MaxFramePlaintext \<and> fits cid (frame_of m)"

lemma sendable_frame: "sendable cid m \<Longrightarrow> Marshal m = Inr (frame_of m) \<and> Unmarshal (frame_of m) = Inr m \<and> frame_of m \<noteq> [] \<and> fits cid (frame_of m)"
  using Marshal_Unmarshal [of m] Marshal_eq [of m] by (auto simp: sendable_def frame_of_def)

lemma sendable_pong: "sendable cid (M_Pong p)"
  by (simp add: sendable_def frame_of_def fits_def length_pkcs7Pad maxCT_def rec_consts body_of_def enc_Pong_def w_u64_def
      FrameHeaderLen_def MaxFramePlaintext_def be64_def)

lemma SendMsg_writer:
  assumes "aes_key_ok kE" "sendable cid m" "sq \<noteq> - 1" "cn_w conn = writer_at kE kM cid sq out"
  shows "conn_SendMsg c (good_env iv) m conn =
    (None, conn\<lparr>cn_w := writer_at kE kM cid (sq + 1) (out @ record_bytes c kE kM cid sq iv (frame_of m))\<rparr>)"
  using sendable_frame [OF assms(2)] assms
  by (simp add: conn_SendMsg_def WriteFrame_def writeRecord_ok writer_at_open)

definition frames :: "(bytes \<times> Message) list \<Rightarrow> (bytes \<times> bytes) list" where
  "frames ms = map (\<lambda>(iv, m). (iv, frame_of m)) ms"

definition all_sendable :: "u8 \<Rightarrow> (bytes \<times> Message) list \<Rightarrow> bool" where
  "all_sendable cid ms \<longleftrightarrow> list_all (\<lambda>(iv, m). length iv = ivLen \<and> sendable cid m) ms"

lemma send_all_stream:
  assumes "aes_key_ok kE"
  shows "all_sendable cid ms \<Longrightarrow> unat sq + length ms < 2 ^ 64 \<Longrightarrow> cn_w conn = writer_at kE kM cid sq out \<Longrightarrow>
    send_all c ms conn = (None, conn\<lparr>cn_w := writer_at kE kM cid (sq + word_of_nat (length ms)) (out @ stream c kE kM cid sq (frames ms))\<rparr>)"
proof (induction ms arbitrary: sq out conn)
  case Nil
  then show ?case by (simp add: frames_def)
next
  case (Cons p ms)
  obtain iv m where p: "p = (iv, m)" by fastforce
  have sq: "sq \<noteq> - 1" "unat (sq + 1) = unat sq + 1"
    using u64_seq_room [of sq "length ms"] Cons.prems(2) by simp_all
  have "sendable cid m" using Cons.prems(1) by (simp add: p all_sendable_def)
  note snd = SendMsg_writer [OF assms this sq(1) Cons.prems(3), of c iv]
  show ?case using Cons.IH [of "sq + 1" "conn\<lparr>cn_w := writer_at kE kM cid (sq + 1) (out @ record_bytes c kE kM cid sq iv (frame_of m))\<rparr>"]
      Cons.prems sq snd by (simp add: p all_sendable_def frames_def add.assoc)
qed

fun keepalive :: "Message \<Rightarrow> bool" where
  "keepalive (M_Ping v) = True"
| "keepalive (M_Pong v) = True"
| "keepalive m = False"

text \<open>Receiving a record of a message: it is returned, or answered and passed over.\<close>

lemma recv_all_record:
  assumes c: "crypto_ok c" "aes_key_ok kE" "aes_key_ok kE'" and iv: "length iv = ivLen" and m: "sendable cid m"
    and r: "cn_r conn = reader_at kE kM cid sq (record_bytes c kE kM cid sq iv (frame_of m) @ rest)"
    and w: "cn_w conn = writer_at kE' kM' cid sq' out" "sq' \<noteq> - 1"
  shows "\<exists>conn' n out'. cn_r conn' = reader_at kE kM cid (sq + 1) rest \<and> cn_w conn' = writer_at kE' kM' cid n out' \<and>
    unat n \<le> unat sq' + 1 \<and>
    recv_all c (\<lambda>_. good_env iv0) conn = (case recv_all c (\<lambda>_. good_env iv0) conn' of (ms, e) \<Rightarrow> (if keepalive m then ms else m # ms, e))"
proof -
  let ?env = "\<lambda>_ :: u64. good_env iv0"
  note f = sendable_frame [OF m]
  let ?conn = "conn\<lparr>cn_r := reader_at kE kM cid (sq + 1) rest, cn_lastRecv := 0\<rparr>"
  have rd: "ReadFrame c (cn_r conn) = (Frame (frame_of m), reader_at kE kM cid (sq + 1) rest)"
    unfolding r using ReadFrame_record [OF c(1,2) iv, of cid "frame_of m" kM sq rest] f by simp
  have eq: "conn_RecvMsg c ?env False 0 conn = (case m of
      M_Ping v \<Rightarrow> (case conn_SendMsg c (good_env iv0) (M_Pong \<lparr>po_Token = pi_Token v\<rparr>) ?conn of
           (Some e, conn) \<Rightarrow> (RecvErr e False, conn) | (None, conn) \<Rightarrow> conn_RecvMsg c ?env False 0 conn)
    | M_Pong v \<Rightarrow> conn_RecvMsg c ?env False 0 ?conn | m \<Rightarrow> (Got m, ?conn))"
    by (subst conn_RecvMsg.simps) (simp add: rd f Let_def)
  have again: "recv_all c ?env conn = recv_all c ?env conn1" if "conn_RecvMsg c ?env False 0 conn = conn_RecvMsg c ?env False 0 conn1" for conn1
    by (subst (1 2) recv_all.simps) (simp add: that)
  consider (ping) v where "m = M_Ping v" | (pong) v where "m = M_Pong v" | (other) "\<not> keepalive m" by (cases m) auto
  then show ?thesis
  proof cases
    case ping
    let ?out = "out @ record_bytes c kE' kM' cid sq' iv0 (frame_of (M_Pong \<lparr>po_Token = pi_Token v\<rparr>))"
    let ?conn1 = "?conn\<lparr>cn_w := writer_at kE' kM' cid (sq' + 1) ?out\<rparr>"
    have "conn_SendMsg c (good_env iv0) (M_Pong \<lparr>po_Token = pi_Token v\<rparr>) ?conn = (None, ?conn1)"
      by (rule SendMsg_writer [OF c(3) sendable_pong w(2)]) (simp add: w(1))
    then have "recv_all c ?env conn = recv_all c ?env ?conn1" using eq ping by (intro again) simp
    moreover have "unat (sq' + 1) \<le> unat sq' + 1" by (metis Suc_eq_plus1 Suc_n_not_le_n add.commute nat_le_linear unatSuc unsigned_0 w(2) add_eq_0_iff)
    ultimately show ?thesis by (intro exI [of _ ?conn1] exI [of _ "sq' + 1"] exI [of _ ?out]) (simp add: ping case_prod_unfold)
  next
    case pong
    then have "recv_all c ?env conn = recv_all c ?env ?conn" using eq by (intro again) simp
    then show ?thesis by (intro exI [of _ ?conn] exI [of _ sq'] exI [of _ out]) (simp add: pong w(1) case_prod_unfold)
  next
    case other
    then have "conn_RecvMsg c ?env False 0 conn = (Got m, ?conn)" using eq by (cases m) auto
    then have "recv_all c ?env conn = (case recv_all c ?env ?conn of (ms, e) \<Rightarrow> (m # ms, e))" by (subst recv_all.simps) simp
    then show ?thesis using other by (intro exI [of _ ?conn] exI [of _ sq'] exI [of _ out]) (simp add: w(1) case_prod_unfold)
  qed
qed

lemma recv_all_stream:
  assumes c: "crypto_ok c" "aes_key_ok kE" "aes_key_ok kE'" and iv: "length iv' = ivLen"
  shows "all_sendable cid ms \<Longrightarrow> cn_r conn = reader_at kE kM cid sq (stream c kE kM cid sq (frames ms @ [(iv', [])])) \<Longrightarrow>
    cn_w conn = writer_at kE' kM' cid sq' out \<Longrightarrow> unat sq' + length ms < 2 ^ 64 \<Longrightarrow>
    recv_all c (\<lambda>_. good_env iv0) conn = (filter (\<lambda>m. \<not> keepalive m) (map snd ms), RecvEOF)"
proof (induction ms arbitrary: sq sq' out conn)
  case Nil
  then have "ReadFrame c (cn_r conn) = (EOF, (reader_at kE kM cid (sq + 1) [])\<lparr>re_done := True\<rparr>)"
    using ReadFrame_record [OF c(1,2) iv, of cid "[]" kM sq "[]"] by (simp add: frames_def)
  then show ?case by (subst recv_all.simps, subst conn_RecvMsg.simps) simp
next
  case (Cons p ms)
  obtain iv m where p: "p = (iv, m)" by fastforce
  have m: "length iv = ivLen" "sendable cid m" "all_sendable cid ms" using Cons.prems(1) by (simp_all add: p all_sendable_def)
  have r: "cn_r conn = reader_at kE kM cid sq (record_bytes c kE kM cid sq iv (frame_of m) @ stream c kE kM cid (sq + 1) (frames ms @ [(iv', [])]))"
    using Cons.prems(2) by (simp add: p frames_def)
  have sq: "sq' \<noteq> - 1" using u64_seq_room [of sq' "length ms"] Cons.prems(4) by simp
  obtain conn' n out' where conn': "cn_r conn' = reader_at kE kM cid (sq + 1) (stream c kE kM cid (sq + 1) (frames ms @ [(iv', [])]))"
    "cn_w conn' = writer_at kE' kM' cid n out'" "unat n \<le> unat sq' + 1"
    "recv_all c (\<lambda>_. good_env iv0) conn = (case recv_all c (\<lambda>_. good_env iv0) conn' of (ms, e) \<Rightarrow> (if keepalive m then ms else m # ms, e))"
    using recv_all_record [OF c m(1,2) r Cons.prems(3) sq] by blast
  have "unat n + length ms < 2 ^ 64" using conn'(3) Cons.prems(4) by simp
  from Cons.IH [OF m(3) conn'(1,2) this] conn'(4) show ?case by (simp add: p)
qed

section \<open>End to end\<close>

fun other_role :: "Role \<Rightarrow> Role" where
  "other_role Sender = Receiver"
| "other_role Receiver = Sender"

text \<open>HKDF-Expand of 32 bytes gives 32 bytes.\<close>

definition expand_ok :: "prims \<Rightarrow> bool" where
  "expand_ok P \<longleftrightarrow> (\<forall>prk info. \<exists>k. pr_expand P prk info = Some k \<and> length k = 32)"

lemma recordKeys_ok: "expand_ok P \<Longrightarrow> \<exists>e m. recordKeys P sch dir cid = Inr (e, m) \<and> aes_key_ok e"
proof -
  assume P: "expand_ok P"
  obtain e where e: "pr_expand P (sc_prk sch) (infoEncPrefix @ Direction_String dir @ [cid]) = Some e" "length e = 32"
    using P unfolding expand_ok_def by blast
  obtain m where m: "pr_expand P (sc_prk sch) (infoMacPrefix @ Direction_String dir @ [cid]) = Some m"
    using P unfolding expand_ok_def by blast
  show ?thesis using e m by (simp add: recordKeys_def expand_def aes_key_ok_def Let_def)
qed

text \<open>The keys of both directions of a new connection.\<close>

lemma newConn_keys:
  assumes "se_keys s = Map.empty" "directions role = (wd, rd)"
    and "recordKeys P (se_sch s) wd cid = Inr (wE, wM)" "recordKeys P (se_sch s) rd cid = Inr (rE, rM)"
  shows "cn_w (fst (newConn P inp False now cid role s)) = writer_at wE wM cid 0 [] \<and>
    cn_r (fst (newConn P inp False now cid role s)) = reader_at rE rM cid 0 inp"
proof -
  have ne: "rd \<noteq> wd" using assms(2) by (auto simp: directions_def split: if_splits)
  have "RecordKeys P wd cid s = ((wE, wM), s\<lparr>se_keys := (se_keys s)((wd, cid) \<mapsto> (wE, wM))\<rparr>)"
    using assms by (simp add: RecordKeys_def)
  moreover have "fst (RecordKeys P rd cid (s\<lparr>se_keys := (se_keys s)((wd, cid) \<mapsto> (wE, wM))\<rparr>)) = (rE, rM)"
    using assms ne by (simp add: RecordKeys_def)
  ultimately show ?thesis
    using assms(2) by (simp add: newConn_def newWriter_def writer_at_def NewReader_def reader_at_def case_prod_unfold Let_def)
qed

text \<open>
  C6. A channel carries messages exactly: when the two ends have sessions with the same key schedule, every
  sequence of well-formed messages that fit the channel can be sent, and the other end receives exactly
  those messages in the same order, without the keepalive messages, which it answers itself, and then
  the clean end of the stream.
\<close>

theorem channel_delivers:
  assumes c: "crypto_ok c" and P: "expand_ok P"
    and sess: "se_sch s1 = se_sch s2" "se_keys s1 = Map.empty" "se_keys s2 = Map.empty"
    and ms: "all_sendable cid ms" "length ms + 1 < 2 ^ 64" and iv: "length iv' = ivLen"
    and run: "send_all c ms (fst (newConn P inp False now cid role s1)) = (e, a1)" "conn_Close c (good_env iv') False a1 = (e', a2)"
  shows "e = None \<and> e' = CloseOK \<and>
    recv_all c (\<lambda>_. good_env iv0) (fst (newConn P (wr_out (cn_w a2)) False now' cid (other_role role) s2)) =
      (filter (\<lambda>m. \<not> keepalive m) (map snd ms), RecvEOF)"
proof -
  obtain wd rd where d: "directions role = (wd, rd)" "directions (other_role role) = (rd, wd)"
    by (cases role) (simp_all add: directions_def)
  obtain wE wM where wk: "recordKeys P (se_sch s1) wd cid = Inr (wE, wM)" "aes_key_ok wE" using recordKeys_ok [OF P] by blast
  obtain rE rM where rk: "recordKeys P (se_sch s1) rd cid = Inr (rE, rM)" "aes_key_ok rE" using recordKeys_ok [OF P] by blast
  let ?a = "fst (newConn P inp False now cid role s1)" and ?n = "word_of_nat (length ms) :: u64"
  have wa: "cn_w ?a = writer_at wE wM cid 0 []" using newConn_keys [OF sess(2) d(1) wk(1) rk(1)] by blast
  have snt: "send_all c ms ?a = (None, ?a\<lparr>cn_w := writer_at wE wM cid ?n (stream c wE wM cid 0 (frames ms))\<rparr>)"
    using send_all_stream [OF wk(2) ms(1) _ wa, of c] ms(2) by simp
  have "?n \<noteq> - 1" using u64_seq_room [of ?n 0] ms(2) by (simp add: unat_of_nat)
  then have cl: "e' = CloseOK" "wr_out (cn_w a2) = stream c wE wM cid 0 (frames ms) @ record_bytes c wE wM cid ?n iv' []"
    using run snt writeRecord_ok [OF wk(2) fits_Nil, of ?n c iv' True wM] by (auto simp: conn_Close_def Writer_Close_def writer_at_def)
  have st: "wr_out (cn_w a2) = stream c wE wM cid 0 (frames ms @ [(iv', [])])"
    unfolding cl(2) stream_append by (simp add: frames_def)
  let ?b = "fst (newConn P (wr_out (cn_w a2)) False now' cid (other_role role) s2)"
  have b: "cn_w ?b = writer_at rE rM cid 0 []" "cn_r ?b = reader_at wE wM cid 0 (stream c wE wM cid 0 (frames ms @ [(iv', [])]))"
    using newConn_keys [OF sess(3) d(2), of P cid rE rM wE wM] wk(1) rk(1) sess(1) st by simp_all
  have "recv_all c (\<lambda>_. good_env iv0) ?b = (filter (\<lambda>m. \<not> keepalive m) (map snd ms), RecvEOF)"
    by (rule recv_all_stream [OF c wk(2) rk(2) iv ms(1) b(2,1)]) (use ms(2) in simp)
  then show ?thesis using run(1) snt cl(1) by simp
qed

definition sample_session :: Session where
  "sample_session = newSession sample_sid 2 \<lparr>sc_prk = [1], sc_kConf = [], sc_kChan = [4]\<rparr>"

lemma sample_expand_ok: "expand_ok sample_prims"
  by (auto simp: expand_ok_def sample_prims_def min_def)

theorem channel_delivers_witness:
  "\<exists>e a1 e' a2. send_all toy_crypto [(replicate 16 1, M_Ping \<lparr>pi_Token = 3\<rparr>), (replicate 16 1, M_Credit \<lparr>cr_AdditionalGroups = 1\<rparr>)]
       (fst (newConn sample_prims [] False 0 0 Receiver sample_session)) = (e, a1) \<and>
     conn_Close toy_crypto (good_env (replicate 16 2)) False a1 = (e', a2) \<and>
     recv_all toy_crypto (\<lambda>_. good_env (replicate 16 0)) (fst (newConn sample_prims (wr_out (cn_w a2)) False 0 0 Sender sample_session)) =
       ([M_Credit \<lparr>cr_AdditionalGroups = 1\<rparr>], RecvEOF)"
proof -
  let ?ms = "[(replicate 16 1, M_Ping \<lparr>pi_Token = 3\<rparr>), (replicate 16 1, M_Credit \<lparr>cr_AdditionalGroups = 1\<rparr>)] :: (bytes \<times> Message) list"
  obtain e a1 where 1: "send_all toy_crypto ?ms (fst (newConn sample_prims [] False 0 0 Receiver sample_session)) = (e, a1)" by fastforce
  obtain e' a2 where 2: "conn_Close toy_crypto (good_env (replicate 16 2)) False a1 = (e', a2)" by fastforce
  have ms: "all_sendable 0 ?ms" "length ?ms + 1 < 2 ^ 64"
    by (simp_all add: all_sendable_def sendable_def frame_of_def fits_def length_pkcs7Pad maxCT_def rec_consts body_of_def enc_Ping_def enc_Credit_def
        w_u64_def w_u16_def FrameHeaderLen_def MaxFramePlaintext_def be64_def be16_def)
  have s: "se_keys sample_session = Map.empty" by (simp add: sample_session_def newSession_def)
  have iv: "length (replicate 16 (2 :: byte)) = ivLen" by (simp add: ivLen_def)
  from channel_delivers [OF toy_crypto_ok sample_expand_ok refl s s ms iv 1 2, of "replicate 16 0" 0] 1 2 show ?thesis by auto
qed

text \<open>
  A silent peer is noticed: once nothing has arrived for longer than the deadline, the watchdog's next
  tick ends every receive on the channel with E3004, and before that it changes nothing.
\<close>

theorem watchdog_detects_silence:
  "(\<not> cn_kaStop conn \<and> \<not> re_done (cn_r conn) \<and> now - cn_lastRecv conn > cn_kaDeadline conn \<longrightarrow>
      fst (conn_RecvMsg c env to now' (fst (watchTick now conn))) = RecvErr E3004 False \<and> \<not> snd (watchTick now conn)) \<and>
   (now - cn_lastRecv conn \<le> cn_kaDeadline conn \<longrightarrow> fst (watchTick now conn) = conn)"
proof -
  let ?conn = "conn\<lparr>cn_kaExpired := True, cn_r := (cn_r conn)\<lparr>re_in := [], re_ioerr := True\<rparr>\<rparr>"
  have "fst (conn_RecvMsg c env to now' ?conn) = RecvErr E3004 False" if "\<not> re_done (cn_r conn)"
    using that by (subst conn_RecvMsg.simps) (simp add: ReadFrame_def ReadFull_def headerLen_def)
  then show ?thesis by (simp add: watchTick_def)
qed

theorem watchdog_detects_silence_witness:
  "fst (conn_RecvMsg toy_crypto (\<lambda>_. good_env []) False 0
     (fst (watchTick 45000000001 (fst (newConn sample_prims [] False 0 0 Receiver sample_session))))) = RecvErr E3004 False"
proof -
  let ?c = "fst (newConn sample_prims [] False 0 0 Receiver sample_session)"
  have "\<not> cn_kaStop ?c \<and> \<not> re_done (cn_r ?c) \<and> 45000000001 - cn_lastRecv ?c > cn_kaDeadline ?c"
    by (simp add: newConn_def case_prod_unfold Let_def NewReader_def KeepaliveDeadline_def)
  then show ?thesis using watchdog_detects_silence [of ?c 45000000001 toy_crypto "\<lambda>_. good_env []" False 0] by blast
qed

end
