(* ===== verification/Go_Float.thy ===== *)
theory Go_Float
  imports Complex_Main "HOL-Library.Log_Nat"
begin

text \<open>What the program uses of \<^verbatim>\<open>float64\<close>: each operation is one on rational numbers, rounded.\<close>

text \<open>
  \<^verbatim>\<open>float64\<close> in the range the program uses (no overflow, no subnormal number): a rational number rounded to 53
  significant bits, ties to even. \<open>f64_exp x\<close> is the \<open>k\<close> with \<open>2 ^ (k - 1) \<le> \<bar>x\<bar> < 2 ^ k\<close>.
\<close>

definition f64_exp :: "rat \<Rightarrow> int" where
  "f64_exp x = (if \<bar>x\<bar> \<ge> 1 then int (floorlog 2 (nat \<lfloor>\<bar>x\<bar>\<rfloor>)) else 1 - int (floorlog 2 (nat (\<lceil>1 / \<bar>x\<bar>\<rceil> - 1))))"

definition round_even :: "rat \<Rightarrow> int" where
  "round_even y = (let f = \<lfloor>y\<rfloor>; d = y - of_int f in
     if d < 1 / 2 then f else if d > 1 / 2 then f + 1 else if even f then f else f + 1)"

definition f64 :: "rat \<Rightarrow> rat" where
  "f64 x = (if x = 0 then 0 else let u = 2 powi (f64_exp x - 53) in of_int (round_even (x / u)) * u)"

lemma round_even_of_int [simp]: "round_even (of_int i) = i"
  by (simp add: round_even_def)

lemma round_even_nonneg: "0 \<le> y \<Longrightarrow> 0 \<le> round_even y"
proof -
  assume "0 \<le> y"
  then have "0 \<le> \<lfloor>y\<rfloor>" by simp
  then show ?thesis by (auto simp: round_even_def Let_def)
qed

lemma f64_nonneg: "0 \<le> x \<Longrightarrow> 0 \<le> f64 x"
  by (auto simp: f64_def Let_def round_even_nonneg)

end
