(* ===== verification/Channel_Pool.thy ===== *)
theory Channel_Pool
  imports Channel Need_Queue Go_Float
begin

text \<open>
  The receiver's pool of data channels (\<^verbatim>\<open>internal/receiver/run.go\<close>, \<^verbatim>\<open>tune.go\<close>): opening, retiring and rejoining
  channels, and the controller for their number. Each section under \<^verbatim>\<open>chMu\<close> is one step on the record \<open>pool\<close>;
  \<open>pool_step\<close> is what the goroutines can do to it in any order. Goodput is a \<^verbatim>\<open>float64\<close>: a rational number with
  the rounding of each operation written out.
\<close>

section \<open>Configuration\<close>

text \<open>The fields of \<^verbatim>\<open>receiver.Config\<close> that bound the number of channels, and the ceiling of the sender.\<close>

record chan_cfg =
  cc_Channels :: int
  cc_ChannelsPinned :: bool
  cc_MinChannels :: int
  cc_MaxChannels :: int
  cc_senderMaxChannels :: int

definition dataCeiling :: "chan_cfg \<Rightarrow> int" where
  "dataCeiling cfg =
     (let maxCh = cc_MaxChannels cfg;
          maxCh = (if cc_ChannelsPinned cfg then cc_Channels cfg else maxCh);
          maxCh = (if cc_senderMaxChannels cfg > 0 \<and> cc_senderMaxChannels cfg < maxCh then cc_senderMaxChannels cfg else maxCh)
      in if maxCh < 1 then 1 else maxCh)"

text \<open>The number of channels announced in SESSION_READY; \<open>spMax\<close> is the ceiling the sender announced.\<close>

definition initialChannels :: "chan_cfg \<Rightarrow> u32 \<Rightarrow> int" where
  "initialChannels cfg spMax =
     (let nCh = cc_Channels cfg;
          nCh = (if \<not> cc_ChannelsPinned cfg then cc_MinChannels cfg else nCh);
          nCh = (if spMax > 0 \<and> nCh > int (unat spMax) then int (unat spMax) else nCh);
          nCh = (if cc_MaxChannels cfg > 0 \<and> nCh > cc_MaxChannels cfg then cc_MaxChannels cfg else nCh)
      in if nCh < 1 then 1 else nCh)"

section \<open>The pool\<close>

text \<open>
  \<open>cp_pending\<close> holds the ids reserved by \<^verbatim>\<open>addChannel\<close> whose dial has not returned, \<open>cp_cancelled\<close> the workers whose
  context was cancelled; \<open>cp_wg\<close> is the counter of the wait group.
\<close>

record pool =
  cp_workers :: "u8 list"
  cp_pending :: "u8 list"
  cp_cancelled :: "u8 set"
  cp_nextChID :: u8
  cp_pipelineDone :: bool
  cp_wg :: int

definition channelCount :: "pool \<Rightarrow> int" where
  "channelCount s = int (length (cp_workers s))"

text \<open>The first half of \<^verbatim>\<open>addChannel\<close>, under the mutex: \<open>None\<close> is \<^verbatim>\<open>errPipelineDone\<close>.\<close>

definition reserveChannel :: "pool \<Rightarrow> (u8 \<times> pool) option" where
  "reserveChannel s = (if cp_pipelineDone s then None
     else let i = cp_nextChID s + 1 in
       Some (i, s\<lparr>cp_nextChID := i, cp_wg := cp_wg s + 1, cp_pending := i # cp_pending s\<rparr>))"

definition dialFailed :: "u8 \<Rightarrow> pool \<Rightarrow> pool" where
  "dialFailed i s = s\<lparr>cp_wg := cp_wg s - 1, cp_pending := remove1 i (cp_pending s)\<rparr>"

definition register :: "u8 \<Rightarrow> pool \<Rightarrow> pool" where
  "register i s = s\<lparr>cp_workers := cp_workers s @ [i], cp_pending := remove1 i (cp_pending s)\<rparr>"

text \<open>The initial batch: \<^verbatim>\<open>chWg.Add(1)\<close> and \<^verbatim>\<open>registerAndStart\<close> for a channel that is already open.\<close>

definition startInitial :: "u8 \<Rightarrow> pool \<Rightarrow> pool" where
  "startInitial i s = s\<lparr>cp_wg := cp_wg s + 1, cp_workers := cp_workers s @ [i]\<rparr>"

definition retireOne :: "pool \<Rightarrow> bool \<times> pool" where
  "retireOne s = (if length (cp_workers s) \<le> 1 then (False, s)
     else (True, s\<lparr>cp_cancelled := insert (last (cp_workers s)) (cp_cancelled s)\<rparr>))"

definition removeWorker :: "u8 \<Rightarrow> pool \<Rightarrow> pool" where
  "removeWorker i s = s\<lparr>cp_workers := remove1 i (cp_workers s)\<rparr>"

text \<open>The deferred calls when the fetch loop of a worker ends, in their order.\<close>

definition workerExit :: "u8 \<Rightarrow> pool \<Rightarrow> pool" where
  "workerExit i s = (let s = removeWorker i s in s\<lparr>cp_wg := cp_wg s - 1\<rparr>)"

definition setPipelineDone :: "pool \<Rightarrow> pool" where
  "setPipelineDone s = s\<lparr>cp_pipelineDone := True\<rparr>"

text \<open>\<open>addChannel\<close> as one caller sees it; \<open>dial\<close> is the error of \<open>dialOneData\<close>, if any.\<close>

datatype add_result = Added | PipelineDone | DialErr Code

definition addChannel :: "Code option \<Rightarrow> pool \<Rightarrow> add_result \<times> pool" where
  "addChannel dial s = (case reserveChannel s of
     None \<Rightarrow> (PipelineDone, s)
   | Some (i, s) \<Rightarrow> (case dial of
       Some e \<Rightarrow> (DialErr e, dialFailed i s)
     | None \<Rightarrow> (Added, register i s)))"

text \<open>
  \<^verbatim>\<open>dialOneData\<close>: \<open>refused\<close> says that the dial fails; otherwise the join is answered with \<open>reply\<close>, and on success the
  connection reads \<open>inp\<close>.
\<close>

record dial_env =
  de_refused :: bool
  de_nonce :: "bytes option"
  de_writeFails :: bool
  de_reply :: bytes
  de_inp :: bytes
  de_ioerr :: bool
  de_now :: int

definition dialOneData :: "prims \<Rightarrow> dial_env \<Rightarrow> Session \<Rightarrow> u8 \<Rightarrow> (Code + Conn) \<times> Session" where
  "dialOneData P env sess i =
     (if de_refused env then (Inl E3006, sess)
      else case JoinChannel P (de_nonce env) (de_writeFails env) (de_reply env) sess i of
        (Some e, _) \<Rightarrow> (Inl e, sess)
      | (None, _) \<Rightarrow> (case Data P (de_inp env) (de_ioerr env) (de_now env) i Receiver sess of
          (c, sess) \<Rightarrow> (Inr c, sess)))"

text \<open>\<^verbatim>\<open>dialData\<close>: the channels 1 to n in order, one environment for each.\<close>

fun dialLoop :: "prims \<Rightarrow> (u8 \<Rightarrow> dial_env) \<Rightarrow> nat list \<Rightarrow> Session \<Rightarrow> (Code + Conn list) \<times> Session" where
  "dialLoop P env [] sess = (Inr [], sess)"
| "dialLoop P env (k # ks) sess = (case dialOneData P (env (word_of_nat k)) sess (word_of_nat k) of
     (Inl e, sess) \<Rightarrow> (Inl e, sess)
   | (Inr c, sess) \<Rightarrow> (case dialLoop P env ks sess of
       (Inl e, sess) \<Rightarrow> (Inl e, sess)
     | (Inr cs, sess) \<Rightarrow> (Inr (c # cs), sess)))"

definition dialData :: "prims \<Rightarrow> (u8 \<Rightarrow> dial_env) \<Rightarrow> nat \<Rightarrow> Session \<Rightarrow> pool \<Rightarrow> (Code + Conn list) \<times> Session \<times> pool" where
  "dialData P env n sess s = (case dialLoop P env [1..<Suc n] sess of
     (Inl e, sess) \<Rightarrow> (Inl e, sess, s)
   | (Inr cs, sess) \<Rightarrow> (Inr cs, sess, s\<lparr>cp_nextChID := word_of_nat n\<rparr>))"

section \<open>Rejoining a lost channel\<close>

definition joinBackoff :: "int list" where
  "joinBackoff = [500000000, 2000000000, 8000000000]"

text \<open>
  One attempt: what the session looks like when its delay is over. \<open>ra_others\<close> is what the other goroutines did to
  the pool in the meantime.
\<close>

record rejoin_attempt =
  ra_rootDone :: bool
  ra_failed :: bool
  ra_others :: "pool \<Rightarrow> pool"
  ra_dial :: "Code option"

datatype rejoin_result = Gone | Restored | Exhausted

fun rejoinAttempts :: "chan_cfg \<Rightarrow> rejoin_attempt list \<Rightarrow> pool \<Rightarrow> rejoin_result \<times> pool" where
  "rejoinAttempts cfg [] s = (Exhausted, s)"
| "rejoinAttempts cfg (a # as) s =
     (let s = ra_others a s in
      if ra_rootDone a then (Gone, s)
      else if ra_failed a then (Gone, s)
      else if channelCount s \<ge> dataCeiling cfg then (Gone, s)
      else case addChannel (ra_dial a) s of
        (Added, s) \<Rightarrow> (Restored, s)
      | (PipelineDone, s) \<Rightarrow> (Gone, s)
      | (DialErr e, s) \<Rightarrow> rejoinAttempts cfg as s)"

text \<open>The fault recorded when the attempts are used up, if any: \<open>failed\<close> and \<open>q\<close> are the session's error and queue then.\<close>

definition rejoinLoop :: "chan_cfg \<Rightarrow> (nat \<Rightarrow> rejoin_attempt) \<Rightarrow> bool \<Rightarrow> needQueue \<Rightarrow> pool \<Rightarrow> Code option \<times> rejoin_result \<times> pool" where
  "rejoinLoop cfg att failed q s = (case rejoinAttempts cfg (map att [0..<length joinBackoff]) s of
     (Exhausted, s) \<Rightarrow> (if \<not> failed \<and> channelCount s = 0 \<and> \<not> queue_drained q then Some E3005 else None, Exhausted, s)
   | (r, s) \<Rightarrow> (None, r, s))"

section \<open>The controller\<close>

definition tuneWindowSeconds :: rat where "tuneWindowSeconds = 2"
definition tuneRampUpThreshold :: rat where "tuneRampUpThreshold = f64 (108 / 100)"
definition tuneRampDnThreshold :: rat where "tuneRampDnThreshold = f64 (92 / 100)"
definition tuneRampUpStep :: int where "tuneRampUpStep = 2"
definition tuneMaxUnproductive :: int where "tuneMaxUnproductive = 3"

datatype rampAction = rampHold | rampUp | rampDown

definition decideRamp :: "int \<Rightarrow> int \<Rightarrow> int \<Rightarrow> rat \<Rightarrow> rat \<Rightarrow> bool \<Rightarrow> rampAction \<times> rat" where
  "decideRamp n minCh maxCh g bestG errored =
     (if \<not> errored \<and> n < maxCh \<and> g > f64 (bestG * tuneRampUpThreshold) then (rampUp, max bestG g)
      else if n > minCh \<and> g < f64 (bestG * tuneRampDnThreshold) then (rampDown, bestG)
      else (rampHold, bestG))"

record tuner =
  tn_bestG :: rat
  tn_lastBytes :: int
  tn_lastRetries :: int
  tn_lastFailed :: int
  tn_unproductive :: int
  tn_stopped :: bool

definition tuneBounds :: "chan_cfg \<Rightarrow> int \<times> int" where
  "tuneBounds cfg =
     (let minCh = cc_MinChannels cfg; maxCh = cc_MaxChannels cfg;
          maxCh = (if cc_senderMaxChannels cfg > 0 \<and> cc_senderMaxChannels cfg < maxCh then cc_senderMaxChannels cfg else maxCh)
      in (minCh, if maxCh < minCh then minCh else maxCh))"

text \<open>The loop of a ramp-up: \<open>k\<close> channels, each with the outcome of its dial, until one fails.\<close>

fun openChannels :: "Code option list \<Rightarrow> pool \<Rightarrow> pool" where
  "openChannels [] s = s"
| "openChannels (d # ds) s = (case addChannel d s of
     (Added, s) \<Rightarrow> openChannels ds s
   | (_, s) \<Rightarrow> s)"

text \<open>One window: the counters of the session, and the outcomes of the dials should the controller open channels.\<close>

record window =
  wi_bytes :: int
  wi_retries :: int
  wi_failed :: int
  wi_dials :: "nat \<Rightarrow> Code option"

definition goodput :: "int \<Rightarrow> int \<Rightarrow> rat" where
  "goodput bytesNow lastBytes = f64 (f64 (of_int (bytesNow - lastBytes)) / tuneWindowSeconds)"

definition tuneTick :: "chan_cfg \<Rightarrow> window \<Rightarrow> tuner \<times> pool \<Rightarrow> tuner \<times> pool" where
  "tuneTick cfg wi ts = (case ts of (t, s) \<Rightarrow> (case tuneBounds cfg of (minCh, maxCh) \<Rightarrow>
     let g = goodput (wi_bytes wi) (tn_lastBytes t);
         errored = (wi_retries wi > tn_lastRetries t \<or> wi_failed wi > tn_lastFailed t);
         t = t\<lparr>tn_lastBytes := wi_bytes wi, tn_lastRetries := wi_retries wi, tn_lastFailed := wi_failed wi\<rparr>;
         n = channelCount s
     in if tn_stopped t then (t, s)
        else if n = 0 then (t, s)
        else case decideRamp n minCh maxCh g (tn_bestG t) errored of (action, newBestG) \<Rightarrow>
          let t = t\<lparr>tn_bestG := newBestG\<rparr>;
              (t, s) = (case action of
                 rampUp \<Rightarrow>
                   (let target = min (n + tuneRampUpStep) maxCh in
                    (t\<lparr>tn_unproductive := 0\<rparr>, openChannels (map (wi_dials wi) [0..<nat (target - n)]) s))
               | rampDown \<Rightarrow> (case retireOne s of
                   (True, s) \<Rightarrow> (t\<lparr>tn_unproductive := tn_unproductive t + 1\<rparr>, s)
                 | (False, s) \<Rightarrow> (t, s))
               | rampHold \<Rightarrow> (t, s))
          in (if tn_unproductive t \<ge> tuneMaxUnproductive then t\<lparr>tn_stopped := True\<rparr> else t, s)))"

definition startTuner :: "int \<Rightarrow> int \<Rightarrow> int \<Rightarrow> tuner" where
  "startTuner bytes0 retries0 failed0 = \<lparr>tn_bestG = 0, tn_lastBytes = bytes0, tn_lastRetries = retries0,
     tn_lastFailed = failed0, tn_unproductive = 0, tn_stopped = False\<rparr>"

text \<open>The controller over its windows; \<open>others\<close> is what the rest of the session does to the pool in between.\<close>

fun tuneRun :: "chan_cfg \<Rightarrow> ((pool \<Rightarrow> pool) \<times> window) list \<Rightarrow> tuner \<times> pool \<Rightarrow> tuner \<times> pool" where
  "tuneRun cfg [] ts = ts"
| "tuneRun cfg ((others, wi) # ws) ts = tuneRun cfg ws (tuneTick cfg wi (fst ts, others (snd ts)))"

definition tune :: "chan_cfg \<Rightarrow> ((pool \<Rightarrow> pool) \<times> window) list \<Rightarrow> tuner \<Rightarrow> pool \<Rightarrow> tuner \<times> pool" where
  "tune cfg ws t s = (if cc_ChannelsPinned cfg then (t, s) else tuneRun cfg ws (t, s))"

section \<open>Interleavings\<close>

inductive pool_step :: "pool \<Rightarrow> pool \<Rightarrow> bool" where
  reserveChannel: "reserveChannel s = Some (i, s') \<Longrightarrow> pool_step s s'"
| failed: "i \<in> set (cp_pending s) \<Longrightarrow> pool_step s (dialFailed i s)"
| register: "i \<in> set (cp_pending s) \<Longrightarrow> pool_step s (register i s)"
| retire: "retireOne s = (True, s') \<Longrightarrow> pool_step s s'"
| exit: "i \<in> set (cp_workers s) \<Longrightarrow> pool_step s (workerExit i s)"
| finish: "pool_step s (setPipelineDone s)"

text \<open>The pool after the initial batch of \<open>n\<close> channels, and what the goroutines make of it.\<close>

definition initialPool :: "nat \<Rightarrow> pool" where
  "initialPool n = fold (\<lambda>k. startInitial (word_of_nat k)) [1..<Suc n]
     \<lparr>cp_workers = [], cp_pending = [], cp_cancelled = {}, cp_nextChID = word_of_nat n, cp_pipelineDone = False, cp_wg = 0\<rparr>"

lemma fold_startInitial:
  "fold (\<lambda>k. startInitial (word_of_nat k)) ks s =
     s\<lparr>cp_wg := cp_wg s + int (length ks), cp_workers := cp_workers s @ map word_of_nat ks\<rparr>"
  by (induction ks arbitrary: s) (simp_all add: startInitial_def)

lemma initialPool_eq:
  "initialPool n = \<lparr>cp_workers = map word_of_nat [1..<Suc n], cp_pending = [], cp_cancelled = {},
     cp_nextChID = word_of_nat n, cp_pipelineDone = False, cp_wg = int n\<rparr>"
  unfolding initialPool_def fold_startInitial by simp

lemmas pool_defs = reserveChannel_def dialFailed_def register_def retireOne_def removeWorker_def workerExit_def setPipelineDone_def

definition wg_exact :: "pool \<Rightarrow> bool" where
  "wg_exact s \<longleftrightarrow> cp_wg s = int (length (cp_workers s) + length (cp_pending s))"

lemma int_length_remove1: "x \<in> set xs \<Longrightarrow> int (length (remove1 x xs)) = int (length xs) - 1"
  by (induction xs) auto

lemma pool_step_wg_exact: "pool_step s s' \<Longrightarrow> wg_exact s \<Longrightarrow> wg_exact s'"
  by (induction rule: pool_step.induct)
    (auto simp: pool_defs wg_exact_def int_length_remove1 Let_def split: if_splits)

lemma pool_reach_wg_exact: "pool_step\<^sup>*\<^sup>* (initialPool n) s \<Longrightarrow> wg_exact s"
  by (induction rule: rtranclp_induct) (auto simp: initialPool_eq wg_exact_def dest: pool_step_wg_exact)

lemma pool_step_done:
  "pool_step s s' \<Longrightarrow> cp_pipelineDone s \<Longrightarrow> cp_pipelineDone s' \<and> cp_wg s' \<le> cp_wg s"
  by (induction rule: pool_step.induct) (auto simp: pool_defs Let_def split: if_splits)

text \<open>
  The wait group of the session counts exactly the workers that run and the channels being opened, in every
  interleaving; so the final wait ends only when there are none, and once the pipeline is done the counter never
  grows again (no channel is added behind the back of the wait).
\<close>

theorem pool_wait_exact:
  assumes "pool_step\<^sup>*\<^sup>* (initialPool n) s"
  shows "(cp_wg s = 0 \<longleftrightarrow> cp_workers s = [] \<and> cp_pending s = []) \<and> cp_wg s \<ge> 0 \<and>
    (cp_pipelineDone s \<longrightarrow> pool_step\<^sup>*\<^sup>* s s' \<longrightarrow> cp_pipelineDone s' \<and> cp_wg s' \<le> cp_wg s)"
proof -
  have "cp_pipelineDone s' \<and> cp_wg s' \<le> cp_wg s" if "pool_step\<^sup>*\<^sup>* s s'" "cp_pipelineDone s"
    using that by (induction rule: rtranclp_induct) (auto dest: pool_step_done)
  moreover have "int (length xs) + int (length ys) = 0 \<longleftrightarrow> xs = [] \<and> ys = []" for xs ys :: "u8 list"
    by (cases xs; cases ys) auto
  ultimately show ?thesis using pool_reach_wg_exact [OF assms] by (auto simp: wg_exact_def)
qed

theorem pool_wait_exact_witness:
  "cp_wg (workerExit 1 (setPipelineDone (initialPool 1))) = 0 \<and> cp_workers (workerExit 1 (setPipelineDone (initialPool 1))) = []"
proof -
  have "pool_step\<^sup>*\<^sup>* (initialPool 1) (setPipelineDone (initialPool 1))" by (blast intro: pool_step.finish)
  moreover have "pool_step (setPipelineDone (initialPool 1)) (workerExit 1 (setPipelineDone (initialPool 1)))"
    by (rule pool_step.exit) (simp add: setPipelineDone_def initialPool_eq)
  ultimately have "pool_step\<^sup>*\<^sup>* (initialPool 1) (workerExit 1 (setPipelineDone (initialPool 1)))" by simp
  from pool_wait_exact [OF this] show ?thesis by (simp add: pool_defs initialPool_eq Let_def)
qed

section \<open>Fresh channel ids\<close>

text \<open>\<open>opened n s\<close>: the session has opened \<open>n\<close> channels in all, the initial ones included.\<close>

inductive opened :: "nat \<Rightarrow> pool \<Rightarrow> bool" where
  initial: "opened n (initialPool n)"
| reserveChannel: "opened n s \<Longrightarrow> reserveChannel s = Some (i, s') \<Longrightarrow> opened (Suc n) s'"
| other: "opened n s \<Longrightarrow> pool_step s s' \<Longrightarrow> cp_nextChID s' = cp_nextChID s \<Longrightarrow> opened n s'"

definition ids_fresh :: "nat \<Rightarrow> pool \<Rightarrow> bool" where
  "ids_fresh n s \<longleftrightarrow> unat (cp_nextChID s) = n \<and> distinct (cp_workers s @ cp_pending s) \<and>
     (\<forall>i\<in>set (cp_workers s @ cp_pending s). 1 \<le> unat i \<and> unat i \<le> n)"

lemma opened_bound: "opened n s \<Longrightarrow> n < 256 \<Longrightarrow> ids_fresh n s"
proof (induction rule: opened.induct)
  case (initial n)
  have "unat (word_of_nat k :: u8) = k" if "k < Suc n" for k
    using that initial by (simp add: unat_of_nat)
  moreover have "inj_on (word_of_nat :: nat \<Rightarrow> u8) {1..<Suc n}"
    by (rule inj_onI) (metis calculation atLeastLessThan_iff)
  ultimately show ?case by (auto simp: initialPool_eq ids_fresh_def distinct_map simp del: upt_Suc)
next
  case (reserveChannel n s i s')
  then have "unat (cp_nextChID s + 1) = Suc n"
    by (auto simp: ids_fresh_def unat_word_ariths)
  moreover have "i = cp_nextChID s + 1" "s' = s\<lparr>cp_nextChID := i, cp_wg := cp_wg s + 1, cp_pending := i # cp_pending s\<rparr>"
    using reserveChannel(2) by (auto simp: reserveChannel_def Let_def split: if_splits)
  moreover have old: "ids_fresh n s" using reserveChannel(3,4) by simp
  then have "\<forall>j\<in>set (cp_workers s @ cp_pending s). 1 \<le> unat j \<and> unat j \<le> n"
    by (simp add: ids_fresh_def)
  then have "\<forall>j\<in>set (cp_workers s @ cp_pending s). 1 \<le> unat j \<and> unat j \<le> Suc n \<and> unat j \<noteq> Suc n"
    by fastforce
  ultimately show ?case using old by (auto simp: ids_fresh_def)
next
  case (other n s s')
  then have "ids_fresh n s" by simp
  with other(2,3) show ?case
  proof (induction rule: pool_step.induct)
    case (reserveChannel s i s')
    then show ?case by (auto simp: reserveChannel_def Let_def split: if_splits)
  qed (auto simp: pool_defs ids_fresh_def Let_def dest: notin_set_remove1 in_set_remove1 split: if_splits)
qed

text \<open>
  Every data channel of a session, rejoined ones included, has an id of its own as long as fewer than 256
  channels were opened, none of them the id of the control channel; so no two connections share keys.
\<close>

theorem channel_ids_fresh:
  assumes "opened n s" "n < 256"
  shows "distinct (cp_workers s @ cp_pending s) \<and> ControlChannelID \<notin> set (cp_workers s @ cp_pending s)"
  using opened_bound [OF assms] unfolding ids_fresh_def ControlChannelID_def by fastforce

theorem channel_ids_fresh_witness:
  "distinct (cp_workers (snd (addChannel None (initialPool 2))))"
proof -
  obtain s where s: "reserveChannel (initialPool 2) = Some (3, s)" "snd (addChannel None (initialPool 2)) = register 3 s"
    by (simp add: addChannel_def reserveChannel_def initialPool_eq Let_def)
  then have "3 \<in> set (cp_pending s)" "cp_nextChID (register 3 s) = cp_nextChID s"
    by (auto simp: reserveChannel_def register_def Let_def split: if_splits)
  then have "opened 3 (register 3 s)"
    using s(1) opened.initial [of 2] opened.reserveChannel pool_step.register opened.other
    by (metis eval_nat_numeral(3))
  from channel_ids_fresh [OF this] s(2) show ?thesis by simp
qed

section \<open>Rejoining\<close>

text \<open>The id of a join message is where the sender reads it.\<close>

lemma join_id_above:
  assumes "length (se_SessionID sess) = 8" "cid > N"
  shows "fst (AcceptChannel P (join_message P sess cid nonce) wr N sess) \<in> {Inl E3006, Inl E4002}"
proof -
  have "take ChannelJoinLen (join_message P sess cid nonce) ! 14 = cid" if "\<not> length (join_message P sess cid nonce) < ChannelJoinLen"
    using assms(1) by (simp add: join_message_def nth_append ChannelJoinLen_def)
  with assms(2) show ?thesis by (auto simp: AcceptChannel_def Let_def)
qed

text \<open>
  Ids are handed out once and for all, while the sender bounds the id and not the number of live channels: when
  a session has opened as many channels as the sender allows, the replacement of a lost channel is always refused.
\<close>

theorem rejoin_refused_at_ceiling:
  assumes "opened n s" "n < 255" "unat N \<le> n" "reserveChannel s = Some (i, s')" "length (se_SessionID sess) = 8"
  shows "fst (AcceptChannel P (join_message P sess i nonce) wr N sess) \<in> {Inl E3006, Inl E4002}"
proof -
  have "ids_fresh n s" using opened_bound [OF assms(1)] assms(2) by simp
  then have "unat (cp_nextChID s + 1) = Suc n" using assms(2) by (auto simp: ids_fresh_def unat_word_ariths)
  moreover have "i = cp_nextChID s + 1" using assms(4) by (auto simp: reserveChannel_def Let_def split: if_splits)
  ultimately have "i > N" using assms(3) by (simp add: word_less_nat_alt)
  then show ?thesis by (rule join_id_above [OF assms(5)])
qed

theorem rejoin_refused_at_ceiling_witness:
  "fst (AcceptChannel sample_prims (join_message sample_prims sample_session 3 (replicate 16 0)) False 2 sample_session)
     \<in> {Inl E3006, Inl E4002}"
proof -
  obtain s where "reserveChannel (initialPool 2) = Some (3, s)"
    by (simp add: reserveChannel_def initialPool_eq Let_def)
  moreover have "length (se_SessionID sample_session) = 8" by (simp add: sample_session_def newSession_def sample_sid_def)
  ultimately show ?thesis by (intro rejoin_refused_at_ceiling [OF opened.initial]) simp_all
qed

text \<open>
  The rejoin loop of a lost channel ends after at most three attempts, and it makes the session fail (E3005) in
  exactly one case: no attempt succeeded or was given up, no channel is left, no other fault was recorded and the
  need queue still has work.
\<close>

theorem rejoin_outcome:
  "rejoinLoop cfg att failed q s = (Some c, r, s') \<longleftrightarrow>
     c = E3005 \<and> r = Exhausted \<and> rejoinAttempts cfg [att 0, att 1, att 2] s = (Exhausted, s') \<and>
     \<not> failed \<and> cp_workers s' = [] \<and> \<not> queue_drained q"
proof -
  have "map att [0..<length joinBackoff] = [att 0, att 1, att 2]"
    by (simp add: joinBackoff_def upt_rec numeral_2_eq_2)
  then show ?thesis
    by (auto simp: rejoinLoop_def channelCount_def split: prod.splits rejoin_result.splits if_splits)
qed

section \<open>The controller stays within its bounds\<close>

lemma addChannel_steps: "pool_step\<^sup>*\<^sup>* s (snd (addChannel d s))"
proof (cases "reserveChannel s")
  case (Some p)
  obtain i s1 where p: "p = (i, s1)" by force
  with Some have r: "pool_step s s1" "i \<in> set (cp_pending s1)"
    by (auto intro: pool_step.reserveChannel simp: reserveChannel_def Let_def split: if_splits)
  then have "pool_step s1 (dialFailed i s1)" "pool_step s1 (register i s1)"
    by (auto intro: pool_step.failed pool_step.register)
  with r(1) Some p show ?thesis by (auto simp: addChannel_def split: option.splits)
qed (simp add: addChannel_def)

lemma addChannel_workers:
  "addChannel d s = (r, s') \<Longrightarrow> (r = Added \<longrightarrow> length (cp_workers s') = Suc (length (cp_workers s))) \<and>
     (r \<noteq> Added \<longrightarrow> cp_workers s' = cp_workers s) \<and> cp_cancelled s' = cp_cancelled s"
  by (auto simp: addChannel_def reserveChannel_def register_def dialFailed_def Let_def split: option.splits if_splits)

lemma openChannels_steps: "pool_step\<^sup>*\<^sup>* s (openChannels ds s)"
proof (induction ds arbitrary: s)
  case (Cons d ds)
  have "pool_step\<^sup>*\<^sup>* s (snd (addChannel d s))" by (rule addChannel_steps)
  with Cons show ?case by (auto split: prod.splits add_result.splits intro: rtranclp_trans)
qed simp

lemma openChannels_workers:
  "length (cp_workers s) \<le> length (cp_workers (openChannels ds s)) \<and>
   length (cp_workers (openChannels ds s)) \<le> length (cp_workers s) + length ds"
proof (induction ds arbitrary: s)
  case (Cons d ds)
  obtain r v where v: "addChannel d s = (r, v)" by force
  with Cons [of v] addChannel_workers [OF v] show ?case by (cases r) auto
qed simp

lemma openChannels_cancelled [simp]: "cp_cancelled (openChannels ds s) = cp_cancelled s"
proof (induction ds arbitrary: s)
  case (Cons d ds)
  obtain r v where v: "addChannel d s = (r, v)" by force
  with Cons [of v] addChannel_workers [OF v] show ?case by (cases r) auto
qed simp

lemma tuneBounds_range: "tuneBounds cfg = (minCh, maxCh) \<Longrightarrow> minCh \<le> maxCh"
  by (auto simp: tuneBounds_def Let_def split: if_splits)

lemma retireOne_False: "retireOne s = (False, s') \<Longrightarrow> s' = s"
  by (auto simp: retireOne_def split: if_splits)

text \<open>What a window can do: nothing, a ramp up or a ramp down.\<close>

lemma tuneTick_cases:
  assumes "tuneTick cfg wi (t, s) = (t', s')" "tuneBounds cfg = (minCh, maxCh)"
  obtains (idle) "s' = s" "tn_unproductive t' = tn_unproductive t" "tn_bestG t' = tn_bestG t"
      "tn_stopped t' \<longleftrightarrow> tn_stopped t \<or> channelCount s \<noteq> 0 \<and> tn_unproductive t \<ge> 3"
    | (up) "\<not> tn_stopped t" "s' = openChannels (map (wi_dials wi) [0..<nat (min (channelCount s + tuneRampUpStep) maxCh - channelCount s)]) s"
      "channelCount s < maxCh" "tn_unproductive t' = 0" "tn_bestG t \<le> tn_bestG t'" "\<not> tn_stopped t'"
    | (down) "\<not> tn_stopped t" "retireOne s = (True, s')" "channelCount s > minCh"
      "tn_unproductive t' = tn_unproductive t + 1" "tn_bestG t' = tn_bestG t" "tn_stopped t' \<longleftrightarrow> tn_unproductive t' \<ge> 3"
  using assms
  by (auto simp: tuneTick_def decideRamp_def Let_def tuneMaxUnproductive_def dest: retireOne_False
      split: if_splits rampAction.splits prod.splits bool.splits)

text \<open>
  One window of the controller does to the pool only what the session's steps allow; it never takes the number
  of channels above the ceiling, it closes no channel by itself, and it cancels at most the last one, never the
  only one, and only while there are more than the floor.
\<close>

theorem tune_within_bounds:
  assumes "tuneTick cfg wi (t, s) = (t', s')" "tuneBounds cfg = (minCh, maxCh)"
  shows "pool_step\<^sup>*\<^sup>* s s' \<and> length (cp_workers s) \<le> length (cp_workers s') \<and>
    (channelCount s \<le> maxCh \<longrightarrow> channelCount s' \<le> maxCh) \<and>
    (cp_cancelled s' = cp_cancelled s \<or>
     cp_workers s' = cp_workers s \<and> channelCount s > max 1 minCh \<and> cp_cancelled s' = insert (last (cp_workers s)) (cp_cancelled s))"
  using assms
proof (cases rule: tuneTick_cases)
  case up
  let ?ds = "map (wi_dials wi) [0..<nat (min (channelCount s + tuneRampUpStep) maxCh - channelCount s)]"
  have "int (length ?ds) \<le> maxCh - channelCount s" using up(3) by simp
  with openChannels_workers [of s ?ds] up(2)
  have "length (cp_workers s) \<le> length (cp_workers s')" "channelCount s' \<le> maxCh"
    by (auto simp: channelCount_def simp del: length_map)
  with up show ?thesis by (simp add: openChannels_steps)
next
  case down
  then have "pool_step\<^sup>*\<^sup>* s s'" by (blast intro: pool_step.retire)
  with down show ?thesis by (auto simp: channelCount_def retireOne_def split: if_splits)
qed simp

definition sample_window :: "int \<Rightarrow> window" where
  "sample_window b = \<lparr>wi_bytes = b, wi_retries = 0, wi_failed = 0, wi_dials = (\<lambda>_. None)\<rparr>"

definition sample_chan_cfg :: chan_cfg where
  "sample_chan_cfg = \<lparr>cc_Channels = 4, cc_ChannelsPinned = False, cc_MinChannels = 1, cc_MaxChannels = 8, cc_senderMaxChannels = 3\<rparr>"

lemma sample_ramp_up:
  "map_prod tn_bestG cp_workers (tuneTick sample_chan_cfg (sample_window 1000) (startTuner 0 0 0, initialPool 1)) = (500, [1, 2, 3])"
  by code_simp

theorem tune_within_bounds_witness:
  "channelCount (snd (tuneTick sample_chan_cfg (sample_window 1000) (startTuner 0 0 0, initialPool 1))) \<le> 3 \<and>
   cp_workers (snd (tuneTick sample_chan_cfg (sample_window 1000) (startTuner 0 0 0, initialPool 1))) = [1, 2, 3]"
proof -
  obtain t s where ts: "tuneTick sample_chan_cfg (sample_window 1000) (startTuner 0 0 0, initialPool 1) = (t, s)" by force
  have "tuneBounds sample_chan_cfg = (1, 3)" by (simp add: tuneBounds_def sample_chan_cfg_def)
  from tune_within_bounds [OF ts this] sample_ramp_up ts show ?thesis by (auto simp: channelCount_def initialPool_eq)
qed

section \<open>The controller settles\<close>

text \<open>The best goodput never falls, and a settled controller leaves the pool alone.\<close>

definition tuner_ok :: "tuner \<Rightarrow> bool" where
  "tuner_ok t \<longleftrightarrow> 0 \<le> tn_unproductive t \<and> tn_unproductive t \<le> 3 \<and> (tn_unproductive t = 3 \<longleftrightarrow> tn_stopped t)"

lemma tuneTick_ok:
  assumes "tuneTick cfg wi (t, s) = (t', s')" "tuner_ok t"
  shows "tuner_ok t'" "tn_bestG t \<le> tn_bestG t'" "tn_stopped t \<Longrightarrow> tn_stopped t' \<and> s' = s"
proof -
  obtain minCh maxCh where "tuneBounds cfg = (minCh, maxCh)" by force
  from assms(1) this have "tuner_ok t' \<and> tn_bestG t \<le> tn_bestG t' \<and> (tn_stopped t \<longrightarrow> tn_stopped t' \<and> s' = s)"
    by (cases rule: tuneTick_cases) (use assms(2) in \<open>auto simp: tuner_ok_def\<close>)
  then show "tuner_ok t'" "tn_bestG t \<le> tn_bestG t'" "tn_stopped t \<Longrightarrow> tn_stopped t' \<and> s' = s" by auto
qed

lemma tuneRun_ok:
  "tuneRun cfg ws (t, s) = (t', s') \<Longrightarrow> tuner_ok t \<Longrightarrow> tuner_ok t' \<and> tn_bestG t \<le> tn_bestG t' \<and>
     (tn_stopped t \<longrightarrow> tn_stopped t' \<and> s' = fold fst ws s)"
proof (induction ws arbitrary: t s)
  case (Cons w ws)
  obtain others wi where w: "w = (others, wi)" by force
  obtain t1 s1 where 1: "tuneTick cfg wi (t, others s) = (t1, s1)" by force
  with Cons.prems w have "tuneRun cfg ws (t1, s1) = (t', s')" by simp
  with Cons.IH [of t1 s1] tuneTick_ok [OF 1 Cons.prems(2)] w show ?case by auto
qed simp

text \<open>
  Over a whole session the controller keeps its count of unproductive ramps between 0 and 3, its best goodput
  never falls, and once it has settled (three ramps that did not pay) it stays settled and the pool evolves
  by the other goroutines alone, whatever the windows measure.
\<close>

theorem tuner_settles:
  assumes "tune cfg ws1 (startTuner b r f) s = (t1, s1)" "tuneRun cfg ws2 (t1, s1) = (t2, s2)"
  shows "tn_unproductive t1 \<in> {0..3} \<and> tn_bestG t1 \<le> tn_bestG t2 \<and>
    (tn_stopped t1 \<longleftrightarrow> tn_unproductive t1 = 3) \<and> (tn_stopped t1 \<longrightarrow> tn_stopped t2 \<and> s2 = fold fst ws2 s1)"
proof -
  have "tuner_ok (startTuner b r f)" by (simp add: tuner_ok_def startTuner_def)
  then have "tuner_ok t1" using assms(1) tuneRun_ok by (auto simp: tune_def split: if_splits)
  with tuneRun_ok [OF assms(2)] show ?thesis by (auto simp: tuner_ok_def)
qed

definition sample_windows :: "((pool \<Rightarrow> pool) \<times> window) list" where
  "sample_windows = [(id, sample_window 1000), (id, sample_window 1000), (id, sample_window 1000), (id, sample_window 1000)]"

lemma sample_settled: "tn_stopped (fst (tune sample_chan_cfg sample_windows (startTuner 0 0 0) (initialPool 1)))"
  by code_simp

theorem tuner_settles_witness:
  "snd (tuneRun sample_chan_cfg [(id, sample_window 900000)] (tune sample_chan_cfg sample_windows (startTuner 0 0 0) (initialPool 1)))
     = snd (tune sample_chan_cfg sample_windows (startTuner 0 0 0) (initialPool 1))"
proof -
  obtain t1 s1 where 1: "tune sample_chan_cfg sample_windows (startTuner 0 0 0) (initialPool 1) = (t1, s1)" by force
  obtain t2 s2 where 2: "tuneRun sample_chan_cfg [(id, sample_window 900000)] (t1, s1) = (t2, s2)" by force
  from tuner_settles [OF 1 2] sample_settled 1 2 show ?thesis by simp
qed

text \<open>
  Retiring counts as a ramp even when the last worker is already cancelled and only finishes its file: three slow
  windows in that time settle the controller, with one channel retired.
\<close>

lemma retire_counts_twice:
  assumes "retireOne s = (True, s')"
  shows "retireOne s' = (True, s')"
  using assms by (auto simp: retireOne_def split: if_splits)

text \<open>
  The check of the ceiling in the rejoin loop and the reservation of the id are two steps: with a ramp-up in between
  the session has more live channels than the ceiling. Here the ceiling is 2, one of two channels is lost, and
  both the rejoin and the controller replace it.
\<close>

lemma ceiling_race:
  defines "cfg \<equiv> \<lparr>cc_Channels = 2, cc_ChannelsPinned = False, cc_MinChannels = 1, cc_MaxChannels = 2, cc_senderMaxChannels = 32\<rparr>"
  shows "\<exists>s s1 i s2 s3. s = workerExit 2 (initialPool 2) \<and> channelCount s < dataCeiling cfg \<and> reserveChannel s = Some (i, s1) \<and>
    snd (tuneTick cfg (sample_window 1000) (startTuner 0 0 0, s1)) = s2 \<and> register i s2 = s3 \<and> channelCount s3 > dataCeiling cfg"
proof -
  have "(case reserveChannel (workerExit 2 (initialPool 2)) of
      Some (i, s1) \<Rightarrow> channelCount (workerExit 2 (initialPool 2)) < dataCeiling cfg \<and>
        channelCount (register i (snd (tuneTick cfg (sample_window 1000) (startTuner 0 0 0, s1)))) > dataCeiling cfg
    | None \<Rightarrow> False)"
    unfolding cfg_def by code_simp
  then show ?thesis by (auto split: option.splits)
qed

end
