(* ===== verification/Receiver_Session.thy ===== *)
theory Receiver_Session
  imports Dial Decide_Props Channel_Pool
begin

text \<open>
  The receiver's session (\<^verbatim>\<open>internal/receiver/run.go\<close>, \<^verbatim>\<open>config.go\<close>): the configuration with its defaults, the
  candidate order, the control reader, the exit, and \<^verbatim>\<open>Run\<close> as a sequence of stages. What the network and the
  goroutines do at a stage is an input of the stage; the errors that goroutines record are the list that reaches
  the latch before the stage ends.
\<close>

section \<open>Configuration\<close>

record rConfig =
  rc_Link :: bytes
  rc_Dest :: bytes
  rc_Version :: bytes
  rc_DryRun :: bool
  rc_Channels :: int
  rc_ChannelsPinned :: bool
  rc_MinChannels :: int
  rc_MaxChannels :: int
  rc_PipelineDepth :: int
  rc_GroupCredit :: int
  rc_DecideWorkers :: int
  rc_NoFsync :: bool
  rc_CheckpointInterval :: int
  rc_ResumeWindow :: int
  rc_DrainTimeout :: int
  rc_StallTimeout :: int
  rc_ProgressInterval :: int
  rc_AllowUnsafeLinks :: bool
  rc_Owner :: bool
  rc_Quick :: bool
  rc_NoCache :: bool
  rc_ConnectTimeout :: int
  rc_HandshakeTimeout :: int
  rc_Stagger :: int
  rc_SocketBuffer :: int
  rc_MaxRetries :: int
  rc_HashAlg :: Algo

text \<open>\<open>numCPU\<close> is \<^verbatim>\<open>runtime.NumCPU()\<close>; durations are nanoseconds.\<close>

definition receiver_withDefaults :: "int \<Rightarrow> rConfig \<Rightarrow> rConfig" where
  "receiver_withDefaults numCPU c = c\<lparr>
     rc_Channels := or_default (rc_Channels c) 4,
     rc_MinChannels := or_default (rc_MinChannels c) 4,
     rc_MaxChannels := or_default (rc_MaxChannels c) 32,
     rc_PipelineDepth := or_default (rc_PipelineDepth c) 2,
     rc_GroupCredit := or_default (rc_GroupCredit c) 4,
     rc_DecideWorkers := or_default (rc_DecideWorkers c) (min 8 numCPU),
     rc_CheckpointInterval := or_default (rc_CheckpointInterval c) (64 * 2 ^ 20),
     rc_ResumeWindow := or_default (rc_ResumeWindow c) (60 * second),
     rc_DrainTimeout := or_default (rc_DrainTimeout c) (60 * second),
     rc_StallTimeout := or_default (rc_StallTimeout c) (60 * second),
     rc_ProgressInterval := or_default (rc_ProgressInterval c) (5 * second),
     rc_ConnectTimeout := or_default (rc_ConnectTimeout c) (10 * second),
     rc_HandshakeTimeout := or_default (rc_HandshakeTimeout c) (10 * second),
     rc_Stagger := or_default (rc_Stagger c) (250 * milli),
     rc_SocketBuffer := or_default (rc_SocketBuffer c) (4 * 2 ^ 20),
     rc_MaxRetries := or_default (rc_MaxRetries c) 3\<rparr>"

definition chan_cfg_of :: "rConfig \<Rightarrow> u32 \<Rightarrow> chan_cfg" where
  "chan_cfg_of c spMax = \<lparr>cc_Channels = rc_Channels c, cc_ChannelsPinned = rc_ChannelsPinned c,
     cc_MinChannels = rc_MinChannels c, cc_MaxChannels = rc_MaxChannels c, cc_senderMaxChannels = int (unat spMax)\<rparr>"

definition needQueueDepth :: nat where "needQueueDepth = 4 * 1024"
definition spaceMarginBytes :: int where "spaceMarginBytes = 64 * 2 ^ 20"

definition platformID :: "bool \<Rightarrow> u8" where
  "platformID darwin = (if darwin then 1 else 0)"

record rSummary =
  rs_Outcome :: string
  rs_FilesTotal :: u64
  rs_FilesTransferred :: u64
  rs_FilesSkipped :: u64
  rs_FilesFailed :: u64
  rs_FilesRejected :: u64
  rs_BytesTransferred :: u64
  rs_GroupsTotal :: u32
  rs_ResumeCommand :: bytes

text \<open>The live counters of the session (\<^verbatim>\<open>obs.Counters\<close>).\<close>

record counters =
  co_Bytes :: int
  co_FilesTransferred :: int
  co_FilesSkipped :: int
  co_FilesFailed :: int
  co_FilesRejected :: int
  co_Retries :: int

section \<open>Helpers\<close>

definition counter_u64 :: "int \<Rightarrow> u64" where
  "counter_u64 v = (if v < 0 then 0 else word_of_int v)"

definition receiver_summary :: "counters \<Rightarrow> ScanComplete option \<Rightarrow> rSummary" where
  "receiver_summary c sc = \<lparr>rs_Outcome = '''',
     rs_FilesTotal = (case sc of None \<Rightarrow> 0 | Some m \<Rightarrow> sc_TotalFiles m),
     rs_FilesTransferred = counter_u64 (co_FilesTransferred c), rs_FilesSkipped = counter_u64 (co_FilesSkipped c),
     rs_FilesFailed = counter_u64 (co_FilesFailed c), rs_FilesRejected = counter_u64 (co_FilesRejected c),
     rs_BytesTransferred = counter_u64 (co_Bytes c),
     rs_GroupsTotal = (case sc of None \<Rightarrow> 0 | Some m \<Rightarrow> sc_TotalGroups m), rs_ResumeCommand = []\<rparr>"

definition candRank :: "Endpoint \<Rightarrow> nat" where
  "candRank e = (let a = ep_Addr e in
     if IsLoopback a then 0
     else if Is4 a \<and> IsPrivate a then 1
     else if Is4 a then 2
     else if IsPrivate a then 3
     else 4)"

definition orderCandidates :: "Endpoint list \<Rightarrow> Endpoint list" where
  "orderCandidates eps = sort_key candRank eps"

text \<open>The reason table of a failed dial: the error of each candidate.\<close>

fun authCodeFromTable :: "err list \<Rightarrow> Code" where
  "authCodeFromTable [] = []"
| "authCodeFromTable (e # es) =
     (let c = GetCode (Some e) in
      if c = E4001 then E4001 else if c = E4002 then E4002 else if c = E2003 then E2003
      else authCodeFromTable es)"

definition transportControl :: "err \<Rightarrow> err" where
  "transportControl e = (if GetCode (Some e) \<noteq> [] then e else Wrap E3004 ''control channel transport'' [] (Some e))"

definition receiver_peerError :: "Error \<Rightarrow> err" where
  "receiver_peerError m = (let code = code_of_wire (er_Code m);
       msg = (if er_Message m = [] then str ''sender reported a fatal error'' else er_Message m)
     in Newf code ''sender reported an error'' [] None msg)"

text \<open>\<open>abs\<close> is \<^verbatim>\<open>filepath.Abs\<close>: the cleaned path under the working directory, or a failure.\<close>

definition resolveDest :: "(bytes \<Rightarrow> bytes option) \<Rightarrow> bytes \<Rightarrow> bytes \<Rightarrow> err + bytes" where
  "resolveDest absPath dest rootName =
     (let base = path_Base (path_Clean rootName);
          base = (if base = [] \<or> base = str ''.'' \<or> base = str ''/'' then str ''esync-received'' else base);
          d = (if dest = [] then base else dest)
      in case absPath d of
           None \<Rightarrow> Inl (Wrap E1006 ''resolve destination path'' d (Some (PlainErr ''getwd'')))
         | Some a \<Rightarrow> Inr a)"

definition checkWritable :: "err option \<Rightarrow> bytes \<Rightarrow> err option" where
  "checkWritable openErr dir = (case openErr of
     Some e \<Rightarrow> Some (Wrap E1006 ''verify destination is writable'' dir (Some e))
   | None \<Rightarrow> None)"

definition resumeCommand :: "bytes \<Rightarrow> bytes" where
  "resumeCommand destPath = str ''esync --link <new code from the sender> --dest '' @ destPath"

definition receiver_completionDigest :: "(bytes \<Rightarrow> bytes) \<Rightarrow> u64 list \<Rightarrow> bytes" where
  "receiver_completionDigest sha256 ids = sha256 (concat (map be64 (sort ids)))"

section \<open>The control reader\<close>

text \<open>
  The state of the goroutine, with what it has put on the three channels: only the first SCAN_COMPLETE and the first
  SESSION_SUMMARY are ever read from theirs. \<open>ct_panicked\<close>: a send on the closed manifest channel.
\<close>

record ctl_state =
  ct_total :: int
  ct_seen :: int
  ct_scan :: "ScanComplete option"
  ct_manifests :: "GroupManifest list"
  ct_closed :: bool
  ct_summary :: "SessionSummary option"
  ct_fatal :: "err option"
  ct_cancelled :: bool
  ct_running :: bool
  ct_panicked :: bool

definition ctl_init :: ctl_state where
  "ctl_init = \<lparr>ct_total = -1, ct_seen = 0, ct_scan = None, ct_manifests = [], ct_closed = False, ct_summary = None,
     ct_fatal = None, ct_cancelled = False, ct_running = True, ct_panicked = False\<rparr>"

text \<open>\<^verbatim>\<open>session.fail\<close> (which also cancels the root context) and the end of the goroutine with its deferred close.\<close>

definition ctl_fail :: "err \<Rightarrow> ctl_state \<Rightarrow> ctl_state" where
  "ctl_fail e s = s\<lparr>ct_fatal := Some (case ct_fatal s of None \<Rightarrow> e | Some e0 \<Rightarrow> e0), ct_cancelled := True\<rparr>"

definition ctl_stop :: "ctl_state \<Rightarrow> ctl_state" where
  "ctl_stop s = s\<lparr>ct_cancelled := True, ct_running := False, ct_closed := True\<rparr>"

text \<open>One round of the loop; a cancelled context shows in \<open>ct_cancelled\<close>.\<close>

definition readControl :: "err + Message \<Rightarrow> ctl_state \<Rightarrow> ctl_state" where
  "readControl input s = (if \<not> ct_running s then s else case input of
     Inl e \<Rightarrow> ctl_stop (if \<not> is_EOF e \<and> \<not> ct_cancelled s then ctl_fail (transportControl e) s else s)
   | Inr (M_ScanComplete v) \<Rightarrow>
       let s = s\<lparr>ct_total := int (unat (sc_TotalGroups v)), ct_scan := (case ct_scan s of None \<Rightarrow> Some v | x \<Rightarrow> x)\<rparr>
       in if ct_total s = 0 then s\<lparr>ct_closed := True\<rparr> else s
   | Inr (M_GroupManifest v) \<Rightarrow>
       if ct_closed s then s\<lparr>ct_panicked := True, ct_running := False\<rparr>
       else if ct_cancelled s then s\<lparr>ct_running := False, ct_closed := True\<rparr>
       else let s = s\<lparr>ct_manifests := ct_manifests s @ [v], ct_seen := ct_seen s + 1\<rparr>
         in if ct_total s \<ge> 0 \<and> ct_seen s \<ge> ct_total s then s\<lparr>ct_closed := True\<rparr> else s
   | Inr (M_SessionSummary v) \<Rightarrow> s\<lparr>ct_summary := (case ct_summary s of None \<Rightarrow> Some v | x \<Rightarrow> x)\<rparr>
   | Inr (M_Error v) \<Rightarrow> ctl_stop (ctl_fail (receiver_peerError v) s)
   | Inr m \<Rightarrow> ctl_stop (ctl_fail (unexpected ''control.reader'' m) s))"

definition readControls :: "(err + Message) list \<Rightarrow> ctl_state \<Rightarrow> ctl_state" where
  "readControls inputs s = fold readControl inputs s"

interpretation rl: error_latch ct_fatal ctl_fail
  by unfold_locales (simp add: ctl_fail_def)

section \<open>The end of the session\<close>

text \<open>What becomes of the resume journal: not opened, open, closed but kept for a resume, or cleared.\<close>

datatype journal_state = JNone | JOpen | JKept | JCleared

record run_result =
  rr_summary :: rSummary
  rr_exit :: nat
  rr_sent :: "Message list"
  rr_journal :: journal_state

text \<open>\<open>ctrl\<close>: the control channel is up. \<open>sent\<close>: the control messages sent before.\<close>

definition receiver_finish :: "bytes \<Rightarrow> counters \<Rightarrow> bool \<Rightarrow> Message list \<Rightarrow> journal_state \<Rightarrow> ctl_state \<Rightarrow> run_result" where
  "receiver_finish destPath cnt ctrl sent j s =
     (let sum = receiver_summary cnt (ct_scan s);
          (exit, outcome, notices) = (case ct_fatal s of
             Some e \<Rightarrow> if is_signal e then (5, ''signal'', [])
                       else (ExitCode (Some e), ''error'', if ctrl then [fatal_notice e] else [])
           | None \<Rightarrow> if rs_FilesFailed sum > 0 \<or> rs_FilesRejected sum > 0 then (1, ''partial'', []) else (0, ''ok'', []));
          keep = (exit \<noteq> 0 \<and> j = JOpen)
      in \<lparr>rr_summary = sum\<lparr>rs_Outcome := outcome, rs_ResumeCommand := if keep then resumeCommand destPath else []\<rparr>,
          rr_exit = exit, rr_sent = sent @ notices, rr_journal = if keep then JKept else j\<rparr>)"

section \<open>Run\<close>

datatype pipeline_end = PipelineDone | DrainTimeout | PipelineCancelled

text \<open>
  What the session meets. The fields \<open>_in\<close> are the messages the control reader gets during a stage, the fields \<open>_bg\<close> the
  errors other goroutines record in it (a signal is \<^verbatim>\<open>fault.ErrSignal\<close>).
\<close>

record recv_env =
  re_darwin :: bool
  re_numCPU :: int
  re_hashes :: hashes
  re_sha256 :: "bytes \<Rightarrow> bytes"
  re_dial :: "nat outcome list"
  re_params :: "err + Message"
  re_abs :: "bytes \<Rightarrow> bytes option"
  re_mkdir :: "err option"
  re_probe :: "err option"
  re_openDest :: "err option"
  re_free :: u64
  re_sendReady :: "err option"
  re_dialData :: "err option"
  re_scan_in :: "(err + Message) list"
  re_scan_bg :: "err list"
  re_scan_wait :: waited
  re_journalOpen :: "err option"
  re_pipe_in :: "(err + Message) list"
  re_pipe_bg :: "err list"
  re_pipe_end :: pipeline_end
  re_sum_in :: "(err + Message) list"
  re_sum_bg :: "err list"
  re_sum_wait :: waited
  re_counters :: counters
  re_completed :: "u64 list"
  re_sendAck :: "err option"

definition session_ready :: "recv_env \<Rightarrow> rConfig \<Rightarrow> int \<Rightarrow> SessionReady" where
  "session_ready env cfg nCh = \<lparr>sr_Channels = word_of_int nCh, sr_GroupCredit = word_of_int (rc_GroupCredit cfg),
     sr_PipelineDepth = word_of_int (rc_PipelineDepth cfg), sr_MaxChunk = safeMaxChunk,
     sr_DestPlatform = platformID (re_darwin env), sr_ReceiverVersion = rc_Version cfg, sr_DestFreeBytes = re_free env\<rparr>"

text \<open>
  Steps 1 to 6, up to the open data channels: a failure with whether the control channel is up, and the destination
  otherwise.
\<close>

definition receiver_dest :: "recv_env \<Rightarrow> rConfig \<Rightarrow> SessionParams \<Rightarrow> err + bytes" where
  "receiver_dest env cfg sp = (case resolveDest (re_abs env) (rc_Dest cfg) (sp_RootName sp) of
     Inl e \<Rightarrow> Inl e
   | Inr destPath \<Rightarrow> (case re_mkdir env of
       Some e \<Rightarrow> Inl (Wrap E1006 ''create destination directory'' destPath (Some e))
     | None \<Rightarrow> (case checkWritable (re_probe env) destPath of
         Some e \<Rightarrow> Inl e
       | None \<Rightarrow> (case re_openDest env of Some e \<Rightarrow> Inl e | None \<Rightarrow> Inr destPath))))"

definition receiver_open :: "recv_env \<Rightarrow> rConfig \<Rightarrow> SessionParams \<Rightarrow> (err + bytes) \<times> Message list" where
  "receiver_open env cfg sp = (case receiver_dest env cfg sp of
     Inl e \<Rightarrow> (Inl e, [])
   | Inr destPath \<Rightarrow>
       let nCh = initialChannels (chan_cfg_of cfg (sp_MaxChannels sp)) (sp_MaxChannels sp) in
       case re_sendReady env of
         Some e \<Rightarrow> (Inl e, [])
       | None \<Rightarrow> (case re_dialData env of
           Some e \<Rightarrow> (Inl e, [M_SessionReady (session_ready env cfg nCh)])
         | None \<Rightarrow> (Inr destPath, [M_SessionReady (session_ready env cfg nCh)])))"

definition receiver_params :: "recv_env \<Rightarrow> err + SessionParams" where
  "receiver_params env = (case re_params env of
     Inl e \<Rightarrow> Inl (Wrap E4001 ''await SESSION_PARAMS'' [] (Some e))
   | Inr (M_SessionParams sp) \<Rightarrow> (case New_hash (re_hashes env) (sp_HashAlg sp) of
       Inl c \<Rightarrow> Inl (New c ''hash algorithm'' [] None)
     | Inr _ \<Rightarrow> Inr sp)
   | Inr m \<Rightarrow> Inl (unexpected ''await SESSION_PARAMS'' m))"

definition receiver_connect :: "recv_env \<Rightarrow> rConfig \<Rightarrow> err option" where
  "receiver_connect env cfg = (case Decode (rc_Link cfg) of
     Inl c \<Rightarrow> Some (New c ''decode pairing code'' [] None)
   | Inr payload \<Rightarrow> (case Dial (orderCandidates (pl_Endpoints payload)) (re_dial env) of
       (Inl derr, tab, _) \<Rightarrow>
         (let c = authCodeFromTable (map ee_Err tab) in
          Some (if c \<noteq> [] then New c ''authenticate to sender'' [] None else derr))
     | (Inr _, _, _) \<Rightarrow> None))"

definition fail_all :: "err list \<Rightarrow> ctl_state \<Rightarrow> ctl_state" where
  "fail_all es s = fold ctl_fail es s"

text \<open>\<^verbatim>\<open>abandoned\<close>: the context was cancelled; without a recorded cause the session fails with E4005.\<close>

definition abandon_session :: "string \<Rightarrow> ctl_state \<Rightarrow> ctl_state" where
  "abandon_session stage s = (if ct_fatal s = None
     then ctl_fail (Newf E4005 stage [] None (str ''control channel closed before the transfer completed'')) s else s)"

text \<open>Step 8: the wait for SCAN_COMPLETE. \<open>None\<close>: the case that is said to fire is not ready.\<close>

definition await_scan :: "recv_env \<Rightarrow> ctl_state \<Rightarrow> (ctl_state + ctl_state) option" where
  "await_scan env s =
     (let s = fail_all (re_scan_bg env) (readControls (re_scan_in env) s) in
      case re_scan_wait env of
        Arrived \<Rightarrow> if ct_scan s \<noteq> None then Some (Inr s) else None
      | RootDone \<Rightarrow> if ct_cancelled s then Some (Inl (abandon_session ''await SCAN_COMPLETE'' s)) else None
      | TimedOut \<Rightarrow> Some (Inl (ctl_fail (New E9002 ''await SCAN_COMPLETE'' [] None) s)))"

text \<open>Step 9: the pipeline and its drain watchdog.\<close>

definition await_pipeline :: "recv_env \<Rightarrow> ctl_state \<Rightarrow> ctl_state option" where
  "await_pipeline env s =
     (let s = fail_all (re_pipe_bg env) (readControls (re_pipe_in env) s) in
      case re_pipe_end env of
        PipelineDone \<Rightarrow> Some s
      | DrainTimeout \<Rightarrow> Some (ctl_fail (New E9002 ''drain watchdog'' [] None) s)
      | PipelineCancelled \<Rightarrow> if ct_cancelled s then Some s else None)"

text \<open>Step 11: the wait for SESSION_SUMMARY.\<close>

definition await_summary :: "recv_env \<Rightarrow> ctl_state \<Rightarrow> (ctl_state + SessionSummary \<times> ctl_state) option" where
  "await_summary env s =
     (let s = fail_all (re_sum_bg env) (readControls (re_sum_in env) s) in
      case re_sum_wait env of
        Arrived \<Rightarrow> map_option (\<lambda>ss. Inr (ss, s)) (ct_summary s)
      | RootDone \<Rightarrow> if ct_cancelled s then Some (Inl (abandon_session ''await SESSION_SUMMARY'' s)) else None
      | TimedOut \<Rightarrow> Some (Inl (ctl_fail (New E9002 ''await SESSION_SUMMARY'' [] None) s)))"

definition summary_ack :: "recv_env \<Rightarrow> ScanComplete \<Rightarrow> SessionSummaryAck" where
  "summary_ack env sc = (let c = re_counters env in
     \<lparr>sa_FilesTotal = sc_TotalFiles sc, sa_FilesTransferred = word_of_int (co_FilesTransferred c),
      sa_FilesSkipped = word_of_int (co_FilesSkipped c), sa_FilesFailed = word_of_int (co_FilesFailed c),
      sa_BytesTransferred = word_of_int (co_Bytes c), sa_GroupsTotal = sc_TotalGroups sc,
      sa_CompletionDigest = receiver_completionDigest (re_sha256 env) (re_completed env)\<rparr>)"

definition receiver_reconcile :: "recv_env \<Rightarrow> bytes \<Rightarrow> Message list \<Rightarrow> ScanComplete \<Rightarrow> SessionSummary \<Rightarrow> journal_state \<Rightarrow> ctl_state \<Rightarrow> run_result" where
  "receiver_reconcile env destPath sent sc ss j s =
     (let ackMsg = summary_ack env sc;
          done = receiver_finish destPath (re_counters env) True
      in case re_sendAck env of
           Some e \<Rightarrow> done sent j (ctl_fail e s)
         | None \<Rightarrow>
             if ss_CompletionDigest ss \<noteq> sa_CompletionDigest ackMsg then
               done (sent @ [M_SessionSummaryAck ackMsg]) j (ctl_fail (New E5005 ''reconcile completion digest'' [] None) s)
             else done (sent @ [M_SessionSummaryAck ackMsg]) (if j = JOpen then JCleared else j) s)"

text \<open>Steps 7 to 11, from the start of the control reader.\<close>

definition receiver_transfer :: "recv_env \<Rightarrow> rConfig \<Rightarrow> bytes \<Rightarrow> Message list \<Rightarrow> run_result option" where
  "receiver_transfer env cfg destPath sent =
     (let done = receiver_finish destPath (re_counters env) True sent in
      case await_scan env ctl_init of
        None \<Rightarrow> None
      | Some (Inl s) \<Rightarrow> Some (done JNone (s\<lparr>ct_scan := None\<rparr>))
      | Some (Inr s) \<Rightarrow>
          (case (if rc_DryRun cfg then None else re_journalOpen env) of
             Some e \<Rightarrow> Some (done JNone (ctl_fail e s))
           | None \<Rightarrow>
               let j = (if rc_DryRun cfg then JNone else JOpen) in
               case await_pipeline env s of
                 None \<Rightarrow> None
               | Some s \<Rightarrow>
                   if ct_fatal s \<noteq> None then Some (done j s)
                   else if rc_DryRun cfg then Some (done j s)
                   else case await_summary env s of
                     None \<Rightarrow> None
                   | Some (Inl s) \<Rightarrow> Some (done j s)
                   | Some (Inr (ss, s)) \<Rightarrow> Some (receiver_reconcile env destPath sent (the (ct_scan s)) ss j s)))"

definition receiver_Run :: "recv_env \<Rightarrow> rConfig \<Rightarrow> run_result option" where
  "receiver_Run env cfg =
     (let cfg = receiver_withDefaults (re_numCPU env) cfg;
          failed = (\<lambda>ctrl sent e. Some (receiver_finish [] (re_counters env) ctrl sent JNone (ctl_fail e ctl_init)))
      in case receiver_connect env cfg of
           Some e \<Rightarrow> failed False [] e
         | None \<Rightarrow> (case receiver_params env of
             Inl e \<Rightarrow> failed True [] e
           | Inr sp \<Rightarrow> (case receiver_open env cfg sp of
               (Inl e, sent) \<Rightarrow> failed True sent e
             | (Inr destPath, sent) \<Rightarrow> receiver_transfer env cfg destPath sent)))"

section \<open>What the control reader delivers\<close>

lemma readControl_manifest:
  "ct_running s \<Longrightarrow> \<not> ct_closed s \<Longrightarrow> \<not> ct_cancelled s \<Longrightarrow> ct_total s = int N \<Longrightarrow> ct_seen s = int (length (ct_manifests s)) \<Longrightarrow>
   readControl (Inr (M_GroupManifest v)) s = s\<lparr>ct_manifests := ct_manifests s @ [v], ct_seen := ct_seen s + 1,
     ct_closed := length (ct_manifests s) + 1 \<ge> N\<rparr>"
  by (simp add: readControl_def Let_def)

lemma readControls_manifests:
  assumes "ct_running s" "\<not> ct_closed s" "\<not> ct_cancelled s" "ct_total s = int N" "ct_seen s = int (length (ct_manifests s))"
    "length (ct_manifests s) + length gms = N" "gms \<noteq> []"
  shows "readControls (map (\<lambda>g. Inr (M_GroupManifest g)) gms) s =
    s\<lparr>ct_manifests := ct_manifests s @ gms, ct_seen := int N, ct_closed := True\<rparr>"
  using assms
proof (induction gms arbitrary: s)
  case (Cons g gms)
  let ?s = "s\<lparr>ct_manifests := ct_manifests s @ [g], ct_seen := ct_seen s + 1, ct_closed := length (ct_manifests s) + 1 \<ge> N\<rparr>"
  have step: "readControls (map (\<lambda>g. Inr (M_GroupManifest g)) (g # gms)) s = readControls (map (\<lambda>g. Inr (M_GroupManifest g)) gms) ?s"
    using readControl_manifest [of s N g] Cons.prems by (simp add: readControls_def)
  show ?case
  proof (cases "gms = []")
    case True
    with step Cons.prems show ?thesis by (simp add: readControls_def)
  next
    case False
    then have "\<not> length (ct_manifests s) + 1 \<ge> N" using Cons.prems(6) by (cases gms) auto
    with Cons.IH [of ?s] Cons.prems False step show ?thesis by simp
  qed
qed simp

text \<open>
  The control reader passes the groups of a complete manifest to the decide workers exactly as they were sent,
  closes their channel after the last one (at once for an empty plan), and hands over the summary, with no fault
  recorded.
\<close>

theorem control_delivers:
  assumes "length gms = unat (sc_TotalGroups sc)"
  shows "readControls (map Inr (M_ScanComplete sc # map M_GroupManifest gms @ [M_SessionSummary ss])) ctl_init =
    ctl_init\<lparr>ct_total := int (length gms), ct_seen := int (length gms), ct_scan := Some sc, ct_manifests := gms, ct_closed := True,
      ct_summary := Some ss\<rparr>"
proof -
  let ?s = "ctl_init\<lparr>ct_total := int (length gms), ct_scan := Some sc, ct_closed := gms = []\<rparr>"
  have "uint (sc_TotalGroups sc) = int (length gms)" using assms by simp
  then have "readControl (Inr (M_ScanComplete sc)) ctl_init = ?s"
    by (simp add: readControl_def ctl_init_def Let_def)
  moreover have "readControls (map (\<lambda>g. Inr (M_GroupManifest g)) gms) ?s =
      ?s\<lparr>ct_manifests := gms, ct_seen := int (length gms), ct_closed := True\<rparr>"
  proof (cases "gms = []")
    case False
    then show ?thesis using readControls_manifests [of ?s "length gms" gms] by (simp add: ctl_init_def)
  qed (simp add: readControls_def ctl_init_def)
  ultimately show ?thesis
    by (simp add: readControls_def comp_def) (simp add: readControl_def ctl_init_def)
qed

definition sample_scan :: "u32 \<Rightarrow> ScanComplete" where
  "sample_scan n = \<lparr>sc_TotalFiles = 1, sc_TotalBytes = 3, sc_TotalGroups = n, sc_SkippedEntries = 0, sc_ManifestDigest = replicate 32 0\<rparr>"

definition sample_summary :: "bytes \<Rightarrow> SessionSummary" where
  "sample_summary dg = \<lparr>ss_FilesTotal = 1, ss_FilesTransferred = 1, ss_FilesSkipped = 0, ss_FilesFailed = 0,
     ss_BytesTransferred = 3, ss_GroupsTotal = 1, ss_CompletionDigest = dg\<rparr>"

theorem control_delivers_witness:
  "ct_manifests (readControls (map Inr [M_ScanComplete (sample_scan 1), M_GroupManifest sample_group, M_SessionSummary (sample_summary [])]) ctl_init)
     = [sample_group]"
  using control_delivers [of "[sample_group]" "sample_scan 1" "sample_summary []"] by (simp add: sample_scan_def)

text \<open>A group beyond the announced number is sent on the closed channel.\<close>

lemma extra_manifest_panics:
  "ct_panicked (readControls (map Inr [M_ScanComplete (sample_scan 1), M_GroupManifest g, M_GroupManifest g']) ctl_init)"
  by (simp add: readControls_def readControl_def ctl_init_def sample_scan_def Let_def)

section \<open>How a session ends\<close>

lemma ct_summary_ctl [simp]: "ct_summary (ctl_fail e s) = ct_summary s" "ct_summary (ctl_stop s) = ct_summary s"
  by (simp_all add: ctl_fail_def ctl_stop_def)

lemma ct_scan_ctl [simp]: "ct_scan (ctl_fail e s) = ct_scan s" "ct_scan (ctl_stop s) = ct_scan s"
  by (simp_all add: ctl_fail_def ctl_stop_def)

lemma fail_all_frame [simp]: "ct_summary (fail_all es s) = ct_summary s" "ct_scan (fail_all es s) = ct_scan s"
  unfolding fail_all_def by (induction es arbitrary: s) simp_all

lemma readControl_summary:
  "ct_summary (readControl i s) = Some ss \<Longrightarrow> ct_summary s = Some ss \<or> i = Inr (M_SessionSummary ss)"
  by (auto simp: readControl_def Let_def split: sum.splits Message.splits if_splits option.splits)

lemma readControls_summary:
  "ct_summary (readControls is s) = Some ss \<Longrightarrow> ct_summary s = Some ss \<or> Inr (M_SessionSummary ss) \<in> set is"
  unfolding readControls_def by (induction "is" arbitrary: s) (auto dest: readControl_summary)

lemma readControl_scan:
  "ct_scan s = Some sc \<Longrightarrow> ct_scan (readControl i s) = Some sc"
  by (auto simp: readControl_def Let_def split: sum.splits Message.splits)

lemma readControls_scan: "ct_scan s = Some sc \<Longrightarrow> ct_scan (readControls is s) = Some sc"
  unfolding readControls_def by (induction "is" arbitrary: s) (auto dest: readControl_scan)

lemma finish_ok:
  "rs_Outcome (rr_summary (receiver_finish destPath cnt ctrl sent j s)) = ''ok'' \<longleftrightarrow>
     ct_fatal s = None \<and> rs_FilesFailed (receiver_summary cnt (ct_scan s)) = 0 \<and> rs_FilesRejected (receiver_summary cnt (ct_scan s)) = 0"
  by (auto simp: receiver_finish_def Let_def word_gt_0 split: option.splits)

lemma finish_fields:
  assumes "rs_Outcome (rr_summary (receiver_finish destPath cnt ctrl sent j s)) = ''ok''"
  shows "rr_exit (receiver_finish destPath cnt ctrl sent j s) = 0" "rr_journal (receiver_finish destPath cnt ctrl sent j s) = j"
    "rr_sent (receiver_finish destPath cnt ctrl sent j s) = sent"
    "rs_FilesFailed (rr_summary (receiver_finish destPath cnt ctrl sent j s)) = 0"
    "rs_FilesRejected (rr_summary (receiver_finish destPath cnt ctrl sent j s)) = 0"
  using assms unfolding finish_ok by (simp_all add: receiver_finish_def)

text \<open>The stages that lead to a clean end.\<close>

lemma transfer_ok:
  assumes "receiver_transfer env cfg destPath sent = Some r" "rs_Outcome (rr_summary r) = ''ok''" "\<not> rc_DryRun cfg"
  obtains ss sc s where "Inr (M_SessionSummary ss) \<in> set (re_scan_in env @ re_pipe_in env @ re_sum_in env)"
    "ct_scan s = Some sc" "r = receiver_reconcile env destPath sent sc ss JOpen s"
proof -
  obtain s1 where 1: "await_scan env ctl_init = Some (Inr s1)"
    using assms by (auto simp: receiver_transfer_def await_scan_def abandon_session_def finish_ok Let_def rl.get_put
        split: option.splits sum.splits if_splits waited.splits)
  obtain s2 where 2: "await_pipeline env s1 = Some s2"
    using assms 1 by (auto simp: receiver_transfer_def finish_ok rl.get_put Let_def split: option.splits)
  obtain ss s3 where 3: "await_summary env s2 = Some (Inr (ss, s3))" "r = receiver_reconcile env destPath sent (the (ct_scan s3)) ss JOpen s3"
    using assms 1 2 by (auto simp: receiver_transfer_def await_summary_def abandon_session_def finish_ok Let_def rl.get_put
        split: option.splits sum.splits if_splits waited.splits)
  obtain sc where scan: "ct_scan s1 = Some sc" using 1 by (auto simp: await_scan_def Let_def split: waited.splits if_splits)
  have s2: "ct_scan s2 = Some sc" "ct_summary s2 = ct_summary (readControls (re_pipe_in env) s1)"
    using 2 scan readControls_scan [OF scan, of "re_pipe_in env"]
    by (auto simp: await_pipeline_def Let_def split: pipeline_end.splits if_splits)
  have s3: "ct_scan s3 = Some sc" "ct_summary (readControls (re_sum_in env) s2) = Some ss"
    using 3(1) readControls_scan [OF s2(1), of "re_sum_in env"]
    by (auto simp: await_summary_def Let_def split: waited.splits if_splits)
  have "ct_summary ctl_init = None" by (simp add: ctl_init_def)
  moreover have "ct_summary s1 = ct_summary (readControls (re_scan_in env) ctl_init)"
    using 1 by (auto simp: await_scan_def Let_def split: waited.splits if_splits)
  ultimately have "Inr (M_SessionSummary ss) \<in> set (re_scan_in env @ re_pipe_in env @ re_sum_in env)"
    using readControls_summary [OF s3(2)] s2(2) readControls_summary [of "re_pipe_in env" s1 ss]
      readControls_summary [of "re_scan_in env" ctl_init ss] by auto
  with 3(2) s3(1) show thesis by (intro that) auto
qed

lemma reconcile_ok:
  assumes "rs_Outcome (rr_summary (receiver_reconcile env destPath sent sc ss JOpen s)) = ''ok''"
  defines "r \<equiv> receiver_reconcile env destPath sent sc ss JOpen s"
  shows "rr_exit r = 0" "rr_journal r = JCleared" "rr_sent r = sent @ [M_SessionSummaryAck (summary_ack env sc)]"
    "ss_CompletionDigest ss = receiver_completionDigest (re_sha256 env) (re_completed env)"
    "rs_FilesFailed (rr_summary r) = 0" "rs_FilesRejected (rr_summary r) = 0"
proof -
  have 1: "re_sendAck env = None" "ss_CompletionDigest ss = sa_CompletionDigest (summary_ack env sc)"
    using assms(1) by (auto simp: receiver_reconcile_def finish_ok rl.get_put Let_def split: option.splits if_splits)
  then have r: "r = receiver_finish destPath (re_counters env) True (sent @ [M_SessionSummaryAck (summary_ack env sc)]) JCleared s"
    by (simp add: r_def receiver_reconcile_def Let_def)
  with assms(1) have "rs_Outcome (rr_summary (receiver_finish destPath (re_counters env) True (sent @ [M_SessionSummaryAck (summary_ack env sc)]) JCleared s)) = ''ok''"
    by (simp add: r_def)
  from finish_fields [OF this] r 1 show "rr_exit r = 0" "rr_journal r = JCleared" "rr_sent r = sent @ [M_SessionSummaryAck (summary_ack env sc)]"
    "ss_CompletionDigest ss = receiver_completionDigest (re_sha256 env) (re_completed env)"
    "rs_FilesFailed (rr_summary r) = 0" "rs_FilesRejected (rr_summary r) = 0" by (simp_all add: summary_ack_def Let_def)
qed

lemma Run_ok_transfer:
  assumes "receiver_Run env cfg = Some r" "rs_Outcome (rr_summary r) = ''ok''"
  obtains destPath sent where "receiver_transfer env (receiver_withDefaults (re_numCPU env) cfg) destPath sent = Some r"
  using assms by (auto simp: receiver_Run_def finish_ok rl.get_put Let_def split: option.splits sum.splits prod.splits)


text \<open>Every session ends in \<open>receiver_finish\<close>, with the journal in one of three states and no notice sent before.\<close>

definition finished :: "recv_env \<Rightarrow> run_result \<Rightarrow> bool" where
  "finished env r \<longleftrightarrow> (\<exists>d c sent j s. r = receiver_finish d (re_counters env) c sent j s \<and> j \<noteq> JKept \<and>
     (\<forall>m\<in>set sent. \<not> is_notice m) \<and> (j = JCleared \<longrightarrow> (\<exists>a. M_SessionSummaryAck a \<in> set sent)))"

lemma finishedI:
  "j \<noteq> JKept \<Longrightarrow> \<forall>m\<in>set sent. \<not> is_notice m \<Longrightarrow> (j = JCleared \<Longrightarrow> \<exists>a. M_SessionSummaryAck a \<in> set sent) \<Longrightarrow> finished env (receiver_finish d (re_counters env) c sent j s)"
  unfolding finished_def by blast

lemma reconcile_ends: "\<forall>m\<in>set sent. \<not> is_notice m \<Longrightarrow> j \<in> {JNone, JOpen} \<Longrightarrow> finished env (receiver_reconcile env d sent sc ss j s)"
  by (auto simp: receiver_reconcile_def Let_def is_notice_def split: option.splits intro!: finishedI)

lemma transfer_ends:
  "receiver_transfer env cfg d sent = Some r \<Longrightarrow> \<forall>m\<in>set sent. \<not> is_notice m \<Longrightarrow> finished env r"
  by (auto simp: receiver_transfer_def Let_def split: option.splits sum.splits if_splits prod.splits
      intro!: finishedI reconcile_ends)

lemma open_no_notice: "receiver_open env cfg sp = (x, sent) \<Longrightarrow> \<forall>m\<in>set sent. \<not> is_notice m"
  by (auto simp: receiver_open_def Let_def is_notice_def split: sum.splits option.splits)

lemma Run_ends: "receiver_Run env cfg = Some r \<Longrightarrow> finished env r"
  by (auto simp: receiver_Run_def Let_def split: option.splits sum.splits prod.splits
      intro!: finishedI dest: open_no_notice transfer_ends)

lemma finish_failed:
  assumes "rr_exit (receiver_finish d cnt c sent j s) \<noteq> 0"
  shows "rr_journal (receiver_finish d cnt c sent j s) = (if j = JOpen then JKept else j)"
    "rs_ResumeCommand (rr_summary (receiver_finish d cnt c sent j s)) = (if j = JOpen then resumeCommand d else [])"
  using assms by (auto simp: receiver_finish_def Let_def split: option.splits)

text \<open>
  A session that does not exit 0 never leaves the journal open and never deletes it before the reconciliation:
  it closes and keeps it, and then, and only then, prints the command to resume with.
\<close>

theorem receiver_keeps_journal:
  assumes "receiver_Run env cfg = Some r" "rr_exit r \<noteq> 0"
  shows "rr_journal r \<noteq> JOpen \<and> (rr_journal r = JKept \<longleftrightarrow> rs_ResumeCommand (rr_summary r) \<noteq> []) \<and>
    (rr_journal r = JCleared \<longrightarrow> (\<exists>a. M_SessionSummaryAck a \<in> set (rr_sent r)))"
proof -
  obtain d c sent j s where r: "r = receiver_finish d (re_counters env) c sent j s" "j \<noteq> JKept" "j = JCleared \<longrightarrow> (\<exists>a. M_SessionSummaryAck a \<in> set sent)"
    using Run_ends [OF assms(1)] unfolding finished_def by blast
  have "resumeCommand d \<noteq> []" "set sent \<subseteq> set (rr_sent r)"
    by (auto simp: resumeCommand_def r(1) receiver_finish_def Let_def split: option.splits)
  with finish_failed [of d "re_counters env" c sent j s] assms(2) r show ?thesis by (auto split: if_splits)
qed

text \<open>
  The sender is told of a fault at most once, never when a signal ended the session, and always with the code of
  the fault that the receiver itself reports.
\<close>

theorem receiver_notifies_once:
  assumes "receiver_Run env cfg = Some r"
  shows "length (filter is_notice (rr_sent r)) \<le> 1 \<and>
    (\<forall>m\<in>set (filter is_notice (rr_sent r)). rs_Outcome (rr_summary r) = ''error'' \<and>
       (\<exists>e. m = fatal_notice e \<and> rr_exit r = ExitCode (Some e) \<and> \<not> is_signal e))"
proof -
  obtain d c sent j s where r: "r = receiver_finish d (re_counters env) c sent j s" "\<forall>m\<in>set sent. \<not> is_notice m"
    using Run_ends [OF assms] unfolding finished_def by blast
  then have "filter is_notice sent = []" by (simp add: filter_empty_conv)
  then have "filter is_notice (rr_sent r) = (case ct_fatal s of Some e \<Rightarrow> if c \<and> \<not> is_signal e then [fatal_notice e] else [] | None \<Rightarrow> [])"
    by (auto simp: r(1) receiver_finish_def fatal_notice_def is_notice_def Let_def split: option.splits)
  then show ?thesis by (auto simp: r(1) receiver_finish_def Let_def split: option.splits if_splits)
qed

section \<open>Exit codes and limits\<close>

text \<open>The exit codes of three classes, and that none of these faults is a signal.\<close>

lemma class_exits:
  "ExitCode (Some (New E9002 op sb c)) = 2" "ExitCode (Some (Wrap E3006 op sb (Some (PlainErr t)))) = 1" "ExitCode (Some (Newf E6006 op sb c d)) = 0"
proof -
  have "lookup E3006 = Policy Item True ''CHANNEL_JOIN rejected'' ''automatic retry; channel retired on exhaustion''"
    "lookup E6006 = Policy Warn False ''unsupported entry type (socket, FIFO, device)'' ''expected; these are never transferred''"
    "lookup E9002 = Policy Fatal False ''the transfer stopped making progress with work still outstanding''
       ''the peer or network went quiet; check the other machine and the link, then re-run to resume from the journal''"
    by (rule lookup_in_catalogue, simp add: catalogue_def)+
  then show "ExitCode (Some (New E9002 op sb c)) = 2" "ExitCode (Some (Wrap E3006 op sb (Some (PlainErr t)))) = 1" "ExitCode (Some (Newf E6006 op sb c d)) = 0"
    by (simp_all add: ExitCode_def Wrap_def) (simp_all add: code_defs)
qed

lemma class_not_signal:
  "\<not> is_signal (New E9002 op sb None)" "\<not> is_signal (Wrap E3006 op sb (Some (PlainErr t)))" "\<not> is_signal (Newf E6006 op sb None d)"
  by (simp_all add: is_signal_def New_def Newf_def Wrap_def code_defs)

text \<open>
  A refused data channel at the start is the Item code E3006: nothing was transferred, and the session exits 1, the
  code for a completed transfer with failed items.
\<close>

lemma refused_channel_exits_1:
  "rr_exit (receiver_finish [] cnt True sent JNone (ctl_fail (Wrap E3006 ''dial data channel'' [] (Some (PlainErr ''refused''))) ctl_init)) = 1"
proof -
  have "ExitCode (Some (Wrap E3006 ''dial data channel'' [] (Some (PlainErr ''refused'')))) = 1"
    "\<not> is_signal (Wrap E3006 ''dial data channel'' [] (Some (PlainErr ''refused'')))" by (rule class_exits class_not_signal)+
  then show ?thesis by (simp add: receiver_finish_def ctl_fail_def ctl_init_def)
qed

text \<open>A notice with a code of the class Warn makes the receiver stop with the outcome error and exit 0.\<close>

lemma warn_notice_exits_0:
  "rr_exit (receiver_finish [] cnt True sent JNone
     (readControl (Inr (M_Error \<lparr>er_Code = numericCode E6006, er_Fatal = 1, er_Message = [], er_Detail = []\<rparr>)) ctl_init)) = 0"
proof -
  let ?e = "\<lambda>msg. Newf E6006 ''sender reported an error'' [] None msg"
  have "code_of_wire (numericCode E6006) = E6006" by (rule catalogue_wire_roundtrip) (simp_all only: in_catalogue_iff catalogue_codes, simp_all add: code_defs)
  then have "receiver_peerError \<lparr>er_Code = numericCode E6006, er_Fatal = 1, er_Message = [], er_Detail = []\<rparr> = ?e (str ''sender reported a fatal error'')"
    by (simp add: receiver_peerError_def)
  moreover have "ExitCode (Some (?e msg)) = 0" "\<not> is_signal (?e msg)" for msg by (rule class_exits class_not_signal)+
  ultimately show ?thesis by (simp add: receiver_finish_def readControl_def ctl_fail_def ctl_stop_def ctl_init_def)
qed

text \<open>No retries cannot be asked for, and a credit of 65536 groups is announced as none.\<close>

lemma zero_retries_means_three: "rc_MaxRetries c = 0 \<Longrightarrow> rc_MaxRetries (receiver_withDefaults n c) = 3"
  by (simp add: receiver_withDefaults_def or_default_def)

lemma credit_truncated:
  "rc_GroupCredit cfg = 65536 \<Longrightarrow> acquire (newCreditGate (int (unat (sr_GroupCredit (session_ready env cfg nCh))))) = None"
  by (simp add: session_ready_def acquire_def newCreditGate_def) 

section \<open>An example session\<close>

definition sample_rConfig :: rConfig where
  "sample_rConfig = \<lparr>rc_Link = the (Encode sample_payload), rc_Dest = str ''/d'', rc_Version = str ''dev'', rc_DryRun = False, rc_Channels = 4,
     rc_ChannelsPinned = False, rc_MinChannels = 4, rc_MaxChannels = 32, rc_PipelineDepth = 2, rc_GroupCredit = 4, rc_DecideWorkers = 4,
     rc_NoFsync = False, rc_CheckpointInterval = 0, rc_ResumeWindow = 0, rc_DrainTimeout = 0, rc_StallTimeout = 0, rc_ProgressInterval = 0,
     rc_AllowUnsafeLinks = False, rc_Owner = False, rc_Quick = False, rc_NoCache = False, rc_ConnectTimeout = 0, rc_HandshakeTimeout = 0,
     rc_Stagger = 0, rc_SocketBuffer = 0, rc_MaxRetries = 3, rc_HashAlg = MD5\<rparr>"

definition sample_params :: SessionParams where
  "sample_params = \<lparr>sp_RootName = str ''src'', sp_SourceKind = 0, sp_HashAlg = MD5, sp_GroupBytes = 0, sp_Flags = 0, sp_SourcePlatform = 0,
     sp_PathNorm = 1, sp_SenderVersion = str ''dev'', sp_MaxChannels = 32, sp_FilterSignature = [], sp_SysexcludeTag = []\<rparr>"

definition sample_counters :: counters where
  "sample_counters = \<lparr>co_Bytes = 3, co_FilesTransferred = 1, co_FilesSkipped = 0, co_FilesFailed = 0, co_FilesRejected = 0, co_Retries = 0\<rparr>"

text \<open>\<open>pipe\<close>: how the pipeline ends; \<open>bg\<close>: the faults recorded in it.\<close>

definition sample_recv_env :: "pipeline_end \<Rightarrow> err list \<Rightarrow> recv_env" where
  "sample_recv_env pipe bg = \<lparr>re_darwin = False, re_numCPU = 4, re_hashes = sample_hashes, re_sha256 = (\<lambda>b. b),
     re_dial = [\<lparr>oc_ep = \<lparr>ep_Addr = V4 [10, 0, 0, 7], ep_Port = 4000\<rparr>, oc_nc = Some 1, oc_err = None, oc_wonHS = True\<rparr>],
     re_params = Inr (M_SessionParams sample_params), re_abs = Some, re_mkdir = None, re_probe = None, re_openDest = None,
     re_free = 1000000, re_sendReady = None, re_dialData = None,
     re_scan_in = [Inr (M_ScanComplete (sample_scan 1))], re_scan_bg = [], re_scan_wait = Arrived, re_journalOpen = None,
     re_pipe_in = [Inr (M_GroupManifest sample_group)], re_pipe_bg = bg, re_pipe_end = pipe,
     re_sum_in = [Inr (M_SessionSummary (sample_summary (be64 7)))], re_sum_bg = [], re_sum_wait = Arrived,
     re_counters = sample_counters, re_completed = [7], re_sendAck = None\<rparr>"

lemma sample_link: "Decode (the (Encode sample_payload)) = Inr sample_payload"
  using Encode_eq [OF wf_sample_payload] Decode_payload [OF wf_sample_payload] clean_group [OF b32_encode_alphabet]
  by (metis option.sel)

lemma sample_connect: "receiver_connect (sample_recv_env pipe bg) (receiver_withDefaults n sample_rConfig) = None"
proof -
  have "orderCandidates (pl_Endpoints sample_payload) \<noteq> []" by (simp add: sample_payload_def orderCandidates_def)
  then show ?thesis
    by (simp add: receiver_connect_def receiver_withDefaults_def sample_rConfig_def sample_recv_env_def sample_link Dial_def won_def)
qed

lemma sample_recv_run:
  "receiver_Run (sample_recv_env pipe bg) sample_rConfig =
     receiver_transfer (sample_recv_env pipe bg) (receiver_withDefaults 4 sample_rConfig) (str ''/d'')
       [M_SessionReady (session_ready (sample_recv_env pipe bg) (receiver_withDefaults 4 sample_rConfig) 4)]"
proof -
  have "receiver_params (sample_recv_env pipe bg) = Inr sample_params"
    by (simp add: receiver_params_def sample_recv_env_def New_hash_def sample_params_def MD5_def)
  moreover have "receiver_open (sample_recv_env pipe bg) (receiver_withDefaults 4 sample_rConfig) sample_params =
      (Inr (str ''/d''), [M_SessionReady (session_ready (sample_recv_env pipe bg) (receiver_withDefaults 4 sample_rConfig) 4)])"
    by (simp add: receiver_open_def receiver_dest_def resolveDest_def checkWritable_def sample_recv_env_def receiver_withDefaults_def
        sample_rConfig_def sample_params_def initialChannels_def chan_cfg_of_def or_default_def Let_def)
  ultimately show ?thesis
    by (simp add: receiver_Run_def sample_connect Let_def) (simp add: sample_recv_env_def)
qed

lemmas sample_stages = receiver_transfer_def await_scan_def await_pipeline_def await_summary_def receiver_reconcile_def fail_all_def
  sample_recv_env_def sample_rConfig_def receiver_withDefaults_def readControls_def readControl_def ctl_init_def sample_scan_def
  sample_summary_def summary_ack_def receiver_completionDigest_def sample_counters_def


lemma sample_failed_run:
  "\<exists>r. receiver_Run (sample_recv_env DrainTimeout []) sample_rConfig = Some r \<and> rr_exit r \<noteq> 0 \<and> rr_journal r = JKept"
proof -
  have "ExitCode (Some (New E9002 ''drain watchdog'' [] None)) = 2" "\<not> is_signal (New E9002 ''drain watchdog'' [] None)" by (rule class_exits class_not_signal)+
  then show ?thesis unfolding sample_recv_run
    by (simp add: sample_stages receiver_finish_def ctl_fail_def)
qed

theorem receiver_keeps_journal_witness:
  "\<exists>r. receiver_Run (sample_recv_env DrainTimeout []) sample_rConfig = Some r \<and> rs_ResumeCommand (rr_summary r) \<noteq> []"
  using sample_failed_run receiver_keeps_journal by blast

theorem receiver_notifies_once_witness:
  "\<exists>r. receiver_Run (sample_recv_env DrainTimeout []) sample_rConfig = Some r \<and> length (filter is_notice (rr_sent r)) \<le> 1"
  using sample_failed_run receiver_notifies_once by blast

end
