(* ===== verification/Plan_Props.thy ===== *)
theory Plan_Props
  imports Plan
begin

text \<open>
  What the plan guarantees: which entries it keeps, that it is a function of the set of entries,
  that its groups partition it within the limits, that ids map to groups, and that the digest
  determines the plan for a given filter signature.
\<close>

section \<open>Pruning\<close>

lemma underPruned_from_iff:
  "underPruned_from P s k \<longleftrightarrow> (\<exists>pre rest. s = pre @ slash # rest \<and> k \<le> length pre \<and> pre \<in> P)"
proof (induction P s k rule: underPruned_from.induct)
  case (1 P s k)
  show ?case
  proof (cases "IndexByte (drop k s) slash")
    case None
    then have no: "slash \<notin> set (drop k s)" by (simp add: IndexByte_None)
    have "\<not> (s = pre @ slash # rest \<and> k \<le> length pre)" for pre rest using no by (auto simp: drop_Cons')
    then show ?thesis by (subst underPruned_from.simps) (auto simp: None)
  next
    case (Some j)
    note j = IndexByte_Some [OF Some]
    have kj: "k + j < length s" "s ! (k + j) = slash" using j by (auto simp: nth_drop)
    then have split: "s = take (k + j) s @ slash # drop (k + j + 1) s"
      using id_take_nth_drop [of "k + j" s] by simp
    have least: "k + j \<le> length pre" if "s = pre @ slash # rest" "k \<le> length pre" for pre rest
    proof (rule ccontr)
      assume "\<not> k + j \<le> length pre"
      then have "slash \<in> set (take j (drop k s))"
        using that by (auto simp: take_drop [symmetric] take_Cons')
      with j show False by simp
    qed
    show ?thesis
    proof (cases "take (k + j) s \<in> P")
      case True
      moreover have "k \<le> length (take (k + j) s)" using kj by simp
      ultimately have "\<exists>pre rest. s = pre @ slash # rest \<and> k \<le> length pre \<and> pre \<in> P" using split by blast
      with True show ?thesis by (subst underPruned_from.simps) (simp add: Some)
    next
      case False
      have "underPruned_from P s k \<longleftrightarrow> underPruned_from P s (k + j + 1)"
        using False by (subst underPruned_from.simps) (simp add: Some)
      also have "\<dots> \<longleftrightarrow> (\<exists>pre rest. s = pre @ slash # rest \<and> k + j + 1 \<le> length pre \<and> pre \<in> P)"
        using 1 [OF Some False] .
      also have "\<dots> \<longleftrightarrow> (\<exists>pre rest. s = pre @ slash # rest \<and> k \<le> length pre \<and> pre \<in> P)"
      proof -
        have "k + j + 1 \<le> length pre" if "s = pre @ slash # rest" "k \<le> length pre" "pre \<in> P" for pre rest
        proof -
          have "length pre \<noteq> k + j" using that False by auto
          then show ?thesis using least [OF that(1,2)] by simp
        qed
        then show ?thesis by fastforce
      qed
      finally show ?thesis .
    qed
  qed
qed

lemma underPruned_iff: "underPruned P s \<longleftrightarrow> (\<exists>pre rest. s = pre @ slash # rest \<and> pre \<in> P)"
  by (simp add: underPruned_def underPruned_from_iff)

section \<open>Which entries survive\<close>

lemma apply_decs_eq:
  "apply_decs nfc P ds =
     (map (\<lambda>d. \<lparr>ex_Path = en_RelPath (dc_e d), ex_Rule = dc_rule d, ex_Prune = dc_pruneDir d\<rparr>)
        (filter (\<lambda>d. \<not> underPruned P (dc_slash d) \<and> dc_dropped d) ds),
      map (key_entry nfc) (filter (\<lambda>d. \<not> underPruned P (dc_slash d) \<and> \<not> dc_dropped d) ds))"
  by (induction ds) auto

lemma classify_sel [simp]: "dc_e (classify opts e) = e" "dc_slash (classify opts e) = en_RelPath e"
  by (auto simp: classify_def Let_def split: option.splits prod.splits)

lemma match_rules_file: "match_rules rs n False r = Some (x, b) \<Longrightarrow> \<not> b"
  by (induction rs) (auto split: if_splits)

lemma classify_prune_dir: "dc_pruneDir (classify opts e) \<Longrightarrow> dc_dropped (classify opts e) \<and> en_Type e = TypeDir"
  by (cases "en_Type e = TypeDir")
    (auto simp: classify_def Let_def MatchSystemFile_def dest: match_rules_file split: option.splits prod.splits if_splits)

lemma key_entry_sel [simp]:
  "en_RelPath (ky_e (key_entry nfc d)) = en_RelPath (dc_e d)" "ky_orig (key_entry nfc d) = dc_slash d"
  "ky_key (key_entry nfc d) = fst (orderingKey nfc (dc_slash d))"
  "en_Type (ky_e (key_entry nfc d)) = en_Type (dc_e d)" "en_Size (ky_e (key_entry nfc d)) = en_Size (dc_e d)"
  "en_LinkTarget (ky_e (key_entry nfc d)) = en_LinkTarget (dc_e d)"
  by (simp_all add: key_entry_def split: prod.splits)

definition admitted :: "Options \<Rightarrow> Entry list \<Rightarrow> Entry \<Rightarrow> bool" where
  "admitted opts entries e \<longleftrightarrow> \<not> dc_dropped (classify opts e) \<and>
     \<not> (\<exists>d\<in>set entries. dc_pruneDir (classify opts d) \<and> (\<exists>rest. en_RelPath e = en_RelPath d @ slash # rest))"

lemma underPruned_prunedSet:
  "underPruned (prunedSet (map (classify opts) entries)) (en_RelPath e) \<longleftrightarrow>
     (\<exists>d\<in>set entries. dc_pruneDir (classify opts d) \<and> (\<exists>rest. en_RelPath e = en_RelPath d @ slash # rest))"
proof -
  have "pre \<in> prunedSet (map (classify opts) entries) \<longleftrightarrow>
      (\<exists>d\<in>set entries. dc_pruneDir (classify opts d) \<and> pre = en_RelPath d)" for pre
    by (force simp: prunedSet_def)
  then show ?thesis unfolding underPruned_iff by metis
qed

lemma apply_decs_admitted:
  "snd (apply_decs nfc (prunedSet (map (classify opts) entries)) (map (classify opts) entries)) =
     map (\<lambda>e. key_entry nfc (classify opts e)) (filter (admitted opts entries) entries)"
proof -
  have "filter (\<lambda>d. \<not> underPruned (prunedSet (map (classify opts) entries)) (dc_slash d) \<and> \<not> dc_dropped d)
      (map (classify opts) entries) = map (classify opts) (filter (admitted opts entries) entries)"
  proof -
    have "\<not> underPruned (prunedSet (map (classify opts) entries)) (en_RelPath e) \<and> \<not> dc_dropped (classify opts e)
        \<longleftrightarrow> admitted opts entries e" for e unfolding admitted_def underPruned_prunedSet by blast
    then show ?thesis by (simp add: filter_map comp_def)
  qed
  then show ?thesis by (simp add: apply_decs_eq)
qed

definition keyed_of :: "(bytes \<Rightarrow> bytes) \<Rightarrow> Options \<Rightarrow> Entry list \<Rightarrow> keyed list" where
  "keyed_of nfc opts entries =
     sort_keyed (map (\<lambda>e. key_entry nfc (classify opts e)) (filter (admitted opts entries) entries))"

lemma Build_sel:
  assumes "Build nfc sha entries opts = Inr p"
  shows "pn_entries p = map ky_e (keyed_of nfc opts entries)" "pn_keys p = map ky_key (keyed_of nfc opts entries)"
    "pn_idByKey p = index_keys (keyed_of nfc opts entries) 0 Map.empty"
    "pn_groupStart p = computeGroups (pn_entries p) (groupTarget (op_GroupBytes opts))"
    "pn_digest p = computeDigest sha (pn_entries p) (pn_keys p) (FilterSignature opts)"
  using assms apply_decs_admitted [of nfc opts entries]
  by (auto simp: Build_def Let_def keyed_of_def split: option.splits prod.splits)

lemma mset_eq_imp_filter: "mset xs = mset ys \<Longrightarrow> mset (filter P xs) = mset (filter P ys)"
  by simp

lemma keyed_of_mset:
  "mset (keyed_of nfc opts entries) = mset (map (\<lambda>e. key_entry nfc (classify opts e)) (filter (admitted opts entries) entries))"
  by (simp add: keyed_of_def sort_keyed_def)

lemma keyed_of_sorted: "sorted (map (\<lambda>k. (ky_key k, ky_orig k)) (keyed_of nfc opts entries))"
  by (simp add: keyed_of_def sort_keyed_def)


definition sample_entry :: "string \<Rightarrow> PType \<Rightarrow> Entry" where
  "sample_entry n t = \<lparr>en_RelPath = str n, en_Type = t, en_Flags = 0, en_Size = 5, en_Mode = 0, en_MtimeSec = 0,
     en_MtimeNsec = 0, en_Dev = 0, en_Ino = 0, en_LinkTarget = [], en_HardlinkKey = 0\<rparr>"

definition no_filters :: Options where
  "no_filters = \<lparr>op_KeepSystemFiles = True, op_Filters = [], op_GroupBytes = 0\<rparr>"

lemma Build_no_filters: "\<exists>p. Build nfc sha entries no_filters = Inr p"
  by (auto simp: Build_def no_filters_def Let_def split: prod.splits)

lemma admitted_no_filters: "admitted no_filters entries e"
  by (auto simp: admitted_def classify_def no_filters_def filterAdmits_def)


text \<open>
  C40. The plan is a function of the set of entries: for source trees with distinct paths, two
  enumerations of the same entries in different orders give the same plan (entries, keys, ids,
  groups, digest and totals), and the same exclusions up to their order.
\<close>

theorem Build_order_independent:
  assumes "mset entries = mset entries'" and "distinct (map en_RelPath entries)"
    and "Build nfc sha entries opts = Inr p"
  shows "\<exists>exs. Build nfc sha entries' opts = Inr (p\<lparr>pn_exclusions := exs\<rparr>) \<and> mset exs = mset (pn_exclusions p)"
proof -
  have set_eq: "set entries = set entries'" using mset_eq_setD [OF assms(1)] .
  have P: "prunedSet (map (classify opts) entries') = prunedSet (map (classify opts) entries)"
    by (simp add: prunedSet_def filter_map set_eq)
  have "admitted opts entries' = admitted opts entries" by (simp add: admitted_def set_eq fun_eq_iff)
  then have ms: "mset (map (\<lambda>e. key_entry nfc (classify opts e)) (filter (admitted opts entries') entries')) =
      mset (map (\<lambda>e. key_entry nfc (classify opts e)) (filter (admitted opts entries) entries))"
    using mset_eq_imp_filter [OF assms(1)] by simp
  have inj: "inj_on (\<lambda>k. (ky_key k, ky_orig k))
      (set (map (\<lambda>e. key_entry nfc (classify opts e)) (filter (admitted opts entries') entries')))"
  proof -
    have "inj_on en_RelPath (set entries)" using assms(2) by (simp add: distinct_map)
    then show ?thesis by (auto simp: inj_on_def set_eq)
  qed
  have K: "keyed_of nfc opts entries' = keyed_of nfc opts entries"
    unfolding keyed_of_def sort_keyed_def
    by (rule sort_key_inj_key_eq [OF _ inj]) (simp_all add: ms del: mset_map)
  let ?exs = "\<lambda>es. fst (apply_decs nfc (prunedSet (map (classify opts) es)) (map (classify opts) es))"
  have ex: "mset (?exs entries') = mset (?exs entries)"
    unfolding apply_decs_eq P using assms(1) by (simp add: filter_map mset_filter)
  then have len: "length (?exs entries') = length (?exs entries)" by (metis size_mset)
  have B: "Build nfc sha es opts = (case validateFilters (op_Filters opts) of Some e \<Rightarrow> Inl e | None \<Rightarrow>
      Inr (let ks = keyed_of nfc opts es; ents = map ky_e ks; keys = map ky_key ks;
        files = filter (\<lambda>e. en_Type e = TypeFile) ents in
        \<lparr>pn_entries = ents, pn_keys = keys, pn_idByKey = index_keys ks 0 Map.empty,
            pn_groupStart = computeGroups ents (groupTarget (op_GroupBytes opts)),
            pn_exclusions = ?exs es, pn_filterSig = FilterSignature opts,
            pn_digest = computeDigest sha ents keys (FilterSignature opts),
            pn_TotalFiles = word_of_nat (length files),
            pn_TotalBytes = sum_list (map (\<lambda>e. u64_of_i64 (en_Size e)) files),
            pn_ExcludedCount = word_of_nat (length (?exs es))\<rparr>))" for es
    using apply_decs_admitted [of nfc opts es]
    by (auto simp: Build_def Let_def keyed_of_def split: option.splits prod.splits)
  from assms(3) have v: "validateFilters (op_Filters opts) = None" by (auto simp: B split: option.splits)
  show ?thesis
    using assms(3) ex by (auto simp: B [of entries] B [of entries'] v K len Let_def intro!: exI [of _ "?exs entries'"])
qed

theorem Build_order_independent_witness:
  "\<exists>p exs. Build (\<lambda>x. x) (\<lambda>x. x) [sample_entry ''b'' TypeFile, sample_entry ''a'' TypeFile] no_filters = Inr p \<and>
     Build (\<lambda>x. x) (\<lambda>x. x) [sample_entry ''a'' TypeFile, sample_entry ''b'' TypeFile] no_filters =
       Inr (p\<lparr>pn_exclusions := exs\<rparr>)"
proof -
  let ?es = "[sample_entry ''b'' TypeFile, sample_entry ''a'' TypeFile]"
  let ?es' = "[sample_entry ''a'' TypeFile, sample_entry ''b'' TypeFile]"
  obtain p where p: "Build (\<lambda>x. x) (\<lambda>x. x) ?es no_filters = Inr p" using Build_no_filters by blast
  have "mset ?es = mset ?es'" "distinct (map en_RelPath ?es)" by (simp_all add: sample_entry_def)
  from Build_order_independent [OF this p] p show ?thesis by blast
qed

section \<open>Groups\<close>

definition fsum :: "Entry list \<Rightarrow> int" where "fsum es = sum_list (map fileSize es)"
definition msum :: "Entry list \<Rightarrow> nat" where "msum es = sum_list (map manifestEntrySize es)"

lemma sum_simps [simp]: "fsum [] = 0" "msum [] = 0" "fsum (e # es) = fileSize e + fsum es"
  "fsum (a @ b) = fsum a + fsum b" "msum (a @ b) = msum a + msum b" "msum (e # es) = manifestEntrySize e + msum es"
  by (simp_all add: fsum_def msum_def)

text \<open>The abstract packing: a group is closed before an entry that would break a limit.\<close>

definition closes :: "int \<Rightarrow> Entry list \<Rightarrow> Entry \<Rightarrow> bool" where
  "closes target cur e \<longleftrightarrow> cur \<noteq> [] \<and> (length cur \<ge> maxGroupEntries \<or> fsum cur + fileSize e > target \<or>
     msum cur + manifestEntrySize e > MaxGroupManifestEntryBytes)"

fun pack :: "int \<Rightarrow> Entry list \<Rightarrow> Entry list \<Rightarrow> Entry list list" where
  "pack target [] cur = [cur]"
| "pack target (e # es) cur =
     (if closes target cur e then cur # pack target es [e] else pack target es (cur @ [e]))"

fun ends :: "nat \<Rightarrow> 'a list list \<Rightarrow> nat list" where
  "ends g [] = []"
| "ends g (x # xs) = (g + length x) # ends (g + length x) xs"

text \<open>File sizes that an \<^verbatim>\<open>int64\<close> sum can hold.\<close>

definition sizes_ok :: "Entry list \<Rightarrow> bool" where
  "sizes_ok es \<longleftrightarrow> (\<forall>e\<in>set es. 0 \<le> en_Size e) \<and> fsum es < 2 ^ 63"

lemma fileSize_nonneg: "sizes_ok es \<Longrightarrow> e \<in> set es \<Longrightarrow> 0 \<le> fileSize e"
  by (simp add: sizes_ok_def fileSize_def)

lemma group_loop_pack:
  assumes "\<forall>e\<in>set (cur @ es). 0 \<le> fileSize e" "fsum (cur @ es) < 2 ^ 63"
  shows "group_loop target es (g + length cur) (fsum cur) (msum cur) (length cur) = ends g (pack target es cur)"
  using assms
proof (induction es arbitrary: cur g)
  case Nil
  then show ?case by simp
next
  case (Cons e es)
  have nn: "0 \<le> fsum xs" if "set xs \<subseteq> set (cur @ e # es)" for xs
  proof -
    have "0 \<le> fileSize x" if "x \<in> set xs" for x using \<open>set xs \<subseteq> _\<close> that Cons.prems(1) by blast
    then show ?thesis by (auto simp: fsum_def intro!: sum_list_nonneg)
  qed
  have nn: "0 \<le> fsum cur" "0 \<le> fsum es" by (rule nn, auto)+
  then have "fsum cur + fileSize e \<le> fsum (cur @ e # es)" by simp
  moreover have "0 \<le> fsum cur + fileSize e" using nn Cons.prems(1) by simp
  ultimately have w: "wrap64 (fsum cur + fileSize e) = fsum cur + fileSize e"
    using Cons.prems(2) by (intro wrap64_id) (auto simp: is_int64_def)
  have cl: "closes target cur e \<longleftrightarrow> length cur > 0 \<and> (length cur \<ge> maxGroupEntries \<or>
      wrap64 (fsum cur + fileSize e) > target \<or> msum cur + manifestEntrySize e > MaxGroupManifestEntryBytes)"
    by (auto simp: closes_def w)
  show ?case
  proof (cases "closes target cur e")
    case True
    have "fsum ([e] @ es) < 2 ^ 63" using Cons.prems(2) nn by simp
    then have "group_loop target es ((g + length cur) + length [e]) (fsum [e]) (msum [e]) (length [e]) =
        ends (g + length cur) (pack target es [e])" using Cons.prems by (intro Cons.IH) auto
    with True show ?thesis using cl by (simp add: Let_def)
  next
    case False
    have "group_loop target es (g + length (cur @ [e])) (fsum (cur @ [e])) (msum (cur @ [e])) (length (cur @ [e])) =
        ends g (pack target es (cur @ [e]))" using Cons.prems by (intro Cons.IH) auto
    with False show ?thesis using cl by (auto simp: Let_def w)
  qed
qed

lemma concat_pack: "concat (pack target es cur) = cur @ es"
  by (induction es arbitrary: cur) auto

definition group_ok :: "int \<Rightarrow> Entry list \<Rightarrow> bool" where
  "group_ok target g \<longleftrightarrow> g \<noteq> [] \<and> length g \<le> maxGroupEntries \<and>
     (length g > 1 \<longrightarrow> fsum g \<le> target \<and> msum g \<le> MaxGroupManifestEntryBytes)"

lemma pack_ok: "group_ok target cur \<Longrightarrow> list_all (group_ok target) (pack target es cur)"
proof (induction es arbitrary: cur)
  case (Cons e es)
  show ?case
  proof (cases "closes target cur e")
    case True
    have "group_ok target [e]" by (simp add: group_ok_def maxGroupEntries_def)
    then show ?thesis using True Cons by simp
  next
    case False
    then have "group_ok target (cur @ [e])" using Cons.prems by (auto simp: closes_def group_ok_def)
    then show ?thesis using False Cons.IH by simp
  qed
qed simp

lemma pack_Nil_ok: "es \<noteq> [] \<Longrightarrow> list_all (group_ok target) (pack target es [])"
proof (cases es)
  case (Cons e es')
  have "\<not> closes target [] e" by (simp add: closes_def)
  moreover have "group_ok target [e]" by (simp add: group_ok_def maxGroupEntries_def)
  ultimately show ?thesis using pack_ok by (simp add: Cons)
qed simp

lemma length_ends [simp]: "length (ends g xs) = length xs"
  by (induction xs arbitrary: g) auto

lemma ends_nth: "i < length xs \<Longrightarrow> ends g xs ! i = g + length (concat (take (Suc i) xs))"
proof (induction xs arbitrary: g i)
  case (Cons x xs)
  then show ?case by (cases i) auto
qed simp

lemma starts_nth: "i \<le> length xs \<Longrightarrow> (g # ends g xs) ! i = g + length (concat (take i xs))"
  using ends_nth [of "i - 1" xs g] by (cases i) auto

lemma subslice_concat:
  "i < length xs \<Longrightarrow> subslice (length (concat (take i xs))) (length (concat (take (Suc i) xs))) (concat xs) = xs ! i"
proof -
  assume i: "i < length xs"
  then have "concat xs = concat (take i xs) @ xs ! i @ concat (drop (Suc i) xs)"
    by (metis concat.simps(2) concat_append id_take_nth_drop)
  then show ?thesis using i by (simp add: subslice_def take_Suc_conv_app_nth)
qed

lemma computeGroups_pack:
  assumes "es \<noteq> []" "sizes_ok es"
  shows "computeGroups es target = 0 # ends 0 (pack target es [])"
  using group_loop_pack [of "[]" es target 0] assms fileSize_nonneg
  by (simp add: computeGroups_def sizes_ok_def)

definition plan_groups :: "Plan \<Rightarrow> int \<Rightarrow> Entry list list" where
  "plan_groups p target = (if pn_entries p = [] then [] else pack target (pn_entries p) [])"

lemma groups_pack:
  assumes "pn_groupStart p = computeGroups (pn_entries p) target" "sizes_ok (pn_entries p)"
  shows "NumGroups p = length (plan_groups p target)"
    and "i < NumGroups p \<Longrightarrow> Group p i = plan_groups p target ! i"
    and "i \<le> NumGroups p \<Longrightarrow> pn_groupStart p ! i = length (concat (take i (plan_groups p target)))"
proof -
  have g: "pn_groupStart p = 0 # ends 0 (plan_groups p target)"
  proof (cases "pn_entries p = []")
    case True
    then show ?thesis by (simp add: assms(1) computeGroups_def plan_groups_def)
  next
    case False
    then show ?thesis by (simp add: assms(1) computeGroups_pack [OF False assms(2)] plan_groups_def)
  qed
  show n: "NumGroups p = length (plan_groups p target)" by (simp add: NumGroups_def g)
  show s: "pn_groupStart p ! i = length (concat (take i (plan_groups p target)))" if "i \<le> NumGroups p" for i
    using starts_nth [of i "plan_groups p target" 0] that by (simp add: g n)
  show "Group p i = plan_groups p target ! i" if "i < NumGroups p"
  proof -
    have "pn_entries p = concat (plan_groups p target)" by (simp add: plan_groups_def concat_pack)
    then show ?thesis
      using subslice_concat [of i "plan_groups p target"] s [of i] s [of "Suc i"] that by (simp add: Group_def n)
  qed
qed

text \<open>
  The groups of a plan partition its entries into consecutive runs; every group is non-empty
  and has at most 1024 entries, and a group of more than one entry respects both the byte target
  and the manifest budget (so only a single oversized entry can exceed either).
\<close>

theorem Build_groups:
  assumes "Build nfc sha entries opts = Inr p" and "sizes_ok (pn_entries p)"
  shows "concat (Groups p) = pn_entries p \<and>
    list_all (group_ok (groupTarget (op_GroupBytes opts))) (Groups p)"
proof -
  let ?t = "groupTarget (op_GroupBytes opts)"
  note g = groups_pack [OF Build_sel(4) [OF assms(1)] assms(2)]
  have "Groups p = plan_groups p ?t"
    using g(1,2) by (auto simp: Groups_def intro!: nth_equalityI)
  then show ?thesis
    using pack_Nil_ok by (auto simp: plan_groups_def concat_pack)
qed

theorem Build_groups_witness:
  "\<exists>p. Build (\<lambda>x. x) (\<lambda>x. x) [sample_entry ''b'' TypeFile] no_filters = Inr p \<and> concat (Groups p) = pn_entries p"
proof -
  let ?es = "[sample_entry ''b'' TypeFile]"
  obtain p where p: "Build (\<lambda>x. x) (\<lambda>x. x) ?es no_filters = Inr p" using Build_no_filters by blast
  have "keyed_of (\<lambda>x. x) no_filters ?es = [key_entry (\<lambda>x. x) (classify no_filters (sample_entry ''b'' TypeFile))]"
    by (simp add: keyed_of_def admitted_no_filters sort_keyed_def)
  then have "sizes_ok (pn_entries p)"
    by (simp add: Build_sel [OF p] sizes_ok_def fileSize_def) (simp add: sample_entry_def)
  with Build_groups [OF p] p show ?thesis by blast
qed

section \<open>Ids and groups\<close>

text \<open>The binary search finds the first index of a monotone predicate.\<close>

lemma search_loop_least:
  assumes mono: "\<And>a b. a \<le> b \<Longrightarrow> b < n \<Longrightarrow> f a \<Longrightarrow> f b"
  shows "i \<le> j \<Longrightarrow> j \<le> n \<Longrightarrow> (\<forall>k. k < i \<longrightarrow> \<not> f k) \<Longrightarrow> (\<forall>k. j \<le> k \<longrightarrow> k < n \<longrightarrow> f k) \<Longrightarrow>
    search_loop f i j = r \<Longrightarrow> r \<le> n \<and> (\<forall>k. k < r \<longrightarrow> \<not> f k) \<and> (\<forall>k. r \<le> k \<longrightarrow> k < n \<longrightarrow> f k)"
proof (induction "j - i" arbitrary: i j rule: less_induct)
  case less
  show ?case
  proof (cases "i < j")
    case True
    define h where "h = (i + j) div 2"
    have h: "i \<le> h" "h < j" using True by (auto simp: h_def)
    have step: "search_loop f i j = (if \<not> f h then search_loop f (h + 1) j else search_loop f i h)"
      using True by (subst search_loop.simps) (simp add: h_def Let_def)
    show ?thesis
    proof (cases "f h")
      case False
      have "\<not> f k" if "k < h + 1" for k using False mono [of k h] that h less.prems(2) by auto
      then show ?thesis
        by (intro less.hyps [of j "h + 1"]) (use less.prems h False step in auto)
    next
      case fh: True
      have "f k" if "h \<le> k" "k < n" for k using fh mono [of h k] that by blast
      then show ?thesis
        by (intro less.hyps [of h i]) (use less.prems h fh step in auto)
    qed
  next
    case False
    then have "r = i" using less.prems by (simp add: search_loop.simps)
    with False less.prems show ?thesis by auto
  qed
qed

lemma Search_least:
  assumes "\<And>a b. a \<le> b \<Longrightarrow> b < n \<Longrightarrow> f a \<Longrightarrow> f b"
  shows "Search n f \<le> n" "k < Search n f \<Longrightarrow> \<not> f k" "Search n f \<le> k \<Longrightarrow> k < n \<Longrightarrow> f k"
  using search_loop_least [where n = n and f = f and i = 0 and j = n and r = "Search n f", OF assms]
  by (auto simp: Search_def)

text \<open>
  \<^verbatim>\<open>GroupID\<close> finds the group that owns a file id: the id lies between the group's first id
  and the next group's.
\<close>

theorem GroupID_owner:
  assumes "Build nfc sha entries opts = Inr p" and "sizes_ok (pn_entries p)"
    and "length (pn_entries p) < 2 ^ 64" and "unat fid < length (pn_entries p)"
  shows "unat (GroupID p fid) < NumGroups p \<and>
    pn_groupStart p ! unat (GroupID p fid) \<le> unat fid \<and>
    unat fid < pn_groupStart p ! (unat (GroupID p fid) + 1)"
proof -
  let ?t = "groupTarget (op_GroupBytes opts)"
  let ?G = "plan_groups p ?t"
  note g = groups_pack [OF Build_sel(4) [OF assms(1)] assms(2)]
  have ents: "concat ?G = pn_entries p" by (simp add: plan_groups_def concat_pack)
  define s where "s k = length (concat (take k ?G))" for k
  have s_le: "s k \<le> length (pn_entries p)" for k
    unfolding s_def ents [symmetric] by (metis append_take_drop_id concat_append length_append le_add1)
  have s_mono: "s a \<le> s b" if "a \<le> b" for a b
    unfolding s_def using that by (metis le_Suc_ex take_add concat_append length_append le_add1)
  let ?f = "\<lambda>k. word_of_nat (pn_groupStart p ! (k + 1)) > fid"
  have f: "?f k \<longleftrightarrow> unat fid < s (Suc k)" if "k < NumGroups p" for k
  proof -
    have "unat (word_of_nat (s (Suc k)) :: u64) = s (Suc k)"
      using s_le [of "Suc k"] assms(3) by (simp add: unat_of_nat)
    then show ?thesis using g(3) [of "Suc k"] that by (simp add: s_def word_less_nat_alt)
  qed
  define r where "r = Search (NumGroups p) ?f"
  have mono: "?f b" if "a \<le> b" "b < NumGroups p" "?f a" for a b
    using that f s_mono [of "Suc a" "Suc b"] by auto
  have r2: "\<not> ?f k" if "k < r" for k
    by (rule Search_least(2) [of "NumGroups p" ?f]) (use mono that in \<open>auto simp: r_def\<close>)
  have r3: "?f k" if "r \<le> k" "k < NumGroups p" for k
    by (rule Search_least(3) [of "NumGroups p" ?f]) (use mono that in \<open>auto simp: r_def\<close>)
  have ne: "pn_entries p \<noteq> []" using assms(4) by auto
  have last: "s (NumGroups p) = length (pn_entries p)" using g(1) by (simp add: s_def ents)
  have N: "0 < NumGroups p"
  proof (rule ccontr)
    assume "\<not> 0 < NumGroups p"
    then have "length (pn_entries p) = 0" using last by (simp add: s_def)
    then show False using ne by simp
  qed
  have rN: "r < NumGroups p"
  proof (rule ccontr)
    assume "\<not> r < NumGroups p"
    then have "NumGroups p - 1 < r" using N by simp
    then have "\<not> ?f (NumGroups p - 1)" using r2 by blast
    then show False using f [of "NumGroups p - 1"] N last assms(4) by simp
  qed
  have len: "NumGroups p \<le> length (pn_entries p)"
  proof -
    have "length xs \<le> length (concat xs)" if "list_all (group_ok ?t) xs" for xs
      using that by (induction xs) (auto simp: group_ok_def Suc_le_eq neq_Nil_conv)
    from this [of ?G] show ?thesis using pack_Nil_ok [OF ne] ne g(1) ents by (simp add: plan_groups_def)
  qed
  have gid: "unat (GroupID p fid) = r"
    unfolding GroupID_def r_def [symmetric] using rN len assms(3) by (simp add: unat_of_nat)
  have hi: "unat fid < s (Suc r)" using r3 [OF order_refl rN] f [OF rN] by simp
  have lo: "s r \<le> unat fid"
  proof (cases r)
    case 0
    then show ?thesis by (simp add: s_def)
  next
    case (Suc q)
    then have "\<not> ?f q" using r2 [of q] by simp
    then show ?thesis using f [of q] rN Suc by simp
  qed
  show ?thesis using gid rN hi lo g(3) [of r] g(3) [of "Suc r"] by (simp add: s_def)
qed

theorem GroupID_owner_witness:
  "\<exists>p. Build (\<lambda>x. x) (\<lambda>x. x) [sample_entry ''b'' TypeFile] no_filters = Inr p \<and>
     unat (GroupID p 0) < NumGroups p"
proof -
  let ?es = "[sample_entry ''b'' TypeFile]"
  obtain p where p: "Build (\<lambda>x. x) (\<lambda>x. x) ?es no_filters = Inr p" using Build_no_filters by blast
  have K: "keyed_of (\<lambda>x. x) no_filters ?es = [key_entry (\<lambda>x. x) (classify no_filters (sample_entry ''b'' TypeFile))]"
    by (simp add: keyed_of_def admitted_no_filters sort_keyed_def)
  then have "sizes_ok (pn_entries p)"
    by (simp add: Build_sel [OF p] sizes_ok_def fileSize_def) (simp add: sample_entry_def)
  moreover have "length (pn_entries p) = 1" by (simp add: Build_sel [OF p] K)
  ultimately show ?thesis using GroupID_owner [OF p, of 0] p by auto
qed

section \<open>Digest and filter signature\<close>

lemma append_eq_len: "length a = length b \<Longrightarrow> a @ x = b @ y \<longleftrightarrow> a = b \<and> x = y"
  by simp

lemma digest_entry_inj:
  assumes "digest_entry k e @ x = digest_entry k' e' @ y" and "length k < 2 ^ 32" "length k' < 2 ^ 32"
    and "is_int64 (en_Size e)" "is_int64 (en_Size e')" "is_int64 (en_MtimeSec e)" "is_int64 (en_MtimeSec e')"
  shows "k = k' \<and> en_Type e = en_Type e' \<and> en_Size e = en_Size e' \<and> en_MtimeSec e = en_MtimeSec e' \<and>
    en_MtimeNsec e = en_MtimeNsec e' \<and> x = y"
proof -
  have be32_inj: "be32 a = be32 b \<Longrightarrow> a = b" for a b by (metis get_be_Nil(2))
  have be64_inj: "be64 a = be64 b \<Longrightarrow> a = b" for a b by (metis get_be_Nil(3))
  have i64_inj: "u64_of_i64 a = u64_of_i64 b \<Longrightarrow> is_int64 a \<Longrightarrow> is_int64 b \<Longrightarrow> a = b" for a b
    by (metis i64_of_u64_of_i64)
  have "be32 (word_of_nat (length k)) = be32 (word_of_nat (length k'))"
    using assms(1) by (simp add: digest_entry_def append_eq_len)
  from be32_inj [OF this]
  have "unat (word_of_nat (length k) :: u32) = unat (word_of_nat (length k') :: u32)" by (rule arg_cong)
  then have len: "length k = length k'" using assms(2,3) by (simp add: unat_of_nat)
  have "type_byte t = type_byte t' \<Longrightarrow> t = t'" for t t' by (cases t; cases t') (simp_all add: type_byte_def)
  with assms len show ?thesis
    by (auto simp: digest_entry_def append_eq_len dest!: be64_inj be32_inj i64_inj)
qed

text \<open>
  For a given filter signature the digest input determines the plan's entries: two plans with
  the same number of keys as entries that hash the same bytes agree on every key, type, size and
  modification time, in order.
\<close>

theorem digest_input_injective:
  assumes "digest_input es ks sig = digest_input es' ks' sig"
    and "length ks = length es" "length ks' = length es'"
    and "\<forall>k\<in>set ks \<union> set ks'. length k < 2 ^ 32"
    and "\<forall>e\<in>set es \<union> set es'. is_int64 (en_Size e) \<and> is_int64 (en_MtimeSec e)"
  shows "ks = ks' \<and> map (\<lambda>e. (en_Type e, en_Size e, en_MtimeSec e, en_MtimeNsec e)) es =
    map (\<lambda>e. (en_Type e, en_Size e, en_MtimeSec e, en_MtimeNsec e)) es'"
proof -
  let ?c = "\<lambda>ks es. concat (map (\<lambda>(k, e). digest_entry k e) (zip ks es))"
  have "?c ks es = ?c ks' es'" using assms(1) by (simp add: digest_input_def)
  then show ?thesis using assms(2-5)
  proof (induction ks es arbitrary: ks' es' rule: list_induct2')
    case 1
    then show ?case by (cases ks'; cases es') (auto simp: digest_entry_def be32_def)
  next
    case (4 k ks e es)
    have "?c (k # ks) (e # es) \<noteq> []" by (simp add: digest_entry_def be32_def)
    then obtain k' ks1 e' es1 where s: "ks' = k' # ks1" "es' = e' # es1"
      using 4(2,4) by (cases ks'; cases es') auto
    have "digest_entry k e @ ?c ks es = digest_entry k' e' @ ?c ks1 es1" using 4(2) by (simp add: s)
    from digest_entry_inj [OF this] 4(5,6)
    have "k = k' \<and> en_Type e = en_Type e' \<and> en_Size e = en_Size e' \<and> en_MtimeSec e = en_MtimeSec e' \<and>
      en_MtimeNsec e = en_MtimeNsec e' \<and> ?c ks es = ?c ks1 es1" by (simp add: s)
    with 4(1) [of ks1 es1] 4(3-6) show ?case by (simp add: s)
  qed auto
qed

theorem digest_input_injective_witness:
  "\<exists>ks'. digest_input [sample_entry ''b'' TypeFile] [str ''b''] [] = digest_input [sample_entry ''b'' TypeFile] ks' [] \<and>
     ks' = [str ''b'']"
proof -
  let ?es = "[sample_entry ''b'' TypeFile]"
  have "digest_input ?es [str ''b''] [] = digest_input ?es [str ''b''] []" by simp
  from digest_input_injective [OF this] show ?thesis
    by (auto simp: sample_entry_def is_int64_def)
qed

text \<open>
  Different filter lists can have the same signature: an exclude rule whose pattern contains a
  comma is indistinguishable from two rules, so two plans built with different rules can share an
  identity.
\<close>

theorem FilterSignature_collision:
  "FilterSignature \<lparr>op_KeepSystemFiles = k, op_Filters = [\<lparr>fr_Include = False, fr_Pattern = str ''a,+b''\<rparr>], op_GroupBytes = g\<rparr> =
   FilterSignature \<lparr>op_KeepSystemFiles = k, op_Filters = [\<lparr>fr_Include = False, fr_Pattern = str ''a''\<rparr>,
     \<lparr>fr_Include = True, fr_Pattern = str ''b''\<rparr>], op_GroupBytes = g\<rparr>"
  by (simp add: FilterSignature_def rule_sig_def)

definition comma_free :: "FilterRule list \<Rightarrow> bool" where
  "comma_free rs \<longleftrightarrow> list_all (\<lambda>r. ch (CHR '','') \<notin> set (fr_Pattern r)) rs"

lemma rule_sig_inject: "rule_sig r = rule_sig s \<longleftrightarrow> r = s"
  by (cases r; cases s) (auto simp: rule_sig_def split: if_splits)

lemma rule_sig_comma: "ch (CHR '','') \<notin> set (fr_Pattern r) \<Longrightarrow> ch (CHR '','') \<notin> set (rule_sig r)"
  by (simp add: rule_sig_def)

lemma rule_sig_nonempty [simp]: "rule_sig r \<noteq> []"
  by (simp add: rule_sig_def)

text \<open>Reading the first rule back: everything up to the first comma.\<close>

lemma takeWhile_rules_sig:
  assumes "comma_free (r # rs)"
  shows "takeWhile (\<lambda>c. c \<noteq> ch (CHR '','')) (rules_sig (r # rs)) = rule_sig r"
    and "dropWhile (\<lambda>c. c \<noteq> ch (CHR '','')) (rules_sig (r # rs)) = (if rs = [] then [] else ch (CHR '','') # rules_sig rs)"
proof -
  have "\<forall>c\<in>set (rule_sig r). c \<noteq> ch (CHR '','')" using assms rule_sig_comma [of r] by (auto simp: comma_free_def)
  then show "takeWhile (\<lambda>c. c \<noteq> ch (CHR '','')) (rules_sig (r # rs)) = rule_sig r"
    "dropWhile (\<lambda>c. c \<noteq> ch (CHR '','')) (rules_sig (r # rs)) = (if rs = [] then [] else ch (CHR '','') # rules_sig rs)"
    by (cases rs; simp add: takeWhile_append2 dropWhile_append2 takeWhile_eq_all_conv)+
qed

lemma rules_sig_inject: "comma_free rs \<Longrightarrow> comma_free ss \<Longrightarrow> rules_sig rs = rules_sig ss \<Longrightarrow> rs = ss"
proof (induction rs arbitrary: ss)
  case Nil
  then show ?case by (cases ss rule: rules_sig.cases) (auto dest: sym)
next
  case (Cons r rs)
  have "rules_sig (r # rs) \<noteq> []" by (cases rs) auto
  then obtain s ss' where ss: "ss = s # ss'" using Cons.prems by (cases ss) auto
  have "rule_sig r = rule_sig s"
    using takeWhile_rules_sig(1) [OF Cons.prems(1)] takeWhile_rules_sig(1) [of s ss'] Cons.prems by (simp add: ss)
  then have "r = s" by (simp add: rule_sig_inject)
  moreover have "(if rs = [] then [] else ch (CHR '','') # rules_sig rs) = (if ss' = [] then [] else ch (CHR '','') # rules_sig ss')"
    using takeWhile_rules_sig(2) [OF Cons.prems(1)] takeWhile_rules_sig(2) [of s ss'] Cons.prems by (simp add: ss)
  then have "rs = ss'" using Cons.IH [of ss'] Cons.prems by (auto simp: ss comma_free_def split: if_splits)
  ultimately show ?case by (simp add: ss)
qed

text \<open>
  Without commas in the patterns the signature is faithful: equal signatures mean the same
  system-file switch and the same ordered rules.
\<close>

theorem FilterSignature_injective:
  assumes "FilterSignature o1 = FilterSignature o2" and "comma_free (op_Filters o1)" "comma_free (op_Filters o2)"
  shows "op_KeepSystemFiles o1 = op_KeepSystemFiles o2 \<and> op_Filters o1 = op_Filters o2"
proof -
  let ?k = "\<lambda>b. (if b then str ''off'' else sysExcludeTag) @ str '';filters=''"
  have eq: "?k (op_KeepSystemFiles o1) @ rules_sig (op_Filters o1) = ?k (op_KeepSystemFiles o2) @ rules_sig (op_Filters o2)"
    using assms(1) by (simp add: FilterSignature_def)
  then have k: "op_KeepSystemFiles o1 = op_KeepSystemFiles o2"
    by (auto simp: sysExcludeTag_def split: if_splits)
  with eq have "rules_sig (op_Filters o1) = rules_sig (op_Filters o2)" by simp
  with k rules_sig_inject [OF assms(2,3)] show ?thesis by simp
qed

theorem FilterSignature_injective_witness:
  "FilterSignature no_filters = FilterSignature (no_filters\<lparr>op_GroupBytes := 7\<rparr>) \<and>
   op_Filters no_filters = op_Filters (no_filters\<lparr>op_GroupBytes := 7\<rparr>)"
  using FilterSignature_injective [of no_filters "no_filters\<lparr>op_GroupBytes := 7\<rparr>"]
  by (simp add: no_filters_def FilterSignature_def comma_free_def)

end
