(* ===== verification/Walk.thy ===== *)
theory Walk
  imports Plan_Props Go_Path
begin

text \<open>
  The walk over the source tree (\<^verbatim>\<open>internal/sender/walk.go\<close>, \<^verbatim>\<open>sysstat_unix.go\<close>). The operating system is the
  record \<open>src_fs\<close>: what each system call answers for a path. The channel of entries is the list sent so far.
  The recursion is on fuel, as a source can in principle be infinite; \<open>None\<close> says that the fuel ran out, and
  \<open>walk_terminates\<close> gives the amount that is enough on a file system with finitely many directories.
\<close>

section \<open>The operating system\<close>

datatype file_kind = KDir | KRegular | KSymlink | KOther

record FileInfo =
  fi_kind :: file_kind
  fi_perm :: u32
  fi_size :: int
  fi_mtimeSec :: int
  fi_mtimeNsec :: u32
  fi_sys :: "(u64 \<times> u64 \<times> u64) option"

text \<open>A failed \<^verbatim>\<open>Lstat\<close> says whether the error is \<^verbatim>\<open>fs.ErrNotExist\<close>.\<close>

record src_fs =
  sf_Lstat :: "bytes \<Rightarrow> bool + FileInfo"
  sf_Stat :: "bytes \<Rightarrow> FileInfo option"
  sf_ReadDir :: "bytes \<Rightarrow> bytes list option"
  sf_Readlink :: "bytes \<Rightarrow> bytes option"

definition sysStat :: "FileInfo \<Rightarrow> u64 \<times> u64 \<times> u64" where
  "sysStat fi = (case fi_sys fi of None \<Rightarrow> (0, 0, 1) | Some s \<Rightarrow> s)"

definition dir_key :: "FileInfo \<Rightarrow> u64 \<times> u64" where
  "dir_key fi = (case sysStat fi of (dev, ino, _) \<Rightarrow> (dev, ino))"

definition hardlinkKey :: "u64 \<Rightarrow> u64 \<Rightarrow> u64" where
  "hardlinkKey dev ino = (xor (dev * 1099511628211) ino) * 1099511628211"

section \<open>The walker\<close>

record walkConfig =
  wc_root :: bytes
  wc_skipAbs :: bytes
  wc_followSymlinks :: bool
  wc_oneFileSystem :: bool
  wc_hardlinks :: bool

record walker =
  wk_out :: "Entry list"
  wk_visited :: "(u64 \<times> u64) set"
  wk_skipped :: u32
  wk_unreadable :: u32

definition no_entry :: Entry where
  "no_entry = \<lparr>en_RelPath = [], en_Type = TypeFile, en_Flags = 0, en_Size = 0, en_Mode = 0, en_MtimeSec = 0,
     en_MtimeNsec = 0, en_Dev = 0, en_Ino = 0, en_LinkTarget = [], en_HardlinkKey = 0\<rparr>"

definition setMtime :: "FileInfo \<Rightarrow> Entry \<Rightarrow> Entry" where
  "setMtime fi e = e\<lparr>en_MtimeSec := fi_mtimeSec fi, en_MtimeNsec := fi_mtimeNsec fi\<rparr>"

definition send_entry :: "Entry \<Rightarrow> walker \<Rightarrow> walker" where
  "send_entry e w = w\<lparr>wk_out := wk_out w @ [e]\<rparr>"

definition dir_entry :: "FileInfo \<Rightarrow> bytes \<Rightarrow> Entry" where
  "dir_entry fi rel = setMtime fi (no_entry\<lparr>en_RelPath := rel, en_Type := TypeDir, en_Mode := fi_perm fi\<rparr>)"

definition emitDir :: "FileInfo \<Rightarrow> bytes \<Rightarrow> walker \<Rightarrow> walker" where
  "emitDir fi rel = send_entry (dir_entry fi rel)"

definition file_entry :: "walkConfig \<Rightarrow> FileInfo \<Rightarrow> bytes \<Rightarrow> Entry" where
  "file_entry cfg fi rel = (case sysStat fi of (dev, ino, nlink) \<Rightarrow>
     let e = setMtime fi (no_entry\<lparr>en_RelPath := rel, en_Type := TypeFile, en_Size := fi_size fi,
               en_Mode := fi_perm fi, en_Dev := dev, en_Ino := ino\<rparr>);
         e = (if and (fi_perm fi) 0x49 \<noteq> 0 then e\<lparr>en_Flags := or (en_Flags e) FlagExecutable\<rparr> else e)
     in if wc_hardlinks cfg \<and> nlink > 1
        then e\<lparr>en_Flags := or (en_Flags e) FlagHasHardlinkKey, en_HardlinkKey := hardlinkKey dev ino\<rparr> else e)"

definition emitFile :: "walkConfig \<Rightarrow> FileInfo \<Rightarrow> bytes \<Rightarrow> walker \<Rightarrow> walker" where
  "emitFile cfg fi rel = send_entry (file_entry cfg fi rel)"

definition link_entry :: "FileInfo \<Rightarrow> bytes \<Rightarrow> bytes \<Rightarrow> Entry" where
  "link_entry fi target rel = (case sysStat fi of (dev, ino, _) \<Rightarrow>
     setMtime fi (no_entry\<lparr>en_RelPath := rel, en_Type := TypeSymlink, en_Mode := fi_perm fi, en_Dev := dev,
       en_Ino := ino, en_LinkTarget := target\<rparr>))"

definition skip :: "walker \<Rightarrow> walker" where
  "skip w = w\<lparr>wk_skipped := wk_skipped w + 1\<rparr>"

definition skip_unreadable :: "walker \<Rightarrow> walker" where
  "skip_unreadable w = w\<lparr>wk_skipped := wk_skipped w + 1, wk_unreadable := wk_unreadable w + 1\<rparr>"

definition child_rel :: "bytes \<Rightarrow> bytes \<Rightarrow> bytes" where
  "child_rel rel name = (if rel \<noteq> [] then rel @ slash # name else name)"

definition other_device :: "walkConfig \<Rightarrow> u64 \<Rightarrow> FileInfo \<Rightarrow> bool" where
  "other_device cfg rootDev fi \<longleftrightarrow> wc_oneFileSystem cfg \<and> fst (sysStat fi) \<noteq> rootDev"

text \<open>
  The three methods call each other; \<open>rec\<close> stands for the nested call of \<open>walkDir\<close>, with its path and relative
  path. \<open>walkEntries\<close> is the loop of \<open>walkDir\<close> over the names of a directory, \<open>walkEntry\<close> one round of it.
\<close>

type_synonym descend = "bytes \<Rightarrow> bytes \<Rightarrow> walker \<Rightarrow> walker option"

definition handleSymlink :: "descend \<Rightarrow> src_fs \<Rightarrow> walkConfig \<Rightarrow> FileInfo \<Rightarrow> descend" where
  "handleSymlink rec fs cfg fi p rel w = (case sf_Readlink fs p of
     None \<Rightarrow> Some w
   | Some target \<Rightarrow>
       if \<not> wc_followSymlinks cfg then Some (send_entry (link_entry fi target rel) w)
       else case sf_Stat fs p of
         None \<Rightarrow> Some (skip w)
       | Some st \<Rightarrow>
           if fi_kind st = KDir then
             (if dir_key st \<in> wk_visited w then Some (skip w)
              else rec p rel (emitDir st rel (w\<lparr>wk_visited := insert (dir_key st) (wk_visited w)\<rparr>)))
           else if fi_kind st = KRegular then Some (emitFile cfg st rel w)
           else Some w)"

definition walkEntry :: "descend \<Rightarrow> src_fs \<Rightarrow> walkConfig \<Rightarrow> u64 \<Rightarrow> bytes \<Rightarrow> bytes \<Rightarrow> bytes \<Rightarrow> walker \<Rightarrow> walker option" where
  "walkEntry rec fs cfg dev p rel name w =
     (let childAbs = path_Join p name; childRel = child_rel rel name in
      if name = str ''.esync'' then Some w
      else if wc_skipAbs cfg \<noteq> [] \<and> childAbs = wc_skipAbs cfg then Some w
      else case sf_Lstat fs childAbs of
        Inl _ \<Rightarrow> Some w
      | Inr fi \<Rightarrow> (case fi_kind fi of
           KSymlink \<Rightarrow> handleSymlink rec fs cfg fi childAbs childRel w
         | KDir \<Rightarrow> if other_device cfg dev fi then Some w else rec childAbs childRel (emitDir fi childRel w)
         | KRegular \<Rightarrow> Some (emitFile cfg fi childRel w)
         | KOther \<Rightarrow> Some (skip w)))"

fun walkEntries :: "descend \<Rightarrow> src_fs \<Rightarrow> walkConfig \<Rightarrow> u64 \<Rightarrow> bytes \<Rightarrow> bytes \<Rightarrow> bytes list \<Rightarrow> walker \<Rightarrow> walker option" where
  "walkEntries rec fs cfg dev p rel [] w = Some w"
| "walkEntries rec fs cfg dev p rel (name # des) w = (case walkEntry rec fs cfg dev p rel name w of
     None \<Rightarrow> None
   | Some w' \<Rightarrow> walkEntries rec fs cfg dev p rel des w')"

fun walkDir :: "nat \<Rightarrow> src_fs \<Rightarrow> walkConfig \<Rightarrow> u64 \<Rightarrow> descend" where
  "walkDir 0 fs cfg dev p rel w = None"
| "walkDir (Suc n) fs cfg dev p rel w = (case sf_ReadDir fs p of
     None \<Rightarrow> Some (skip_unreadable w)
   | Some des \<Rightarrow> walkEntries (walkDir n fs cfg dev) fs cfg dev p rel des w)"

text \<open>The outcome is a fault, or the final walker with its entries and counts.\<close>

definition walkTree :: "nat \<Rightarrow> src_fs \<Rightarrow> walkConfig \<Rightarrow> (Code + walker) option" where
  "walkTree n fs cfg = (case sf_Lstat fs (wc_root cfg) of
     Inl missing \<Rightarrow> Some (Inl (if missing then E1003 else E1004))
   | Inr fi \<Rightarrow>
       let dev = fst (sysStat fi);
           w = \<lparr>wk_out = [], wk_visited = {}, wk_skipped = 0, wk_unreadable = 0\<rparr>
       in case fi_kind fi of
            KDir \<Rightarrow> map_option Inr (walkDir n fs cfg dev (wc_root cfg) [] w)
          | KRegular \<Rightarrow> Some (Inr (emitFile cfg fi (path_Base (wc_root cfg)) w))
          | KSymlink \<Rightarrow> map_option Inr
              (handleSymlink (walkDir n fs cfg dev) fs cfg fi (wc_root cfg) (path_Base (wc_root cfg)) w)
          | KOther \<Rightarrow> Some (Inl E1004))"

section \<open>Termination\<close>

text \<open>
  Physical directories form a tree of height at most \<open>R\<close> (a directory has no second hard link), and the
  directories a link can lead to are those of the finite set \<open>K\<close>. \<open>h\<close> is the height below a path.
\<close>

definition finite_source :: "src_fs \<Rightarrow> (u64 \<times> u64) set \<Rightarrow> (bytes \<Rightarrow> nat) \<Rightarrow> nat \<Rightarrow> bool" where
  "finite_source fs K h R \<longleftrightarrow> finite K \<and> (\<forall>p. h p \<le> R) \<and>
     (\<forall>p des name fi. sf_ReadDir fs p = Some des \<longrightarrow> name \<in> set des \<longrightarrow>
        sf_Lstat fs (path_Join p name) = Inr fi \<longrightarrow> fi_kind fi = KDir \<longrightarrow> h (path_Join p name) < h p) \<and>
     (\<forall>p st. sf_Stat fs p = Some st \<longrightarrow> fi_kind st = KDir \<longrightarrow> dir_key st \<in> K)"

definition walk_bound :: "(u64 \<times> u64) set \<Rightarrow> nat \<Rightarrow> walker \<Rightarrow> nat" where
  "walk_bound K R w = card (K - wk_visited w) * Suc R"

lemma walker_ops_visited [simp]:
  "wk_visited (emitDir fi rel w) = wk_visited w" "wk_visited (emitFile cfg fi rel w) = wk_visited w"
  "wk_visited (send_entry e w) = wk_visited w" "wk_visited (skip w) = wk_visited w"
  "wk_visited (skip_unreadable w) = wk_visited w"
  by (simp_all add: emitDir_def emitFile_def send_entry_def skip_def skip_unreadable_def)

lemma walk_bound_cong: "wk_visited w = wk_visited v \<Longrightarrow> walk_bound K R w = walk_bound K R v"
  by (simp add: walk_bound_def)

lemma walk_bound_mono: "finite K \<Longrightarrow> wk_visited w \<subseteq> wk_visited v \<Longrightarrow> walk_bound K R v \<le> walk_bound K R w"
  unfolding walk_bound_def by (intro mult_right_mono card_mono) auto

lemma walk_bound_visit:
  assumes "finite K" "k \<in> K" "k \<notin> wk_visited w"
  shows "walk_bound K R (w\<lparr>wk_visited := insert k (wk_visited w)\<rparr>) + Suc R = walk_bound K R w"
proof -
  have "K - insert k (wk_visited w) = (K - wk_visited w) - {k}" by auto
  moreover have "card (K - wk_visited w) = Suc (card ((K - wk_visited w) - {k}))"
    using assms by (intro card.remove) auto
  ultimately show ?thesis by (simp add: walk_bound_def)
qed

text \<open>A nested call that has enough fuel for every smaller bound returns, and forgets no visited directory.\<close>

definition returns :: "(u64 \<times> u64) set \<Rightarrow> (bytes \<Rightarrow> nat) \<Rightarrow> nat \<Rightarrow> nat \<Rightarrow> descend \<Rightarrow> bool" where
  "returns K h R n rec \<longleftrightarrow> (\<forall>p rel w. walk_bound K R w + h p < n \<longrightarrow>
     (\<exists>w'. rec p rel w = Some w' \<and> wk_visited w \<subseteq> wk_visited w'))"

lemma returnsD:
  "returns K h R n rec \<Longrightarrow> walk_bound K R v + h p < n \<Longrightarrow> wk_visited w \<subseteq> wk_visited v \<Longrightarrow>
     \<exists>w'. rec p rel v = Some w' \<and> wk_visited w \<subseteq> wk_visited w'"
  unfolding returns_def by (meson subset_trans)

lemma handleSymlink_returns:
  assumes src: "finite_source fs K h R" and rec: "returns K h R n rec" and n: "walk_bound K R w \<le> n"
  shows "\<exists>w'. handleSymlink rec fs cfg fi p rel w = Some w' \<and> wk_visited w \<subseteq> wk_visited w'"
proof (cases "wc_followSymlinks cfg \<and> (\<exists>st. sf_Stat fs p = Some st \<and> fi_kind st = KDir \<and> dir_key st \<notin> wk_visited w)")
  case True
  then obtain st where st: "sf_Stat fs p = Some st" "fi_kind st = KDir" "dir_key st \<notin> wk_visited w" by auto
  let ?w = "w\<lparr>wk_visited := insert (dir_key st) (wk_visited w)\<rparr>"
  have "finite K" "h p \<le> R" "dir_key st \<in> K" using src st(1,2) by (auto simp: finite_source_def)
  then have "walk_bound K R (emitDir st rel ?w) + h p < n"
    using walk_bound_visit [of K "dir_key st" w R] st(3) n walk_bound_cong [of "emitDir st rel ?w" ?w] by simp
  from returnsD [OF rec this, of w] True st show ?thesis
    by (auto simp: handleSymlink_def split: option.splits)
qed (auto simp: handleSymlink_def split: option.splits)

lemma walkEntry_returns:
  assumes src: "finite_source fs K h R" and rec: "returns K h R n rec" and n: "walk_bound K R w + h p \<le> n"
    and des: "sf_ReadDir fs p = Some des" "name \<in> set des"
  shows "\<exists>w'. walkEntry rec fs cfg dev p rel name w = Some w' \<and> wk_visited w \<subseteq> wk_visited w'"
proof -
  let ?c = "path_Join p name"
  have "\<exists>w'. rec ?c r (emitDir fi r w) = Some w' \<and> wk_visited w \<subseteq> wk_visited w'"
    if "sf_Lstat fs ?c = Inr fi" "fi_kind fi = KDir" for fi r
  proof -
    have "h ?c < h p" using src des that unfolding finite_source_def by blast
    then show ?thesis using n walk_bound_cong [of "emitDir fi r w" w] by (intro returnsD [OF rec]) auto
  qed
  then show ?thesis using handleSymlink_returns [OF src rec, of w] n
    by (auto simp: walkEntry_def Let_def split: sum.splits file_kind.splits)
qed

lemma walkEntries_returns:
  assumes src: "finite_source fs K h R" and rec: "returns K h R n rec" and "sf_ReadDir fs p = Some all"
  shows "walk_bound K R w + h p \<le> n \<Longrightarrow> set des \<subseteq> set all \<Longrightarrow>
    \<exists>w'. walkEntries rec fs cfg dev p rel des w = Some w' \<and> wk_visited w \<subseteq> wk_visited w'"
proof (induction des arbitrary: w)
  case (Cons name des)
  from walkEntry_returns [OF src rec Cons.prems(1) assms(3)] Cons.prems(2) obtain v where
    v: "walkEntry rec fs cfg dev p rel name w = Some v" "wk_visited w \<subseteq> wk_visited v" by (metis list.set_intros(1) subsetD)
  moreover have "walk_bound K R v + h p \<le> n"
    using walk_bound_mono [of K w v R] Cons.prems(1) src v(2) by (auto simp: finite_source_def)
  ultimately show ?case using Cons.IH [of v] Cons.prems(2) by auto
qed simp

lemma walkDir_returns:
  assumes src: "finite_source fs K h R"
  shows "returns K h R n (walkDir n fs cfg dev)"
proof (induction n)
  case (Suc n)
  then show ?case
    using walkEntries_returns [OF src Suc] by (auto simp: returns_def less_Suc_eq_le split: option.splits)
qed (simp add: returns_def)

text \<open>
  C31. The walk ends, also when it follows symbolic links in a tree with cycles: on a source with the
  directories K, of height at most R, it returns with fuel above \<open>(card K + 1) * (R + 1)\<close>.
\<close>

theorem walk_terminates:
  assumes "finite_source fs K h R" "(card K + 1) * (R + 1) \<le> n"
  shows "\<exists>r. walkTree n fs cfg = Some r"
proof -
  let ?w = "\<lparr>wk_out = [], wk_visited = {}, wk_skipped = 0, wk_unreadable = 0\<rparr>"
  have b: "walk_bound K R ?w + R < n" using assms(2) by (simp add: walk_bound_def)
  have "\<exists>w'. walkDir n fs cfg d (wc_root cfg) [] ?w = Some w'" for d
  proof -
    have "h (wc_root cfg) \<le> R" using assms(1) by (simp add: finite_source_def)
    with b have "walk_bound K R ?w + h (wc_root cfg) < n" by simp
    from returnsD [OF walkDir_returns [OF assms(1)] this, of ?w] show ?thesis by blast
  qed
  moreover have "\<exists>w'. handleSymlink (walkDir n fs cfg d) fs cfg fi p rel ?w = Some w'" for d fi p rel
    using handleSymlink_returns [OF assms(1) walkDir_returns [OF assms(1)], of ?w n] b by auto
  ultimately show ?thesis
    by (fastforce simp: walkTree_def Let_def split: sum.splits file_kind.splits)
qed

section \<open>What the walk finds\<close>

text \<open>
  The specification, for a walk that does not follow links: the directories reachable from the root over
  admitted subdirectories, and one entry for each admitted name in one of them.
\<close>

definition walk_admits :: "src_fs \<Rightarrow> walkConfig \<Rightarrow> bytes \<Rightarrow> bytes \<Rightarrow> FileInfo \<Rightarrow> bool" where
  "walk_admits fs cfg p name fi \<longleftrightarrow> name \<noteq> str ''.esync'' \<and> \<not> (wc_skipAbs cfg \<noteq> [] \<and> path_Join p name = wc_skipAbs cfg) \<and>
     sf_Lstat fs (path_Join p name) = Inr fi"

definition dir_names :: "src_fs \<Rightarrow> bytes \<Rightarrow> bytes set" where
  "dir_names fs p = (case sf_ReadDir fs p of None \<Rightarrow> {} | Some des \<Rightarrow> set des)"

definition descends :: "walkConfig \<Rightarrow> u64 \<Rightarrow> FileInfo \<Rightarrow> bool" where
  "descends cfg dev fi \<longleftrightarrow> fi_kind fi = KDir \<and> \<not> other_device cfg dev fi"

inductive dir_step :: "src_fs \<Rightarrow> walkConfig \<Rightarrow> u64 \<Rightarrow> bytes \<times> bytes \<Rightarrow> bytes \<times> bytes \<Rightarrow> bool" for fs cfg dev where
  "name \<in> dir_names fs p \<Longrightarrow> walk_admits fs cfg p name fi \<Longrightarrow> descends cfg dev fi \<Longrightarrow>
     dir_step fs cfg dev (p, rel) (path_Join p name, child_rel rel name)"

inductive_simps dir_step_iff: "dir_step fs cfg dev (p, rel) b"

definition entry_of :: "src_fs \<Rightarrow> walkConfig \<Rightarrow> u64 \<Rightarrow> FileInfo \<Rightarrow> bytes \<Rightarrow> bytes \<Rightarrow> Entry option" where
  "entry_of fs cfg dev fi p rel = (case fi_kind fi of
     KDir \<Rightarrow> if other_device cfg dev fi then None else Some (dir_entry fi rel)
   | KRegular \<Rightarrow> Some (file_entry cfg fi rel)
   | KSymlink \<Rightarrow> map_option (\<lambda>target. link_entry fi target rel) (sf_Readlink fs p)
   | KOther \<Rightarrow> None)"

definition source_entries :: "src_fs \<Rightarrow> walkConfig \<Rightarrow> u64 \<Rightarrow> bytes \<Rightarrow> bytes \<Rightarrow> Entry set" where
  "source_entries fs cfg dev p rel = {e. \<exists>q s name fi. (dir_step fs cfg dev)\<^sup>*\<^sup>* (p, rel) (q, s) \<and> name \<in> dir_names fs q \<and>
     walk_admits fs cfg q name fi \<and> entry_of fs cfg dev fi (path_Join q name) (child_rel s name) = Some e}"

definition unreadable_dirs :: "src_fs \<Rightarrow> walkConfig \<Rightarrow> u64 \<Rightarrow> bytes \<Rightarrow> bytes \<Rightarrow> bytes set" where
  "unreadable_dirs fs cfg dev p rel = {s. \<exists>q. (dir_step fs cfg dev)\<^sup>*\<^sup>* (p, rel) (q, s) \<and> sf_ReadDir fs q = None}"

text \<open>\<^verbatim>\<open>os.ReadDir\<close> lists each name once, and a name is a nonempty string without a slash.\<close>

definition names_ok :: "src_fs \<Rightarrow> bool" where
  "names_ok fs \<longleftrightarrow> (\<forall>p des. sf_ReadDir fs p = Some des \<longrightarrow> distinct des \<and> (\<forall>name\<in>set des. name \<noteq> [] \<and> slash \<notin> set name))"

text \<open>What one name contributes.\<close>

definition entries_via :: "src_fs \<Rightarrow> walkConfig \<Rightarrow> u64 \<Rightarrow> bytes \<Rightarrow> bytes \<Rightarrow> bytes \<Rightarrow> Entry set" where
  "entries_via fs cfg dev p rel name = {e. \<exists>fi. walk_admits fs cfg p name fi \<and>
     (entry_of fs cfg dev fi (path_Join p name) (child_rel rel name) = Some e \<or>
      descends cfg dev fi \<and> e \<in> source_entries fs cfg dev (path_Join p name) (child_rel rel name))}"

definition unreadable_via :: "src_fs \<Rightarrow> walkConfig \<Rightarrow> u64 \<Rightarrow> bytes \<Rightarrow> bytes \<Rightarrow> bytes \<Rightarrow> bytes set" where
  "unreadable_via fs cfg dev p rel name = {s. \<exists>fi. walk_admits fs cfg p name fi \<and> descends cfg dev fi \<and>
     s \<in> unreadable_dirs fs cfg dev (path_Join p name) (child_rel rel name)}"

lemma source_entries_unfold: "source_entries fs cfg dev p rel = (\<Union>name\<in>dir_names fs p. entries_via fs cfg dev p rel name)"
proof (intro set_eqI iffI)
  fix e assume "e \<in> source_entries fs cfg dev p rel"
  then obtain q s name fi where *: "(dir_step fs cfg dev)\<^sup>*\<^sup>* (p, rel) (q, s)" "name \<in> dir_names fs q"
    "walk_admits fs cfg q name fi" "entry_of fs cfg dev fi (path_Join q name) (child_rel s name) = Some e"
    by (auto simp: source_entries_def)
  from *(1) show "e \<in> (\<Union>name\<in>dir_names fs p. entries_via fs cfg dev p rel name)"
  proof (cases rule: converse_rtranclpE)
    case base
    with * show ?thesis by (auto simp: entries_via_def)
  next
    case (step y)
    with * show ?thesis by (auto simp: entries_via_def source_entries_def dir_step_iff) blast
  qed
next
  fix e assume "e \<in> (\<Union>name\<in>dir_names fs p. entries_via fs cfg dev p rel name)"
  then obtain name fi where *: "name \<in> dir_names fs p" "walk_admits fs cfg p name fi"
    "entry_of fs cfg dev fi (path_Join p name) (child_rel rel name) = Some e \<or>
     descends cfg dev fi \<and> e \<in> source_entries fs cfg dev (path_Join p name) (child_rel rel name)"
    by (auto simp: entries_via_def)
  show "e \<in> source_entries fs cfg dev p rel"
  proof (cases "entry_of fs cfg dev fi (path_Join p name) (child_rel rel name) = Some e")
    case True
    with * show ?thesis by (auto simp: source_entries_def)
  next
    case False
    with * have "dir_step fs cfg dev (p, rel) (path_Join p name, child_rel rel name)" by (auto simp: dir_step_iff)
    with False * show ?thesis by (auto simp: source_entries_def) (meson converse_rtranclp_into_rtranclp)
  qed
qed

lemma unreadable_dirs_unfold:
  "unreadable_dirs fs cfg dev p rel =
     (if sf_ReadDir fs p = None then {rel} else \<Union>name\<in>dir_names fs p. unreadable_via fs cfg dev p rel name)"
proof (intro set_eqI iffI)
  fix s assume "s \<in> unreadable_dirs fs cfg dev p rel"
  then obtain q where *: "(dir_step fs cfg dev)\<^sup>*\<^sup>* (p, rel) (q, s)" "sf_ReadDir fs q = None"
    by (auto simp: unreadable_dirs_def)
  from *(1) show "s \<in> (if sf_ReadDir fs p = None then {rel} else \<Union>name\<in>dir_names fs p. unreadable_via fs cfg dev p rel name)"
  proof (cases rule: converse_rtranclpE)
    case (step y)
    with * show ?thesis
      by (auto simp: unreadable_via_def unreadable_dirs_def dir_step_iff) (auto simp: dir_names_def)
  qed (use * in simp)
next
  fix s assume "s \<in> (if sf_ReadDir fs p = None then {rel} else \<Union>name\<in>dir_names fs p. unreadable_via fs cfg dev p rel name)"
  then show "s \<in> unreadable_dirs fs cfg dev p rel"
    by (auto simp: unreadable_via_def unreadable_dirs_def split: if_splits)
      (meson converse_rtranclp_into_rtranclp dir_step.intros)
qed

text \<open>Relative paths under \<open>c\<close>: different names of one directory lead to disjoint sets of paths.\<close>

definition under :: "bytes \<Rightarrow> bytes \<Rightarrow> bool" where
  "under c q \<longleftrightarrow> q = c \<or> (\<exists>t. q = c @ slash # t)"

lemma child_rel_not_Nil: "name \<noteq> [] \<Longrightarrow> child_rel rel name \<noteq> []"
  by (simp add: child_rel_def)

lemma under_child: "c \<noteq> [] \<Longrightarrow> under c q \<Longrightarrow> \<exists>t. child_rel q name = c @ slash # t"
  by (auto simp: under_def child_rel_def)

lemma prefix_name_eq:
  assumes "slash \<notin> set a" "slash \<notin> set b" "under a q" "under b q"
  shows "a = b"
proof -
  have "takeWhile (\<lambda>x. x \<noteq> slash) q = c" if "slash \<notin> set c" "under c q" for c
    using that by (auto simp: under_def takeWhile_append takeWhile_eq_all_conv)
  with assms show ?thesis by metis
qed

lemma under_child_eq:
  assumes "slash \<notin> set a" "slash \<notin> set b" "under (child_rel rel a) q" "under (child_rel rel b) q"
  shows "a = b"
proof (cases "rel = []")
  case True
  with assms show ?thesis by (auto simp: child_rel_def intro: prefix_name_eq)
next
  case False
  have "under c (drop (Suc (length rel)) q)" if "under (child_rel rel c) q" for c
    using that False by (auto simp: child_rel_def under_def)
  with assms show ?thesis by (blast intro: prefix_name_eq)
qed

lemma dir_steps_under:
  assumes "(dir_step fs cfg dev)\<^sup>*\<^sup>* a b" "snd a \<noteq> []"
  shows "under (snd a) (snd b)"
  using assms
proof (induction rule: rtranclp_induct)
  case (step y z)
  obtain q s where y: "y = (q, s)" by force
  with step show ?case using under_child [of "snd a" s] by (auto simp: dir_step_iff under_def)
qed (simp add: under_def)

lemma entry_RelPath [simp]:
  "en_RelPath (dir_entry fi rel) = rel" "en_RelPath (file_entry cfg fi rel) = rel" "en_RelPath (link_entry fi target rel) = rel"
  by (simp_all add: dir_entry_def file_entry_def link_entry_def setMtime_def Let_def split: prod.split)

lemma entry_of_RelPath: "entry_of fs cfg dev fi p rel = Some e \<Longrightarrow> en_RelPath e = rel"
  by (auto simp: entry_of_def split: file_kind.splits if_splits)

lemma source_entries_under:
  "e \<in> source_entries fs cfg dev p c \<Longrightarrow> c \<noteq> [] \<Longrightarrow> \<exists>t. en_RelPath e = c @ slash # t"
  by (auto simp: source_entries_def dest!: dir_steps_under entry_of_RelPath intro: under_child)

lemma unreadable_dirs_under: "s \<in> unreadable_dirs fs cfg dev p c \<Longrightarrow> c \<noteq> [] \<Longrightarrow> under c s"
  by (auto simp: unreadable_dirs_def dest!: dir_steps_under)

lemma via_under:
  assumes "name \<noteq> []"
  shows "e \<in> entries_via fs cfg dev p rel name \<Longrightarrow> under (child_rel rel name) (en_RelPath e)"
    and "s \<in> unreadable_via fs cfg dev p rel name \<Longrightarrow> under (child_rel rel name) s"
  using assms by (auto simp: entries_via_def unreadable_via_def child_rel_not_Nil under_def
      dest!: entry_of_RelPath source_entries_under unreadable_dirs_under)

text \<open>The walk from \<open>w\<close> to \<open>w'\<close> sends exactly the entries \<open>E\<close>, and counts exactly the unreadable directories \<open>U\<close>.\<close>

definition sends :: "Entry set \<Rightarrow> bytes set \<Rightarrow> walker \<Rightarrow> walker \<Rightarrow> bool" where
  "sends E U w w' \<longleftrightarrow> (\<exists>es us. wk_out w' = wk_out w @ es \<and> wk_unreadable w' = wk_unreadable w + word_of_nat (length us) \<and>
     set es = E \<and> set us = U \<and> distinct (map en_RelPath es) \<and> distinct us)"

lemma sends_refl [simp]: "sends {} {} w w"
  by (simp add: sends_def)

lemma sends_trans:
  assumes "sends E U w v" "sends E' U' v w'" "en_RelPath ` E \<inter> en_RelPath ` E' = {}" "U \<inter> U' = {}"
  shows "sends (E \<union> E') (U \<union> U') w w'"
proof -
  from assms(1) obtain es us where 1: "wk_out v = wk_out w @ es" "wk_unreadable v = wk_unreadable w + word_of_nat (length us)"
    "set es = E" "set us = U" "distinct (map en_RelPath es)" "distinct us" by (auto simp: sends_def)
  from assms(2) obtain es' us' where 2: "wk_out w' = wk_out v @ es'"
    "wk_unreadable w' = wk_unreadable v + word_of_nat (length us')"
    "set es' = E'" "set us' = U'" "distinct (map en_RelPath es')" "distinct us'" by (auto simp: sends_def)
  show ?thesis unfolding sends_def
    by (rule exI [of _ "es @ es'"], rule exI [of _ "us @ us'"]) (use 1 2 assms(3,4) in auto)
qed

lemma sends_send: "sends {e} {} w (send_entry e w)"
  by (auto simp: sends_def send_entry_def intro!: exI [of _ "[e]"])

lemma sends_skip: "sends {} {} w (skip w)"
  by (simp add: sends_def skip_def)

lemma sends_unreadable: "sends {} {rel} w (skip_unreadable w)"
  by (auto simp: sends_def skip_unreadable_def intro!: exI [of _ "[rel]"])

definition walks_exactly :: "src_fs \<Rightarrow> walkConfig \<Rightarrow> u64 \<Rightarrow> descend \<Rightarrow> bool" where
  "walks_exactly fs cfg dev rec \<longleftrightarrow> (\<forall>p rel w w'. rec p rel w = Some w' \<longrightarrow>
     sends (source_entries fs cfg dev p rel) (unreadable_dirs fs cfg dev p rel) w w')"

lemma walkEntry_sends:
  assumes rec: "walks_exactly fs cfg dev rec" and nf: "\<not> wc_followSymlinks cfg" and name: "name \<noteq> []"
    and w': "walkEntry rec fs cfg dev p rel name w = Some w'"
  shows "sends (entries_via fs cfg dev p rel name) (unreadable_via fs cfg dev p rel name) w w'"
proof (cases "\<exists>fi. walk_admits fs cfg p name fi")
  case True
  then obtain fi where fi: "walk_admits fs cfg p name fi" by auto
  let ?c = "child_rel rel name"
  have via: "entries_via fs cfg dev p rel name = set_option (entry_of fs cfg dev fi (path_Join p name) ?c) \<union>
      (if descends cfg dev fi then source_entries fs cfg dev (path_Join p name) ?c else {})"
    "unreadable_via fs cfg dev p rel name = (if descends cfg dev fi then unreadable_dirs fs cfg dev (path_Join p name) ?c else {})"
    using fi by (auto simp: entries_via_def unreadable_via_def walk_admits_def)
  show ?thesis
  proof (cases "descends cfg dev fi")
    case True
    have "rec (path_Join p name) ?c (emitDir fi ?c w) = Some w'"
      using w' fi True by (auto simp: walkEntry_def walk_admits_def descends_def Let_def split: if_splits)
    then have "sends (source_entries fs cfg dev (path_Join p name) ?c) (unreadable_dirs fs cfg dev (path_Join p name) ?c)
        (send_entry (dir_entry fi ?c) w) w'"
      using rec by (simp add: walks_exactly_def emitDir_def)
    from sends_trans [OF sends_send this] show ?thesis
      using True source_entries_under [OF _ child_rel_not_Nil [OF name]]
      by (fastforce simp: via entry_of_def descends_def)
  next
    case False
    then show ?thesis using w' fi nf
      by (auto simp: via walkEntry_def walk_admits_def descends_def entry_of_def handleSymlink_def emitFile_def Let_def
          sends_send sends_skip split: file_kind.splits if_splits option.splits)
  qed
next
  case False
  then have "w' = w" using w'
    by (auto simp: walkEntry_def walk_admits_def Let_def split: if_splits sum.splits)
  with False show ?thesis by (simp add: entries_via_def unreadable_via_def)
qed

lemma walkEntries_sends:
  assumes rec: "walks_exactly fs cfg dev rec" and nf: "\<not> wc_followSymlinks cfg"
  shows "distinct des \<Longrightarrow> \<forall>name\<in>set des. name \<noteq> [] \<and> slash \<notin> set name \<Longrightarrow> walkEntries rec fs cfg dev p rel des w = Some w' \<Longrightarrow>
    sends (\<Union>name\<in>set des. entries_via fs cfg dev p rel name) (\<Union>name\<in>set des. unreadable_via fs cfg dev p rel name) w w'"
proof (induction des arbitrary: w)
  case (Cons name des)
  then obtain v where v: "walkEntry rec fs cfg dev p rel name w = Some v" "walkEntries rec fs cfg dev p rel des v = Some w'"
    by (auto split: option.splits)
  have apart: "x \<noteq> name \<Longrightarrow> x \<in> set des \<Longrightarrow> under (child_rel rel x) q \<Longrightarrow> \<not> under (child_rel rel name) q" for x q
    using Cons.prems(2) under_child_eq by auto
  have "sends (entries_via fs cfg dev p rel name \<union> (\<Union>name\<in>set des. entries_via fs cfg dev p rel name))
      (unreadable_via fs cfg dev p rel name \<union> (\<Union>name\<in>set des. unreadable_via fs cfg dev p rel name)) w w'"
  proof (rule sends_trans)
    show "sends (entries_via fs cfg dev p rel name) (unreadable_via fs cfg dev p rel name) w v"
      using walkEntry_sends [OF rec nf _ v(1)] Cons.prems(2) by simp
    show "sends (\<Union>name\<in>set des. entries_via fs cfg dev p rel name) (\<Union>name\<in>set des. unreadable_via fs cfg dev p rel name) v w'"
      using Cons v(2) by simp
  qed (use apart Cons.prems in \<open>auto dest!: via_under [rotated]\<close>, metis+)
  then show ?case by simp
qed simp

lemma walkDir_exact:
  assumes "names_ok fs" "\<not> wc_followSymlinks cfg"
  shows "walks_exactly fs cfg dev (walkDir n fs cfg dev)"
proof (induction n)
  case (Suc n)
  show ?case unfolding walks_exactly_def
  proof (intro allI impI)
    fix p rel w w' assume w': "walkDir (Suc n) fs cfg dev p rel w = Some w'"
    show "sends (source_entries fs cfg dev p rel) (unreadable_dirs fs cfg dev p rel) w w'"
    proof (cases "sf_ReadDir fs p")
      case None
      with w' show ?thesis
        by (auto simp: unreadable_dirs_unfold [of fs cfg dev p] source_entries_unfold [of fs cfg dev p] dir_names_def sends_unreadable)
    next
      case (Some des)
      with w' walkEntries_sends [OF Suc assms(2), of des p rel w w'] assms(1) show ?thesis
        by (auto simp: unreadable_dirs_unfold [of fs cfg dev p] source_entries_unfold [of fs cfg dev p] dir_names_def names_ok_def)
    qed
  qed
qed (simp add: walks_exactly_def)

lemma walk_sends:
  assumes "names_ok fs" "\<not> wc_followSymlinks cfg" "sf_Lstat fs (wc_root cfg) = Inr fi" "fi_kind fi = KDir"
    "walkTree n fs cfg = Some (Inr w)"
  shows "sends (source_entries fs cfg (fst (sysStat fi)) (wc_root cfg) []) (unreadable_dirs fs cfg (fst (sysStat fi)) (wc_root cfg) [])
      \<lparr>wk_out = [], wk_visited = {}, wk_skipped = 0, wk_unreadable = 0\<rparr> w"
  using walkDir_exact [OF assms(1,2), of "fst (sysStat fi)" n] assms(3-5) by (auto simp: walks_exactly_def walkTree_def)

text \<open>
  C32. Without following links, the walk of a directory sends exactly one entry, under its relative path, for
  each admitted file, link and subdirectory in the reachable part of the tree, no path twice, and its count of
  unreadable directories (the one that makes the exit code 1) is the number of reachable directories that
  could not be read.
\<close>

theorem walk_exact:
  assumes "names_ok fs" "\<not> wc_followSymlinks cfg" "sf_Lstat fs (wc_root cfg) = Inr fi" "fi_kind fi = KDir"
    "walkTree n fs cfg = Some (Inr w)"
  shows "set (wk_out w) = source_entries fs cfg (fst (sysStat fi)) (wc_root cfg) [] \<and>
    distinct (map en_RelPath (wk_out w)) \<and>
    wk_unreadable w = word_of_nat (card (unreadable_dirs fs cfg (fst (sysStat fi)) (wc_root cfg) []))"
  using walk_sends [OF assms] by (auto simp: sends_def dest: distinct_card)

section \<open>Hard-link keys\<close>

lemma prime_cancel: "x * 1099511628211 = y * 1099511628211 \<Longrightarrow> x = (y :: u64)"
proof -
  assume "x * 1099511628211 = y * 1099511628211"
  then have "x * 1099511628211 * 14886173955864302971 = y * 1099511628211 * 14886173955864302971" by (rule arg_cong)
  then have "x * (1099511628211 * 14886173955864302971) = y * (1099511628211 * 14886173955864302971)" by (simp only: mult.assoc)
  moreover have "1099511628211 * 14886173955864302971 = (1 :: u64)" by simp
  ultimately show "x = y" by (simp only: mult_1_right)
qed

text \<open>
  On one device, two files have the same hard-link key exactly when they are the same inode; across devices
  two different inodes can fold to one key, so that the receiver would link two unrelated files.
\<close>

theorem hardlinkKey_separates:
  "(hardlinkKey dev i = hardlinkKey dev j \<longleftrightarrow> i = j) \<and> hardlinkKey 1 2 = hardlinkKey 2 3298534884055"
proof -
  have "i = j" if "hardlinkKey dev i = hardlinkKey dev j"
  proof -
    have "xor (dev * 1099511628211) i = xor (dev * 1099511628211) j"
      using that unfolding hardlinkKey_def by (rule prime_cancel)
    then have "xor (dev * 1099511628211) (xor (dev * 1099511628211) i) = xor (dev * 1099511628211) (xor (dev * 1099511628211) j)"
      by (rule arg_cong)
    then show ?thesis by (simp only: xor.assoc [symmetric] bit.xor_self xor_self_eq xor.left_neutral)
  qed
  moreover have "hardlinkKey 1 2 = hardlinkKey 2 3298534884055" by (simp add: hardlinkKey_def)
  ultimately show ?thesis by auto
qed

section \<open>Examples\<close>

definition sample_info :: "file_kind \<Rightarrow> u64 \<Rightarrow> FileInfo" where
  "sample_info k ino = \<lparr>fi_kind = k, fi_perm = 0x1ED, fi_size = 3, fi_mtimeSec = 7, fi_mtimeNsec = 0, fi_sys = Some (1, ino, 1)\<rparr>"

definition sample_src :: src_fs where
  "sample_src =
     \<lparr>sf_Lstat = (\<lambda>p. if p = str ''/r'' then Inr (sample_info KDir 1)
        else if p = str ''/r/a'' then Inr (sample_info KRegular 2)
        else if p = str ''/r/d'' then Inr (sample_info KDir 3)
        else if p = str ''/r/d/x'' then Inr (sample_info KRegular 4)
        else if p = str ''/r/u'' then Inr (sample_info KDir 5) else Inl True),
      sf_Stat = (\<lambda>p. None),
      sf_ReadDir = (\<lambda>p. if p = str ''/r'' then Some [str ''.esync'', str ''a'', str ''d'', str ''u'']
        else if p = str ''/r/d'' then Some [str ''x''] else None),
      sf_Readlink = (\<lambda>p. None)\<rparr>"

definition sample_loop :: src_fs where
  "sample_loop =
     \<lparr>sf_Lstat = (\<lambda>p. if p = str ''/r'' then Inr (sample_info KDir 1) else Inr (sample_info KSymlink 2)),
      sf_Stat = (\<lambda>p. Some (sample_info KDir 1)),
      sf_ReadDir = (\<lambda>p. if p = str ''/r'' \<or> p = str ''/r/s'' then Some [str ''s''] else None), sf_Readlink = (\<lambda>p. Some (str ''/r''))\<rparr>"

definition sample_walk_cfg :: "bool \<Rightarrow> walkConfig" where
  "sample_walk_cfg follow = \<lparr>wc_root = str ''/r'', wc_skipAbs = [], wc_followSymlinks = follow, wc_oneFileSystem = True,
     wc_hardlinks = True\<rparr>"

lemma sample_src_walk:
  "map_option (map_sum id (\<lambda>w. (map en_RelPath (wk_out w), wk_unreadable w))) (walkTree 3 sample_src (sample_walk_cfg False))
     = Some (Inr ([str ''a'', str ''d'', str ''d/x'', str ''u''], 1))"
  by code_simp

theorem walk_exact_witness:
  "\<exists>w :: walker. map en_RelPath (wk_out w) = [str ''a'', str ''d'', str ''d/x'', str ''u''] \<and>
     set (wk_out w) = source_entries sample_src (sample_walk_cfg False) 1 (str ''/r'') [] \<and>
     word_of_nat (card (unreadable_dirs sample_src (sample_walk_cfg False) 1 (str ''/r'') [])) = (1 :: u32)"
proof -
  obtain w where w: "walkTree 3 sample_src (sample_walk_cfg False) = Some (Inr w)"
    "map en_RelPath (wk_out w) = [str ''a'', str ''d'', str ''d/x'', str ''u'']" "wk_unreadable w = 1"
    using sample_src_walk by (cases "walkTree 3 sample_src (sample_walk_cfg False)"; cases "the (walkTree 3 sample_src (sample_walk_cfg False))") auto
  have "names_ok sample_src" by (auto simp: names_ok_def sample_src_def slash_def split: if_splits)
  moreover have "sf_Lstat sample_src (wc_root (sample_walk_cfg False)) = Inr (sample_info KDir 1)"
    by (simp add: sample_src_def sample_walk_cfg_def)
  ultimately have "set (wk_out w) = source_entries sample_src (sample_walk_cfg False) 1 (str ''/r'') [] \<and>
      wk_unreadable w = word_of_nat (card (unreadable_dirs sample_src (sample_walk_cfg False) 1 (str ''/r'') []))"
    using walk_exact [OF _ _ _ _ w(1), of "sample_info KDir 1"]
    by (simp add: sample_walk_cfg_def sample_info_def sysStat_def)
  with w(2,3) show ?thesis by (intro exI [of _ w]) simp
qed

theorem walk_terminates_witness: "\<exists>r. walkTree 2 sample_loop (sample_walk_cfg True) = Some r"
proof -
  have "path_Join (str ''/r'') (str ''s'') = str ''/r/s''" "path_Join (str ''/r/s'') (str ''s'') = str ''/r/s/s''"
    by code_simp+
  then have "finite_source sample_loop {(1, 1)} (\<lambda>_. 0) 0"
    by (auto simp: finite_source_def sample_loop_def sample_info_def dir_key_def sysStat_def split: if_splits)
  from walk_terminates [OF this, of 2] show ?thesis by simp
qed

end
