(* ===== verification/Manifest.thy ===== *)
theory Manifest
  imports Plan_Props
begin

text \<open>
  Publishing the manifest (\<^verbatim>\<open>internal/sender/manifest.go\<close>): the SCAN_COMPLETE message and the
  GROUP_MANIFEST of a group. The digest of each hashed file is an input (\<open>None\<close>: hashing failed,
  which the code logs and leaves empty). The result that spans plan, frame and record layer: no
  group of a plan can produce a control record that the record layer refuses.
\<close>

unbundle bit_operations_syntax

section \<open>Messages\<close>

definition toSlashBytes :: "bytes \<Rightarrow> bytes" where
  "toSlashBytes rel = (if PathSeparator = slash then rel else map (\<lambda>c. if c = PathSeparator then slash else c) rel)"

definition scan_complete :: "Plan \<Rightarrow> u32 \<Rightarrow> ScanComplete" where
  "scan_complete pl skipped = \<lparr>sc_TotalFiles = pn_TotalFiles pl, sc_TotalBytes = pn_TotalBytes pl,
     sc_TotalGroups = word_of_nat (NumGroups pl), sc_SkippedEntries = skipped, sc_ManifestDigest = pn_digest pl\<rparr>"

text \<open>Only a non-empty regular file is hashed, and only without \<^verbatim>\<open>--quick\<close>.\<close>

definition hashed :: "bool \<Rightarrow> Entry \<Rightarrow> bool" where
  "hashed quick e \<longleftrightarrow> \<not> (en_Type e \<noteq> TypeFile \<or> quick \<or> en_Size e = 0)"

definition manifest_entry :: "bool \<Rightarrow> bytes option \<Rightarrow> Entry \<Rightarrow> ManifestEntry" where
  "manifest_entry quick dg e =
     \<lparr>me_EntryType = type_byte (en_Type e), me_Flags = ucast (en_Flags e), me_Path = toSlashBytes (en_RelPath e),
      me_Size = u64_of_i64 (en_Size e), me_Mode = en_Mode e AND 0x1FF,
      me_MtimeSec = en_MtimeSec e, me_MtimeNsec = en_MtimeNsec e,
      me_Digest = (if hashed quick e then (case dg of Some d \<Rightarrow> d | None \<Rightarrow> []) else []),
      me_LinkTarget = (if en_Type e = TypeSymlink then en_LinkTarget e else []),
      me_HardlinkKey = (if en_Flags e AND FlagHasHardlinkKey \<noteq> 0 then en_HardlinkKey e else 0)\<rparr>"

definition publishGroup :: "bool \<Rightarrow> Plan \<Rightarrow> (u64 \<Rightarrow> bytes option) \<Rightarrow> nat \<Rightarrow> GroupManifest" where
  "publishGroup quick pl digests gi =
     (let firstID = GroupFirstID pl gi; entries = Group pl gi in
      \<lparr>gm_GroupID = word_of_nat gi, gm_FirstFileID = firstID,
       gm_Entries = map (\<lambda>i. manifest_entry quick (digests (firstID + word_of_nat i)) (entries ! i)) [0..<length entries]\<rparr>)"

section \<open>Sizes\<close>

lemma ucast_flag: "(ucast (f :: u32) :: u16) AND ManifestFlagHasHardlinkKey \<noteq> 0 \<longleftrightarrow> f AND FlagHasHardlinkKey \<noteq> 0"
proof -
  have "f AND 1 \<noteq> 0 \<longleftrightarrow> bit f 0" by (simp add: and_one_eq bit_0 odd_iff_mod_2_eq_one)
  moreover have "(ucast f :: u16) AND 1 \<noteq> 0 \<longleftrightarrow> bit (ucast f :: u16) 0"
    by (simp add: and_one_eq bit_0 odd_iff_mod_2_eq_one)
  ultimately show ?thesis by (simp add: ManifestFlagHasHardlinkKey_def FlagHasHardlinkKey_def bit_ucast_iff)
qed

lemma manifest_entry_size:
  assumes "\<forall>d. dg = Some d \<longrightarrow> length d \<le> 64"
  shows "length (encodeManifestEntry (manifest_entry quick dg e)) \<le> manifestEntrySize e"
proof -
  have t: "type_byte (en_Type e) = 2 \<longleftrightarrow> en_Type e = TypeSymlink" by (cases "en_Type e") (simp_all add: type_byte_def)
  have d: "length (me_Digest (manifest_entry quick dg e)) \<le> (if en_Type e = TypeFile then MaxDigestBytes else 0)"
    using assms by (auto simp: manifest_entry_def hashed_def MaxDigestBytes_def maxDigest_def split: option.splits)
  have p: "toSlashBytes r = r" for r by (simp add: toSlashBytes_def PathSeparator_def)
  show ?thesis
    unfolding length_encodeManifestEntry manifestEntrySize_def Let_def
    using d t by (auto simp: manifest_entry_def ManifestEntrySize_def Let_def ucast_flag p hashed_def)
qed

lemma publishGroup_size:
  assumes "\<And>i d. digests i = Some d \<Longrightarrow> length d \<le> 64"
  shows "length (enc_GroupManifest (publishGroup quick pl digests gi)) \<le> GroupManifestFixedBytes + msum (Group pl gi)"
proof -
  let ?es = "Group pl gi"
  let ?me = "\<lambda>i. manifest_entry quick (digests (GroupFirstID pl gi + word_of_nat i)) (?es ! i)"
  have "sum_list (map (length \<circ> encodeManifestEntry) (map ?me [0..<length ?es])) \<le>
      sum_list (map (\<lambda>i. manifestEntrySize (?es ! i)) [0..<length ?es])"
    unfolding map_map comp_def by (rule sum_list_mono) (use assms in \<open>auto intro!: manifest_entry_size\<close>)
  also have "map (\<lambda>i. manifestEntrySize (?es ! i)) [0..<length ?es] = map manifestEntrySize ?es"
    by (simp add: map_equality_iff)
  finally show ?thesis by (simp add: length_enc_GroupManifest publishGroup_def Let_def msum_def comp_assoc comp_def)
qed

text \<open>The size of one entry whose path and link target fit their length prefixes.\<close>

definition paths_ok :: "Entry list \<Rightarrow> bool" where
  "paths_ok es \<longleftrightarrow> (\<forall>e\<in>set es. length (en_RelPath e) < 65536 \<and> length (en_LinkTarget e) < 65536)"

lemma manifestEntrySize_single:
  "length (en_RelPath e) < 65536 \<Longrightarrow> length (en_LinkTarget e) < 65536 \<Longrightarrow> manifestEntrySize e \<le> MaxGroupManifestEntryBytes"
  by (simp add: manifestEntrySize_def ManifestEntrySize_def Let_def ManifestEntryFixedBytes_def
      ManifestEntryLinkTargetPrefix_def ManifestEntryHardlinkKeyBytes_def MaxDigestBytes_def maxDigest_def
      MaxGroupManifestEntryBytes_def MaxGroupManifestFrameBytes_def rec_consts FrameHeaderLen_def GroupManifestFixedBytes_def)

lemma group_msum:
  assumes "group_ok t g" "paths_ok g" shows "msum g \<le> MaxGroupManifestEntryBytes"
proof (cases "length g > 1")
  case True
  then show ?thesis using assms by (simp add: group_ok_def)
next
  case False
  with assms obtain e where "g = [e]" by (cases g) (auto simp: group_ok_def)
  then show ?thesis using assms(2) manifestEntrySize_single [of e] by (simp add: paths_ok_def)
qed

text \<open>
  C39. No group can produce a manifest that the control channel refuses: for every plan and every
  group of it, whatever digests the hashing yields, the encoded GROUP_MANIFEST frame is within the
  frame ceiling and, padded, within the control channel's record ceiling, with the 4096-byte margin
  to spare.
\<close>

theorem manifest_fits_control:
  assumes "Build nfc sha entries opts = Inr p" and "sizes_ok (pn_entries p)" and "paths_ok (pn_entries p)"
    and "gi < NumGroups p" and "\<And>i d. digests i = Some d \<Longrightarrow> length d \<le> 64"
  shows "\<exists>b. Marshal (M_GroupManifest (publishGroup quick p digests gi)) = Inr b \<and>
    length b \<le> MaxFramePlaintext \<and> length (pkcs7Pad b) + 4096 \<le> MaxCTControl"
proof -
  let ?gm = "publishGroup quick p digests gi" and ?t = "groupTarget (op_GroupBytes opts)"
  note g = groups_pack [OF Build_sel(4) [OF assms(1)] assms(2)]
  have mem: "Group p gi \<in> set (plan_groups p ?t)" using g(1,2) assms(4) by (metis nth_mem)
  then have "pn_entries p \<noteq> []" by (auto simp: plan_groups_def split: if_splits)
  then have ok: "group_ok ?t (Group p gi)"
    using pack_Nil_ok [of "pn_entries p" ?t] mem by (simp add: plan_groups_def list_all_iff)
  have "set (Group p gi) \<subseteq> set (concat (plan_groups p ?t))" using mem by auto
  moreover have "concat (plan_groups p ?t) = pn_entries p" by (simp add: plan_groups_def concat_pack)
  ultimately have "set (Group p gi) \<subseteq> set (pn_entries p)" by (simp only:)
  then have "paths_ok (Group p gi)" using assms(3) by (auto simp: paths_ok_def)
  then have "msum (Group p gi) \<le> MaxGroupManifestEntryBytes" by (rule group_msum [OF ok])
  moreover have "length (enc_GroupManifest ?gm) \<le> GroupManifestFixedBytes + msum (Group p gi)"
    by (rule publishGroup_size) (rule assms(5))
  ultimately have len: "length (enc_GroupManifest ?gm) + 5 \<le> MaxCTControl - 16 - 4096"
    by (simp add: MaxGroupManifestEntryBytes_def MaxGroupManifestFrameBytes_def rec_consts FrameHeaderLen_def GroupManifestFixedBytes_def)
  let ?b = "[MsgGroupManifest] @ be32 (word_of_nat (length (enc_GroupManifest ?gm))) @ enc_GroupManifest ?gm"
  have "Marshal (M_GroupManifest ?gm) = Inr ?b" by (simp add: Marshal_def)
  moreover have "length (pkcs7Pad ?b) \<le> length ?b + 16"
    unfolding length_pkcs7Pad by (simp add: blockSize_def)
  ultimately show ?thesis using len by (auto simp: rec_consts MaxFramePlaintext_def)
qed

theorem manifest_fits_control_witness:
  "\<exists>p b. Build (\<lambda>x. x) (\<lambda>x. x) [sample_entry ''b'' TypeFile] no_filters = Inr p \<and>
     Marshal (M_GroupManifest (publishGroup False p (\<lambda>_. None) 0)) = Inr b \<and>
     length (pkcs7Pad b) + 4096 \<le> MaxCTControl"
proof -
  let ?es = "[sample_entry ''b'' TypeFile]"
  obtain p where p: "Build (\<lambda>x. x) (\<lambda>x. x) ?es no_filters = Inr p" using Build_no_filters by blast
  have K: "keyed_of (\<lambda>x. x) no_filters ?es = [key_entry (\<lambda>x. x) (classify no_filters (sample_entry ''b'' TypeFile))]"
    by (simp add: keyed_of_def admitted_no_filters sort_keyed_def)
  have s: "sizes_ok (pn_entries p)"
    by (simp add: Build_sel [OF p] sizes_ok_def fileSize_def K) (simp add: sample_entry_def)
  have q: "paths_ok (pn_entries p)"
    by (simp add: Build_sel [OF p] paths_ok_def K) (simp add: sample_entry_def)
  have "NumGroups p = length (plan_groups p (groupTarget (op_GroupBytes no_filters)))"
    by (rule groups_pack(1) [OF Build_sel(4) [OF p] s])
  then have "0 < NumGroups p" by (simp add: plan_groups_def Build_sel [OF p] K)
  from manifest_fits_control [OF p s q this, of "\<lambda>_. None" False] p show ?thesis by auto
qed

end
