(* ===== verification/Sender_Session.thy ===== *)
theory Sender_Session
  imports Dial Walk Plan_Props Manifest Serve Channel Digest
begin

text \<open>
  The sender's session (\<^verbatim>\<open>internal/sender/run.go\<close>, \<^verbatim>\<open>config.go\<close>): the configuration, pairing, the admission of data
  channels, the control reader, and \<^verbatim>\<open>Run\<close> as a sequence of stages. The goroutines of the transfer stage are the
  sequence of events they produce, in the order in which they take effect.
\<close>

section \<open>Configuration\<close>

record sConfig =
  sc_SourcePath :: bytes
  sc_Bind :: bytes
  sc_Port :: int
  sc_Version :: bytes
  sc_MaxChannels :: int
  sc_PairTimeout :: int
  sc_MaxPairAttempts :: int
  sc_HandshakeTimeout :: int
  sc_DrainTimeout :: int
  sc_ProgressInterval :: int
  sc_GroupBytes :: int
  sc_HashAlg :: Algo
  sc_HashWorkers :: int
  sc_ReadConcurrency :: int
  sc_ChunkSize :: int
  sc_SocketBuffer :: int
  sc_CompactCode :: bool
  sc_FollowSymlinks :: bool
  sc_OneFileSystem :: bool
  sc_Hardlinks :: bool
  sc_KeepSystemFiles :: bool
  sc_Quick :: bool
  sc_NoCache :: bool
  sc_Filters :: "FilterRule list"

definition sender_withDefaults :: "int \<Rightarrow> sConfig \<Rightarrow> sConfig" where
  "sender_withDefaults numCPU c = c\<lparr>
     sc_MaxChannels := or_default (sc_MaxChannels c) 8,
     sc_PairTimeout := or_default (sc_PairTimeout c) (600 * second),
     sc_MaxPairAttempts := or_default (sc_MaxPairAttempts c) 5,
     sc_HandshakeTimeout := or_default (sc_HandshakeTimeout c) (10 * second),
     sc_DrainTimeout := or_default (sc_DrainTimeout c) (60 * second),
     sc_ProgressInterval := or_default (sc_ProgressInterval c) (5 * second),
     sc_GroupBytes := or_default (sc_GroupBytes c) (512 * 2 ^ 20),
     sc_HashWorkers := or_default (sc_HashWorkers c) (min 8 numCPU),
     sc_ReadConcurrency := or_default (sc_ReadConcurrency c) 4,
     sc_ChunkSize := or_default (sc_ChunkSize c) (2 ^ 20),
     sc_SocketBuffer := or_default (sc_SocketBuffer c) (4 * 2 ^ 20)\<rparr>"

definition planOptions :: "sConfig \<Rightarrow> Options" where
  "planOptions c = \<lparr>op_KeepSystemFiles = sc_KeepSystemFiles c, op_Filters = sc_Filters c, op_GroupBytes = sc_GroupBytes c\<rparr>"

definition flag_bit :: "bool \<Rightarrow> nat \<Rightarrow> u32 \<Rightarrow> u32" where
  "flag_bit b n f = (if b then or f (push_bit n 1) else f)"

definition sessionFlags :: "sConfig \<Rightarrow> u32" where
  "sessionFlags c = flag_bit (sc_KeepSystemFiles c) 5 (flag_bit (sc_Hardlinks c) 4 (flag_bit (sc_Quick c) 2
     (flag_bit (sc_OneFileSystem c) 1 (flag_bit (sc_FollowSymlinks c) 0 0))))"

definition sysexcludeTag :: "sConfig \<Rightarrow> bytes" where
  "sysexcludeTag c = (if sc_KeepSystemFiles c then [] else str ''sys-v1'')"

definition sender_platformID :: "bool \<Rightarrow> u8" where
  "sender_platformID darwin = (if darwin then 1 else 0)"

definition sessionParams :: "bool \<Rightarrow> sConfig \<Rightarrow> bytes \<Rightarrow> u8 \<Rightarrow> SessionParams" where
  "sessionParams darwin c absRoot sourceKind = \<lparr>sp_RootName = path_Base absRoot, sp_SourceKind = sourceKind,
     sp_HashAlg = sc_HashAlg c, sp_GroupBytes = word_of_int (sc_GroupBytes c), sp_Flags = sessionFlags c,
     sp_SourcePlatform = sender_platformID darwin, sp_PathNorm = 1, sp_SenderVersion = sc_Version c,
     sp_MaxChannels = word_of_int (sc_MaxChannels c), sp_FilterSignature = FilterSignature (planOptions c),
     sp_SysexcludeTag = sysexcludeTag c\<rparr>"

definition compactEndpoints :: "Endpoint list \<Rightarrow> bool \<Rightarrow> Endpoint list" where
  "compactEndpoints eps compact = (if compact \<and> length eps > 2 then take 2 eps else eps)"

text \<open>The endpoints of the pairing code: the port of the listener, at most four of them.\<close>

definition codeEndpoints :: "u16 \<Rightarrow> bool \<Rightarrow> Endpoint list \<Rightarrow> Endpoint list" where
  "codeEndpoints port compact eps =
     (let eps = map (\<lambda>e. e\<lparr>ep_Port := port\<rparr>) eps;
          eps = (if length eps > 4 then take 4 eps else eps)
      in compactEndpoints eps compact)"

definition sender_peerError :: "Error \<Rightarrow> err" where
  "sender_peerError m = (let code = code_of_wire (er_Code m);
       msg = (if er_Message m = [] then str ''receiver reported a fatal error'' else er_Message m);
       msg = (if er_Detail m \<noteq> [] then msg @ str '': '' @ er_Detail m else msg)
     in Newf code ''receiver reported an error'' [] None msg)"

record sSummary =
  su_Outcome :: string
  su_FilesTotal :: u64
  su_FilesTransferred :: u64
  su_FilesSkipped :: u64
  su_FilesFailed :: u64
  su_BytesTransferred :: u64
  su_GroupsTotal :: u32

section \<open>Pairing and data channels\<close>

text \<open>
  What the listener and the handshake answer: a failed accept (with whether the deadline passed), or a connection with
  the outcome of its handshake.
\<close>

datatype ('s, 'c) pair_event = AcceptFailed bool err | Handshaken "err + 's" 'c

text \<open>\<open>None\<close>: still waiting for a connection. The list are the connections that were closed.\<close>

fun pair :: "int \<Rightarrow> int \<Rightarrow> ('s, 'c) pair_event list \<Rightarrow> (err + 's \<times> 'c) option" where
  "pair maxAttempts attempts [] = None"
| "pair maxAttempts attempts (AcceptFailed timeout e # evs) =
     Some (Inl (if timeout then New E2006 ''await receiver'' [] None else e))"
| "pair maxAttempts attempts (Handshaken (Inr sess) nc # evs) = Some (Inr (sess, nc))"
| "pair maxAttempts attempts (Handshaken (Inl e) nc # evs) =
     (let attempts = attempts + 1 in
      if attempts \<ge> maxAttempts then Some (Inl (New E2007 ''pair'' [] None))
      else pair maxAttempts attempts evs)"

text \<open>A connection that reaches the listener for a data channel: what it sends, and what follows on it.\<close>

record join_conn =
  jc_join :: bytes
  jc_writeFails :: bool
  jc_inp :: bytes
  jc_ioerr :: bool
  jc_now :: int

fun accept_loop :: "prims \<Rightarrow> nat \<Rightarrow> (err + join_conn) list \<Rightarrow> Session \<Rightarrow> Conn list \<Rightarrow> ((err + Conn list) \<times> Session) option" where
  "accept_loop P n evs sess conns =
     (if length conns \<ge> n then Some (Inr conns, sess)
      else case evs of
        [] \<Rightarrow> None
      | Inl e # _ \<Rightarrow> Some (Inl (Wrap E4002 ''accept data channel'' [] (Some e)), sess)
      | Inr jc # evs \<Rightarrow> (case AcceptChannel P (jc_join jc) (jc_writeFails jc) (word_of_nat n) sess of
          (Inl _, _, sess) \<Rightarrow> accept_loop P n evs sess conns
        | (Inr i, _, sess) \<Rightarrow> (case Data P (jc_inp jc) (jc_ioerr jc) (jc_now jc) i Sender sess of
            (c, sess) \<Rightarrow> accept_loop P n evs sess (conns @ [c]))))"

definition acceptData :: "prims \<Rightarrow> int \<Rightarrow> (err + join_conn) list \<Rightarrow> Session \<Rightarrow> ((err + Conn list) \<times> Session) option" where
  "acceptData P n evs sess = (if n \<le> 0 then Some (Inr [], sess) else accept_loop P (nat n) evs sess [])"

text \<open>One round of \<^verbatim>\<open>join.accept\<close>, the admission of further channels during the transfer.\<close>

definition joinAccept :: "prims \<Rightarrow> int \<Rightarrow> join_conn \<Rightarrow> Session \<Rightarrow> Conn option \<times> Session" where
  "joinAccept P maxChannels jc sess = (case AcceptChannel P (jc_join jc) (jc_writeFails jc) (word_of_int maxChannels) sess of
     (Inl _, _, sess) \<Rightarrow> (None, sess)
   | (Inr i, _, sess) \<Rightarrow> (case Data P (jc_inp jc) (jc_ioerr jc) (jc_now jc) i Sender sess of (c, sess) \<Rightarrow> (Some c, sess)))"

text \<open>The number of channels and the chunk size after SESSION_READY.\<close>

definition negotiate :: "sConfig \<Rightarrow> SessionReady \<Rightarrow> int \<times> int" where
  "negotiate c ready =
     (let n = int (unat (sr_Channels ready));
          n = (if n > sc_MaxChannels c then sc_MaxChannels c else n);
          mc = int (unat (sr_MaxChunk ready))
      in (n, if mc > 0 \<and> mc < sc_ChunkSize c then mc else sc_ChunkSize c))"

section \<open>The transfer\<close>

record send_state =
  sx_tracker :: tracker
  sx_credit :: creditGate
  sx_ack :: "SessionSummaryAck option"
  sx_fatal :: "err option"
  sx_panicked :: bool
  sx_cancelled :: bool
  sx_reading :: bool
  sx_skipped :: int
  sx_rejected :: int

text \<open>
  \<^verbatim>\<open>fatal\<close> is an \<^verbatim>\<open>atomic.Value\<close>, whose \<^verbatim>\<open>CompareAndSwap\<close> panics when the value it holds and the new one have
  different dynamic types. \<open>ty\<close> tells the types of the errors that are not \<^verbatim>\<open>*fault.Fault\<close>.
\<close>

fun goType :: "(string \<Rightarrow> nat) \<Rightarrow> err \<Rightarrow> nat" where
  "goType ty (FaultErr code cl r op sb cause d) = 0"
| "goType ty (WrapErr t e) = 1"
| "goType ty (PlainErr t) = 2 + ty t"

definition swap_panics :: "(string \<Rightarrow> nat) \<Rightarrow> err option \<Rightarrow> err \<Rightarrow> bool" where
  "swap_panics ty held e = (case held of None \<Rightarrow> False | Some e0 \<Rightarrow> goType ty e0 \<noteq> goType ty e)"

definition setFatal :: "(string \<Rightarrow> nat) \<Rightarrow> err \<Rightarrow> send_state \<Rightarrow> send_state" where
  "setFatal ty e s = s\<lparr>sx_fatal := Some (case sx_fatal s of None \<Rightarrow> e | Some e0 \<Rightarrow> e0),
     sx_panicked := (sx_panicked s \<or> swap_panics ty (sx_fatal s) e)\<rparr>"

definition cancel :: "send_state \<Rightarrow> send_state" where
  "cancel s = s\<lparr>sx_cancelled := True\<rparr>"

definition stop_reader :: "send_state \<Rightarrow> send_state" where
  "stop_reader s = s\<lparr>sx_cancelled := True, sx_reading := False\<rparr>"

interpretation sl: error_latch sx_fatal "setFatal ty" for ty
  by unfold_locales (simp add: setFatal_def)

text \<open>One round of the control reader.\<close>

definition sender_readControl :: "(string \<Rightarrow> nat) \<Rightarrow> err + Message \<Rightarrow> send_state \<Rightarrow> send_state" where
  "sender_readControl ty input s = (if \<not> sx_reading s then s else case input of
     Inl e \<Rightarrow> stop_reader (if \<not> is_EOF e \<and> \<not> sx_cancelled s then setFatal ty e s else s)
   | Inr (M_GroupDecision v) \<Rightarrow> (case decision v (sx_tracker s) of
       Inl c \<Rightarrow> stop_reader (setFatal ty (New c ''decision'' [] None) s)
     | Inr t \<Rightarrow> s\<lparr>sx_tracker := t, sx_skipped := sx_skipped s + int (unat (gd_SkippedCount v)),
                  sx_rejected := sx_rejected s + int (length (gd_Rejected v))\<rparr>)
   | Inr (M_Credit v) \<Rightarrow> s\<lparr>sx_credit := cg_add (int (unat (cr_AdditionalGroups v))) (sx_credit s)\<rparr>
   | Inr (M_SessionSummaryAck v) \<Rightarrow> s\<lparr>sx_ack := (case sx_ack s of None \<Rightarrow> Some v | x \<Rightarrow> x)\<rparr>
   | Inr (M_Error v) \<Rightarrow> stop_reader (setFatal ty (sender_peerError v) s)
   | Inr m \<Rightarrow> stop_reader (setFatal ty (unexpected ''control.reader'' m) s))"

text \<open>The end of a servicer: a raw transport error is a lost channel, a coded one ends the session.\<close>

definition servicerEnd :: "(string \<Rightarrow> nat) \<Rightarrow> err option \<Rightarrow> send_state \<Rightarrow> send_state" where
  "servicerEnd ty r s = (case r of
     None \<Rightarrow> s
   | Some e \<Rightarrow>
       if sx_cancelled s then s
       else if GetCode (Some e) = [] then s
       else cancel (setFatal ty (Wrap E3005 ''data channel'' [] (Some e)) s))"

definition manifestEnd :: "(string \<Rightarrow> nat) \<Rightarrow> err option \<Rightarrow> send_state \<Rightarrow> send_state" where
  "manifestEnd ty r s = (case r of
     None \<Rightarrow> s
   | Some e \<Rightarrow> cancel (if \<not> sx_cancelled s then setFatal ty e s else s))"

text \<open>What the goroutines do, in the order in which it takes effect; a servicer acts on the tracker.\<close>

datatype send_event = SCtl "err + Message" | STrack tr_event | SServicerEnd "err option" | SManifestEnd "err option"
  | SPublish | SSignal

fun is_decision :: "tr_event \<Rightarrow> bool" where
  "is_decision (EvDecision m) = True"
| "is_decision e = False"

fun sendStep :: "(string \<Rightarrow> nat) \<Rightarrow> send_event \<Rightarrow> send_state \<Rightarrow> send_state" where
  "sendStep ty (SCtl i) s = sender_readControl ty i s"
| "sendStep ty (STrack e) s = (if is_decision e then s else s\<lparr>sx_tracker := tr_step e (sx_tracker s)\<rparr>)"
| "sendStep ty (SServicerEnd r) s = servicerEnd ty r s"
| "sendStep ty (SManifestEnd r) s = manifestEnd ty r s"
| "sendStep ty SPublish s = (case acquire (sx_credit s) of None \<Rightarrow> s | Some g \<Rightarrow> s\<lparr>sx_credit := g\<rparr>)"
| "sendStep ty SSignal s = cancel (setFatal ty ErrSignal s)"

definition sendRun :: "(string \<Rightarrow> nat) \<Rightarrow> send_event list \<Rightarrow> send_state \<Rightarrow> send_state" where
  "sendRun ty evs s = fold (sendStep ty) evs s"

section \<open>Run\<close>

record send_result =
  sz_summary :: sSummary
  sz_exit :: nat
  sz_sent :: "Message list"
  sz_panicked :: bool

definition no_summary :: sSummary where
  "no_summary = \<lparr>su_Outcome = [], su_FilesTotal = 0, su_FilesTransferred = 0, su_FilesSkipped = 0, su_FilesFailed = 0,
     su_BytesTransferred = 0, su_GroupsTotal = 0\<rparr>"

definition sender_finish :: "u32 \<Rightarrow> bool \<Rightarrow> Message list \<Rightarrow> err option \<Rightarrow> sSummary \<Rightarrow> send_result" where
  "sender_finish walkUnreadable ctrl sent ferr smry =
     (let (exit, outcome, notices) = (case ferr of
         Some e \<Rightarrow> (ExitCode (Some e), ''error'', if ctrl \<and> \<not> is_signal e then [fatal_notice e] else [])
       | None \<Rightarrow> if su_FilesFailed smry > 0 \<or> walkUnreadable > 0 then (1, ''partial'', []) else (0, ''ok'', []))
      in \<lparr>sz_summary = smry\<lparr>su_Outcome := outcome\<rparr>, sz_exit = exit, sz_sent = sent @ notices, sz_panicked = False\<rparr>)"

text \<open>A panic ends the process with the status 2, before \<^verbatim>\<open>finish\<close> has sent or printed anything.\<close>

definition crashed :: "Message list \<Rightarrow> send_result" where
  "crashed sent = \<lparr>sz_summary = no_summary, sz_exit = 2, sz_sent = sent, sz_panicked = True\<rparr>"

text \<open>\<^verbatim>\<open>fail\<close> in \<^verbatim>\<open>Run\<close>, before the transfer: \<open>held\<close> is what a signal has stored in the meantime.\<close>

definition sender_fail :: "(string \<Rightarrow> nat) \<Rightarrow> err option \<Rightarrow> u32 \<Rightarrow> bool \<Rightarrow> Message list \<Rightarrow> err \<Rightarrow> send_result" where
  "sender_fail ty held walkUnreadable ctrl sent e =
     (if swap_panics ty held e then crashed sent
      else sender_finish walkUnreadable ctrl sent (Some (case held of None \<Rightarrow> e | Some e0 \<Rightarrow> e0)) no_summary)"

definition checkReadable :: "bool \<Rightarrow> bytes \<Rightarrow> err option \<Rightarrow> err option \<Rightarrow> err option" where
  "checkReadable isDir p openErr readErr = (case openErr of
     Some e \<Rightarrow> Some (Wrap E1004 ''open source'' p (Some e))
   | None \<Rightarrow> (case readErr of
       Some e \<Rightarrow> if isDir \<and> \<not> is_EOF e then Some (Wrap E1004 ''read source'' p (Some e)) else None
     | None \<Rightarrow> None))"

record send_env =
  se_darwin :: bool
  se_numCPU :: int
  se_nfc :: "bytes \<Rightarrow> bytes"
  se_sha256 :: "bytes \<Rightarrow> bytes"
  se_errType :: "string \<Rightarrow> nat"
  se_prims :: prims
  se_fs :: src_fs
  se_fuel :: nat
  se_abs :: "bytes \<Rightarrow> bytes option"
  se_openErr :: "err option"
  se_readErr :: "err option"
  se_discover :: "Code + Endpoint list"
  se_secret :: "bytes option"
  se_listen :: "err + u16"
  se_pair :: "(Session, nat) pair_event list"
  se_sigPair :: bool
  se_sigLink :: bool
  se_sigPlan :: bool
  se_sendParams :: "err option"
  se_ready :: "err + Message"
  se_joins :: "(err + join_conn) list"
  se_events :: "send_event list"
  se_drain :: "wake list"
  se_sendSummary :: "err option"
  se_late :: "send_event list"
  se_ackWait :: waited

text \<open>Step 1: the source, and whether it is a directory (0) or a file (1).\<close>

definition sender_source :: "send_env \<Rightarrow> sConfig \<Rightarrow> err + bytes \<times> u8" where
  "sender_source env cfg = (case se_abs env (sc_SourcePath cfg) of
     None \<Rightarrow> Inl (Wrap E1003 ''resolve source path'' (sc_SourcePath cfg) (Some (PlainErr ''getwd'')))
   | Some absRoot \<Rightarrow> (case sf_Lstat (se_fs env) absRoot of
       Inl missing \<Rightarrow> Inl (Wrap (if missing then E1003 else E1004) ''stat source'' absRoot (Some (PlainErr ''lstat'')))
     | Inr fi \<Rightarrow>
         let isDir = (fi_kind fi = KDir) in
         case checkReadable isDir absRoot (se_openErr env) (se_readErr env) of
           Some e \<Rightarrow> Inl e
         | None \<Rightarrow> Inr (absRoot, if isDir then 0 else 1)))"

text \<open>Steps 2 to 5: the printed code.\<close>

definition sender_code :: "send_env \<Rightarrow> sConfig \<Rightarrow> err + bytes" where
  "sender_code env cfg = (case se_discover env of
     Inl c \<Rightarrow> Inl (New c ''discover endpoints'' [] None)
   | Inr eps \<Rightarrow> (case se_secret env of
       None \<Rightarrow> Inl (Wrap E4007 ''generate session secret'' [] (Some (PlainErr ''rand'')))
     | Some sb \<Rightarrow> (case se_listen env of
         Inl e \<Rightarrow> Inl e
       | Inr port \<Rightarrow>
           let p = \<lparr>pl_Endpoints = codeEndpoints port (sc_CompactCode cfg) eps, pl_Secret = sb, pl_Restricted = sc_Bind cfg \<noteq> []\<rparr>
           in case Encode p of None \<Rightarrow> Inl (PlainErr ''panic'') | Some code \<Rightarrow> Inr code)))"

text \<open>Steps 7 and 8: parameters, SESSION_READY and the data channels.\<close>

definition sender_link :: "send_env \<Rightarrow> sConfig \<Rightarrow> bytes \<Rightarrow> u8 \<Rightarrow> Session \<Rightarrow> ((err + SessionReady \<times> Conn list) \<times> Message list) option" where
  "sender_link env cfg absRoot kind sess =
     (let params = M_SessionParams (sessionParams (se_darwin env) cfg absRoot kind) in
      case se_sendParams env of
        Some e \<Rightarrow> Some (Inl e, [])
      | None \<Rightarrow> (case se_ready env of
          Inl e \<Rightarrow> Some (Inl e, [params])
        | Inr (M_SessionReady ready) \<Rightarrow>
            (case acceptData (se_prims env) (fst (negotiate cfg ready)) (se_joins env) sess of
               None \<Rightarrow> None
             | Some (Inl e, _) \<Rightarrow> Some (Inl e, [params])
             | Some (Inr conns, _) \<Rightarrow> Some (Inr (ready, conns), [params]))
        | Inr m \<Rightarrow> Some (Inl (unexpected ''await SESSION_READY'' m), [params])))"

text \<open>The scan and the plan, with the counts of the walk.\<close>

definition sender_plan :: "send_env \<Rightarrow> sConfig \<Rightarrow> bytes \<Rightarrow> ((err + Plan) \<times> u32 \<times> u32) option" where
  "sender_plan env cfg absRoot = (case walkTree (se_fuel env) (se_fs env)
      \<lparr>wc_root = absRoot, wc_skipAbs = [], wc_followSymlinks = sc_FollowSymlinks cfg, wc_oneFileSystem = sc_OneFileSystem cfg,
       wc_hardlinks = sc_Hardlinks cfg\<rparr> of
     None \<Rightarrow> None
   | Some (Inl c) \<Rightarrow> Some (Inl (New c ''stat source'' absRoot None), 0, 0)
   | Some (Inr w) \<Rightarrow> Some (case Build (se_nfc env) (se_sha256 env) (wk_out w) (planOptions cfg) of
       Inl c \<Rightarrow> Inl (New c ''plan'' [] None)
     | Inr pl \<Rightarrow> Inr pl, wk_skipped w, wk_unreadable w))"

definition start_send :: "Plan \<Rightarrow> SessionReady \<Rightarrow> err option \<Rightarrow> send_state" where
  "start_send pl ready held = \<lparr>sx_tracker = newTracker (GroupFirsts pl), sx_credit = newCreditGate (int (unat (sr_GroupCredit ready))),
     sx_ack = None, sx_fatal = held, sx_panicked = False, sx_cancelled = (held \<noteq> None), sx_reading = True, sx_skipped = 0, sx_rejected = 0\<rparr>"

definition session_summary :: "send_env \<Rightarrow> Plan \<Rightarrow> u32 \<Rightarrow> tracker \<Rightarrow> SessionSummary" where
  "session_summary env pl walkSkipped t = (case counts t of (transferred, skipped, failed, bytesSent) \<Rightarrow>
     \<lparr>ss_FilesTotal = pn_TotalFiles pl, ss_FilesTransferred = transferred,
      ss_FilesSkipped = skipped + pn_ExcludedCount pl + ucast walkSkipped, ss_FilesFailed = failed,
      ss_BytesTransferred = bytesSent, ss_GroupsTotal = word_of_nat (NumGroups pl),
      ss_CompletionDigest = completionDigest (se_sha256 env) t\<rparr>)"

definition final_summary :: "SessionSummary \<Rightarrow> sSummary" where
  "final_summary m = \<lparr>su_Outcome = [], su_FilesTotal = ss_FilesTotal m, su_FilesTransferred = ss_FilesTransferred m,
     su_FilesSkipped = ss_FilesSkipped m, su_FilesFailed = ss_FilesFailed m, su_BytesTransferred = ss_BytesTransferred m,
     su_GroupsTotal = ss_GroupsTotal m\<rparr>"

text \<open>Step 10: the drain (how the select of \<^verbatim>\<open>tracker.wait\<close> wakes is given), the summary and its acknowledgement.
  \<open>None\<close>: still waiting, or the case said to fire is not ready.\<close>

definition sender_drain :: "send_env \<Rightarrow> Plan \<Rightarrow> u32 \<Rightarrow> u32 \<Rightarrow> Message list \<Rightarrow> send_state \<Rightarrow> send_result option" where
  "sender_drain env pl walkSkipped walkUnreadable sent s =
     (let ty = se_errType env;
          done = (\<lambda>sent s smry. if sx_panicked s then crashed sent else sender_finish walkUnreadable True sent (sx_fatal s) smry)
      in case wait (se_drain env) of
        None \<Rightarrow> None
      | Some (Some e) \<Rightarrow> Some (done sent (if sx_fatal s = None then setFatal ty e s else s) no_summary)
      | Some None \<Rightarrow>
          if \<not> tr_doneClosed (sx_tracker s) then None
          else let m = session_summary env pl walkSkipped (sx_tracker s) in
            case se_sendSummary env of
              Some e \<Rightarrow> Some (done sent (setFatal ty e s) no_summary)
            | None \<Rightarrow>
                let s = sendRun ty (se_late env) s; sent = sent @ [M_SessionSummary m] in
                case se_ackWait env of
                  Arrived \<Rightarrow> (case sx_ack s of
                     None \<Rightarrow> None
                   | Some ack \<Rightarrow>
                       if sa_CompletionDigest ack \<noteq> ss_CompletionDigest m
                       then Some (done sent (setFatal ty (New E5005 ''compare completion digest'' [] None) s) no_summary)
                       else Some (done sent s (final_summary m)))
                | RootDone \<Rightarrow> if sx_cancelled s then Some (done sent s no_summary) else None
                | TimedOut \<Rightarrow> Some (done sent (setFatal ty (New E9002 ''await SESSION_SUMMARY_ACK'' [] None) s) no_summary))"

text \<open>
  The signal handler is installed after step 5; what it has stored is \<open>h1\<close> at the end of pairing, \<open>h2\<close> when the
  data channels are accepted, \<open>h3\<close> after the scan.
\<close>

definition sender_Run :: "send_env \<Rightarrow> sConfig \<Rightarrow> send_result option" where
  "sender_Run env cfg =
     (let cfg = sender_withDefaults (se_numCPU env) cfg;
          signalled = (\<lambda>b h. if b \<and> h = None then Some ErrSignal else h);
          h1 = signalled (se_sigPair env) None; h2 = signalled (se_sigLink env) h1; h3 = signalled (se_sigPlan env) h2;
          failed = (\<lambda>h un ctrl sent e. Some (sender_fail (se_errType env) h un ctrl sent e))
      in case sender_source env cfg of
           Inl e \<Rightarrow> failed None 0 False [] e
         | Inr (absRoot, kind) \<Rightarrow> (case sender_code env cfg of
             Inl e \<Rightarrow> failed None 0 False [] e
           | Inr code \<Rightarrow> (case pair (sc_MaxPairAttempts cfg) 0 (se_pair env) of
               None \<Rightarrow> None
             | Some (Inl e) \<Rightarrow> failed h1 0 False [] e
             | Some (Inr (sess, nc)) \<Rightarrow> (case sender_link env cfg absRoot kind sess of
                 None \<Rightarrow> None
               | Some (Inl e, sent) \<Rightarrow> failed h2 0 True sent e
               | Some (Inr (ready, conns), sent) \<Rightarrow> (case sender_plan env cfg absRoot of
                   None \<Rightarrow> None
                 | Some (Inl e, _, un) \<Rightarrow> failed h3 un True sent e
                 | Some (Inr pl, walkSkipped, un) \<Rightarrow>
                     sender_drain env pl walkSkipped un sent (sendRun (se_errType env) (se_events env) (start_send pl ready h3)))))))"

section \<open>Pairing\<close>

text \<open>
  The receiver that completes the handshake is paired as long as fewer handshakes than the budget were rejected
  before; with the budget spent the session ends with E2007, and no later connection is looked at.
\<close>

theorem pair_budget:
  assumes "0 < maxAttempts"
  shows "pair maxAttempts 0 (map (\<lambda>(e, c). Handshaken (Inl e) c) rejects @ Handshaken (Inr sess) nc # rest) =
    (if int (length rejects) < maxAttempts then Some (Inr (sess, nc)) else Some (Inl (New E2007 ''pair'' [] None)))"
proof -
  have "a < maxAttempts \<Longrightarrow> pair maxAttempts a (map (\<lambda>(e, c). Handshaken (Inl e) c) rejects @ Handshaken (Inr sess) nc # rest) =
    (if a + int (length rejects) < maxAttempts then Some (Inr (sess, nc)) else Some (Inl (New E2007 ''pair'' [] None)))" for a
    by (induction rejects arbitrary: a) (auto simp: Let_def)
  from this [of 0] assms show ?thesis by simp
qed

theorem pair_budget_witness:
  "pair 2 0 [Handshaken (Inl (PlainErr ''x'')) (1 :: nat), Handshaken (Inr (5 :: nat)) 2] = Some (Inr (5, 2))"
  using pair_budget [of 2 "[(PlainErr ''x'', 1)]" 5 2 "[]"] by simp

section \<open>Data channels\<close>

lemma newConn_accepted:
  "newConn P inp ioerr now i role sess = (c, sess') \<Longrightarrow> cn_id c = i \<and> cn_role c = role \<and> se_accepted sess' = se_accepted sess"
  by (auto simp: newConn_def RecordKeys_def directions_def Let_def split: option.splits sum.splits prod.splits if_splits)

definition channels_ok :: "nat \<Rightarrow> Session \<Rightarrow> Conn list \<Rightarrow> bool" where
  "channels_ok n sess conns \<longleftrightarrow> distinct (map cn_id conns) \<and> cn_id ` set conns \<subseteq> se_accepted sess \<and>
     (\<forall>c\<in>set conns. cn_role c = Sender \<and> cn_id c \<noteq> 0 \<and> cn_id c \<le> word_of_nat n)"

lemma accept_loop_ok:
  "accept_loop P n evs sess conns = Some (Inr cs, sess') \<Longrightarrow> channels_ok n sess conns \<Longrightarrow> length conns \<le> n \<Longrightarrow>
     length cs = n \<and> channels_ok n sess' cs"
proof (induction evs arbitrary: sess conns)
  case Nil
  then show ?case by (subst (asm) accept_loop.simps) (auto split: if_splits)
next
  case (Cons ev evs)
  show ?case
  proof (cases "length conns \<ge> n")
    case True
    with Cons.prems show ?thesis by (subst (asm) accept_loop.simps) auto
  next
    case False
    then obtain jc where ev: "ev = Inr jc" using Cons.prems(1) by (subst (asm) accept_loop.simps) (auto split: sum.splits)
    obtain r out s1 where a: "AcceptChannel P (jc_join jc) (jc_writeFails jc) (word_of_nat n) sess = (r, out, s1)"
      by (cases "AcceptChannel P (jc_join jc) (jc_writeFails jc) (word_of_nat n) sess")
    show ?thesis
    proof (cases r)
      case (Inl c)
      have "channels_ok n s1 conns" using AcceptChannel_cases [OF a] Cons.prems(2) Inl by (auto simp: channels_ok_def)
      moreover have "accept_loop P n evs s1 conns = Some (Inr cs, sess')"
        using Cons.prems(1) False a Inl by (subst (asm) accept_loop.simps) (simp add: ev)
      ultimately show ?thesis using Cons.IH Cons.prems(3) by blast
    next
      case (Inr i)
      obtain c s2 where c: "Data P (jc_inp jc) (jc_ioerr jc) (jc_now jc) i Sender s1 = (c, s2)" by force
      then have "cn_id c = i" "cn_role c = Sender" "se_accepted s2 = se_accepted s1"
        using newConn_accepted [of P "jc_inp jc" "jc_ioerr jc" "jc_now jc" i Sender s1 c s2] by (auto simp: Data_def)
      then have "channels_ok n s2 (conns @ [c])"
        using AcceptChannel_cases [OF a] Cons.prems(2) Inr by (auto simp: channels_ok_def)
      moreover have "accept_loop P n evs s2 (conns @ [c]) = Some (Inr cs, sess')"
        using Cons.prems(1) False a Inr c by (subst (asm) accept_loop.simps) (simp add: ev)
      ultimately show ?thesis using Cons.IH False by fastforce
    qed
  qed
qed

text \<open>
  The sender starts the transfer with exactly the announced number of data channels, whatever else connects to the
  listener: their ids are different and lie between 1 and that number.
\<close>

theorem acceptData_exact:
  assumes "acceptData P n evs sess = Some (Inr conns, sess')" "0 < n"
  shows "int (length conns) = n \<and> distinct (map cn_id conns) \<and>
    (\<forall>c\<in>set conns. cn_role c = Sender \<and> cn_id c \<noteq> 0 \<and> cn_id c \<le> word_of_int n)"
proof -
  have "accept_loop P (nat n) evs sess [] = Some (Inr conns, sess')" using assms by (simp add: acceptData_def)
  from accept_loop_ok [OF this] assms(2) show ?thesis by (auto simp: channels_ok_def)
qed

section \<open>The tracker of a session\<close>

lemma setFatal_simps [simp]: "sx_tracker (setFatal ty e s) = sx_tracker s" "sx_tracker (cancel s) = sx_tracker s"
    "sx_tracker (stop_reader s) = sx_tracker s"
  by (simp_all add: setFatal_def cancel_def stop_reader_def)

lemma readControl_reach: "tr_reach gf (sx_tracker s) \<Longrightarrow> tr_reach gf (sx_tracker (sender_readControl ty i s))"
proof -
  assume r: "tr_reach gf (sx_tracker s)"
  have "tr_reach gf t" if "decision v (sx_tracker s) = Inr t" for v t
    using tr_reach.step [OF r, of "EvDecision v"] that by simp
  with r show ?thesis by (auto simp: sender_readControl_def split: sum.splits Message.splits)
qed

lemma sendStep_reach: "tr_reach gf (sx_tracker s) \<Longrightarrow> tr_reach gf (sx_tracker (sendStep ty e s))"
  by (cases e) (auto simp: servicerEnd_def manifestEnd_def intro: readControl_reach tr_reach.step split: option.splits)

lemma sendRun_reach: "tr_reach gf (sx_tracker s) \<Longrightarrow> tr_reach gf (sx_tracker (sendRun ty evs s))"
  unfolding sendRun_def by (induction evs arbitrary: s) (auto intro: sendStep_reach)

lemma start_reach: "tr_reach (GroupFirsts pl) (sx_tracker (sendRun ty evs (start_send pl ready held)))"
  by (rule sendRun_reach) (simp add: start_send_def tr_reach.init)

text \<open>A tracker that has closed its done channel.\<close>

lemma done_tracker:
  assumes "tr_reach gf t" "tr_doneClosed t"
  shows "tr_groupsDecided t = length gf" "tr_needed t \<subseteq> tr_resolved t"
proof -
  have inv: "decided_inv gf t" "close_inv t" using tr_reach_inv [OF assms(1)] by auto
  have "tr_decidedSet t \<subseteq> {g. unat g < length gf}" using inv(1) by (simp add: decided_inv_def)
  then have "card (tr_decidedSet t) \<le> card {g :: u32. unat g < length gf}" by (intro card_mono) simp_all
  also have "\<dots> \<le> length gf" by (rule group_ids_finite)
  finally have "card (tr_decidedSet t) \<le> length gf" .
  moreover have "tr_groupsDecided t = card (tr_decidedSet t)" "tr_totalGroups t = length gf"
    using inv(1) by (simp_all add: decided_inv_def)
  moreover have "tr_groupsDecided t \<ge> tr_totalGroups t \<and> tr_needed t \<subseteq> tr_resolved t"
    using inv(2) assms(2) by (simp add: close_inv_def)
  ultimately show "tr_groupsDecided t = length gf" "tr_needed t \<subseteq> tr_resolved t" by linarith+
qed

section \<open>How a session ends\<close>

lemma sender_finish_ok:
  "su_Outcome (sz_summary (sender_finish un ctrl sent ferr smry)) = ''ok'' \<longleftrightarrow> ferr = None \<and> su_FilesFailed smry = 0 \<and> un = 0"
  by (auto simp: sender_finish_def word_gt_0 split: option.splits)

lemma crashed_not_ok [simp]: "su_Outcome (sz_summary (crashed sent)) \<noteq> ''ok''"
  by (simp add: crashed_def no_summary_def)

lemma sender_fail_ok: "su_Outcome (sz_summary (sender_fail ty held un ctrl sent e)) \<noteq> ''ok''"
  by (simp add: sender_fail_def sender_finish_ok)

lemma sender_finish_sent: "set sent \<subseteq> set (sz_sent (sender_finish un ctrl sent ferr smry))"
  by (auto simp: sender_finish_def split: option.splits)

lemma sender_finish_ok_fields:
  "su_Outcome (sz_summary (sender_finish un ctrl sent ferr smry)) = ''ok'' \<Longrightarrow>
     sz_exit (sender_finish un ctrl sent ferr smry) = 0 \<and> sz_sent (sender_finish un ctrl sent ferr smry) = sent"
  unfolding sender_finish_ok by (simp add: sender_finish_def)

text \<open>A session that reached the transfer, and what its drain returned.\<close>

lemma sender_Run_drain:
  assumes "sender_Run env cfg = Some r" "su_Outcome (sz_summary r) = ''ok''"
  obtains pl ready held sk un sent where "sender_drain env pl sk un sent (sendRun (se_errType env) (se_events env) (start_send pl ready held)) = Some r"
    "\<forall>m\<in>set sent. \<forall>ss. m \<noteq> M_SessionSummary ss"
proof -
  have "\<forall>m\<in>set sent. \<forall>ss. m \<noteq> M_SessionSummary ss"
    if "sender_link env c a k se = Some (x, sent)" for c a k se x sent
    using that by (auto simp: sender_link_def Let_def split: option.splits sum.splits Message.splits prod.splits)
  with that assms show thesis
    by (auto simp: sender_Run_def sender_fail_ok Let_def split: option.splits sum.splits prod.splits)
qed

lemma sender_drain_ok:
  assumes "sender_drain env pl sk un sent s = Some r" "su_Outcome (sz_summary r) = ''ok''"
  defines "m \<equiv> session_summary env pl sk (sx_tracker s)"
  shows "tr_doneClosed (sx_tracker s)" "un = 0" "sz_exit r = 0" "sz_sent r = sent @ [M_SessionSummary m]"
    "se_ackWait env = Arrived \<and> (\<exists>ack. sx_ack (sendRun (se_errType env) (se_late env) s) = Some ack \<and> sa_CompletionDigest ack = ss_CompletionDigest m) \<or>
     se_ackWait env = RootDone \<and> sx_cancelled (sendRun (se_errType env) (se_late env) s)"
    "se_ackWait env = Arrived \<Longrightarrow> ss_FilesFailed m = 0"
proof -
  let ?s = "sendRun (se_errType env) (se_late env) s"
  note ok = sender_finish_ok sl.get_put Let_def
  have w: "wait (se_drain env) = Some None"
    using assms(1,2) by (cases "wait (se_drain env)"; cases "the (wait (se_drain env))") (auto simp: sender_drain_def ok split: if_splits)
  have c: "tr_doneClosed (sx_tracker s)" "se_sendSummary env = None"
    using assms(1,2) w by (auto simp: sender_drain_def ok split: if_splits option.splits)
  let ?done = "\<lambda>s smry. if sx_panicked s then crashed (sent @ [M_SessionSummary m]) else sender_finish un True (sent @ [M_SessionSummary m]) (sx_fatal s) smry"
  have e: "Some r = (case se_ackWait env of
      Arrived \<Rightarrow> (case sx_ack ?s of None \<Rightarrow> None | Some ack \<Rightarrow>
        if sa_CompletionDigest ack \<noteq> ss_CompletionDigest m then Some (?done (setFatal (se_errType env) (New E5005 ''compare completion digest'' [] None) ?s) no_summary)
        else Some (?done ?s (final_summary m)))
    | RootDone \<Rightarrow> if sx_cancelled ?s then Some (?done ?s no_summary) else None
    | TimedOut \<Rightarrow> Some (?done (setFatal (se_errType env) (New E9002 ''await SESSION_SUMMARY_ACK'' [] None) ?s) no_summary))"
    unfolding assms(1) [symmetric] sender_drain_def Let_def w c(2) m_def by (simp only: c(1) option.case not_True_eq_False if_False)
  have bad: "r \<noteq> ?done (setFatal ty f t) no_summary" for ty f t using assms(2) by (auto simp: sender_finish_ok sl.get_put)
  have good: "r = ?done t smry \<Longrightarrow> r = sender_finish un True (sent @ [M_SessionSummary m]) (sx_fatal t) smry" for t smry
    using assms(2) by (auto split: if_splits)
  have r: "r = sender_finish un True (sent @ [M_SessionSummary m]) (sx_fatal ?s) (if se_ackWait env = Arrived then final_summary m else no_summary)"
    "se_ackWait env = Arrived \<and> (\<exists>ack. sx_ack ?s = Some ack \<and> sa_CompletionDigest ack = ss_CompletionDigest m) \<or>
     se_ackWait env = RootDone \<and> sx_cancelled ?s"
    using e bad good by (cases "se_ackWait env"; force split: option.splits if_split_asm)+
  have "tr_doneClosed (sx_tracker s) \<and> un = 0 \<and> sz_exit r = 0 \<and> sz_sent r = sent @ [M_SessionSummary m] \<and>
    (se_ackWait env = Arrived \<and> ss_FilesFailed m = 0 \<and> (\<exists>ack. sx_ack ?s = Some ack \<and> sa_CompletionDigest ack = ss_CompletionDigest m) \<or>
     se_ackWait env = RootDone \<and> sx_cancelled ?s)"
    using assms(2) c(1) r(2) unfolding r(1)
    by (auto simp: sender_finish_ok sender_finish_ok_fields final_summary_def split: if_splits)
  then show "tr_doneClosed (sx_tracker s)" "un = 0" "sz_exit r = 0" "sz_sent r = sent @ [M_SessionSummary m]"
    "se_ackWait env = Arrived \<and> (\<exists>ack. sx_ack (sendRun (se_errType env) (se_late env) s) = Some ack \<and> sa_CompletionDigest ack = ss_CompletionDigest m) \<or>
     se_ackWait env = RootDone \<and> sx_cancelled (sendRun (se_errType env) (se_late env) s)"
    "se_ackWait env = Arrived \<Longrightarrow> ss_FilesFailed m = 0" by auto
qed


section \<open>Codes that a wrapper does not change\<close>

text \<open>
  \<^verbatim>\<open>fault.Wrap\<close> keeps a code that is already there: an accept that fails (E3001 from the listener) is never E4002, and a
  coded fault of a servicer is never E3005.
\<close>

lemma Wrap_keeps_code: "GetCode (Some e) \<noteq> [] \<Longrightarrow> GetCode (Some (Wrap c op sb (Some e))) = GetCode (Some e)"
  by (auto simp: GetCode_def Wrap_def dest: as_fault_idem split: option.splits)

lemma accept_never_E4002:
  "GetCode (Some e) = [] \<Longrightarrow> listener_Accept (Inl e :: err + join_conn) = Inl e' \<Longrightarrow> 0 < n \<Longrightarrow>
     \<exists>f. accept_loop P n [Inl e'] sess [] = Some (Inl f, sess) \<and> GetCode (Some f) = E3001"
  by (auto simp: listener_Accept_def GetCode_def Wrap_def code_defs split: option.splits)

lemma servicer_never_E3005:
  "GetCode (Some e) \<noteq> [] \<Longrightarrow> \<not> sx_cancelled s \<Longrightarrow> sx_fatal s = None \<Longrightarrow>
     \<exists>f. sx_fatal (servicerEnd ty (Some e) s) = Some f \<and> GetCode (Some f) = GetCode (Some e)"
  by (auto simp: servicerEnd_def cancel_def setFatal_def Wrap_keeps_code)

section \<open>An example session\<close>

text \<open>
  The source is a directory with one file; the receiver joins one data channel, asks for the file, and acknowledges
  the summary (\<open>w\<close>: how that wait ends).
\<close>

definition sample_send_src :: src_fs where
  "sample_send_src =
     \<lparr>sf_Lstat = (\<lambda>p. if p = str ''/r'' then Inr (sample_info KDir 1) else if p = str ''/r/a'' then Inr (sample_info KRegular 2) else Inl True),
      sf_Stat = (\<lambda>p. None), sf_ReadDir = (\<lambda>p. if p = str ''/r'' then Some [str ''a''] else None), sf_Readlink = (\<lambda>p. None)\<rparr>"

definition sample_sConfig :: sConfig where
  "sample_sConfig = \<lparr>sc_SourcePath = str ''/r'', sc_Bind = str ''10.0.0.7'', sc_Port = 0, sc_Version = str ''dev'', sc_MaxChannels = 8, sc_PairTimeout = 0,
     sc_MaxPairAttempts = 5, sc_HandshakeTimeout = 0, sc_DrainTimeout = 0, sc_ProgressInterval = 0, sc_GroupBytes = 0, sc_HashAlg = MD5,
     sc_HashWorkers = 0, sc_ReadConcurrency = 0, sc_ChunkSize = 1024, sc_SocketBuffer = 0, sc_CompactCode = False, sc_FollowSymlinks = False,
     sc_OneFileSystem = False, sc_Hardlinks = False, sc_KeepSystemFiles = True, sc_Quick = False, sc_NoCache = False, sc_Filters = []\<rparr>"

definition sample_join :: join_conn where
  "sample_join = \<lparr>jc_join = join_message sample_prims sample_session 1 (replicate 16 6), jc_writeFails = False, jc_inp = [], jc_ioerr = False, jc_now = 0\<rparr>"

definition sample_ready :: "u16 \<Rightarrow> SessionReady" where
  "sample_ready n = \<lparr>sr_Channels = n, sr_GroupCredit = 4, sr_PipelineDepth = 2, sr_MaxChunk = 0, sr_DestPlatform = 0, sr_ReceiverVersion = [], sr_DestFreeBytes = 0\<rparr>"

definition sample_send_env :: "send_event list \<Rightarrow> waited \<Rightarrow> send_env" where
  "sample_send_env late w = \<lparr>se_darwin = False, se_numCPU = 4, se_nfc = (\<lambda>b. b), se_sha256 = (\<lambda>b. b), se_errType = (\<lambda>_. 0), se_prims = sample_prims,
     se_fs = sample_send_src, se_fuel = 3, se_abs = Some, se_openErr = None, se_readErr = None,
     se_discover = Inr [\<lparr>ep_Addr = V4 [10, 0, 0, 7], ep_Port = 0\<rparr>], se_secret = Some (replicate 16 3), se_listen = Inr 4000,
     se_pair = [Handshaken (Inr sample_session) 1], se_sigPair = False, se_sigLink = False, se_sigPlan = False, se_sendParams = None, se_ready = Inr (M_SessionReady (sample_ready 1)),
     se_joins = [Inr sample_join],
     se_events = [SPublish, SCtl (Inr (M_GroupDecision \<lparr>gd_GroupID = 0, gd_Needed = [0], gd_SkippedCount = 0, gd_Rejected = []\<rparr>)),
       STrack (EvStarted 1 0), STrack (EvCompleted 1 0 3)],
     se_drain = [WDone], se_sendSummary = None, se_late = late, se_ackWait = w\<rparr>"

definition sample_ack :: SessionSummaryAck where
  "sample_ack = \<lparr>sa_FilesTotal = 1, sa_FilesTransferred = 1, sa_FilesSkipped = 0, sa_FilesFailed = 0, sa_BytesTransferred = 3,
     sa_GroupsTotal = 1, sa_CompletionDigest = be64 0\<rparr>"

lemma sample_source_ok: "sender_source (sample_send_env late w) (sender_withDefaults 4 sample_sConfig) = Inr (str ''/r'', 0)"
  by code_simp

lemma sample_code_ok: "\<exists>c. sender_code (sample_send_env late w) (sender_withDefaults 4 sample_sConfig) = Inr c"
proof -
  have "sc_Bind sample_sConfig \<noteq> []" by (simp add: sample_sConfig_def)
  then show ?thesis using Encode_eq [OF wf_sample_payload, unfolded sample_payload_def]
    by (simp add: sender_code_def sample_send_env_def codeEndpoints_def compactEndpoints_def sender_withDefaults_def)
qed

lemma sample_accept:
  "\<exists>c sess'. acceptData sample_prims 1 [Inr sample_join] sample_session = Some (Inr [c], sess')"
proof -
  have "AcceptChannel sample_prims (jc_join sample_join) (jc_writeFails sample_join) 1 sample_session =
     (Inr 1, channelTag sample_prims (se_KChan sample_session) ''accept'' (se_SessionID sample_session) 1 (replicate 16 6),
      sample_session\<lparr>se_accepted := insert 1 (se_accepted sample_session)\<rparr>)"
    using AcceptChannel_join [OF sample_prims_ok, of sample_session "replicate 16 6" 1 1 sample_session]
    by (simp add: sample_join_def) (simp add: sample_session_def newSession_def sample_sid_def)
  then show ?thesis
    by (subst acceptData_def, simp add: accept_loop.simps [of _ "Suc 0"] accept_loop.simps [of _ _ "[]"] split: prod.split)
qed

lemma sample_link_ok:
  "\<exists>c msg. sender_link (sample_send_env late w) (sender_withDefaults 4 sample_sConfig) a k sample_session
     = Some (Inr (sample_ready 1, [c]), [M_SessionParams msg])"
proof -
  have "negotiate (sender_withDefaults 4 sample_sConfig) (sample_ready 1) = (1, 1024)" by code_simp
  with sample_accept show ?thesis by (auto simp: sender_link_def sample_send_env_def Let_def)
qed

lemma sample_walk_ok:
  "\<exists>wk e. walkTree 3 sample_send_src \<lparr>wc_root = str ''/r'', wc_skipAbs = [], wc_followSymlinks = False, wc_oneFileSystem = False,
     wc_hardlinks = False\<rparr> = Some (Inr wk) \<and> wk_out wk = [e] \<and> wk_skipped wk = 0 \<and> wk_unreadable wk = 0"
proof -
  let ?w = "walkTree 3 sample_send_src \<lparr>wc_root = str ''/r'', wc_skipAbs = [], wc_followSymlinks = False, wc_oneFileSystem = False,
     wc_hardlinks = False\<rparr>"
  have "map_option (map_sum id (\<lambda>w. (length (wk_out w), wk_skipped w, wk_unreadable w))) ?w = Some (Inr (1, 0, 0))" by code_simp
  then obtain wk where "?w = Some (Inr wk)" "length (wk_out wk) = 1" "wk_skipped wk = 0" "wk_unreadable wk = 0"
    by (cases ?w; cases "the ?w") auto
  then show ?thesis by (auto simp: length_Suc_conv)
qed

lemma sample_plan_ok:
  "\<exists>pl. sender_plan (sample_send_env late w) (sender_withDefaults 4 sample_sConfig) (str ''/r'') = Some (Inr pl, 0, 0) \<and> GroupFirsts pl = [0]"
proof -
  let ?o = "no_filters\<lparr>op_GroupBytes := 512 * 2 ^ 20\<rparr>"
  obtain wk e where w: "walkTree 3 sample_send_src \<lparr>wc_root = str ''/r'', wc_skipAbs = [], wc_followSymlinks = False,
      wc_oneFileSystem = False, wc_hardlinks = False\<rparr> = Some (Inr wk)" "wk_out wk = [e]" "wk_skipped wk = 0" "wk_unreadable wk = 0"
    using sample_walk_ok by blast
  have o: "planOptions (sender_withDefaults 4 sample_sConfig) = ?o"
    by (simp add: planOptions_def sender_withDefaults_def sample_sConfig_def no_filters_def or_default_def)
  have "\<exists>pl. Build (\<lambda>b. b) (\<lambda>b. b) [e] ?o = Inr pl" by (auto simp: Build_def no_filters_def Let_def split: prod.splits)
  then obtain pl where pl: "Build (\<lambda>b. b) (\<lambda>b. b) [e] ?o = Inr pl" by blast
  have "admitted ?o [e] e" by (auto simp: admitted_def classify_def no_filters_def filterAdmits_def)
  then have "length (pn_entries pl) = 1" using Build_sel [OF pl] by (simp add: keyed_of_def sort_keyed_def)
  then have "GroupFirsts pl = [0]" using Build_sel(4) [OF pl]
    by (auto simp: GroupFirsts_def NumGroups_def computeGroups_def length_Suc_conv Let_def)
  then show ?thesis using w o pl by (simp add: sender_plan_def sample_send_env_def sender_withDefaults_def sample_sConfig_def)
qed

definition sample_transferred :: send_state where
  "sample_transferred = sendRun (\<lambda>_. 0) (se_events (sample_send_env [] Arrived)) \<lparr>sx_tracker = newTracker [0], sx_credit = newCreditGate 4, sx_ack = None,
     sx_fatal = None, sx_panicked = False, sx_cancelled = False, sx_reading = True, sx_skipped = 0, sx_rejected = 0\<rparr>"

lemma sample_transferred:
  "tr_doneClosed (sx_tracker sample_transferred)" "tr_completed (sx_tracker sample_transferred) = [0]"
  "tr_failedSet (sx_tracker sample_transferred) = {}" "sx_fatal sample_transferred = None" "sx_ack sample_transferred = None"
  "sx_reading sample_transferred" "sx_cancelled sample_transferred = False" "sx_panicked sample_transferred = False"
  by code_simp+

lemma sample_sender_run:
  "\<exists>pl p. sender_Run (sample_send_env late w) sample_sConfig = sender_drain (sample_send_env late w) pl 0 0 [M_SessionParams p] sample_transferred"
proof -
  have "sc_MaxPairAttempts (sender_withDefaults 4 sample_sConfig) = 5"
    by (simp add: sender_withDefaults_def sample_sConfig_def or_default_def)
  obtain c where code: "sender_code (sample_send_env late w) (sender_withDefaults 4 sample_sConfig) = Inr c" using sample_code_ok by blast
  obtain cn p where link: "sender_link (sample_send_env late w) (sender_withDefaults 4 sample_sConfig) (str ''/r'') 0 sample_session
     = Some (Inr (sample_ready 1, [cn]), [M_SessionParams p])" using sample_link_ok by blast
  obtain pl where pl: "sender_plan (sample_send_env late w) (sender_withDefaults 4 sample_sConfig) (str ''/r'') = Some (Inr pl, 0, 0)"
    "GroupFirsts pl = [0]" using sample_plan_ok by blast
  have env: "se_numCPU (sample_send_env late w) = 4" "se_pair (sample_send_env late w) = [Handshaken (Inr sample_session) 1]"
    "se_events (sample_send_env late w) = se_events (sample_send_env [] Arrived)" "se_errType (sample_send_env late w) = (\<lambda>_. 0)"
    "\<not> se_sigPair (sample_send_env late w)" "\<not> se_sigLink (sample_send_env late w)" "\<not> se_sigPlan (sample_send_env late w)" by (simp_all add: sample_send_env_def)
  have "sendRun (se_errType (sample_send_env late w)) (se_events (sample_send_env late w)) (start_send pl (sample_ready 1) None) = sample_transferred"
    using pl(2) by (simp add: sample_transferred_def start_send_def env(3,4)) (simp add: sample_ready_def)
  then show ?thesis
    using sample_source_ok [of late w] code link pl env(1,2,5-7) by (auto simp: sender_Run_def Let_def)
qed

lemma sample_acked_run:
  assumes "sa_CompletionDigest a = be64 0"
  shows "\<exists>r. sender_Run (sample_send_env [SCtl (Inr (M_SessionSummaryAck a))] Arrived) sample_sConfig = Some r \<and> su_Outcome (sz_summary r) = ''ok''"
proof -
  let ?env = "sample_send_env [SCtl (Inr (M_SessionSummaryAck a))] Arrived"
  obtain pl p where r: "sender_Run ?env sample_sConfig = sender_drain ?env pl 0 0 [M_SessionParams p] sample_transferred"
    using sample_sender_run by blast
  show ?thesis unfolding r using sample_transferred assms
    by (auto simp: sender_drain_def sample_send_env_def sendRun_def sender_readControl_def session_summary_def counts_def
        completionDigest_def completion_input_def sender_finish_ok final_summary_def Let_def)
qed

lemma sample_ack_digest: "sa_CompletionDigest sample_ack = be64 0"
  unfolding sample_ack_def by (rule SessionSummaryAck.select_convs)


text \<open>
  A control connection that ends after the summary was sent cancels the session without an error: the sender reports
  ok and exits 0 although no acknowledgement came.
\<close>

lemma unacknowledged_ok:
  "\<exists>r. sender_Run (sample_send_env [SCtl (Inl (PlainErr ''EOF''))] RootDone) sample_sConfig = Some r \<and> su_Outcome (sz_summary r) = ''ok'' \<and> sz_exit r = 0"
proof -
  let ?env = "sample_send_env [SCtl (Inl (PlainErr ''EOF''))] RootDone"
  obtain pl p where r: "sender_Run ?env sample_sConfig = sender_drain ?env pl 0 0 [M_SessionParams p] sample_transferred"
    using sample_sender_run by blast
  show ?thesis unfolding r using sample_transferred
    by (simp add: sender_drain_def sample_send_env_def sendRun_def sender_readControl_def stop_reader_def sender_finish_def no_summary_def Let_def)
qed

text \<open>
  A signal during the wait for SESSION_READY only stores its fault; when the receiver then closes the connection, the
  plain EOF is of another type, and the process panics with status 2 instead of ending with the exit code 5.
\<close>

lemma signal_then_EOF_panics:
  "sender_Run ((sample_send_env late w)\<lparr>se_sigLink := True, se_ready := Inl (PlainErr ''EOF'')\<rparr>) sample_sConfig = Some (crashed [M_SessionParams
     (sessionParams False (sender_withDefaults 4 sample_sConfig) (str ''/r'') 0)])"
proof -
  let ?env = "(sample_send_env late w)\<lparr>se_sigLink := True, se_ready := Inl (PlainErr ''EOF'')\<rparr>"
  have "sender_source ?env cfg = sender_source (sample_send_env late w) cfg" "sender_code ?env cfg = sender_code (sample_send_env late w) cfg" for cfg
    by (simp_all add: sender_source_def sender_code_def split: option.split sum.split)
  moreover obtain c where "sender_code (sample_send_env late w) (sender_withDefaults 4 sample_sConfig) = Inr c" using sample_code_ok by blast
  moreover have "sender_link ?env (sender_withDefaults 4 sample_sConfig) (str ''/r'') 0 sess =
      Some (Inl (PlainErr ''EOF''), [M_SessionParams (sessionParams False (sender_withDefaults 4 sample_sConfig) (str ''/r'') 0)])" for sess
    by (simp add: sender_link_def sample_send_env_def Let_def)
  moreover have "se_numCPU ?env = 4" "se_pair ?env = [Handshaken (Inr sample_session) 1]" "se_errType ?env = (\<lambda>_. 0)" "se_sigLink ?env" "\<not> se_sigPair ?env"
    by (simp_all add: sample_send_env_def)
  ultimately show ?thesis
    using sample_source_ok [of late w] by (simp add: sender_Run_def sender_fail_def swap_panics_def ErrSignal_def New_def Let_def)
qed

theorem acceptData_exact_witness:
  "\<exists>conns sess'. acceptData sample_prims 1 [Inr sample_join] sample_session = Some (Inr conns, sess') \<and> length conns = 1"
proof -
  obtain c sess' where "acceptData sample_prims 1 [Inr sample_join] sample_session = Some (Inr [c], sess')" using sample_accept by blast
  with acceptData_exact [OF this] show ?thesis by auto
qed

end
