(* ===== verification/Session_Props.thy ===== *)
theory Session_Props
  imports Receiver_Session Sender_Session
begin

text \<open>
  The two sessions together: what the results of one end say about the other, given that the messages that arrive were
  sent (the record layer and the channels of \<^verbatim>\<open>internal/channel\<close> provide that), and how a fault of one end shows at
  the other.
\<close>

section \<open>What was sent\<close>

text \<open>Every summary the sender sends is that of its tracker after the last file was resolved.\<close>

definition drained :: "send_env \<Rightarrow> SessionSummary \<Rightarrow> tracker \<Rightarrow> bool" where
  "drained env ss t \<longleftrightarrow> (\<exists>pl. tr_reach (GroupFirsts pl) t \<and> tr_doneClosed t) \<and> ss_CompletionDigest ss = completionDigest (se_sha256 env) t"

lemma finish_sent_summary:
  "M_SessionSummary ss \<in> set (sz_sent (sender_finish un c sent f smry)) \<Longrightarrow> M_SessionSummary ss \<in> set sent"
  by (auto simp: sender_finish_def fatal_notice_def Let_def split: option.splits if_splits)

lemma crashed_sent [simp]: "sz_sent (crashed sent) = sent"
  by (simp add: crashed_def)

lemma fail_sent_summary: "M_SessionSummary ss \<in> set (sz_sent (sender_fail ty held un c sent e)) \<Longrightarrow> M_SessionSummary ss \<in> set sent"
  by (auto simp: sender_fail_def dest: finish_sent_summary split: if_splits)

lemma drain_sent_summary:
  assumes "sender_drain env pl sk un sent s = Some r" "M_SessionSummary ss \<in> set (sz_sent r)" "M_SessionSummary ss \<notin> set sent"
  shows "tr_doneClosed (sx_tracker s) \<and> ss = session_summary env pl sk (sx_tracker s)"
proof -
  have "M_SessionSummary ss \<in> set sent \<or> tr_doneClosed (sx_tracker s) \<and> ss = session_summary env pl sk (sx_tracker s)"
    using assms(1,2) by (auto simp: sender_drain_def Let_def dest!: finish_sent_summary
        split: option.splits if_splits waited.splits)
  with assms(3) show ?thesis by blast
qed

lemma link_sent_no_summary: "sender_link env c a k se = Some (x, sent) \<Longrightarrow> M_SessionSummary ss \<notin> set sent"
  by (auto simp: sender_link_def Let_def split: option.splits sum.splits Message.splits prod.splits)

lemma sender_sent_summary:
  assumes "sender_Run env cfg = Some r" "M_SessionSummary ss \<in> set (sz_sent r)"
  obtains t where "drained env ss t"
proof -
  have "\<exists>pl sk un sent ready held. sender_drain env pl sk un sent (sendRun (se_errType env) (se_events env) (start_send pl ready held)) = Some r \<and> M_SessionSummary ss \<notin> set sent"
    using assms by (auto simp: sender_Run_def Let_def dest!: fail_sent_summary link_sent_no_summary [where ss = ss]
        split: option.splits sum.splits prod.splits) blast
  then obtain pl sk un sent ready held where d: "sender_drain env pl sk un sent (sendRun (se_errType env) (se_events env) (start_send pl ready held)) = Some r" "M_SessionSummary ss \<notin> set sent"
    by blast
  have "ss_CompletionDigest (session_summary env pl sk t) = completionDigest (se_sha256 env) t" for t
    by (simp add: session_summary_def split: prod.split)
  with drain_sent_summary [OF d(1) assms(2) d(2)] start_reach that show thesis unfolding drained_def by metis
qed

lemma finish_sent_ack:
  "M_SessionSummaryAck a \<in> set (rr_sent (receiver_finish d cnt c sent j s)) \<Longrightarrow> M_SessionSummaryAck a \<in> set sent"
  by (auto simp: receiver_finish_def fatal_notice_def Let_def split: option.splits if_splits)

lemma transfer_sent_ack:
  "receiver_transfer env cfg d sent = Some r \<Longrightarrow> M_SessionSummaryAck a \<in> set (rr_sent r) \<Longrightarrow> M_SessionSummaryAck a \<notin> set sent \<Longrightarrow>
     \<exists>sc. a = summary_ack env sc"
  by (auto simp: receiver_transfer_def receiver_reconcile_def Let_def dest!: finish_sent_ack
      split: option.splits sum.splits if_splits prod.splits)

lemma open_sent_no_ack: "receiver_open env cfg sp = (x, sent) \<Longrightarrow> M_SessionSummaryAck a \<notin> set sent"
  by (auto simp: receiver_open_def Let_def split: sum.splits option.splits)

lemma receiver_sent_ack:
  assumes "receiver_Run env cfg = Some r" "M_SessionSummaryAck a \<in> set (rr_sent r)"
  shows "\<exists>sc. a = summary_ack env sc"
  using assms by (auto simp: receiver_Run_def Let_def dest!: finish_sent_ack transfer_sent_ack [where a = a]
      dest: open_sent_no_ack split: option.splits sum.splits prod.splits)

section \<open>Both ends agree on the transferred files\<close>

text \<open>Two inputs on which the hash collides.\<close>

definition collide :: "('a \<Rightarrow> 'b) \<Rightarrow> 'a \<Rightarrow> 'a \<Rightarrow> bool" where
  "collide h a b \<longleftrightarrow> a \<noteq> b \<and> h a = h b"

lemma digests_agree:
  assumes "completionDigest sha t = receiver_completionDigest sha ids" "tr_reach gf t"
  shows "tr_completedSet t = set ids \<or> collide sha (completion_input (tr_completed t)) (completion_input ids)"
proof (cases "completion_input (tr_completed t) = completion_input ids")
  case True
  then have "sort (tr_completed t) = sort ids" unfolding completion_input_def by (rule concat_be64_inj)
  then have "set (tr_completed t) = set ids" by (metis set_sort)
  moreover have "set (tr_completed t) = tr_completedSet t" using tr_reach_inv [OF assms(2)] by (simp add: req_inv_def)
  ultimately show ?thesis by simp
next
  case False
  with assms(1) show ?thesis by (simp add: collide_def completionDigest_def receiver_completionDigest_def completion_input_def)
qed

lemma receiver_ok_digest:
  assumes "receiver_Run env cfg = Some r" "rs_Outcome (rr_summary r) = ''ok''" "\<not> rc_DryRun cfg"
  obtains ss where "Inr (M_SessionSummary ss) \<in> set (re_scan_in env @ re_pipe_in env @ re_sum_in env)"
    "ss_CompletionDigest ss = receiver_completionDigest (re_sha256 env) (re_completed env)"
proof -
  obtain destPath sent where t: "receiver_transfer env (receiver_withDefaults (re_numCPU env) cfg) destPath sent = Some r"
    using Run_ok_transfer [OF assms(1,2)] by blast
  have "\<not> rc_DryRun (receiver_withDefaults (re_numCPU env) cfg)" using assms(3) by (simp add: receiver_withDefaults_def)
  from transfer_ok [OF t assms(2) this] assms(2) reconcile_ok(4) that show thesis by metis
qed


lemma setFatal_ack [simp]: "sx_ack (setFatal ty e s) = sx_ack s" "sx_ack (cancel s) = sx_ack s" "sx_ack (stop_reader s) = sx_ack s"
  by (simp_all add: setFatal_def cancel_def stop_reader_def)

lemma sendStep_ack: "sx_ack (sendStep ty ev s) = Some a \<Longrightarrow> sx_ack s = Some a \<or> ev = SCtl (Inr (M_SessionSummaryAck a))"
  by (cases ev) (auto simp: sender_readControl_def servicerEnd_def manifestEnd_def split: if_splits sum.splits Message.splits option.splits)

lemma sendRun_ack: "sx_ack (sendRun ty evs s) = Some a \<Longrightarrow> sx_ack s = Some a \<or> SCtl (Inr (M_SessionSummaryAck a)) \<in> set evs"
  unfolding sendRun_def by (induction evs arbitrary: s) (auto dest: sendStep_ack)


section \<open>A fault at one end\<close>

text \<open>A fault as \<^verbatim>\<open>fault.New\<close>, \<^verbatim>\<open>Newf\<close> and \<^verbatim>\<open>Wrap\<close> build it: its class is that of its code.\<close>

definition coded :: "err \<Rightarrow> bool" where
  "coded e \<longleftrightarrow> (case as_fault e of None \<Rightarrow> False | Some f \<Rightarrow> f_Code f \<in> fst ` set catalogue \<and> f_Code f \<noteq> Signal \<and> f_Class f = p_class (lookup (f_Code f)))"

lemma coded_exit: "coded e \<Longrightarrow> ExitCode (Some e) = ExitCode (Some (New (GetCode (Some e)) op sb c))"
  by (auto simp: coded_def ExitCode_def GetCode_def split: option.splits)

lemma Newf_exit: "ExitCode (Some (Newf c op sb e d)) = ExitCode (Some (New c op' sb' e'))" "GetCode (Some (Newf c op sb e d)) = c"
  by (simp_all add: ExitCode_def GetCode_def)

lemma notice_code:
  assumes "coded e"
  obtains m where "fatal_notice e = M_Error m" "code_of_wire (er_Code m) = GetCode (Some e)" "er_Message m = GetCode (Some e)"
    "er_Detail m = str (Condition (GetCode (Some e)))"
proof -
  have "code_of_wire (numericCode (GetCode (Some e))) = GetCode (Some e)"
    using assms by (intro catalogue_wire_roundtrip) (auto simp: coded_def GetCode_def split: option.splits)
  with that show thesis by (simp add: fatal_notice_def Let_def)
qed


section \<open>An example\<close>

text \<open>The receiver that reads the summary of the example sender.\<close>

definition sample_peer_env :: "SessionSummary \<Rightarrow> recv_env" where
  "sample_peer_env ss = (sample_recv_env PipelineDone [])\<lparr>re_sum_in := [Inr (M_SessionSummary ss)], re_completed := [0]\<rparr>"

lemma sample_peer_transfer:
  "receiver_Run (sample_peer_env ss) sample_rConfig =
     receiver_transfer (sample_peer_env ss) (receiver_withDefaults 4 sample_rConfig) (str ''/d'')
       [M_SessionReady (session_ready (sample_recv_env PipelineDone []) (receiver_withDefaults 4 sample_rConfig) 4)]"
proof -
  have "re_dial (sample_peer_env ss) = re_dial (sample_recv_env PipelineDone [])" by (simp add: sample_peer_env_def)
  then have connect: "receiver_connect (sample_peer_env ss) cfg = receiver_connect (sample_recv_env PipelineDone []) cfg" for cfg
    by (simp only: receiver_connect_def)
  have "receiver_params (sample_peer_env ss) = Inr sample_params"
    by (simp add: receiver_params_def sample_peer_env_def sample_recv_env_def New_hash_def sample_params_def MD5_def)
  moreover have "receiver_open (sample_peer_env ss) (receiver_withDefaults 4 sample_rConfig) sample_params =
      (Inr (str ''/d''), [M_SessionReady (session_ready (sample_recv_env PipelineDone []) (receiver_withDefaults 4 sample_rConfig) 4)])"
    by (simp add: receiver_open_def receiver_dest_def resolveDest_def checkWritable_def sample_peer_env_def sample_recv_env_def receiver_withDefaults_def
        sample_rConfig_def sample_params_def initialChannels_def chan_cfg_of_def or_default_def session_ready_def Let_def)
  ultimately show ?thesis
    by (simp add: receiver_Run_def connect sample_connect Let_def) (simp add: sample_peer_env_def sample_recv_env_def)
qed

lemma sample_peer_run:
  assumes "ss_CompletionDigest ss = be64 0"
  obtains r where "receiver_Run (sample_peer_env ss) sample_rConfig = Some r" "rs_Outcome (rr_summary r) = ''ok''"
    "M_SessionSummaryAck (summary_ack (sample_peer_env ss) (sample_scan 1)) \<in> set (rr_sent r)"
  using that assms unfolding sample_peer_transfer
  by (simp add: sample_peer_env_def sample_stages finish_ok receiver_summary_def counter_u64_def receiver_finish_def Let_def)

lemma sample_sessions:
  obtains pl p r where "sender_Run (sample_send_env late w) sample_sConfig = sender_drain (sample_send_env late w) pl 0 0 [M_SessionParams p] sample_transferred"
    "receiver_Run (sample_peer_env (session_summary (sample_send_env late w) pl 0 (sx_tracker sample_transferred))) sample_rConfig = Some r"
    "rs_Outcome (rr_summary r) = ''ok''"
    "M_SessionSummaryAck (summary_ack (sample_peer_env (session_summary (sample_send_env late w) pl 0 (sx_tracker sample_transferred))) (sample_scan 1)) \<in> set (rr_sent r)"
proof -
  obtain pl p where 1: "sender_Run (sample_send_env late w) sample_sConfig = sender_drain (sample_send_env late w) pl 0 0 [M_SessionParams p] sample_transferred"
    using sample_sender_run by blast
  have "ss_CompletionDigest (session_summary (sample_send_env late w) pl 0 (sx_tracker sample_transferred)) = be64 0"
    using sample_transferred(2) by (simp add: session_summary_def completionDigest_def completion_input_def sample_send_env_def split: prod.split)
  from sample_peer_run [OF this] 1 that show thesis by blast
qed




end
