(* ===== verification/Obs_Log.thy ===== *)
theory Obs_Log
  imports Fault Go_Text "HOL-Library.Sublist"
begin

text \<open>
  The logger (\<^verbatim>\<open>internal/obs\<close>: \<^verbatim>\<open>level.go\<close>, \<^verbatim>\<open>ring.go\<close>, \<^verbatim>\<open>redact.go\<close>, \<^verbatim>\<open>obs.go\<close>, \<^verbatim>\<open>ctx.go\<close>): levels, the trace ring, records and
  their text, the sink with its writer. The clock is an input (a formatted time stamp), as are the JSON encoder and
  the case folding of the library.
\<close>

section \<open>Levels\<close>

definition LevelError :: int where "LevelError = 1"
definition LevelWarn :: int where "LevelWarn = 2"
definition LevelInfo :: int where "LevelInfo = 3"
definition LevelDebug :: int where "LevelDebug = 4"
definition LevelTrace :: int where "LevelTrace = 5"

lemmas level_defs = LevelError_def LevelWarn_def LevelInfo_def LevelDebug_def LevelTrace_def

definition Level_String :: "int \<Rightarrow> bytes" where
  "Level_String l = (if l = LevelError then str ''ERROR'' else if l = LevelWarn then str ''WARN'' else if l = LevelInfo then str ''INFO''
     else if l = LevelDebug then str ''DEBUG'' else if l = LevelTrace then str ''TRACE'' else str ''INFO'')"

definition ParseLevel :: "(bytes \<Rightarrow> bytes) \<Rightarrow> bytes \<Rightarrow> err + int" where
  "ParseLevel lower s =
     (let v = lower (TrimSpace s) in
      if v = str ''error'' then Inr LevelError
      else if v = str ''warn'' \<or> v = str ''warning'' then Inr LevelWarn
      else if v = str ''info'' then Inr LevelInfo
      else if v = str ''debug'' then Inr LevelDebug
      else if v = str ''trace'' then Inr LevelTrace
      else Inl (Newf E1007 ''parse log level'' s None (str ''unknown level'')))"

section \<open>Values, fields and records\<close>

text \<open>
  The value of a field, as far as its rendering matters: a string, an integer, a \<^verbatim>\<open>Secret\<close> or \<^verbatim>\<open>RedactedString\<close>, or
  another value with its \<^verbatim>\<open>%v\<close> text.
\<close>

datatype fval = VStr bytes | VInt int | VSecret bytes | VOther bytes

definition redacted :: bytes where "redacted = str ''[redacted]''"

fun fmt_v :: "fval \<Rightarrow> bytes" where
  "fmt_v (VStr s) = s"
| "fmt_v (VInt i) = FormatInt i"
| "fmt_v (VSecret b) = redacted"
| "fmt_v (VOther s) = s"

text \<open>What \<^verbatim>\<open>json.Marshal\<close> sees of a value: the method of a secret replaces it.\<close>

fun json_v :: "fval \<Rightarrow> fval" where
  "json_v (VSecret b) = VStr redacted"
| "json_v v = v"

fun Secret_Zero :: "fval \<Rightarrow> fval" where
  "Secret_Zero (VSecret b) = VSecret (replicate (length b) 0)"
| "Secret_Zero v = v"

type_synonym field = "bytes \<times> fval"

record log_record =
  rd_ts :: bytes
  rd_level :: int
  rd_role :: bytes
  rd_msg :: bytes
  rd_fields :: "field list"

definition traceOrder :: "bytes list" where
  "traceOrder = map str [''session'', ''group'', ''file'', ''req'', ''chan'', ''span'']"

definition fieldOrder :: "bytes list" where
  "fieldOrder = map str [''session'', ''group'', ''file'', ''path'', ''req'', ''chan'', ''span'', ''dur_ms'', ''code'', ''bytes'', ''files'',
     ''count'', ''rate_mbps'', ''attempt'', ''peer'', ''err'']"

section \<open>The trace ring\<close>

record ring =
  rg_buf :: "log_record list"
  rg_next :: nat
  rg_full :: bool

definition zero_record :: log_record where
  "zero_record = \<lparr>rd_ts = [], rd_level = 0, rd_role = [], rd_msg = [], rd_fields = []\<rparr>"

definition ring_size :: "int \<Rightarrow> nat" where
  "ring_size n = (if n \<le> 0 then 2048 else nat n)"

definition newRing :: "int \<Rightarrow> ring" where
  "newRing n = \<lparr>rg_buf = replicate (ring_size n) zero_record, rg_next = 0, rg_full = False\<rparr>"

definition ring_add :: "log_record \<Rightarrow> ring \<Rightarrow> ring" where
  "ring_add rec r =
     (let buf = (rg_buf r)[rg_next r := rec]; nxt = rg_next r + 1 in
      if nxt = length buf then \<lparr>rg_buf = buf, rg_next = 0, rg_full = True\<rparr>
      else r\<lparr>rg_buf := buf, rg_next := nxt\<rparr>)"

definition snapshot :: "ring \<Rightarrow> log_record list" where
  "snapshot r = (if \<not> rg_full r then take (rg_next r) (rg_buf r) else drop (rg_next r) (rg_buf r) @ take (rg_next r) (rg_buf r))"

text \<open>The ring holds the last records of the history it was fed.\<close>

definition ring_inv :: "nat \<Rightarrow> log_record list \<Rightarrow> ring \<Rightarrow> bool" where
  "ring_inv N recs r \<longleftrightarrow> length (rg_buf r) = N \<and> rg_next r < N \<and> (rg_full r \<longrightarrow> N \<le> length recs) \<and>
     (\<not> rg_full r \<longrightarrow> rg_next r = length recs) \<and> snapshot r = drop (length recs - N) recs"

lemma ring_inv_init: "ring_inv (ring_size n) [] (newRing n)"
  by (simp add: ring_inv_def newRing_def snapshot_def ring_size_def)

lemma ring_inv_add:
  assumes "ring_inv N recs r"
  shows "ring_inv N (recs @ [rec]) (ring_add rec r)"
proof -
  let ?b = "rg_buf r" and ?i = "rg_next r"
  have b: "length ?b = N" "?i < N" and snap: "snapshot r = drop (length recs - N) recs"
    and full: "rg_full r \<Longrightarrow> N \<le> length recs" and part: "\<not> rg_full r \<Longrightarrow> ?i = length recs"
    using assms by (auto simp: ring_inv_def)
  have upd: "take (Suc ?i) (?b[?i := rec]) = take ?i ?b @ [rec]" "drop (Suc ?i) (?b[?i := rec]) = drop (Suc ?i) ?b"
    using b by (simp_all add: take_Suc_conv_app_nth)
  show ?thesis
  proof (cases "rg_full r")
    case True
    then have s: "drop ?i ?b @ take ?i ?b = drop (length recs - N) recs" using snap by (simp add: snapshot_def)
    have "drop ?i ?b = ?b ! ?i # drop (Suc ?i) ?b" using b by (simp add: Cons_nth_drop_Suc)
    with s have "drop (Suc ?i) ?b @ take ?i ?b = drop (Suc (length recs - N)) recs" by (metis append_Cons drop_Suc list.sel(3) tl_drop)
    then have "drop (Suc ?i) ?b @ take ?i ?b @ [rec] = drop (length (recs @ [rec]) - N) (recs @ [rec])"
      using full [OF True] b(2) by (simp add: Suc_diff_le flip: append_assoc)
    then show ?thesis using b upd True full [OF True]
      by (auto simp: ring_inv_def ring_add_def snapshot_def Let_def)
  next
    case False
    then have "take ?i ?b = recs" using snap part b by (auto simp: snapshot_def)
    then show ?thesis using b upd False part [OF False]
      by (auto simp: ring_inv_def ring_add_def snapshot_def Let_def)
  qed
qed

lemma ring_snapshot: "snapshot (fold ring_add recs (newRing n)) = drop (length recs - ring_size n) recs"
proof -
  have "ring_inv (ring_size n) recs (fold ring_add recs (newRing n))"
  proof (induction recs rule: rev_induct)
    case Nil
    then show ?case by (simp add: ring_inv_init)
  next
    case (snoc x xs)
    then show ?case by (simp add: ring_inv_add)
  qed
  then show ?thesis by (simp add: ring_inv_def)
qed

section \<open>The text of a record\<close>

text \<open>A later field with the same key replaces the value at the place of the first.\<close>

definition upsert :: "field \<Rightarrow> field list \<Rightarrow> field list" where
  "upsert f fs = (if fst f \<in> fst ` set fs then map (\<lambda>g. if fst g = fst f then (fst g, snd f) else g) fs else fs @ [f])"

definition merge_fields :: "field list \<Rightarrow> field list" where
  "merge_fields fs = fold upsert fs []"

definition path_key :: bytes where "path_key = str ''path''"

definition redact_fields :: "bool \<Rightarrow> field list \<Rightarrow> field list" where
  "redact_fields redactPaths fs = (if redactPaths then map (\<lambda>(k, v). (k, if k = path_key then VStr redacted else v)) fs else fs)"

text \<open>\<^verbatim>\<open>%-5s\<close> and \<^verbatim>\<open>%-9s\<close>, for the ASCII names they are used on.\<close>

definition pad_right :: "nat \<Rightarrow> bytes \<Rightarrow> bytes" where
  "pad_right n s = s @ replicate (n - length s) space"

definition text_line :: "log_record \<Rightarrow> field list \<Rightarrow> bytes" where
  "text_line rec fs =
     rd_ts rec @ [space] @ pad_right 5 (Level_String (rd_level rec)) @ [space] @ pad_right 9 (rd_role rec) @ [space] @
     concat (map (\<lambda>k. case map_of fs k of None \<Rightarrow> [] | Some v \<Rightarrow> k @ str ''='' @ fmt_v v @ [space]) fieldOrder) @
     rd_msg rec @
     concat (map (\<lambda>(k, v). if k \<in> set fieldOrder then [] else [space] @ k @ str ''='' @ fmt_v v) fs) @ [newline]"

text \<open>The object handed to \<^verbatim>\<open>json.Marshal\<close>, and the line for an object that it refuses.\<close>

definition json_object :: "log_record \<Rightarrow> field list \<Rightarrow> (bytes \<rightharpoonup> fval)" where
  "json_object rec fs = [str ''ts'' \<mapsto> VStr (rd_ts rec), str ''level'' \<mapsto> VStr (Level_String (rd_level rec)), str ''msg'' \<mapsto> VStr (rd_msg rec),
     str ''role'' \<mapsto> VStr (rd_role rec)] ++ map_of (map (\<lambda>(k, v). (k, json_v v)) fs)"

definition json_failed :: "bytes \<Rightarrow> bytes" where
  "json_failed ts = str ''{'' @ [34] @ str ''ts'' @ [34] @ str '':'' @ [34] @ ts @ [34] @ str '','' @ [34] @ str ''level'' @ [34] @ str '':'' @
     [34] @ str ''ERROR'' @ [34] @ str '','' @ [34] @ str ''msg'' @ [34] @ str '':'' @ [34] @ str ''log marshal failed'' @ [34] @ str ''}''"

definition formatRecord :: "((bytes \<rightharpoonup> fval) \<Rightarrow> bytes option) \<Rightarrow> bytes \<Rightarrow> bool \<Rightarrow> log_record \<Rightarrow> bytes" where
  "formatRecord jsonMarshal format redactPaths rec =
     (let fs = redact_fields redactPaths (merge_fields (rd_fields rec)) in
      if format = str ''json'' then
        (case jsonMarshal (json_object rec fs) of None \<Rightarrow> json_failed (rd_ts rec) | Some b \<Rightarrow> b) @ [newline]
      else text_line rec fs)"

section \<open>What a record does not show\<close>

text \<open>Two values that differ at most in a secret, and two field lists with such values.\<close>

fun same_public :: "fval \<Rightarrow> fval \<Rightarrow> bool" where
  "same_public (VSecret a) (VSecret b) = True"
| "same_public v w = (v = w)"

lemma same_public_shown: "same_public v w \<Longrightarrow> fmt_v v = fmt_v w \<and> json_v v = json_v w"
  by (induction v w rule: same_public.induct) auto

text \<open>
  What the text of a record depends on: the keys, and a view of each value. The view is that of the value alone for
  secrets; with the paths redacted it hides the value of the field \<^verbatim>\<open>path\<close> as well.
\<close>

definition view :: "bool \<Rightarrow> field \<Rightarrow> bytes \<times> bytes \<times> fval" where
  "view hide f = (fst f, if hide \<and> fst f = path_key then (redacted, VStr redacted) else (fmt_v (snd f), json_v (snd f)))"

lemma upsert_view:
  "view h f = view h g \<Longrightarrow> map (view h) fs = map (view h) gs \<Longrightarrow> map (view h) (upsert f fs) = map (view h) (upsert g gs)"
proof -
  assume v: "view h f = view h g" and m: "map (view h) fs = map (view h) gs"
  have "fst ` set fs = fst ` set gs"
  proof -
    have "map fst (map (view h) fs) = map fst (map (view h) gs)" by (simp only: m)
    then have "map fst fs = map fst gs" by (simp add: view_def comp_def)
    then show ?thesis by (metis list.set_map)
  qed
  moreover have "fst f = fst g" using v by (simp add: view_def)
  moreover have "map (view h) (map (\<lambda>x. if fst x = fst f then (fst x, snd f) else x) fs) =
      map (view h) (map (\<lambda>x. if fst x = fst g then (fst x, snd g) else x) gs)"
    using m v by (induction fs gs rule: list_induct2') (auto simp: view_def split: if_splits)
  ultimately show ?thesis using v m by (auto simp: upsert_def)
qed

lemma merge_view:
  assumes "map (view h) fs = map (view h) gs"
  shows "map (view h) (merge_fields fs) = map (view h) (merge_fields gs)"
proof -
  have "map (view h) (fold upsert fs xs) = map (view h) (fold upsert gs ys)" if "map (view h) xs = map (view h) ys" for xs ys
    using assms that
  proof (induction fs gs arbitrary: xs ys rule: list_induct2')
    case (4 f fs g gs)
    then have "map (view h) (upsert f xs) = map (view h) (upsert g ys)" by (intro upsert_view) simp_all
    with 4 show ?case by simp
  qed simp_all
  then show ?thesis by (simp add: merge_fields_def)
qed

lemma redact_view: "map (view h) fs = map (view h) gs \<Longrightarrow> map (view False) (redact_fields h fs) = map (view False) (redact_fields h gs)"
  by (induction fs gs rule: list_induct2') (auto simp: redact_fields_def view_def split: if_splits)

lemma view_map_of:
  assumes "map (view False) fs = map (view False) gs"
  shows "map_option fmt_v (map_of fs k) = map_option fmt_v (map_of gs k)" "map_of (map (\<lambda>(k, v). (k, json_v v)) fs) = map_of (map (\<lambda>(k, v). (k, json_v v)) gs)"
  using assms by (induction fs gs rule: list_induct2') (auto simp: view_def split: if_splits)

lemma view_other:
  "map (view False) fs = map (view False) gs \<Longrightarrow> map (\<lambda>(k, v). if k \<in> K then [] else [space] @ k @ str ''='' @ fmt_v v) fs =
     map (\<lambda>(k, v). if k \<in> K then [] else [space] @ k @ str ''='' @ fmt_v v) gs"
  by (induction fs gs rule: list_induct2') (auto simp: view_def)

lemma view_format:
  assumes "map (view h) (rd_fields r) = map (view h) (rd_fields s)" "rd_ts r = rd_ts s" "rd_level r = rd_level s" "rd_role r = rd_role s" "rd_msg r = rd_msg s"
  shows "formatRecord jm format h r = formatRecord jm format h s"
proof -
  let ?f = "redact_fields h (merge_fields (rd_fields r))" and ?g = "redact_fields h (merge_fields (rd_fields s))"
  have v: "map (view False) ?f = map (view False) ?g" by (rule redact_view [OF merge_view [OF assms(1)]])
  have "(case map_of ?f k of None \<Rightarrow> [] | Some v \<Rightarrow> k @ str ''='' @ fmt_v v @ [space]) =
     (case map_of ?g k of None \<Rightarrow> [] | Some v \<Rightarrow> k @ str ''='' @ fmt_v v @ [space])" for k
    using view_map_of(1) [OF v, of k] by (cases "map_of ?f k"; cases "map_of ?g k") simp_all
  moreover have "map (\<lambda>(k, v). if k \<in> set fieldOrder then [] else [space] @ k @ str ''='' @ fmt_v v) ?f =
     map (\<lambda>(k, v). if k \<in> set fieldOrder then [] else [space] @ k @ str ''='' @ fmt_v v) ?g"
    by (rule view_other [OF v])
  ultimately have "text_line r ?f = text_line s ?g" using assms(2-5) by (simp add: text_line_def)
  moreover have "json_object r ?f = json_object s ?g" using view_map_of(2) [OF v] assms(2-5) by (simp add: json_object_def)
  ultimately show ?thesis using assms(2) by (simp add: formatRecord_def Let_def split: option.split)
qed

text \<open>
  No secret reaches the log: the text of a record, in either format, is the same for any content of the secrets
  among its fields.
\<close>

theorem secrets_not_logged:
  assumes "list_all2 (\<lambda>f g. fst f = fst g \<and> same_public (snd f) (snd g)) fs gs"
  shows "formatRecord jm format redactPaths (rec\<lparr>rd_fields := fs\<rparr>) = formatRecord jm format redactPaths (rec\<lparr>rd_fields := gs\<rparr>)"
proof (rule view_format)
  show "map (view redactPaths) (rd_fields (rec\<lparr>rd_fields := fs\<rparr>)) = map (view redactPaths) (rd_fields (rec\<lparr>rd_fields := gs\<rparr>))"
    using assms by (induction rule: list_all2_induct) (auto simp: view_def dest: same_public_shown)
qed simp_all

theorem secrets_not_logged_witness:
  "formatRecord (\<lambda>_. None) (str ''text'') False (zero_record\<lparr>rd_fields := [(str ''key'', VSecret [1, 2])]\<rparr>) =
   formatRecord (\<lambda>_. None) (str ''text'') False (zero_record\<lparr>rd_fields := [(str ''key'', VSecret [7])]\<rparr>)"
  by (rule secrets_not_logged) simp

text \<open>With the paths redacted, the value of the field \<^verbatim>\<open>path\<close> is not shown either.\<close>

theorem paths_not_logged:
  assumes "list_all2 (\<lambda>f g. fst f = fst g \<and> (fst f = path_key \<or> same_public (snd f) (snd g))) fs gs"
  shows "formatRecord jm format True (rec\<lparr>rd_fields := fs\<rparr>) = formatRecord jm format True (rec\<lparr>rd_fields := gs\<rparr>)"
proof (rule view_format)
  show "map (view True) (rd_fields (rec\<lparr>rd_fields := fs\<rparr>)) = map (view True) (rd_fields (rec\<lparr>rd_fields := gs\<rparr>))"
    using assms by (induction rule: list_all2_induct) (auto simp: view_def dest: same_public_shown)
qed simp_all

section \<open>The logger\<close>

text \<open>\<open>lg_out\<close>: what the writer got; \<open>lg_ch\<close>: the channel of the sink; \<open>lg_panicked\<close>: a send on the closed channel.\<close>

record logger =
  lg_level :: int
  lg_format :: bytes
  lg_role :: bytes
  lg_redactPaths :: bool
  lg_sync :: bool
  lg_out :: "bytes list"
  lg_ch :: "bytes list"
  lg_closed :: bool
  lg_panicked :: bool
  lg_drops :: int
  lg_ring :: ring

record obsConfig =
  ob_Level :: int
  ob_Format :: bytes
  ob_RingSize :: int
  ob_RedactPaths :: bool
  ob_Sync :: bool
  ob_ProgressInterval :: int
  ob_Role :: bytes

definition obs_withDefaults :: "obsConfig \<Rightarrow> obsConfig" where
  "obs_withDefaults c = c\<lparr>
     ob_Level := (if ob_Level c = 0 then LevelInfo else ob_Level c),
     ob_Format := (if ob_Format c = [] then str ''text'' else ob_Format c),
     ob_RingSize := (if ob_RingSize c \<le> 0 then 2048 else ob_RingSize c),
     ob_ProgressInterval := (if ob_ProgressInterval c \<le> 0 then 5000000000 else ob_ProgressInterval c)\<rparr>"

definition newLogger :: "obsConfig \<Rightarrow> logger" where
  "newLogger c = \<lparr>lg_level = ob_Level c, lg_format = ob_Format c, lg_role = ob_Role c, lg_redactPaths = ob_RedactPaths c, lg_sync = ob_Sync c,
     lg_out = [], lg_ch = [], lg_closed = False, lg_panicked = False, lg_drops = 0, lg_ring = newRing (ob_RingSize c)\<rparr>"

definition sinkDepth :: nat where "sinkDepth = 8192"

definition emit :: "bytes \<Rightarrow> logger \<Rightarrow> logger" where
  "emit b l = (if lg_sync l then l\<lparr>lg_out := lg_out l @ [b]\<rparr>
     else if lg_closed l then l\<lparr>lg_panicked := True\<rparr>
     else if length (lg_ch l) < sinkDepth then l\<lparr>lg_ch := lg_ch l @ [b]\<rparr>
     else l\<lparr>lg_drops := lg_drops l + 1\<rparr>)"

text \<open>One round of the writer goroutine; the end of the program's logging.\<close>

definition drain_one :: "logger \<Rightarrow> logger" where
  "drain_one l = (case lg_ch l of [] \<Rightarrow> l | b # bs \<Rightarrow> l\<lparr>lg_ch := bs, lg_out := lg_out l @ [b]\<rparr>)"

definition close_sink :: "logger \<Rightarrow> logger" where
  "close_sink l = (if lg_sync l then l else if lg_closed l then l\<lparr>lg_panicked := True\<rparr> else l\<lparr>lg_closed := True\<rparr>)"

definition enabled :: "int \<Rightarrow> logger \<Rightarrow> bool" where
  "enabled lvl l = (lvl \<le> lg_level l)"

definition format_for :: "((bytes \<rightharpoonup> fval) \<Rightarrow> bytes option) \<Rightarrow> logger \<Rightarrow> log_record \<Rightarrow> bytes" where
  "format_for jm l = formatRecord jm (lg_format l) (lg_redactPaths l)"

section \<open>Contexts\<close>

definition With :: "field list \<Rightarrow> (bytes \<rightharpoonup> fval) \<Rightarrow> (bytes \<rightharpoonup> fval)" where
  "With fs tf = fold (\<lambda>(k, v) m. m(k \<mapsto> v)) fs tf"

definition Ctx_Session :: "(bytes \<rightharpoonup> fval) \<Rightarrow> bytes" where
  "Ctx_Session tf = (case tf (str ''session'') of Some (VStr s) \<Rightarrow> s | _ \<Rightarrow> [])"

definition canonFields :: "(bytes \<rightharpoonup> fval) \<Rightarrow> field list" where
  "canonFields tf = List.map_filter (\<lambda>k. map_option (Pair k) (tf k)) traceOrder"

definition log_rec :: "bytes \<Rightarrow> bytes \<Rightarrow> (bytes \<rightharpoonup> fval) \<Rightarrow> int \<Rightarrow> bytes \<Rightarrow> field list \<Rightarrow> log_record" where
  "log_rec ts role tf lvl msg user = \<lparr>rd_ts = ts, rd_level = lvl, rd_role = role, rd_msg = msg, rd_fields = canonFields tf @ user\<rparr>"

definition log_one :: "((bytes \<rightharpoonup> fval) \<Rightarrow> bytes option) \<Rightarrow> log_record \<Rightarrow> logger \<Rightarrow> logger" where
  "log_one jm rec l =
     (let l = l\<lparr>lg_ring := ring_add rec (lg_ring l)\<rparr> in
      if enabled (rd_level rec) l then emit (format_for jm l rec) l else l)"

definition logAt :: "((bytes \<rightharpoonup> fval) \<Rightarrow> bytes option) \<Rightarrow> bytes \<Rightarrow> (bytes \<rightharpoonup> fval) \<Rightarrow> int \<Rightarrow> bytes \<Rightarrow> field list \<Rightarrow> logger \<Rightarrow> logger" where
  "logAt jm ts tf lvl msg fs l = log_one jm (log_rec ts (lg_role l) tf lvl msg fs) l"

text \<open>The text of an error; \<open>quote\<close> is \<^verbatim>\<open>strconv.Quote\<close>.\<close>

fun err_text :: "(bytes \<Rightarrow> bytes) \<Rightarrow> err \<Rightarrow> bytes" where
  "err_text quote (FaultErr code cl r op sb cause d) =
     code @ str '': '' @ str op @ (if sb \<noteq> [] then [space] @ quote sb else []) @ (if d \<noteq> [] then str '': '' @ d else []) @
     (case cause of None \<Rightarrow> [] | Some e \<Rightarrow> str '': '' @ err_text quote e)"
| "err_text quote (WrapErr t e) = str t @ str '': '' @ err_text quote e"
| "err_text quote (PlainErr t) = str t"

text \<open>The fields and the level with which a fault is logged (a fault's own context is left out).\<close>

definition fault_fields :: "(bytes \<Rightarrow> bytes) \<Rightarrow> err \<Rightarrow> field list" where
  "fault_fields quote f =
     [(str ''code'', VStr (f_Code f))] @ (if f_Subject f \<noteq> [] then [(str ''subject'', VStr (f_Subject f))] else []) @
     (if f_detail f \<noteq> [] then [(str ''detail'', VStr (f_detail f))] else []) @
     (case f_Cause f of None \<Rightarrow> [] | Some e \<Rightarrow> [(str ''err'', VStr (err_text quote e))]) @
     [(str ''action'', VStr (str (Action (f_Code f))))]"

definition LogFault :: "((bytes \<rightharpoonup> fval) \<Rightarrow> bytes option) \<Rightarrow> (bytes \<Rightarrow> bytes) \<Rightarrow> bytes \<Rightarrow> (bytes \<rightharpoonup> fval) \<Rightarrow> err option \<Rightarrow> logger \<Rightarrow> logger" where
  "LogFault jm quote ts tf e l = (case e of
     None \<Rightarrow> l
   | Some e \<Rightarrow> (case as_fault e of
       None \<Rightarrow> logAt jm ts tf LevelError (str ''error'') [(str ''err'', VStr (err_text quote e))] l
     | Some f \<Rightarrow>
         let msg = (if f_Op f = [] then str (Condition (f_Code f)) else str (f_Op f)) in
         logAt jm ts tf (if f_Class f = Warn then LevelWarn else LevelError) msg (fault_fields quote f) l))"

definition spanLevel :: "bytes \<Rightarrow> int" where
  "spanLevel name = (case map_of (map (\<lambda>(n, l). (str n, l)) [(''session'', LevelInfo), (''pair'', LevelInfo), (''handshake'', LevelDebug), (''scan'', LevelInfo),
     (''sort'', LevelDebug), (''group.hash'', LevelDebug), (''group.publish'', LevelTrace), (''group.decide'', LevelDebug), (''file.transfer'', LevelTrace),
     (''file.verify'', LevelTrace), (''file.publish'', LevelTrace), (''drain'', LevelDebug)]) name of Some l \<Rightarrow> l | None \<Rightarrow> LevelDebug)"

text \<open>The end of a span; \<open>dur\<close> is the rendered duration in milliseconds.\<close>

definition Start :: "((bytes \<rightharpoonup> fval) \<Rightarrow> bytes option) \<Rightarrow> bytes \<Rightarrow> (bytes \<rightharpoonup> fval) \<Rightarrow> bytes \<Rightarrow> bytes \<Rightarrow> bytes \<Rightarrow> field list \<Rightarrow> logger \<Rightarrow> logger" where
  "Start jm ts tf name dur outcome fs =
     logAt jm ts tf (spanLevel name) (name @ str '' span'')
       ([(str ''span'', VStr name), (str ''outcome'', VStr outcome), (str ''dur_ms'', VOther dur)] @ fs)"

definition DumpRing :: "((bytes \<rightharpoonup> fval) \<Rightarrow> bytes option) \<Rightarrow> bytes \<Rightarrow> logger \<Rightarrow> logger" where
  "DumpRing jm ts l =
     (let recs = snapshot (lg_ring l);
          header = ts @ [space] @ pad_right 5 (str ''ERROR'') @ [space] @ pad_right 9 (lg_role l) @ str '' trace ring dump records='' @
            FormatUint (length recs) 10 @ [newline]
      in fold emit (map (format_for jm l) recs) (emit header l))"

section \<open>What reaches the log\<close>

lemma log_one_frame [simp]:
  "lg_sync (log_one jm rec l) = lg_sync l" "lg_level (log_one jm rec l) = lg_level l" "lg_format (log_one jm rec l) = lg_format l"
  "lg_redactPaths (log_one jm rec l) = lg_redactPaths l" "lg_ring (log_one jm rec l) = ring_add rec (lg_ring l)"
  by (simp_all add: log_one_def emit_def Let_def)

lemma log_one_sync:
  "lg_sync l \<Longrightarrow> lg_out (log_one jm rec l) = lg_out l @ (if rd_level rec \<le> lg_level l then [format_for jm l rec] else [])"
  by (simp add: log_one_def emit_def enabled_def format_for_def Let_def)

text \<open>
  Whatever the level, the ring keeps the last records of the history; a synchronous logger writes exactly the
  records at or above its level, in order.
\<close>

theorem log_exact:
  fixes jm recs
  assumes "ob_Sync c"
  defines "l \<equiv> fold (log_one jm) recs (newLogger c)"
  shows "snapshot (lg_ring l) = drop (length recs - ring_size (ob_RingSize c)) recs \<and>
    lg_out l = map (formatRecord jm (ob_Format c) (ob_RedactPaths c)) (filter (\<lambda>r. rd_level r \<le> ob_Level c) recs)"
proof -
  have ring: "lg_ring (fold (log_one jm) recs l) = fold ring_add recs (lg_ring l)" for l
    by (induction recs arbitrary: l) simp_all
  have out: "lg_out (fold (log_one jm) recs l) = lg_out l @ map (format_for jm l) (filter (\<lambda>r. rd_level r \<le> lg_level l) recs)"
    if "lg_sync l" for l
    using that by (induction recs arbitrary: l) (auto simp: log_one_sync format_for_def)
  show ?thesis using ring [of "newLogger c"] out [of "newLogger c"] assms(1)
    by (simp add: l_def newLogger_def ring_snapshot format_for_def)
qed

theorem log_exact_witness:
  "lg_out (fold (log_one (\<lambda>_. None)) [zero_record\<lparr>rd_level := LevelWarn\<rparr>, zero_record\<lparr>rd_level := LevelTrace\<rparr>]
     (newLogger \<lparr>ob_Level = LevelInfo, ob_Format = str ''text'', ob_RingSize = 0, ob_RedactPaths = False, ob_Sync = True, ob_ProgressInterval = 0, ob_Role = []\<rparr>))
   = [formatRecord (\<lambda>_. None) (str ''text'') False (zero_record\<lparr>rd_level := LevelWarn\<rparr>)]"
  using log_exact [of "\<lparr>ob_Level = LevelInfo, ob_Format = str ''text'', ob_RingSize = 0, ob_RedactPaths = False, ob_Sync = True,
      ob_ProgressInterval = 0, ob_Role = []\<rparr>" "\<lambda>_. None" "[zero_record\<lparr>rd_level := LevelWarn\<rparr>, zero_record\<lparr>rd_level := LevelTrace\<rparr>]"]
  by (simp add: level_defs)

text \<open>The sink without \<^verbatim>\<open>--log-sync\<close>: what the goroutines do to it, in any order.\<close>

datatype sink_event = Emit bytes | Write | Close

fun sink_step :: "sink_event \<Rightarrow> logger \<Rightarrow> logger" where
  "sink_step (Emit b) l = emit b l"
| "sink_step Write l = drain_one l"
| "sink_step Close l = close_sink l"

fun emitted :: "sink_event list \<Rightarrow> bytes list" where
  "emitted [] = []"
| "emitted (Emit b # evs) = b # emitted evs"
| "emitted (_ # evs) = emitted evs"

lemma emitted_append [simp]: "emitted (evs @ evs') = emitted evs @ emitted evs'"
  by (induction evs rule: emitted.induct) auto

text \<open>
  The sink never blocks and loses nothing silently: until it is closed, every line handed to it is written, or waits
  in the channel, or is counted as dropped, and the lines that are written keep their order.
\<close>

theorem sink_accounts:
  fixes evs
  assumes "\<not> ob_Sync c"
  defines "l \<equiv> fold sink_step evs (newLogger c)"
  shows "lg_panicked l \<or> int (length (emitted evs)) = int (length (lg_out l @ lg_ch l)) + lg_drops l \<and>
    subseq (lg_out l @ lg_ch l) (emitted evs) \<and> length (lg_ch l) \<le> sinkDepth"
proof -
  have "\<not> lg_sync l \<and> (lg_panicked l \<or> int (length (emitted evs)) = int (length (lg_out l @ lg_ch l)) + lg_drops l \<and>
    subseq (lg_out l @ lg_ch l) (emitted evs) \<and> length (lg_ch l) \<le> sinkDepth)"
    unfolding l_def
  proof (induction evs rule: rev_induct)
    case Nil
    then show ?case using assms(1) by (simp add: newLogger_def)
  next
    case (snoc ev evs)
    then show ?case
    proof (cases ev)
      case (Emit b)
      with snoc show ?thesis by (auto simp: emit_def list_emb_append_mono subseq_rev_drop_many intro: list_emb_append2
            simp flip: append_assoc)
    qed (auto simp: drain_one_def close_sink_def split: list.splits)
  qed
  then show ?thesis by blast
qed

definition sample_obs :: "bool \<Rightarrow> bool \<Rightarrow> obsConfig" where
  "sample_obs sync redactPaths = \<lparr>ob_Level = LevelInfo, ob_Format = str ''text'', ob_RingSize = 0, ob_RedactPaths = redactPaths, ob_Sync = sync,
     ob_ProgressInterval = 0, ob_Role = []\<rparr>"

theorem sink_accounts_witness:
  "\<exists>l. l = fold sink_step [Emit [1], Write, Emit [2]] (newLogger (sample_obs False False)) \<and> lg_drops l = 0 \<and> length (lg_out l @ lg_ch l) = 2"
proof -
  let ?l = "fold sink_step [Emit [1], Write, Emit [2]] (newLogger (sample_obs False False))"
  have "\<not> ob_Sync (sample_obs False False)" by (simp add: sample_obs_def)
  from sink_accounts [OF this, of "[Emit [1], Write, Emit [2]]"]
  have "lg_panicked ?l \<or> 2 = int (length (lg_out ?l @ lg_ch ?l)) + lg_drops ?l" by auto
  moreover have "lg_panicked ?l = False" "lg_drops ?l = 0"
    by (simp_all add: newLogger_def sample_obs_def emit_def drain_one_def sinkDepth_def)
  ultimately show ?thesis by simp
qed

text \<open>A goroutine that still logs after the sink was closed panics: the select has no protection against that.\<close>

lemma emit_after_close_panics: "\<not> lg_sync l \<Longrightarrow> lg_panicked (emit b (close_sink l))"
  by (simp add: emit_def close_sink_def)

text \<open>Redaction knows the field \<^verbatim>\<open>path\<close> only: a fault is logged with its path as the subject.\<close>

lemma redaction_misses_subject:
  defines "line \<equiv> \<lambda>sb. formatRecord (\<lambda>_. None) (str ''text'') True (log_rec [] [] Map.empty LevelError [] (fault_fields (\<lambda>b. b) (New E1004 ''open source'' sb None)))"
  shows "line (str ''/home/alice'') \<noteq> line (str ''/home/bob'')"
proof -
  have "length (line (str ''/home/alice'')) = length (line (str ''/home/bob'')) + 2"
    unfolding line_def formatRecord_def
    by (simp add: log_rec_def fault_fields_def canonFields_def New_def text_line_def redact_fields_def merge_fields_def upsert_def traceOrder_def
        fieldOrder_def path_key_def Let_def map_filter_def)
  then show ?thesis by auto
qed

section \<open>Goroutines\<close>

text \<open>
  How a function started with \<^verbatim>\<open>obs.Go\<close> ends, and the error that is given to the fatal handler of the process, which
  exits with its code.
\<close>

datatype go_end = GoPanic bytes | GoReturn "err option"

definition obs_Go :: "bytes \<Rightarrow> go_end \<Rightarrow> err option" where
  "obs_Go name r = (case r of
     GoPanic m \<Rightarrow> Some (Newf E9001 ''goroutine'' name None (str ''panic: '' @ m))
   | GoReturn None \<Rightarrow> None
   | GoReturn (Some e) \<Rightarrow> if IsFatal (Some e) then Some e else None)"

end
