(* ===== verification/Go_Flag.thy ===== *)
theory Go_Flag
  imports Plan Go_Strings
begin

text \<open>
  What the program uses of Go's \<^verbatim>\<open>flag\<close> package: a flag set with typed values, the parser of an argument list, and the
  flags set so far. The text of a duration is read by a parameter.
\<close>

section \<open>Values\<close>

text \<open>\<^verbatim>\<open>strconv.ParseBool\<close>.\<close>

definition ParseBool :: "bytes \<Rightarrow> bool option" where
  "ParseBool s =
     (if s \<in> set (map str [''1'', ''t'', ''T'', ''true'', ''TRUE'', ''True'']) then Some True
      else if s \<in> set (map str [''0'', ''f'', ''F'', ''false'', ''FALSE'', ''False'']) then Some False
      else None)"

text \<open>
  \<^verbatim>\<open>strconv.ParseInt(s, 0, 64)\<close>: a sign, a base prefix, and underscores between digits (\<open>saw\<close>: 0 at the beginning, 1 after
  a digit or a prefix, 2 after an underscore, 3 after anything else).
\<close>

definition lower_ascii :: "byte \<Rightarrow> byte" where
  "lower_ascii c = (if 65 \<le> c \<and> c \<le> 90 then c + 32 else c)"

fun underscore_scan :: "bool \<Rightarrow> nat \<Rightarrow> bytes \<Rightarrow> bool" where
  "underscore_scan hex saw [] = (saw \<noteq> 2)"
| "underscore_scan hex saw (c # cs) =
     (if 48 \<le> c \<and> c \<le> 57 \<or> hex \<and> 97 \<le> lower_ascii c \<and> lower_ascii c \<le> 102 then underscore_scan hex 1 cs
      else if c = ch (CHR ''_'') then (if saw \<noteq> 1 then False else underscore_scan hex 2 cs)
      else if saw = 2 then False
      else underscore_scan hex 3 cs)"

definition base_prefix :: "bytes \<Rightarrow> nat" where
  "base_prefix u = (if length u \<ge> 2 \<and> u ! 0 = ch (CHR ''0'') then
      (if lower_ascii (u ! 1) = ch (CHR ''b'') then 2 else if lower_ascii (u ! 1) = ch (CHR ''o'') then 8
       else if lower_ascii (u ! 1) = ch (CHR ''x'') then 16 else 0) else 0)"

definition underscoreOK :: "bytes \<Rightarrow> bool" where
  "underscoreOK u = (if base_prefix u \<noteq> 0 then underscore_scan (base_prefix u = 16) 1 (drop 2 u) else underscore_scan False 0 u)"

definition ParseUint0 :: "bytes \<Rightarrow> nat option" where
  "ParseUint0 u =
     (if u = [] then None
      else let
        (b, ds) = (if u ! 0 = ch (CHR ''0'') then
            (if length u \<ge> 3 \<and> base_prefix u \<noteq> 0 then (base_prefix u, drop 2 u) else (8, drop 1 u))
          else (10, u));
        ns = digit_values b (filter (\<lambda>c. c \<noteq> ch (CHR ''_'')) ds)
      in case ns of
           None \<Rightarrow> None
         | Some ns \<Rightarrow> if undigits b ns \<ge> 2 ^ 64 \<or> ch (CHR ''_'') \<in> set ds \<and> \<not> underscoreOK u then None else Some (undigits b ns))"

definition ParseInt0 :: "bytes \<Rightarrow> int option" where
  "ParseInt0 s =
     (let neg = (s \<noteq> [] \<and> hd s = ch (CHR ''-''));
          u = (if s \<noteq> [] \<and> (hd s = ch (CHR ''-'') \<or> hd s = ch (CHR ''+'')) then tl s else s)
      in case ParseUint0 u of
           None \<Rightarrow> None
         | Some n \<Rightarrow> if neg then (if n \<le> 2 ^ 63 then Some (- int n) else None)
                     else (if n < 2 ^ 63 then Some (int n) else None))"

datatype flag_kind = KBool | KInt | KDuration | KString | KGlob bool

datatype flag_val = VBool bool | VNum int | VText bytes

text \<open>The value of a flag from its text; \<open>dur\<close> is \<^verbatim>\<open>time.ParseDuration\<close>.\<close>

definition convert :: "(bytes \<Rightarrow> int option) \<Rightarrow> flag_kind \<Rightarrow> bytes \<Rightarrow> flag_val option" where
  "convert dur k v = (case k of
     KBool \<Rightarrow> map_option VBool (ParseBool v)
   | KInt \<Rightarrow> map_option VNum (ParseInt0 v)
   | KDuration \<Rightarrow> map_option VNum (dur v)
   | KString \<Rightarrow> Some (VText v)
   | KGlob inc \<Rightarrow> if v = [] then None else Some (VText []))"

section \<open>Flag sets\<close>

text \<open>A repeatable glob goes to the shared list of rules; every other flag holds its last value.\<close>

record flagset =
  fs_val :: "bytes \<rightharpoonup> flag_val"
  fs_actual :: "bytes set"
  fs_globs :: "FilterRule list"

datatype flag_err = BadSyntax bytes | HelpWanted | NotDefined bytes | NeedsArgument bytes | BadValue bytes bytes

type_synonym formals = "(bytes \<times> flag_kind \<times> flag_val) list"

definition kind_of :: "formals \<Rightarrow> bytes \<Rightarrow> flag_kind option" where
  "kind_of fm name = map_option fst (map_of fm name)"

definition newFlagSet :: "formals \<Rightarrow> flagset" where
  "newFlagSet fm = \<lparr>fs_val = map_option snd \<circ> map_of fm, fs_actual = {}, fs_globs = []\<rparr>"

definition setFlag :: "(bytes \<Rightarrow> int option) \<Rightarrow> formals \<Rightarrow> bytes \<Rightarrow> bytes \<Rightarrow> flagset \<Rightarrow> flag_err + flagset" where
  "setFlag dur fm name v fs = (case kind_of fm name of
     None \<Rightarrow> Inl (NotDefined name)
   | Some k \<Rightarrow> (case convert dur k v of
       None \<Rightarrow> Inl (BadValue name v)
     | Some x \<Rightarrow> Inr (fs\<lparr>fs_val := (fs_val fs)(name \<mapsto> x), fs_actual := insert name (fs_actual fs),
           fs_globs := (case k of KGlob inc \<Rightarrow> fs_globs fs @ [\<lparr>fr_Include = inc, fr_Pattern = v\<rparr>] | _ \<Rightarrow> fs_globs fs)\<rparr>)))"

text \<open>A name with its value after an equals sign, which cannot be the first character.\<close>

definition splitEq :: "bytes \<Rightarrow> bytes \<times> bytes option" where
  "splitEq name = (let k = length (takeWhile (\<lambda>c. c \<noteq> ch (CHR ''='')) (tl name)) in
     if Suc k < length name then (take (Suc k) name, Some (drop (Suc (Suc k)) name)) else (name, None))"

text \<open>\<^verbatim>\<open>FlagSet.parseOne\<close>: whether a flag was seen, the flags, and the arguments that are left.\<close>

definition parseOne :: "(bytes \<Rightarrow> int option) \<Rightarrow> formals \<Rightarrow> bytes list \<Rightarrow> flagset \<Rightarrow> flag_err + bool \<times> flagset \<times> bytes list" where
  "parseOne dur fm args fs = (case args of
     [] \<Rightarrow> Inr (False, fs, [])
   | s # rest \<Rightarrow>
       if length s < 2 \<or> s ! 0 \<noteq> ch (CHR ''-'') then Inr (False, fs, args)
       else if s = str ''--'' then Inr (False, fs, rest)
       else let body = (if s ! 1 = ch (CHR ''-'') then drop 2 s else drop 1 s) in
         if body = [] \<or> hd body = ch (CHR ''-'') \<or> hd body = ch (CHR ''='') then Inl (BadSyntax s)
         else let (name, value) = splitEq body;
                  store = (\<lambda>v rest. map_sum id (\<lambda>fs'. (True, fs', rest)) (setFlag dur fm name v fs))
              in case kind_of fm name of
                   None \<Rightarrow> Inl (if name = str ''help'' \<or> name = str ''h'' then HelpWanted else NotDefined name)
                 | Some k \<Rightarrow>
                     if k = KBool then store (case value of None \<Rightarrow> str ''true'' | Some v \<Rightarrow> v) rest
                     else (case value of
                       Some v \<Rightarrow> store v rest
                     | None \<Rightarrow> (case rest of [] \<Rightarrow> Inl (NeedsArgument name) | v # rest' \<Rightarrow> store v rest')))"

lemma map_sum_Inr: "map_sum id f x = Inr y \<longleftrightarrow> (\<exists>z. x = Inr z \<and> y = f z)"
  by (cases x) auto

lemma parseOne_cases:
  assumes "parseOne dur fm args fs = Inr (seen, fs', args')"
  obtains "\<not> seen" "fs' = fs"
    | name v where "seen" "setFlag dur fm name v fs = Inr fs'" "length args' < length args"
  using assms by (auto simp: parseOne_def Let_def map_sum_Inr split: list.splits if_splits option.splits prod.splits)

text \<open>\<^verbatim>\<open>FlagSet.Parse\<close>.\<close>

function parseArgs :: "(bytes \<Rightarrow> int option) \<Rightarrow> formals \<Rightarrow> bytes list \<Rightarrow> flagset \<Rightarrow> flag_err + flagset \<times> bytes list" where
  "parseArgs dur fm args fs = (case parseOne dur fm args fs of
     Inl e \<Rightarrow> Inl e
   | Inr (seen, fs', args') \<Rightarrow> if seen then parseArgs dur fm args' fs' else Inr (fs', args'))"
  by auto
termination
  by (relation "measure (\<lambda>(dur, fm, args, fs). length args)") (auto elim: parseOne_cases)

declare parseArgs.simps [simp del]

section \<open>What a flag set holds\<close>

text \<open>A flag that was not set has its default; one that was set has a value of its kind.\<close>

definition val_ok :: "flag_kind \<Rightarrow> flag_val \<Rightarrow> bool" where
  "val_ok k v = (case (k, v) of (KBool, VBool _) \<Rightarrow> True | (KInt, VNum _) \<Rightarrow> True | (KDuration, VNum _) \<Rightarrow> True | (KString, VText _) \<Rightarrow> True
     | (KGlob _, VText _) \<Rightarrow> True | _ \<Rightarrow> False)"

definition flags_ok :: "formals \<Rightarrow> flagset \<Rightarrow> bool" where
  "flags_ok fm fs \<longleftrightarrow> fs_actual fs \<subseteq> fst ` set fm \<and>
     (\<forall>name. name \<notin> fs_actual fs \<longrightarrow> fs_val fs name = map_option snd (map_of fm name)) \<and>
     (\<forall>name k d. map_of fm name = Some (k, d) \<longrightarrow> val_ok k d \<longrightarrow> (\<exists>v. fs_val fs name = Some v \<and> val_ok k v))"

lemma convert_ok: "convert dur k v = Some x \<Longrightarrow> val_ok k x"
  by (auto simp: convert_def val_ok_def split: flag_kind.splits if_splits)

lemma newFlagSet_ok: "flags_ok fm (newFlagSet fm)"
  by (auto simp: flags_ok_def newFlagSet_def)

lemma setFlag_ok:
  assumes "setFlag dur fm name v fs = Inr fs'" "flags_ok fm fs"
  shows "flags_ok fm fs'" "fs_actual fs' = insert name (fs_actual fs)"
    "\<And>n. n \<noteq> name \<Longrightarrow> fs_val fs' n = fs_val fs n"
    "\<exists>k. kind_of fm name = Some k \<and> fs_val fs' name = convert dur k v"
proof -
  obtain k d x where k: "map_of fm name = Some (k, d)" "convert dur k v = Some x"
    and fs': "fs_val fs' = (fs_val fs)(name \<mapsto> x)" "fs_actual fs' = insert name (fs_actual fs)"
    using assms(1) by (auto simp: setFlag_def kind_of_def split: option.splits)
  have "name \<in> fst ` set fm" using k(1) by (metis map_of_SomeD fst_conv image_eqI)
  then show "flags_ok fm fs'" using assms(2) fs' k convert_ok [OF k(2)] by (auto simp: flags_ok_def)
  show "fs_actual fs' = insert name (fs_actual fs)" "\<And>n. n \<noteq> name \<Longrightarrow> fs_val fs' n = fs_val fs n"
    "\<exists>k. kind_of fm name = Some k \<and> fs_val fs' name = convert dur k v"
    using fs' k by (auto simp: kind_of_def)
qed

lemma parseArgs_ok: "parseArgs dur fm args fs = Inr (fs', rest) \<Longrightarrow> flags_ok fm fs \<Longrightarrow> flags_ok fm fs'"
proof (induction dur fm args fs rule: parseArgs.induct)
  case (1 dur fm args fs)
  obtain seen f1 a1 where p: "parseOne dur fm args fs = Inr (seen, f1, a1)"
    using 1(2) by (auto simp: parseArgs.simps [of dur fm args] split: sum.splits)
  from p show ?case
  proof (cases rule: parseOne_cases)
    case 1
    then show ?thesis using p "1.prems" by (simp add: parseArgs.simps [of dur fm args])
  next
    case (2 name v)
    then show ?thesis using p 1 setFlag_ok(1) [OF 2(2)] by (auto simp: parseArgs.simps [of dur fm args])
  qed
qed

end
