(* ===== verification/Command_Line.thy ===== *)
theory Command_Line
  imports Session_Props Obs_Log Go_Flag
begin

text \<open>
  The command line (\<^verbatim>\<open>cli.go\<close>, \<^verbatim>\<open>main.go\<close>): the choice between sender and receiver, the flags with their defaults and
  their environment variables, the range checks, the configurations handed to the two sessions, and the exit code.
  The text of the usage and the start of the logger are left out.
\<close>

section \<open>Mode\<close>

fun hasLinkFlag :: "bytes list \<Rightarrow> bool" where
  "hasLinkFlag [] = False"
| "hasLinkFlag (a # args) =
     (if a = str ''--'' then False
      else if a = str ''--link'' \<or> a = str ''-link'' \<or> HasPrefix a (str ''--link='') \<or> HasPrefix a (str ''-link='') then True
      else hasLinkFlag args)"

text \<open>The scan for help and version that comes first.\<close>

fun wantsText :: "bytes list \<Rightarrow> bool" where
  "wantsText [] = False"
| "wantsText (a # args) =
     (if a \<in> set (map str [''--help'', ''-h'', ''-help'', ''--version'', ''-version'']) then True
      else if a = str ''--'' then False
      else wantsText args)"

section \<open>Flags\<close>

record cli_env =
  cl_lower :: "bytes \<Rightarrow> bytes"
  cl_dur :: "bytes \<Rightarrow> int option"
  cl_env :: "bytes \<Rightarrow> bytes option"
  cl_numCPU :: int
  cl_version :: bytes

definition flag_def :: "string \<Rightarrow> flag_kind \<Rightarrow> flag_val \<Rightarrow> bytes \<times> flag_kind \<times> flag_val" where
  "flag_def n k d = (str n, k, d)"

definition registerCommon :: formals where
  "registerCommon = [
     flag_def ''v'' KBool (VBool False), flag_def ''vv'' KBool (VBool False), flag_def ''q'' KBool (VBool False), flag_def ''qq'' KBool (VBool False),
     flag_def ''log-level'' KString (VText []), flag_def ''log-format'' KString (VText (str ''text'')), flag_def ''log-file'' KString (VText []),
     flag_def ''log-ring'' KInt (VNum 2048), flag_def ''log-sync'' KBool (VBool False), flag_def ''redact-paths'' KBool (VBool False),
     flag_def ''progress-interval'' KDuration (VNum (5 * second)), flag_def ''hash'' KString (VText (str ''md5'')),
     flag_def ''quick'' KBool (VBool False), flag_def ''no-cache'' KBool (VBool False), flag_def ''chunk-size'' KInt (VNum (2 ^ 20)),
     flag_def ''socket-buffer'' KInt (VNum (4 * 2 ^ 20)), flag_def ''max-retries'' KInt (VNum 3),
     flag_def ''connect-timeout'' KDuration (VNum (10 * second)), flag_def ''handshake-timeout'' KDuration (VNum (5 * second)),
     flag_def ''shutdown-grace'' KDuration (VNum (5 * second))]"

definition sender_formals :: "int \<Rightarrow> formals" where
  "sender_formals numCPU = registerCommon @ [
     flag_def ''bind'' KString (VText []), flag_def ''port'' KInt (VNum 0), flag_def ''pair-timeout'' KDuration (VNum (600 * second)),
     flag_def ''max-pair-attempts'' KInt (VNum 5), flag_def ''follow-symlinks'' KBool (VBool False), flag_def ''one-file-system'' KBool (VBool True),
     flag_def ''hardlinks'' KBool (VBool True), flag_def ''keep-system-files'' KBool (VBool False), flag_def ''hash-workers'' KInt (VNum (min 8 numCPU)),
     flag_def ''read-concurrency'' KInt (VNum 4), flag_def ''group-bytes'' KInt (VNum (512 * 2 ^ 20)), flag_def ''spill-threshold'' KInt (VNum 500000),
     flag_def ''drain-timeout'' KDuration (VNum (60 * second)), flag_def ''compact-code'' KBool (VBool False),
     flag_def ''include'' (KGlob True) (VText []), flag_def ''exclude'' (KGlob False) (VText [])]"

definition receiver_formals :: "int \<Rightarrow> formals" where
  "receiver_formals numCPU = registerCommon @ [
     flag_def ''link'' KString (VText []), flag_def ''dest'' KString (VText []), flag_def ''dry-run'' KBool (VBool False), flag_def ''channels'' KInt (VNum 4),
     flag_def ''min-channels'' KInt (VNum 4), flag_def ''max-channels'' KInt (VNum 32), flag_def ''pipeline-depth'' KInt (VNum 2),
     flag_def ''group-credit'' KInt (VNum 4), flag_def ''decide-workers'' KInt (VNum (min 8 numCPU)), flag_def ''no-fsync'' KBool (VBool False),
     flag_def ''checkpoint-interval'' KInt (VNum (64 * 2 ^ 20)), flag_def ''resume-window'' KDuration (VNum (60 * second)),
     flag_def ''drain-timeout'' KDuration (VNum (60 * second)), flag_def ''stall-timeout'' KDuration (VNum (60 * second)),
     flag_def ''allow-unsafe-links'' KBool (VBool False), flag_def ''owner'' KBool (VBool False)]"

definition get_bool :: "flagset \<Rightarrow> string \<Rightarrow> bool" where
  "get_bool fs n = (case fs_val fs (str n) of Some (VBool b) \<Rightarrow> b | _ \<Rightarrow> False)"

definition get_num :: "flagset \<Rightarrow> string \<Rightarrow> int" where
  "get_num fs n = (case fs_val fs (str n) of Some (VNum i) \<Rightarrow> i | _ \<Rightarrow> 0)"

definition get_text :: "flagset \<Rightarrow> string \<Rightarrow> bytes" where
  "get_text fs n = (case fs_val fs (str n) of Some (VText t) \<Rightarrow> t | _ \<Rightarrow> [])"

section \<open>Environment variables\<close>

definition env_name :: "bytes \<Rightarrow> bytes" where
  "env_name name = str ''ESYNC_'' @ map (\<lambda>c. if c = ch (CHR ''-'') then ch (CHR ''_'') else if 97 \<le> c \<and> c \<le> 122 then c - 32 else c) name"

text \<open>The flags are visited in the order of their names; \<open>given\<close> are those of the command line.\<close>

fun env_loop :: "(bytes \<Rightarrow> int option) \<Rightarrow> formals \<Rightarrow> (bytes \<Rightarrow> bytes option) \<Rightarrow> bytes set \<Rightarrow> bytes list \<Rightarrow> flagset \<Rightarrow> flag_err + flagset" where
  "env_loop dur fm env given [] fs = Inr fs"
| "env_loop dur fm env given (name # names) fs =
     (if name \<in> given then env_loop dur fm env given names fs
      else case env (env_name name) of
        None \<Rightarrow> env_loop dur fm env given names fs
      | Some v \<Rightarrow> (case setFlag dur fm name v fs of Inl e \<Rightarrow> Inl e | Inr fs \<Rightarrow> env_loop dur fm env given names fs))"

definition applyEnv :: "(bytes \<Rightarrow> int option) \<Rightarrow> formals \<Rightarrow> (bytes \<Rightarrow> bytes option) \<Rightarrow> flagset \<Rightarrow> flag_err + flagset" where
  "applyEnv dur fm env fs = env_loop dur fm env (fs_actual fs) (sort (map fst fm)) fs"

definition explicitlySet :: "flagset \<Rightarrow> string \<Rightarrow> bool" where
  "explicitlySet fs name = (str name \<in> fs_actual fs)"

section \<open>Checks\<close>

definition resolveLevel :: "(bytes \<Rightarrow> bytes) \<Rightarrow> flagset \<Rightarrow> err + int" where
  "resolveLevel lower fs =
     (if get_text fs ''log-level'' \<noteq> [] then ParseLevel lower (get_text fs ''log-level'')
      else if get_bool fs ''vv'' then Inr LevelTrace
      else if get_bool fs ''v'' then Inr LevelDebug
      else if get_bool fs ''qq'' then Inr LevelError
      else if get_bool fs ''q'' then Inr LevelWarn
      else Inr LevelInfo)"

definition atLeast :: "string \<times> int \<times> int \<Rightarrow> err option" where
  "atLeast c = (case c of (name, v, m) \<Rightarrow>
     if v < m then Some (Newf E1007 ''parse flags'' (str name) None
       (str ''--'' @ str name @ str '' must be >= '' @ FormatInt m @ str '', got '' @ FormatInt v)) else None)"

definition parseHash :: "(bytes \<Rightarrow> bytes) \<Rightarrow> bytes \<Rightarrow> err + Algo" where
  "parseHash lower s = (case Parse_algo lower s of
     Inl c \<Rightarrow> Inl (New c ''parse hash'' s None)
   | Inr a \<Rightarrow> if a = BLAKE3 then Inl (Newf E1007 ''parse flags'' (str ''hash'') None
       (str ''--hash blake3 is reserved but not implemented; use md5 or sha256'')) else Inr a)"

definition common_checks :: "flagset \<Rightarrow> (string \<times> int \<times> int) list" where
  "common_checks fs = [(''log-ring'', get_num fs ''log-ring'', 1), (''chunk-size'', get_num fs ''chunk-size'', 4096),
     (''socket-buffer'', get_num fs ''socket-buffer'', 4096), (''max-retries'', get_num fs ''max-retries'', 0)]"

definition sender_checks :: "flagset \<Rightarrow> (string \<times> int \<times> int) list" where
  "sender_checks fs = common_checks fs @ [(''port'', wrap64 (get_num fs ''port'' + 1), 1),
     (''max-pair-attempts'', get_num fs ''max-pair-attempts'', 1), (''hash-workers'', get_num fs ''hash-workers'', 1),
     (''read-concurrency'', get_num fs ''read-concurrency'', 1), (''group-bytes'', get_num fs ''group-bytes'', 2 ^ 20)]"

definition receiver_checks :: "flagset \<Rightarrow> (string \<times> int \<times> int) list" where
  "receiver_checks fs = common_checks fs @ [(''channels'', get_num fs ''channels'', 1), (''min-channels'', get_num fs ''min-channels'', 1),
     (''max-channels'', get_num fs ''max-channels'', get_num fs ''min-channels''), (''pipeline-depth'', get_num fs ''pipeline-depth'', 1),
     (''group-credit'', get_num fs ''group-credit'', 1), (''decide-workers'', get_num fs ''decide-workers'', 1)]"

section \<open>Configurations\<close>

text \<open>A usage error: its exit code is 3. \<open>parse_all\<close> is what both modes do first.\<close>

definition usageErr :: nat where "usageErr = 3"

definition parse_all :: "cli_env \<Rightarrow> formals \<Rightarrow> bytes list \<Rightarrow> (flagset \<times> bytes list) option" where
  "parse_all env fm args = (case parseArgs (cl_dur env) fm args (newFlagSet fm) of
     Inl e \<Rightarrow> None
   | Inr (fs, rest) \<Rightarrow> (case applyEnv (cl_dur env) fm (cl_env env) fs of Inl e \<Rightarrow> None | Inr fs \<Rightarrow> Some (fs, rest)))"

definition settle :: "cli_env \<Rightarrow> flagset \<Rightarrow> (string \<times> int \<times> int) list \<Rightarrow> (int \<times> Algo) option" where
  "settle env fs checks = (case resolveLevel (cl_lower env) fs of
     Inl e \<Rightarrow> None
   | Inr lvl \<Rightarrow> (case parseHash (cl_lower env) (get_text fs ''hash'') of
       Inl e \<Rightarrow> None
     | Inr alg \<Rightarrow> if list_all (\<lambda>c. atLeast c = None) checks then Some (lvl, alg) else None))"

definition cli_obsConfig :: "flagset \<Rightarrow> string \<Rightarrow> int \<Rightarrow> obsConfig" where
  "cli_obsConfig fs role lvl = \<lparr>ob_Level = lvl, ob_Format = get_text fs ''log-format'', ob_RingSize = get_num fs ''log-ring'',
     ob_RedactPaths = get_bool fs ''redact-paths'', ob_Sync = get_bool fs ''log-sync'', ob_ProgressInterval = get_num fs ''progress-interval'',
     ob_Role = str role\<rparr>"

definition sender_config :: "cli_env \<Rightarrow> flagset \<Rightarrow> bytes \<Rightarrow> Algo \<Rightarrow> sConfig" where
  "sender_config env fs path alg = \<lparr>sc_SourcePath = path, sc_Bind = get_text fs ''bind'', sc_Port = get_num fs ''port'', sc_Version = cl_version env,
     sc_MaxChannels = 32, sc_PairTimeout = get_num fs ''pair-timeout'', sc_MaxPairAttempts = get_num fs ''max-pair-attempts'',
     sc_HandshakeTimeout = get_num fs ''handshake-timeout'', sc_DrainTimeout = get_num fs ''drain-timeout'',
     sc_ProgressInterval = get_num fs ''progress-interval'', sc_GroupBytes = get_num fs ''group-bytes'', sc_HashAlg = alg,
     sc_HashWorkers = get_num fs ''hash-workers'', sc_ReadConcurrency = get_num fs ''read-concurrency'', sc_ChunkSize = get_num fs ''chunk-size'',
     sc_SocketBuffer = get_num fs ''socket-buffer'', sc_CompactCode = get_bool fs ''compact-code'', sc_FollowSymlinks = get_bool fs ''follow-symlinks'',
     sc_OneFileSystem = get_bool fs ''one-file-system'', sc_Hardlinks = get_bool fs ''hardlinks'', sc_KeepSystemFiles = get_bool fs ''keep-system-files'',
     sc_Quick = get_bool fs ''quick'', sc_NoCache = get_bool fs ''no-cache'', sc_Filters = fs_globs fs\<rparr>"

definition senderConfig :: "cli_env \<Rightarrow> bytes list \<Rightarrow> nat + sConfig \<times> int" where
  "senderConfig env args = (case parse_all env (sender_formals (cl_numCPU env)) args of
     None \<Rightarrow> Inl usageErr
   | Some (fs, rest) \<Rightarrow> (case rest of
       [path] \<Rightarrow> (case settle env fs (sender_checks fs) of
         None \<Rightarrow> Inl usageErr
       | Some (lvl, alg) \<Rightarrow> Inr (sender_config env fs path alg, lvl))
     | _ \<Rightarrow> Inl usageErr))"

definition receiver_config :: "cli_env \<Rightarrow> flagset \<Rightarrow> Algo \<Rightarrow> rConfig" where
  "receiver_config env fs alg = \<lparr>rc_Link = get_text fs ''link'', rc_Dest = get_text fs ''dest'', rc_Version = cl_version env, rc_DryRun = get_bool fs ''dry-run'',
     rc_Channels = get_num fs ''channels'', rc_ChannelsPinned = explicitlySet fs ''channels'', rc_MinChannels = get_num fs ''min-channels'',
     rc_MaxChannels = get_num fs ''max-channels'', rc_PipelineDepth = get_num fs ''pipeline-depth'', rc_GroupCredit = get_num fs ''group-credit'',
     rc_DecideWorkers = get_num fs ''decide-workers'', rc_NoFsync = get_bool fs ''no-fsync'', rc_CheckpointInterval = get_num fs ''checkpoint-interval'',
     rc_ResumeWindow = get_num fs ''resume-window'', rc_DrainTimeout = get_num fs ''drain-timeout'', rc_StallTimeout = get_num fs ''stall-timeout'',
     rc_ProgressInterval = get_num fs ''progress-interval'', rc_AllowUnsafeLinks = get_bool fs ''allow-unsafe-links'', rc_Owner = get_bool fs ''owner'',
     rc_Quick = get_bool fs ''quick'', rc_NoCache = get_bool fs ''no-cache'', rc_ConnectTimeout = get_num fs ''connect-timeout'',
     rc_HandshakeTimeout = get_num fs ''handshake-timeout'', rc_Stagger = 250 * milli, rc_SocketBuffer = get_num fs ''socket-buffer'',
     rc_MaxRetries = get_num fs ''max-retries'', rc_HashAlg = alg\<rparr>"

definition receiverConfig :: "cli_env \<Rightarrow> bytes list \<Rightarrow> nat + rConfig \<times> int" where
  "receiverConfig env args = (case parse_all env (receiver_formals (cl_numCPU env)) args of
     None \<Rightarrow> Inl usageErr
   | Some (fs, rest) \<Rightarrow>
       if rest \<noteq> [] then Inl usageErr
       else if TrimSpace (get_text fs ''link'') = [] then Inl usageErr
       else (case settle env fs (receiver_checks fs) of
         None \<Rightarrow> Inl usageErr
       | Some (lvl, alg) \<Rightarrow> Inr (receiver_config env fs alg, lvl)))"

section \<open>The program\<close>

definition runSender :: "cli_env \<Rightarrow> send_env \<Rightarrow> bytes list \<Rightarrow> nat option" where
  "runSender env senv args = (case senderConfig env args of
     Inl code \<Rightarrow> Some code
   | Inr (cfg, lvl) \<Rightarrow> map_option sz_exit (sender_Run senv cfg))"

definition runReceiver :: "cli_env \<Rightarrow> recv_env \<Rightarrow> bytes list \<Rightarrow> nat option" where
  "runReceiver env renv args = (case receiverConfig env args of
     Inl code \<Rightarrow> Some code
   | Inr (cfg, lvl) \<Rightarrow> map_option rr_exit (receiver_Run renv cfg))"

text \<open>\<open>None\<close>: the session is still waiting for something.\<close>

definition run_program :: "cli_env \<Rightarrow> send_env \<Rightarrow> recv_env \<Rightarrow> bytes list \<Rightarrow> nat option" where
  "run_program env senv renv args =
     (if wantsText args then Some 0
      else if hasLinkFlag args then runReceiver env renv args
      else if args \<noteq> [] then runSender env senv args
      else Some usageErr)"

text \<open>
  The backstop for signals: what its goroutine waits for, in the order in which it happens, and whether it has forced
  the exit (with code 5).
\<close>

datatype escape_event = EscSignal | EscGrace | EscClosed

fun signalEscape :: "int \<Rightarrow> escape_event list \<Rightarrow> nat option" where
  "signalEscape grace (EscSignal # evs) =
     (if EscSignal \<in> set evs \<or> grace > 0 \<and> EscGrace \<in> set evs \<or> EscClosed \<in> set evs then Some 5 else None)"
| "signalEscape grace (EscClosed # evs) = None"
| "signalEscape grace (EscGrace # evs) = signalEscape grace evs"
| "signalEscape grace [] = None"

section \<open>Precedence\<close>

lemma setFlag_globs:
  "setFlag dur fm name v fs = Inr fs' \<Longrightarrow> kind_of fm name = Some (KGlob inc) \<Longrightarrow> fs_globs fs' = fs_globs fs @ [\<lparr>fr_Include = inc, fr_Pattern = v\<rparr>]"
  by (auto simp: setFlag_def split: option.splits)

lemma env_loop_vals:
  assumes "env_loop dur fm env given names fs = Inr fs'" "flags_ok fm fs" "distinct names" "fs_actual fs \<inter> set names \<subseteq> given"
  shows "flags_ok fm fs'"
    "fs_val fs' name = (if name \<in> set names - given then (case env (env_name name) of
       Some v \<Rightarrow> convert dur (the (kind_of fm name)) v | None \<Rightarrow> fs_val fs name) else fs_val fs name)"
    "fs_actual fs' = fs_actual fs \<union> {n \<in> set names - given. env (env_name n) \<noteq> None}"
proof -
  have "flags_ok fm fs' \<and> fs_val fs' name = (if name \<in> set names - given then (case env (env_name name) of
       Some v \<Rightarrow> convert dur (the (kind_of fm name)) v | None \<Rightarrow> fs_val fs name) else fs_val fs name) \<and>
    fs_actual fs' = fs_actual fs \<union> {n \<in> set names - given. env (env_name n) \<noteq> None}"
    using assms
  proof (induction names arbitrary: fs)
    case Nil
    then show ?case by simp
  next
    case (Cons n names)
    consider "n \<in> given" | "n \<notin> given" "env (env_name n) = None" | v where "n \<notin> given" "env (env_name n) = Some v" by blast
    then show ?case
    proof cases
      case 3
      then obtain f1 where f1: "setFlag dur fm n v fs = Inr f1" "env_loop dur fm env given names f1 = Inr fs'"
        using Cons.prems(1) by (auto split: sum.splits)
      note s = setFlag_ok [OF f1(1) Cons.prems(2)]
      have "fs_actual f1 \<inter> set names \<subseteq> given" using s(2) Cons.prems(3,4) by auto
      from Cons.IH [OF f1(2) s(1) _ this] Cons.prems(3) show ?thesis using 3 s(2,4) s(3) [of name]
        by (cases "name = n") (auto split: option.splits)
    next
      case 1
      then have "env_loop dur fm env given names fs = Inr fs'" "fs_actual fs \<inter> set names \<subseteq> given" using Cons.prems(1,4) by auto
      from Cons.IH [OF this(1) Cons.prems(2) _ this(2)] Cons.prems(3) show ?thesis using 1 by auto
    next
      case 2
      then have "env_loop dur fm env given names fs = Inr fs'" "fs_actual fs \<inter> set names \<subseteq> given" using Cons.prems(1,4) by auto
      from Cons.IH [OF this(1) Cons.prems(2) _ this(2)] Cons.prems(3) have ih: "flags_ok fm fs'"
        "fs_val fs' name = (if name \<in> set names - given then (case env (env_name name) of
           Some v \<Rightarrow> convert dur (the (kind_of fm name)) v | None \<Rightarrow> fs_val fs name) else fs_val fs name)"
        "fs_actual fs' = fs_actual fs \<union> {n \<in> set names - given. env (env_name n) \<noteq> None}" by simp_all
      have "{m \<in> set (n # names) - given. env (env_name m) \<noteq> None} = {m \<in> set names - given. env (env_name m) \<noteq> None}" using 2 by auto
      with ih 2 show ?thesis by (cases "name = n") simp_all
    qed
  qed
  then show "flags_ok fm fs'" "fs_val fs' name = (if name \<in> set names - given then (case env (env_name name) of
       Some v \<Rightarrow> convert dur (the (kind_of fm name)) v | None \<Rightarrow> fs_val fs name) else fs_val fs name)"
    "fs_actual fs' = fs_actual fs \<union> {n \<in> set names - given. env (env_name n) \<noteq> None}" by auto
qed

text \<open>
  The value of a flag is the one given on the command line, else that of its environment variable, else its
  default; and a flag counts as set by the user exactly in the first two cases.
\<close>

theorem flag_precedence:
  assumes "distinct (map fst fm)" "(name, k, d) \<in> set fm"
    and "parseArgs dur fm args (newFlagSet fm) = Inr (fs, rest)" "applyEnv dur fm env fs = Inr fs'"
  shows "fs_val fs' name = (if name \<in> fs_actual fs then fs_val fs name
      else case env (env_name name) of Some v \<Rightarrow> convert dur k v | None \<Rightarrow> Some d) \<and>
    (name \<in> fs_actual fs' \<longleftrightarrow> name \<in> fs_actual fs \<or> env (env_name name) \<noteq> None)"
proof -
  have ok: "flags_ok fm fs" by (rule parseArgs_ok [OF assms(3) newFlagSet_ok])
  have m: "map_of fm name = Some (k, d)" using assms(1,2) by simp
  have n: "name \<in> set (sort (map fst fm))" using assms(2) by force
  have e: "env_loop dur fm env (fs_actual fs) (sort (map fst fm)) fs = Inr fs'" using assms(4) by (simp add: applyEnv_def)
  have "distinct (sort (map fst fm))" "fs_actual fs \<inter> set (sort (map fst fm)) \<subseteq> fs_actual fs" using assms(1) by auto
  note v = env_loop_vals [OF e ok this]
  have "fs_val fs name = Some d" if "name \<notin> fs_actual fs" using that ok m by (auto simp: flags_ok_def)
  then show ?thesis using v(2) [of name] v(3) n m by (auto simp: kind_of_def split: option.splits)
qed

lemma formals_distinct: "distinct (map fst (sender_formals n))" "distinct (map fst (receiver_formals n))"
  by (simp_all add: sender_formals_def receiver_formals_def registerCommon_def flag_def_def)

definition sample_cli :: "(bytes \<Rightarrow> bytes option) \<Rightarrow> cli_env" where
  "sample_cli env = \<lparr>cl_lower = (\<lambda>b. b), cl_dur = (\<lambda>_. None), cl_env = env, cl_numCPU = 4, cl_version = str ''dev''\<rparr>"

theorem flag_precedence_witness:
  "\<exists>fs fs'. parseArgs (\<lambda>_. None) [(str ''n'', KString, VText [1]), (str ''m'', KString, VText [2])] [str ''-n=3'']
       (newFlagSet [(str ''n'', KString, VText [1]), (str ''m'', KString, VText [2])]) = Inr (fs, []) \<and>
     applyEnv (\<lambda>_. None) [(str ''n'', KString, VText [1]), (str ''m'', KString, VText [2])] (\<lambda>_. Some (str ''9'')) fs = Inr fs' \<and>
     fs_val fs' (str ''m'') = Some (VText (str ''9''))"
proof -
  let ?fm = "[(str ''n'', KString, VText [1]), (str ''m'', KString, VText [2])]"
  let ?fs = "(newFlagSet ?fm)\<lparr>fs_val := (fs_val (newFlagSet ?fm))(str ''n'' \<mapsto> VText (str ''3'')), fs_actual := {str ''n''}\<rparr>"
  have "splitEq (str ''n=3'') = (str ''n'', Some (str ''3''))" by code_simp
  then have one: "parseOne (\<lambda>_. None) ?fm [str ''-n=3''] (newFlagSet ?fm) = Inr (True, ?fs, [])"
    by (simp add: parseOne_def setFlag_def convert_def kind_of_def newFlagSet_def)
  have two: "parseOne (\<lambda>_. None) ?fm [] ?fs = Inr (False, ?fs, [])" by (simp add: parseOne_def)
  have a: "parseArgs (\<lambda>_. None) ?fm [str ''-n=3''] (newFlagSet ?fm) = Inr (?fs, [])"
    by (simp only: parseArgs.simps [of "\<lambda>_. None" ?fm "[str ''-n=3'']"] parseArgs.simps [of "\<lambda>_. None" ?fm "[]"] one two
        sum.case prod.case if_True if_False)
  have "sort (map fst ?fm) = [str ''m'', str ''n'']" by code_simp
  then have "\<exists>fs'. applyEnv (\<lambda>_. None) ?fm (\<lambda>_. Some (str ''9'')) ?fs = Inr fs'"
    by (simp add: applyEnv_def setFlag_def convert_def kind_of_def)
  then obtain fs' where e: "applyEnv (\<lambda>_. None) ?fm (\<lambda>_. Some (str ''9'')) ?fs = Inr fs'" by blast
  have "distinct (map fst ?fm)" "(str ''m'', KString, VText [2]) \<in> set ?fm" "str ''m'' \<notin> fs_actual ?fs" by simp_all
  with flag_precedence [OF this(1,2) a e] a e show ?thesis by (auto simp: convert_def)
qed

text \<open>
  A glob from the environment comes after those of the command line, so it wins over them: the last rule that matches
  decides.
\<close>

lemma env_glob_wins:
  assumes "setFlag dur fm (str ''exclude'') v fs = Inr fs'" "kind_of fm (str ''exclude'') = Some (KGlob False)"
  shows "last (fs_globs fs') = \<lparr>fr_Include = False, fr_Pattern = v\<rparr>"
  using setFlag_globs [OF assms] by simp

section \<open>Configurations that pass\<close>

lemma atLeast_None: "atLeast (n, v, m) = None \<longleftrightarrow> m \<le> v"
  by (auto simp: atLeast_def)

lemma settle_checked: "settle env fs checks = Some (lvl, alg) \<Longrightarrow> list_all (\<lambda>c. atLeast c = None) checks \<and> alg \<noteq> BLAKE3"
  by (auto simp: settle_def parseHash_def split: sum.splits if_splits)

text \<open>
  A configuration that the command line hands to the sender is within its ranges, and the defaults of the session
  do not change what the user asked for: only a duration that is not positive is replaced.
\<close>

theorem sender_config_kept:
  assumes "senderConfig env args = Inr (cfg, lvl)"
  shows "sc_MaxPairAttempts cfg \<ge> 1 \<and> sc_HashWorkers cfg \<ge> 1 \<and> sc_ReadConcurrency cfg \<ge> 1 \<and> sc_ChunkSize cfg \<ge> 4096 \<and>
    sc_SocketBuffer cfg \<ge> 4096 \<and> sc_GroupBytes cfg \<ge> 2 ^ 20 \<and> sc_HashAlg cfg \<noteq> BLAKE3 \<and>
    sender_withDefaults n cfg = cfg\<lparr>sc_PairTimeout := or_default (sc_PairTimeout cfg) (600 * second),
      sc_HandshakeTimeout := or_default (sc_HandshakeTimeout cfg) (10 * second), sc_DrainTimeout := or_default (sc_DrainTimeout cfg) (60 * second),
      sc_ProgressInterval := or_default (sc_ProgressInterval cfg) (5 * second)\<rparr>"
proof -
  obtain fs path alg where c: "cfg = sender_config env fs path alg" "settle env fs (sender_checks fs) = Some (lvl, alg)"
    using assms by (auto simp: senderConfig_def split: option.splits list.splits prod.splits)
  from settle_checked [OF c(2)] have r: "get_num fs ''max-pair-attempts'' \<ge> 1" "get_num fs ''hash-workers'' \<ge> 1" "get_num fs ''read-concurrency'' \<ge> 1"
    "get_num fs ''chunk-size'' \<ge> 4096" "get_num fs ''socket-buffer'' \<ge> 4096" "get_num fs ''group-bytes'' \<ge> 2 ^ 20" "alg \<noteq> BLAKE3"
    by (simp_all add: sender_checks_def common_checks_def atLeast_None)
  then show ?thesis unfolding c(1) sender_config_def sender_withDefaults_def by (simp add: or_default_def)
qed

text \<open>
  The same for the receiver, with one exception: a retry budget of 0 is replaced as well.
\<close>

theorem receiver_config_kept:
  assumes "receiverConfig env args = Inr (cfg, lvl)"
  shows "1 \<le> rc_Channels cfg \<and> 1 \<le> rc_MinChannels cfg \<and> rc_MinChannels cfg \<le> rc_MaxChannels cfg \<and> 1 \<le> rc_PipelineDepth cfg \<and>
    1 \<le> rc_GroupCredit cfg \<and> 1 \<le> rc_DecideWorkers cfg \<and> 4096 \<le> rc_SocketBuffer cfg \<and> 0 \<le> rc_MaxRetries cfg \<and> rc_HashAlg cfg \<noteq> BLAKE3 \<and>
    receiver_withDefaults n cfg = cfg\<lparr>rc_CheckpointInterval := or_default (rc_CheckpointInterval cfg) (64 * 2 ^ 20),
      rc_ResumeWindow := or_default (rc_ResumeWindow cfg) (60 * second), rc_DrainTimeout := or_default (rc_DrainTimeout cfg) (60 * second),
      rc_StallTimeout := or_default (rc_StallTimeout cfg) (60 * second), rc_ProgressInterval := or_default (rc_ProgressInterval cfg) (5 * second),
      rc_ConnectTimeout := or_default (rc_ConnectTimeout cfg) (10 * second), rc_HandshakeTimeout := or_default (rc_HandshakeTimeout cfg) (10 * second),
      rc_MaxRetries := (if rc_MaxRetries cfg = 0 then 3 else rc_MaxRetries cfg)\<rparr>"
proof -
  obtain fs alg where c: "cfg = receiver_config env fs alg" "settle env fs (receiver_checks fs) = Some (lvl, alg)"
    using assms by (auto simp: receiverConfig_def split: option.splits if_splits prod.splits)
  from settle_checked [OF c(2)] have r: "get_num fs ''channels'' \<ge> 1" "get_num fs ''min-channels'' \<ge> 1"
    "get_num fs ''max-channels'' \<ge> get_num fs ''min-channels''" "get_num fs ''pipeline-depth'' \<ge> 1" "get_num fs ''group-credit'' \<ge> 1"
    "get_num fs ''decide-workers'' \<ge> 1" "get_num fs ''socket-buffer'' \<ge> 4096" "get_num fs ''max-retries'' \<ge> 0" "alg \<noteq> BLAKE3"
    by (simp_all add: receiver_checks_def common_checks_def atLeast_None)
  then show ?thesis unfolding c(1) receiver_config_def receiver_withDefaults_def by (simp add: or_default_def milli_def)
qed

lemma sample_parse:
  "parse_all (sample_cli (\<lambda>_. None)) fm [str ''/r''] = Some (newFlagSet fm, [str ''/r''])" "parse_all (sample_cli (\<lambda>_. None)) fm [] = Some (newFlagSet fm, [])"
proof -
  have loop: "env_loop dur fm (\<lambda>_. None) given names fs = Inr fs" for dur given names fs
    by (induction names) simp_all
  have "parseOne dur fm [str ''/r''] fs = Inr (False, fs, [str ''/r''])" "parseOne dur fm [] fs = Inr (False, fs, [])" for dur fs
    by (simp_all add: parseOne_def)
  then have "parseArgs dur fm [str ''/r''] fs = Inr (fs, [str ''/r''])" "parseArgs dur fm [] fs = Inr (fs, [])" for dur fs
    by (simp_all only: parseArgs.simps [of dur fm _ fs] sum.case prod.case if_False)
  then show "parse_all (sample_cli (\<lambda>_. None)) fm [str ''/r''] = Some (newFlagSet fm, [str ''/r''])" "parse_all (sample_cli (\<lambda>_. None)) fm [] = Some (newFlagSet fm, [])"
    by (simp_all only: parse_all_def sample_cli_def cli_env.select_convs applyEnv_def loop sum.case prod.case)
qed

definition sample_link_flags :: flagset where
  "sample_link_flags = (newFlagSet (receiver_formals 4))\<lparr>fs_val := (fs_val (newFlagSet (receiver_formals 4)))(str ''link'' \<mapsto> VText [65]),
     fs_actual := {str ''link''}\<rparr>"

lemma sample_settle:
  "settle (sample_cli (\<lambda>_. None)) (newFlagSet (sender_formals 4)) (sender_checks (newFlagSet (sender_formals 4))) = Some (LevelInfo, MD5)"
  "settle (sample_cli (\<lambda>_. None)) sample_link_flags (receiver_checks sample_link_flags) = Some (LevelInfo, MD5)"
proof -
  have "TrimSpace (str ''md5'') = str ''md5''" by code_simp
  then show "settle (sample_cli (\<lambda>_. None)) (newFlagSet (sender_formals 4)) (sender_checks (newFlagSet (sender_formals 4))) = Some (LevelInfo, MD5)"
    "settle (sample_cli (\<lambda>_. None)) sample_link_flags (receiver_checks sample_link_flags) = Some (LevelInfo, MD5)"
    by (simp_all add: settle_def resolveLevel_def parseHash_def Parse_algo_def sample_cli_def sender_checks_def receiver_checks_def common_checks_def atLeast_None
        get_text_def get_bool_def get_num_def newFlagSet_def sample_link_flags_def sender_formals_def receiver_formals_def registerCommon_def flag_def_def wrap64_def MD5_def BLAKE3_def)
qed

theorem sender_config_kept_witness:
  "\<exists>cfg. senderConfig (sample_cli (\<lambda>_. None)) [str ''/r''] = Inr (cfg, LevelInfo) \<and> sc_GroupBytes cfg \<ge> 2 ^ 20"
proof -
  have "cl_numCPU (sample_cli (\<lambda>_. None)) = 4" by (simp add: sample_cli_def)
  then have "\<exists>cfg. senderConfig (sample_cli (\<lambda>_. None)) [str ''/r''] = Inr (cfg, LevelInfo)"
    by (simp only: senderConfig_def sample_parse option.case prod.case list.case sample_settle(1)) blast
  with sender_config_kept show ?thesis by blast
qed

lemma sample_link_parse:
  "parse_all (sample_cli (\<lambda>_. None)) (receiver_formals 4) [str ''--link=A''] =
     Some (sample_link_flags, [])"
proof -
  let ?fm = "receiver_formals 4"
  let ?fs = sample_link_flags
  have loop: "env_loop dur fm (\<lambda>_. None) given names fs = Inr fs" for dur fm given names fs
    by (induction names) simp_all
  have k: "kind_of ?fm (str ''link'') = Some KString"
    by (simp add: kind_of_def receiver_formals_def registerCommon_def flag_def_def)
  have "splitEq (str ''link=A'') = (str ''link'', Some [65])" by code_simp
  moreover have "str ''--link=A'' = ch (CHR ''-'') # ch (CHR ''-'') # str ''link=A''" "hd (str ''link=A'') \<noteq> ch (CHR ''-'')"
    "hd (str ''link=A'') \<noteq> ch (CHR ''='')" "str ''link=A'' \<noteq> []"
    "ch (CHR ''-'') # ch (CHR ''-'') # str ''link=A'' \<noteq> str ''--''" by simp_all
  ultimately have one: "parseOne dur ?fm [str ''--link=A''] (newFlagSet ?fm) = Inr (True, ?fs, [])" for dur
    using k by (simp add: parseOne_def setFlag_def convert_def newFlagSet_def sample_link_flags_def del: str_Cons)
  have two: "parseOne dur ?fm [] fs = Inr (False, fs, [])" for dur fs by (simp add: parseOne_def)
  have "parseArgs dur ?fm [str ''--link=A''] (newFlagSet ?fm) = Inr (?fs, [])" for dur
    by (simp only: parseArgs.simps [of dur ?fm "[str ''--link=A'']"] parseArgs.simps [of dur ?fm "[]"] one two sum.case prod.case if_True if_False)
  then show ?thesis by (simp only: parse_all_def sample_cli_def cli_env.select_convs applyEnv_def loop sum.case prod.case option.case)
qed

theorem receiver_config_kept_witness:
  "\<exists>cfg. receiverConfig (sample_cli (\<lambda>_. None)) [str ''--link=A''] = Inr (cfg, LevelInfo) \<and> rc_MinChannels cfg \<le> rc_MaxChannels cfg"
proof -
  have n: "cl_numCPU (sample_cli (\<lambda>_. None)) = 4" by (simp add: sample_cli_def)
  have "TrimSpace [65] = [65]" by code_simp
  then have t: "TrimSpace (get_text sample_link_flags ''link'') \<noteq> []" by (simp add: get_text_def sample_link_flags_def)
  have "\<exists>cfg. receiverConfig (sample_cli (\<lambda>_. None)) [str ''--link=A''] = Inr (cfg, LevelInfo)"
    using sample_link_parse sample_settle(2) t unfolding receiverConfig_def n by simp
  with receiver_config_kept show ?thesis by blast
qed

section \<open>Exit codes\<close>

lemma ExitCode_le: "ExitCode e \<le> 5"
  by (auto simp: ExitCode_def split: option.splits Class.splits)

lemma receiver_exit_le: "receiver_Run env cfg = Some r \<Longrightarrow> rr_exit r \<le> 5"
  using ExitCode_le by (auto dest!: Run_ends simp: finished_def receiver_finish_def Let_def split: option.splits)

lemma finish_exit_le: "sz_exit (sender_finish un c sent f smry) \<le> 5" "sz_exit (crashed sent) \<le> 5" "sz_exit (sender_fail ty h un c sent e) \<le> 5"
proof -
  show f: "sz_exit (sender_finish un c sent f smry) \<le> 5" for un c sent f smry
    using ExitCode_le by (auto simp: sender_finish_def split: option.splits)
  show "sz_exit (crashed sent) \<le> 5" by (simp add: crashed_def)
  show "sz_exit (sender_fail ty h un c sent e) \<le> 5" using f by (simp add: sender_fail_def crashed_def)
qed

lemma sender_exit_le:
  assumes "sender_Run env cfg = Some r"
  shows "sz_exit r \<le> 5"
proof -
  have "sz_exit r \<le> 5" if "sender_drain env pl sk un sent s = Some r" for pl sk un sent s
    using that finish_exit_le by (auto simp: sender_drain_def Let_def split: option.splits if_splits waited.splits)
  with assms show ?thesis
    by (auto simp: sender_Run_def Let_def finish_exit_le(3) split: option.splits sum.splits prod.splits)
qed



text \<open>A second signal always ends the process, and so does the end of the grace period when there is one.\<close>

lemma second_signal_exits: "signalEscape grace (EscSignal # evs @ EscSignal # rest) = Some 5"
  by simp

lemma grace_exits: "0 < grace \<Longrightarrow> signalEscape grace (EscSignal # evs @ EscGrace # rest) = Some 5"
  by simp

text \<open>The range check of the port adds one to the value it reports.\<close>

lemma port_message_off_by_one:
  "get_num fs ''port'' = -1 \<Longrightarrow> \<exists>v m. (''port'', v, m) \<in> set (sender_checks fs) \<and> atLeast (''port'', v, m) \<noteq> None \<and> v = 0 \<and> m = 1"
  by (auto simp: sender_checks_def atLeast_def wrap64_def)

end
