(* ===== verification/Obs_Progress.thy ===== *)
theory Obs_Progress
  imports Obs_Log Go_Float
begin

text \<open>
  The periodic output (\<^verbatim>\<open>internal/obs\<close>: \<^verbatim>\<open>heartbeat.go\<close>, \<^verbatim>\<open>progress.go\<close>, \<^verbatim>\<open>summary.go\<close>, \<^verbatim>\<open>counters.go\<close>): the cadence of the
  heartbeat, the rate and the remaining time of the progress line, the rendering of sizes, and the final summary.
  The clock is the sequence of ticks.
\<close>

section \<open>Heartbeat\<close>

definition heartbeat_sample :: "int \<Rightarrow> int" where
  "heartbeat_sample sampleInterval = (if sampleInterval \<le> 0 then 10000000000 else sampleInterval)"

definition samplesPerLog :: "int \<Rightarrow> int \<Rightarrow> int" where
  "samplesPerLog sampleInterval logInterval =
     (let n = (if logInterval \<le> 0 then 60000000000 else logInterval) div heartbeat_sample sampleInterval in if n < 1 then 1 else n)"

record heartbeat =
  hb_lastBytes :: int
  hb_lastAt :: int
  hb_rate :: rat
  hb_ticks :: int

text \<open>A tick at \<open>now\<close> (nanoseconds) with the byte counter; whether a line is logged.\<close>

definition heartbeat_tick :: "int \<Rightarrow> int \<times> int \<Rightarrow> heartbeat \<Rightarrow> bool \<times> heartbeat" where
  "heartbeat_tick per ev h = (case ev of (now, b) \<Rightarrow>
     let elapsed = f64 (of_int (now - hb_lastAt h) / 1000000000);
         rate = (if elapsed > 0 then f64 (f64 (of_int (b - hb_lastBytes h)) / elapsed) else hb_rate h);
         ticks = hb_ticks h + 1
     in (ticks mod per = 0, \<lparr>hb_lastBytes = b, hb_lastAt = now, hb_rate = rate, hb_ticks = ticks\<rparr>))"

fun heartbeat_loop :: "int \<Rightarrow> (int \<times> int) list \<Rightarrow> heartbeat \<Rightarrow> bool list \<times> heartbeat" where
  "heartbeat_loop per [] h = ([], h)"
| "heartbeat_loop per (ev # evs) h = (case heartbeat_tick per ev h of (l, h1) \<Rightarrow> (case heartbeat_loop per evs h1 of (ls, h2) \<Rightarrow> (l # ls, h2)))"

definition formatGroups :: "u32 list \<Rightarrow> bytes" where
  "formatGroups ids = (if ids = [] then str ''none''
     else FormatUint (unat (hd ids)) 10 @ concat (map (\<lambda>i. str '','' @ FormatUint (unat i) 10) (tl ids)))"

lemma samplesPerLog_pos: "1 \<le> samplesPerLog a b"
  by (simp add: samplesPerLog_def Let_def)

lemma div_Suc_mod: "1 \<le> p \<Longrightarrow> (t + 1) div p = t div p + (if (t + 1) mod p = 0 then 1 else 0)" for t p :: int
proof -
  assume p: "1 \<le> p"
  have t: "t = p * (t div p) + t mod p" by simp
  show ?thesis
  proof (cases "t mod p = p - 1")
    case True
    then have "t + 1 = p * (t div p) + p" using t by linarith
    then have "t + 1 = p * (t div p + 1)" by (simp add: distrib_left)
    then show ?thesis using p by simp
  next
    case False
    then have "t mod p + 1 < p" using pos_mod_bound [of p t] p by linarith
    moreover have "0 \<le> t mod p + 1" using p pos_mod_sign [of p t] by linarith
    moreover have "t + 1 = p * (t div p) + (t mod p + 1)" using t by linarith
    ultimately have "(t + 1) div p = t div p" "(t + 1) mod p = t mod p + 1"
      by (simp_all only: int_div_pos_eq int_mod_pos_eq)
    moreover have "t mod p + 1 \<noteq> 0" using pos_mod_sign [of p t] p by linarith
    ultimately show ?thesis by simp
  qed
qed

text \<open>
  The heartbeat logs one line per \<open>samplesPerLog\<close> ticks, whatever the ticks bring.
\<close>

theorem heartbeat_cadence:
  assumes "hb_ticks h = 0"
  shows "int (length (filter id (fst (heartbeat_loop (samplesPerLog a b) evs h)))) = int (length evs) div samplesPerLog a b"
proof -
  let ?p = "samplesPerLog a b"
  have "0 \<le> hb_ticks g \<Longrightarrow> int (length (filter id (fst (heartbeat_loop ?p evs g)))) = (hb_ticks g + int (length evs)) div ?p - hb_ticks g div ?p" for g
  proof (induction evs arbitrary: g)
    case Nil
    then show ?case by simp
  next
    case (Cons ev evs)
    obtain l h1 where 1: "heartbeat_tick ?p ev g = (l, h1)" by fastforce
    then have h1: "hb_ticks h1 = hb_ticks g + 1" "l \<longleftrightarrow> (hb_ticks g + 1) mod ?p = 0"
      by (auto simp: heartbeat_tick_def Let_def split: prod.splits)
    then show ?case using Cons.IH [of h1] Cons.prems div_Suc_mod [OF samplesPerLog_pos, of "hb_ticks g" a b] 1
      by (auto simp: algebra_simps split: prod.split)
  qed
  from this [of h] assms show ?thesis by simp
qed

theorem heartbeat_cadence_witness:
  "length (filter id (fst (heartbeat_loop (samplesPerLog 0 0) [(1, 1), (2, 2), (3, 3), (4, 4), (5, 5), (6, 6), (7, 7)]
     \<lparr>hb_lastBytes = 0, hb_lastAt = 0, hb_rate = 0, hb_ticks = 0\<rparr>))) = 1"
  using heartbeat_cadence [of "\<lparr>hb_lastBytes = 0, hb_lastAt = 0, hb_rate = 0, hb_ticks = 0\<rparr>" 0 0 "[(1, 1), (2, 2), (3, 3), (4, 4), (5, 5), (6, 6), (7, 7)]"]
  by (simp add: samplesPerLog_def heartbeat_sample_def)

text \<open>A log interval that is no multiple of the sample interval is rounded down: 25 s on 10 s samples logs every 20 s.\<close>

lemma log_interval_rounds_down: "samplesPerLog (10 * 10 ^ 9) (25 * 10 ^ 9) = 2"
  by (simp add: samplesPerLog_def heartbeat_sample_def)

section \<open>Progress\<close>

record progress =
  pg_doneBytes :: int
  pg_totalBytes :: int
  pg_doneFiles :: int
  pg_totalFiles :: int
  pg_lastAt :: "int option"
  pg_lastBytes :: int
  pg_rate :: rat

definition newProgress :: progress where
  "newProgress = \<lparr>pg_doneBytes = 0, pg_totalBytes = 0, pg_doneFiles = 0, pg_totalFiles = 0, pg_lastAt = None, pg_lastBytes = 0, pg_rate = 0\<rparr>"

definition Update :: "int \<Rightarrow> int \<Rightarrow> int \<Rightarrow> int \<Rightarrow> progress \<Rightarrow> progress" where
  "Update doneBytes totalBytes doneFiles totalFiles p =
     p\<lparr>pg_doneBytes := doneBytes, pg_totalBytes := totalBytes, pg_doneFiles := doneFiles, pg_totalFiles := totalFiles\<rparr>"

text \<open>The estimate of \<^verbatim>\<open>render\<close>: the smoothed rate, and the remaining time in nanoseconds when one is shown.\<close>

definition render_rate :: "int \<Rightarrow> progress \<Rightarrow> progress" where
  "render_rate now p =
     (let db = pg_doneBytes p;
          rate = (case pg_lastAt p of
             None \<Rightarrow> pg_rate p
           | Some lastAt \<Rightarrow>
               let dt = f64 (of_int (now - lastAt) / 1000000000) in
               if dt > 0 then
                 let inst = f64 (f64 (of_int (db - pg_lastBytes p)) / dt);
                     inst = (if inst < 0 then 0 else inst)
                 in if pg_rate p = 0 then inst else f64 (f64 (f64 (6 / 10) * pg_rate p) + f64 (f64 (4 / 10) * inst))
               else pg_rate p)
      in p\<lparr>pg_lastAt := Some now, pg_lastBytes := db, pg_rate := rate\<rparr>)"

definition render_eta :: "progress \<Rightarrow> int option" where
  "render_eta p =
     (let db = pg_doneBytes p; tb = pg_totalBytes p in
      if tb > db \<and> pg_rate p > 0 then Some \<lfloor>f64 (f64 (f64 (of_int (tb - db)) / pg_rate p) * 1000000000)\<rfloor> else None)"

definition pad2 :: "int \<Rightarrow> bytes" where
  "pad2 i = (if 0 \<le> i \<and> i < 10 then str ''0'' else []) @ FormatInt i"

definition eta_seconds :: "int \<Rightarrow> int" where
  "eta_seconds d = (let d = (if d < 0 then 0 else d) in \<lfloor>f64 (of_int (d div 1000000000) + f64 (of_int (d mod 1000000000) / 1000000000))\<rfloor>)"

definition formatETA :: "int \<Rightarrow> bytes" where
  "formatETA d =
     (let s = eta_seconds d; h = s div 3600; m = (s mod 3600) div 60; sec = s mod 60 in
      if h > 0 then FormatInt h @ str '':'' @ pad2 m @ str '':'' @ pad2 sec else pad2 m @ str '':'' @ pad2 sec)"

lemma smoothed_nonneg: "0 \<le> r \<Longrightarrow> 0 \<le> i \<Longrightarrow> 0 \<le> f64 (f64 (f64 (3 / 5) * r) + f64 (f64 (2 / 5) * i))"
  by (intro f64_nonneg add_nonneg_nonneg mult_nonneg_nonneg) simp_all

text \<open>
  The rate is never negative, so a remaining time that is shown is never negative, for any ticks, any
  updates (also counters that go backwards), and any clock.
\<close>

theorem progress_eta_nonneg:
  "render_eta (fold (\<lambda>(now, a, b, c, d) p. render_rate now (Update a b c d p)) evs newProgress) = Some t \<Longrightarrow> 0 \<le> t"
proof -
  have step: "0 \<le> pg_rate p \<Longrightarrow> 0 \<le> pg_rate (render_rate now (Update a b c d p))" for now a b c d p
    by (auto simp: render_rate_def Update_def Let_def intro: smoothed_nonneg smoothed_nonneg [where i = 0, simplified] split: option.splits)
  have rate: "0 \<le> pg_rate (fold (\<lambda>(now, a, b, c, d) p. render_rate now (Update a b c d p)) evs q)" if "0 \<le> pg_rate q" for q
    using that by (induction evs arbitrary: q) (auto intro: step)
  assume "render_eta (fold (\<lambda>(now, a, b, c, d) p. render_rate now (Update a b c d p)) evs newProgress) = Some t"
  then show "0 \<le> t" by (auto simp: render_eta_def Let_def f64_nonneg split: if_splits)
qed

theorem progress_eta_nonneg_witness:
  "\<exists>t. render_eta (fold (\<lambda>(now, a, b, c, d) p. render_rate now (Update a b c d p)) [(0, 0, 100, 0, 1), (1000000000, 50, 100, 0, 1)] newProgress) = Some t \<and> 0 \<le> t"
proof -
  let ?p = "fold (\<lambda>(now, a, b, c, d) p. render_rate now (Update a b c d p)) [(0, 0, 100, 0, 1), (1000000000, 50, 100, 0, 1)] newProgress"
  have "f64 1 = 1" "f64 50 = 50" by code_simp+
  then have "render_eta ?p \<noteq> None" by (simp add: render_eta_def render_rate_def Update_def newProgress_def Let_def)
  with progress_eta_nonneg [of "[(0, 0, 100, 0, 1), (1000000000, 50, 100, 0, 1)]"] show ?thesis by blast
qed

section \<open>Sizes\<close>

text \<open>The loop of \<^verbatim>\<open>humanBytes\<close>: the divisor and the index of the unit.\<close>

function unit_loop :: "int \<Rightarrow> int \<Rightarrow> nat \<Rightarrow> int \<times> nat" where
  "unit_loop x dv n = (if x \<ge> 1024 then unit_loop (x div 1024) (dv * 1024) (Suc n) else (dv, n))"
  by auto
termination by (relation "measure (\<lambda>(x, dv, n). nat x)") auto

text \<open>\<^verbatim>\<open>%.1f\<close> of a number that is not negative.\<close>

definition fmt_tenths :: "rat \<Rightarrow> bytes" where
  "fmt_tenths x = (let t = round_even (x * 10) in FormatInt (t div 10) @ str ''.'' @ FormatInt (t mod 10))"

definition humanBytes :: "int \<Rightarrow> bytes" where
  "humanBytes n = (if n < 1024 then FormatInt n @ str ''B''
     else case unit_loop (n div 1024) 1024 0 of (dv, u) \<Rightarrow>
       fmt_tenths (f64 (f64 (of_int n) / f64 (of_int dv))) @ [str ''KMGTPE'' ! u] @ str ''iB'')"

declare unit_loop.simps [simp del]

lemma block_bounds: "1024 * (x div 1024) \<le> x \<and> x < 1024 * (x div 1024 + 1)" for x :: int
proof -
  have "x = 1024 * (x div 1024) + x mod 1024" "0 \<le> x mod 1024" "x mod 1024 < 1024" by simp_all
  moreover from this have "1024 * (x div 1024) \<le> x" by linarith
  ultimately show ?thesis by (simp add: distrib_left)
qed

lemma unit_loop_scale:
  assumes "1 \<le> x" "dv = 1024 * 1024 ^ n" "dv * x \<le> N" "N < dv * (x + 1)" "unit_loop x dv n = (dv', n')"
  shows "dv' = 1024 * 1024 ^ n' \<and> dv' \<le> N \<and> N < 1024 * dv'"
  using assms
proof (induction x dv n rule: unit_loop.induct)
  case (1 x dv n)
  show ?case
  proof (cases "x \<ge> 1024")
    case True
    have "1024 * (x div 1024) \<le> x" "x < 1024 * (x div 1024 + 1)" "1 \<le> x div 1024" using True block_bounds [of x] by linarith+
    then have "dv * (1024 * (x div 1024)) \<le> dv * x" "dv * (x + 1) \<le> dv * (1024 * (x div 1024 + 1))"
      using 1(3) by (intro mult_left_mono; simp)+
    then have "dv * 1024 * (x div 1024) \<le> N" "N < dv * 1024 * (x div 1024 + 1)" using 1(4,5) by (simp_all add: mult.assoc)
    with True 1 \<open>1 \<le> x div 1024\<close> show ?thesis by (simp add: unit_loop.simps [of x])
  next
    case False
    then have "dv' = dv" "n' = n" using 1(6) by (simp_all add: unit_loop.simps [of x])
    moreover have "dv * 1 \<le> dv * x" "dv * (x + 1) \<le> dv * 1024" using False 1(2,3) by (intro mult_left_mono; simp)+
    then have "dv \<le> N" "N < 1024 * dv" using 1(4,5) by linarith+
    ultimately show ?thesis using 1(3) by simp
  qed
qed

text \<open>
  A size is shown in the largest unit that it reaches, and for every \<^verbatim>\<open>int64\<close> that unit is one of the six there
  are: the index is never out of range.
\<close>

theorem humanBytes_unit:
  assumes "1024 \<le> n" "n < 2 ^ 63" "unit_loop (n div 1024) 1024 0 = (dv, u)"
  shows "dv = 1024 ^ Suc u \<and> dv \<le> n \<and> n < 1024 * dv \<and> u < length (str ''KMGTPE'')"
proof -
  have s: "dv = 1024 * 1024 ^ u \<and> dv \<le> n \<and> n < 1024 * dv"
    using assms by (intro unit_loop_scale [of "n div 1024" 1024 0 n]) (use block_bounds [of n] in linarith | simp)+
  have "u \<le> 5"
  proof (rule ccontr)
    assume "\<not> u \<le> 5"
    then have "(1024 :: int) ^ 6 \<le> 1024 ^ u" by (intro power_increasing) auto
    with s assms(2) show False by simp
  qed
  with s show ?thesis by simp
qed

theorem humanBytes_unit_witness: "unit_loop (2000000 div 1024) 1024 0 = (1048576, 1) \<and> (1048576 :: int) = 1024 ^ Suc 1"
proof -
  have "unit_loop (2000000 div 1024) 1024 0 = (1048576, 1)" by (simp add: unit_loop.simps)
  with humanBytes_unit [of 2000000 1048576 1] show ?thesis by simp
qed

section \<open>The final summary\<close>

record Counters =
  ct_FilesTransferred :: int
  ct_FilesSkipped :: int
  ct_FilesExcluded :: int
  ct_FilesRejected :: int
  ct_FilesFailed :: int
  ct_Bytes :: int
  ct_Dirs :: int
  ct_Symlinks :: int
  ct_SymlinksRejected :: int
  ct_Retries :: int
  ct_RetriesOK :: int
  ct_CacheHit :: int
  ct_CacheMiss :: int
  ct_LogDrops :: int

definition pad_left :: "nat \<Rightarrow> bytes \<Rightarrow> bytes" where
  "pad_left n s = replicate (n - length s) space @ s"

definition d8 :: "int \<Rightarrow> bytes" where "d8 i = pad_left 8 (FormatInt i)"

text \<open>\<open>elapsed\<close> is the rendered duration. The record bypasses the level.\<close>

definition summary_text :: "bytes \<Rightarrow> bytes \<Rightarrow> bytes \<Rightarrow> int \<Rightarrow> bytes \<Rightarrow> bytes list \<Rightarrow> Counters \<Rightarrow> bytes" where
  "summary_text session role outcome exit elapsed failedItems c =
     [newline] @ str ''esync summary  session='' @ session @ str ''  role='' @ role @ str ''  outcome='' @ outcome @ str ''  exit='' @ FormatInt exit @
     [newline, newline] @
     str ''  transferred   '' @ d8 (ct_FilesTransferred c) @ str '' files   '' @ pad_left 14 (FormatInt (ct_Bytes c)) @ str '' bytes'' @ [newline] @
     str ''  skipped       '' @ d8 (ct_FilesSkipped c) @ str '' files'' @ [newline] @
     str ''  excluded      '' @ d8 (ct_FilesExcluded c) @ str '' entries'' @ [newline] @
     str ''  rejected      '' @ d8 (ct_FilesRejected c) @ str '' entries'' @ [newline] @
     str ''  failed        '' @ d8 (ct_FilesFailed c) @ str '' files'' @ [newline] @
     str ''  directories   '' @ d8 (ct_Dirs c) @ str '' created'' @ [newline] @
     str ''  symlinks      '' @ d8 (ct_Symlinks c) @ str '' created, '' @ FormatInt (ct_SymlinksRejected c) @ str '' rejected'' @ [newline] @
     str ''  retries       '' @ d8 (ct_Retries c) @ str '' ('' @ FormatInt (ct_RetriesOK c) @ str '' succeeded)'' @ [newline] @
     str ''  hash cache    hit '' @ FormatInt (ct_CacheHit c) @ str '' / miss '' @ FormatInt (ct_CacheMiss c) @ [newline] @
     str ''  elapsed       '' @ elapsed @ [newline] @
     str ''  log           '' @ d8 (ct_LogDrops c) @ str '' records dropped'' @ [newline] @
     (if failedItems = [] then []
      else [newline] @ str ''  failed items:'' @ [newline] @ concat (map (\<lambda>it. str ''    '' @ it @ [newline]) failedItems))"

definition Summary :: "((bytes \<rightharpoonup> fval) \<Rightarrow> bytes option) \<Rightarrow> bytes \<Rightarrow> (bytes \<rightharpoonup> fval) \<Rightarrow> bytes \<Rightarrow> int \<Rightarrow> bytes \<Rightarrow> bytes list \<Rightarrow> Counters \<times> logger \<Rightarrow> Counters \<times> logger" where
  "Summary jm ts tf outcome exit elapsed failedItems cl = (case cl of (c, l) \<Rightarrow>
     let c = c\<lparr>ct_LogDrops := lg_drops l\<rparr>;
         rec = \<lparr>rd_ts = ts, rd_level = LevelInfo, rd_role = lg_role l,
                rd_msg = summary_text (Ctx_Session tf) (lg_role l) outcome exit elapsed failedItems c, rd_fields = []\<rparr>
     in (c, emit (format_for jm l rec) l))"

end
