(* ===== verification/Obs_Runtime.thy ===== *)
theory Obs_Runtime
  imports Obs_Progress
begin

text \<open>
  What the sinks of \<^verbatim>\<open>internal/obs\<close> write and how they run: the transfer rate and the progress line (\<^verbatim>\<open>progress.go\<close>), the message
  of the heartbeat, the goroutines behind both until they are stopped, the start of the logger (\<^verbatim>\<open>obs.go\<close>), and the way of a
  fatal fault from a goroutine (\<^verbatim>\<open>goroutine.go\<close>) through the handler of \<^verbatim>\<open>cli.go\<close> to the exit of the process.
\<close>

section \<open>The transfer rate\<close>

lemma round_even_le: "of_int (round_even y) \<le> y + 1 / 2"
proof -
  have "of_int \<lfloor>y\<rfloor> \<le> y" by simp
  then have "of_int \<lfloor>y\<rfloor> \<le> y + 1 / 2" by linarith
  then show ?thesis by (auto simp: round_even_def Let_def)
qed

lemma f64_exp_le: "1 \<le> x \<Longrightarrow> (2 :: rat) powi (f64_exp x - 1) \<le> x"
proof -
  assume x: "1 \<le> x"
  define m where "m = nat \<lfloor>x\<rfloor>"
  have m: "0 < m" "of_nat m \<le> x" using x by (auto simp: m_def)
  then have "2 ^ (floorlog 2 m - 1) \<le> m" "0 < floorlog 2 m" using floorlog_bounds [of m 2] by (auto simp: floorlog_def)
  then have "(2 :: rat) ^ (floorlog 2 m - 1) \<le> of_nat m" by (metis of_nat_le_iff of_nat_numeral of_nat_power)
  moreover have "f64_exp x - 1 = int (floorlog 2 m - 1)"
    using x \<open>0 < floorlog 2 m\<close> by (simp add: f64_exp_def m_def)
  ultimately show ?thesis using m(2) by (simp only: power_int_of_nat)
qed

lemma f64_double: "1 \<le> x \<Longrightarrow> f64 x \<le> 2 * x"
proof -
  assume x: "1 \<le> x"
  define u where "u = (2 :: rat) powi (f64_exp x - 53)"
  have u: "0 < u" by (simp add: u_def)
  have "u \<le> 2 powi (f64_exp x - 1)" unfolding u_def by (intro power_int_increasing) simp_all
  with f64_exp_le [OF x] have "u \<le> x" by simp
  have "of_int (round_even (x / u)) * u \<le> (x / u + 1 / 2) * u" using u round_even_le by (intro mult_right_mono) simp_all
  also have "\<dots> = x + u / 2" using u by (simp add: field_simps)
  finally show ?thesis using \<open>u \<le> x\<close> u x by (simp add: f64_def u_def Let_def)
qed

text \<open>The loop of \<^verbatim>\<open>humanRate\<close>: it ends because each round at least quarters the number, whatever the rounding.\<close>

function rate_loop :: "rat \<Rightarrow> rat \<Rightarrow> nat \<Rightarrow> rat \<times> nat" where
  "rate_loop n dv e = (if n \<ge> 1000 then rate_loop (f64 (n / 1000)) (f64 (dv * 1000)) (Suc e) else (dv, e))"
  by auto
termination
proof (relation "measure (\<lambda>(n, dv, e). nat \<lfloor>n\<rfloor>)")
  fix n dv :: rat and e :: nat
  assume n: "1000 \<le> n"
  then have "f64 (n / 1000) \<le> n / 500" using f64_double [of "n / 1000"] by simp
  then have "\<lfloor>f64 (n / 1000)\<rfloor> < \<lfloor>n\<rfloor>" using n by linarith
  moreover have "0 < \<lfloor>n\<rfloor>" using n by linarith
  ultimately show "((f64 (n / 1000), f64 (dv * 1000), Suc e), n, dv, e) \<in> measure (\<lambda>(n, dv, e). nat \<lfloor>n\<rfloor>)" by simp
qed simp

declare rate_loop.simps [simp del]

text \<open>\<open>None\<close>: the index of the unit is out of range, and the call panics.\<close>

definition humanRate :: "rat \<Rightarrow> bytes option" where
  "humanRate bytesPerSec =
     (let r = (if bytesPerSec < 0 then 0 else bytesPerSec) in
      if r < 1000 then Some (FormatInt (round_even r) @ str '' B/s'')
      else case rate_loop (f64 (r / 1000)) 1000 0 of (dv, e) \<Rightarrow>
        if e < length (str ''KMGTPE'') then Some (fmt_tenths (f64 (r / dv)) @ [space] @ [str ''KMGTPE'' ! e] @ str ''B/s'') else None)"

lemma rate_loop_units: "n < 1000 * 500 ^ k \<Longrightarrow> snd (rate_loop n dv e) \<le> e + k"
proof (induction k arbitrary: n dv e)
  case 0
  then show ?case by (simp add: rate_loop.simps)
next
  case (Suc k)
  show ?case
  proof (cases "n \<ge> 1000")
    case True
    have "f64 (n / 1000) \<le> n / 500" using f64_double [of "n / 1000"] True by simp
    then have "f64 (n / 1000) < 1000 * 500 ^ k" using Suc.prems by simp
    from Suc.IH [OF this, of "f64 (dv * 1000)" "Suc e"] show ?thesis using True by (simp add: rate_loop.simps [of n])
  qed (simp add: rate_loop.simps)
qed

text \<open>
  A rate is rendered for every number of bytes per second that the byte counter can reach in a second, up to \<open>2 ^ 63\<close>; the six units are enough.
\<close>

theorem humanRate_renders: "r \<le> 2 ^ 63 \<Longrightarrow> \<exists>s. humanRate r = Some s"
proof -
  assume r: "r \<le> 2 ^ 63"
  have "snd (rate_loop (f64 (r / 1000)) 1000 0) < 6" if "1000 \<le> r"
  proof -
    have "f64 (r / 1000) \<le> r / 500" using f64_double [of "r / 1000"] that by simp
    then have "f64 (r / 1000) < 1000 * 500 ^ 5" using r by simp
    from rate_loop_units [OF this, of 1000 0] show ?thesis by simp
  qed
  then show ?thesis by (cases "r < 1000") (auto simp: humanRate_def Let_def split: prod.splits)
qed

theorem humanRate_renders_witness: "\<exists>s. humanRate 1500000 = Some s"
  by (rule humanRate_renders) simp

section \<open>The progress line\<close>

definition bytes_part :: "int \<Rightarrow> int \<Rightarrow> bytes" where
  "bytes_part db tb = humanBytes db @ (if tb > 0 then str '' / '' @ humanBytes tb else [])"

definition files_part :: "int \<Rightarrow> int \<Rightarrow> bytes" where
  "files_part df tf = FormatInt df @ (if tf > 0 then str '' / '' @ FormatInt tf else [])"

text \<open>\<^verbatim>\<open>render\<close> at \<open>now\<close>; \<open>ts\<close> is the time as text. \<open>None\<close>: the rendering of the rate panics.\<close>

definition render :: "bool \<Rightarrow> bytes \<Rightarrow> int \<Rightarrow> progress \<Rightarrow> bytes option \<times> progress" where
  "render tty ts now p =
     (let p = render_rate now p;
          eta = (case render_eta p of None \<Rightarrow> [] | Some d \<Rightarrow> str ''   eta '' @ formatETA d)
      in (map_option (\<lambda>rate.
            let line = bytes_part (pg_doneBytes p) (pg_totalBytes p) @ str ''   '' @ files_part (pg_doneFiles p) (pg_totalFiles p) @
                  str '' files   '' @ rate @ eta
            in if tty then [0x0D, 0x1B] @ str ''[K  '' @ line else ts @ str '' progress  '' @ line @ [newline])
          (humanRate (pg_rate p)), p))"

text \<open>The message of the heartbeat and its fields.\<close>

definition heartbeat_fields :: "u32 list \<Rightarrow> int \<Rightarrow> rat \<Rightarrow> field list option" where
  "heartbeat_fields groups channels rate = map_option (\<lambda>r.
     [(str ''groups'', VStr (formatGroups groups)), (str ''channels'', VOther (FormatInt channels)), (str ''rate'', VStr r)]) (humanRate rate)"

text \<open>
  The goroutines of the progress sink: its ticks render, the ticks of \<^verbatim>\<open>Feed\<close> update from the sample, and \<^verbatim>\<open>Stop\<close> closes the channel both
  select on, once. \<open>ls_panicked\<close>: the rate could not be rendered. \<open>PgSeen\<close>: the goroutine takes the stop.
\<close>

datatype progress_event = PgTick bytes int | PgFeed int int int int | PgStop | PgSeen

record progress_loop =
  ls_p :: progress
  ls_stop :: bool
  ls_running :: bool
  ls_out :: "bytes list"
  ls_panicked :: bool

definition start_progress :: progress_loop where
  "start_progress = \<lparr>ls_p = newProgress, ls_stop = False, ls_running = True, ls_out = [], ls_panicked = False\<rparr>"

definition progress_Stop :: "progress_loop \<Rightarrow> progress_loop" where
  "progress_Stop s = (if ls_stop s then s else s\<lparr>ls_stop := True\<rparr>)"

fun progress_step :: "bool \<Rightarrow> progress_event \<Rightarrow> progress_loop \<Rightarrow> progress_loop" where
  "progress_step tty (PgTick ts now) s = (if \<not> ls_running s then s else case render tty ts now (ls_p s) of
     (None, p) \<Rightarrow> s\<lparr>ls_p := p, ls_panicked := True, ls_running := False\<rparr>
   | (Some b, p) \<Rightarrow> s\<lparr>ls_p := p, ls_out := ls_out s @ [b]\<rparr>)"
| "progress_step tty (PgFeed a b c d) s = s\<lparr>ls_p := Update a b c d (ls_p s)\<rparr>"
| "progress_step tty PgStop s = progress_Stop s"
| "progress_step tty PgSeen s = (if ls_stop s \<and> ls_running s
     then s\<lparr>ls_running := False, ls_out := ls_out s @ (if tty then [[0x0D, 0x1B] @ str ''[K''] else [])\<rparr> else s)"

lemma progress_step_stopped:
  "ls_stop s \<and> \<not> ls_running s \<Longrightarrow> ls_stop (progress_step tty ev s) \<and> \<not> ls_running (progress_step tty ev s) \<and>
     ls_out (progress_step tty ev s) = ls_out s \<and> ls_panicked (progress_step tty ev s) = ls_panicked s"
  by (cases ev) (auto simp: progress_Stop_def)

text \<open>
  Once the sink has seen the stop it writes nothing more, on any further ticks, updates and stops: the terminal stays as it
  was left, with the line erased.
\<close>

theorem progress_silent_after_stop:
  assumes "ls_stop s" "ls_running s"
  shows "ls_out (fold (progress_step tty) evs (progress_step tty PgSeen s)) =
    ls_out s @ (if tty then [[0x0D, 0x1B] @ str ''[K''] else [])"
proof -
  have "ls_stop r \<and> \<not> ls_running r \<Longrightarrow> ls_out (fold (progress_step tty) evs r) = ls_out r" for r
    by (induction evs arbitrary: r) (auto simp: progress_step_stopped)
  from this [of "progress_step tty PgSeen s"] assms show ?thesis by simp
qed

theorem progress_silent_after_stop_witness:
  "ls_out (fold (progress_step False) [PgTick [] 7, PgStop, PgSeen] (progress_step False PgSeen (progress_Stop start_progress))) = []"
  by (subst progress_silent_after_stop) (simp_all add: progress_Stop_def start_progress_def)

text \<open>
  \<^verbatim>\<open>Stop\<close> of the progress sink does not wait for its goroutine: a tick that is handled before the goroutine sees the stop still writes.
\<close>

lemma progress_writes_after_Stop:
  "\<exists>b. ls_out (progress_step tty (PgTick ts now) (progress_Stop start_progress)) = [b]"
proof -
  have "humanRate (pg_rate (render_rate now newProgress)) = Some (FormatInt (round_even 0) @ str '' B/s'')"
    by (simp add: humanRate_def render_rate_def newProgress_def Let_def del: str_Cons)
  then show ?thesis
    by (simp add: progress_Stop_def start_progress_def render_def Let_def del: str_Cons split: prod.splits)
qed

section \<open>The heartbeat's goroutine\<close>

text \<open>
  \<open>hl_stop\<close> and \<open>hl_done\<close> are the two channels of a \<^verbatim>\<open>Heartbeat\<close>, closed or not; \<open>hl_logged\<close> are the fields of the lines logged. A tick
  reads the counter, the groups and the number of channels. A rate that cannot be rendered panics in the goroutine, which then never closes
  \<^verbatim>\<open>done\<close>.
\<close>

record heartbeat_run =
  hl_h :: heartbeat
  hl_stop :: bool
  hl_done :: bool
  hl_panicked :: bool
  hl_logged :: "field list list"

datatype heartbeat_event = HbTick int int "u32 list" int | HbStop | HbSeen

definition NewHeartbeat :: "int \<Rightarrow> int \<Rightarrow> heartbeat_run" where
  "NewHeartbeat now b = \<lparr>hl_h = \<lparr>hb_lastBytes = b, hb_lastAt = now, hb_rate = 0, hb_ticks = 0\<rparr>, hl_stop = False, hl_done = False,
     hl_panicked = False, hl_logged = []\<rparr>"

fun heartbeat_step :: "int \<Rightarrow> heartbeat_event \<Rightarrow> heartbeat_run \<Rightarrow> heartbeat_run" where
  "heartbeat_step per (HbTick now b groups channels) s = (if hl_done s \<or> hl_panicked s then s
     else case heartbeat_tick per (now, b) (hl_h s) of
       (False, h) \<Rightarrow> s\<lparr>hl_h := h\<rparr>
     | (True, h) \<Rightarrow> (case heartbeat_fields groups channels (hb_rate h) of
         None \<Rightarrow> s\<lparr>hl_h := h, hl_panicked := True\<rparr>
       | Some fs \<Rightarrow> s\<lparr>hl_h := h, hl_logged := hl_logged s @ [fs]\<rparr>))"
| "heartbeat_step per HbStop s = s\<lparr>hl_stop := True\<rparr>"
| "heartbeat_step per HbSeen s = (if hl_stop s \<and> \<not> hl_panicked s then s\<lparr>hl_done := True\<rparr> else s)"

text \<open>\<^verbatim>\<open>Stop\<close> closes \<^verbatim>\<open>stop\<close> once and returns when \<^verbatim>\<open>done\<close> is closed.\<close>

definition heartbeat_stopped :: "heartbeat_run \<Rightarrow> bool" where
  "heartbeat_stopped s \<longleftrightarrow> hl_stop s \<and> hl_done s"

text \<open>
  A heartbeat whose \<^verbatim>\<open>Stop\<close> has returned logs nothing more; and as long as its goroutine has not panicked, \<^verbatim>\<open>Stop\<close> returns once the
  goroutine has seen the stop, whatever ticks come in between.
\<close>

theorem heartbeat_stop_waits:
  "heartbeat_stopped s \<Longrightarrow> hl_logged (fold (heartbeat_step per) evs s) = hl_logged s"
  "\<not> hl_panicked (fold (heartbeat_step per) evs (heartbeat_step per HbStop s)) \<Longrightarrow>
     heartbeat_stopped (heartbeat_step per HbSeen (fold (heartbeat_step per) evs (heartbeat_step per HbStop s)))"
proof -
  have quiet: "heartbeat_stopped s \<Longrightarrow> heartbeat_stopped (heartbeat_step per ev s) \<and> hl_logged (heartbeat_step per ev s) = hl_logged s" for s ev
    by (cases ev) (auto simp: heartbeat_stopped_def)
  show "heartbeat_stopped s \<Longrightarrow> hl_logged (fold (heartbeat_step per) evs s) = hl_logged s"
    by (induction evs arbitrary: s) (simp_all add: quiet)
  have stop: "hl_stop s \<Longrightarrow> hl_stop (heartbeat_step per ev s)" for s ev
    by (cases ev) (auto split: prod.splits bool.splits option.splits)
  have "hl_stop s \<Longrightarrow> hl_stop (fold (heartbeat_step per) evs s)" for s
    by (induction evs arbitrary: s) (simp_all add: stop)
  then show "\<not> hl_panicked (fold (heartbeat_step per) evs (heartbeat_step per HbStop s)) \<Longrightarrow>
     heartbeat_stopped (heartbeat_step per HbSeen (fold (heartbeat_step per) evs (heartbeat_step per HbStop s)))"
    by (simp add: heartbeat_stopped_def)
qed

theorem heartbeat_stop_waits_witness:
  "hl_logged (fold (heartbeat_step 1) [HbTick 5 6 [] 2] (heartbeat_step 1 HbSeen (heartbeat_step 1 HbStop (NewHeartbeat 0 0)))) = [] \<and>
   heartbeat_stopped (heartbeat_step 1 HbSeen (heartbeat_step 1 HbStop (NewHeartbeat 0 0)))"
  using heartbeat_stop_waits(2) [of 1 "[]" "NewHeartbeat 0 0"]
    heartbeat_stop_waits(1) [of "heartbeat_step 1 HbSeen (heartbeat_step 1 HbStop (NewHeartbeat 0 0))" 1 "[HbTick 5 6 [] 2]"]
  by (simp add: NewHeartbeat_def)

section \<open>The process\<close>

text \<open>
  \<open>pr_file\<close>: the log file is open besides stderr; \<open>pr_root\<close>, \<open>pr_handler\<close>: what \<^verbatim>\<open>setPkgRoot\<close> and \<^verbatim>\<open>OnFatal\<close> have set; \<open>pr_flushed\<close>: the
  \<^verbatim>\<open>sync.Once\<close> around the flush is done; \<open>pr_exit\<close>: the process has ended with a status.
\<close>

record process =
  pr_lg :: logger
  pr_file :: bool
  pr_session :: bytes
  pr_root :: bool
  pr_handler :: bool
  pr_flushed :: bool
  pr_exit :: "nat option"

definition newSessionID :: "bytes option \<Rightarrow> bytes" where
  "newSessionID random = (case random of None \<Rightarrow> str ''0000000000000000'' | Some b \<Rightarrow> hex_encode b)"

text \<open>\<open>File\<close> with the outcome of opening it; a failure is reported on stderr and ignored.\<close>

definition obs_Init :: "bytes \<Rightarrow> bool \<Rightarrow> bytes option \<Rightarrow> obsConfig \<Rightarrow> process" where
  "obs_Init file opens random cfg = \<lparr>pr_lg = newLogger (obs_withDefaults cfg), pr_file = (file \<noteq> [] \<and> opens),
     pr_session = newSessionID random, pr_root = True, pr_handler = False, pr_flushed = False, pr_exit = None\<rparr>"

text \<open>The writer empties the channel, then the sink is closed; \<^verbatim>\<open>once\<close> lets only the first call through.\<close>

definition flush_logger :: "logger \<Rightarrow> logger" where
  "flush_logger l = (let l = close_sink l in l\<lparr>lg_out := lg_out l @ lg_ch l, lg_ch := []\<rparr>)"

definition flush_once :: "process \<Rightarrow> process" where
  "flush_once p = (if pr_flushed p then p else p\<lparr>pr_lg := flush_logger (pr_lg p), pr_file := False, pr_flushed := True\<rparr>)"

definition OnFatal :: "process \<Rightarrow> process" where
  "OnFatal p = p\<lparr>pr_handler := True\<rparr>"

text \<open>What the sinks need of the outside: the JSON encoder, \<^verbatim>\<open>strconv.Quote\<close>, the time as text and the trace fields of the goroutine.\<close>

record log_env =
  le_json :: "(bytes \<rightharpoonup> fval) \<Rightarrow> bytes option"
  le_quote :: "bytes \<Rightarrow> bytes"
  le_ts :: bytes
  le_tf :: "bytes \<rightharpoonup> fval"

definition on_logger :: "(logger \<Rightarrow> logger) \<Rightarrow> process \<Rightarrow> process" where
  "on_logger g p = p\<lparr>pr_lg := g (pr_lg p)\<rparr>"

definition log_fault :: "log_env \<Rightarrow> err \<Rightarrow> process \<Rightarrow> process" where
  "log_fault env e = on_logger (LogFault (le_json env) (le_quote env) (le_ts env) (le_tf env) (Some e))"

text \<open>The handler that \<^verbatim>\<open>installFatalHandler\<close> sets.\<close>

definition fatal_handler :: "log_env \<Rightarrow> err \<Rightarrow> process \<Rightarrow> process" where
  "fatal_handler env e p = (flush_once (log_fault env e p))\<lparr>pr_exit := Some (ExitCode (Some e))\<rparr>"

definition triggerFatal :: "log_env \<Rightarrow> err \<Rightarrow> process \<Rightarrow> process" where
  "triggerFatal env e p =
     (let p = (if pr_root p then on_logger (DumpRing (le_json env) (le_ts env)) p else p)
      in if pr_handler p then fatal_handler env e p else p)"

text \<open>The end of a goroutine of \<^verbatim>\<open>obs.Go\<close>.\<close>

definition goroutine_end :: "log_env \<Rightarrow> bytes \<Rightarrow> go_end \<Rightarrow> process \<Rightarrow> process" where
  "goroutine_end env name r p = (case r of
     GoPanic m \<Rightarrow>
       let f = Newf E9001 ''goroutine'' name None (str ''panic: '' @ m) in
       triggerFatal env f (on_logger (logAt (le_json env) (le_ts env) (le_tf env) LevelError (str ''goroutine panic'')
         [(str ''code'', VStr E9001), (str ''name'', VStr name), (str ''err'', VStr m)]) p)
   | GoReturn None \<Rightarrow> p
   | GoReturn (Some e) \<Rightarrow> if IsFatal (Some e) then triggerFatal env e (log_fault env e p) else log_fault env e p)"

text \<open>What happens to the process, in order: a record is logged, a goroutine ends, \<^verbatim>\<open>Run\<close> returns and \<^verbatim>\<open>main\<close> exits with its code.\<close>

datatype process_event = PrLog log_env log_record | PrGo log_env bytes go_end | PrMain nat

fun process_step :: "process_event \<Rightarrow> process \<Rightarrow> process" where
  "process_step ev p = (if pr_exit p \<noteq> None then p else case ev of
     PrLog env rec \<Rightarrow> on_logger (log_one (le_json env) rec) p
   | PrGo env name r \<Rightarrow> goroutine_end env name r p
   | PrMain code \<Rightarrow> (flush_once p)\<lparr>pr_exit := Some code\<rparr>)"

definition start_process :: "bytes \<Rightarrow> bool \<Rightarrow> bytes option \<Rightarrow> obsConfig \<Rightarrow> process" where
  "start_process file opens random cfg = OnFatal (obs_Init file opens random cfg)"

text \<open>The status with which an event ends the process, if it does.\<close>

fun event_exit :: "process_event \<Rightarrow> nat option" where
  "event_exit (PrLog env rec) = None"
| "event_exit (PrGo env name r) = map_option (\<lambda>e. ExitCode (Some e)) (obs_Go name r)"
| "event_exit (PrMain code) = Some code"

lemma emit_frame [simp]:
  "lg_sync (emit b l) = lg_sync l" "lg_closed (emit b l) = lg_closed l" "lg_format (emit b l) = lg_format l"
  "\<not> lg_closed l \<Longrightarrow> lg_panicked (emit b l) = lg_panicked l"
  by (simp_all add: emit_def)

lemma log_one_keeps: "lg_closed (log_one jm rec l) = lg_closed l" "\<not> lg_closed l \<Longrightarrow> lg_panicked (log_one jm rec l) = lg_panicked l"
  by (simp_all add: log_one_def Let_def)

lemma LogFault_keeps:
  "lg_closed (LogFault jm q ts tf e l) = lg_closed l" "\<not> lg_closed l \<Longrightarrow> lg_panicked (LogFault jm q ts tf e l) = lg_panicked l"
  by (auto simp: LogFault_def logAt_def log_one_keeps Let_def split: option.splits)

lemma emit_all_keeps: "lg_closed (fold emit bs l) = lg_closed l \<and> (\<not> lg_closed l \<longrightarrow> lg_panicked (fold emit bs l) = lg_panicked l)"
  by (induction bs arbitrary: l) simp_all

lemma DumpRing_keeps: "lg_closed (DumpRing jm ts l) = lg_closed l" "\<not> lg_closed l \<Longrightarrow> lg_panicked (DumpRing jm ts l) = lg_panicked l"
  using emit_all_keeps by (simp_all add: DumpRing_def Let_def)

text \<open>A running process: the handler is set, nothing was flushed, and the sink is open and intact.\<close>

definition running :: "process \<Rightarrow> bool" where
  "running p \<longleftrightarrow> pr_handler p \<and> pr_root p \<and> \<not> pr_flushed p \<and> \<not> lg_closed (pr_lg p) \<and> \<not> lg_panicked (pr_lg p) \<and> pr_exit p = None"

lemma running_on_logger:
  "running p \<Longrightarrow> (\<And>l. \<not> lg_closed l \<Longrightarrow> \<not> lg_closed (g l) \<and> lg_panicked (g l) = lg_panicked l) \<Longrightarrow> running (on_logger g p)"
  by (simp add: running_def on_logger_def)

lemma running_log: "running p \<Longrightarrow> running (on_logger (log_one jm rec) p)" "running p \<Longrightarrow> running (log_fault env e p)"
  "running p \<Longrightarrow> running (on_logger (DumpRing jm ts) p)" "running p \<Longrightarrow> running (on_logger (logAt jm ts tf lvl msg fs) p)"
  by (auto intro!: running_on_logger simp: log_fault_def log_one_keeps LogFault_keeps DumpRing_keeps logAt_def)

lemma flush_running: "running p \<Longrightarrow> pr_flushed (flush_once p) \<and> \<not> lg_panicked (pr_lg (flush_once p)) \<and> lg_ch (pr_lg (flush_once p)) = []"
  by (simp add: running_def flush_once_def flush_logger_def close_sink_def Let_def)

lemma triggerFatal_running:
  assumes "running p"
  shows "pr_exit (triggerFatal env e p) = Some (ExitCode (Some e)) \<and> pr_flushed (triggerFatal env e p) \<and>
    \<not> lg_panicked (pr_lg (triggerFatal env e p)) \<and> lg_ch (pr_lg (triggerFatal env e p)) = []"
proof -
  let ?p = "log_fault env e (on_logger (DumpRing (le_json env) (le_ts env)) p)"
  have "running ?p" using assms by (intro running_log)
  moreover have "triggerFatal env e p = (flush_once ?p)\<lparr>pr_exit := Some (ExitCode (Some e))\<rparr>"
    using assms running_log(3) [OF assms] by (simp add: triggerFatal_def fatal_handler_def running_def Let_def)
  ultimately show ?thesis using flush_running by simp
qed

lemma process_step_running:
  assumes "running p"
  shows "case event_exit ev of
      None \<Rightarrow> running (process_step ev p)
    | Some c \<Rightarrow> pr_exit (process_step ev p) = Some c \<and> pr_flushed (process_step ev p) \<and>
        \<not> lg_panicked (pr_lg (process_step ev p)) \<and> lg_ch (pr_lg (process_step ev p)) = []"
proof -
  have "pr_exit p = None" using assms by (simp add: running_def)
  then show ?thesis using assms running_log triggerFatal_running flush_running
    by (cases ev) (auto simp: goroutine_end_def obs_Go_def Let_def split: go_end.splits option.splits)
qed

text \<open>
  The process ends with the status of the first event that ends it: the code of \<^verbatim>\<open>Run\<close>, or the exit code of the first fault that a
  goroutine escalates (a recovered panic is E9001). It ends with the log flushed exactly once: no line is left in the channel of the
  sink and the sink was not closed twice. Before that event it runs on.
\<close>

theorem process_exit_first:
  assumes "\<forall>ev\<in>set evs. event_exit ev = None" "event_exit ev = Some c"
  shows "let p = fold process_step (evs @ ev # rest) (start_process file opens random cfg) in
    pr_exit p = Some c \<and> pr_flushed p \<and> \<not> lg_panicked (pr_lg p) \<and> lg_ch (pr_lg p) = []"
proof -
  have "running (start_process file opens random cfg)"
    by (simp add: running_def start_process_def OnFatal_def obs_Init_def newLogger_def)
  moreover have "running q \<Longrightarrow> running (fold process_step evs q)" for q
    using assms(1)
  proof (induction evs arbitrary: q)
    case (Cons e evs)
    then show ?case using process_step_running [of q e] by (simp del: process_step.simps)
  qed simp
  ultimately have r: "running (fold process_step evs (start_process file opens random cfg))" by blast
  have "pr_exit q \<noteq> None \<Longrightarrow> fold process_step rest q = q" for q by (induction rest) auto
  with process_step_running [OF r, of ev] assms(2) show ?thesis by (simp del: process_step.simps add: Let_def)
qed

definition sample_log_env :: log_env where
  "sample_log_env = \<lparr>le_json = (\<lambda>_. None), le_quote = id, le_ts = [], le_tf = Map.empty\<rparr>"

theorem process_exit_first_witness:
  "pr_exit (fold process_step [PrLog sample_log_env zero_record, PrGo sample_log_env (str ''fetch'') (GoPanic (str ''x'')), PrMain 0]
     (start_process [] False None (sample_obs False False))) =
     Some (ExitCode (Some (Newf E9001 ''goroutine'' (str ''fetch'') None (str ''panic: '' @ str ''x''))))"
  using process_exit_first [of "[PrLog sample_log_env zero_record]" "PrGo sample_log_env (str ''fetch'') (GoPanic (str ''x''))" _ "[PrMain 0]"
      "[]" False None "sample_obs False False"]
  by (simp add: obs_Go_def Let_def del: process_step.simps str_Cons)

end
