(* ===== verification/Space.thy ===== *)
theory Space
  imports Go_Path Fault "HOL-Library.Sublist"
begin

text \<open>
  The self-copy guard of \<^verbatim>\<open>internal/fsx/space.go\<close>. What \<^verbatim>\<open>filepath.Abs\<close> and \<^verbatim>\<open>filepath.EvalSymlinks\<close> return is an input;
  \<^verbatim>\<open>filepath.Rel\<close> is modelled for the clean absolute paths they return.
\<close>

definition FreeBytes :: "(u64 \<times> u64) option \<Rightarrow> Code + u64" where
  "FreeBytes statfs = (case statfs of None \<Rightarrow> Inl E1006 | Some (bavail, bsize) \<Rightarrow> Inr (bavail * bsize))"

definition resolve_path :: "(bytes \<Rightarrow> bytes option) \<Rightarrow> (bytes \<Rightarrow> bytes option) \<Rightarrow> bytes \<Rightarrow> bytes option" where
  "resolve_path absPath evalSymlinks p = (case absPath p of
     None \<Rightarrow> None
   | Some a \<Rightarrow> (case evalSymlinks a of Some r \<Rightarrow> Some r | None \<Rightarrow> Some a))"

definition abs_parts :: "bytes \<Rightarrow> bytes list" where
  "abs_parts p = filter (\<lambda>w. w \<noteq> []) (SplitSlash p)"

fun strip_common :: "'a list \<Rightarrow> 'a list \<Rightarrow> 'a list \<times> 'a list" where
  "strip_common (b # bs) (t # ts) = (if b = t then strip_common bs ts else (b # bs, t # ts))"
| "strip_common bs ts = (bs, ts)"

definition Rel :: "bytes \<Rightarrow> bytes \<Rightarrow> bytes option" where
  "Rel base targ = (case strip_common (abs_parts base) (abs_parts targ) of (b, t) \<Rightarrow>
     if b = [] \<and> t = [] then Some dot
     else if b \<noteq> [] \<and> hd b = dotdot then None
     else Some (JoinSlash (replicate (length b) dotdot @ t)))"

definition IsInside :: "(bytes \<Rightarrow> bytes option) \<Rightarrow> (bytes \<Rightarrow> bytes option) \<Rightarrow> bytes \<Rightarrow> bytes \<Rightarrow> Code + bool" where
  "IsInside absPath evalSymlinks child parent = (case resolve_path absPath evalSymlinks child of
     None \<Rightarrow> Inl E1008
   | Some c \<Rightarrow> (case resolve_path absPath evalSymlinks parent of
       None \<Rightarrow> Inl E1008
     | Some p \<Rightarrow> (case Rel p c of
         None \<Rightarrow> Inr False
       | Some rel \<Rightarrow> Inr (rel = dot \<or> rel \<noteq> dotdot \<and> \<not> HasPrefix rel (dotdot @ [slash])))))"

section \<open>The guard is exact\<close>

text \<open>A clean absolute path: its components are names.\<close>

definition clean_abs :: "bytes \<Rightarrow> bool" where
  "clean_abs p \<longleftrightarrow> (\<forall>w\<in>set (abs_parts p). w \<noteq> dot \<and> w \<noteq> dotdot)"

lemma SplitSlash_names: "w \<in> set (SplitSlash p) \<Longrightarrow> slash \<notin> set w"
  by (induction p arbitrary: w rule: SplitSlash.induct) (auto split: list.splits if_splits)

lemma strip_common_prefix:
  "strip_common bs ts = (b, t) \<Longrightarrow> (b = [] \<longleftrightarrow> prefix bs ts) \<and> (b = [] \<longrightarrow> bs @ t = ts) \<and> set t \<subseteq> set ts \<and> set b \<subseteq> set bs"
  by (induction bs ts arbitrary: b t rule: strip_common.induct) (auto split: if_splits)

lemma JoinSlash_dotdot_start: "HasPrefix (JoinSlash (dotdot # ws)) (dotdot @ [slash]) \<or> JoinSlash (dotdot # ws) = dotdot"
  by (cases ws) (simp_all add: HasPrefix_def)

lemma JoinSlash_name_start:
  assumes "slash \<notin> set w" "w \<noteq> dotdot"
  shows "JoinSlash (w # ws) \<noteq> dotdot \<and> \<not> HasPrefix (JoinSlash (w # ws)) (dotdot @ [slash])"
proof -
  have d: "slash \<notin> set dotdot" by (simp add: dotdot_def slash_def ch_def)
  have tw: "takeWhile (\<lambda>c. c \<noteq> slash) (v @ slash # z) = v" if "slash \<notin> set v" for v z
    using that by (induction v) auto
  have "w = u" if "w @ slash # x = u @ slash # y" "slash \<notin> set u" for u x y
    using arg_cong [OF that(1), of "takeWhile (\<lambda>c. c \<noteq> slash)"] tw [OF assms(1)] tw [OF that(2)] by simp
  note same = this
  have pre: "\<exists>r. s = dotdot @ slash # r" if "HasPrefix s (dotdot @ [slash])" for s
    using that append_take_drop_id [of "length (dotdot @ [slash])" s] unfolding HasPrefix_def by (metis append.assoc append_Cons append_Nil)
  show ?thesis
  proof (cases ws)
    case Nil
    then have "slash \<notin> set (JoinSlash (w # ws))" using assms(1) by simp
    then show ?thesis using pre [of "JoinSlash (w # ws)"] Nil assms(2) by force
  next
    case (Cons v vs)
    then have j: "JoinSlash (w # ws) = w @ slash # JoinSlash ws" by simp
    have "JoinSlash (w # ws) \<noteq> dotdot" using d j by (metis in_set_conv_decomp)
    moreover have "\<not> HasPrefix (JoinSlash (w # ws)) (dotdot @ [slash])"
      using pre same [OF _ d] assms(2) unfolding j by blast
    ultimately show ?thesis by blast
  qed
qed

text \<open>
  The guard holds exactly when the resolved source is the resolved destination or one of its ancestors, component by
  component: \<^verbatim>\<open>/a/bc\<close> is not inside \<^verbatim>\<open>/a/b\<close>, and a name that begins with two dots is not taken for a step up.
\<close>

theorem IsInside_exact:
  assumes "resolve_path absPath evalSymlinks child = Some c" "resolve_path absPath evalSymlinks parent = Some p" "clean_abs c" "clean_abs p"
  shows "IsInside absPath evalSymlinks child parent = Inr (prefix (abs_parts p) (abs_parts c))"
proof -
  obtain b t where s: "strip_common (abs_parts p) (abs_parts c) = (b, t)" by fastforce
  note sp = strip_common_prefix [OF s]
  have names: "\<forall>w\<in>set t. slash \<notin> set w \<and> w \<noteq> dotdot" "\<forall>w\<in>set b. w \<noteq> dotdot"
    using sp assms(3,4) SplitSlash_names by (auto simp: clean_abs_def abs_parts_def)
  show ?thesis
  proof (cases b)
    case Nil
    then show ?thesis using assms(1,2) s sp names JoinSlash_name_start [of "hd t" "tl t"]
      by (cases t) (auto simp: IsInside_def Rel_def)
  next
    case (Cons w bs)
    have "dot \<noteq> dotdot" "\<not> HasPrefix dot (dotdot @ [slash])" by (simp_all add: dot_def dotdot_def HasPrefix_def)
    moreover have "JoinSlash (replicate (length b) dotdot @ t) \<noteq> dot"
      using JoinSlash_dotdot_start [of "replicate (length bs) dotdot @ t"] Cons calculation by auto
    ultimately show ?thesis using assms(1,2) s sp names Cons JoinSlash_dotdot_start [of "replicate (length bs) dotdot @ t"]
      by (auto simp: IsInside_def Rel_def)
  qed
qed

theorem IsInside_exact_witness:
  "IsInside Some (\<lambda>_. None) (str ''/a/b/c'') (str ''/a/b'') = Inr True \<and> IsInside Some (\<lambda>_. None) (str ''/a/bc'') (str ''/a/b'') = Inr False"
proof -
  have p: "abs_parts (str ''/a/b/c'') = map str [''a'', ''b'', ''c'']" "abs_parts (str ''/a/bc'') = map str [''a'', ''bc'']"
    "abs_parts (str ''/a/b'') = map str [''a'', ''b'']" by code_simp+
  then have "clean_abs (str ''/a/b/c'')" "clean_abs (str ''/a/bc'')" "clean_abs (str ''/a/b'')"
    by (auto simp: clean_abs_def dot_def dotdot_def)
  moreover have "resolve_path Some (\<lambda>_. None) x = Some x" for x by (simp add: resolve_path_def)
  ultimately show ?thesis
    using IsInside_exact [of Some "\<lambda>_. None" "str ''/a/b/c''" "str ''/a/b/c''" "str ''/a/b''" "str ''/a/b''"]
      IsInside_exact [of Some "\<lambda>_. None" "str ''/a/bc''" "str ''/a/bc''" "str ''/a/b''" "str ''/a/b''"] p by simp
qed

end
