(* ===== verification/File_Transfer.thy ===== *)
theory File_Transfer
  imports Serve Fetch
begin

text \<open>
  One file across the two machines: the messages that the sender's handler (\<open>serve\<close>) puts on a data
  channel, received by the receiver's attempt (\<open>fetchOne\<close>) for the same request.
\<close>

section \<open>The stream seen by the receiver\<close>

lemma recv_data_chunks: "recv_data (map Inr (chunk_msgs rid off bs) @ Inr (M_FileComplete c) # ms) = concat bs"
  by (induction bs arbitrary: off) auto

lemma chunk_part:
  assumes "t p = Some (File c md mt)"
  shows "(case t p of Some (File c md mt) \<Rightarrow> t(p \<mapsto> File (c @ d) md mt) | _ \<Rightarrow> t) = t(p \<mapsto> File (c @ d) md mt)"
  using assms by simp

text \<open>With no failing write the loop accepts every chunk of the stream.\<close>

lemma recv_loop_chunks:
  assumes "\<forall>n. io_write io n = None" "ft_tree f (partName (ni_fileID it)) = Some (File c md mt)"
  shows "\<exists>f1 n1. recv_loop io it fm hdr H (map Inr (chunk_msgs rid w bs) @ ms) n acc w f =
      recv_loop io it fm hdr H ms n1 (acc @ concat bs) (w + word_of_nat (length (concat bs))) f1 \<and>
    same_but_tree f f1 \<and> ft_tree f1 = (ft_tree f)(partName (ni_fileID it) \<mapsto> File (c @ concat bs) md mt)"
  using assms(2)
proof (induction bs arbitrary: n acc w f c)
  case Nil
  then have "(ft_tree f)(partName (ni_fileID it) \<mapsto> File c md mt) = ft_tree f" by auto
  then show ?case by (intro exI [of _ f] exI [of _ n]) simp
next
  case (Cons b bs)
  show ?case
  proof (cases "b = []")
    case True
    then show ?thesis using Cons by simp
  next
    case False
    let ?f = "f\<lparr>ft_tree := (ft_tree f)(partName (ni_fileID it) \<mapsto> File (c @ b) md mt), ft_bytes := ft_bytes f + int (length b)\<rparr>"
    have at: "ft_tree ?f (partName (ni_fileID it)) = Some (File (c @ b) md mt)" by simp
    from Cons.IH [OF at, of "w + word_of_nat (length b)" "n + 1" "acc @ b"] obtain f1 n1 where
      IH: "recv_loop io it fm hdr H (map Inr (chunk_msgs rid (w + word_of_nat (length b)) bs) @ ms) (n + 1) (acc @ b)
          (w + word_of_nat (length b)) ?f =
        recv_loop io it fm hdr H ms n1 ((acc @ b) @ concat bs) (w + word_of_nat (length b) + word_of_nat (length (concat bs))) f1"
      "same_but_tree ?f f1" "ft_tree f1 = (ft_tree ?f)(partName (ni_fileID it) \<mapsto> File ((c @ b) @ concat bs) md mt)" by blast
    have step: "recv_loop io it fm hdr H (map Inr (chunk_msgs rid w (b # bs)) @ ms) n acc w f =
        recv_loop io it fm hdr H (map Inr (chunk_msgs rid (w + word_of_nat (length b)) bs) @ ms) (n + 1) (acc @ b)
          (w + word_of_nat (length b)) ?f"
      using False assms(1) Cons.prems by (simp add: Let_def)
    have "same_but_tree f f1" using same_but_tree_step [OF IH(2)] .
    then show ?thesis unfolding step IH(1) using IH(3)
      by (intro exI [of _ f1] exI [of _ n1]) (simp add: add.assoc)
  qed
qed

section \<open>Delivery\<close>

text \<open>The messages of a completed request from offset zero.\<close>

lemma completed_stream:
  assumes "serve s (file_request rid fid) st = (r, st')" "st_sent st' = st_sent st @ ms" "list_ex is_complete ms"
    and "tr_reqToFile (st_tr st) rid = Some fid"
  obtains e src H where "guards_pass s (file_request rid fid) e src" "srv_hash s = Inr H" "sf_end src = None"
    "fid \<in> tr_completedSet (st_tr st')" "wrap64 (i64_of_u64 (word_of_nat (length (concat (sf_reads src))))) = en_Size e"
    "stored_digest s (file_request rid fid) \<noteq> [] \<Longrightarrow> H (concat (sf_reads src)) = stored_digest s (file_request rid fid)"
    "ms = M_FileHeader (file_header s (file_request rid fid) e (stored_digest s (file_request rid fid))) #
       chunk_msgs rid 0 (sf_reads src) @ [M_FileComplete \<lparr>fp_RequestID = rid,
         fp_BytesSent = word_of_nat (length (concat (sf_reads src))), fp_DigestFull = H (concat (sf_reads src))\<rparr>]"
proof -
  let ?req = "file_request rid fid"
  have 4: "tr_reqToFile (st_tr st) (fq_RequestID ?req) = Some (fq_FileID ?req)" using assms(4) by (simp add: file_request_def)
  from serve_completed [OF assms(1-3) 4] obtain e src where g: "guards_pass s ?req e src"
    and c: "completed s ?req e src st r st'" and tr: "fid \<in> tr_completedSet (st_tr st')" by (auto simp: file_request_def)
  have off: "i64_of_u64 (fq_Offset ?req) = 0" by (simp add: file_request_def i64_of_u64_def wrap64_def)
  from c assms(2) g tr that show thesis
    unfolding completed_def Let_def off by (auto simp: u64_of_i64_def) (auto simp: file_request_def)
qed

text \<open>
  C1. A file that arrives is the file that was sent: when the handler on the sender completes a request
  and the receiver's attempt on the resulting messages succeeds, the destination holds exactly the bytes
  the sender read from the checked source file, all of them, and both sides count the file as completed.
\<close>

theorem transfer_faithful:
  assumes "serve s (file_request rid fid) st = (r, st')" "st_sent st' = st_sent st @ ms" "list_ex is_complete ms"
    and "tr_reqToFile (st_tr st) rid = Some fid"
    and "fetchOne io it f = (None, f')" "io_recv io = map Inr ms" "ni_fileID it = fid"
    and "meta_get fid (ft_meta f) = Some fm" "fm_rel fm \<noteq> partName fid" "\<forall>p\<in>set (released f it). pl_rel p \<noteq> fm_rel fm"
  shows "\<exists>e src. guards_pass s (file_request rid fid) e src \<and> sf_end src = None \<and>
    has_content (ft_tree f') (fm_rel fm) (concat (sf_reads src)) \<and>
    wrap64 (i64_of_u64 (word_of_nat (length (concat (sf_reads src))))) = en_Size e \<and>
    fid \<in> tr_completedSet (st_tr st') \<and> fid \<in> set (ft_completed f')"
proof -
  obtain e src H where g: "guards_pass s (file_request rid fid) e src" "sf_end src = None" "fid \<in> tr_completedSet (st_tr st')"
      "wrap64 (i64_of_u64 (word_of_nat (length (concat (sf_reads src))))) = en_Size e"
    and ms: "ms = M_FileHeader (file_header s (file_request rid fid) e (stored_digest s (file_request rid fid))) #
       chunk_msgs rid 0 (sf_reads src) @ [M_FileComplete \<lparr>fp_RequestID = rid,
         fp_BytesSent = word_of_nat (length (concat (sf_reads src))), fp_DigestFull = H (concat (sf_reads src))\<rparr>]"
    by (rule completed_stream [OF assms(1-4)])
  have "io_recv io = Inr (M_FileHeader hdr) # rest \<Longrightarrow> recv_data rest = concat (sf_reads src)" for hdr rest
    using assms(6) recv_data_chunks by (auto simp: ms)
  with fetchOne_cases [OF assms(5), of fm] assms(7-10)
  have "has_content (ft_tree f') (fm_rel fm) (concat (sf_reads src))" "fid \<in> set (ft_completed f')" by auto
  then show ?thesis using g by blast
qed

definition transfer_run :: "err option \<times> serve_state" where
  "transfer_run = serve sample_servicer (file_request 1 0) sample_started"

definition transfer_msgs :: "Message list" where
  "transfer_msgs = [M_FileHeader (file_header sample_servicer (file_request 1 0) sample_entry [3]),
     M_FileChunk \<lparr>fc_RequestID = 1, fc_Offset = 0, fc_Data = [1, 2]\<rparr>, M_FileChunk \<lparr>fc_RequestID = 1, fc_Offset = 2, fc_Data = [3]\<rparr>,
     M_FileComplete \<lparr>fp_RequestID = 1, fp_BytesSent = 3, fp_DigestFull = [3]\<rparr>]"

lemma transfer_run_msgs: "st_sent (snd transfer_run) = st_sent sample_started @ transfer_msgs"
  by (simp add: transfer_run_def transfer_msgs_def sample_started_def serve_eval file_request_def)

lemma transfer_msgs_complete: "list_ex is_complete transfer_msgs" by (simp add: transfer_msgs_def)

lemma transfer_open: "tr_reqToFile (st_tr sample_started) 1 = Some 0"
  using sample_started_open by (simp add: sample_request_def)

lemma transfer_fetch: "fst (fetchOne (sample_io (map Inr transfer_msgs)) (sample_item 0 3) sample_fetcher) = None"
  by code_simp

theorem transfer_faithful_witness:
  "\<exists>f'. fetchOne (sample_io (map Inr transfer_msgs)) (sample_item 0 3) sample_fetcher = (None, f') \<and>
     has_content (ft_tree f') (str ''a'') [1, 2, 3]"
proof -
  obtain f' where 1: "fetchOne (sample_io (map Inr transfer_msgs)) (sample_item 0 3) sample_fetcher = (None, f')"
    using transfer_fetch by (metis prod.collapse)
  have 2: "serve sample_servicer (file_request 1 0) sample_started = (fst transfer_run, snd transfer_run)"
    by (simp add: transfer_run_def)
  have "\<exists>e src. guards_pass sample_servicer (file_request 1 0) e src \<and> sf_end src = None \<and>
      has_content (ft_tree f') (fm_rel sample_meta) (concat (sf_reads src)) \<and>
      wrap64 (i64_of_u64 (word_of_nat (length (concat (sf_reads src))))) = en_Size e \<and>
      0 \<in> tr_completedSet (st_tr (snd transfer_run)) \<and> 0 \<in> set (ft_completed f')"
    by (rule transfer_faithful [OF 2 transfer_run_msgs transfer_msgs_complete transfer_open 1])
      (simp_all add: sample_io_def sample_item_def meta_get_def sample_fetcher_def sample_meta_def partName_def str_def
        released_def registerMaterialised_def newHardlinkMap_def)
  then have "has_content (ft_tree f') (str ''a'') [1, 2, 3]"
    by (auto simp: guards_pass_def sample_servicer_def sample_source_def sample_meta_def)
  with 1 show ?thesis by blast
qed

section \<open>Completion\<close>

text \<open>
  The receiver's side of an attempt in which nothing fails locally: the part file can be opened and
  written, the journal takes the record, and the publication of this content succeeds.
\<close>

definition local_ok :: "fetch_io \<Rightarrow> needItem \<Rightarrow> fileMeta \<Rightarrow> u32 \<Rightarrow> bytes \<Rightarrow> fetcher \<Rightarrow> bool" where
  "local_ok io it fm hmode content f \<longleftrightarrow> io_send io = None \<and> \<not> io_truncate io \<and> \<not> io_seek io \<and> \<not> io_close io \<and> \<not> io_journal io \<and>
     (\<forall>n. io_write io n = None) \<and>
     (case OpenPart (io_sys io) (ni_fileID it) (ft_tree f) of
        (Some _, _) \<Rightarrow> False
      | (None, t) \<Rightarrow> (case t (partName (ni_fileID it)) of
          Some (File _ md mt) \<Rightarrow> fst (PublishPart (io_sys io) (ni_fileID it) (fm_rel fm)
              (if fm_mode fm = 0 then hmode AND 0x1FF else fm_mode fm) (fm_mtime fm)
              (t(partName (ni_fileID it) \<mapsto> File content md mt))) \<in> {None, Some E7006}
        | _ \<Rightarrow> False))"

lemma finish_tail_None: "\<not> io_journal io \<Longrightarrow> fst (finish_tail io it fm local written f) = None"
  by (simp add: finish_tail_def Let_def)

lemma finish_None:
  assumes "verify fm hdr fc local written = None" "\<not> io_journal io"
    and "fst (PublishPart (io_sys io) (ni_fileID it) (fm_rel fm)
      (if fm_mode fm = 0 then fh_Mode hdr AND 0x1FF else fm_mode fm) (fm_mtime fm) (ft_tree f)) \<in> {None, Some E7006}"
  shows "fst (finish io it fm hdr fc local written f) = None"
proof -
  obtain r t where p: "PublishPart (io_sys io) (ni_fileID it) (fm_rel fm)
      (if fm_mode fm = 0 then fh_Mode hdr AND 0x1FF else fm_mode fm) (fm_mtime fm) (ft_tree f) = (r, t)" by fastforce
  then have "r = None \<or> r = Some E7006" using assms(3) by simp
  then show ?thesis unfolding finish_def Let_def p assms(1)
    using finish_tail_None [OF assms(2)] by auto
qed

lemma wrap64_i64 [simp]: "wrap64 (i64_of_u64 v) = i64_of_u64 v"
  by (simp add: i64_of_u64_def)

text \<open>
  C4. What the sender completes the receiver can finish: when the handler completes a request, the
  receiver uses the same hash, its manifest digest for the file is empty or the digest of the content,
  and nothing fails on the receiver's machine, the attempt on those messages succeeds.
\<close>

theorem transfer_completes:
  assumes "serve s (file_request rid fid) st = (r, st')" "st_sent st' = st_sent st @ ms" "list_ex is_complete ms"
    and "tr_reqToFile (st_tr st) rid = Some fid" "srv_hash s = Inr H" "io_hash io = Inr H"
    and "io_recv io = map Inr ms" "ni_fileID it = fid" "meta_get fid (ft_meta f) = Some fm"
    and "\<forall>e src. guards_pass s (file_request rid fid) e src \<longrightarrow> local_ok io it fm (en_Mode e AND 0x1FF) (concat (sf_reads src)) f \<and>
      fm_digest fm \<in> {[], H (concat (sf_reads src))}"
  shows "fst (fetchOne io it f) = None"
proof -
  let ?req = "file_request rid fid" and ?p = "partName (ni_fileID it)"
  obtain e src where g: "guards_pass s ?req e src"
      and size: "wrap64 (i64_of_u64 (word_of_nat (length (concat (sf_reads src))))) = en_Size e"
      and dg: "stored_digest s ?req \<noteq> [] \<Longrightarrow> H (concat (sf_reads src)) = stored_digest s ?req"
      and ms: "ms = M_FileHeader (file_header s ?req e (stored_digest s ?req)) # chunk_msgs rid 0 (sf_reads src) @
         [M_FileComplete \<lparr>fp_RequestID = rid, fp_BytesSent = word_of_nat (length (concat (sf_reads src))), fp_DigestFull = H (concat (sf_reads src))\<rparr>]"
    by (rule completed_stream [OF assms(1-4)]) (use assms(5) in auto)
  let ?c = "concat (sf_reads src)" and ?h = "file_header s ?req e (stored_digest s ?req)"
  let ?fc = "\<lparr>fp_RequestID = rid, fp_BytesSent = word_of_nat (length ?c), fp_DigestFull = H ?c\<rparr>"
  have ok: "local_ok io it fm (en_Mode e AND 0x1FF) ?c f" and fd: "fm_digest fm \<in> {[], H ?c}" using assms(10) g by blast+
  have "u64_of_i64 (en_Size e) = word_of_nat (length ?c)"
    unfolding size [symmetric] by simp
  then have v: "verify fm ?h ?fc (H ?c) (word_of_nat (length ?c)) = None"
    using dg fd by (auto simp: verify_def file_header_def)
  from ok obtain t c0 md mt where op: "OpenPart (io_sys io) (ni_fileID it) (ft_tree f) = (None, t)" and at: "t ?p = Some (File c0 md mt)"
    and pub: "fst (PublishPart (io_sys io) (ni_fileID it) (fm_rel fm) (if fm_mode fm = 0 then (en_Mode e AND 0x1FF) AND 0x1FF else fm_mode fm)
       (fm_mtime fm) (t(?p \<mapsto> File ?c md mt))) \<in> {None, Some E7006}"
    by (auto simp: local_ok_def split: prod.splits option.splits node.splits)
  have flags: "io_send io = None" "\<not> io_truncate io" "\<not> io_seek io" "\<not> io_close io" "\<not> io_journal io" "\<forall>n. io_write io n = None"
    using ok by (simp_all add: local_ok_def)
  let ?f = "f\<lparr>ft_reqID := ft_reqID f + 1, ft_sent := ft_sent f @ [file_request (ft_reqID f + 1) (ni_fileID it)], ft_tree := t(?p \<mapsto> File [] md mt)\<rparr>"
  have at': "ft_tree ?f ?p = Some (File [] md mt)" by simp
  from recv_loop_chunks [OF flags(6) at', of fm ?h H rid 0 "sf_reads src" "[Inr (M_FileComplete ?fc)]" 0 "[]"]
  obtain f1 n1 where loop: "recv_loop io it fm ?h H (map Inr (chunk_msgs rid 0 (sf_reads src)) @ [Inr (M_FileComplete ?fc)]) 0 [] 0 ?f =
      (False, finish io it fm ?h ?fc (H ?c) (word_of_nat (length ?c)) f1)" and f1: "ft_tree f1 = t(?p \<mapsto> File ?c md mt)"
    using flags(4) by auto
  have fin: "fst (finish io it fm ?h ?fc (H ?c) (word_of_nat (length ?c)) f1) = None"
  proof (rule finish_None [OF v flags(5)])
    have h: "fh_Mode ?h = en_Mode e AND 0x1FF" by (simp add: file_header_def)
    show "fst (PublishPart (io_sys io) (ni_fileID it) (fm_rel fm) (if fm_mode fm = 0 then fh_Mode ?h AND 0x1FF else fm_mode fm)
        (fm_mtime fm) (ft_tree f1)) \<in> {None, Some E7006}" unfolding h f1 by (rule pub)
  qed
  have "fetch_body io it f = (False, finish io it fm ?h ?fc (H ?c) (word_of_nat (length ?c)) f1)"
    using assms(6-9) flags op at loop by (simp add: fetch_body_def fetch_content_def Let_def ms)
  then show ?thesis using fin by (auto simp: fetchOne_def split: prod.splits option.splits)
qed

lemma sample_paths:
  "ancestors (str ''.esync/parts'') = [str ''.esync'']" "ancestors (str ''a'') = []" "path_Dir (str ''a'') = dot"
  by code_simp+

lemma sample_names: "str ''.esync'' \<noteq> str ''.esync/parts''" "partName i \<noteq> str ''.esync''" "partName i \<noteq> str ''.esync/parts''"
    "partName i \<noteq> str ''a''"
  by (simp_all add: str_def partName_def)

lemma sample_OpenPart:
  "OpenPart (\<lambda>_. None) 0 Map.empty = (None, [str ''.esync'' \<mapsto> new_dir, str ''.esync/parts'' \<mapsto> new_dir, partName 0 \<mapsto> File [] 0x180 (0, 0)])"
  using sample_names(1) sample_names(2,3) [of 0] by (simp add: OpenPart_def MkdirAll_def sample_paths Let_def del: str_Cons)

lemma sample_publish:
  "t (partName 0) = Some (File c m mt) \<Longrightarrow> t (str ''a'') = None \<Longrightarrow> fst (PublishPart (\<lambda>_. None) 0 (str ''a'') mode time t) = None"
  using sample_names(4) [of 0]
  by (simp add: PublishPart_def checkParentSymlinks_def mkParents_def sample_paths Chmod_def Chtimes_def Rename_def Let_def del: str_Cons)

theorem transfer_completes_witness:
  "fst (fetchOne (sample_io (map Inr transfer_msgs)) (sample_item 0 3) sample_fetcher) = None"
proof -
  have 2: "serve sample_servicer (file_request 1 0) sample_started = (fst transfer_run, snd transfer_run)"
    by (simp add: transfer_run_def)
  have l: "local_ok (sample_io (map Inr transfer_msgs)) (sample_item 0 3) sample_meta 0x1A4 [1, 2, 3] sample_fetcher"
    using sample_names(4) [of 0]
    by (simp add: local_ok_def sample_io_def sample_item_def sample_fetcher_def sample_OpenPart sample_meta_def sample_publish del: str_Cons)
  have g: "e = sample_entry \<and> src = sample_source" if "guards_pass sample_servicer (file_request 1 0) e src" for e src
    using that by (auto simp: guards_pass_def sample_servicer_def file_request_def)
  have c: "concat (sf_reads sample_source) = [1, 2, 3]" "en_Mode sample_entry AND 0x1FF = 0x1A4"
    by (simp_all add: sample_source_def sample_entry_def)
  have m: "fm_digest sample_meta = [3]" by (simp add: sample_meta_def)
  show ?thesis
  proof (rule transfer_completes [OF 2 transfer_run_msgs transfer_msgs_complete transfer_open])
    show "srv_hash sample_servicer = Inr (\<lambda>bs. [word_of_nat (length bs)])" by (simp add: sample_servicer_def)
    show "io_hash (sample_io (map Inr transfer_msgs)) = Inr (\<lambda>bs. [word_of_nat (length bs)])" by (simp add: sample_io_def)
    show "io_recv (sample_io (map Inr transfer_msgs)) = map Inr transfer_msgs" by (simp add: sample_io_def)
    show "ni_fileID (sample_item 0 3) = 0" by (simp add: sample_item_def)
    show "meta_get 0 (ft_meta sample_fetcher) = Some sample_meta" by (simp add: meta_get_def sample_fetcher_def)
    show "\<forall>e src. guards_pass sample_servicer (file_request 1 0) e src \<longrightarrow>
        local_ok (sample_io (map Inr transfer_msgs)) (sample_item 0 3) sample_meta (en_Mode e AND 0x1FF) (concat (sf_reads src)) sample_fetcher \<and>
        fm_digest sample_meta \<in> {[], (\<lambda>bs. [word_of_nat (length bs)]) (concat (sf_reads src))}"
      using g l c m by fastforce
  qed
qed

section \<open>When the two sides disagree\<close>

text \<open>
  A failure on the receiver after the sender has sent FILE_COMPLETE cannot be reconciled: the
  sender's tracker counts the file as completed, the failed attempt is not recorded by the receiver, and
  as long as that file is not completed by a later attempt the two completion digests are computed over
  different bytes, so the session ends in E5005.
\<close>

theorem late_failure_splits_digest:
  assumes "tr_reach gf t" "ni_fileID it \<in> tr_completedSet t"
    and "fetchOne io it f = (Some e, f')" "ni_fileID it \<notin> set (ft_completed f)" "distinct (ft_completed f)"
    and "meta_get (ni_fileID it) (ft_meta f) = Some fm" "fm_rel fm \<noteq> partName (ni_fileID it)"
    and "\<forall>p\<in>set (released f it). pl_rel p \<noteq> fm_rel fm"
  shows "completion_input (tr_completed t) \<noteq> completion_input (ft_completed f')"
proof -
  have d: "distinct (tr_completed t)" "set (tr_completed t) = tr_completedSet t"
    using tr_reach_inv [OF assms(1)] by (auto simp: req_inv_def)
  have "ft_completed f' = ft_completed f" using fetchOne_cases [OF assms(3,6-8)] by auto
  then show ?thesis using completion_input_eq [OF d(1) assms(5)] assms(2,4) d(2) by auto
qed

definition failing_io :: fetch_io where
  "failing_io = (sample_io (map Inr transfer_msgs))\<lparr>io_close := True\<rparr>"

theorem late_failure_splits_digest_witness:
  "\<exists>e f'. fetchOne failing_io (sample_item 0 3) sample_fetcher = (Some e, f') \<and>
     completion_input (tr_completed sample_tracker) \<noteq> completion_input (ft_completed f')"
proof -
  have "fst (fetchOne failing_io (sample_item 0 3) sample_fetcher) \<noteq> None" by code_simp
  then obtain e f' where 1: "fetchOne failing_io (sample_item 0 3) sample_fetcher = (Some e, f')"
    by (metis not_None_eq prod.collapse)
  have s: "ni_fileID (sample_item 0 3) = 0" "meta_get 0 (ft_meta sample_fetcher) = Some sample_meta"
    by (simp_all add: sample_item_def meta_get_def sample_fetcher_def)
  have "ni_fileID (sample_item 0 3) \<in> tr_completedSet sample_tracker" by (simp add: s sample_tracker_def tracker_eval)
  from late_failure_splits_digest [OF sample_tracker_reach this 1] show ?thesis
    using 1 s sample_names(4) [of 0] by (auto simp: sample_fetcher_def released_def registerMaterialised_def newHardlinkMap_def sample_meta_def)
qed

end
