(* ===== verification/Receiver_Pipeline.thy ===== *)
theory Receiver_Pipeline
  imports Receiver_Session
begin

text \<open>
  The goroutines of a receiving session and how they work together (\<^verbatim>\<open>internal/receiver/run.go\<close>, steps 7 to 10 of
  \<^verbatim>\<open>Run\<close>, \<^verbatim>\<open>registerAndStart\<close>, \<^verbatim>\<open>rejoinLoop\<close>): the control reader fills a bounded channel with manifests, the decide
  workers turn them into batches of the need queue, the fetch workers empty the queue, lost channels are rejoined,
  the controller opens and retires channels, and one goroutine waits for the end of all of it. Each goroutine has
  its own step relation, whose steps are the sections of the code between two points where others can interfere;
  \<open>pipe_step\<close> interleaves them arbitrarily. What a file transfer or a decide pass yields is arbitrary within what
  \<open>after_fetch\<close>, \<open>pushGroup\<close> and \<open>pushFallback\<close> do to the queue.
\<close>

section \<open>State\<close>

text \<open>
  A decide worker waits for a manifest, evaluates one, or is in \<^verbatim>\<open>pushGroup\<close> with the batch of one. A rejoin goroutine
  waits before attempt \<open>k\<close>, has passed its checks, dials, has used up its attempts, or has found no channel left.
\<close>

datatype dworker = DIdle | DBusy GroupManifest | DPush GroupManifest "needItem list"

datatype rejoiner = RWait nat | RTry nat | RDial nat u8 | RLast | RZero

datatype wait_stage = WaitDecide | WaitDrained | WaitWorkers | WaitEnd

record pipe_cfg =
  pc_chan :: chan_cfg
  pc_manifestCap :: nat
  pc_decideWorkers :: nat
  pc_maxRetries :: nat
  pc_dryRun :: bool

definition pipe_cfg_of :: "rConfig \<Rightarrow> u32 \<Rightarrow> pipe_cfg" where
  "pipe_cfg_of c spMax = \<lparr>pc_chan = chan_cfg_of c spMax, pc_manifestCap = nat (2 * rc_GroupCredit c + 8),
     pc_decideWorkers = nat (rc_DecideWorkers c), pc_maxRetries = nat (rc_MaxRetries c), pc_dryRun = rc_DryRun c\<rparr>"

text \<open>
  \<open>pi_ctl\<close> holds the control reader and the fault latch with the root context; the content of the manifest channel is what
  the reader has put there less the \<open>pi_taken\<close> taken. \<open>pi_held\<close> are the items in the hands of fetch workers, by channel,
  \<open>pi_tuner\<close> the id the controller is dialling. \<open>pi_decided\<close> and \<open>pi_lost\<close> record the history: the batches pushed, and the
  number of channels lost.
\<close>

record pipe =
  pi_ctl :: ctl_state
  pi_taken :: nat
  pi_deciders :: "dworker list"
  pi_decided :: "(GroupManifest \<times> needItem list) list"
  pi_q :: needQueue
  pi_pool :: pool
  pi_held :: "(u8 \<times> needItem) list"
  pi_rejoin :: "rejoiner list"
  pi_tuner :: "u8 option"
  pi_lost :: nat
  pi_wait :: wait_stage

text \<open>The start of the pipeline, with \<open>n\<close> open data channels, after the wait for SCAN_COMPLETE has left the reader in \<open>ctl\<close>.\<close>

definition pipe_start :: "pipe_cfg \<Rightarrow> nat \<Rightarrow> ctl_state \<Rightarrow> pipe" where
  "pipe_start cfg n ctl = \<lparr>pi_ctl = ctl, pi_taken = 0, pi_deciders = replicate (pc_decideWorkers cfg) DIdle, pi_decided = [],
     pi_q = newNeedQueue needQueueDepth,
     pi_pool = (if pc_dryRun cfg then (initialPool 0)\<lparr>cp_nextChID := word_of_nat n\<rparr> else initialPool n),
     pi_held = [], pi_rejoin = [], pi_tuner = None, pi_lost = 0, pi_wait = WaitDecide\<rparr>"

definition pipe_fail :: "err \<Rightarrow> pipe \<Rightarrow> pipe" where
  "pipe_fail e s = s\<lparr>pi_ctl := ctl_fail e (pi_ctl s)\<rparr>"

text \<open>\<^verbatim>\<open>ctx.Err() != nil\<close> for the context of a channel, which is a child of the root context.\<close>

definition worker_done :: "pipe \<Rightarrow> u8 \<Rightarrow> bool" where
  "worker_done s i \<longleftrightarrow> ct_cancelled (pi_ctl s) \<or> i \<in> cp_cancelled (pi_pool s)"

text \<open>The end of a fetch goroutine: the deferred calls, and a rejoin when the channel was lost.\<close>

definition exit_worker :: "bool \<Rightarrow> u8 \<Rightarrow> pipe \<Rightarrow> pipe" where
  "exit_worker lost i s = s\<lparr>pi_pool := workerExit i (pi_pool s),
     pi_rejoin := (if lost \<and> \<not> ct_cancelled (pi_ctl s) then pi_rejoin s @ [RWait 0] else pi_rejoin s),
     pi_lost := (if lost then Suc (pi_lost s) else pi_lost s)\<rparr>"

section \<open>The goroutines\<close>

subsection \<open>The control reader\<close>

text \<open>A manifest waits for room on its channel unless the context is cancelled.\<close>

fun has_room :: "pipe_cfg \<Rightarrow> pipe \<Rightarrow> err + Message \<Rightarrow> bool" where
  "has_room cfg s (Inr (M_GroupManifest v)) \<longleftrightarrow> ct_closed (pi_ctl s) \<or> ct_cancelled (pi_ctl s) \<or>
     length (ct_manifests (pi_ctl s)) - pi_taken s < pc_manifestCap cfg"
| "has_room cfg s _ \<longleftrightarrow> True"

inductive reader_step :: "pipe_cfg \<Rightarrow> pipe \<Rightarrow> pipe \<Rightarrow> bool" for cfg where
  read: "ct_running (pi_ctl s) \<Longrightarrow> has_room cfg s inp \<Longrightarrow> reader_step cfg s (s\<lparr>pi_ctl := readControl inp (pi_ctl s)\<rparr>)"

subsection \<open>A decide worker\<close>

text \<open>The send of the credit that ends \<^verbatim>\<open>decideGroup\<close>, and what the worker does with its result.\<close>

definition credit_sent :: "err option \<Rightarrow> dworker list \<Rightarrow> dworker list \<Rightarrow> pipe \<Rightarrow> pipe" where
  "credit_sent credit us vs s = (case credit of
     None \<Rightarrow> s\<lparr>pi_deciders := us @ DIdle # vs\<rparr>
   | Some e \<Rightarrow> pipe_fail e (s\<lparr>pi_deciders := us @ vs\<rparr>))"

inductive decide_step :: "pipe_cfg \<Rightarrow> pipe \<Rightarrow> pipe \<Rightarrow> bool" for cfg where
  take: "pi_deciders s = us @ DIdle # vs \<Longrightarrow> pi_taken s < length (ct_manifests (pi_ctl s)) \<Longrightarrow>
    decide_step cfg s (s\<lparr>pi_deciders := us @ DBusy (ct_manifests (pi_ctl s) ! pi_taken s) # vs, pi_taken := Suc (pi_taken s)\<rparr>)"
| fallback: "pi_deciders s = us @ DBusy gm # vs \<Longrightarrow> \<not> pc_dryRun cfg \<Longrightarrow>
    decide_step cfg s (s\<lparr>pi_q := pushFallback x (pi_q s)\<rparr>)"
| evaluated: "pi_deciders s = us @ DBusy gm # vs \<Longrightarrow> length items \<le> length (gm_Entries gm) \<Longrightarrow>
    decide_step cfg s (s\<lparr>pi_deciders := us @ DPush gm items # vs\<rparr>)"
| failed: "pi_deciders s = us @ DBusy gm # vs \<Longrightarrow> decide_step cfg s (pipe_fail e (s\<lparr>pi_deciders := us @ vs\<rparr>))"
| push: "pi_deciders s = us @ DPush gm items # vs \<Longrightarrow> \<not> pc_dryRun cfg \<Longrightarrow> pushGroup items (pi_q s) = Pushed q' \<Longrightarrow>
    decide_step cfg s (credit_sent credit us vs (s\<lparr>pi_q := q', pi_decided := pi_decided s @ [(gm, items)]\<rparr>))"
| dry: "pi_deciders s = us @ DPush gm items # vs \<Longrightarrow> pc_dryRun cfg \<Longrightarrow>
    decide_step cfg s (credit_sent credit us vs (s\<lparr>pi_decided := pi_decided s @ [(gm, items)]\<rparr>))"
| stopped: "pi_deciders s = us @ DPush gm items # vs \<Longrightarrow> \<not> pc_dryRun cfg \<Longrightarrow>
    pushGroup items (pi_q s) = QueueClosed \<or> pushGroup items (pi_q s) = Blocked \<and> ct_cancelled (pi_ctl s) \<Longrightarrow>
    decide_step cfg s (s\<lparr>pi_deciders := us @ DIdle # vs\<rparr>)"
| ended: "pi_deciders s = us @ DIdle # vs \<Longrightarrow> ct_closed (pi_ctl s) \<Longrightarrow> pi_taken s = length (ct_manifests (pi_ctl s)) \<Longrightarrow>
    decide_step cfg s (s\<lparr>pi_deciders := us @ vs\<rparr>)"

subsection \<open>A fetch worker\<close>

text \<open>The fault that the loop reports to the session after an attempt with result \<open>r\<close>.\<close>

definition fetch_fatal :: "bool \<Rightarrow> err option \<Rightarrow> err option" where
  "fetch_fatal ctxDone r = (case r of
     Some e \<Rightarrow> if \<not> ctxDone \<and> \<not> has_wrap ''channelLost'' e \<and> IsFatal (Some e) then Some e else None
   | None \<Rightarrow> None)"

definition settle_item :: "loop_ctl \<Rightarrow> u8 \<Rightarrow> err option \<Rightarrow> pipe \<Rightarrow> pipe" where
  "settle_item c i fatal s =
     (let s = (case fatal of None \<Rightarrow> s | Some e \<Rightarrow> pipe_fail e s)
      in case c of LoopNext \<Rightarrow> s | LoopExit lost \<Rightarrow> exit_worker lost i s)"

text \<open>The cancellation that the loop saw after the attempt (\<open>ctxDone\<close>) or in its backoff (\<open>stopped\<close>) has happened by now.\<close>

inductive fetch_step :: "pipe_cfg \<Rightarrow> pipe \<Rightarrow> pipe \<Rightarrow> bool" for cfg where
  pop: "i \<in> set (cp_workers (pi_pool s)) \<Longrightarrow> i \<notin> fst ` set (pi_held s) \<Longrightarrow> \<not> worker_done s i \<Longrightarrow>
    pop (pi_q s) = PopItem it q' \<Longrightarrow> fetch_step cfg s (s\<lparr>pi_q := q', pi_held := (i, it) # pi_held s\<rparr>)"
| ended: "i \<in> set (cp_workers (pi_pool s)) \<Longrightarrow> i \<notin> fst ` set (pi_held s) \<Longrightarrow> worker_done s i \<or> pop (pi_q s) = PopEnd \<Longrightarrow>
    fetch_step cfg s (exit_worker False i s)"
| fallback: "(i, it) \<in> set (pi_held s) \<Longrightarrow> fetch_step cfg s (s\<lparr>pi_q := pushFallback x (pi_q s)\<rparr>)"
| attempt: "pi_held s = us @ (i, it) # vs \<Longrightarrow> fb_queue (ft_fb f) = pi_q s \<Longrightarrow> ctxDone \<or> stopped \<longrightarrow> worker_done s i \<Longrightarrow>
    after_fetch (pc_maxRetries cfg) ctxDone stopped it r f = (c, f') \<Longrightarrow>
    fetch_step cfg s (settle_item c i (fetch_fatal ctxDone r) (s\<lparr>pi_q := fb_queue (ft_fb f'), pi_held := us @ vs\<rparr>))"

subsection \<open>Opening and retiring channels\<close>

text \<open>
  A join succeeds only with an id that the sender has not admitted before, so a worker that is registered has an id
  that no worker has or had.
\<close>

definition joinable :: "u8 \<Rightarrow> pool \<Rightarrow> bool" where
  "joinable i p \<longleftrightarrow> i \<notin> set (cp_workers p) \<and> i \<notin> cp_cancelled p"

inductive rejoin_step :: "pipe_cfg \<Rightarrow> pipe \<Rightarrow> pipe \<Rightarrow> bool" for cfg where
  gone: "pi_rejoin s = us @ RWait k # vs \<Longrightarrow>
    ct_cancelled (pi_ctl s) \<or> ct_fatal (pi_ctl s) \<noteq> None \<or> channelCount (pi_pool s) \<ge> dataCeiling (pc_chan cfg) \<Longrightarrow>
    rejoin_step cfg s (s\<lparr>pi_rejoin := us @ vs\<rparr>)"
| checked: "pi_rejoin s = us @ RWait k # vs \<Longrightarrow> ct_fatal (pi_ctl s) = None \<Longrightarrow>
    channelCount (pi_pool s) < dataCeiling (pc_chan cfg) \<Longrightarrow> rejoin_step cfg s (s\<lparr>pi_rejoin := us @ RTry k # vs\<rparr>)"
| drained: "pi_rejoin s = us @ RTry k # vs \<Longrightarrow> reserveChannel (pi_pool s) = None \<Longrightarrow>
    rejoin_step cfg s (s\<lparr>pi_rejoin := us @ vs\<rparr>)"
| dial: "pi_rejoin s = us @ RTry k # vs \<Longrightarrow> reserveChannel (pi_pool s) = Some (i, p) \<Longrightarrow>
    rejoin_step cfg s (s\<lparr>pi_pool := p, pi_rejoin := us @ RDial k i # vs\<rparr>)"
| joined: "pi_rejoin s = us @ RDial k i # vs \<Longrightarrow> joinable i (pi_pool s) \<Longrightarrow>
    rejoin_step cfg s (s\<lparr>pi_pool := register i (pi_pool s), pi_rejoin := us @ vs\<rparr>)"
| refused: "pi_rejoin s = us @ RDial k i # vs \<Longrightarrow>
    rejoin_step cfg s (s\<lparr>pi_pool := dialFailed i (pi_pool s),
      pi_rejoin := us @ (if Suc k < length joinBackoff then RWait (Suc k) else RLast) # vs\<rparr>)"
| spare: "pi_rejoin s = us @ RLast # vs \<Longrightarrow> ct_fatal (pi_ctl s) \<noteq> None \<or> channelCount (pi_pool s) \<noteq> 0 \<Longrightarrow>
    rejoin_step cfg s (s\<lparr>pi_rejoin := us @ vs\<rparr>)"
| none_left: "pi_rejoin s = us @ RLast # vs \<Longrightarrow> ct_fatal (pi_ctl s) = None \<Longrightarrow> channelCount (pi_pool s) = 0 \<Longrightarrow>
    rejoin_step cfg s (s\<lparr>pi_rejoin := us @ RZero # vs\<rparr>)"
| no_work: "pi_rejoin s = us @ RZero # vs \<Longrightarrow> queue_drained (pi_q s) \<Longrightarrow> rejoin_step cfg s (s\<lparr>pi_rejoin := us @ vs\<rparr>)"
| fatal: "pi_rejoin s = us @ RZero # vs \<Longrightarrow> \<not> queue_drained (pi_q s) \<Longrightarrow>
    rejoin_step cfg s (pipe_fail (New E3005 ''last data channel retired'' [] None) (s\<lparr>pi_rejoin := us @ vs\<rparr>))"

text \<open>The controller; when it acts is decided by what \<open>tuneTick\<close> measures.\<close>

inductive tune_step :: "pipe_cfg \<Rightarrow> pipe \<Rightarrow> pipe \<Rightarrow> bool" for cfg where
  retire: "\<not> pc_dryRun cfg \<Longrightarrow> \<not> cc_ChannelsPinned (pc_chan cfg) \<Longrightarrow> pi_tuner s = None \<Longrightarrow> retireOne (pi_pool s) = (True, p) \<Longrightarrow>
    tune_step cfg s (s\<lparr>pi_pool := p\<rparr>)"
| dial: "\<not> pc_dryRun cfg \<Longrightarrow> \<not> cc_ChannelsPinned (pc_chan cfg) \<Longrightarrow> pi_tuner s = None \<Longrightarrow> reserveChannel (pi_pool s) = Some (i, p) \<Longrightarrow>
    tune_step cfg s (s\<lparr>pi_pool := p, pi_tuner := Some i\<rparr>)"
| joined: "pi_tuner s = Some i \<Longrightarrow> joinable i (pi_pool s) \<Longrightarrow>
    tune_step cfg s (s\<lparr>pi_pool := register i (pi_pool s), pi_tuner := None\<rparr>)"
| refused: "pi_tuner s = Some i \<Longrightarrow> tune_step cfg s (s\<lparr>pi_pool := dialFailed i (pi_pool s), pi_tuner := None\<rparr>)"

subsection \<open>The end of the pipeline\<close>

text \<open>The goroutine \<^verbatim>\<open>pipeline.wait\<close>. Past \<open>WaitDrained\<close> the channel \<^verbatim>\<open>reachable\<close> is closed, at \<open>WaitEnd\<close> also \<^verbatim>\<open>done\<close>.\<close>

inductive wait_step :: "pipe \<Rightarrow> pipe \<Rightarrow> bool" where
  decided: "pi_wait s = WaitDecide \<Longrightarrow> pi_deciders s = [] \<Longrightarrow>
    wait_step s (s\<lparr>pi_q := queue_close (pi_q s), pi_wait := WaitDrained\<rparr>)"
| drained: "pi_wait s = WaitDrained \<Longrightarrow> ct_cancelled (pi_ctl s) \<or> queue_drained (pi_q s) \<Longrightarrow>
    wait_step s (s\<lparr>pi_pool := setPipelineDone (pi_pool s), pi_wait := WaitWorkers\<rparr>)"
| workers: "pi_wait s = WaitWorkers \<Longrightarrow> cp_wg (pi_pool s) = 0 \<Longrightarrow> wait_step s (s\<lparr>pi_wait := WaitEnd\<rparr>)"

text \<open>
  \<open>work_step\<close>: the pipeline by itself, with the end of a dial that the controller has begun. \<open>pipe_step\<close> adds the messages of
  the sender, the decisions of the controller, and faults from outside.
\<close>

inductive work_step :: "pipe_cfg \<Rightarrow> pipe \<Rightarrow> pipe \<Rightarrow> bool" for cfg where
  decide: "decide_step cfg s s' \<Longrightarrow> work_step cfg s s'"
| fetch: "fetch_step cfg s s' \<Longrightarrow> work_step cfg s s'"
| rejoin: "rejoin_step cfg s s' \<Longrightarrow> work_step cfg s s'"
| wait: "wait_step s s' \<Longrightarrow> work_step cfg s s'"
| dialled: "pi_tuner s \<noteq> None \<Longrightarrow> tune_step cfg s s' \<Longrightarrow> work_step cfg s s'"

inductive pipe_step :: "pipe_cfg \<Rightarrow> pipe \<Rightarrow> pipe \<Rightarrow> bool" for cfg where
  work: "work_step cfg s s' \<Longrightarrow> pipe_step cfg s s'"
| reader: "reader_step cfg s s' \<Longrightarrow> pipe_step cfg s s'"
| tune: "tune_step cfg s s' \<Longrightarrow> pipe_step cfg s s'"
| fail: "pipe_step cfg s (pipe_fail e s)"

text \<open>
  The select of \<^verbatim>\<open>Run\<close> on the pipeline: which of its cases can end it. After a cancellation it waits no longer than a
  grace period.
\<close>

fun pipe_verdict :: "pipe \<Rightarrow> pipeline_end \<Rightarrow> bool" where
  "pipe_verdict s pipeline_end.PipelineDone \<longleftrightarrow> pi_wait s = WaitEnd"
| "pipe_verdict s DrainTimeout \<longleftrightarrow> pi_wait s \<in> {WaitWorkers, WaitEnd}"
| "pipe_verdict s PipelineCancelled \<longleftrightarrow> ct_cancelled (pi_ctl s)"

section \<open>What the steps keep\<close>

lemma ctl_fail_sel [simp]:
  "ct_cancelled (ctl_fail e c)" "ct_fatal (ctl_fail e c) = Some (case ct_fatal c of None \<Rightarrow> e | Some e0 \<Rightarrow> e0)" "ct_closed (ctl_fail e c) = ct_closed c"
  "ct_manifests (ctl_fail e c) = ct_manifests c" "ct_running (ctl_fail e c) = ct_running c"
  by (simp_all add: ctl_fail_def)

lemma pipe_fail_sel [simp]:
  "pi_ctl (pipe_fail e s) = ctl_fail e (pi_ctl s)" "pi_taken (pipe_fail e s) = pi_taken s"
  "pi_deciders (pipe_fail e s) = pi_deciders s" "pi_decided (pipe_fail e s) = pi_decided s" "pi_q (pipe_fail e s) = pi_q s"
  "pi_pool (pipe_fail e s) = pi_pool s" "pi_held (pipe_fail e s) = pi_held s" "pi_rejoin (pipe_fail e s) = pi_rejoin s"
  "pi_tuner (pipe_fail e s) = pi_tuner s" "pi_lost (pipe_fail e s) = pi_lost s" "pi_wait (pipe_fail e s) = pi_wait s"
  by (simp_all add: pipe_fail_def)

lemma credit_sent_sel [simp]:
  "pi_taken (credit_sent c us vs s) = pi_taken s" "pi_decided (credit_sent c us vs s) = pi_decided s"
  "pi_q (credit_sent c us vs s) = pi_q s" "pi_pool (credit_sent c us vs s) = pi_pool s"
  "pi_held (credit_sent c us vs s) = pi_held s" "pi_rejoin (credit_sent c us vs s) = pi_rejoin s"
  "pi_tuner (credit_sent c us vs s) = pi_tuner s" "pi_lost (credit_sent c us vs s) = pi_lost s"
  "pi_wait (credit_sent c us vs s) = pi_wait s"
  "ct_manifests (pi_ctl (credit_sent c us vs s)) = ct_manifests (pi_ctl s)"
  "ct_closed (pi_ctl (credit_sent c us vs s)) = ct_closed (pi_ctl s)"
  "pi_deciders (credit_sent c us vs s) = us @ (if c = None then [DIdle] else []) @ vs"
  "ct_cancelled (pi_ctl (credit_sent c us vs s)) \<longleftrightarrow> ct_cancelled (pi_ctl s) \<or> c \<noteq> None"
  "ct_fatal (pi_ctl (credit_sent c us vs s)) = None \<longleftrightarrow> ct_fatal (pi_ctl s) = None \<and> c = None"
  by (auto simp: credit_sent_def split: option.splits)

lemma exit_worker_sel [simp]:
  "pi_ctl (exit_worker l i s) = pi_ctl s" "pi_taken (exit_worker l i s) = pi_taken s"
  "pi_deciders (exit_worker l i s) = pi_deciders s" "pi_decided (exit_worker l i s) = pi_decided s"
  "pi_q (exit_worker l i s) = pi_q s" "pi_pool (exit_worker l i s) = workerExit i (pi_pool s)"
  "pi_held (exit_worker l i s) = pi_held s" "pi_tuner (exit_worker l i s) = pi_tuner s"
  "pi_wait (exit_worker l i s) = pi_wait s" "pi_lost (exit_worker l i s) = (if l then Suc (pi_lost s) else pi_lost s)"
  by (simp_all add: exit_worker_def)

lemma settle_sel [simp]:
  "pi_taken (settle_item c i r s) = pi_taken s" "pi_deciders (settle_item c i r s) = pi_deciders s"
  "pi_decided (settle_item c i r s) = pi_decided s" "pi_q (settle_item c i r s) = pi_q s" "pi_held (settle_item c i r s) = pi_held s"
  "pi_tuner (settle_item c i r s) = pi_tuner s" "pi_wait (settle_item c i r s) = pi_wait s"
  "pi_pool (settle_item c i r s) = (if c = LoopNext then pi_pool s else workerExit i (pi_pool s))"
  "ct_manifests (pi_ctl (settle_item c i r s)) = ct_manifests (pi_ctl s)" "ct_closed (pi_ctl (settle_item c i r s)) = ct_closed (pi_ctl s)"
  "ct_cancelled (pi_ctl (settle_item c i r s)) \<longleftrightarrow> ct_cancelled (pi_ctl s) \<or> r \<noteq> None"
  "ct_fatal (pi_ctl (settle_item c i r s)) = None \<longleftrightarrow> ct_fatal (pi_ctl s) = None \<and> r = None"
  "pi_lost (settle_item c i r s) = (if c = LoopExit True then Suc (pi_lost s) else pi_lost s)"
  by (auto simp: settle_item_def Let_def split: option.splits loop_ctl.splits)

lemma settle_rejoin [simp]:
  "pi_rejoin (settle_item c i r s) =
     (if c = LoopExit True \<and> \<not> ct_cancelled (pi_ctl s) \<and> r = None then pi_rejoin s @ [RWait 0] else pi_rejoin s)"
  by (auto simp: settle_item_def exit_worker_def Let_def split: option.splits loop_ctl.splits)

lemma readControl_mono:
  "ct_cancelled c \<Longrightarrow> ct_cancelled (readControl inp c)" "ct_closed c \<Longrightarrow> ct_closed (readControl inp c)"
  "ct_closed c \<Longrightarrow> ct_manifests (readControl inp c) = ct_manifests c"
  "\<exists>ys. ct_manifests (readControl inp c) = ct_manifests c @ ys"
  "ct_fatal c \<noteq> None \<longrightarrow> ct_cancelled c \<Longrightarrow> ct_fatal (readControl inp c) \<noteq> None \<Longrightarrow> ct_cancelled (readControl inp c)"
  by (auto simp: readControl_def ctl_stop_def ctl_fail_def Let_def split: sum.splits Message.splits if_splits)

lemma queue_sel [simp]:
  "nq_closed (pushFallback x q) = nq_closed q" "nq_items (pushFallback x q) = nq_items q @ [x]"
  "nq_inflight (pushFallback x q) = nq_inflight q" "nq_capacity (pushFallback x q) = nq_capacity q"
  "nq_closed (requeue x q) = nq_closed q" "nq_items (requeue x q) = nq_items q @ [x]"
  "nq_inflight (requeue x q) = nq_inflight q - 1" "nq_capacity (requeue x q) = nq_capacity q"
  "nq_closed (queue_done g q) = nq_closed q" "nq_capacity (queue_done g q) = nq_capacity q"
  "nq_closed (queue_close q)" "nq_items (queue_close q) = nq_items q"
  "nq_inflight (queue_close q) = nq_inflight q" "nq_capacity (queue_close q) = nq_capacity q"
  by (simp_all add: pushFallback_def requeue_def queue_done_def queue_close_def Let_def)

lemma pop_sel:
  "pop q = PopItem it q' \<Longrightarrow> nq_items q = it # nq_items q' \<and> nq_inflight q' = Suc (nq_inflight q) \<and>
     nq_closed q' = nq_closed q \<and> nq_capacity q' = nq_capacity q"
  by (auto simp: pop_def split: list.splits if_splits)

lemma pushGroup_sel:
  "pushGroup xs q = Pushed q' \<Longrightarrow> nq_capacity q' = nq_capacity q \<and> nq_inflight q' = nq_inflight q \<and> nq_closed q' = nq_closed q"
  by (auto simp: pushGroup_def Let_def split: if_splits)

text \<open>What the queue of a worker becomes after an attempt.\<close>

lemma attempt_queue:
  assumes "after_fetch mr d st it r f = (c, f')" "fb_queue (ft_fb f) = q"
  obtains "fb_queue (ft_fb f') = queue_done (ni_groupID it) q"
    | it' where "fb_queue (ft_fb f') = requeue it' q" "item_key it' = item_key it"
proof -
  have "item_key (it\<lparr>ni_attempt := k\<rparr>) = item_key it" for k by (simp add: item_key_def)
  with after_fetch_queue [OF assms(1)] assms(2) that show thesis by metis
qed

lemmas pipe_step_elims = pipe_step.cases work_step.cases reader_step.cases decide_step.cases fetch_step.cases
  rejoin_step.cases tune_step.cases wait_step.cases

section \<open>Invariants\<close>

subsection \<open>The pool\<close>

fun dialling :: "rejoiner \<Rightarrow> u8 multiset" where
  "dialling (RDial k i) = {#i#}"
| "dialling _ = {#}"

definition being_dialled :: "pipe \<Rightarrow> u8 multiset" where
  "being_dialled s = sum_list (map dialling (pi_rejoin s)) + (case pi_tuner s of None \<Rightarrow> {#} | Some i \<Rightarrow> {#i#})"

text \<open>Every reserved id is in the hands of one goroutine, and every item that is held belongs to one live worker.\<close>

definition pool_inv :: "pipe \<Rightarrow> bool" where
  "pool_inv s \<longleftrightarrow> wg_exact (pi_pool s) \<and> distinct (cp_workers (pi_pool s)) \<and> distinct (map fst (pi_held s)) \<and>
     fst ` set (pi_held s) \<subseteq> set (cp_workers (pi_pool s)) \<and> mset (cp_pending (pi_pool s)) = being_dialled s"

lemma wg_exact_ops:
  "wg_exact p \<Longrightarrow> reserveChannel p = Some (i, p') \<Longrightarrow> wg_exact p'"
  "wg_exact p \<Longrightarrow> i \<in> set (cp_pending p) \<Longrightarrow> wg_exact (dialFailed i p) \<and> wg_exact (register i p)"
  "wg_exact p \<Longrightarrow> i \<in> set (cp_workers p) \<Longrightarrow> wg_exact (workerExit i p)"
  "wg_exact p \<Longrightarrow> retireOne p = (True, p') \<Longrightarrow> wg_exact p'"
  "wg_exact p \<Longrightarrow> wg_exact (setPipelineDone p)"
  by (auto dest: pool_step_wg_exact [OF pool_step.reserveChannel] pool_step_wg_exact [OF pool_step.failed]
      pool_step_wg_exact [OF pool_step.register] pool_step_wg_exact [OF pool_step.exit]
      pool_step_wg_exact [OF pool_step.retire] pool_step_wg_exact [OF pool_step.finish])

lemma pool_sel:
  "reserveChannel p = Some (i, p') \<Longrightarrow> cp_workers p' = cp_workers p \<and> cp_pending p' = i # cp_pending p \<and>
     cp_cancelled p' = cp_cancelled p \<and> cp_pipelineDone p' = cp_pipelineDone p \<and> \<not> cp_pipelineDone p \<and> cp_wg p' = cp_wg p + 1"
  "retireOne p = (True, p') \<Longrightarrow> cp_workers p' = cp_workers p \<and> cp_pending p' = cp_pending p \<and> cp_pipelineDone p' = cp_pipelineDone p \<and>
     cp_cancelled p' = insert (last (cp_workers p)) (cp_cancelled p) \<and> length (cp_workers p) > 1 \<and> cp_wg p' = cp_wg p"
  by (auto simp: pool_defs Let_def split: if_splits)

lemma pool_sel_simps [simp]:
  "cp_workers (dialFailed i p) = cp_workers p" "cp_pending (dialFailed i p) = remove1 i (cp_pending p)"
  "cp_cancelled (dialFailed i p) = cp_cancelled p" "cp_pipelineDone (dialFailed i p) = cp_pipelineDone p"
  "cp_wg (dialFailed i p) = cp_wg p - 1"
  "cp_workers (register i p) = cp_workers p @ [i]" "cp_pending (register i p) = remove1 i (cp_pending p)"
  "cp_cancelled (register i p) = cp_cancelled p" "cp_pipelineDone (register i p) = cp_pipelineDone p" "cp_wg (register i p) = cp_wg p"
  "cp_workers (workerExit i p) = remove1 i (cp_workers p)" "cp_pending (workerExit i p) = cp_pending p"
  "cp_cancelled (workerExit i p) = cp_cancelled p" "cp_pipelineDone (workerExit i p) = cp_pipelineDone p"
  "cp_wg (workerExit i p) = cp_wg p - 1"
  "cp_workers (setPipelineDone p) = cp_workers p" "cp_pending (setPipelineDone p) = cp_pending p"
  "cp_cancelled (setPipelineDone p) = cp_cancelled p" "cp_pipelineDone (setPipelineDone p)" "cp_wg (setPipelineDone p) = cp_wg p"
  by (simp_all add: pool_defs Let_def)

lemma being_dialled_mem:
  "pi_rejoin s = us @ RDial k i # vs \<Longrightarrow> i \<in># being_dialled s" "pi_tuner s = Some i \<Longrightarrow> i \<in># being_dialled s"
  by (auto simp: being_dialled_def)

lemma pool_inv_dialled:
  assumes "pool_inv s" "i \<in># being_dialled s"
  shows "wg_exact (register i (pi_pool s))" "wg_exact (dialFailed i (pi_pool s))"
proof -
  have "i \<in> set (cp_pending (pi_pool s))" using assms by (metis pool_inv_def set_mset_mset)
  with assms(1) show "wg_exact (register i (pi_pool s))" "wg_exact (dialFailed i (pi_pool s))"
    by (simp_all add: pool_inv_def wg_exact_ops(2))
qed

lemma pool_inv_fetch: "fetch_step cfg s s' \<Longrightarrow> pool_inv s \<Longrightarrow> pool_inv s'"
proof (induction rule: fetch_step.induct)
  case (ended i s)
  then have "wg_exact (workerExit i (pi_pool s))" by (simp add: pool_inv_def wg_exact_ops(3))
  with ended show ?case by (auto simp: pool_inv_def being_dialled_def exit_worker_def set_remove1_eq)
next
  case (attempt s us i it vs f ctxDone stopped r c f')
  then have i: "i \<in> set (cp_workers (pi_pool s))" "i \<notin> fst ` set (us @ vs)" by (auto simp: pool_inv_def)
  with attempt(5) have "wg_exact (workerExit i (pi_pool s))" by (simp add: pool_inv_def wg_exact_ops(3))
  with attempt(1,5) i show ?case by (auto simp: pool_inv_def being_dialled_def set_remove1_eq)
qed (auto simp: pool_inv_def being_dialled_def)

lemma pool_inv_rejoin: "rejoin_step cfg s s' \<Longrightarrow> pool_inv s \<Longrightarrow> pool_inv s'"
proof (induction rule: rejoin_step.induct)
  case (dial s us k vs i p)
  then show ?case using wg_exact_ops(1) pool_sel(1) [OF dial(2)] by (auto simp: pool_inv_def being_dialled_def)
next
  case (joined s us k i vs)
  have "wg_exact (register i (pi_pool s))" using joined being_dialled_mem(1) pool_inv_dialled by blast
  with joined show ?case by (auto simp: pool_inv_def being_dialled_def joinable_def)
next
  case (refused s us k i vs)
  have "wg_exact (dialFailed i (pi_pool s))" using refused being_dialled_mem(1) pool_inv_dialled by blast
  with refused show ?case by (auto simp: pool_inv_def being_dialled_def)
qed (auto simp: pool_inv_def being_dialled_def)

lemma pool_inv_tune: "tune_step cfg s s' \<Longrightarrow> pool_inv s \<Longrightarrow> pool_inv s'"
proof (induction rule: tune_step.induct)
  case (retire s p)
  then show ?case using wg_exact_ops(4) pool_sel(2) [OF retire(4)] by (auto simp: pool_inv_def being_dialled_def)
next
  case (dial s i p)
  then show ?case using wg_exact_ops(1) pool_sel(1) [OF dial(4)] by (auto simp: pool_inv_def being_dialled_def)
next
  case (joined s i)
  have "wg_exact (register i (pi_pool s))" using joined being_dialled_mem(2) pool_inv_dialled by blast
  with joined show ?case by (auto simp: pool_inv_def being_dialled_def joinable_def)
next
  case (refused s i)
  have "wg_exact (dialFailed i (pi_pool s))" using refused being_dialled_mem(2) pool_inv_dialled by blast
  with refused show ?case by (auto simp: pool_inv_def being_dialled_def)
qed

lemma pool_inv_other:
  "reader_step cfg s s' \<Longrightarrow> pool_inv s \<Longrightarrow> pool_inv s'" "decide_step cfg s s' \<Longrightarrow> pool_inv s \<Longrightarrow> pool_inv s'"
  "wait_step s s' \<Longrightarrow> pool_inv s \<Longrightarrow> pool_inv s'"
  by (erule reader_step.cases, simp add: pool_inv_def being_dialled_def,
      erule decide_step.cases, simp_all add: pool_inv_def being_dialled_def,
      erule wait_step.cases, simp_all add: wg_exact_def)

lemma pool_inv_step:
  assumes "pipe_step cfg s s'" "pool_inv s"
  shows "pool_inv s'"
  using assms(1)
proof cases
  case work
  then show ?thesis using assms(2) pool_inv_fetch pool_inv_rejoin pool_inv_tune pool_inv_other by cases blast+
next
  case fail
  then show ?thesis using assms(2) by (simp add: pool_inv_def being_dialled_def)
qed (use assms(2) pool_inv_tune pool_inv_other in blast)+

subsection \<open>The stages\<close>

text \<open>
  The queue is closed when the last decide worker has ended, the pool is frozen when the queue is drained or the session
  is cancelled, and a drained queue stays drained; in a dry run nothing is queued and no channel is used.
\<close>

definition stage_inv :: "pipe_cfg \<Rightarrow> pipe \<Rightarrow> bool" where
  "stage_inv cfg s \<longleftrightarrow>
     (nq_closed (pi_q s) \<longleftrightarrow> pi_wait s \<noteq> WaitDecide) \<and> (pi_wait s \<noteq> WaitDecide \<longrightarrow> pi_deciders s = []) \<and>
     (cp_pipelineDone (pi_pool s) \<longleftrightarrow> pi_wait s = WaitWorkers \<or> pi_wait s = WaitEnd) \<and>
     (cp_pipelineDone (pi_pool s) \<longrightarrow> ct_cancelled (pi_ctl s) \<or> queue_drained (pi_q s)) \<and>
     (pi_wait s = WaitEnd \<longrightarrow> cp_wg (pi_pool s) = 0) \<and>
     nq_capacity (pi_q s) = needQueueDepth \<and> nq_inflight (pi_q s) = length (pi_held s) \<and>
     (ct_fatal (pi_ctl s) \<noteq> None \<longrightarrow> ct_cancelled (pi_ctl s))"

definition dry_inv :: "pipe_cfg \<Rightarrow> pipe \<Rightarrow> bool" where
  "dry_inv cfg s \<longleftrightarrow> (pc_dryRun cfg \<longrightarrow> nq_items (pi_q s) = [] \<and> pi_held s = [] \<and> cp_workers (pi_pool s) = [] \<and>
     pi_rejoin s = [] \<and> pi_tuner s = None)"

lemma drained_held: "stage_inv cfg s \<Longrightarrow> queue_drained (pi_q s) \<Longrightarrow> pi_held s = []"
  by (simp add: stage_inv_def queue_drained_def)

lemma no_worker_at_end:
  assumes "pool_inv s" "cp_wg (pi_pool s) = 0"
  shows "cp_workers (pi_pool s) = []" "cp_pending (pi_pool s) = []" "pi_held s = []" "being_dialled s = {#}"
proof -
  have 0: "int (length (cp_workers (pi_pool s)) + length (cp_pending (pi_pool s))) = 0"
    using assms by (simp add: pool_inv_def wg_exact_def)
  then have "length (cp_workers (pi_pool s)) + length (cp_pending (pi_pool s)) = 0" by (simp only: of_nat_eq_0_iff)
  then show "cp_workers (pi_pool s) = []" "cp_pending (pi_pool s) = []" by simp_all
  with assms show "pi_held s = []" "being_dialled s = {#}" by (auto simp: pool_inv_def)
qed

lemma stage_inv_decide: "decide_step cfg s s' \<Longrightarrow> stage_inv cfg s \<Longrightarrow> stage_inv cfg s'"
  by (induction rule: decide_step.induct) (auto simp: stage_inv_def queue_drained_def dest: pushGroup_sel)

lemma stage_inv_fetch:
  assumes "fetch_step cfg s s'" "stage_inv cfg s" "pool_inv s"
  shows "stage_inv cfg s'"
  using assms
proof (induction rule: fetch_step.induct)
  case (pop i s it q')
  then have "cp_wg (pi_pool s) \<noteq> 0" using no_worker_at_end(1) by fastforce
  with pop_sel [OF pop(4)] pop(5) show ?case by (auto simp: stage_inv_def queue_drained_def)
next
  case (ended i s)
  then have "cp_wg (pi_pool s) \<noteq> 0" using no_worker_at_end(1) by fastforce
  with ended(4) show ?case by (simp add: stage_inv_def)
next
  case (fallback i it s x)
  then have "\<not> queue_drained (pi_q s)" using drained_held by fastforce
  with fallback(2) show ?case by (simp add: stage_inv_def)
next
  case (attempt s us i it vs f ctxDone stopped r c f')
  have nd: "\<not> queue_drained (pi_q s)" "cp_wg (pi_pool s) \<noteq> 0"
    using drained_held [OF attempt(5)] no_worker_at_end(3) [OF attempt(6)] attempt(1) by auto
  from attempt(4,2) have "nq_closed (fb_queue (ft_fb f')) = nq_closed (pi_q s) \<and>
      nq_capacity (fb_queue (ft_fb f')) = nq_capacity (pi_q s) \<and> nq_inflight (fb_queue (ft_fb f')) = nq_inflight (pi_q s) - 1"
    by (cases rule: attempt_queue) simp_all
  with nd attempt(1,5) show ?case by (auto simp: stage_inv_def)
qed

lemma stage_inv_rejoin: "rejoin_step cfg s s' \<Longrightarrow> stage_inv cfg s \<Longrightarrow> pool_inv s \<Longrightarrow> stage_inv cfg s'"
proof (induction rule: rejoin_step.induct)
  case (dial s us k vs i p)
  then show ?case using pool_sel(1) [OF dial(2)] by (auto simp: stage_inv_def)
next
  case (joined s us k i vs)
  then show ?case using no_worker_at_end(4) [OF joined(4)] being_dialled_mem(1) [OF joined(1)] by (auto simp: stage_inv_def)
next
  case (refused s us k i vs)
  then show ?case using no_worker_at_end(4) [OF refused(3)] being_dialled_mem(1) [OF refused(1)] by (auto simp: stage_inv_def)
qed (auto simp: stage_inv_def)

lemma stage_inv_tune: "tune_step cfg s s' \<Longrightarrow> stage_inv cfg s \<Longrightarrow> pool_inv s \<Longrightarrow> stage_inv cfg s'"
proof (induction rule: tune_step.induct)
  case (retire s p)
  then show ?case using pool_sel(2) [OF retire(4)] by (auto simp: stage_inv_def)
next
  case (dial s i p)
  then show ?case using pool_sel(1) [OF dial(4)] by (auto simp: stage_inv_def)
next
  case (joined s i)
  then show ?case using no_worker_at_end(4) [OF joined(4)] being_dialled_mem(2) [OF joined(1)] by (auto simp: stage_inv_def)
next
  case (refused s i)
  then show ?case using no_worker_at_end(4) [OF refused(3)] being_dialled_mem(2) [OF refused(1)] by (auto simp: stage_inv_def)
qed

lemma stage_inv_other:
  "wait_step s s' \<Longrightarrow> stage_inv cfg s \<Longrightarrow> stage_inv cfg s'" "reader_step cfg s s' \<Longrightarrow> stage_inv cfg s \<Longrightarrow> stage_inv cfg s'"
proof -
  show "wait_step s s' \<Longrightarrow> stage_inv cfg s \<Longrightarrow> stage_inv cfg s'"
    by (erule wait_step.cases) (auto simp: stage_inv_def queue_drained_def)
  show "reader_step cfg s s' \<Longrightarrow> stage_inv cfg s \<Longrightarrow> stage_inv cfg s'"
    by (erule reader_step.cases) (use readControl_mono(1,5) in \<open>auto simp: stage_inv_def\<close>)
qed

lemma dry_inv_step:
  assumes "pipe_step cfg s s'" "dry_inv cfg s"
  shows "dry_inv cfg s'"
proof (cases "pc_dryRun cfg")
  case True
  with assms(2) have d: "nq_items (pi_q s) = []" "pi_held s = []" "cp_workers (pi_pool s) = []" "pi_rejoin s = []" "pi_tuner s = None"
    by (simp_all add: dry_inv_def)
  have "fetch_step cfg s s' \<Longrightarrow> False" "rejoin_step cfg s s' \<Longrightarrow> False" "tune_step cfg s s' \<Longrightarrow> False"
    using d True by (auto elim: fetch_step.cases rejoin_step.cases tune_step.cases)
  then have "decide_step cfg s s' \<or> wait_step s s' \<or> reader_step cfg s s' \<or> (\<exists>e. s' = pipe_fail e s)"
    using assms(1) by (auto elim!: pipe_step.cases work_step.cases)
  then show ?thesis using d True
    by (auto elim!: decide_step.cases wait_step.cases reader_step.cases simp: dry_inv_def)
qed (simp add: dry_inv_def)

lemma stage_inv_step:
  assumes "pipe_step cfg s s'" "stage_inv cfg s" "pool_inv s"
  shows "stage_inv cfg s'"
  using assms(1)
proof cases
  case work
  then show ?thesis using assms(2,3) stage_inv_decide stage_inv_fetch stage_inv_rejoin stage_inv_tune stage_inv_other(1) by cases blast+
next
  case fail
  then show ?thesis using assms(2) by (simp add: stage_inv_def)
qed (use assms(2,3) stage_inv_tune stage_inv_other(2) in blast)+

subsection \<open>The manifests\<close>

fun busy_with :: "dworker \<Rightarrow> GroupManifest multiset" where
  "busy_with DIdle = {#}"
| "busy_with (DBusy gm) = {#gm#}"
| "busy_with (DPush gm items) = {#gm#}"

text \<open>
  As long as the session is not cancelled, each manifest that was taken is decided or in the hands of one worker, and
  a decide worker has ended only when the channel is closed and empty.
\<close>

definition manifest_inv :: "pipe_cfg \<Rightarrow> pipe \<Rightarrow> bool" where
  "manifest_inv cfg s \<longleftrightarrow> pi_taken s \<le> length (ct_manifests (pi_ctl s)) \<and>
     (\<not> ct_cancelled (pi_ctl s) \<longrightarrow>
       mset (take (pi_taken s) (ct_manifests (pi_ctl s))) = mset (map fst (pi_decided s)) + sum_list (map busy_with (pi_deciders s)) \<and>
       (length (pi_deciders s) = pc_decideWorkers cfg \<or> ct_closed (pi_ctl s) \<and> pi_taken s = length (ct_manifests (pi_ctl s))))"

text \<open>The batch of a worker is no larger than its manifest, and every manifest that is decided came from the sender.\<close>

definition batch_ok :: "dworker \<Rightarrow> bool" where
  "batch_ok w \<longleftrightarrow> (case w of DPush gm items \<Rightarrow> length items \<le> length (gm_Entries gm) | _ \<Rightarrow> True)"

definition batch_inv :: "pipe \<Rightarrow> bool" where
  "batch_inv s \<longleftrightarrow> list_all batch_ok (pi_deciders s) \<and> (\<forall>w\<in>set (pi_deciders s). set_mset (busy_with w) \<subseteq> set (ct_manifests (pi_ctl s)))"

lemma manifest_inv_decide:
  assumes "decide_step cfg s s'" "manifest_inv cfg s" "stage_inv cfg s"
  shows "manifest_inv cfg s'"
  using assms
proof (induction rule: decide_step.induct)
  case (take s us vs)
  then show ?case by (auto simp: manifest_inv_def take_Suc_conv_app_nth)
next
  case (stopped s us gm items vs)
  then have "\<not> nq_closed (pi_q s)" by (auto simp: stage_inv_def)
  with stopped(3) have "ct_cancelled (pi_ctl s)" by (auto simp: pushGroup_def Let_def split: if_splits)
  with stopped(4) show ?case by (simp add: manifest_inv_def)
qed (auto simp: manifest_inv_def)

lemma manifest_inv_reader: "reader_step cfg s s' \<Longrightarrow> manifest_inv cfg s \<Longrightarrow> manifest_inv cfg s'"
proof (induction rule: reader_step.induct)
  case (read s inp)
  obtain ys where "ct_manifests (readControl inp (pi_ctl s)) = ct_manifests (pi_ctl s) @ ys" using readControl_mono(4) by blast
  with read readControl_mono(1-3) [where c = "pi_ctl s" and inp = inp] show ?case by (auto simp: manifest_inv_def)
qed

lemma manifest_frame:
  "fetch_step cfg s s' \<or> rejoin_step cfg s s' \<or> tune_step cfg s s' \<or> wait_step s s' \<or> s' = pipe_fail e s \<Longrightarrow>
     pi_taken s' = pi_taken s \<and> pi_decided s' = pi_decided s \<and> pi_deciders s' = pi_deciders s \<and>
     ct_manifests (pi_ctl s') = ct_manifests (pi_ctl s) \<and> ct_closed (pi_ctl s') = ct_closed (pi_ctl s) \<and>
     (ct_cancelled (pi_ctl s) \<longrightarrow> ct_cancelled (pi_ctl s'))"
  by (elim disjE; (erule fetch_step.cases rejoin_step.cases tune_step.cases wait_step.cases)?) simp_all

lemma manifest_inv_step:
  assumes "pipe_step cfg s s'" "manifest_inv cfg s" "stage_inv cfg s"
  shows "manifest_inv cfg s'"
proof -
  consider "decide_step cfg s s'" | "reader_step cfg s s'"
    | e where "fetch_step cfg s s' \<or> rejoin_step cfg s s' \<or> tune_step cfg s s' \<or> wait_step s s' \<or> s' = pipe_fail e s"
    using assms(1) by (auto elim!: pipe_step.cases work_step.cases)
  then show ?thesis
  proof cases
    case 3
    from manifest_frame [OF this] assms(2) show ?thesis by (auto simp: manifest_inv_def)
  qed (use assms(2,3) manifest_inv_decide manifest_inv_reader in blast)+
qed

lemma batch_inv_step:
  assumes "pipe_step cfg s s'" "batch_inv s"
  shows "batch_inv s'"
proof -
  consider "decide_step cfg s s'" | "reader_step cfg s s'"
    | e where "fetch_step cfg s s' \<or> rejoin_step cfg s s' \<or> tune_step cfg s s' \<or> wait_step s s' \<or> s' = pipe_fail e s"
    using assms(1) by (auto elim!: pipe_step.cases work_step.cases)
  then show ?thesis
  proof cases
    case 1
    then show ?thesis using assms(2)
      by (induction rule: decide_step.induct) (auto simp: batch_inv_def batch_ok_def)
  next
    case 2
    then show ?thesis using assms(2)
    proof (induction rule: reader_step.induct)
      case (read s inp)
      obtain ys where "ct_manifests (readControl inp (pi_ctl s)) = ct_manifests (pi_ctl s) @ ys" using readControl_mono(4) by blast
      with read(3) show ?case by (auto simp: batch_inv_def)
    qed
  next
    case 3
    from manifest_frame [OF this] assms(2) show ?thesis by (simp add: batch_inv_def)
  qed
qed

subsection \<open>The queue\<close>

text \<open>The batches pushed in a trace of queue operations.\<close>

fun pushed_batches :: "needItem qop list \<Rightarrow> needItem list list" where
  "pushed_batches [] = []"
| "pushed_batches (OpPush xs # tr) = xs # pushed_batches tr"
| "pushed_batches (_ # tr) = pushed_batches tr"

lemma pushed_batches_append [simp]: "pushed_batches (tr @ tr') = pushed_batches tr @ pushed_batches tr'"
  by (induction tr rule: pushed_batches.induct) simp_all

text \<open>
  What the goroutines have done to the queue is a run of the operations its contract allows: in particular every
  item that is added outside a batch is added by a worker that holds one, or before the queue is closed.
\<close>

definition queue_sim :: "pipe_cfg \<Rightarrow> pipe \<Rightarrow> bool" where
  "queue_sim cfg s \<longleftrightarrow> (\<exists>tr qs. exec need_ops item_key tr (qstate_init (newNeedQueue needQueueDepth)) = Some qs \<and>
     qs_q qs = pi_q s \<and> qs_held qs = mset (map snd (pi_held s)) \<and>
     pushed_batches tr = (if pc_dryRun cfg then [] else map snd (pi_decided s)))"

lemma queue_sim_ext:
  assumes "queue_sim cfg s"
    and "\<And>qs. qs_q qs = pi_q s \<Longrightarrow> qs_held qs = mset (map snd (pi_held s)) \<Longrightarrow>
      \<exists>qs'. exec_op need_ops item_key p qs = Some qs' \<and> qs_q qs' = pi_q s' \<and> qs_held qs' = mset (map snd (pi_held s'))"
    and "(if pc_dryRun cfg then [] else map snd (pi_decided s')) =
      (if pc_dryRun cfg then [] else map snd (pi_decided s)) @ pushed_batches [p]"
  shows "queue_sim cfg s'"
proof -
  from assms(1) obtain tr qs where tr: "exec need_ops item_key tr (qstate_init (newNeedQueue needQueueDepth)) = Some qs"
    "qs_q qs = pi_q s" "qs_held qs = mset (map snd (pi_held s))"
    "pushed_batches tr = (if pc_dryRun cfg then [] else map snd (pi_decided s))" by (auto simp: queue_sim_def)
  from assms(2) [OF tr(2,3)] obtain qs' where qs': "exec_op need_ops item_key p qs = Some qs'" "qs_q qs' = pi_q s'"
    "qs_held qs' = mset (map snd (pi_held s'))" by blast
  have "exec need_ops item_key (tr @ [p]) (qstate_init (newNeedQueue needQueueDepth)) = Some qs'"
    using tr(1) qs'(1) by (simp add: exec_append)
  then show ?thesis unfolding queue_sim_def
    using qs' tr(4) assms(3) by (intro exI [of _ "tr @ [p]"] exI [of _ qs']) simp
qed

lemma queue_sim_frame:
  "queue_sim cfg s \<Longrightarrow> pi_q s' = pi_q s \<Longrightarrow> pi_held s' = pi_held s \<Longrightarrow> pc_dryRun cfg \<or> pi_decided s' = pi_decided s \<Longrightarrow> queue_sim cfg s'"
  by (cases "pc_dryRun cfg") (simp_all add: queue_sim_def)

lemma queue_sim_decide:
  assumes "decide_step cfg s s'" "queue_sim cfg s" "stage_inv cfg s"
  shows "queue_sim cfg s'"
  using assms
proof (induction rule: decide_step.induct)
  case (fallback s us gm vs x)
  then have "\<not> nq_closed (pi_q s)" by (auto simp: stage_inv_def)
  then show ?case by (intro queue_sim_ext [OF fallback(3), of "OpExtra x"]) (auto simp: need_ops_sel)
next
  case (push s us gm items vs q' credit)
  then show ?case by (intro queue_sim_ext [OF push(4), of "OpPush items"]) (auto simp: need_ops_def)
qed (auto intro: queue_sim_frame)

lemma queue_sim_fetch:
  assumes "fetch_step cfg s s'" "queue_sim cfg s"
  shows "queue_sim cfg s'"
  using assms
proof (induction rule: fetch_step.induct)
  case (pop i s it q')
  then show ?case by (intro queue_sim_ext [OF pop(5), of OpPop]) (auto simp: need_ops_def)
next
  case (fallback i it s x)
  then show ?case by (intro queue_sim_ext [OF fallback(2), of "OpExtra x"]) (auto simp: need_ops_sel)
next
  case (attempt s us i it vs f ctxDone stopped r c f')
  from attempt(4,2) show ?case
  proof (cases rule: attempt_queue)
    case 1
    with attempt(1) show ?thesis
      by (intro queue_sim_ext [OF attempt(5), of "OpDone it"]) (auto simp: need_ops_sel)
  next
    case (2 it')
    with attempt(1) show ?thesis
      by (intro queue_sim_ext [OF attempt(5), of "OpRequeue it it'"]) (auto simp: need_ops_sel)
  qed
qed (auto intro: queue_sim_frame)

lemma queue_sim_step:
  assumes "pipe_step cfg s s'" "queue_sim cfg s" "stage_inv cfg s"
  shows "queue_sim cfg s'"
  using assms(1)
proof cases
  case work
  then show ?thesis
  proof cases
    case wait
    then show ?thesis using assms(2)
    proof (induction rule: wait_step.induct)
      case (decided s)
      show ?case by (intro queue_sim_ext [OF decided(3), of OpClose]) (auto simp: need_ops_sel)
    qed (auto intro: queue_sim_frame)
  next
    case rejoin
    then show ?thesis using assms(2) by (auto elim!: rejoin_step.cases intro: queue_sim_frame)
  next
    case dialled
    then show ?thesis using assms(2) by (auto elim!: tune_step.cases intro: queue_sim_frame)
  qed (use assms(2,3) queue_sim_decide queue_sim_fetch in blast)+
next
  case reader
  then show ?thesis using assms(2) by (auto elim!: reader_step.cases intro: queue_sim_frame)
next
  case tune
  then show ?thesis using assms(2) by (auto elim!: tune_step.cases intro: queue_sim_frame)
next
  case fail
  then show ?thesis using assms(2) by (auto intro: queue_sim_frame)
qed

section \<open>What the end of the pipeline means\<close>

definition pipe_inv :: "pipe_cfg \<Rightarrow> pipe \<Rightarrow> bool" where
  "pipe_inv cfg s \<longleftrightarrow> pool_inv s \<and> stage_inv cfg s \<and> dry_inv cfg s \<and> manifest_inv cfg s \<and> batch_inv s \<and> queue_sim cfg s"

lemma pipe_inv_step: "pipe_step cfg s s' \<Longrightarrow> pipe_inv cfg s \<Longrightarrow> pipe_inv cfg s'"
  unfolding pipe_inv_def
  using pool_inv_step stage_inv_step dry_inv_step manifest_inv_step batch_inv_step queue_sim_step by blast

text \<open>The states of a session with \<open>n\<close> initial channels; the reader is where the wait for SCAN_COMPLETE left it.\<close>

definition pipe_reachable :: "pipe_cfg \<Rightarrow> nat \<Rightarrow> pipe \<Rightarrow> bool" where
  "pipe_reachable cfg n s \<longleftrightarrow> n < 256 \<and> 0 < n \<and> 0 < pc_decideWorkers cfg \<and>
     (\<exists>ctl. (ct_fatal ctl = None \<or> ct_cancelled ctl) \<and> (pipe_step cfg)\<^sup>*\<^sup>* (pipe_start cfg n ctl) s)"

lemma pipe_reachable_induct [consumes 1, case_names start step]:
  assumes "pipe_reachable cfg n s"
    and "\<And>ctl. ct_fatal ctl = None \<or> ct_cancelled ctl \<Longrightarrow> 0 < n \<Longrightarrow> n < 256 \<Longrightarrow> P (pipe_start cfg n ctl)"
    and "\<And>s s'. pipe_reachable cfg n s \<Longrightarrow> pipe_step cfg s s' \<Longrightarrow> P s \<Longrightarrow> P s'"
  shows "P s"
proof -
  from assms(1) obtain ctl where c: "n < 256" "0 < n" "0 < pc_decideWorkers cfg" "ct_fatal ctl = None \<or> ct_cancelled ctl"
      and run: "(pipe_step cfg)\<^sup>*\<^sup>* (pipe_start cfg n ctl) s" by (auto simp: pipe_reachable_def)
  from run show ?thesis
  proof (induction rule: rtranclp_induct)
    case base
    show ?case by (rule assms(2)) (use c in auto)
  next
    case (step y z)
    have "pipe_reachable cfg n y" unfolding pipe_reachable_def using c step(1) by blast
    then show ?case using assms(3) step by blast
  qed
qed

lemma initial_distinct: "n < 256 \<Longrightarrow> distinct (map (word_of_nat :: nat \<Rightarrow> u8) [1..<Suc n])"
  using opened_bound [OF opened.initial, of n] by (simp add: ids_fresh_def initialPool_eq del: upt_Suc)

lemma pipe_inv_start:
  assumes "n < 256" "ct_fatal ctl = None \<or> ct_cancelled ctl"
  shows "pipe_inv cfg (pipe_start cfg n ctl)"
proof -
  have "sum_list (map busy_with (replicate k DIdle)) = {#}" for k by (induction k) simp_all
  moreover have "queue_sim cfg (pipe_start cfg n ctl)" unfolding queue_sim_def
    by (intro exI [of _ "[]"] exI [of _ "qstate_init (newNeedQueue needQueueDepth)"]) (simp add: pipe_start_def qstate_init_def)
  ultimately show ?thesis using assms initial_distinct [OF assms(1)]
    by (auto simp: pipe_inv_def pool_inv_def stage_inv_def dry_inv_def manifest_inv_def batch_inv_def batch_ok_def being_dialled_def
        pipe_start_def initialPool_eq wg_exact_def newNeedQueue_def list_all_iff simp del: upt_Suc)
qed

lemma reachable_inv: "pipe_reachable cfg n s \<Longrightarrow> pipe_inv cfg s"
  by (induction rule: pipe_reachable_induct) (auto intro: pipe_inv_start pipe_inv_step)

text \<open>
  C7. When the pipeline of an undisturbed session reports its end, under every interleaving of the control reader, the decide
  workers, the fetch workers, the rejoins and the controller: the manifest channel is closed, every manifest of the sender
  has been decided exactly once, everything that was pushed to the need queue (the batches of those manifests and what was
  added for failed hard links) is resolved, and no worker, no dial and no unfinished item is left.
\<close>

theorem pipeline_complete:
  assumes "pipe_reachable cfg n s" "pipe_verdict s pipeline_end.PipelineDone" "\<not> ct_cancelled (pi_ctl s)"
  shows "ct_closed (pi_ctl s) \<and> mset (map fst (pi_decided s)) = mset (ct_manifests (pi_ctl s)) \<and>
    (\<exists>tr qs. exec need_ops item_key tr (qstate_init (newNeedQueue needQueueDepth)) = Some qs \<and> qs_q qs = pi_q s \<and>
       pushed_batches tr = (if pc_dryRun cfg then [] else map snd (pi_decided s)) \<and> qs_resolved qs = qs_pushed qs) \<and>
    cp_workers (pi_pool s) = [] \<and> cp_pending (pi_pool s) = [] \<and> pi_held s = []"
proof -
  have w: "pi_wait s = WaitEnd" and inv: "pipe_inv cfg s" and D: "0 < pc_decideWorkers cfg"
    using assms reachable_inv by (auto simp: pipe_reachable_def)
  then have d: "pi_deciders s = []" "queue_drained (pi_q s)" "cp_wg (pi_pool s) = 0"
    using assms(3) by (auto simp: pipe_inv_def stage_inv_def)
  have m: "ct_closed (pi_ctl s)" "mset (map fst (pi_decided s)) = mset (ct_manifests (pi_ctl s))"
    using inv d(1) D assms(3) by (auto simp: pipe_inv_def manifest_inv_def)
  from inv obtain tr qs where tr: "exec need_ops item_key tr (qstate_init (newNeedQueue needQueueDepth)) = Some qs"
    "qs_q qs = pi_q s" "pushed_batches tr = (if pc_dryRun cfg then [] else map snd (pi_decided s))"
    by (auto simp: pipe_inv_def queue_sim_def)
  have "nq.balanced item_key (qstate_init (newNeedQueue needQueueDepth))"
    by (rule nq.init_balanced) (simp_all add: newNeedQueue_def)
  then have "nq.balanced item_key qs" by (rule nq.exec_balanced [OF tr(1)])
  then have "qs_resolved qs = qs_pushed qs" by (rule nq.drained_resolved) (simp add: need_ops_sel tr(2) d(2))
  with tr have "\<exists>tr qs. exec need_ops item_key tr (qstate_init (newNeedQueue needQueueDepth)) = Some qs \<and> qs_q qs = pi_q s \<and>
      pushed_batches tr = (if pc_dryRun cfg then [] else map snd (pi_decided s)) \<and> qs_resolved qs = qs_pushed qs"
    by (intro exI [of _ tr] exI [of _ qs]) simp
  moreover have "cp_workers (pi_pool s) = [] \<and> cp_pending (pi_pool s) = [] \<and> pi_held s = []"
    using no_worker_at_end [of s] inv d(3) by (simp add: pipe_inv_def)
  ultimately show ?thesis using m by blast
qed

subsection \<open>A run\<close>

lemma pipe_stepsI:
  "decide_step cfg s t \<Longrightarrow> s' = t \<Longrightarrow> (pipe_step cfg)\<^sup>*\<^sup>* s s'" "fetch_step cfg s t \<Longrightarrow> s' = t \<Longrightarrow> (pipe_step cfg)\<^sup>*\<^sup>* s s'"
  "rejoin_step cfg s t \<Longrightarrow> s' = t \<Longrightarrow> (pipe_step cfg)\<^sup>*\<^sup>* s s'" "wait_step s t \<Longrightarrow> s' = t \<Longrightarrow> (pipe_step cfg)\<^sup>*\<^sup>* s s'"
  "tune_step cfg s t \<Longrightarrow> s' = t \<Longrightarrow> (pipe_step cfg)\<^sup>*\<^sup>* s s'"
  by (auto intro: pipe_step.intros work_step.intros)

lemma after_fetch_ok: "after_fetch mr False False it None f = (LoopNext, on_queue (queue_done (ni_groupID it)) f)"
  by (simp add: after_fetch_def)

lemma fb_queue_on_queue [simp]: "fb_queue (ft_fb (on_queue g f)) = g (fb_queue (ft_fb f))"
  by (simp add: on_queue_def)

text \<open>A worker whose item arrived.\<close>

lemma fetch_ok:
  assumes "pi_held s = us @ (i, it) # vs"
  shows "fetch_step cfg s (s\<lparr>pi_q := queue_done (ni_groupID it) (pi_q s), pi_held := us @ vs\<rparr>)"
proof -
  let ?f = "on_queue (\<lambda>_. pi_q s) idle_fetcher"
  have "fetch_step cfg s (settle_item LoopNext i (fetch_fatal False None)
      (s\<lparr>pi_q := fb_queue (ft_fb (on_queue (queue_done (ni_groupID it)) ?f)), pi_held := us @ vs\<rparr>))"
    by (rule fetch_step.attempt [OF assms, of ?f False False]) (simp_all add: after_fetch_ok)
  then show ?thesis by (simp add: settle_item_def fetch_fatal_def)
qed

definition sample_pipe_cfg :: pipe_cfg where
  "sample_pipe_cfg = \<lparr>pc_chan = \<lparr>cc_Channels = 2, cc_ChannelsPinned = False, cc_MinChannels = 1, cc_MaxChannels = 2, cc_senderMaxChannels = 32\<rparr>,
     pc_manifestCap = 16, pc_decideWorkers = 1, pc_maxRetries = 3, pc_dryRun = False\<rparr>"

text \<open>The reader after one manifest, which was the only one announced.\<close>

definition sample_ctl :: ctl_state where
  "sample_ctl = ctl_init\<lparr>ct_manifests := [sample_group], ct_closed := True\<rparr>"

definition sample_pipe :: "nat \<Rightarrow> dworker list \<Rightarrow> (GroupManifest \<times> needItem list) list \<Rightarrow> needQueue \<Rightarrow> pool \<Rightarrow> (u8 \<times> needItem) list \<Rightarrow>
    rejoiner list \<Rightarrow> nat \<Rightarrow> wait_stage \<Rightarrow> pipe" where
  "sample_pipe k ds dd q p h r l w = \<lparr>pi_ctl = sample_ctl, pi_taken = k, pi_deciders = ds, pi_decided = dd, pi_q = q, pi_pool = p,
     pi_held = h, pi_rejoin = r, pi_tuner = None, pi_lost = l, pi_wait = w\<rparr>"

lemmas sample_pipe_defs = sample_pipe_def sample_pipe_cfg_def sample_ctl_def ctl_init_def

text \<open>The first steps of both runs below: the manifest is decided, its items are queued and the queue is closed.\<close>

lemma sample_decided:
  assumes "length items \<le> length (gm_Entries sample_group)" "pushGroup items (newNeedQueue needQueueDepth) = Pushed q"
  shows "(pipe_step sample_pipe_cfg)\<^sup>*\<^sup>* (pipe_start sample_pipe_cfg n sample_ctl)
    (sample_pipe 1 [] [(sample_group, items)] (queue_close q) (initialPool n) [] [] 0 WaitDrained)"
proof -
  let ?C = "sample_pipe_cfg" and ?q = "newNeedQueue needQueueDepth" and ?p = "initialPool n" and ?d = "[(sample_group, items)]"
  have "pipe_start ?C n sample_ctl = sample_pipe 0 [DIdle] [] ?q ?p [] [] 0 WaitDecide"
    by (simp add: pipe_start_def sample_pipe_defs)
  also have "(pipe_step ?C)\<^sup>*\<^sup>* \<dots> (sample_pipe 1 [DBusy sample_group] [] ?q ?p [] [] 0 WaitDecide)"
    by (rule pipe_stepsI(1) [OF decide_step.take [of _ "[]" "[]"]]) (simp_all add: sample_pipe_defs)
  also have "(pipe_step ?C)\<^sup>*\<^sup>* \<dots> (sample_pipe 1 [DPush sample_group items] [] ?q ?p [] [] 0 WaitDecide)"
    by (rule pipe_stepsI(1) [OF decide_step.evaluated [of _ "[]" sample_group "[]" items]]) (simp_all add: sample_pipe_defs assms(1))
  also have "(pipe_step ?C)\<^sup>*\<^sup>* \<dots> (sample_pipe 1 [DIdle] ?d q ?p [] [] 0 WaitDecide)"
    by (rule pipe_stepsI(1) [OF decide_step.push [of _ "[]" sample_group items "[]" _ q None]])
      (simp_all add: sample_pipe_defs assms(2) credit_sent_def)
  also have "(pipe_step ?C)\<^sup>*\<^sup>* \<dots> (sample_pipe 1 [] ?d q ?p [] [] 0 WaitDecide)"
    by (rule pipe_stepsI(1) [OF decide_step.ended [of _ "[]" "[]"]]) (simp_all add: sample_pipe_defs)
  also have "(pipe_step ?C)\<^sup>*\<^sup>* \<dots> (sample_pipe 1 [] ?d (queue_close q) ?p [] [] 0 WaitDrained)"
    by (rule pipe_stepsI(4) [OF wait_step.decided]) (simp_all add: sample_pipe_defs)
  finally show ?thesis .
qed

theorem pipeline_complete_witness:
  "\<exists>s. pipe_reachable sample_pipe_cfg 1 s \<and> pi_wait s = WaitEnd \<and> map fst (pi_decided s) = [sample_group] \<and>
     mset (map fst (pi_decided s)) = mset (ct_manifests (pi_ctl s))"
proof -
  let ?C = "sample_pipe_cfg" and ?a = "sample_item 1 5"
  obtain q where q: "pushGroup [?a] (newNeedQueue needQueueDepth) = Pushed q" "nq_items q = [?a]" "nq_inflight q = 0"
    by (simp add: pushGroup_def newNeedQueue_def needQueueDepth_def Let_def)
  let ?d = "[(sample_group, [?a])]" and ?p = "initialPool 1" and ?q = "queue_close q"
  let ?q1 = "?q\<lparr>nq_items := [], nq_inflight := Suc 0, nq_yielded := nq_yielded ?q + 1\<rparr>"
  let ?q2 = "queue_done 0 ?q1" and ?p1 = "setPipelineDone ?p"
  have pop: "pop ?q = PopItem ?a ?q1" using q by (simp add: pop_def)
  have dr: "queue_drained ?q2" "pop ?q2 = PopEnd" by (simp_all add: queue_drained_def pop_def)
  have "(pipe_step ?C)\<^sup>*\<^sup>* (pipe_start ?C 1 sample_ctl) (sample_pipe 1 [] ?d ?q ?p [] [] 0 WaitDrained)"
    by (rule sample_decided [OF _ q(1)]) (simp add: sample_group_def)
  also have "(pipe_step ?C)\<^sup>*\<^sup>* \<dots> (sample_pipe 1 [] ?d ?q1 ?p [(1, ?a)] [] 0 WaitDrained)"
    by (rule pipe_stepsI(2) [OF fetch_step.pop [of 1 _ ?a ?q1]]) (simp_all add: sample_pipe_defs worker_done_def initialPool_eq pop)
  also have "(pipe_step ?C)\<^sup>*\<^sup>* \<dots> (sample_pipe 1 [] ?d ?q2 ?p [] [] 0 WaitDrained)"
    by (rule pipe_stepsI(2) [OF fetch_ok [of _ "[]" 1 ?a "[]"]]) (simp_all add: sample_pipe_defs sample_item_def)
  also have "(pipe_step ?C)\<^sup>*\<^sup>* \<dots> (sample_pipe 1 [] ?d ?q2 ?p1 [] [] 0 WaitWorkers)"
    by (rule pipe_stepsI(4) [OF wait_step.drained]) (simp_all add: sample_pipe_defs dr)
  also have "(pipe_step ?C)\<^sup>*\<^sup>* \<dots> (sample_pipe 1 [] ?d ?q2 (workerExit 1 ?p1) [] [] 0 WaitWorkers)"
    by (rule pipe_stepsI(2) [OF fetch_step.ended [of 1]]) (simp_all add: sample_pipe_defs initialPool_eq dr exit_worker_def)
  also have "(pipe_step ?C)\<^sup>*\<^sup>* \<dots> (sample_pipe 1 [] ?d ?q2 (workerExit 1 ?p1) [] [] 0 WaitEnd)"
    by (rule pipe_stepsI(4) [OF wait_step.workers]) (simp_all add: sample_pipe_defs initialPool_eq)
  finally have r: "pipe_reachable ?C 1 (sample_pipe 1 [] ?d ?q2 (workerExit 1 ?p1) [] [] 0 WaitEnd)" (is "pipe_reachable _ _ ?s")
    unfolding pipe_reachable_def by (intro conjI exI [of _ sample_ctl]) (simp_all add: sample_pipe_cfg_def sample_ctl_def ctl_init_def)
  have "mset (map fst (pi_decided ?s)) = mset (ct_manifests (pi_ctl ?s))"
    using pipeline_complete [OF r] by (simp add: sample_pipe_def sample_ctl_def ctl_init_def)
  with r show ?thesis by (intro exI [of _ ?s] conjI) (simp_all add: sample_pipe_def)
qed

section \<open>The pipeline does not get stuck\<close>

text \<open>
  Somebody will empty the queue: without a lost channel the first worker stays, as the controller retires only the last
  of several; without a retired channel a lost one has left a rejoin goroutine behind.
\<close>

definition served :: "pipe \<Rightarrow> bool" where
  "served s \<longleftrightarrow> (pi_lost s = 0 \<longrightarrow> cp_workers (pi_pool s) \<noteq> [] \<and> hd (cp_workers (pi_pool s)) \<notin> cp_cancelled (pi_pool s)) \<and>
     (cp_cancelled (pi_pool s) = {} \<longrightarrow> cp_workers (pi_pool s) \<noteq> [] \<or> pi_rejoin s \<noteq> [])"

definition live_inv :: "pipe_cfg \<Rightarrow> pipe \<Rightarrow> bool" where
  "live_inv cfg s \<longleftrightarrow> (pi_lost s = 0 \<longrightarrow> pi_rejoin s = []) \<and>
     (\<not> ct_cancelled (pi_ctl s) \<and> \<not> pc_dryRun cfg \<longrightarrow> queue_drained (pi_q s) \<or> served s)"

lemma drained_step:
  assumes "pipe_step cfg s s'" "pipe_inv cfg s" "queue_drained (pi_q s)"
  shows "queue_drained (pi_q s')"
proof -
  have i: "pi_held s = []" "pi_deciders s = []" "pop (pi_q s) = PopEnd" "pi_wait s \<noteq> WaitDecide"
    using assms(2,3) by (simp_all add: pipe_inv_def stage_inv_def queue_drained_def pop_def)
  have "decide_step cfg s s' \<Longrightarrow> False" using i(2) by (auto elim: decide_step.cases)
  moreover have "fetch_step cfg s s' \<Longrightarrow> pi_q s' = pi_q s" by (erule fetch_step.cases) (use i in simp_all)
  moreover have "wait_step s s' \<Longrightarrow> pi_q s' = pi_q s" by (erule wait_step.cases) (use i in simp_all)
  moreover have "rejoin_step cfg s s' \<Longrightarrow> pi_q s' = pi_q s" by (erule rejoin_step.cases) simp_all
  moreover have "tune_step cfg s s' \<Longrightarrow> pi_q s' = pi_q s" by (erule tune_step.cases) simp_all
  moreover have "reader_step cfg s s' \<Longrightarrow> pi_q s' = pi_q s" by (erule reader_step.cases) simp
  ultimately have "pi_q s' = pi_q s"
    using assms(1) by (elim pipe_step.cases work_step.cases) simp_all
  with assms(3) show ?thesis by simp
qed

lemma after_fetch_exit: "after_fetch mr d st it r f = (LoopExit False, f') \<Longrightarrow> d \<or> st \<or> fetch_fatal d r \<noteq> None"
  by (auto simp: after_fetch_def fetch_fatal_def Let_def split: option.splits if_splits prod.splits)

text \<open>A worker that was retired leaves.\<close>

lemma served_exit:
  assumes "served s" "i \<in> cp_cancelled (pi_pool s)" "cp_workers (pi_pool s') = remove1 i (cp_workers (pi_pool s))"
    "cp_cancelled (pi_pool s') = cp_cancelled (pi_pool s)" "pi_lost s' = pi_lost s"
  shows "served s'"
  using assms by (cases "cp_workers (pi_pool s)") (auto simp: served_def)

lemma PopEnd_drained: "pop q = PopEnd \<Longrightarrow> queue_drained q"
  by (auto simp: pop_def queue_drained_def split: list.splits if_splits)

lemma served_fetch:
  assumes "fetch_step cfg s s'" "served s" "\<not> ct_cancelled (pi_ctl s')" "\<not> queue_drained (pi_q s)"
  shows "served s'"
  using assms
proof (induction rule: fetch_step.induct)
  case (ended i s)
  then have "i \<in> cp_cancelled (pi_pool s)" using PopEnd_drained by (auto simp: worker_done_def)
  with ended(4) show ?case by (rule served_exit) simp_all
next
  case (attempt s us i it vs f ctxDone stopped r c f')
  have nc: "\<not> ct_cancelled (pi_ctl s)" "fetch_fatal ctxDone r = None" using attempt(6) by simp_all
  consider "c = LoopNext" | "c = LoopExit True" | "c = LoopExit False" by (metis (full_types) loop_ctl.exhaust)
  then show ?case
  proof cases
    case 3
    with attempt(4) nc(2) have "ctxDone \<or> stopped" using after_fetch_exit by blast
    with attempt(3) nc(1) have "i \<in> cp_cancelled (pi_pool s)" by (simp add: worker_done_def)
    with attempt(5) show ?thesis by (rule served_exit) (simp_all add: 3)
  qed (use attempt(5) nc in \<open>auto simp: served_def\<close>)
qed (simp_all add: served_def)

lemma served_rejoin:
  assumes "rejoin_step cfg s s'" "served s" "\<not> ct_cancelled (pi_ctl s')" "\<not> queue_drained (pi_q s)" "stage_inv cfg s"
    "pi_lost s = 0 \<longrightarrow> pi_rejoin s = []"
  shows "served s'"
  using assms
proof (induction rule: rejoin_step.induct)
  case (gone s us k vs)
  have "1 \<le> dataCeiling (pc_chan cfg)" by (simp add: dataCeiling_def Let_def)
  with gone have "cp_workers (pi_pool s) \<noteq> []" by (auto simp: stage_inv_def channelCount_def)
  with gone(1,6,7) show ?case by (auto simp: served_def)
next
  case (drained s us k vs)
  then show ?case by (auto simp: reserveChannel_def stage_inv_def Let_def split: if_splits)
next
  case (dial s us k vs i p)
  then show ?case using pool_sel(1) [OF dial(2)] by (auto simp: served_def)
next
  case (spare s us vs)
  then have "cp_workers (pi_pool s) \<noteq> []" by (auto simp: stage_inv_def channelCount_def)
  with spare(1,6,7) show ?case by (auto simp: served_def)
qed (auto simp: served_def)

lemma served_tune:
  assumes "tune_step cfg s s'" "served s" "distinct (cp_workers (pi_pool s))"
  shows "served s'"
  using assms
proof (induction rule: tune_step.induct)
  case (retire s p)
  have "hd xs \<noteq> last xs" if "distinct xs" "length xs > 1" for xs :: "u8 list"
    using that by (cases xs) (auto simp: last_in_set)
  with retire(5,6) pool_sel(2) [OF retire(4)] show ?case by (auto simp: served_def)
next
  case (dial s i p)
  then show ?case using pool_sel(1) [OF dial(4)] by (auto simp: served_def)
qed (auto simp: served_def hd_append)

lemma served_other:
  "decide_step cfg s s' \<or> wait_step s s' \<or> reader_step cfg s s' \<or> s' = pipe_fail e s \<Longrightarrow>
     (served s' \<longleftrightarrow> served s) \<and> pi_rejoin s' = pi_rejoin s \<and> pi_lost s' = pi_lost s"
  by (elim disjE; (erule decide_step.cases wait_step.cases reader_step.cases)?) (simp_all add: served_def)

lemma served_step:
  assumes "pipe_step cfg s s'" "pipe_inv cfg s" "pi_lost s = 0 \<longrightarrow> pi_rejoin s = []" "served s"
    "\<not> ct_cancelled (pi_ctl s')" "\<not> queue_drained (pi_q s)"
  shows "served s'"
proof -
  have i: "stage_inv cfg s" "distinct (cp_workers (pi_pool s))" using assms(2) by (simp_all add: pipe_inv_def pool_inv_def)
  note steps = served_fetch [OF _ assms(4-6)] served_rejoin [OF _ assms(4-6) i(1) assms(3)] served_tune [OF _ assms(4) i(2)]
  from assms(1) have "decide_step cfg s s' \<or> wait_step s s' \<or> reader_step cfg s s' \<or> (\<exists>e. s' = pipe_fail e s) \<or>
      fetch_step cfg s s' \<or> rejoin_step cfg s s' \<or> tune_step cfg s s'"
    by (elim pipe_step.cases work_step.cases) auto
  with steps served_other assms(4) show ?thesis by metis
qed

lemma lost_step:
  assumes "pipe_step cfg s s'" "pi_lost s = 0 \<longrightarrow> pi_rejoin s = []"
  shows "(pi_lost s' = 0 \<longrightarrow> pi_rejoin s' = []) \<and> (ct_cancelled (pi_ctl s) \<longrightarrow> ct_cancelled (pi_ctl s'))"
proof -
  have "fetch_step cfg s s' \<Longrightarrow> ?thesis" using assms(2) by (elim fetch_step.cases) (simp_all add: exit_worker_def)
  moreover have "rejoin_step cfg s s' \<Longrightarrow> ?thesis" using assms(2) by (elim rejoin_step.cases) auto
  moreover have "tune_step cfg s s' \<Longrightarrow> ?thesis" using assms(2) by (elim tune_step.cases) simp_all
  moreover have "decide_step cfg s s' \<Longrightarrow> ?thesis" using assms(2) by (elim decide_step.cases) simp_all
  moreover have "wait_step s s' \<Longrightarrow> ?thesis" using assms(2) by (elim wait_step.cases) simp_all
  moreover have "reader_step cfg s s' \<Longrightarrow> ?thesis" using assms(2) readControl_mono(1) by (elim reader_step.cases) simp
  ultimately show ?thesis using assms by (elim pipe_step.cases work_step.cases) simp_all
qed

lemma live_inv_step:
  assumes "pipe_step cfg s s'" "pipe_inv cfg s" "live_inv cfg s"
  shows "live_inv cfg s'"
  using lost_step [OF assms(1)] drained_step [OF assms(1,2)] served_step [OF assms(1,2)] assms(3)
  unfolding live_inv_def by blast

lemma reachable_live: "pipe_reachable cfg n s \<Longrightarrow> live_inv cfg s"
proof (induction rule: pipe_reachable_induct)
  case (start ctl)
  then show ?case by (auto simp: live_inv_def served_def pipe_start_def initialPool_eq)
qed (use live_inv_step reachable_inv in blast)

text \<open>Each goroutine that has something to do can take a step.\<close>

lemma rejoin_progress:
  assumes "pi_rejoin s \<noteq> []"
  shows "\<exists>s'. work_step cfg s s'"
proof -
  obtain r vs where r: "pi_rejoin s = [] @ r # vs" using assms by (cases "pi_rejoin s") auto
  have "\<exists>s'. rejoin_step cfg s s'"
  proof (cases r)
    case (RWait k)
    then show ?thesis using rejoin_step.gone [of s "[]" k vs] rejoin_step.checked [of s "[]" k vs] r by force
  next
    case (RTry k)
    then show ?thesis
      using rejoin_step.drained [of s "[]" k vs] rejoin_step.dial [of s "[]" k vs] r by (cases "reserveChannel (pi_pool s)") auto
  next
    case (RDial k i)
    then show ?thesis using rejoin_step.refused r by blast
  next
    case RLast
    then show ?thesis using rejoin_step.spare rejoin_step.none_left r by blast
  next
    case RZero
    then show ?thesis using rejoin_step.no_work rejoin_step.fatal r by blast
  qed
  then show ?thesis by (blast intro: work_step.rejoin)
qed

lemma held_progress: "pi_held s \<noteq> [] \<Longrightarrow> \<exists>s'. work_step cfg s s'"
  by (metis append_Nil fetch_ok list.exhaust prod.exhaust work_step.fetch)

lemma worker_progress:
  assumes "i \<in> set (cp_workers (pi_pool s))" "nq_items (pi_q s) \<noteq> [] \<or> queue_drained (pi_q s)"
  shows "\<exists>s'. work_step cfg s s'"
proof (cases "i \<in> fst ` set (pi_held s) \<or> worker_done s i \<or> queue_drained (pi_q s)")
  case True
  then have "pi_held s \<noteq> [] \<or> i \<notin> fst ` set (pi_held s) \<and> (worker_done s i \<or> pop (pi_q s) = PopEnd)"
    by (auto simp: queue_drained_def pop_def)
  then show ?thesis using held_progress fetch_step.ended [OF assms(1)] work_step.fetch by blast
next
  case False
  with assms(2) obtain it q' where "pop (pi_q s) = PopItem it q'" by (auto simp: pop_def neq_Nil_conv)
  with False show ?thesis using fetch_step.pop [OF assms(1)] work_step.fetch by blast
qed

lemma queue_progress:
  assumes "served s" "nq_items (pi_q s) \<noteq> [] \<or> pi_held s \<noteq> []" "pi_lost s = 0 \<or> cp_cancelled (pi_pool s) = {}"
  shows "\<exists>s'. work_step cfg s s'"
proof (cases "pi_held s = []")
  case True
  with assms(2) have items: "nq_items (pi_q s) \<noteq> []" by simp
  from assms(1,3) have "cp_workers (pi_pool s) \<noteq> [] \<or> pi_rejoin s \<noteq> []" by (auto simp: served_def)
  then show ?thesis using items worker_progress rejoin_progress by (metis list.set_sel(1))
qed (rule held_progress)

text \<open>The decide workers have nothing to do until the sender sends its next manifest.\<close>

definition awaits_sender :: "pipe \<Rightarrow> bool" where
  "awaits_sender s \<longleftrightarrow> pi_wait s = WaitDecide \<and> \<not> ct_closed (pi_ctl s) \<and> pi_taken s = length (ct_manifests (pi_ctl s)) \<and>
     set (pi_deciders s) \<subseteq> {DIdle}"

lemma decide_progress:
  assumes inv: "pipe_inv cfg s" "live_inv cfg s" and w: "\<not> ct_cancelled (pi_ctl s)" "pi_wait s = WaitDecide"
    and serve: "pi_lost s = 0 \<or> cp_cancelled (pi_pool s) = {}"
    and small: "\<forall>gm\<in>set (ct_manifests (pi_ctl s)). length (gm_Entries gm) \<le> needQueueDepth"
  shows "(\<exists>s'. work_step cfg s s') \<or> awaits_sender s"
proof (cases "pi_deciders s = []")
  case True
  then show ?thesis using wait_step.decided [OF w(2)] work_step.wait by blast
next
  case False
  show ?thesis
  proof (cases "set (pi_deciders s) \<subseteq> {DIdle}")
    case True
    with False obtain vs where d: "pi_deciders s = [] @ DIdle # vs" by (cases "pi_deciders s") auto
    have "pi_taken s \<le> length (ct_manifests (pi_ctl s))" using inv(1) by (simp add: pipe_inv_def manifest_inv_def)
    then have "pi_taken s < length (ct_manifests (pi_ctl s)) \<or> pi_taken s = length (ct_manifests (pi_ctl s)) \<and> ct_closed (pi_ctl s)
        \<or> awaits_sender s" using True w(2) by (auto simp: awaits_sender_def)
    then show ?thesis using decide_step.take [OF d] decide_step.ended [OF d] work_step.decide by blast
  next
    case False
    then obtain w' where w': "w' \<in> set (pi_deciders s)" "w' \<noteq> DIdle" by blast
    from split_list [OF w'(1)] w'(2) obtain us vs where d: "pi_deciders s = us @ w' # vs" "w' \<noteq> DIdle" by blast
    show ?thesis
    proof (cases w')
      case (DBusy gm)
      then show ?thesis using decide_step.evaluated [of s us gm vs "[]"] d(1) work_step.decide by fastforce
    next
      case (DPush gm items)
      have "length items \<le> length (gm_Entries gm)" "gm \<in> set (ct_manifests (pi_ctl s))"
        using inv(1) d DPush by (auto simp: pipe_inv_def batch_inv_def batch_ok_def)
      with small have len: "length items \<le> nq_capacity (pi_q s)" and open_q: "\<not> nq_closed (pi_q s)"
        using inv(1) w(2) by (auto simp: pipe_inv_def stage_inv_def)
      show ?thesis
      proof (cases "pc_dryRun cfg \<or> (\<exists>q'. pushGroup items (pi_q s) = Pushed q')")
        case True
        then show ?thesis using decide_step.push [of s us gm items vs] decide_step.dry [of s us gm items vs] d(1) DPush work_step.decide by blast
      next
        case False
        then have "nq_items (pi_q s) \<noteq> []" using len open_q by (auto simp: pushGroup_def Let_def split: if_splits)
        moreover have "served s" using inv(2) w(1) False open_q by (auto simp: live_inv_def queue_drained_def)
        ultimately show ?thesis using queue_progress serve by blast
      qed
    qed (use d(2) in simp)
  qed
qed



text \<open>A batch of the decide pass is no larger than its manifest, as the step \<open>evaluated\<close> requires.\<close>

lemma positions_length: "length (positions P i vs) \<le> length vs"
  by (induction vs arbitrary: i) (auto simp: le_SucI)

lemma decided_batch_small:
  assumes "decide_loop cfg io gid first 0 es no_acc d = (a, d')"
  shows "length (da_items a) \<le> length es"
proof -
  from decide_loop_verdicts [OF assms] obtain vs where "length vs = length es"
      "map item_key (da_items a) = map (\<lambda>j. (first + word_of_nat j, gid)) (positions (\<lambda>v. v = Needed) 0 vs)"
    by (auto simp: no_acc_def)
  then show ?thesis using positions_length [of "\<lambda>v. v = Needed" 0 vs] by (metis length_map)
qed

section \<open>All channels retired\<close>

text \<open>
  The condition of the theorem is needed. \<^verbatim>\<open>retireOne\<close> counts workers that it has already retired and that still finish
  their file as live. Here the first of two channels is lost while the second, retired in an earlier window, is busy;
  the rejoin opens a third, the controller retires it, and both leave. No channel is left and no rejoin is under way,
  but the queue still holds items: no goroutine of the pipeline can take a step, the controller holds at zero channels, and
  nothing records a fault.
\<close>

lemma after_fetch_lost:
  "after_fetch mr False False it (Some (channelLost io_EOF)) f =
     (LoopExit True, (on_queue (requeue it) f)\<lparr>ft_retries := ft_retries f + 1\<rparr>)"
  by (simp add: after_fetch_def channelLost_def io_EOF_def)

lemma fetch_lost:
  assumes "pi_held s = us @ (i, it) # vs"
  shows "fetch_step cfg s (exit_worker True i (s\<lparr>pi_q := requeue it (pi_q s), pi_held := us @ vs\<rparr>))"
proof -
  let ?f = "on_queue (\<lambda>_. pi_q s) idle_fetcher" and ?r = "Some (channelLost io_EOF)"
  have "fetch_step cfg s (settle_item (LoopExit True) i (fetch_fatal False ?r)
      (s\<lparr>pi_q := fb_queue (ft_fb ((on_queue (requeue it) ?f)\<lparr>ft_retries := ft_retries ?f + 1\<rparr>)), pi_held := us @ vs\<rparr>))"
    by (rule fetch_step.attempt [OF assms, of ?f False False]) (simp_all add: after_fetch_lost)
  then show ?thesis by (simp add: settle_item_def fetch_fatal_def channelLost_def io_EOF_def)
qed

definition stranded_pool :: pool where
  "stranded_pool = \<lparr>cp_workers = [], cp_pending = [], cp_cancelled = {2, 3}, cp_nextChID = 3, cp_pipelineDone = False, cp_wg = 0\<rparr>"

lemma stranded_no_step:
  assumes "nq_items q \<noteq> []"
  shows "\<not> work_step sample_pipe_cfg (sample_pipe 1 [] dd q stranded_pool [] [] l WaitDrained) s'"
  using assms
  by (auto elim!: work_step.cases decide_step.cases fetch_step.cases rejoin_step.cases wait_step.cases tune_step.cases
      simp: sample_pipe_defs stranded_pool_def queue_drained_def)

text \<open>The controller of this session retires the last of two workers in every window without progress.\<close>

lemma idle_window_retires:
  assumes "length (cp_workers p) = 2" "\<not> tn_stopped t" "tn_bestG t = 1000" "wi_bytes wi = tn_lastBytes t"
  shows "snd (tuneTick (pc_chan sample_pipe_cfg) wi (t, p)) = snd (retireOne p)"
proof -
  have "goodput b b = 0" for b by (simp add: goodput_def f64_def)
  moreover have "f64 (1000 * tuneRampDnThreshold) > 0" "f64 (1000 * tuneRampUpThreshold) > 0" by code_simp+
  moreover have "cp_workers p \<noteq> []" using assms(1) by auto
  ultimately show ?thesis using assms
    by (simp add: tuneTick_def tuneBounds_def sample_pipe_cfg_def channelCount_def decideRamp_def Let_def split: prod.splits bool.splits)
qed

lemma channels_stranded:
  "\<exists>s. pipe_reachable sample_pipe_cfg 2 s \<and> \<not> ct_cancelled (pi_ctl s) \<and> ct_fatal (pi_ctl s) = None \<and> nq_items (pi_q s) \<noteq> [] \<and>
     cp_workers (pi_pool s) = [] \<and> (\<forall>s'. \<not> work_step sample_pipe_cfg s s') \<and>
     (\<forall>wi t. snd (tuneTick (pc_chan sample_pipe_cfg) wi (t, pi_pool s)) = pi_pool s)"
proof -
  let ?C = "sample_pipe_cfg" and ?a = "sample_item 1 5" and ?b = "sample_item 2 4" and ?c = "sample_item 3 3"
  obtain q where q: "pushGroup [?a, ?b, ?c] (newNeedQueue needQueueDepth) = Pushed q" "nq_items q = [?a, ?b, ?c]" "nq_inflight q = 0"
    by (simp add: pushGroup_def newNeedQueue_def needQueueDepth_def sample_item_def Let_def)
  let ?d = "[(sample_group, [?a, ?b, ?c])]" and ?q = "queue_close q"
  let ?S = "\<lambda>q p h r l. sample_pipe 1 [] ?d q p h r l WaitDrained"
  obtain q1 where q1: "pop ?q = PopItem ?a q1" "nq_items q1 = [?b, ?c]" using q by (simp add: pop_def)
  obtain q2 where q2: "pop q1 = PopItem ?b q2" using q1(2) by (simp add: pop_def)
  let ?q3 = "requeue ?b q2"
  let ?q4 = "queue_done 0 ?q3"
  let ?p = "\<lambda>ws pend canc i n. \<lparr>cp_workers = ws, cp_pending = pend, cp_cancelled = canc, cp_nextChID = i, cp_pipelineDone = False, cp_wg = n\<rparr> :: pool"
  have p0: "initialPool 2 = ?p [1, 2] [] {} 2 2" by (simp add: initialPool_eq upt_rec numeral_2_eq_2)
  have r0: "(pipe_step ?C)\<^sup>*\<^sup>* (pipe_start ?C 2 sample_ctl) (?S ?q (?p [1, 2] [] {} 2 2) [] [] 0)"
    using sample_decided [OF _ q(1), of 2] by (simp add: sample_group_def p0)
  have r1: "(pipe_step ?C)\<^sup>*\<^sup>* (?S ?q (?p [1, 2] [] {} 2 2) [] [] 0) (?S q1 (?p [1, 2] [] {} 2 2) [(2, ?a)] [] 0)"
    by (rule pipe_stepsI(2) [OF fetch_step.pop [of 2 _ ?a q1]]) (simp_all add: sample_pipe_defs worker_done_def q1(1) q2)
  have r2: "(pipe_step ?C)\<^sup>*\<^sup>* (?S q1 (?p [1, 2] [] {} 2 2) [(2, ?a)] [] 0) (?S q1 (?p [1, 2] [] {2} 2 2) [(2, ?a)] [] 0)"
    by (rule pipe_stepsI(5) [OF tune_step.retire]) (simp_all add: sample_pipe_defs retireOne_def)
  have r3: "(pipe_step ?C)\<^sup>*\<^sup>* (?S q1 (?p [1, 2] [] {2} 2 2) [(2, ?a)] [] 0) (?S q2 (?p [1, 2] [] {2} 2 2) [(1, ?b), (2, ?a)] [] 0)"
    by (rule pipe_stepsI(2) [OF fetch_step.pop [of 1 _ ?b q2]]) (simp_all add: sample_pipe_defs worker_done_def q1(1) q2)
  have r4: "(pipe_step ?C)\<^sup>*\<^sup>* (?S q2 (?p [1, 2] [] {2} 2 2) [(1, ?b), (2, ?a)] [] 0) (?S ?q3 (?p [2] [] {2} 2 1) [(2, ?a)] [RWait 0] 1)"
    by (rule pipe_stepsI(2) [OF fetch_lost [of _ "[]" 1 ?b "[(2, ?a)]"]])
      (simp_all add: sample_pipe_defs exit_worker_def workerExit_def removeWorker_def)
  have r5: "(pipe_step ?C)\<^sup>*\<^sup>* (?S ?q3 (?p [2] [] {2} 2 1) [(2, ?a)] [RWait 0] 1) (?S ?q3 (?p [2] [] {2} 2 1) [(2, ?a)] [RTry 0] 1)"
    by (rule pipe_stepsI(3) [OF rejoin_step.checked [of _ "[]" 0 "[]"]])
      (simp_all add: sample_pipe_defs channelCount_def dataCeiling_def)
  have r6: "(pipe_step ?C)\<^sup>*\<^sup>* (?S ?q3 (?p [2] [] {2} 2 1) [(2, ?a)] [RTry 0] 1) (?S ?q3 (?p [2] [3] {2} 3 2) [(2, ?a)] [RDial 0 3] 1)"
    by (rule pipe_stepsI(3) [OF rejoin_step.dial [of _ "[]" 0 "[]" 3]]) (simp_all add: sample_pipe_defs reserveChannel_def)
  have r7: "(pipe_step ?C)\<^sup>*\<^sup>* (?S ?q3 (?p [2] [3] {2} 3 2) [(2, ?a)] [RDial 0 3] 1) (?S ?q3 (?p [2, 3] [] {2} 3 2) [(2, ?a)] [] 1)"
    by (rule pipe_stepsI(3) [OF rejoin_step.joined [of _ "[]" 0 3 "[]"]]) (simp_all add: sample_pipe_defs joinable_def register_def)
  have r8: "(pipe_step ?C)\<^sup>*\<^sup>* (?S ?q3 (?p [2, 3] [] {2} 3 2) [(2, ?a)] [] 1) (?S ?q3 (?p [2, 3] [] {2, 3} 3 2) [(2, ?a)] [] 1)"
    by (rule pipe_stepsI(5) [OF tune_step.retire]) (simp_all add: sample_pipe_defs retireOne_def insert_commute)
  have r9: "(pipe_step ?C)\<^sup>*\<^sup>* (?S ?q3 (?p [2, 3] [] {2, 3} 3 2) [(2, ?a)] [] 1) (?S ?q4 (?p [2, 3] [] {2, 3} 3 2) [] [] 1)"
    by (rule pipe_stepsI(2) [OF fetch_ok [of _ "[]" 2 ?a "[]"]]) (simp_all add: sample_pipe_defs sample_item_def)
  have r10: "(pipe_step ?C)\<^sup>*\<^sup>* (?S ?q4 (?p [2, 3] [] {2, 3} 3 2) [] [] 1) (?S ?q4 (?p [3] [] {2, 3} 3 1) [] [] 1)"
    by (rule pipe_stepsI(2) [OF fetch_step.ended [of 2]])
      (simp_all add: sample_pipe_defs worker_done_def exit_worker_def workerExit_def removeWorker_def)
  have r11: "(pipe_step ?C)\<^sup>*\<^sup>* (?S ?q4 (?p [3] [] {2, 3} 3 1) [] [] 1) (?S ?q4 stranded_pool [] [] 1)"
    by (rule pipe_stepsI(2) [OF fetch_step.ended [of 3]])
      (simp_all add: sample_pipe_defs worker_done_def exit_worker_def workerExit_def removeWorker_def stranded_pool_def)
  note r = rtranclp_trans [OF r0 r1]
  note r = rtranclp_trans [OF r r2]
  note r = rtranclp_trans [OF r r3]
  note r = rtranclp_trans [OF r r4]
  note r = rtranclp_trans [OF r r5]
  note r = rtranclp_trans [OF r r6]
  note r = rtranclp_trans [OF r r7]
  note r = rtranclp_trans [OF r r8]
  note r = rtranclp_trans [OF r r9]
  note r = rtranclp_trans [OF r r10]
  note r = rtranclp_trans [OF r r11]
  from r have "pipe_reachable ?C 2 (?S ?q4 stranded_pool [] [] 1)" unfolding pipe_reachable_def
    by (intro conjI exI [of _ sample_ctl]) (simp_all add: sample_pipe_cfg_def sample_ctl_def ctl_init_def)
  moreover have "nq_items ?q4 \<noteq> []" by simp
  moreover have "snd (tuneTick (pc_chan ?C) wi (t, stranded_pool)) = stranded_pool" for wi t
    by (simp add: tuneTick_def stranded_pool_def channelCount_def Let_def split: prod.splits)
  ultimately show ?thesis using stranded_no_step [of ?q4 ?d 1]
    by (intro exI [of _ "?S ?q4 stranded_pool [] [] 1"]) (simp add: sample_pipe_def sample_ctl_def ctl_init_def stranded_pool_def)
qed

end
