(* ===== verification/Publisher.thy ===== *)
theory Publisher
  imports Manifest Sender_State
begin

text \<open>
  The manifest publisher as it runs (\<^verbatim>\<open>internal/sender/manifest.go\<close>, \<^verbatim>\<open>manifestPublisher.run\<close> and \<^verbatim>\<open>publishGroup\<close>): SCAN_COMPLETE,
  then one group after the other under the receiver's credit, the files of a group hashed by at most \<^verbatim>\<open>workers\<close> goroutines
  at a time, in any order. \<open>pb_hash\<close> is what \<^verbatim>\<open>digest.HashFile\<close> gives for a file. The result: no schedule of the goroutines shows
  in what the receiver gets, which is the sequence of the messages of \<open>Manifest\<close>.
\<close>

section \<open>State and steps\<close>

record manifestPublisher =
  pb_pl :: Plan
  pb_quick :: bool
  pb_workers :: nat
  pb_skipped :: u32
  pb_hash :: "u64 \<Rightarrow> bytes option"

text \<open>\<open>PubEntries g i\<close>: in the loop over the entries of group \<open>g\<close>, before entry \<open>i\<close>.\<close>

datatype pub_stage = PubStart | PubAcquire nat | PubEntries nat nat | PubDone | PubErr err

text \<open>\<open>pu_running\<close>: the entries of the group whose hash goroutines run; \<open>pu_entries\<close>: \<^verbatim>\<open>gm.Entries\<close> so far; \<open>pu_gate_log\<close>: the events at the gate.\<close>

record publisher =
  pu_stage :: pub_stage
  pu_running :: "nat list"
  pu_entries :: "ManifestEntry list"
  pu_digests :: digestStore
  pu_gate :: creditGate
  pu_gate_log :: "gate_event list"
  pu_cancelled :: bool
  pu_sent :: "Message list"

definition pub_start :: "u16 \<Rightarrow> publisher" where
  "pub_start credit = \<lparr>pu_stage = PubStart, pu_running = [], pu_entries = [], pu_digests = newDigestStore,
     pu_gate = newCreditGate (int (unat credit)), pu_gate_log = [], pu_cancelled = False, pu_sent = []\<rparr>"

definition group_message :: "manifestPublisher \<Rightarrow> nat \<Rightarrow> ManifestEntry list \<Rightarrow> Message" where
  "group_message mp g es = M_GroupManifest \<lparr>gm_GroupID = word_of_nat g, gm_FirstFileID = GroupFirstID (pb_pl mp) g, gm_Entries = es\<rparr>"

definition hash_id :: "manifestPublisher \<Rightarrow> nat \<Rightarrow> nat \<Rightarrow> u64" where
  "hash_id mp g i = GroupFirstID (pb_pl mp) g + word_of_nat i"

text \<open>The end of a hash goroutine: a failure is logged and leaves the digest empty.\<close>

definition hash_done :: "manifestPublisher \<Rightarrow> nat \<Rightarrow> nat \<Rightarrow> publisher \<Rightarrow> publisher" where
  "hash_done mp g i s = (case pb_hash mp (hash_id mp g i) of
     None \<Rightarrow> s
   | Some d \<Rightarrow> s\<lparr>pu_digests := ds_set (hash_id mp g i) d (pu_digests s),
       pu_entries := (pu_entries s)[i := (pu_entries s ! i)\<lparr>me_Digest := d\<rparr>]\<rparr>)"

inductive publisher_step :: "manifestPublisher \<Rightarrow> publisher \<Rightarrow> publisher \<Rightarrow> bool" for mp where
  announce: "pu_stage s = PubStart \<Longrightarrow>
    publisher_step mp s (s\<lparr>pu_sent := pu_sent s @ [M_ScanComplete (scan_complete (pb_pl mp) (pb_skipped mp))], pu_stage := PubAcquire 0\<rparr>)"
| acquired: "pu_stage s = PubAcquire g \<Longrightarrow> g < NumGroups (pb_pl mp) \<Longrightarrow> acquire (pu_gate s) = Some gate \<Longrightarrow>
    publisher_step mp s (s\<lparr>pu_gate := gate, pu_gate_log := pu_gate_log s @ [GatePublish], pu_entries := [], pu_stage := PubEntries g 0\<rparr>)"
| cancelled: "pu_stage s = PubAcquire g \<Longrightarrow> g < NumGroups (pb_pl mp) \<Longrightarrow> acquire (pu_gate s) = None \<Longrightarrow> pu_cancelled s \<Longrightarrow>
    publisher_step mp s (s\<lparr>pu_stage := PubErr (PlainErr ''context canceled'')\<rparr>)"
| finished: "pu_stage s = PubAcquire g \<Longrightarrow> g \<ge> NumGroups (pb_pl mp) \<Longrightarrow> publisher_step mp s (s\<lparr>pu_stage := PubDone\<rparr>)"
| plain: "pu_stage s = PubEntries g i \<Longrightarrow> i < length (Group (pb_pl mp) g) \<Longrightarrow> \<not> hashed (pb_quick mp) (Group (pb_pl mp) g ! i) \<Longrightarrow>
    publisher_step mp s (s\<lparr>pu_entries := pu_entries s @ [manifest_entry (pb_quick mp) None (Group (pb_pl mp) g ! i)],
      pu_stage := PubEntries g (Suc i)\<rparr>)"
| spawn: "pu_stage s = PubEntries g i \<Longrightarrow> i < length (Group (pb_pl mp) g) \<Longrightarrow> hashed (pb_quick mp) (Group (pb_pl mp) g ! i) \<Longrightarrow>
    length (pu_running s) < pb_workers mp \<Longrightarrow>
    publisher_step mp s (s\<lparr>pu_entries := pu_entries s @ [manifest_entry (pb_quick mp) None (Group (pb_pl mp) g ! i)],
      pu_running := i # pu_running s, pu_stage := PubEntries g (Suc i)\<rparr>)"
| hash: "pu_stage s = PubEntries g k \<Longrightarrow> i \<in> set (pu_running s) \<Longrightarrow>
    publisher_step mp s (hash_done mp g i (s\<lparr>pu_running := remove1 i (pu_running s)\<rparr>))"
| publish: "pu_stage s = PubEntries g i \<Longrightarrow> i = length (Group (pb_pl mp) g) \<Longrightarrow> pu_running s = [] \<Longrightarrow>
    publisher_step mp s (s\<lparr>pu_sent := pu_sent s @ [group_message mp g (pu_entries s)], pu_stage := PubAcquire (Suc g)\<rparr>)"
| send_failed: "pu_stage s = PubStart \<or> pu_stage s = PubEntries g (length (Group (pb_pl mp) g)) \<and> pu_running s = [] \<Longrightarrow>
    publisher_step mp s (s\<lparr>pu_stage := PubErr e\<rparr>)"
| credit: "publisher_step mp s (s\<lparr>pu_gate := cg_add (int (unat n)) (pu_gate s), pu_gate_log := pu_gate_log s @ [GateCredit n]\<rparr>)"
| cancel: "publisher_step mp s (s\<lparr>pu_cancelled := True\<rparr>)"

section \<open>What is sent\<close>

text \<open>The messages up to group \<open>k\<close>, as the sequential definitions give them.\<close>

definition announced :: "manifestPublisher \<Rightarrow> nat \<Rightarrow> Message list" where
  "announced mp k = M_ScanComplete (scan_complete (pb_pl mp) (pb_skipped mp)) #
     map (\<lambda>g. M_GroupManifest (publishGroup (pb_quick mp) (pb_pl mp) (pb_hash mp) g)) [0..<k]"

text \<open>Entry \<open>i\<close> of the group while its goroutines run: complete when its goroutine has ended or it has none.\<close>

definition entry_state :: "manifestPublisher \<Rightarrow> nat \<Rightarrow> nat list \<Rightarrow> nat \<Rightarrow> ManifestEntry" where
  "entry_state mp g running i = manifest_entry (pb_quick mp)
     (if i \<in> set running then None else pb_hash mp (hash_id mp g i)) (Group (pb_pl mp) g ! i)"

definition stored :: "manifestPublisher \<Rightarrow> nat \<Rightarrow> (nat \<Rightarrow> bool) \<Rightarrow> digestStore \<Rightarrow> bool" where
  "stored mp g P d \<longleftrightarrow> (\<forall>i<length (Group (pb_pl mp) g). P i \<and> hashed (pb_quick mp) (Group (pb_pl mp) g ! i) \<longrightarrow>
     (\<forall>dg. pb_hash mp (hash_id mp g i) = Some dg \<longrightarrow> ds_get (hash_id mp g i) d = Some dg))"

fun stage_ok :: "manifestPublisher \<Rightarrow> publisher \<Rightarrow> pub_stage \<Rightarrow> bool" where
  "stage_ok mp s PubStart \<longleftrightarrow> pu_sent s = [] \<and> pu_running s = [] \<and> published (pu_gate_log s) = 0"
| "stage_ok mp s (PubAcquire g) \<longleftrightarrow> pu_sent s = announced mp g \<and> pu_running s = [] \<and> g \<le> NumGroups (pb_pl mp) \<and>
     (\<forall>h<g. stored mp h (\<lambda>_. True) (pu_digests s)) \<and> published (pu_gate_log s) = g"
| "stage_ok mp s (PubEntries g i) \<longleftrightarrow> pu_sent s = announced mp g \<and> g < NumGroups (pb_pl mp) \<and> i \<le> length (Group (pb_pl mp) g) \<and>
     (\<forall>h<g. stored mp h (\<lambda>_. True) (pu_digests s)) \<and> stored mp g (\<lambda>j. j < i \<and> j \<notin> set (pu_running s)) (pu_digests s) \<and>
     pu_entries s = map (entry_state mp g (pu_running s)) [0..<i] \<and> distinct (pu_running s) \<and>
     (\<forall>j\<in>set (pu_running s). j < i \<and> hashed (pb_quick mp) (Group (pb_pl mp) g ! j)) \<and> published (pu_gate_log s) = Suc g"
| "stage_ok mp s PubDone \<longleftrightarrow> pu_sent s = announced mp (NumGroups (pb_pl mp)) \<and> pu_running s = [] \<and>
     (\<forall>h<NumGroups (pb_pl mp). stored mp h (\<lambda>_. True) (pu_digests s)) \<and> published (pu_gate_log s) = NumGroups (pb_pl mp)"
| "stage_ok mp s (PubErr e) \<longleftrightarrow> (pu_sent s = [] \<or> (\<exists>k\<le>NumGroups (pb_pl mp). pu_sent s = announced mp k \<and>
     (\<forall>h<k. stored mp h (\<lambda>_. True) (pu_digests s)) \<and> k \<le> published (pu_gate_log s))) \<and> pu_running s = []"

definition publisher_inv :: "manifestPublisher \<Rightarrow> u16 \<Rightarrow> publisher \<Rightarrow> bool" where
  "publisher_inv mp credit s \<longleftrightarrow> stage_ok mp s (pu_stage s) \<and> length (pu_running s) \<le> pb_workers mp \<and>
     gate_run (pu_gate_log s) (newCreditGate (int (unat credit))) = Some (pu_gate s)"

lemma gate_run_append: "gate_run (es @ es') g = (case gate_run es g of None \<Rightarrow> None | Some g' \<Rightarrow> gate_run es' g')"
  by (induction es g rule: gate_run.induct) (auto split: option.splits)

lemma published_append [simp]: "published (es @ es') = published es + published es'"
  by (induction es rule: published.induct) auto

lemma manifest_entry_digest:
  "hashed quick e \<Longrightarrow> (manifest_entry quick None e)\<lparr>me_Digest := d\<rparr> = manifest_entry quick (Some d) e"
  "\<not> hashed quick e \<Longrightarrow> manifest_entry quick dg e = manifest_entry quick None e"
  by (simp_all add: manifest_entry_def)

lemma stored_set:
  assumes "stored mp h P d" "pb_hash mp i = Some dg" "\<And>j. Q j \<Longrightarrow> P j \<or> hash_id mp h j = i"
  shows "stored mp h Q (ds_set i dg d)"
  using assms by (auto simp: stored_def ds_get_def ds_set_def)

lemma stored_weaken:
  "stored mp h P d \<Longrightarrow> (\<And>j. Q j \<Longrightarrow> j < length (Group (pb_pl mp) h) \<Longrightarrow> hashed (pb_quick mp) (Group (pb_pl mp) h ! j) \<Longrightarrow>
     P j \<or> pb_hash mp (hash_id mp h j) = None) \<Longrightarrow> stored mp h Q d"
  by (force simp: stored_def)

lemma announced_Suc: "announced mp (Suc g) = announced mp g @ [M_GroupManifest (publishGroup (pb_quick mp) (pb_pl mp) (pb_hash mp) g)]"
  by (simp add: announced_def)

lemma group_message_complete:
  "group_message mp g (map (entry_state mp g []) [0..<length (Group (pb_pl mp) g)]) =
     M_GroupManifest (publishGroup (pb_quick mp) (pb_pl mp) (pb_hash mp) g)"
  by (simp add: group_message_def publishGroup_def entry_state_def hash_id_def Let_def)

text \<open>The end of one hash goroutine.\<close>

lemma hash_done_ok:
  assumes "stage_ok mp s (PubEntries g k)" "i \<in> set (pu_running s)"
  shows "stage_ok mp (hash_done mp g i (s\<lparr>pu_running := remove1 i (pu_running s)\<rparr>)) (PubEntries g k)"
proof -
  let ?R = "pu_running s" and ?R' = "remove1 i (pu_running s)"
  have R: "distinct ?R" "i < k" "hashed (pb_quick mp) (Group (pb_pl mp) g ! i)" "set ?R' = set ?R - {i}"
    using assms by (auto simp: set_remove1_eq)
  have e: "pu_entries s = map (entry_state mp g ?R) [0..<k]" using assms(1) by simp
  show ?thesis
  proof (cases "pb_hash mp (hash_id mp g i)")
    case None
    then have "entry_state mp g ?R' j = entry_state mp g ?R j" for j by (cases "j = i") (simp_all add: entry_state_def R(4))
    moreover have "stored mp g (\<lambda>j. j < k \<and> j \<notin> set ?R') (pu_digests s)"
      using assms(1) None by (auto intro!: stored_weaken [of mp g "\<lambda>j. j < k \<and> j \<notin> set ?R"] simp: R(4))
    ultimately show ?thesis using assms(1) R by (simp add: hash_done_def None)
  next
    case (Some d)
    have "(pu_entries s)[i := (pu_entries s ! i)\<lparr>me_Digest := d\<rparr>] = map (entry_state mp g ?R') [0..<k]"
    proof (rule nth_equalityI)
      fix j assume "j < length ((pu_entries s)[i := (pu_entries s ! i)\<lparr>me_Digest := d\<rparr>])"
      then have "j < k" using e by simp
      then show "(pu_entries s)[i := (pu_entries s ! i)\<lparr>me_Digest := d\<rparr>] ! j = map (entry_state mp g ?R') [0..<k] ! j"
        using R(2,3) assms(2) Some by (cases "j = i") (simp_all add: e entry_state_def R(4) manifest_entry_digest)
    qed (simp add: e)
    moreover have "stored mp g (\<lambda>j. j < k \<and> j \<notin> set ?R') (ds_set (hash_id mp g i) d (pu_digests s))"
      using assms(1) by (auto intro!: stored_set [OF _ Some, of _ "\<lambda>j. j < k \<and> j \<notin> set ?R"] simp: R(4))
    moreover have "\<forall>h<g. stored mp h (\<lambda>_. True) (ds_set (hash_id mp g i) d (pu_digests s))"
      using assms(1) by (auto intro: stored_set [OF _ Some])
    ultimately show ?thesis using assms(1) R by (simp add: hash_done_def Some)
  qed
qed

lemma hash_done_sel [simp]:
  "pu_stage (hash_done mp g i s) = pu_stage s" "pu_running (hash_done mp g i s) = pu_running s"
  "pu_gate (hash_done mp g i s) = pu_gate s" "pu_gate_log (hash_done mp g i s) = pu_gate_log s"
  by (simp_all add: hash_done_def split: option.splits)

text \<open>The start of one entry, with its goroutine or without.\<close>

lemma entry_added:
  assumes "stage_ok mp s (PubEntries g i)" "i < length (Group (pb_pl mp) g)"
    and "running = (if hashed (pb_quick mp) (Group (pb_pl mp) g ! i) then i # pu_running s else pu_running s)"
  shows "stage_ok mp (s\<lparr>pu_entries := pu_entries s @ [manifest_entry (pb_quick mp) None (Group (pb_pl mp) g ! i)],
      pu_running := running, pu_stage := PubEntries g (Suc i)\<rparr>) (PubEntries g (Suc i))"
proof -
  have r: "i \<notin> set (pu_running s)" "set running \<subseteq> insert i (set (pu_running s))" "set (pu_running s) \<subseteq> set running"
    using assms by auto
  then have "entry_state mp g running j = entry_state mp g (pu_running s) j" if "j < i" for j
    using that by (auto simp: entry_state_def)
  moreover have "entry_state mp g running i = manifest_entry (pb_quick mp) None (Group (pb_pl mp) g ! i)"
    using r(1) assms(3) manifest_entry_digest(2) [of "pb_quick mp" "Group (pb_pl mp) g ! i" "pb_hash mp (hash_id mp g i)"]
    by (simp add: entry_state_def)
  moreover have "stored mp g (\<lambda>j. j < Suc i \<and> j \<notin> set running) (pu_digests s)"
    using assms r(3) by (auto intro!: stored_weaken [of mp g "\<lambda>j. j < i \<and> j \<notin> set (pu_running s)"] simp: less_Suc_eq split: if_splits)
  ultimately show ?thesis using assms r by (auto simp: less_Suc_eq split: if_splits)
qed

lemma publisher_inv_step:
  assumes "publisher_step mp s s'" "publisher_inv mp credit s"
  shows "publisher_inv mp credit s'"
  using assms
proof (induction rule: publisher_step.induct)
  case (acquired s g gate)
  then show ?case by (auto simp: publisher_inv_def gate_run_append stored_def)
next
  case (cancelled s g)
  then have "\<exists>k\<le>NumGroups (pb_pl mp). pu_sent s = announced mp k \<and> (\<forall>h<k. stored mp h (\<lambda>_. True) (pu_digests s)) \<and>
      k \<le> published (pu_gate_log s)"
    by (intro exI [of _ g]) (simp add: publisher_inv_def)
  with cancelled show ?case by (simp add: publisher_inv_def)
next
  case (plain s g i)
  then have "stage_ok mp (s\<lparr>pu_entries := pu_entries s @ [manifest_entry (pb_quick mp) None (Group (pb_pl mp) g ! i)],
      pu_running := pu_running s, pu_stage := PubEntries g (Suc i)\<rparr>) (PubEntries g (Suc i))"
    by (intro entry_added) (simp_all add: publisher_inv_def)
  with plain show ?case by (simp add: publisher_inv_def)
next
  case (spawn s g i)
  then have "stage_ok mp (s\<lparr>pu_entries := pu_entries s @ [manifest_entry (pb_quick mp) None (Group (pb_pl mp) g ! i)],
      pu_running := i # pu_running s, pu_stage := PubEntries g (Suc i)\<rparr>) (PubEntries g (Suc i))"
    by (intro entry_added) (simp_all add: publisher_inv_def)
  with spawn show ?case by (simp add: publisher_inv_def)
next
  case (hash s g k i)
  then have "stage_ok mp (hash_done mp g i (s\<lparr>pu_running := remove1 i (pu_running s)\<rparr>)) (PubEntries g k)"
    by (intro hash_done_ok) (simp_all add: publisher_inv_def)
  moreover have "length (remove1 i (pu_running s)) \<le> pb_workers mp" using hash(3) by (auto simp: publisher_inv_def length_remove1)
  ultimately show ?case using hash(1,3) by (simp add: publisher_inv_def)
next
  case (publish s g i)
  then have st: "stage_ok mp s (PubEntries g i)" by (simp add: publisher_inv_def)
  then have "stored mp g (\<lambda>j. j < i \<and> j \<notin> set (pu_running s)) (pu_digests s)" by simp
  then have "stored mp g (\<lambda>_. True) (pu_digests s)" by (rule stored_weaken) (simp add: publish(2,3))
  moreover have "group_message mp g (pu_entries s) = M_GroupManifest (publishGroup (pb_quick mp) (pb_pl mp) (pb_hash mp) g)"
    using st publish(2,3) by (simp add: group_message_complete)
  ultimately have "stage_ok mp (s\<lparr>pu_sent := pu_sent s @ [group_message mp g (pu_entries s)], pu_stage := PubAcquire (Suc g)\<rparr>) (PubAcquire (Suc g))"
    using st publish(3) by (simp add: announced_Suc less_Suc_eq)
  with publish show ?case by (simp add: publisher_inv_def)
next
  case (send_failed s g e)
  then show ?case
  proof (cases "pu_stage s = PubStart")
    case False
    with send_failed have "\<exists>k\<le>NumGroups (pb_pl mp). pu_sent s = announced mp k \<and> (\<forall>h<k. stored mp h (\<lambda>_. True) (pu_digests s)) \<and>
        k \<le> published (pu_gate_log s)"
      by (intro exI [of _ g]) (simp add: publisher_inv_def)
    with send_failed False show ?thesis by (simp add: publisher_inv_def)
  qed (simp add: publisher_inv_def)
next
  case (credit s n)
  then show ?case by (cases "pu_stage s") (auto simp: publisher_inv_def gate_run_append)
next
  case (cancel s)
  then show ?case by (cases "pu_stage s") (auto simp: publisher_inv_def)
qed (auto simp: publisher_inv_def announced_def)

lemma publisher_inv_reach: "(publisher_step mp)\<^sup>*\<^sup>* (pub_start credit) s \<Longrightarrow> publisher_inv mp credit s"
proof (induction rule: rtranclp_induct)
  case base
  show ?case by (simp add: publisher_inv_def pub_start_def)
qed (rule publisher_inv_step)

lemma gate_run_balance:
  "gate_run es g = Some g' \<Longrightarrow> 0 \<le> cg_avail g \<Longrightarrow> cg_avail g' + int (published es) = cg_avail g + int (granted es) \<and> 0 \<le> cg_avail g'"
  by (induction es g rule: gate_run.induct) (force simp: cg_add_def acquire_def split: option.splits if_splits)+

lemma announced_prefix: "k \<le> n \<Longrightarrow> announced mp n = announced mp k @ map (\<lambda>g. M_GroupManifest (publishGroup (pb_quick mp) (pb_pl mp) (pb_hash mp) g)) [k..<n]"
  by (simp add: announced_def flip: map_append) (metis le_add_diff_inverse upt_add_eq_append zero_le)

text \<open>
  C26. What the publisher sends does not depend on the schedule of its hash goroutines or on when credit arrives: at every
  moment it has sent a prefix of SCAN_COMPLETE and the manifests of the groups in order, each with the digests of its own
  files, and all of them when it returns without an error; it has sent no more groups than the receiver has granted; every digest of
  a manifest that was sent is in the digest store, where the servicers look for it; and no more files than \<^verbatim>\<open>workers\<close> are hashed
  at a time.
\<close>

theorem publisher_exact:
  assumes "(publisher_step mp)\<^sup>*\<^sup>* (pub_start credit) s"
  shows "(\<exists>rest. announced mp (NumGroups (pb_pl mp)) = pu_sent s @ rest) \<and>
    (pu_stage s = PubDone \<longrightarrow> pu_sent s = announced mp (NumGroups (pb_pl mp))) \<and>
    length (pu_sent s) \<le> Suc (unat credit + granted (pu_gate_log s)) \<and>
    (\<forall>g. Suc g < length (pu_sent s) \<longrightarrow> stored mp g (\<lambda>_. True) (pu_digests s)) \<and>
    length (pu_running s) \<le> pb_workers mp"
proof -
  have inv: "publisher_inv mp credit s" by (rule publisher_inv_reach [OF assms])
  then have "int (published (pu_gate_log s)) \<le> int (unat credit + granted (pu_gate_log s))"
    using gate_run_balance [of "pu_gate_log s" "newCreditGate (int (unat credit))" "pu_gate s"]
    by (auto simp: publisher_inv_def newCreditGate_def)
  then have g: "published (pu_gate_log s) \<le> unat credit + granted (pu_gate_log s)" by (simp only: of_nat_le_iff)
  have "pu_sent s = [] \<or> (\<exists>k\<le>NumGroups (pb_pl mp). pu_sent s = announced mp k \<and> (\<forall>h<k. stored mp h (\<lambda>_. True) (pu_digests s)) \<and>
      k \<le> published (pu_gate_log s))"
  proof (cases "pu_stage s")
    case (PubEntries g i)
    with inv show ?thesis by (intro disjI2 exI [of _ g]) (simp add: publisher_inv_def)
  qed (use inv in \<open>auto simp: publisher_inv_def\<close>)
  then show ?thesis
  proof
    assume "\<exists>k\<le>NumGroups (pb_pl mp). pu_sent s = announced mp k \<and> (\<forall>h<k. stored mp h (\<lambda>_. True) (pu_digests s)) \<and> k \<le> published (pu_gate_log s)"
    then obtain k where k: "k \<le> NumGroups (pb_pl mp)" "pu_sent s = announced mp k" "\<forall>h<k. stored mp h (\<lambda>_. True) (pu_digests s)"
      "k \<le> published (pu_gate_log s)" by blast
    have "length (announced mp k) = Suc k" by (simp add: announced_def)
    with k g inv announced_prefix [OF k(1)] show ?thesis by (auto simp: publisher_inv_def)
  qed (use inv in \<open>auto simp: publisher_inv_def\<close>)
qed

definition sample_publisher :: manifestPublisher where
  "sample_publisher = \<lparr>pb_pl = \<lparr>pn_entries = [sample_entry ''b'' TypeFile], pn_keys = [str ''b''], pn_idByKey = Map.empty, pn_groupStart = [0, 1],
     pn_exclusions = [], pn_filterSig = [], pn_digest = [], pn_TotalFiles = 1, pn_TotalBytes = 5, pn_ExcludedCount = 0\<rparr>,
     pb_quick = False, pb_workers = 1, pb_skipped = 0, pb_hash = (\<lambda>_. Some [7])\<rparr>"

theorem publisher_exact_witness:
  "\<exists>s. (publisher_step sample_publisher)\<^sup>*\<^sup>* (pub_start 1) s \<and> pu_stage s = PubDone \<and> length (pu_sent s) = 2 \<and>
     pu_sent s = announced sample_publisher (NumGroups (pb_pl sample_publisher))"
proof -
  let ?P = sample_publisher
  have g: "NumGroups (pb_pl ?P) = 1" "Group (pb_pl ?P) 0 = [sample_entry ''b'' TypeFile]" "pb_workers ?P = 1" "pb_quick ?P = False"
      "hashed False (sample_entry ''b'' TypeFile)"
    by (simp_all add: sample_publisher_def NumGroups_def Group_def subslice_def hashed_def) (simp_all add: sample_entry_def)
  obtain s1 where 1: "publisher_step ?P (pub_start 1) s1" "pu_stage s1 = PubAcquire 0" "cg_avail (pu_gate s1) = 1" "pu_running s1 = []"
      "length (pu_sent s1) = 1"
    using publisher_step.announce [of "pub_start 1" ?P] by (fastforce simp: pub_start_def newCreditGate_def)
  obtain s2 where 2: "publisher_step ?P s1 s2" "pu_stage s2 = PubEntries 0 0" "pu_running s2 = []" "length (pu_sent s2) = 1"
    using publisher_step.acquired [of s1 0 ?P] 1 g by (fastforce simp: acquire_def)
  obtain s3 where 3: "publisher_step ?P s2 s3" "pu_stage s3 = PubEntries 0 1" "pu_running s3 = [0]" "length (pu_sent s3) = 1"
    using publisher_step.spawn [of s2 0 0 ?P] 2 g by fastforce
  obtain s4 where 4: "publisher_step ?P s3 s4" "pu_stage s4 = PubEntries 0 1" "pu_running s4 = []" "length (pu_sent s4) = 1"
    using publisher_step.hash [of s3 0 1 0 ?P] 3 by (fastforce simp: hash_done_def split: option.splits)
  obtain s5 where 5: "publisher_step ?P s4 s5" "pu_stage s5 = PubAcquire 1" "length (pu_sent s5) = 2"
    using publisher_step.publish [of s4 0 1 ?P] 4 g by fastforce
  obtain s6 where 6: "publisher_step ?P s5 s6" "pu_stage s6 = PubDone" "length (pu_sent s6) = 2"
    using publisher_step.finished [of s5 1 ?P] 5 g by fastforce
  have "(publisher_step ?P)\<^sup>*\<^sup>* (pub_start 1) s6" using 1(1) 2(1) 3(1) 4(1) 5(1) 6(1) 
    by (blast intro: converse_rtranclp_into_rtranclp)
  with publisher_exact [OF this] 6 show ?thesis by blast
qed

text \<open>
  The publisher stops only for credit: with at least one hash worker, in every reachable state it has returned, or it can go on, or
  it waits for a credit that the receiver has not given.
\<close>

lemma publisher_not_stuck:
  assumes "(publisher_step mp)\<^sup>*\<^sup>* (pub_start credit) s" "0 < pb_workers mp"
  shows "(\<exists>s'. publisher_step mp s s' \<and> (pu_stage s' \<noteq> pu_stage s \<or> pu_running s' \<noteq> pu_running s)) \<or>
    pu_stage s = PubDone \<or> (\<exists>e. pu_stage s = PubErr e) \<or>
    (\<exists>g<NumGroups (pb_pl mp). pu_stage s = PubAcquire g \<and> cg_avail (pu_gate s) \<le> 0)"
proof -
  have inv: "publisher_inv mp credit s" by (rule publisher_inv_reach [OF assms(1)])
  show ?thesis
  proof (cases "pu_stage s")
    case PubStart
    then show ?thesis using publisher_step.announce [OF PubStart] by fastforce
  next
    case (PubAcquire g)
    show ?thesis
    proof (cases "g < NumGroups (pb_pl mp)")
      case True
      show ?thesis
      proof (cases "acquire (pu_gate s)")
        case None
        then show ?thesis using True PubAcquire by (auto simp: acquire_def split: if_splits)
      next
        case (Some gate)
        from publisher_step.acquired [OF PubAcquire True this] show ?thesis using PubAcquire by force
      qed
    next
      case False
      then show ?thesis using publisher_step.finished [OF PubAcquire] PubAcquire by force
    qed
  next
    case (PubEntries g i)
    show ?thesis
    proof (cases "pu_running s = []")
      case True
      have "i \<le> length (Group (pb_pl mp) g)" using inv PubEntries by (simp add: publisher_inv_def)
      then consider "i = length (Group (pb_pl mp) g)" | "i < length (Group (pb_pl mp) g)" by linarith
      then show ?thesis
        by cases (use publisher_step.publish [OF PubEntries _ True] publisher_step.plain [OF PubEntries]
            publisher_step.spawn [OF PubEntries] PubEntries True assms(2) in fastforce)+
    next
      case False
      then obtain j where j: "j \<in> set (pu_running s)" by (cases "pu_running s") auto
      then have "length (remove1 j (pu_running s)) \<noteq> length (pu_running s)"
        by (simp add: length_remove1) (metis One_nat_def diff_less length_pos_if_in_set less_irrefl zero_less_one)
      then have "remove1 j (pu_running s) \<noteq> pu_running s" by auto
      with publisher_step.hash [OF PubEntries j] show ?thesis by force
    qed
  qed auto
qed

end
