(* ===== verification/Session_Setup.thy ===== *)
theory Session_Setup
  imports Digest Dest Session_Common
begin

text \<open>
  What both sessions set up around the transfer: where the digest cache lives and when it is opened (\<^verbatim>\<open>digest/cache.go\<close>, both \<^verbatim>\<open>run.go\<close>),
  the key of a file on each platform (\<^verbatim>\<open>statkey_*.go\<close>), the state of a hash that is saved and taken up again (\<^verbatim>\<open>digest/state.go\<close>) and the
  destination root (\<^verbatim>\<open>fsx/dest.go\<close>).
\<close>

section \<open>The digest cache\<close>

text \<open>\<open>xdg\<close> is the environment variable (empty when unset), \<open>home\<close> the result of \<^verbatim>\<open>os.UserHomeDir\<close>.\<close>

definition DefaultCachePath :: "bytes \<Rightarrow> err + bytes \<Rightarrow> err + bytes" where
  "DefaultCachePath xdg home =
     (if xdg \<noteq> [] then Inr (path_Join (path_Join xdg (str ''esync'')) (str ''digests.db''))
      else case home of
        Inl e \<Rightarrow> Inl (Wrap E8005 ''resolve digest cache path'' [] (Some e))
      | Inr h \<Rightarrow> Inr (path_Join (path_Join (path_Join h (str ''.cache'')) (str ''esync'')) (str ''digests.db'')))"

text \<open>The cache of a session: none with \<^verbatim>\<open>--no-cache\<close> or without a path; \<open>open\<close> is \<^verbatim>\<open>OpenCache\<close> on the file at a path.\<close>

definition session_cache :: "bool \<Rightarrow> bytes \<Rightarrow> err + bytes \<Rightarrow> (bytes \<Rightarrow> Cache) \<Rightarrow> Cache option" where
  "session_cache noCache xdg home open_at =
     (if noCache then None
      else case DefaultCachePath xdg home of Inl _ \<Rightarrow> None | Inr p \<Rightarrow> Some (open_at p))"

text \<open>\<^verbatim>\<open>Cache.warn\<close>: every problem is logged at debug level, the first one also as a warning; the lines that are logged.\<close>

datatype cache_line = CacheDebug bytes | CacheWarning err

definition cache_warn :: "bytes \<Rightarrow> string \<Rightarrow> err option \<Rightarrow> Cache \<Rightarrow> cache_line list \<times> Cache" where
  "cache_warn path what e c =
     (CacheDebug (str what) # (if dc_warned c then [] else [CacheWarning (Newf E8005 what path e (str ''using full hashing''))]),
      c\<lparr>dc_warned := True\<rparr>)"

fun cache_warns :: "bytes \<Rightarrow> (string \<times> err option) list \<Rightarrow> Cache \<Rightarrow> cache_line list \<times> Cache" where
  "cache_warns path [] c = ([], c)"
| "cache_warns path ((what, e) # ws) c = (case cache_warn path what e c of (l, c) \<Rightarrow> (case cache_warns path ws c of (ls, c) \<Rightarrow> (l @ ls, c)))"

fun is_warning :: "cache_line \<Rightarrow> bool" where
  "is_warning (CacheWarning e) = True"
| "is_warning (CacheDebug b) = False"

lemma cache_warns_quiet: "dc_warned c \<Longrightarrow> filter is_warning (fst (cache_warns path ws c)) = []"
  by (induction ws arbitrary: c) (auto simp: cache_warn_def case_prod_beta simp del: str_Cons)

text \<open>However many problems a cache has, the operator is warned once, about the first.\<close>

theorem cache_warns_once:
  assumes "\<not> dc_warned c"
  shows "filter is_warning (fst (cache_warns path ((what, e) # ws) c)) = [CacheWarning (Newf E8005 what path e (str ''using full hashing''))]"
proof -
  have "filter is_warning (fst (cache_warns path ws (c\<lparr>dc_warned := True\<rparr>))) = []" by (rule cache_warns_quiet) simp
  then show ?thesis using assms by (simp add: cache_warn_def case_prod_beta del: str_Cons)
qed

theorem cache_warns_once_witness:
  "filter is_warning (fst (cache_warns [] [(''a'', None), (''b'', None)] (OpenCache False False False None None))) =
     [CacheWarning (Newf E8005 ''a'' [] None (str ''using full hashing''))]"
  by (rule cache_warns_once) (simp add: OpenCache_def load_def Let_def)

section \<open>Keys of files\<close>

text \<open>
  \<^verbatim>\<open>syscall.Stat_t\<close> as the two systems have it: the device is 64 bits wide on Linux and a signed 32-bit number on macOS. On other
  systems there is no key and the cache is not used.
\<close>

record stat_times =
  st_Ino :: u64
  st_Size :: u64
  st_MtimeSec :: int
  st_MtimeNsec :: int
  st_CtimeSec :: int
  st_CtimeNsec :: int

definition stat_key :: "u64 \<Rightarrow> stat_times \<Rightarrow> Algo \<Rightarrow> CacheKey" where
  "stat_key dev st algo = \<lparr>ck_Dev = dev, ck_Ino = st_Ino st, ck_Size = st_Size st, ck_MtimeSec = st_MtimeSec st, ck_MtimeNsec = st_MtimeNsec st,
     ck_CtimeSec = st_CtimeSec st, ck_CtimeNsec = st_CtimeNsec st, ck_Algo = algo\<rparr>"

definition statKey_linux :: "(u64 \<times> stat_times) option \<Rightarrow> Algo \<Rightarrow> CacheKey option" where
  "statKey_linux sys algo = map_option (\<lambda>(dev, st). stat_key dev st algo) sys"

definition statKey_darwin :: "(32 word \<times> stat_times) option \<Rightarrow> Algo \<Rightarrow> CacheKey option" where
  "statKey_darwin sys algo = map_option (\<lambda>(dev, st). stat_key (scast dev) st algo) sys"

text \<open>
  The key tells two stat results apart whenever they differ in any of the fields it is made from, on both systems: the sign
  extension of the device loses nothing.
\<close>

theorem statKey_exact:
  "statKey_linux a algo = statKey_linux b algo \<longleftrightarrow> a = b"
  "statKey_darwin c algo = statKey_darwin d algo \<longleftrightarrow> c = d"
proof -
  have k: "stat_key x s algo = stat_key y t algo \<longleftrightarrow> x = y \<and> s = t" for x y s t
    by (auto simp: stat_key_def intro!: stat_times.equality)
  have "sint (scast x :: u64) = sint x" for x :: "32 word" by (rule sint_up_scast) (simp add: is_up)
  then have sc: "(scast x :: u64) = scast y \<longleftrightarrow> x = y" for x y :: "32 word" by (metis signed_word_eqI)
  show "statKey_linux a algo = statKey_linux b algo \<longleftrightarrow> a = b"
    by (cases a; cases b) (auto simp: statKey_linux_def k)
  show "statKey_darwin c algo = statKey_darwin d algo \<longleftrightarrow> c = d"
    by (cases c; cases d) (auto simp: statKey_darwin_def k sc)
qed

section \<open>The state of a hash\<close>

text \<open>
  A \<^verbatim>\<open>hash.Hash\<close> is its algorithm and what was written to it. The encoding of its state is the standard library's: \<open>mc_marshal\<close> and \<open>mc_unmarshal\<close>,
  \<open>None\<close> for a hash that does not support it or an encoding that is refused.
\<close>

record hasher =
  ha_algo :: Algo
  ha_written :: bytes

record state_codec =
  mc_marshal :: "Algo \<Rightarrow> bytes \<Rightarrow> bytes option"
  mc_unmarshal :: "Algo \<Rightarrow> bytes \<Rightarrow> bytes option"

definition ha_Write :: "bytes \<Rightarrow> hasher \<Rightarrow> hasher" where
  "ha_Write b h = h\<lparr>ha_written := ha_written h @ b\<rparr>"

definition ha_Sum :: "hashes \<Rightarrow> hasher \<Rightarrow> Code + bytes" where
  "ha_Sum H h = (case New_hash H (ha_algo h) of Inl c \<Rightarrow> Inl c | Inr f \<Rightarrow> Inr (f (ha_written h)))"

definition Marshal_hash :: "state_codec \<Rightarrow> hasher \<Rightarrow> Code + bytes" where
  "Marshal_hash C h = (case mc_marshal C (ha_algo h) (ha_written h) of None \<Rightarrow> Inl E8004 | Some b \<Rightarrow> Inr b)"

definition Unmarshal_hash :: "hashes \<Rightarrow> state_codec \<Rightarrow> Algo \<Rightarrow> bytes \<Rightarrow> Code + hasher" where
  "Unmarshal_hash H C a st = (case New_hash H a of
     Inl c \<Rightarrow> Inl c
   | Inr _ \<Rightarrow> (case mc_unmarshal C a st of None \<Rightarrow> Inl E8004 | Some w \<Rightarrow> Inr \<lparr>ha_algo = a, ha_written = w\<rparr>))"

definition codec_ok :: "state_codec \<Rightarrow> bool" where
  "codec_ok C \<longleftrightarrow> (\<forall>a w b. mc_marshal C a w = Some b \<longrightarrow> mc_unmarshal C a b = Some w)"

text \<open>
  A hash that is saved after a part of the input and taken up again gives the digest of the whole input, as if it had never stopped;
  a state is refused with E8004, and an algorithm that is not implemented with E1007.
\<close>

theorem hash_state_resumes:
  assumes "codec_ok C" "New_hash H a = Inr f" "Marshal_hash C (ha_Write p \<lparr>ha_algo = a, ha_written = []\<rparr>) = Inr st"
  shows "\<exists>h. Unmarshal_hash H C a st = Inr h \<and> ha_Sum H (ha_Write q h) = Inr (f (p @ q))"
proof -
  have "mc_unmarshal C a st = Some p"
    using assms(1,3) by (auto simp: codec_ok_def Marshal_hash_def ha_Write_def split: option.splits)
  with assms(2) show ?thesis by (simp add: Unmarshal_hash_def ha_Sum_def ha_Write_def)
qed

theorem hash_state_resumes_witness:
  "\<exists>h. Unmarshal_hash \<lparr>hs_md5 = rev, hs_sha256 = id\<rparr> \<lparr>mc_marshal = (\<lambda>_. Some), mc_unmarshal = (\<lambda>_. Some)\<rparr> MD5 [1, 2] = Inr h \<and>
     ha_Sum \<lparr>hs_md5 = rev, hs_sha256 = id\<rparr> (ha_Write [3] h) = Inr [3, 2, 1]"
  using hash_state_resumes [of "\<lparr>mc_marshal = (\<lambda>_. Some), mc_unmarshal = (\<lambda>_. Some)\<rparr>" "\<lparr>hs_md5 = rev, hs_sha256 = id\<rparr>" MD5 rev "[1, 2]" "[1, 2]" "[3]"]
  by (simp add: codec_ok_def New_hash_def Marshal_hash_def ha_Write_def)

section \<open>The destination root\<close>

definition OpenDest :: "err option \<Rightarrow> bytes \<Rightarrow> err option" where
  "OpenDest openRoot dir = map_option (\<lambda>e. New E1006 ''open destination root'' dir (Some e)) openRoot"

definition Chown :: "err option \<Rightarrow> bytes \<Rightarrow> err option" where
  "Chown lchown rel = map_option (\<lambda>e. New E7006 ''apply ownership'' rel (Some e)) lchown"

end
