(* ===== verification/Plan_Decisions.thy ===== *)
theory Plan_Decisions
  imports Receiver_Session Manifest Sender_State
begin

text \<open>
  The decisions of a whole session: a plan of the sender, its manifests, the decide workers of the receiver as \<^verbatim>\<open>Run\<close> starts them
  (\<^verbatim>\<open>receiver/run.go\<close>, step 9), and the tracker of the sender that gets their decisions between the events of the transfer. The groups
  may be decided in any order, and between two passes the fetch workers may have done anything.
\<close>

section \<open>The pipeline as \<^verbatim>\<open>Run\<close> builds it\<close>

text \<open>The platform of the receiver decides how its decider normalises and folds names.\<close>

definition destPlat :: "bool \<Rightarrow> Platform" where
  "destPlat darwin = (if platformID darwin = 1 then PlatformDarwin else PlatformLinux)"

text \<open>What the fetchers and the decider share: \<^verbatim>\<open>s.dest\<close>, \<^verbatim>\<open>s.q\<close>, \<^verbatim>\<open>s.guard\<close>, \<^verbatim>\<open>s.meta\<close>, \<^verbatim>\<open>s.hl\<close>, \<^verbatim>\<open>s.journal\<close> and the counters.\<close>

definition newFetcher :: "rConfig \<Rightarrow> u64 \<Rightarrow> tree \<Rightarrow> fetcher" where
  "newFetcher cfg freeBytes t = \<lparr>ft_tree = t, ft_meta = newMetaStore, ft_hl = newHardlinkMap,
     ft_fb = \<lparr>fb_guard = Some (newSpaceGuard freeBytes spaceMarginBytes), fb_queue = newNeedQueue needQueueDepth, fb_failed = 0,
       fb_neededBytes = 0, fb_neededFiles = 0\<rparr>,
     ft_journal = (if rc_DryRun cfg then None else Some []), ft_reqID = 0, ft_sent = [], ft_bytes = 0, ft_transferred = 0, ft_retries = 0,
     ft_retriesOK = 0, ft_completed = [], ft_fatal = None\<rparr>"

definition new_decide_cfg :: "rConfig \<Rightarrow> bool \<Rightarrow> Algo \<Rightarrow> completed \<Rightarrow> hashes \<Rightarrow> (bytes \<Rightarrow> bytes) \<Rightarrow> (bytes \<Rightarrow> bytes) \<Rightarrow> decide_cfg" where
  "new_decide_cfg cfg darwin algo prior H nfc lower = \<lparr>dg_plat = destPlat darwin, dg_quick = rc_Quick cfg, dg_dryRun = rc_DryRun cfg,
     dg_allowUnsafe = rc_AllowUnsafeLinks cfg, dg_prior = prior, dg_algo = algo, dg_hashes = H, dg_nfc = nfc, dg_lower = lower\<rparr>"

definition new_decider :: "rConfig \<Rightarrow> bool \<Rightarrow> u64 \<Rightarrow> tree \<Rightarrow> Cache option \<Rightarrow> decider" where
  "new_decider cfg darwin freeBytes t cache = \<lparr>de_f = newFetcher cfg freeBytes t, de_col = NewCollisions (destPlat darwin), de_cache = cache,
     de_dirMeta = Map.empty, de_rejected = 0, de_skipped = 0, de_dirs = 0, de_symlinks = 0, de_symlinksRejected = 0, de_sent = []\<rparr>"

section \<open>The ids of a plan\<close>

lemma Build_starts:
  assumes "Build nfc sha entries opts = Inr p" "sizes_ok (pn_entries p)"
  shows "g < NumGroups p \<Longrightarrow> pn_groupStart p ! Suc g = pn_groupStart p ! g + length (Group p g)"
    and "g \<le> NumGroups p \<Longrightarrow> pn_groupStart p ! g \<le> length (pn_entries p)"
    and "g < NumGroups p \<Longrightarrow> length (Group p g) \<le> 1024"
proof -
  let ?t = "groupTarget (op_GroupBytes opts)"
  note pk = groups_pack [OF Build_sel(4) [OF assms(1)] assms(2)]
  show "pn_groupStart p ! Suc g = pn_groupStart p ! g + length (Group p g)" if "g < NumGroups p"
    using that pk(1) pk(2) [OF that] pk(3) [of g] pk(3) [of "Suc g"] by (simp add: take_Suc_conv_app_nth)
  have "pn_entries p = concat (plan_groups p ?t)" by (simp add: plan_groups_def concat_pack)
  then have "length (pn_entries p) = length (concat (take g (plan_groups p ?t) @ drop g (plan_groups p ?t)))" by simp
  then show "pn_groupStart p ! g \<le> length (pn_entries p)" if "g \<le> NumGroups p"
    using pk(3) [OF that] by (simp only: concat_append length_append)
  show "length (Group p g) \<le> 1024" if "g < NumGroups p"
  proof -
    have mem: "Group p g \<in> set (plan_groups p ?t)" using pk(1,2) that by (metis nth_mem)
    then have "pn_entries p \<noteq> []" by (auto simp: plan_groups_def split: if_splits)
    then show ?thesis using pack_Nil_ok [of "pn_entries p" ?t] mem by (auto simp: plan_groups_def list_all_iff group_ok_def maxGroupEntries_def)
  qed
qed

lemma Build_starts_mono:
  assumes "Build nfc sha entries opts = Inr p" "sizes_ok (pn_entries p)" "g < h" "h \<le> NumGroups p"
  shows "pn_groupStart p ! g + length (Group p g) \<le> pn_groupStart p ! h"
  using assms(3,4)
proof (induction h)
  case (Suc h)
  then show ?case using Build_starts(1) [OF assms(1,2), of g] Build_starts(1) [OF assms(1,2), of h] by (cases "g = h") auto
qed simp

lemma unat_ucast16: "unat (ucast x :: u64) = unat x" for x :: u16
proof -
  have "uint (ucast x :: u64) = uint x" by (rule uint_up_ucast) (simp add: is_up)
  then show ?thesis by (metis unat_eq_nat_uint)
qed

section \<open>One pass of the decide worker\<close>

text \<open>A pass over group \<open>gr_group\<close> that ended well, from the state in which it started to the one it left.\<close>

record group_run =
  gr_group :: nat
  gr_io :: decide_io
  gr_before :: decider
  gr_after :: decider

definition run_ok :: "decide_cfg \<Rightarrow> bool \<Rightarrow> Plan \<Rightarrow> (u64 \<Rightarrow> bytes option) \<Rightarrow> group_run \<Rightarrow> bool" where
  "run_ok cfg quick p digests r \<longleftrightarrow> gr_group r < NumGroups p \<and> dv_decision (gr_io r) = None \<and>
     decideGroup cfg (gr_io r) (publishGroup quick p digests (gr_group r)) (gr_before r) = (DecideOK, gr_after r)"

text \<open>The decision that the pass sent.\<close>

definition sent_decision :: "group_run \<Rightarrow> GroupDecision" where
  "sent_decision r = (case de_sent (gr_after r) ! length (de_sent (gr_before r)) of M_GroupDecision gd \<Rightarrow> gd)"

text \<open>\<open>added\<close> are the items that the pass queued for its group, behind hard links that fell back to content.\<close>

definition queued :: "group_run \<Rightarrow> needItem list \<Rightarrow> bool" where
  "queued r added \<longleftrightarrow> (\<exists>fb. nq_items (fb_queue (ft_fb (de_f (gr_after r)))) = nq_items (fb_queue (ft_fb (de_f (gr_before r)))) @ fb @ added)"

lemma run_ok_decision:
  assumes "Build nfc sha entries opts = Inr p" "sizes_ok (pn_entries p)" "length (pn_entries p) < 2 ^ 64"
    and ok: "run_ok cfg quick p digests r" "\<not> dg_dryRun cfg"
  obtains added where "queued r added" "gd_GroupID (sent_decision r) = word_of_nat (gr_group r)" "distinct (map ni_fileID added)"
    "ni_fileID ` set added = (\<lambda>x. GroupFirstID p (gr_group r) + ucast x) ` set (gd_Needed (sent_decision r))"
    "\<And>it. it \<in> set added \<Longrightarrow> ni_groupID it = word_of_nat (gr_group r) \<and>
      (\<exists>j<length (Group p (gr_group r)). unat (ni_fileID it) = pn_groupStart p ! gr_group r + j)"
proof -
  let ?g = "gr_group r" and ?gm = "publishGroup quick p digests (gr_group r)"
  have g: "?g < NumGroups p" using ok by (simp add: run_ok_def)
  have gm: "gm_GroupID ?gm = word_of_nat ?g" "gm_FirstFileID ?gm = GroupFirstID p ?g" "length (gm_Entries ?gm) = length (Group p ?g)"
    by (simp_all add: publishGroup_def Let_def)
  note st = Build_starts [OF assms(1,2)]
  have len: "length (gm_Entries ?gm) \<le> 65535" using st(3) [OF g] gm(3) by simp
  have run: "decideGroup cfg (gr_io r) ?gm (gr_before r) = (DecideOK, gr_after r)" "dv_decision (gr_io r) = None"
    using ok(1) by (simp_all add: run_ok_def)
  obtain gd rest fb added where gd: "de_sent (gr_after r) = de_sent (gr_before r) @ M_GroupDecision gd # rest" "gd_GroupID gd = gm_GroupID ?gm"
    "sorted_wrt (<) (gd_Needed gd)" "\<forall>x\<in>set (gd_Needed gd). unat x < length (gm_Entries ?gm)"
    "nq_items (fb_queue (ft_fb (de_f (gr_after r)))) = nq_items (fb_queue (ft_fb (de_f (gr_before r)))) @ fb @ added"
    "mset (map item_key added) = mset (map (\<lambda>x. (gm_FirstFileID ?gm + ucast x, gm_GroupID ?gm)) (gd_Needed gd))"
    using decideGroup_decision [OF run len] ok(2) by auto
  have sent: "sent_decision r = gd" by (simp add: sent_decision_def gd(1))
  let ?f = "\<lambda>x. GroupFirstID p ?g + ucast (x :: u16)"
  have id: "unat (?f x) = pn_groupStart p ! ?g + unat x" if "x \<in> set (gd_Needed gd)" for x
  proof -
    have "unat x < length (Group p ?g)" using gd(4) gm(3) that by simp
    then have "pn_groupStart p ! ?g + unat x < 2 ^ 64" using st(1) [OF g] st(2) [of "Suc ?g"] g assms(3) by simp
    moreover have "unat (ucast x :: u64) = unat x" by (rule unat_ucast16)
    ultimately show ?thesis by (simp add: GroupFirstID_def unat_word_ariths unat_of_nat)
  qed
  have keys: "mset (map ni_fileID added) = mset (map ?f (gd_Needed gd))"
    using arg_cong [OF gd(6), of "image_mset fst"] by (simp add: gm item_key_def multiset.map_comp comp_def)
  have inj: "inj_on ?f (set (gd_Needed gd))" by (rule inj_onI) (metis id add_left_cancel word_unat_eq_iff)
  have "distinct (gd_Needed gd)" using gd(3) by (simp add: strict_sorted_iff)
  then have "distinct (map ?f (gd_Needed gd))" using inj by (simp add: distinct_map)
  then have dist: "distinct (map ni_fileID added)" using keys by (metis mset_eq_imp_distinct_iff)
  have items: "ni_groupID it = word_of_nat ?g \<and> (\<exists>j<length (Group p ?g). unat (ni_fileID it) = pn_groupStart p ! ?g + j)" if "it \<in> set added" for it
  proof -
    have "item_key it \<in> (\<lambda>x. (?f x, word_of_nat ?g)) ` set (gd_Needed gd)" using mset_eq_setD [OF gd(6)] that gm by auto
    then show ?thesis using gd(4) gm(3) id by (auto simp: item_key_def)
  qed
  show thesis
    using that [of added] gd(2,5) gm(1) mset_eq_setD [OF keys] dist items by (auto simp: sent queued_def)
qed

section \<open>The tracker of the sender\<close>

text \<open>The decisions among the events of the tracker, in order; the others are requests of the data channels.\<close>

fun decisions :: "tr_event list \<Rightarrow> GroupDecision list" where
  "decisions [] = []"
| "decisions (EvDecision gd # es) = gd # decisions es"
| "decisions (_ # es) = decisions es"

lemma finish_sel [simp]:
  "tr_needed (finishLocked r res t) = tr_needed t" "tr_decidedSet (finishLocked r res t) = tr_decidedSet t"
  "tr_groupsDecided (finishLocked r res t) = tr_groupsDecided t" "tr_groupFirst (finishLocked r res t) = tr_groupFirst t"
  by (auto simp: finishLocked_def Let_def split: option.splits)

lemma tr_step_other:
  assumes "decisions [e] = []"
  shows "tr_needed (tr_step e t) = tr_needed t \<and> tr_decidedSet (tr_step e t) = tr_decidedSet t \<and>
    tr_groupsDecided (tr_step e t) = tr_groupsDecided t \<and> tr_groupFirst (tr_step e t) = tr_groupFirst t"
  using assms by (cases e) (auto simp: bump_def reqStarted_def reqCompleted_def reqFailed_def reqCancelled_def Let_def split: option.splits)

lemma tr_step_decision:
  assumes "unat (gd_GroupID gd) < length (tr_groupFirst t)" "gd_GroupID gd \<notin> tr_decidedSet t"
  shows "tr_needed (tr_step (EvDecision gd) t) = tr_needed t \<union> (\<lambda>x. tr_groupFirst t ! unat (gd_GroupID gd) + ucast x) ` set (gd_Needed gd) \<and>
    tr_decidedSet (tr_step (EvDecision gd) t) = insert (gd_GroupID gd) (tr_decidedSet t) \<and>
    tr_groupsDecided (tr_step (EvDecision gd) t) = Suc (tr_groupsDecided t) \<and> tr_groupFirst (tr_step (EvDecision gd) t) = tr_groupFirst t"
  using assms by (simp add: decision_def Let_def mark_needed_set)

lemma tr_run_decisions:
  assumes "distinct (map gd_GroupID (decisions es))" "gd_GroupID ` set (decisions es) \<inter> tr_decidedSet t = {}"
    and "\<forall>gd\<in>set (decisions es). unat (gd_GroupID gd) < length (tr_groupFirst t)"
  shows "tr_needed (tr_run es t) = tr_needed t \<union>
      (\<Union>gd\<in>set (decisions es). (\<lambda>x. tr_groupFirst t ! unat (gd_GroupID gd) + ucast x) ` set (gd_Needed gd)) \<and>
    tr_groupsDecided (tr_run es t) = tr_groupsDecided t + length (decisions es)"
  using assms
proof (induction es arbitrary: t)
  case Nil
  then show ?case by (simp add: tr_run_def)
next
  case (Cons e es)
  show ?case
  proof (cases "decisions [e] = []")
    case True
    then have d: "decisions (e # es) = decisions es" by (cases e) auto
    from Cons.IH [of "tr_step e t"] Cons.prems tr_step_other [OF True, of t] show ?thesis by (simp add: d tr_run_def)
  next
    case False
    then obtain gd where e: "e = EvDecision gd" by (cases e) auto
    have "unat (gd_GroupID gd) < length (tr_groupFirst t)" "gd_GroupID gd \<notin> tr_decidedSet t" using Cons.prems by (simp_all add: e)
    note s = tr_step_decision [OF this]
    have "tr_run (e # es) t = tr_run es (tr_step e t)" by (simp add: tr_run_def)
    moreover have "gd_GroupID ` set (decisions es) \<inter> tr_decidedSet (tr_step e t) = {}" using Cons.prems s by (auto simp: e)
    ultimately show ?thesis using Cons.IH [of "tr_step e t"] Cons.prems s by (auto simp: e simp del: tr_step.simps)
  qed
qed

section \<open>All groups together\<close>

lemma disjoint_groups_distinct:
  assumes "\<forall>i<length xss. distinct (xss ! i)" "\<And>i j. i < j \<Longrightarrow> j < length xss \<Longrightarrow> set (xss ! i) \<inter> set (xss ! j) = {}"
  shows "distinct (concat xss)"
  using assms
proof (induction xss)
  case (Cons xs xss)
  have 1: "\<forall>i<length xss. distinct (xss ! i)" using Cons.prems(1) by auto
  have 2: "set (xss ! i) \<inter> set (xss ! j) = {}" if "i < j" "j < length xss" for i j
    using Cons.prems(2) [of "Suc i" "Suc j"] that by simp
  have "set xs \<inter> set (xss ! j) = {}" if "j < length xss" for j using Cons.prems(2) [of 0 "Suc j"] that by simp
  then have "set xs \<inter> set (concat xss) = {}" by (fastforce simp: in_set_conv_nth)
  moreover have "distinct xs" using Cons.prems(1) by auto
  ultimately show ?case using Cons.IH [OF 1 2] by simp
qed simp

text \<open>What holds of the items that the passes \<open>rs\<close> queued, \<open>iss\<close>, one list per pass.\<close>

definition items_of :: "Plan \<Rightarrow> group_run list \<Rightarrow> needItem list list \<Rightarrow> bool" where
  "items_of p rs iss \<longleftrightarrow> list_all2 (\<lambda>r is. queued r is \<and> gd_GroupID (sent_decision r) = word_of_nat (gr_group r) \<and> distinct (map ni_fileID is) \<and>
     ni_fileID ` set is = (\<lambda>x. GroupFirstID p (gr_group r) + ucast x) ` set (gd_Needed (sent_decision r)) \<and>
     (\<forall>it\<in>set is. ni_groupID it = word_of_nat (gr_group r) \<and>
        (\<exists>j<length (Group p (gr_group r)). unat (ni_fileID it) = pn_groupStart p ! gr_group r + j))) rs iss"

lemma runs_items:
  assumes "Build nfc sha entries opts = Inr p" "sizes_ok (pn_entries p)" "length (pn_entries p) < 2 ^ 64" "\<not> dg_dryRun cfg"
    and "list_all (run_ok cfg quick p digests) rs"
  shows "\<exists>iss. items_of p rs iss"
  using assms(5)
proof (induction rs)
  case Nil
  then show ?case by (auto simp: items_of_def)
next
  case (Cons r rs)
  then obtain iss where "items_of p rs iss" and ok: "run_ok cfg quick p digests r" by auto
  note this(1)
  moreover obtain "is" where "queued r is" "gd_GroupID (sent_decision r) = word_of_nat (gr_group r)" "distinct (map ni_fileID is)"
    "ni_fileID ` set is = (\<lambda>x. GroupFirstID p (gr_group r) + ucast x) ` set (gd_Needed (sent_decision r))"
    "\<And>it. it \<in> set is \<Longrightarrow> ni_groupID it = word_of_nat (gr_group r) \<and>
      (\<exists>j<length (Group p (gr_group r)). unat (ni_fileID it) = pn_groupStart p ! gr_group r + j)"
    by (rule run_ok_decision [OF assms(1-3) ok assms(4)]) blast
  ultimately have "items_of p (r # rs) (is # iss)" by (auto simp: items_of_def)
  then show ?case by blast
qed

lemma items_distinct:
  assumes B: "Build nfc sha entries opts = Inr p" "sizes_ok (pn_entries p)"
    and "items_of p rs iss" "distinct (map gr_group rs)" "\<forall>r\<in>set rs. gr_group r < NumGroups p"
  shows "distinct (map ni_fileID (concat iss))"
proof -
  note it = assms(3) [unfolded items_of_def list_all2_conv_all_nth]
  have rng: "unat (ni_fileID x) \<in> {pn_groupStart p ! gr_group (rs ! i)..<pn_groupStart p ! gr_group (rs ! i) + length (Group p (gr_group (rs ! i)))}"
    if "i < length iss" "x \<in> set (iss ! i)" for i x
    using it that by fastforce
  have dis: "set (map ni_fileID (iss ! i)) \<inter> set (map ni_fileID (iss ! j)) = {}" if ij: "i < j" "j < length iss" for i j
  proof -
    let ?a = "gr_group (rs ! i)" and ?b = "gr_group (rs ! j)"
    have l: "length rs = length iss" using it by simp
    then have ne: "?a \<noteq> ?b" using assms(4) ij by (auto simp: distinct_conv_nth)
    have lt: "?a < NumGroups p" "?b < NumGroups p" using assms(5) ij l by auto
    consider "?a < ?b" | "?b < ?a" using ne by linarith
    then have "pn_groupStart p ! ?a + length (Group p ?a) \<le> pn_groupStart p ! ?b \<or> pn_groupStart p ! ?b + length (Group p ?b) \<le> pn_groupStart p ! ?a"
      using Build_starts_mono [OF B, of ?a ?b] Build_starts_mono [OF B, of ?b ?a] lt by cases auto
    then have "unat (ni_fileID x) \<noteq> unat (ni_fileID y)" if "x \<in> set (iss ! i)" "y \<in> set (iss ! j)" for x y
      using rng [of i x] rng [of j y] that ij by auto
    then show ?thesis by fastforce
  qed
  have "distinct (concat (map (map ni_fileID) iss))"
    using it dis by (intro disjoint_groups_distinct) auto
  then show ?thesis by (simp only: map_concat)
qed

lemma runs_tracker:
  assumes "items_of p rs iss" "NumGroups p \<le> 2 ^ 32" "\<forall>r\<in>set rs. gr_group r < NumGroups p"
    and "distinct (map gr_group rs)" "decisions evs = map sent_decision rs"
  defines "t \<equiv> tr_run evs (newTracker (GroupFirsts p))"
  shows "tr_needed t = ni_fileID ` set (concat iss)" "tr_groupsDecided t = length rs" "length rs = NumGroups p \<longrightarrow> tr_decidedDone t"
proof -
  let ?init = "newTracker (GroupFirsts p)"
  have init: "tr_groupFirst ?init = GroupFirsts p" "tr_needed ?init = {}" "tr_decidedSet ?init = {}" "tr_groupsDecided ?init = 0"
    by (simp_all add: newTracker_def)
  have nf: "length (GroupFirsts p) = NumGroups p" by (simp add: GroupFirsts_def)
  have un: "unat (word_of_nat (gr_group r) :: u32) = gr_group r" if "r \<in> set rs" for r
    using assms(2,3) that by (force simp: unat_of_nat)
  have gid: "gd_GroupID (sent_decision r) = word_of_nat (gr_group r)" if "r \<in> set rs" for r
    using assms(1) that by (auto simp: items_of_def list_all2_conv_all_nth in_set_conv_nth)
  have "inj_on (\<lambda>r. gd_GroupID (sent_decision r)) (set rs)"
    using assms(4) by (intro inj_onI) (metis gid un distinct_map inj_onD)
  then have "distinct (map gd_GroupID (decisions evs))" using assms(4,5) by (simp add: distinct_map inj_on_def)
  moreover have "\<forall>gd\<in>set (decisions evs). unat (gd_GroupID gd) < length (tr_groupFirst ?init)"
    using assms(3) gid un by (simp add: assms(5) init nf)
  ultimately have run: "tr_needed t = (\<Union>r\<in>set rs. (\<lambda>x. GroupFirsts p ! gr_group r + ucast x) ` set (gd_Needed (sent_decision r)))"
    and decided: "tr_groupsDecided t = length rs"
    using tr_run_decisions [of evs ?init] gid un by (simp_all add: init assms(5) t_def)
  note run
  also have "(\<Union>r\<in>set rs. (\<lambda>x. GroupFirsts p ! gr_group r + ucast x) ` set (gd_Needed (sent_decision r))) =
      (\<Union>r\<in>set rs. (\<lambda>x. GroupFirstID p (gr_group r) + ucast x) ` set (gd_Needed (sent_decision r)))"
    using assms(3) by (simp add: GroupFirsts_def GroupFirstID_def)
  also have "\<dots> = (\<Union>is\<in>set iss. ni_fileID ` set is)"
    using assms(1) unfolding items_of_def by (induction rule: list_all2_induct) auto
  finally show "tr_needed t = ni_fileID ` set (concat iss)" by (simp add: image_UN)
  show "tr_groupsDecided t = length rs" by (rule decided)
  have "tr_reach (GroupFirsts p) t" unfolding t_def by (intro tr_reach_run tr_reach.init)
  then have "decided_inv (GroupFirsts p) t" "close_inv t" using tr_reach_inv by auto
  then show "length rs = NumGroups p \<longrightarrow> tr_decidedDone t" using decided by (simp add: close_inv_def decided_inv_def nf)
qed


text \<open>A plan of one file, decided by a receiver as it starts on an empty destination with a gigabyte free.\<close>

definition sample_plan_entries :: "Entry list" where "sample_plan_entries = [sample_entry ''b'' TypeFile]"

definition fresh_decider :: decider where "fresh_decider = new_decider sample_rConfig False (2 ^ 30) Map.empty None"

definition fresh_cfg :: decide_cfg where
  "fresh_cfg = new_decide_cfg sample_rConfig False MD5 Map.empty sample_hashes (\<lambda>x. x) (\<lambda>x. x)"

lemma sample_plan:
  assumes "Build (\<lambda>x. x) (\<lambda>x. x) sample_plan_entries no_filters = Inr p"
  shows "pn_entries p = sample_plan_entries" "sizes_ok (pn_entries p)" "pn_groupStart p = [0, 1]"
proof -
  have K: "keyed_of (\<lambda>x. x) no_filters sample_plan_entries = [key_entry (\<lambda>x. x) (classify no_filters (sample_entry ''b'' TypeFile))]"
    by (simp add: keyed_of_def admitted_no_filters sort_keyed_def sample_plan_entries_def)
  have "utf8_Valid (en_RelPath (sample_entry ''b'' TypeFile))"
    by (simp add: sample_entry_def utf8_Valid.simps DecodeRune_def RuneError_def ch_def)
  then have "map ky_e [key_entry (\<lambda>x. x) (classify no_filters (sample_entry ''b'' TypeFile))] = sample_plan_entries"
    by (simp add: key_entry_def orderingKey_def sample_plan_entries_def)
  then show e: "pn_entries p = sample_plan_entries" by (simp only: Build_sel(1) [OF assms] K)
  show z: "sizes_ok (pn_entries p)" by (simp add: e sample_plan_entries_def sizes_ok_def fileSize_def sample_entry_def)
  have "pn_entries p \<noteq> []" by (simp add: e sample_plan_entries_def)
  from computeGroups_pack [OF this z] show "pn_groupStart p = [0, 1]"
    unfolding Build_sel(4) [OF assms] by (simp add: e sample_plan_entries_def closes_def)
qed

lemma fresh_decides:
  "fst (decideGroup fresh_cfg sample_decide_io
     \<lparr>gm_GroupID = 0, gm_FirstFileID = 0, gm_Entries = [manifest_entry False None (sample_entry ''b'' TypeFile)]\<rparr> fresh_decider) = DecideOK"
  unfolding fresh_cfg_def new_decide_cfg_def destPlat_def fresh_decider_def new_decider_def newFetcher_def platformID_def sample_rConfig_def
    rConfig.simps
  by code_simp


end
